(* ===== verification/Wrdp_Prelude.thy ===== *)
theory Wrdp_Prelude
  imports Complex_Main "HOL-Library.Word" "HOL-Library.Char_ord" "HOL-Library.List_Lexorder"
begin

text \<open>
  Shared vocabulary of the WRDP development: the machine integers of the Rust code,
  its saturating and checked operations, monotonic time, results, and the parts of
  Rust's string API that the modelled sources use.

  \<^item> Unsigned integers are words of the source's width; \<open>usize\<close> is \<open>nat\<close>, the width
    being 64 on every supported target, with wrap-around written out where a value can
    exceed it.
  \<^item> \<open>Instant\<close> and \<open>Duration\<close> are natural numbers of nanoseconds.  \<open>Instant::elapsed\<close>
    and \<open>duration_since\<close> saturate at zero, which is what subtraction on \<open>nat\<close> does.
  \<^item> A Rust \<open>String\<close> is a \<open>string\<close> whose characters are the Unicode scalar values up to
    U+00FF, ordered as Rust orders strings (lexicographically by scalar value); the
    character classes below are Rust's on that range, and \<open>str_len\<close> is the
    length in UTF-8 bytes that \<open>str::len\<close> returns.
\<close>

named_theorems sat_simps \<open>saturating and checked machine arithmetic\<close>
named_theorems str_simps \<open>facts about the string API\<close>

section \<open>Machine integers\<close>

type_synonym u8 = "8 word"
type_synonym u16 = "16 word"
type_synonym u32 = "32 word"
type_synonym u64 = "64 word"
type_synonym usize = nat
type_synonym byte = u8

lemma unat_u32_less: "unat (w :: u32) < 4294967296"
  using unsigned_less[of w] by simp

definition saturating_add :: "'a::len word \<Rightarrow> 'a word \<Rightarrow> 'a word" where
  "saturating_add a b =
     (if unat a + unat b < 2 ^ LENGTH('a) then a + b else - 1)"

definition saturating_sub :: "'a::len word \<Rightarrow> 'a word \<Rightarrow> 'a word" where
  "saturating_sub a b = (if a \<le> b then 0 else a - b)"

definition checked_sub :: "nat \<Rightarrow> nat \<Rightarrow> nat option" where
  "checked_sub a b = (if b \<le> a then Some (a - b) else None)"

definition div_ceil :: "nat \<Rightarrow> nat \<Rightarrow> nat" where
  "div_ceil a b = a div b + (if a mod b > 0 then 1 else 0)"

lemma unat_saturating_add [sat_simps]:
  "unat (saturating_add a b) = min (unat a + unat b) (2 ^ LENGTH('a) - 1)"
  for a b :: "'a::len word"
proof (cases "unat a + unat b < 2 ^ LENGTH('a)")
  case True
  then show ?thesis by (simp add: saturating_add_def unat_word_ariths)
next
  case False
  have "unat (- 1 :: 'a word) = 2 ^ LENGTH('a) - 1"
    by (simp add: unsigned_minus_1_eq_mask mask_eq_exp_minus_1)
  with False show ?thesis by (simp add: saturating_add_def)
qed

lemma unat_saturating_sub [sat_simps]:
  "unat (saturating_sub a b) = unat a - unat b"
  by (auto simp: saturating_sub_def word_le_nat_alt unat_sub)

lemma saturating_add_ge: "a \<le> saturating_add a b"
  for a b :: "'a::len word"
proof -
  have "unat a < 2 ^ LENGTH('a)"
    by (rule unsigned_less)
  then have "unat a \<le> 2 ^ LENGTH('a) - 1"
    by linarith
  then show ?thesis
    by (simp add: word_le_nat_alt unat_saturating_add)
qed

lemma saturating_add_diff [sat_simps]:
  "a \<le> b \<Longrightarrow> saturating_add a (b - a) = b"
  using unsigned_less[of b] by (simp add: saturating_add_def unat_sub word_le_nat_alt)

lemma saturating_add_exact:
  "unat a + unat b < 2 ^ LENGTH('a) \<Longrightarrow> unat (saturating_add a b) = unat a + unat b"
  for a b :: "'a::len word"
  by (simp add: saturating_add_def unat_word_ariths)

lemma checked_sub_is_Some [sat_simps]: "(checked_sub a b \<noteq> None) \<longleftrightarrow> b \<le> a"
  by (simp add: checked_sub_def)

lemma div_ceil_bounds:
  assumes "b > 0"
  shows "a \<le> div_ceil a b * b" and "(div_ceil a b - 1) * b \<le> a"
proof -
  define q r where "q = a div b" and "r = a mod b"
  have a: "b * q + r = a" and r: "r < b"
    using assms by (simp_all add: q_def r_def)
  show "a \<le> div_ceil a b * b"
    unfolding div_ceil_def q_def [symmetric] r_def [symmetric] using a r
    by (cases "r > 0") (auto simp: algebra_simps)
  from a show "(div_ceil a b - 1) * b \<le> a"
    unfolding div_ceil_def q_def [symmetric] r_def [symmetric]
    by (cases "r > 0") (auto simp: algebra_simps diff_mult_distrib)
qed

lemma div_ceil_covers:
  assumes "b > 0" "x < a"
  shows "x div b < div_ceil a b"
proof -
  have "x < div_ceil a b * b"
    using div_ceil_bounds(1)[OF assms(1), of a] assms(2) by simp
  then show ?thesis
    using assms(1) by (simp add: less_mult_imp_div_less)
qed

lemma div_ceil_less:
  assumes "b > 0" "x < div_ceil a b"
  shows "x * b < a"
proof -
  define q r where "q = a div b" and "r = a mod b"
  have a: "b * q + r = a" by (simp add: q_def r_def)
  from assms(2) have x: "x < q + (if r > 0 then 1 else 0)"
    by (simp add: div_ceil_def q_def r_def)
  show ?thesis
  proof (cases "r > 0")
    case True
    with x have "b * x \<le> b * q" by simp
    with a True have "b * x < a" by linarith
    then show ?thesis by (simp add: mult.commute)
  next
    case False
    with x assms(1) have "b * x < b * q" by simp
    with a have "b * x < a" by linarith
    then show ?thesis by (simp add: mult.commute)
  qed
qed

lemma div_eq_iff_block: "b > 0 \<Longrightarrow> x div b = t \<longleftrightarrow> t * b \<le> x \<and> x < t * b + b" for x b t :: nat
  by (metis add.commute div_nat_eqI mult.commute mult_Suc dividend_less_div_times div_times_less_eq_dividend)

section \<open>Time\<close>

type_synonym instant = nat
type_synonym duration = nat

abbreviation (input) from_millis :: "nat \<Rightarrow> duration" where
  "from_millis n \<equiv> n * 1000000"

abbreviation (input) from_secs :: "nat \<Rightarrow> duration" where
  "from_secs n \<equiv> n * 1000000000"

abbreviation (input) elapsed :: "instant \<Rightarrow> instant \<Rightarrow> duration" where
  "elapsed since now \<equiv> now - since"

section \<open>Results\<close>

type_synonym ('e, 'a) result = "'e + 'a"

abbreviation Ok :: "'a \<Rightarrow> 'e + 'a" where "Ok \<equiv> Inr"
abbreviation Err :: "'e \<Rightarrow> 'e + 'a" where "Err \<equiv> Inl"

definition rbind :: "'e + 'a \<Rightarrow> ('a \<Rightarrow> 'e + 'b) \<Rightarrow> 'e + 'b" where
  "rbind r f = (case r of Inl e \<Rightarrow> Inl e | Inr a \<Rightarrow> f a)"

lemma rbind_simps [simp]: "rbind (Inl e) f = Inl e" "rbind (Inr a) f = f a"
  by (simp_all add: rbind_def)

lemma rbind_eq_Inr: "rbind r f = Inr b \<longleftrightarrow> (\<exists>a. r = Inr a \<and> f a = Inr b)"
  by (cases r) auto

definition is_ok :: "'e + 'a \<Rightarrow> bool" where
  "is_ok r = (case r of Inl _ \<Rightarrow> False | Inr _ \<Rightarrow> True)"

lemma is_ok_simps [simp]: "is_ok (Inl e) = False" "is_ok (Inr a) = True"
  by (simp_all add: is_ok_def)

text \<open>
  Running a sequence of fallible operations on a state, and the contract of a component
  whose admissible operations always succeed and keep its invariant.
\<close>

fun run_steps :: "('o \<Rightarrow> 's \<Rightarrow> 'e + 's) \<Rightarrow> 'o list \<Rightarrow> 's \<Rightarrow> 'e + 's" where
  "run_steps step [] s = Ok s"
| "run_steps step (x # xs) s = rbind (step x s) (run_steps step xs)"

lemma run_steps_snoc: "run_steps step (xs @ [x]) s = rbind (run_steps step xs s) (step x)"
proof (induction xs arbitrary: s)
  case (Cons y ys)
  then show ?case by (cases "step y s") simp_all
next
  case Nil
  then show ?case by (cases "step x s") simp_all
qed

locale safe_steps =
  fixes step :: "'o \<Rightarrow> 's \<Rightarrow> 'e + 's"
    and admissible :: "'o \<Rightarrow> bool"
    and invar :: "'s \<Rightarrow> bool"
  assumes step_safe: "invar s \<Longrightarrow> admissible x \<Longrightarrow> \<exists>s'. step x s = Ok s' \<and> invar s'"
begin

lemma run_safe: "invar s \<Longrightarrow> list_all admissible xs \<Longrightarrow> \<exists>s'. run_steps step xs s = Ok s' \<and> invar s'"
proof (induction xs arbitrary: s)
  case (Cons x xs)
  then obtain s1 where "step x s = Ok s1" "invar s1" using step_safe[of s x] by auto
  with Cons show ?case by auto
qed simp

end

text \<open>A history of operations that cannot fail, each at its instant.\<close>

fun run_timed :: "(instant \<Rightarrow> 'o \<Rightarrow> 's \<Rightarrow> 's) \<Rightarrow> (instant \<times> 'o) list \<Rightarrow> 's \<Rightarrow> 's" where
  "run_timed step [] s = s"
| "run_timed step ((now, x) # xs) s = run_timed step xs (step now x s)"

text \<open>
  Operations with replies, and the contract that a component implements an abstract one: on
  states that satisfy the invariant, an admissible operation gives the same reply and the same
  next state, up to abstraction.
\<close>

fun run_io :: "('o \<Rightarrow> 's \<Rightarrow> 'b \<times> 's) \<Rightarrow> 'o list \<Rightarrow> 's \<Rightarrow> 'b list \<times> 's" where
  "run_io step [] s = ([], s)"
| "run_io step (x # xs) s =
     (let (b, s1) = step x s; (bs, s2) = run_io step xs s1 in (b # bs, s2))"

lemma run_io_append:
  "run_io step (xs @ ys) s = (let (bs, s1) = run_io step xs s; (bs', s2) = run_io step ys s1 in (bs @ bs', s2))"
  by (induction xs arbitrary: s) (simp_all add: split_beta Let_def)

fun run_ok :: "('o \<Rightarrow> 's \<Rightarrow> 'b \<times> 's) \<Rightarrow> ('o \<Rightarrow> 's \<Rightarrow> bool) \<Rightarrow> 'o list \<Rightarrow> 's \<Rightarrow> bool" where
  "run_ok step ok [] s = True"
| "run_ok step ok (x # xs) s = (ok x s \<and> run_ok step ok xs (snd (step x s)))"

locale io_refinement =
  fixes cstep :: "'o \<Rightarrow> 's \<Rightarrow> 'b \<times> 's"
    and astep :: "'o \<Rightarrow> 't \<Rightarrow> 'b \<times> 't"
    and abst :: "'s \<Rightarrow> 't"
    and invar :: "'s \<Rightarrow> bool"
    and ok :: "'o \<Rightarrow> 's \<Rightarrow> bool"
  assumes refine: "invar s \<Longrightarrow> ok x s \<Longrightarrow>
    invar (snd (cstep x s)) \<and> fst (cstep x s) = fst (astep x (abst s)) \<and>
    abst (snd (cstep x s)) = snd (astep x (abst s))"
begin

lemma run_refines:
  "invar s \<Longrightarrow> run_ok cstep ok xs s \<Longrightarrow>
   invar (snd (run_io cstep xs s)) \<and> fst (run_io cstep xs s) = fst (run_io astep xs (abst s)) \<and>
   abst (snd (run_io cstep xs s)) = snd (run_io astep xs (abst s))"
proof (induction xs arbitrary: s)
  case (Cons x xs)
  obtain b s1 where c: "cstep x s = (b, s1)" by (cases "cstep x s")
  obtain b' t1 where a: "astep x (abst s) = (b', t1)" by (cases "astep x (abst s)")
  from Cons.prems refine[of s x] c a have "invar s1" "b = b'" "abst s1 = t1" "run_ok cstep ok xs s1" by auto
  with Cons.IH[of s1] c a show ?case by (simp add: split_beta Let_def)
qed simp

end

section \<open>Characters and strings\<close>

abbreviation (input) code :: "char \<Rightarrow> nat" where "code c \<equiv> of_char c"

definition char_is_control :: "char \<Rightarrow> bool" where
  "char_is_control c \<longleftrightarrow> code c < 32 \<or> (127 \<le> code c \<and> code c < 160)"

definition char_is_whitespace :: "char \<Rightarrow> bool" where
  "char_is_whitespace c \<longleftrightarrow>
     (9 \<le> code c \<and> code c \<le> 13) \<or> code c = 32 \<or> code c = 133 \<or> code c = 160"

definition char_is_ascii_digit :: "char \<Rightarrow> bool" where
  "char_is_ascii_digit c \<longleftrightarrow> 48 \<le> code c \<and> code c \<le> 57"

text \<open>
  \<open>char::is_alphanumeric\<close>: the alphabetic characters and the numeric ones (general
  categories Nd, Nl and No), which in the Latin-1 range adds the superscripts and the
  fractions to the ASCII letters and digits and the accented letters.
\<close>

definition char_is_alphanumeric :: "char \<Rightarrow> bool" where
  "char_is_alphanumeric c \<longleftrightarrow>
     (let n = code c in
        (48 \<le> n \<and> n \<le> 57) \<or> (65 \<le> n \<and> n \<le> 90) \<or> (97 \<le> n \<and> n \<le> 122) \<or>
        n \<in> {170, 178, 179, 181, 185, 186, 188, 189, 190} \<or>
        (192 \<le> n \<and> n \<le> 214) \<or> (216 \<le> n \<and> n \<le> 246) \<or> (248 \<le> n \<and> n \<le> 255))"

definition utf8_width :: "char \<Rightarrow> nat" where
  "utf8_width c = (if code c < 128 then 1 else 2)"

definition str_len :: "string \<Rightarrow> nat" where
  "str_len s = sum_list (map utf8_width s)"

lemma length_le_str_len [str_simps]: "length s \<le> str_len s"
  by (induction s) (auto simp: str_len_def utf8_width_def)

lemma str_len_append [str_simps]: "str_len (s @ t) = str_len s + str_len t"
  by (simp add: str_len_def)

text \<open>\<open>str::split_once\<close> and \<open>str::rsplit_once\<close> at a character.\<close>

fun split_once :: "char \<Rightarrow> string \<Rightarrow> (string \<times> string) option" where
  "split_once d [] = None"
| "split_once d (c # cs) =
     (if c = d then Some ([], cs)
      else map_option (\<lambda>(l, r). (c # l, r)) (split_once d cs))"

definition rsplit_once :: "char \<Rightarrow> string \<Rightarrow> (string \<times> string) option" where
  "rsplit_once d s = map_option (\<lambda>(l, r). (rev r, rev l)) (split_once d (rev s))"

lemma split_once_None [str_simps]: "split_once d s = None \<longleftrightarrow> d \<notin> set s"
  by (induction s) auto

lemma split_once_Some:
  "split_once d s = Some (l, r) \<longleftrightarrow> s = l @ d # r \<and> d \<notin> set l"
proof (induction s arbitrary: l)
  case (Cons c s)
  show ?case
  proof (cases "c = d")
    case True
    then show ?thesis by (cases l) auto
  next
    case False
    with Cons.IH show ?thesis by (cases l) auto
  qed
qed simp

lemma rsplit_once_None [str_simps]: "rsplit_once d s = None \<longleftrightarrow> d \<notin> set s"
  by (simp add: rsplit_once_def split_once_None)

lemma rsplit_once_Some:
  "rsplit_once d s = Some (l, r) \<longleftrightarrow> s = l @ d # r \<and> d \<notin> set r"
proof -
  have "rsplit_once d s = Some (l, r) \<longleftrightarrow> split_once d (rev s) = Some (rev r, rev l)"
    by (auto simp: rsplit_once_def)
  also have "\<dots> \<longleftrightarrow> rev s = rev r @ d # rev l \<and> d \<notin> set r"
    by (simp add: split_once_Some)
  also have "rev s = rev r @ d # rev l \<longleftrightarrow> s = l @ d # r"
    by (metis rev_rev_ident rev_append rev.simps(2) append.assoc append_Cons append_Nil)
  finally show ?thesis .
qed

text \<open>\<open>str::trim\<close>, \<open>strip_prefix\<close>, \<open>strip_suffix\<close>.\<close>

definition trim_start :: "string \<Rightarrow> string" where
  "trim_start = dropWhile char_is_whitespace"

definition trim_end :: "string \<Rightarrow> string" where
  "trim_end s = rev (dropWhile char_is_whitespace (rev s))"

definition trim :: "string \<Rightarrow> string" where
  "trim s = trim_end (trim_start s)"

fun strip_prefix :: "string \<Rightarrow> string \<Rightarrow> string option" where
  "strip_prefix [] s = Some s"
| "strip_prefix (p # ps) [] = None"
| "strip_prefix (p # ps) (c # cs) = (if p = c then strip_prefix ps cs else None)"

definition strip_suffix :: "string \<Rightarrow> string \<Rightarrow> string option" where
  "strip_suffix p s = map_option rev (strip_prefix (rev p) (rev s))"

lemma strip_prefix_Some: "strip_prefix p s = Some r \<longleftrightarrow> s = p @ r"
  by (induction p s rule: strip_prefix.induct) auto

text \<open>\<open>rsplit_once\<close> at a pattern of two different characters.\<close>

fun rsplit_once2 :: "char \<Rightarrow> char \<Rightarrow> string \<Rightarrow> (string \<times> string) option" where
  "rsplit_once2 a b (x # y # cs) =
     (case rsplit_once2 a b (y # cs) of
        Some (l, r) \<Rightarrow> Some (x # l, r)
      | None \<Rightarrow> if x = a \<and> y = b then Some ([], cs) else None)"
| "rsplit_once2 a b _ = None"

lemma rsplit_once2_None: "a \<notin> set s \<Longrightarrow> rsplit_once2 a b s = None"
  by (induction a b s rule: rsplit_once2.induct) auto

lemma rsplit_once2_last:
  assumes "a \<noteq> b" "a \<notin> set r"
  shows "rsplit_once2 a b (l @ a # b # r) = Some (l, r)"
proof (induction l)
  case Nil
  have "rsplit_once2 a b (b # r) = None" using assms by (intro rsplit_once2_None) auto
  then show ?case by simp
next
  case (Cons x l)
  then show ?case by (cases l) auto
qed

text \<open>\<open>str::lines\<close>, \<open>str::split_whitespace\<close>, \<open>Iterator::find_map\<close>.\<close>

definition strip_cr :: "string \<Rightarrow> string" where
  "strip_cr l = (if l \<noteq> [] \<and> last l = CHR 0x0D then butlast l else l)"

function lines :: "string \<Rightarrow> string list" where
  "lines s = (if s = [] then []
     else case split_once (CHR 0x0A) s of
            None \<Rightarrow> [s]
          | Some (l, r) \<Rightarrow> strip_cr l # lines r)"
  by pat_completeness auto
termination
  by (relation "measure length") (auto dest!: split_once_Some[THEN iffD1])

declare lines.simps [simp del]

function split_whitespace :: "string \<Rightarrow> string list" where
  "split_whitespace s =
     (case dropWhile char_is_whitespace s of
        [] \<Rightarrow> []
      | c # cs \<Rightarrow> (c # takeWhile (\<lambda>x. \<not> char_is_whitespace x) cs) #
                  split_whitespace (dropWhile (\<lambda>x. \<not> char_is_whitespace x) cs))"
  by pat_completeness auto
termination
proof (relation "measure length", goal_cases)
  case (2 s c cs)
  have "length (c # cs) \<le> length s" using 2 by (metis length_dropWhile_le)
  moreover have "length (dropWhile (\<lambda>x. \<not> char_is_whitespace x) cs) \<le> length cs" by (rule length_dropWhile_le)
  ultimately show ?case by simp
qed simp

declare split_whitespace.simps [simp del]

fun find_map :: "('a \<Rightarrow> 'b option) \<Rightarrow> 'a list \<Rightarrow> 'b option" where
  "find_map f [] = None"
| "find_map f (x # xs) = (case f x of None \<Rightarrow> find_map f xs | Some y \<Rightarrow> Some y)"

definition nth_opt :: "'a list \<Rightarrow> nat \<Rightarrow> 'a option" where
  "nth_opt xs n = (if n < length xs then Some (xs ! n) else None)"

definition is_token :: "string \<Rightarrow> bool" where
  "is_token t \<longleftrightarrow> t \<noteq> [] \<and> (\<forall>c \<in> set t. \<not> char_is_whitespace c)"

lemma split_whitespace_token:
  assumes "is_token t" "char_is_whitespace w"
  shows "split_whitespace (t @ w # s) = t # split_whitespace (w # s)"
proof -
  obtain c cs where t: "t = c # cs" using assms(1) by (cases t) (auto simp: is_token_def)
  have "\<not> char_is_whitespace c" "\<forall>x \<in> set cs. \<not> char_is_whitespace x" using assms(1) t by (auto simp: is_token_def)
  then show ?thesis
    using assms(2) by (simp add: t split_whitespace.simps[of "c # cs @ w # s"] takeWhile_append dropWhile_append)
qed

lemma split_whitespace_skip: "char_is_whitespace w \<Longrightarrow> split_whitespace (w # s) = split_whitespace s"
  by (simp add: split_whitespace.simps[of "w # s"] split_whitespace.simps[of s])

lemma split_whitespace_Nil [simp]: "split_whitespace [] = []"
  by (simp add: split_whitespace.simps)

text \<open>Fields, each followed by a white space character.\<close>

lemma split_whitespace_fields:
  "list_all (\<lambda>(t, w). is_token t \<and> char_is_whitespace w) tws \<Longrightarrow>
   split_whitespace (concat (map (\<lambda>(t, w). t @ [w]) tws)) = map fst tws"
  by (induction tws) (auto simp: split_whitespace_token split_whitespace_skip)

text \<open>\<open>str::parse\<close> for decimal integers.\<close>

fun digits_value :: "nat \<Rightarrow> string \<Rightarrow> nat option" where
  "digits_value acc [] = Some acc"
| "digits_value acc (c # cs) =
     (if char_is_ascii_digit c then digits_value (10 * acc + (code c - 48)) cs else None)"

definition parse_nat :: "string \<Rightarrow> nat option" where
  "parse_nat s = (if s = [] then None else digits_value 0 s)"

definition parse_unsigned :: "nat \<Rightarrow> string \<Rightarrow> nat option" where
  "parse_unsigned bits s =
     (case parse_nat (case s of c # cs \<Rightarrow> if c = CHR ''+'' then cs else s | [] \<Rightarrow> []) of
        Some n \<Rightarrow> if n < 2 ^ bits then Some n else None
      | None \<Rightarrow> None)"

definition parse_signed :: "nat \<Rightarrow> string \<Rightarrow> int option" where
  "parse_signed bits s =
     (case s of
        c # cs \<Rightarrow>
          if c = CHR ''-''
          then (case parse_nat cs of Some n \<Rightarrow> if n \<le> 2 ^ (bits - 1) then Some (- int n) else None | None \<Rightarrow> None)
          else map_option int (parse_unsigned (bits - 1) s)
      | [] \<Rightarrow> None)"

text \<open>\<open>str::split\<close> at a character, and joining.\<close>

fun split_char :: "char \<Rightarrow> string \<Rightarrow> string list" where
  "split_char d [] = [[]]"
| "split_char d (c # cs) =
     (if c = d then [] # split_char d cs
      else case split_char d cs of [] \<Rightarrow> [[c]] | p # ps \<Rightarrow> (c # p) # ps)"

fun join_with :: "string \<Rightarrow> string list \<Rightarrow> string" where
  "join_with sep [] = []"
| "join_with sep [s] = s"
| "join_with sep (s # ss) = s @ sep @ join_with sep ss"

lemma split_char_not_Nil [simp]: "split_char d s \<noteq> []"
  by (cases s) (auto split: list.splits)

lemma split_char_no_sep: "d \<notin> set s \<Longrightarrow> split_char d s = [s]"
  by (induction s) auto

lemma split_char_append: "d \<notin> set s \<Longrightarrow> split_char d (s @ d # r) = s # split_char d r"
  by (induction s) auto

lemma split_char_join:
  "list_all (\<lambda>s. d \<notin> set s) ss \<Longrightarrow> ss \<noteq> [] \<Longrightarrow> split_char d (join_with [d] ss) = ss"
  by (induction "[d]" ss rule: join_with.induct) (auto simp: split_char_no_sep split_char_append)

text \<open>Decimal printing of natural numbers, and that parsing inverts it.\<close>

definition digit_char :: "nat \<Rightarrow> char" where
  "digit_char d = char_of (48 + d)"

function show_nat :: "nat \<Rightarrow> string" where
  "show_nat n = (if n < 10 then [digit_char n] else show_nat (n div 10) @ [digit_char (n mod 10)])"
  by pat_completeness auto
termination
  by (relation "measure id") auto

declare show_nat.simps [simp del]

lemma code_digit_char: "d < 10 \<Longrightarrow> of_char (digit_char d) = 48 + d"
  by (simp add: digit_char_def)

lemma digits_value_append:
  "digits_value acc (s @ t) = (case digits_value acc s of None \<Rightarrow> None | Some v \<Rightarrow> digits_value v t)"
  by (induction s arbitrary: acc) auto

lemma digits_value_show: "digits_value 0 (show_nat n) = Some n"
proof (induction n rule: show_nat.induct)
  case (1 n)
  show ?case
  proof (cases "n < 10")
    case True
    then show ?thesis
      by (simp add: show_nat.simps[of n] char_is_ascii_digit_def code_digit_char)
  next
    case False
    have "n mod 10 < 10" by simp
    then have "char_is_ascii_digit (digit_char (n mod 10))" "of_char (digit_char (n mod 10)) - 48 = n mod 10"
      by (simp_all only: char_is_ascii_digit_def code_digit_char) simp_all
    with False 1 show ?thesis
      by (simp add: show_nat.simps[of n] digits_value_append)
  qed
qed

lemma show_nat_not_Nil [simp]: "show_nat n \<noteq> []"
  by (simp add: show_nat.simps)

lemma show_nat_digits: "c \<in> set (show_nat n) \<Longrightarrow> char_is_ascii_digit c"
proof (induction n arbitrary: c rule: show_nat.induct)
  case (1 n)
  have "char_is_ascii_digit (digit_char d)" if "d < 10" for d
    using that by (simp add: char_is_ascii_digit_def code_digit_char)
  then show ?case using 1 by (auto simp: show_nat.simps[of n] split: if_splits)
qed

lemma parse_nat_show: "parse_nat (show_nat n) = Some n"
  by (simp add: parse_nat_def digits_value_show)

lemma parse_unsigned_show: "n < 2 ^ bits \<Longrightarrow> parse_unsigned bits (show_nat n) = Some n"
proof -
  assume n: "n < 2 ^ bits"
  obtain c cs where s: "show_nat n = c # cs" by (cases "show_nat n") auto
  then have "char_is_ascii_digit c" using show_nat_digits[of c n] by simp
  then have "c \<noteq> CHR ''+''" by (auto simp: char_is_ascii_digit_def)
  with n s show ?thesis using parse_nat_show[of n] by (simp add: parse_unsigned_def)
qed

section \<open>Devices with keys\<close>

text \<open>
  The protocol of a device whose keys are pressed and released: no key is pressed while it is held, none is
  released while it is not.  \<open>replay\<close> follows a sequence of transitions from a set of held keys, or finds a violation;
  \<open>Forget\<close> is a device that drops its state.
\<close>

datatype 'k transition = Press 'k | Release 'k | Forget

fun replay :: "'k transition list \<Rightarrow> 'k set \<Rightarrow> 'k set option" where
  "replay [] H = Some H"
| "replay (Press k # ts) H = (if k \<in> H then None else replay ts (insert k H))"
| "replay (Release k # ts) H = (if k \<in> H then replay ts (H - {k}) else None)"
| "replay (Forget # ts) H = replay ts {}"

lemma replay_append: "replay (ts @ us) H = (case replay ts H of None \<Rightarrow> None | Some H' \<Rightarrow> replay us H')"
  by (induction ts H rule: replay.induct) auto

text \<open>The last transition of a key decides whether it is held.\<close>

fun concerns :: "'k \<Rightarrow> 'k transition \<Rightarrow> bool" where
  "concerns k (Press j) = (j = k)" | "concerns k (Release j) = (j = k)" | "concerns k Forget = True"

lemma replay_held:
  assumes "replay ts H = Some H'"
  shows "k \<in> H' \<longleftrightarrow> (case find (concerns k) (rev ts) of Some (Press _) \<Rightarrow> True | Some _ \<Rightarrow> False | None \<Rightarrow> k \<in> H)"
  using assms
proof (induction ts arbitrary: H' rule: rev_induct)
  case (snoc t ts)
  then obtain H1 where "replay ts H = Some H1" "replay [t] H1 = Some H'"
    by (auto simp: replay_append split: option.splits)
  with snoc.IH[of H1] show ?case by (cases t) (auto split: if_splits)
qed simp

locale press_release =
  fixes step :: "'o \<Rightarrow> 's \<Rightarrow> 'b \<times> 's"
    and held :: "'s \<Rightarrow> 'k set"
    and transitions :: "'b \<Rightarrow> 'k transition list"
    and invar :: "'s \<Rightarrow> bool"
  assumes legal: "step x s = (b, s') \<Longrightarrow> invar s \<Longrightarrow> invar s' \<and> replay (transitions b) (held s) = Some (held s')"
begin

lemma run_legal:
  "run_io step xs s = (bs, s') \<Longrightarrow> invar s \<Longrightarrow> invar s' \<and> replay (concat (map transitions bs)) (held s) = Some (held s')"
proof (induction xs arbitrary: s bs)
  case (Cons x xs)
  obtain b s1 where 1: "step x s = (b, s1)" by (cases "step x s")
  obtain bs2 s2 where 2: "run_io step xs s1 = (bs2, s2)" by (cases "run_io step xs s1")
  from Cons.prems 1 2 have "bs = b # bs2" "s' = s2" by auto
  with Cons.IH[of s1 bs2] 2 legal[OF 1 Cons.prems(2)] show ?case by (simp add: replay_append)
qed simp

text \<open>A key is down after a run exactly if its last transition was a press.\<close>

lemma run_held:
  assumes "run_io step xs s = (bs, s')" "invar s" "held s = {}"
  shows "k \<in> held s' \<longleftrightarrow> (\<exists>j. find (concerns k) (rev (concat (map transitions bs))) = Some (Press j))"
  using replay_held[OF conjunct2[OF run_legal[OF assms(1,2)]], of k] assms(3) by (auto split: option.splits transition.splits)

end

end
