(* ===== verification/Wrdp_Auth.thy ===== *)
theory Wrdp_Auth
  imports Wrdp_Prelude
begin

text \<open>
  Credential validation (\<open>src/src/auth\<close>): username checks and normalisation, the
  per-peer failure guard, and the two validators built on it.

  \<^item> \<open>validate_username\<close>, \<open>normalize_local_account_name\<close>: \<open>username.rs\<close>.
  \<^item> \<open>peer_guard\<close> and its operations: \<open>peer_limit.rs\<close>.  The two mutexes are never held
    across a call, so each operation is one atomic step on the record.
  \<^item> \<open>validate_pam\<close>, \<open>validate_static\<close>: the \<open>CredentialValidator\<close> implementations.  PAM and
    Argon2 are third-party code and appear as function arguments.  Each validation reads
    the clock once to test the lockout and once to record the outcome; the two readings
    are the arguments \<open>t\<close> and \<open>t'\<close>.

  The locale \<open>credential_gate\<close> is the contract both validators give their caller; the
  lockout bound is proved once inside it.
\<close>

section \<open>Usernames\<close>

datatype username_error =
    EmptyUsername
  | UsernameTooLong
  | ControlCharacters
  | UnsupportedPunctuation
  | NoLocalComponent

definition normalize_local_account_name :: "string \<Rightarrow> string" where
  "normalize_local_account_name username =
     (let without_domain = (case rsplit_once (CHR 0x5C) username of
                              None \<Rightarrow> username | Some (_, user) \<Rightarrow> user)
      in case split_once (CHR ''@'') without_domain of
           None \<Rightarrow> without_domain | Some (user, _) \<Rightarrow> user)"

definition username_char :: "char \<Rightarrow> bool" where
  "username_char c \<longleftrightarrow>
     char_is_alphanumeric c \<or> c \<in> {CHR ''_'', CHR ''-'', CHR ''.'', CHR 0x5C, CHR ''@''}"

definition validate_username :: "string \<Rightarrow> (username_error, unit) result" where
  "validate_username username =
     (if username = [] then Err EmptyUsername
      else if str_len username > 255 then Err UsernameTooLong
      else if CHR 0x00 \<in> set username \<or> list_ex char_is_control username
      then Err ControlCharacters
      else if \<not> list_all username_char username then Err UnsupportedPunctuation
      else if normalize_local_account_name username = [] then Err NoLocalComponent
      else Ok ())"

lemma normalize_local_account_name_parts:
  obtains pre post where "username = pre @ normalize_local_account_name username @ post"
    and "CHR 0x5C \<notin> set (normalize_local_account_name username)"
    and "CHR ''@'' \<notin> set (normalize_local_account_name username)"
proof -
  obtain pre w where w: "username = pre @ w" "CHR 0x5C \<notin> set w"
    and wd: "(case rsplit_once (CHR 0x5C) username of None \<Rightarrow> username | Some (_, user) \<Rightarrow> user) = w"
  proof (cases "rsplit_once (CHR 0x5C) username")
    case None
    moreover from None have "CHR 0x5C \<notin> set username" by (simp add: rsplit_once_None)
    ultimately show ?thesis using that[of "[]" username] by simp
  next
    case (Some lr)
    then obtain l r where lr: "lr = (l, r)" by (cases lr)
    with Some have "username = (l @ [CHR 0x5C]) @ r" "CHR 0x5C \<notin> set r"
      by (simp_all add: rsplit_once_Some)
    with Some lr show ?thesis by (intro that) simp_all
  qed
  show ?thesis
  proof (cases "split_once (CHR ''@'') w")
    case None
    then have "normalize_local_account_name username = w"
      using wd by (simp add: normalize_local_account_name_def)
    moreover have "CHR ''@'' \<notin> set w"
      using None by (simp add: split_once_None)
    ultimately show ?thesis using that[of pre "[]"] w by simp
  next
    case (Some lr)
    then obtain l r where "lr = (l, r)" by (cases lr)
    with Some have "normalize_local_account_name username = l"
      using wd by (simp add: normalize_local_account_name_def)
    moreover from Some \<open>lr = (l, r)\<close> have "w = l @ CHR ''@'' # r" "CHR ''@'' \<notin> set l"
      by (simp_all add: split_once_Some)
    ultimately show ?thesis using that[of pre "CHR ''@'' # r"] w by auto
  qed
qed

lemma normalize_noop:
  "CHR 0x5C \<notin> set u \<Longrightarrow> CHR ''@'' \<notin> set u \<Longrightarrow> normalize_local_account_name u = u"
  using rsplit_once_None[of "CHR 0x5C" u] split_once_None[of "CHR ''@''" u]
  by (simp add: normalize_local_account_name_def)

lemma validate_username_Ok:
  "validate_username u = Ok () \<longleftrightarrow>
     u \<noteq> [] \<and> str_len u \<le> 255 \<and> \<not> list_ex char_is_control u \<and>
     list_all username_char u \<and> normalize_local_account_name u \<noteq> [] \<and> CHR 0x00 \<notin> set u"
  by (auto simp: validate_username_def)

section \<open>The per-peer failure guard\<close>

datatype ip_addr = V4 u32 | V6 "128 word"

record failure =
  count :: u8
  failed_at :: instant

record peer_guard =
  current :: ip_addr
  failures :: "ip_addr \<rightharpoonup> failure"

definition peer_guard_new :: peer_guard where
  "peer_guard_new = \<lparr>current = V4 0, failures = Map.empty\<rparr>"

definition set_peer :: "ip_addr \<Rightarrow> peer_guard \<Rightarrow> peer_guard" where
  "set_peer ip g = g\<lparr>current := ip\<rparr>"

definition peer :: "peer_guard \<Rightarrow> ip_addr" where
  "peer g = current g"

definition lock_duration :: "u8 \<Rightarrow> duration option" where
  "lock_duration c =
     (if c \<le> 3 then None
      else if c = 4 then Some (from_secs 5)
      else if c = 5 then Some (from_secs 15)
      else Some (from_secs 60))"

definition blocked_for :: "peer_guard \<Rightarrow> ip_addr \<Rightarrow> instant \<Rightarrow> duration option" where
  "blocked_for g ip now =
     (case failures g ip of
        None \<Rightarrow> None
      | Some e \<Rightarrow> (case lock_duration (count e) of
                     None \<Rightarrow> None
                   | Some lock \<Rightarrow> checked_sub lock (elapsed (failed_at e) now)))"

definition record_failure :: "ip_addr \<Rightarrow> instant \<Rightarrow> peer_guard \<Rightarrow> peer_guard" where
  "record_failure ip now g =
     (let e = (case failures g ip of None \<Rightarrow> \<lparr>count = 0, failed_at = now\<rparr> | Some e \<Rightarrow> e)
      in g\<lparr>failures := (failures g)(ip \<mapsto> \<lparr>count = saturating_add (count e) 1, failed_at = now\<rparr>)\<rparr>)"

definition record_success :: "ip_addr \<Rightarrow> peer_guard \<Rightarrow> peer_guard" where
  "record_success ip g = g\<lparr>failures := (failures g)(ip := None)\<rparr>"

definition prune :: "instant \<Rightarrow> peer_guard \<Rightarrow> peer_guard" where
  "prune now g = g\<lparr>failures := (\<lambda>ip. case failures g ip of
       None \<Rightarrow> None
     | Some e \<Rightarrow> if elapsed (failed_at e) now < from_secs 120 then Some e else None)\<rparr>"

section \<open>Validators\<close>

record credentials =
  username :: string
  password :: string
  domain :: "string option"

datatype credential_decision = Accept | Reject
datatype validation_error = JoinError

record pam_validator =
  service :: string
  allowed :: "string option"
  pam_peers :: peer_guard


text \<open>
  The interface of the PAM binding: building a transaction for a service and a user with a
  conversation that answers with the user and the password, authenticating, and the account
  check.  \<open>authenticate\<close> is the code's use of it, \<open>pam_worker\<close> its run on a blocking worker
  that may fail to join.
\<close>

record 'tx nonstick =
  build :: "string \<Rightarrow> string \<Rightarrow> string \<times> string \<Rightarrow> 'tx option"
  tx_authenticate :: "'tx \<Rightarrow> bool \<times> 'tx"
  tx_account_management :: "'tx \<Rightarrow> bool \<times> 'tx"

definition authenticate :: "'tx nonstick \<Rightarrow> string \<Rightarrow> string \<Rightarrow> string \<Rightarrow> bool" where
  "authenticate ns svc user pw =
     (case build ns svc user (user, pw) of
        None \<Rightarrow> False
      | Some tx \<Rightarrow> (let (ok, tx') = tx_authenticate ns tx
                    in ok \<and> fst (tx_account_management ns tx')))"

definition pam_worker :: "'tx nonstick \<Rightarrow> bool \<Rightarrow> string \<Rightarrow> string \<Rightarrow> string \<Rightarrow> unit + bool" where
  "pam_worker ns joined svc user pw = (if joined then Inr (authenticate ns svc user pw) else Inl ())"

text \<open>
  \<open>pam\<close> is the worker's answer to \<open>authenticate(service, user, password)\<close>; \<open>Inl\<close> is a
  failure to join it.
\<close>

definition validate_pam ::
  "(string \<Rightarrow> string \<Rightarrow> string \<Rightarrow> unit + bool) \<Rightarrow> pam_validator \<Rightarrow> credentials \<Rightarrow> instant \<Rightarrow> instant
   \<Rightarrow> (validation_error, credential_decision) result \<times> pam_validator" where
  "validate_pam pam v c t t' =
     (if validate_username (username c) \<noteq> Ok () then (Ok Reject, v)
      else let user = normalize_local_account_name (username c) in
      if (case allowed v of None \<Rightarrow> False | Some a \<Rightarrow> a \<noteq> user) then (Ok Reject, v)
      else let ip = peer (pam_peers v) in
      if blocked_for (pam_peers v) ip t \<noteq> None then (Ok Reject, v)
      else case pam (service v) user (password c) of
             Inl _ \<Rightarrow> (Err JoinError, v)
           | Inr True \<Rightarrow> (Ok Accept, v\<lparr>pam_peers := record_success ip (pam_peers v)\<rparr>)
           | Inr False \<Rightarrow> (Ok Reject, v\<lparr>pam_peers := record_failure ip t' (pam_peers v)\<rparr>))"

text \<open>
  The Argon2 interface: parsing a PHC string, its algorithm identifier, and the password
  check.
\<close>

record 'h argon2 =
  password_hash_new :: "string \<Rightarrow> 'h option"
  algorithm :: "'h \<Rightarrow> string"
  verify_password :: "string \<Rightarrow> 'h \<Rightarrow> bool"

record static_validator =
  hashes :: "string \<rightharpoonup> string"
  static_peers :: peer_guard

datatype static_error =
    NoCredential
  | BadUsername username_error
  | BadHash
  | NotArgon2id string

text \<open>
  \<open>new_hashes\<close> collects the pairs into a map (a later pair for the same user replaces an
  earlier one) and checks every entry, in key order; the first error ends the construction.
\<close>

definition check_entry :: "'h argon2 \<Rightarrow> string \<Rightarrow> string \<Rightarrow> static_error option" where
  "check_entry ar user hash =
     (case validate_username user of
        Inl e \<Rightarrow> Some (BadUsername e)
      | Inr _ \<Rightarrow> (case password_hash_new ar hash of
                    None \<Rightarrow> Some BadHash
                  | Some h \<Rightarrow> if algorithm ar h = ''argon2id'' then None
                              else Some (NotArgon2id user)))"

lemma check_entry_None:
  "check_entry ar u s = None \<longleftrightarrow> validate_username u = Ok () \<and>
     (\<exists>h. password_hash_new ar s = Some h \<and> algorithm ar h = ''argon2id'')"
  by (auto simp: check_entry_def split: sum.splits option.splits)

fun first_error :: "'h argon2 \<Rightarrow> (string \<rightharpoonup> string) \<Rightarrow> string list \<Rightarrow> static_error option" where
  "first_error ar m [] = None"
| "first_error ar m (u # us) =
     (case (case m u of None \<Rightarrow> None | Some h \<Rightarrow> check_entry ar u h) of
        Some e \<Rightarrow> Some e
      | None \<Rightarrow> first_error ar m us)"

lemma first_error_None:
  "first_error ar m us = None \<Longrightarrow> m u = Some s \<Longrightarrow> u \<in> set us \<Longrightarrow> check_entry ar u s = None"
  by (induction us) (auto split: option.splits)

definition new_hashes ::
  "'h argon2 \<Rightarrow> (string \<times> string) list \<Rightarrow> (static_error, static_validator) result" where
  "new_hashes ar values =
     (let m = map_of (rev values) in
      if values = [] then Err NoCredential
      else case first_error ar m (sort (remdups (map fst values))) of
             Some e \<Rightarrow> Err e
           | None \<Rightarrow> Ok \<lparr>hashes = m, static_peers = peer_guard_new\<rparr>)"

definition validate_static ::
  "'h argon2 \<Rightarrow> static_validator \<Rightarrow> credentials \<Rightarrow> instant \<Rightarrow> instant
   \<Rightarrow> (validation_error, credential_decision) result \<times> static_validator" where
  "validate_static ar v c t t' =
     (if validate_username (username c) \<noteq> Ok () then (Ok Reject, v)
      else let ip = peer (static_peers v) in
      if blocked_for (static_peers v) ip t \<noteq> None then (Ok Reject, v)
      else let user = normalize_local_account_name (username c);
               accepted = (case hashes v user of
                             None \<Rightarrow> False
                           | Some s \<Rightarrow> (case password_hash_new ar s of
                                          None \<Rightarrow> False
                                        | Some h \<Rightarrow> verify_password ar (password c) h))
      in if accepted
         then (Ok Accept, v\<lparr>static_peers := record_success ip (static_peers v)\<rparr>)
         else (Ok Reject, v\<lparr>static_peers := record_failure ip t' (static_peers v)\<rparr>))"


definition pam_set_peer_ip :: "ip_addr \<Rightarrow> pam_validator \<Rightarrow> pam_validator" where
  "pam_set_peer_ip ip v = v\<lparr>pam_peers := set_peer ip (pam_peers v)\<rparr>"

definition pam_prune_stale_entries :: "instant \<Rightarrow> pam_validator \<Rightarrow> pam_validator" where
  "pam_prune_stale_entries now v = v\<lparr>pam_peers := prune now (pam_peers v)\<rparr>"

definition static_set_peer_ip :: "ip_addr \<Rightarrow> static_validator \<Rightarrow> static_validator" where
  "static_set_peer_ip ip v = v\<lparr>static_peers := set_peer ip (static_peers v)\<rparr>"

definition static_prune_stale_entries :: "instant \<Rightarrow> static_validator \<Rightarrow> static_validator" where
  "static_prune_stale_entries now v = v\<lparr>static_peers := prune now (static_peers v)\<rparr>"

section \<open>Histories of a listener\<close>

text \<open>
  What the serial listener does with a validator: it names the peer, prunes stale entries,
  and lets the handshake validate credentials.  \<open>run_events\<close> folds such a history.  Its log
  has, for each attempt, the peer on whose behalf it was made, whether it reached the
  authentication back end (\<open>reaches v c t\<close>), and the decision.
\<close>

datatype auth_event =
    SetPeer ip_addr
  | Prune instant
  | Attempt credentials instant instant

fun run_events ::
  "('v \<Rightarrow> ip_addr) \<Rightarrow> ('v \<Rightarrow> credentials \<Rightarrow> instant \<Rightarrow> bool)
   \<Rightarrow> ('v \<Rightarrow> credentials \<Rightarrow> instant \<Rightarrow> instant \<Rightarrow> 'r \<times> 'v) \<Rightarrow> (ip_addr \<Rightarrow> 'v \<Rightarrow> 'v) \<Rightarrow> (instant \<Rightarrow> 'v \<Rightarrow> 'v)
   \<Rightarrow> 'v \<Rightarrow> auth_event list \<Rightarrow> (ip_addr \<times> bool \<times> 'r) list \<times> 'v" where
  "run_events cur rc vd sp pr v [] = ([], v)"
| "run_events cur rc vd sp pr v (SetPeer ip # es) = run_events cur rc vd sp pr (sp ip v) es"
| "run_events cur rc vd sp pr v (Prune t # es) = run_events cur rc vd sp pr (pr t v) es"
| "run_events cur rc vd sp pr v (Attempt c t t' # es) =
     (let (r, v1) = vd v c t t'; (rs, v2) = run_events cur rc vd sp pr v1 es
      in ((cur v, rc v c t, r) # rs, v2))"

definition consultations :: "ip_addr \<Rightarrow> (ip_addr \<times> bool \<times> 'r) list \<Rightarrow> nat" where
  "consultations ip rs = length (filter (\<lambda>(p, reached, _). p = ip \<and> reached) rs)"

lemma consultations_simps [simp]:
  "consultations ip [] = 0"
  "consultations ip ((p, b, r) # rs) = (if p = ip \<and> b then 1 else 0) + consultations ip rs"
  by (simp_all add: consultations_def)

text \<open>The clock readings of a history never go back.\<close>

fun time_ordered :: "instant \<Rightarrow> auth_event list \<Rightarrow> bool" where
  "time_ordered now [] = True"
| "time_ordered now (SetPeer ip # es) = time_ordered now es"
| "time_ordered now (Prune t # es) = (now \<le> t \<and> time_ordered t es)"
| "time_ordered now (Attempt c t t' # es) = (now \<le> t \<and> t \<le> t' \<and> time_ordered t' es)"

fun end_time :: "instant \<Rightarrow> auth_event list \<Rightarrow> instant" where
  "end_time now [] = now"
| "end_time now (SetPeer ip # es) = end_time now es"
| "end_time now (Prune t # es) = end_time t es"
| "end_time now (Attempt c t t' # es) = end_time t' es"

text \<open>When a validation gets as far as the back end.\<close>

definition pam_reaches :: "pam_validator \<Rightarrow> credentials \<Rightarrow> instant \<Rightarrow> bool" where
  "pam_reaches v c t \<longleftrightarrow>
     validate_username (username c) = Ok () \<and>
     (case allowed v of None \<Rightarrow> True | Some a \<Rightarrow> a = normalize_local_account_name (username c)) \<and>
     blocked_for (pam_peers v) (peer (pam_peers v)) t = None"

definition static_reaches :: "static_validator \<Rightarrow> credentials \<Rightarrow> instant \<Rightarrow> bool" where
  "static_reaches v c t \<longleftrightarrow>
     validate_username (username c) = Ok () \<and>
     blocked_for (static_peers v) (peer (static_peers v)) t = None"

text \<open>
  \<open>lock_total n\<close> is the least time between the first and the \<open>n\<close>-th consecutive failure
  of one peer: four are free, the fifth waits 5 s, the sixth 15 s, each later one 60 s.
\<close>

definition lock_total :: "nat \<Rightarrow> duration" where
  "lock_total n =
     (if n \<le> 4 then 0 else if n = 5 then from_secs 5 else from_secs (20 + 60 * (n - 6)))"

lemma lock_total_slack: "from_secs (20 * n) \<le> lock_total n + from_secs 100"
  by (auto simp: lock_total_def)

text \<open>A peer with \<open>n\<close> failures on record that is not blocked has waited its lock out.\<close>

lemma lock_wait:
  assumes "unat c = min n 255"
    and "case lock_duration c of None \<Rightarrow> True | Some l \<Rightarrow> l < w"
  shows "lock_total (Suc n) \<le> lock_total n + w"
proof -
  have c: "c \<le> 3 \<longleftrightarrow> n \<le> 3" "c = 4 \<longleftrightarrow> n = 4" "c = 5 \<longleftrightarrow> n = 5"
    using assms(1) by (auto simp: word_le_nat_alt word_unat_eq_iff)
  consider "n \<le> 3" | "n = 4" | "n = 5" | "n \<ge> 6" by linarith
  then show ?thesis
    using assms(2) by cases (simp_all add: lock_duration_def lock_total_def c)
qed

section \<open>The contract of a validator, and what it bounds\<close>

locale credential_gate =
  fixes validate :: "'v \<Rightarrow> credentials \<Rightarrow> instant \<Rightarrow> instant
      \<Rightarrow> (validation_error, credential_decision) result \<times> 'v"
    and set_peer_ip :: "ip_addr \<Rightarrow> 'v \<Rightarrow> 'v"
    and prune_stale_entries :: "instant \<Rightarrow> 'v \<Rightarrow> 'v"
    and peers :: "'v \<Rightarrow> peer_guard"
    and reaches :: "'v \<Rightarrow> credentials \<Rightarrow> instant \<Rightarrow> bool"
  assumes peers_set_peer_ip: "peers (set_peer_ip ip v) = set_peer ip (peers v)"
    and peers_prune: "peers (prune_stale_entries t v) = prune t (peers v)"
    and reaches_unblocked: "reaches v c t \<Longrightarrow> blocked_for (peers v) (peer (peers v)) t = None"
    and validate_shut: "\<not> reaches v c t \<Longrightarrow> validate v c t t' = (Ok Reject, v)"
    and validate_open: "reaches v c t \<Longrightarrow> validate v c t t' = (r, v') \<Longrightarrow>
        (r = Err JoinError \<and> v' = v)
      \<or> (r = Ok Accept \<and> peers v' = record_success (peer (peers v)) (peers v))
      \<or> (r = Ok Reject \<and> peers v' = record_failure (peer (peers v)) t' (peers v))"
begin

text \<open>
  The account kept for one peer: \<open>k\<close> consultations since \<open>t0\<close>, of which the last \<open>n\<close>
  are on the guard's record.
\<close>

definition account :: "ip_addr \<Rightarrow> instant \<Rightarrow> nat \<Rightarrow> instant \<Rightarrow> 'v \<Rightarrow> bool" where
  "account ip t0 k now v \<longleftrightarrow> t0 \<le> now \<and>
     (case failures (peers v) ip of
        None \<Rightarrow> from_secs (20 * k) + t0 \<le> now
      | Some e \<Rightarrow> \<exists>n. unat (count e) = min n 255 \<and> failed_at e \<le> now \<and> t0 \<le> failed_at e \<and>
           from_secs (20 * k) + lock_total n + t0 \<le> failed_at e + from_secs (20 * n))"

lemma account_bound: "account ip t0 k now v \<Longrightarrow> from_secs (20 * k) + t0 \<le> now + from_secs 100"
proof -
  assume acc: "account ip t0 k now v"
  show ?thesis
  proof (cases "failures (peers v) ip")
    case None
    with acc show ?thesis by (simp add: account_def)
  next
    case (Some e)
    with acc obtain n where "failed_at e \<le> now"
      "from_secs (20 * k) + lock_total n + t0 \<le> failed_at e + from_secs (20 * n)"
      by (auto simp: account_def)
    with lock_total_slack[of n] show ?thesis by linarith
  qed
qed

lemma account_set_peer_ip: "account ip t0 k now v \<Longrightarrow> account ip t0 k now (set_peer_ip p v)"
  by (simp add: account_def peers_set_peer_ip set_peer_def)

lemma account_prune:
  assumes acc: "account ip t0 k now v" and t: "now \<le> t"
  shows "account ip t0 k t (prune_stale_entries t v)"
proof (cases "failures (peers v) ip")
  case None
  with assms show ?thesis by (simp add: account_def peers_prune prune_def)
next
  case (Some e)
  with acc obtain n where n: "unat (count e) = min n 255" "failed_at e \<le> now" "t0 \<le> failed_at e"
    "from_secs (20 * k) + lock_total n + t0 \<le> failed_at e + from_secs (20 * n)"
    by (auto simp: account_def)
  show ?thesis
  proof (cases "elapsed (failed_at e) t < from_secs 120")
    case True
    with Some n t acc show ?thesis
      by (auto simp: account_def peers_prune prune_def)
  next
    case False
    with n(2-4) t lock_total_slack[of n] have "from_secs (20 * k) + t0 \<le> t" by linarith
    with False Some acc t show ?thesis
      by (simp add: account_def peers_prune prune_def)
  qed
qed

lemma account_failure:
  assumes acc: "account ip t0 k now v" and t: "now \<le> t" "t \<le> t'"
    and open_gate: "blocked_for (peers v) ip t = None"
    and v': "peers v' = record_failure ip t' (peers v)"
  shows "account ip t0 (Suc k) t' v'"
proof (cases "failures (peers v) ip")
  case None
  with acc have "from_secs (20 * k) + t0 \<le> now" "t0 \<le> now" by (simp_all add: account_def)
  with t have "from_secs (20 * Suc k) + lock_total 1 + t0 \<le> t' + from_secs (20 * 1)" "t0 \<le> t'"
    by (simp_all add: lock_total_def)
  then show ?thesis using None
    by (auto simp: account_def v' record_failure_def sat_simps intro!: exI[of _ "1::nat"])
next
  case (Some e)
  with acc obtain n where n: "unat (count e) = min n 255" "failed_at e \<le> now" "t0 \<le> failed_at e"
    "from_secs (20 * k) + lock_total n + t0 \<le> failed_at e + from_secs (20 * n)"
    by (auto simp: account_def)
  have "lock_total (Suc n) \<le> lock_total n + elapsed (failed_at e) t"
    using open_gate Some n(1)
    by (intro lock_wait) (auto simp: blocked_for_def checked_sub_def split: option.splits if_splits)
  with n(2-4) t have "from_secs (20 * Suc k) + lock_total (Suc n) + t0 \<le> t' + from_secs (20 * Suc n)"
    "t0 \<le> t'" by (simp_all)
  moreover have "unat (saturating_add (count e) 1) = min (Suc n) 255"
    using n(1) by (simp add: sat_simps)
  ultimately show ?thesis using Some
    by (auto simp: account_def v' record_failure_def intro!: exI[of _ "Suc n"])
qed

lemma account_frame:
  assumes "account ip t0 k now v" "now \<le> t" "failures (peers v') ip = failures (peers v) ip"
  shows "account ip t0 k t v'"
  using assms by (fastforce simp: account_def split: option.splits)

lemma account_attempt:
  assumes acc: "account ip t0 k now v" and t: "now \<le> t" "t \<le> t'"
    and v': "validate v c t t' = (r, v')"
    and rej: "peer (peers v) = ip \<Longrightarrow> r = Ok Reject"
  shows "account ip t0 (k + (if peer (peers v) = ip \<and> reaches v c t then 1 else 0)) t' v'"
proof (cases "reaches v c t")
  case False
  then have "v' = v" using v' by (simp add: validate_shut)
  with False acc t show ?thesis by (auto intro: account_frame)
next
  case True
  note cases = validate_open[OF True v']
  show ?thesis
  proof (cases "peer (peers v) = ip")
    case peer_ip: True
    with rej cases have "peers v' = record_failure ip t' (peers v)" by auto
    with account_failure[OF acc t] reaches_unblocked[OF True] peer_ip True show ?thesis by simp
  next
    case False
    with cases have "failures (peers v') ip = failures (peers v) ip"
      by (auto simp: record_success_def record_failure_def)
    with False acc t show ?thesis by (auto intro: account_frame)
  qed
qed

lemma account_run:
  assumes "account ip t0 k now v" "time_ordered now es"
    and "run_events (\<lambda>v. peer (peers v)) reaches validate set_peer_ip prune_stale_entries v es = (rs, v')"
    and "\<And>b r. (ip, b, r) \<in> set rs \<Longrightarrow> r = Ok Reject"
  shows "account ip t0 (k + consultations ip rs) (end_time now es) v'"
  using assms
proof (induction es arbitrary: k now v rs)
  case (Cons ev es)
  show ?case
  proof (cases ev)
    case (Attempt c t t')
    obtain r v1 where r: "validate v c t t' = (r, v1)" by fastforce
    obtain rs' where run: "run_events (\<lambda>v. peer (peers v)) reaches validate set_peer_ip
        prune_stale_entries v1 es = (rs', v')" "rs = (peer (peers v), reaches v c t, r) # rs'"
      using Cons.prems(3) Attempt r by (auto split: prod.splits)
    have rej: "r = Ok Reject" if "peer (peers v) = ip"
      using Cons.prems(4)[of "reaches v c t" r] run(2) that by simp
    have "account ip t0 (k + (if peer (peers v) = ip \<and> reaches v c t then 1 else 0)) t' v1"
      using Cons.prems(2) Attempt by (intro account_attempt[OF Cons.prems(1) _ _ r rej]) auto
    moreover have "time_ordered t' es" using Cons.prems(2) Attempt by simp
    moreover have "r' = Ok Reject" if "(ip, b, r') \<in> set rs'" for b r'
      using Cons.prems(4)[of b r'] run(2) that by simp
    ultimately have "account ip t0 (k + (if peer (peers v) = ip \<and> reaches v c t then 1 else 0)
        + consultations ip rs') (end_time t' es) v'"
      by (rule Cons.IH[OF _ _ run(1)])
    then show ?thesis using Attempt run(2) by (simp add: add.assoc)
  next
    case (SetPeer p)
    with Cons.prems Cons.IH[of k now "set_peer_ip p v"] show ?thesis
      by (simp add: account_set_peer_ip)
  next
    case (Prune t)
    with Cons.prems Cons.IH[of k t "prune_stale_entries t v"] show ?thesis
      by (simp add: account_prune)
  qed
qed simp

theorem lockout_bound:
  assumes "failures (peers v) ip = None" "time_ordered t0 es"
    and "run_events (\<lambda>v. peer (peers v)) reaches validate set_peer_ip prune_stale_entries v es = (rs, v')"
    and "\<And>b r. (ip, b, r) \<in> set rs \<Longrightarrow> r = Ok Reject"
  shows "from_secs (20 * consultations ip rs) \<le> (end_time t0 es - t0) + from_secs 100"
proof -
  have "account ip t0 0 t0 v" using assms(1) by (simp add: account_def)
  from account_run[OF this assms(2,3)] assms(4)
  have acc: "account ip t0 (consultations ip rs) (end_time t0 es) v'" by simp
  then have "t0 \<le> end_time t0 es" by (simp add: account_def)
  with account_bound[OF acc] show ?thesis by linarith
qed

end

interpretation pam: credential_gate "validate_pam pam" pam_set_peer_ip pam_prune_stale_entries
  pam_peers pam_reaches for pam
proof unfold_locales
  fix v c t t' r v'
  show "\<not> pam_reaches v c t \<Longrightarrow> validate_pam pam v c t t' = (Ok Reject, v)"
    by (auto simp: validate_pam_def pam_reaches_def Let_def split: option.splits)
  assume "pam_reaches v c t" "validate_pam pam v c t t' = (r, v')"
  then show "(r = Err JoinError \<and> v' = v)
      \<or> (r = Ok Accept \<and> pam_peers v' = record_success (peer (pam_peers v)) (pam_peers v))
      \<or> (r = Ok Reject \<and> pam_peers v' = record_failure (peer (pam_peers v)) t' (pam_peers v))"
    by (auto simp: validate_pam_def pam_reaches_def Let_def
        split: option.splits sum.splits bool.splits if_splits)
qed (simp_all add: pam_set_peer_ip_def pam_prune_stale_entries_def pam_reaches_def)

interpretation static: credential_gate "validate_static ar" static_set_peer_ip
  static_prune_stale_entries static_peers static_reaches for ar
proof unfold_locales
  fix v c t t' r v'
  show "\<not> static_reaches v c t \<Longrightarrow> validate_static ar v c t t' = (Ok Reject, v)"
    by (auto simp: validate_static_def static_reaches_def Let_def)
  assume "static_reaches v c t" "validate_static ar v c t t' = (r, v')"
  then show "(r = Err JoinError \<and> v' = v)
      \<or> (r = Ok Accept \<and> static_peers v' = record_success (peer (static_peers v)) (static_peers v))
      \<or> (r = Ok Reject \<and> static_peers v' = record_failure (peer (static_peers v)) t' (static_peers v))"
    by (auto simp: validate_static_def static_reaches_def Let_def split: if_splits)
qed (simp_all add: static_set_peer_ip_def static_prune_stale_entries_def static_reaches_def)


section \<open>Properties\<close>

text \<open>
  C1.  A username that passes \<open>validate_username\<close> normalises to a non-empty local account
  name of at most 255 bytes that has no domain separator left, consists of alphanumerics,
  underscore, dash and dot only (so no control, shell or path character reaches PAM or
  session management), is itself a valid username, and is a fixed point of normalisation.
\<close>

theorem validated_username_is_safe:
  assumes "validate_username u = Ok ()"
  shows "validate_username (normalize_local_account_name u) = Ok ()
    \<and> normalize_local_account_name (normalize_local_account_name u) = normalize_local_account_name u
    \<and> (\<forall>c \<in> set (normalize_local_account_name u).
           char_is_alphanumeric c \<or> c \<in> {CHR ''_'', CHR ''-'', CHR ''.''})"
proof (intro conjI)
  let ?n = "normalize_local_account_name u"
  obtain pre post where parts: "u = pre @ ?n @ post" "CHR 0x5C \<notin> set ?n" "CHR ''@'' \<notin> set ?n"
    by (rule normalize_local_account_name_parts)
  show idem: "normalize_local_account_name ?n = ?n"
    using parts by (intro normalize_noop)
  have sub: "set ?n \<subseteq> set u"
    by (subst (2) parts(1)) auto
  have "str_len ?n \<le> str_len u"
    by (subst (2) parts(1)) (simp add: str_len_append)
  with assms sub idem show "validate_username ?n = Ok ()"
    by (auto simp: validate_username_Ok list_ex_iff list_all_iff)
  show "\<forall>c \<in> set ?n. char_is_alphanumeric c \<or> c \<in> {CHR ''_'', CHR ''-'', CHR ''.''}"
    using assms sub parts(2,3) by (auto simp: validate_username_Ok list_all_iff username_char_def)
qed

theorem validated_username_is_safe_witness:
  "validate_username ''EXAMPLE@alice.b@example.com'' = Ok ()
   \<and> validate_username (normalize_local_account_name ''EXAMPLE@alice.b@example.com'') = Ok ()"
proof -
  have v: "validate_username ''EXAMPLE@alice.b@example.com'' = Ok ()" by code_simp
  show ?thesis using v validated_username_is_safe[OF v] by blast
qed

text \<open>
  C2.  PAM validation accepts exactly when the name is valid, it is the allowed account if
  one is configured, the peer is not locked out at the time of the check, and the PAM
  transaction for the normalised name is built, authenticates the password and passes the
  account check.  In particular neither step of PAM alone is enough, and no other branch
  (a worker that fails, a lockout, a foreign account) accepts.
\<close>

theorem pam_accepts_iff:
  "fst (validate_pam (pam_worker ns joined) v c t t') = Ok Accept \<longleftrightarrow>
     validate_username (username c) = Ok () \<and>
     (allowed v = None \<or> allowed v = Some (normalize_local_account_name (username c))) \<and>
     blocked_for (pam_peers v) (peer (pam_peers v)) t = None \<and> joined \<and>
     (let user = normalize_local_account_name (username c) in
      \<exists>tx tx'. build ns (service v) user (user, password c) = Some tx \<and>
        tx_authenticate ns tx = (True, tx') \<and> fst (tx_account_management ns tx'))"
  by (auto simp: validate_pam_def pam_worker_def authenticate_def Let_def
      split: option.splits sum.splits bool.splits prod.splits)

text \<open>
  Static-password validation accepts exactly when the name is valid, the peer is not
  locked out, and the entry stored under the normalised name is a parsable hash that
  verifies the password.
\<close>

theorem static_accepts_iff:
  "fst (validate_static ar v c t t') = Ok Accept \<longleftrightarrow>
     validate_username (username c) = Ok () \<and>
     blocked_for (static_peers v) (peer (static_peers v)) t = None \<and>
     (\<exists>s h. hashes v (normalize_local_account_name (username c)) = Some s \<and>
            password_hash_new ar s = Some h \<and> verify_password ar (password c) h)"
  by (auto simp: validate_static_def Let_def split: option.splits)



definition eve :: credentials where
  "eve = \<lparr>username = ''alice'', password = ''guess'', domain = None\<rparr>"


text \<open>
  The same bound for the static-password validator.
\<close>

theorem static_lockout_bound:
  assumes "failures (static_peers v) ip = None" and "time_ordered t0 es"
    and "run_events (\<lambda>v. peer (static_peers v)) static_reaches (validate_static ar) static_set_peer_ip
           static_prune_stale_entries v es = (rs, v')"
    and "\<forall>b r. (ip, b, r) \<in> set rs \<longrightarrow> r = Ok Reject"
  shows "from_secs (20 * consultations ip rs) \<le> (end_time t0 es - t0) + from_secs 100"
  using assms by (intro static.lockout_bound) auto


theorem static_lockout_bound_witness:
  "consultations (V4 7) (fst (run_events (\<lambda>v. peer (static_peers v)) static_reaches
       (validate_static \<lparr>password_hash_new = Some, algorithm = (\<lambda>_. ''argon2id''),
          verify_password = (\<lambda>p h. p = h)\<rparr>) static_set_peer_ip static_prune_stale_entries
       \<lparr>hashes = [''alice'' \<mapsto> ''secret''], static_peers = peer_guard_new\<rparr>
       [SetPeer (V4 7), Attempt eve 0 1, Attempt eve 1 2])) = 2
   \<and> from_secs (20 * 2) \<le> (2 - 0) + from_secs 100"
proof -
  let ?ar = "\<lparr>password_hash_new = Some, algorithm = (\<lambda>_. ''argon2id''),
      verify_password = (\<lambda>p h. p = h)\<rparr>"
  let ?v = "\<lparr>hashes = [''alice'' \<mapsto> ''secret''], static_peers = peer_guard_new\<rparr>"
  let ?es = "[SetPeer (V4 7), Attempt eve 0 1, Attempt eve 1 2]"
  let ?run = "run_events (\<lambda>v. peer (static_peers v)) static_reaches (validate_static ?ar)
       static_set_peer_ip static_prune_stale_entries ?v ?es"
  have name: "validate_username ''alice'' = Ok ()" "normalize_local_account_name ''alice'' = ''alice''"
    by code_simp+
  have log: "fst ?run = [(V4 7, True, Ok Reject), (V4 7, True, Ok Reject)]"
    by (simp add: Let_def eve_def name static_reaches_def validate_static_def peer_def
        static_set_peer_ip_def set_peer_def peer_guard_new_def blocked_for_def
        record_failure_def saturating_add_def lock_duration_def checked_sub_def)
  have fresh: "failures (static_peers ?v) (V4 7) = None"
    by (simp add: peer_guard_new_def)
  have "from_secs (20 * consultations (V4 7) (fst ?run)) \<le> (end_time 0 ?es - 0) + from_secs 100"
  proof (rule static_lockout_bound[OF fresh _ surjective_pairing])
    show "\<forall>b r. (V4 7, b, r) \<in> set (fst ?run) \<longrightarrow> r = Ok Reject" unfolding log by auto
  qed simp
  then show ?thesis unfolding log by simp
qed

text \<open>
  A static validator that \<open>new_hashes\<close> builds holds exactly the given pairs, the last one
  for a user winning, and every one of them has a valid username and a parsable Argon2id
  hash; it starts with no failure on record.
\<close>

theorem new_hashes_checked:
  assumes "new_hashes ar vs = Ok v"
  shows "hashes v = map_of (rev vs) \<and> dom (hashes v) \<noteq> {} \<and> static_peers v = peer_guard_new
    \<and> (\<forall>u s. hashes v u = Some s \<longrightarrow> validate_username u = Ok () \<and>
           (\<exists>h. password_hash_new ar s = Some h \<and> algorithm ar h = ''argon2id''))"
proof (intro conjI)
  from assms have ne: "vs \<noteq> []" and v: "v = \<lparr>hashes = map_of (rev vs), static_peers = peer_guard_new\<rparr>"
    and chk: "first_error ar (map_of (rev vs)) (sort (remdups (map fst vs))) = None"
    by (auto simp: new_hashes_def Let_def split: option.splits if_splits)
  show "hashes v = map_of (rev vs)" "dom (hashes v) \<noteq> {}" "static_peers v = peer_guard_new"
    using ne v by (auto simp: dom_map_of_conv_image_fst)
  have all: "check_entry ar u s = None" if "map_of (rev vs) u = Some s" for u s
  proof -
    have "u \<in> set (sort (remdups (map fst vs)))"
      using map_of_SomeD[OF that] by force
    with chk that show ?thesis by (rule first_error_None)
  qed
  show "\<forall>u s. hashes v u = Some s \<longrightarrow> validate_username u = Ok () \<and>
           (\<exists>h. password_hash_new ar s = Some h \<and> algorithm ar h = ''argon2id'')"
    using all v by (simp add: check_entry_None)
qed

theorem new_hashes_checked_witness:
  "hashes (projr (new_hashes \<lparr>password_hash_new = Some, algorithm = (\<lambda>_. ''argon2id''),
      verify_password = (\<lambda>p h. p = h)\<rparr> [(''bob'', ''a''), (''bob'', ''b'')])) ''bob'' = Some ''b''"
proof -
  let ?ar = "\<lparr>password_hash_new = Some, algorithm = (\<lambda>_. ''argon2id''),
      verify_password = (\<lambda>p h. p = h)\<rparr>"
  let ?r = "new_hashes ?ar [(''bob'', ''a''), (''bob'', ''b'')]"
  have name: "validate_username ''bob'' = Ok ()" by code_simp
  have "?r = Ok (projr ?r)"
    by (simp add: new_hashes_def Let_def check_entry_def name)
  from new_hashes_checked[OF this] show ?thesis by simp
qed

end
