(* ===== verification/Wrdp_Float.thy ===== *)
theory Wrdp_Float
  imports Wrdp_Prelude "HOL-Library.Log_Nat"
begin

text \<open>
  IEEE 754 arithmetic as Rust's \<open>f32\<close> and \<open>f64\<close> perform it, on finite values.  A finite
  float is the rational number it denotes (the sign of zero is not observable in the
  modelled code), and every operation is the exact rational operation followed by rounding
  to nearest, ties to even, in the format's precision with gradual underflow.  Overflow to
  infinity cannot be told from the huge rational by the saturating casts that follow it.
\<close>

definition round_even :: "rat \<Rightarrow> int" where
  "round_even x = (let f = \<lfloor>x\<rfloor>; d = x - of_int f in
     if d < 1 / 2 then f else if d > 1 / 2 then f + 1 else if even f then f else f + 1)"

text \<open>\<open>ilog2 x\<close> is the binary exponent of a positive rational.\<close>

definition ilog2 :: "rat \<Rightarrow> int" where
  "ilog2 x = (let (n, d) = quotient_of x; k = bitlen n - bitlen d
              in if 2 powi k \<le> x then k else k - 1)"

definition fl_round :: "int \<Rightarrow> int \<Rightarrow> rat \<Rightarrow> rat" where
  "fl_round p emin x =
     (if x = 0 then 0
      else let u = 2 powi (max (ilog2 \<bar>x\<bar> - (p - 1)) emin)
           in of_int (round_even (x / u)) * u)"

definition f32_round :: "rat \<Rightarrow> rat" where "f32_round = fl_round 24 (-149)"
definition f64_round :: "rat \<Rightarrow> rat" where "f64_round = fl_round 53 (-1074)"

definition f32_of_nat :: "nat \<Rightarrow> rat" where "f32_of_nat n = f32_round (of_nat n)"
definition f64_of_nat :: "nat \<Rightarrow> rat" where "f64_of_nat n = f64_round (of_nat n)"

definition f32_mul :: "rat \<Rightarrow> rat \<Rightarrow> rat" where "f32_mul a b = f32_round (a * b)"
definition f32_add :: "rat \<Rightarrow> rat \<Rightarrow> rat" where "f32_add a b = f32_round (a + b)"
definition f32_div :: "rat \<Rightarrow> rat \<Rightarrow> rat" where "f32_div a b = f32_round (a / b)"
definition f64_div :: "rat \<Rightarrow> rat \<Rightarrow> rat" where "f64_div a b = f64_round (a / b)"

definition f64_add :: "rat \<Rightarrow> rat \<Rightarrow> rat" where "f64_add a b = f64_round (a + b)"
definition f64_sub :: "rat \<Rightarrow> rat \<Rightarrow> rat" where "f64_sub a b = f64_round (a - b)"
definition f64_mul :: "rat \<Rightarrow> rat \<Rightarrow> rat" where "f64_mul a b = f64_round (a * b)"

text \<open>\<open>Duration::as_secs_f64\<close>.\<close>

definition as_secs_f64 :: "duration \<Rightarrow> rat" where
  "as_secs_f64 d = f64_add (f64_of_nat (d div 1000000000))
     (f64_div (f64_of_nat (d mod 1000000000)) (f64_of_nat 1000000000))"

text \<open>The cast \<open>as u32\<close> truncates towards zero and saturates.\<close>

definition float_as_u32 :: "rat \<Rightarrow> u32" where
  "float_as_u32 x = (if x \<le> 0 then 0
     else if \<lfloor>x\<rfloor> \<ge> 2 ^ 32 then - 1 else word_of_int \<lfloor>x\<rfloor>)"

definition float_as_u64 :: "rat \<Rightarrow> u64" where
  "float_as_u64 x = (if x \<le> 0 then 0
     else if \<lfloor>x\<rfloor> \<ge> 2 ^ 64 then - 1 else word_of_int \<lfloor>x\<rfloor>)"

lemma fl_round_0 [simp]: "fl_round p emin 0 = 0"
  by (simp add: fl_round_def)

lemma f32_mul_0 [simp]: "f32_mul a 0 = 0" "f32_mul 0 a = 0"
  by (simp_all add: f32_mul_def f32_round_def)

lemma float_as_u32_0 [simp]: "float_as_u32 0 = 0"
  by (simp add: float_as_u32_def)

lemma float_as_u32_floor:
  "0 \<le> x \<Longrightarrow> x < 2 ^ 32 \<Longrightarrow> unat (float_as_u32 x) = nat \<lfloor>x\<rfloor>"
proof -
  assume x: "0 \<le> x" "x < 2 ^ 32"
  then have f: "0 \<le> \<lfloor>x\<rfloor>" "\<lfloor>x\<rfloor> < 2 ^ 32"
    by (auto simp: floor_less_iff)
  show ?thesis
  proof (cases "x \<le> 0")
    case True
    with x show ?thesis by (simp add: float_as_u32_def)
  next
    case False
    with f have "float_as_u32 x = word_of_int \<lfloor>x\<rfloor>" by (simp add: float_as_u32_def)
    then have "uint (float_as_u32 x) = take_bit 32 \<lfloor>x\<rfloor>" by (simp add: unsigned_of_int)
    also have "\<dots> = \<lfloor>x\<rfloor>" using f by (rule take_bit_int_eq_self)
    finally have "uint (float_as_u32 x) = \<lfloor>x\<rfloor>" .
    then show ?thesis by (metis nat_uint_eq)
  qed
qed

section \<open>The whole range of \<open>f64\<close>\<close>

text \<open>
  A value of type \<open>f64\<close> with the infinities and NaN.  The sign of a zero is not kept: the modelled code never divides by
  a zero and never inspects its sign.
\<close>

datatype f64 = Fin rat | PosInf | NegInf | NaN

definition f64_make :: "rat \<Rightarrow> f64" where
  "f64_make x = (let r = f64_round x in if r \<ge> 2 ^ 1024 then PosInf else if r \<le> - (2 ^ 1024) then NegInf else Fin r)"

text \<open>For evaluation: a small value is compared with a small number.\<close>

lemma f64_make_code [code]:
  "f64_make x = (let r = f64_round x in
     if \<bar>r\<bar> < 1267650600228229401496703205376 then Fin r
     else if r \<ge> 2 ^ 1024 then PosInf else if r \<le> - (2 ^ 1024) then NegInf else Fin r)"
proof -
  have "(1267650600228229401496703205376 :: rat) = 2 ^ 100" by simp
  also have "\<dots> < 2 ^ 1024" by (rule power_strict_increasing) simp_all
  finally show ?thesis by (auto simp: f64_make_def Let_def)
qed

definition f64_int :: "int \<Rightarrow> f64" where
  "f64_int i = f64_make (of_int i)"

fun fneg :: "f64 \<Rightarrow> f64" where
  "fneg (Fin x) = Fin (- x)" | "fneg PosInf = NegInf" | "fneg NegInf = PosInf" | "fneg NaN = NaN"

fun fadd :: "f64 \<Rightarrow> f64 \<Rightarrow> f64" where
  "fadd (Fin x) (Fin y) = f64_make (x + y)"
| "fadd NaN _ = NaN" | "fadd _ NaN = NaN"
| "fadd PosInf NegInf = NaN" | "fadd NegInf PosInf = NaN"
| "fadd PosInf _ = PosInf" | "fadd NegInf _ = NegInf"
| "fadd (Fin _) PosInf = PosInf" | "fadd (Fin _) NegInf = NegInf"

definition fsub :: "f64 \<Rightarrow> f64 \<Rightarrow> f64" where
  "fsub a b = fadd a (fneg b)"

definition inf_of_sign :: "rat \<Rightarrow> f64" where
  "inf_of_sign s = (if s > 0 then PosInf else if s < 0 then NegInf else NaN)"

fun fmul :: "f64 \<Rightarrow> f64 \<Rightarrow> f64" where
  "fmul (Fin x) (Fin y) = f64_make (x * y)"
| "fmul NaN _ = NaN" | "fmul _ NaN = NaN"
| "fmul PosInf (Fin y) = inf_of_sign y" | "fmul NegInf (Fin y) = inf_of_sign (- y)"
| "fmul (Fin x) PosInf = inf_of_sign x" | "fmul (Fin x) NegInf = inf_of_sign (- x)"
| "fmul PosInf PosInf = PosInf" | "fmul NegInf NegInf = PosInf"
| "fmul PosInf NegInf = NegInf" | "fmul NegInf PosInf = NegInf"

fun fdiv :: "f64 \<Rightarrow> f64 \<Rightarrow> f64" where
  "fdiv (Fin x) (Fin y) = (if y = 0 then inf_of_sign x else f64_make (x / y))"
| "fdiv NaN _ = NaN" | "fdiv _ NaN = NaN"
| "fdiv (Fin _) _ = Fin 0"
| "fdiv PosInf (Fin y) = (if y < 0 then NegInf else PosInf)"
| "fdiv NegInf (Fin y) = (if y < 0 then PosInf else NegInf)"
| "fdiv _ _ = NaN"

fun fle :: "f64 \<Rightarrow> f64 \<Rightarrow> bool" where
  "fle (Fin x) (Fin y) = (x \<le> y)"
| "fle NaN _ = False" | "fle _ NaN = False"
| "fle NegInf _ = True" | "fle _ PosInf = True"
| "fle _ _ = False"

definition flt :: "f64 \<Rightarrow> f64 \<Rightarrow> bool" where
  "flt a b \<longleftrightarrow> fle a b \<and> \<not> fle b a"

definition is_finite :: "f64 \<Rightarrow> bool" where
  "is_finite a = (case a of Fin _ \<Rightarrow> True | _ \<Rightarrow> False)"

text \<open>\<open>f64::max\<close> and \<open>f64::min\<close> ignore a NaN; \<open>f64::clamp\<close> keeps it.\<close>

definition fmax :: "f64 \<Rightarrow> f64 \<Rightarrow> f64" where
  "fmax a b = (if a = NaN then b else if b = NaN then a else if fle a b then b else a)"

definition fmin :: "f64 \<Rightarrow> f64 \<Rightarrow> f64" where
  "fmin a b = (if a = NaN then b else if b = NaN then a else if fle a b then a else b)"

definition fclamp :: "f64 \<Rightarrow> f64 \<Rightarrow> f64 \<Rightarrow> f64" where
  "fclamp x lo hi = (if flt x lo then lo else if flt hi x then hi else x)"

fun ffloor :: "f64 \<Rightarrow> f64" where
  "ffloor (Fin x) = Fin (of_int \<lfloor>x\<rfloor>)" | "ffloor a = a"

text \<open>\<open>f64::round\<close> rounds halves away from zero.\<close>

fun fround :: "f64 \<Rightarrow> f64" where
  "fround (Fin x) = Fin (if x < 0 then - of_int \<lfloor>- x + 1 / 2\<rfloor> else of_int \<lfloor>x + 1 / 2\<rfloor>)" | "fround a = a"

fun ftrunc :: "f64 \<Rightarrow> f64" where
  "ftrunc (Fin x) = Fin (if x < 0 then - of_int \<lfloor>- x\<rfloor> else of_int \<lfloor>x\<rfloor>)" | "ftrunc a = a"

text \<open>The saturating cast to the integers from \<open>lo\<close> to \<open>hi\<close>; a NaN becomes zero.\<close>

fun f64_as :: "int \<Rightarrow> int \<Rightarrow> f64 \<Rightarrow> int" where
  "f64_as lo hi (Fin x) = max lo (min hi (if x < 0 then - \<lfloor>- x\<rfloor> else \<lfloor>x\<rfloor>))"
| "f64_as lo hi PosInf = hi" | "f64_as lo hi NegInf = lo" | "f64_as lo hi NaN = 0"

lemma ilog2_int: "0 < n \<Longrightarrow> ilog2 (of_int n) = bitlen n - 1"
proof -
  assume n: "0 < n"
  have "2 ^ nat (bitlen n - 1) \<le> n" using bitlen_bounds[of n] n by simp
  then have "(2 :: rat) ^ nat (bitlen n - 1) \<le> of_int n" by (metis of_int_le_iff of_int_numeral of_int_power)
  moreover have "0 \<le> bitlen n - 1" using bitlen_eq_zero_iff[of n] bitlen_nonneg[of n] n by linarith
  ultimately have "(2 :: rat) powi (bitlen n - 1) \<le> of_int n" by (simp add: power_int_def)
  then show ?thesis by (simp add: ilog2_def Let_def quotient_of_int bitlen_alt_def[of 1])
qed

lemma round_even_int [simp]: "round_even (of_int n) = n"
  by (simp add: round_even_def)

text \<open>Integers that fit the precision are exact.\<close>

lemma fl_round_int:
  assumes n: "\<bar>n\<bar> < 2 ^ p" and p: "0 < p" and e: "emin \<le> 0"
  shows "fl_round (int p) emin (of_int n) = of_int n"
proof (cases "n = 0")
  case False
  define e where "e = max (ilog2 \<bar>of_int n\<bar> - (int p - 1)) emin"
  have "bitlen \<bar>n\<bar> \<le> int p" using n bitlen_le_iff_power[of "\<bar>n\<bar>" p] by simp
  then have e: "e \<le> 0" using ilog2_int[of "\<bar>n\<bar>"] False assms(3) by (simp add: e_def)
  define j where "j = nat (- e)"
  have u: "(2 :: rat) powi e = 1 / 2 ^ j" using e by (simp add: j_def power_int_def field_simps)
  have "of_int n / (2 :: rat) powi e = of_int (n * 2 ^ j)" by (simp add: u)
  then show ?thesis using False u round_even_int[of "n * 2 ^ j"]
    by (simp add: fl_round_def Let_def e_def[symmetric])
qed simp

lemma f64_round_int: "\<bar>n\<bar> < 2 ^ 53 \<Longrightarrow> f64_round (of_int n) = of_int n"
  unfolding f64_round_def using fl_round_int[of n 53 "- 1074"] by simp

text \<open>The binary exponent, and that a number of at least the least positive float does not round to zero.\<close>

lemma ilog2_le:
  assumes "0 < x" shows "2 powi ilog2 x \<le> x"
proof -
  obtain n d where q: "quotient_of x = (n, d)" by (cases "quotient_of x")
  have d: "0 < d" and x: "x = of_int n / of_int d" using quotient_of_denom_pos[OF q] quotient_of_div[OF q] by auto
  then have n: "0 < n" using assms by (simp add: zero_less_divide_iff)
  have "2 ^ nat (bitlen n - 1) \<le> n" "d < 2 ^ nat (bitlen d)" using bitlen_bounds[OF n] bitlen_bounds[OF d] by auto
  then have nd: "(2 :: rat) ^ nat (bitlen n - 1) \<le> of_int n" "of_int d < (2 :: rat) ^ nat (bitlen d)"
    by (metis of_int_le_iff of_int_numeral of_int_power) (metis \<open>d < 2 ^ nat (bitlen d)\<close> of_int_less_iff of_int_numeral of_int_power)
  have b: "0 \<le> bitlen n - 1" "0 \<le> bitlen d" using bitlen_bounds[OF n] n bitlen_nonneg[of d] bitlen_eq_zero_iff[of n] bitlen_nonneg[of n] by linarith+
  have "(2 :: rat) powi (bitlen n - bitlen d - 1) = 2 powi (bitlen n - 1) / 2 powi bitlen d"
    by (simp add: power_int_diff[symmetric] algebra_simps)
  also have "\<dots> = 2 ^ nat (bitlen n - 1) / 2 ^ nat (bitlen d)" using b by (simp add: power_int_def)
  also have "\<dots> \<le> of_int n / of_int d" using nd d n by (intro frac_le) auto
  finally show ?thesis using q x by (simp add: ilog2_def Let_def)
qed

lemma round_even_pos: "1 \<le> x \<Longrightarrow> 0 < round_even x"
proof -
  assume "1 \<le> x"
  then have "1 \<le> \<lfloor>x\<rfloor>" by simp
  then show ?thesis by (simp add: round_even_def Let_def)
qed

lemma fl_round_pos:
  assumes "2 powi emin \<le> x" "1 \<le> p" shows "0 < fl_round p emin x"
proof -
  have x: "0 < x" using assms(1) by (rule less_le_trans[rotated]) simp
  let ?e = "max (ilog2 \<bar>x\<bar> - (p - 1)) emin"
  have "(2 :: rat) powi ?e \<le> x"
  proof (cases "ilog2 \<bar>x\<bar> - (p - 1) \<le> emin")
    case False
    then have "(2 :: rat) powi ?e \<le> 2 powi ilog2 x" using assms(2) x by (intro power_int_increasing) auto
    then show ?thesis using ilog2_le[OF x] by simp
  qed (use assms in simp)
  then have "1 \<le> x / 2 powi ?e" by simp
  then show ?thesis using round_even_pos x by (simp add: fl_round_def Let_def)
qed

lemma f64_int_exact: "\<bar>n\<bar> < 2 ^ 53 \<Longrightarrow> f64_int n = Fin (of_int n)"
proof -
  assume n: "\<bar>n\<bar> < 2 ^ 53"
  have "(2 :: rat) ^ 53 < 2 ^ 1024" by (rule power_strict_increasing) simp_all
  moreover have "\<bar>of_int n :: rat\<bar> < 2 ^ 53" using n by (metis of_int_abs of_int_less_iff of_int_numeral of_int_power)
  ultimately have "of_int n < (2 :: rat) ^ 1024" "- (2 ^ 1024) < (of_int n :: rat)" by (auto simp: abs_less_iff)
  then show ?thesis using f64_round_int[OF n] by (simp add: f64_int_def f64_make_def Let_def)
qed

end
