(* ===== verification/Wrdp_Damage.thy ===== *)
theory Wrdp_Damage
  imports Wrdp_Float
begin

text \<open>
  Damage detection (\<open>src/src/rdp/channels/graphics/damage\<close>): comparing consecutive BGRA
  frames tile by tile and emitting the changed rectangles.

  \<^item> \<open>damage_region\<close> and its operations: \<open>region.rs\<close>; coordinates are 32-bit words and the
    saturating additions are kept.
  \<^item> \<open>merge_regions\<close>, \<open>tiles_to_regions\<close>: \<open>regions.rs\<close>.  The \<open>used\<close> flags of the merge
    pass become the list of regions not used yet.
  \<^item> \<open>count_different_pixels\<close>: \<open>compare.rs\<close>; \<open>damage_config\<close>: \<open>config.rs\<close>;
    \<open>damage_stats\<close>: \<open>stats.rs\<close>.
  \<^item> \<open>damage_detector\<close> and its operations: \<open>detector.rs\<close>.  A panic (the frame-size
    assertion, a zero tile size, an index out of range) is a value of \<open>damage_panic\<close>.
\<close>

section \<open>Regions\<close>

record damage_region =
  reg_x :: u32
  reg_y :: u32
  reg_width :: u32
  reg_height :: u32

definition region_new :: "u32 \<Rightarrow> u32 \<Rightarrow> u32 \<Rightarrow> u32 \<Rightarrow> damage_region" where
  "region_new a b w h = \<lparr>reg_x = a, reg_y = b, reg_width = w, reg_height = h\<rparr>"

definition full_frame :: "u32 \<Rightarrow> u32 \<Rightarrow> damage_region" where
  "full_frame w h = \<lparr>reg_x = 0, reg_y = 0, reg_width = w, reg_height = h\<rparr>"

definition area :: "damage_region \<Rightarrow> u64" where
  "area r = ucast (reg_width r) * ucast (reg_height r)"

definition overlaps :: "damage_region \<Rightarrow> damage_region \<Rightarrow> bool" where
  "overlaps r s =
     (let r_right = saturating_add (reg_x r) (reg_width r);
          r_bottom = saturating_add (reg_y r) (reg_height r);
          s_right = saturating_add (reg_x s) (reg_width s);
          s_bottom = saturating_add (reg_y s) (reg_height s)
      in reg_x r < s_right \<and> r_right > reg_x s \<and> reg_y r < s_bottom \<and> r_bottom > reg_y s)"

definition contains :: "damage_region \<Rightarrow> u32 \<Rightarrow> u32 \<Rightarrow> bool" where
  "contains r px py \<longleftrightarrow>
     px \<ge> reg_x r \<and> px < saturating_add (reg_x r) (reg_width r) \<and>
     py \<ge> reg_y r \<and> py < saturating_add (reg_y r) (reg_height r)"

definition region_union :: "damage_region \<Rightarrow> damage_region \<Rightarrow> damage_region" where
  "region_union r s =
     (let a = min (reg_x r) (reg_x s);
          b = min (reg_y r) (reg_y s);
          right = max (saturating_add (reg_x r) (reg_width r)) (saturating_add (reg_x s) (reg_width s));
          bottom = max (saturating_add (reg_y r) (reg_height r)) (saturating_add (reg_y s) (reg_height s))
      in \<lparr>reg_x = a, reg_y = b, reg_width = right - a, reg_height = bottom - b\<rparr>)"

definition is_adjacent :: "damage_region \<Rightarrow> damage_region \<Rightarrow> u32 \<Rightarrow> bool" where
  "is_adjacent r s merge_distance =
     (let r_right = saturating_add (reg_x r) (reg_width r);
          r_bottom = saturating_add (reg_y r) (reg_height r);
          s_right = saturating_add (reg_x s) (reg_width s);
          s_bottom = saturating_add (reg_y s) (reg_height s);
          gap_x = (if reg_x s \<ge> r_right then reg_x s - r_right
                   else saturating_sub (reg_x r) s_right);
          gap_y = (if reg_y s \<ge> r_bottom then reg_y s - r_bottom
                   else saturating_sub (reg_y r) s_bottom)
      in gap_x \<le> merge_distance \<and> gap_y \<le> merge_distance)"

section \<open>Merging\<close>

text \<open>
  One iteration of the outer \<open>for\<close> loop: \<open>absorb d current rest\<close> runs the inner loop over the
  regions not used yet; it returns the grown region, the regions still unused, and whether
  anything was absorbed.
\<close>

fun absorb :: "u32 \<Rightarrow> damage_region \<Rightarrow> damage_region list \<Rightarrow> damage_region \<times> damage_region list \<times> bool" where
  "absorb d cur [] = (cur, [], False)"
| "absorb d cur (r # rs) =
     (if is_adjacent cur r d
      then let (c, rest, _) = absorb d (region_union cur r) rs in (c, rest, True)
      else let (c, rest, changed) = absorb d cur rs in (c, r # rest, changed))"

lemma absorb_length:
  "absorb d cur rs = (c, rest, ch) \<Longrightarrow> length rest \<le> length rs \<and> (ch \<longleftrightarrow> length rest < length rs)"
  by (induction d cur rs arbitrary: c rest ch rule: absorb.induct)
    (fastforce split: if_splits prod.splits)+

function merge_pass :: "u32 \<Rightarrow> damage_region list \<Rightarrow> damage_region list \<times> bool" where
  "merge_pass d [] = ([], False)"
| "merge_pass d (r # rs) =
     (let (c, rest, ch) = absorb d r rs; (merged, ch') = merge_pass d rest
      in (c # merged, ch \<or> ch'))"
  by pat_completeness auto
termination
  by (relation "measure (\<lambda>(d, rs). length rs)") (auto dest: absorb_length[OF sym])

lemma merge_pass_length:
  "merge_pass d rs = (ms, ch) \<Longrightarrow> length ms \<le> length rs \<and> (ch \<longleftrightarrow> length ms < length rs)"
proof (induction d rs arbitrary: ms ch rule: merge_pass.induct)
  case (2 d r rs)
  obtain c rest ch1 where a: "absorb d r rs = (c, rest, ch1)" by (cases "absorb d r rs") auto
  obtain ms' ch2 where m: "merge_pass d rest = (ms', ch2)" by (cases "merge_pass d rest") auto
  from 2(1)[OF a[symmetric] refl refl m] absorb_length[OF a] 2(2) a m show ?case by auto
qed simp

text \<open>The \<open>while changed\<close> loop: another pass as long as the last one merged something.\<close>

function merge_loop :: "u32 \<Rightarrow> damage_region list \<Rightarrow> damage_region list" where
  "merge_loop d rs = (let (merged, changed) = merge_pass d rs
                      in if changed then merge_loop d merged else merged)"
  by pat_completeness auto
termination
  by (relation "measure (\<lambda>(d, rs). length rs)") (auto dest: merge_pass_length[OF sym])

declare merge_loop.simps [simp del]

definition merge_regions :: "damage_region list \<Rightarrow> u32 \<Rightarrow> damage_region list" where
  "merge_regions regions merge_distance =
     (if length regions \<le> 1 then regions else merge_loop merge_distance regions)"


section \<open>Tiles to regions\<close>

text \<open>
  The frame-relative rectangle of tile \<open>(tx, ty)\<close>, clipped to the frame, and the list built
  by the double loop; \<open>None\<close> is the panic of an index beyond \<open>dirty_tiles\<close>.
\<close>

definition tile_region :: "usize \<Rightarrow> u32 \<Rightarrow> u32 \<Rightarrow> usize \<Rightarrow> usize \<Rightarrow> damage_region" where
  "tile_region tile_size frame_width frame_height tx ty =
     (let a = of_nat (tx * tile_size); b = of_nat (ty * tile_size)
      in region_new a b (min (of_nat tile_size) (saturating_sub frame_width a))
           (min (of_nat tile_size) (saturating_sub frame_height b)))"

definition tiles_to_regions ::
  "bool list \<Rightarrow> usize \<Rightarrow> usize \<Rightarrow> usize \<Rightarrow> u32 \<Rightarrow> u32 \<Rightarrow> damage_region list option" where
  "tiles_to_regions dirty_tiles tiles_x tiles_y tile_size frame_width frame_height =
     (if length dirty_tiles < tiles_x * tiles_y then None
      else Some (concat (map (\<lambda>ty. concat (map (\<lambda>tx.
             let idx = ty * tiles_x + tx; r = tile_region tile_size frame_width frame_height tx ty
             in if dirty_tiles ! idx \<and> reg_width r > 0 \<and> reg_height r > 0 then [r] else [])
           [0..<tiles_x])) [0..<tiles_y])))"

section \<open>Comparing pixels\<close>

text \<open>\<open>chunks_exact(4)\<close>: whole pixels, a shorter tail dropped.\<close>

fun chunks_exact4 :: "byte list \<Rightarrow> (byte \<times> byte \<times> byte \<times> byte) list" where
  "chunks_exact4 (b # g # r # a # rest) = (b, g, r, a) # chunks_exact4 rest"
| "chunks_exact4 _ = []"

text \<open>\<open>(p as i16 - c as i16).unsigned_abs() as u8\<close>.\<close>

definition channel_diff :: "byte \<Rightarrow> byte \<Rightarrow> byte" where
  "channel_diff p c = word_of_int \<bar>uint p - uint c\<bar>"

definition pixel_differs ::
  "u8 \<Rightarrow> (byte \<times> byte \<times> byte \<times> byte) \<Rightarrow> (byte \<times> byte \<times> byte \<times> byte) \<Rightarrow> bool" where
  "pixel_differs threshold p c =
     (case (p, c) of ((pb, pg, pr, _), (cb, cg, cr, _)) \<Rightarrow>
        channel_diff pb cb > threshold \<or> channel_diff pg cg > threshold \<or>
        channel_diff pr cr > threshold)"

definition count_different_pixels :: "byte list \<Rightarrow> byte list \<Rightarrow> u8 \<Rightarrow> u32" where
  "count_different_pixels prev cur threshold =
     fold (\<lambda>(p, c) n. if pixel_differs threshold p c then n + 1 else n)
       (zip (chunks_exact4 prev) (chunks_exact4 cur)) 0"

section \<open>Configuration and statistics\<close>

record damage_config =
  tile_size :: usize
  diff_threshold :: rat
  pixel_threshold :: u8
  merge_distance :: u32
  min_region_area :: u64

definition damage_config_default :: damage_config where
  "damage_config_default =
     \<lparr>tile_size = 64, diff_threshold = f32_round (5 / 100), pixel_threshold = 4,
      merge_distance = 32, min_region_area = 256\<rparr>"

definition low_bandwidth :: damage_config where
  "low_bandwidth =
     \<lparr>tile_size = 32, diff_threshold = f32_round (2 / 100), pixel_threshold = 2,
      merge_distance = 16, min_region_area = 64\<rparr>"

definition high_motion :: damage_config where
  "high_motion =
     \<lparr>tile_size = 128, diff_threshold = f32_round (10 / 100), pixel_threshold = 8,
      merge_distance = 64, min_region_area = 1024\<rparr>"

record damage_stats =
  frames_processed :: u64
  frames_skipped :: u64
  frames_full :: u64
  frames_partial :: u64
  total_damage_area :: u64
  total_frame_area :: u64
  total_detection_time_ns :: u64
  avg_damage_ratio :: rat
  avg_detection_time_ms :: rat

definition damage_stats_default :: damage_stats where
  "damage_stats_default =
     \<lparr>frames_processed = 0, frames_skipped = 0, frames_full = 0, frames_partial = 0,
      total_damage_area = 0, total_frame_area = 0, total_detection_time_ns = 0,
      avg_damage_ratio = 0, avg_detection_time_ms = 0\<rparr>"

definition update_averages :: "damage_stats \<Rightarrow> damage_stats" where
  "update_averages s =
     (if frames_processed s > 0
      then s\<lparr>avg_damage_ratio := f32_div (f32_of_nat (unat (total_damage_area s)))
               (f32_of_nat (unat (max (total_frame_area s) 1))),
             avg_detection_time_ms := f32_round (f64_div
               (f64_div (f64_of_nat (unat (total_detection_time_ns s)))
                  (f64_of_nat (unat (frames_processed s)))) 1000000)\<rparr>
      else s)"

definition record_frame :: "u64 \<Rightarrow> u64 \<Rightarrow> u64 \<Rightarrow> damage_stats \<Rightarrow> damage_stats" where
  "record_frame frame_area damage_area detection_time_ns s =
     (let s1 = s\<lparr>frames_processed := frames_processed s + 1,
                 total_damage_area := total_damage_area s + damage_area,
                 total_frame_area := total_frame_area s + frame_area,
                 total_detection_time_ns := total_detection_time_ns s + detection_time_ns\<rparr>;
          s2 = (if damage_area = 0 then s1\<lparr>frames_skipped := frames_skipped s1 + 1\<rparr>
                else if damage_area \<ge> frame_area * 9 div 10
                then s1\<lparr>frames_full := frames_full s1 + 1\<rparr>
                else s1\<lparr>frames_partial := frames_partial s1 + 1\<rparr>)
      in update_averages s2)"

definition bandwidth_reduction_percent :: "damage_stats \<Rightarrow> rat" where
  "bandwidth_reduction_percent s =
     (if total_frame_area s = 0 then 0
      else f32_mul (f32_add 1 (- f32_div (f32_of_nat (unat (total_damage_area s)))
                                 (f32_of_nat (unat (total_frame_area s))))) 100)"

section \<open>The detector\<close>

record damage_detector =
  config :: damage_config
  previous_frame :: "byte list option"
  previous_dimensions :: "(u32 \<times> u32) option"
  tile_dirty :: "bool list"
  tiles_x :: usize
  tiles_y :: usize
  stats :: damage_stats
  invalidated :: bool

datatype damage_panic = FrameSizeMismatch nat nat | DivideByZero | IndexOutOfBounds

definition detector_new :: "damage_config \<Rightarrow> damage_detector" where
  "detector_new cfg =
     \<lparr>config = cfg, previous_frame = None, previous_dimensions = None, tile_dirty = [],
      tiles_x = 0, tiles_y = 0, stats = damage_stats_default, invalidated = True\<rparr>"

definition update_tile_grid :: "u32 \<Rightarrow> u32 \<Rightarrow> damage_detector \<Rightarrow> (damage_panic, damage_detector) result" where
  "update_tile_grid width height d =
     (if tile_size (config d) = 0 then Err DivideByZero
      else let nx = div_ceil (unat width) (tile_size (config d));
               ny = div_ceil (unat height) (tile_size (config d));
               total_tiles = nx * ny
      in Ok (d\<lparr>tiles_x := nx, tiles_y := ny,
               tile_dirty := (if length (tile_dirty d) \<noteq> total_tiles
                              then replicate total_tiles False else tile_dirty d)\<rparr>))"

definition compare_tile ::
  "byte list \<Rightarrow> byte list \<Rightarrow> usize \<Rightarrow> usize \<Rightarrow> usize \<Rightarrow> usize \<Rightarrow> usize \<Rightarrow> u8 \<Rightarrow> u32" where
  "compare_tile prev cur tile_x tile_y tile_width tile_height stride px_threshold =
     (let bytes_per_row = tile_width * 4 in
      fold (\<lambda>row total_diff.
        let y = tile_y + row; offset = y * stride + tile_x * 4
        in if offset + bytes_per_row > length prev \<or> offset + bytes_per_row > length cur
           then total_diff
           else total_diff + count_different_pixels (take bytes_per_row (drop offset prev))
                  (take bytes_per_row (drop offset cur)) px_threshold)
        [0..<tile_height] 0)"

text \<open>
  The flag that one iteration of the double loop of \<open>detect_changes\<close> stores for a tile, and
  the loop itself.  An empty tile is skipped and keeps the \<open>false\<close> it was reset to.
\<close>

definition tile_flag ::
  "damage_config \<Rightarrow> byte list \<Rightarrow> byte list \<Rightarrow> u32 \<Rightarrow> u32 \<Rightarrow> usize \<Rightarrow> usize \<Rightarrow> bool option" where
  "tile_flag cfg prev cur width height tx ty =
     (let tile_x = tx * tile_size cfg; tile_y = ty * tile_size cfg;
          tile_width = min (tile_size cfg) (unat width - tile_x);
          tile_height = min (tile_size cfg) (unat height - tile_y)
      in if tile_width = 0 \<or> tile_height = 0 then None
         else let diff_count = compare_tile prev cur tile_x tile_y tile_width tile_height
                    (unat width * 4) (pixel_threshold cfg);
                  tile_pixels = (of_nat (tile_width * tile_height) :: u32);
                  diff_threshold_count =
                    float_as_u32 (f32_mul (f32_of_nat (unat tile_pixels)) (diff_threshold cfg))
              in Some (diff_count > diff_threshold_count))"

definition store_flag :: "nat \<Rightarrow> bool option \<Rightarrow> bool list \<Rightarrow> bool list" where
  "store_flag idx v flags = (case v of None \<Rightarrow> flags | Some b \<Rightarrow> flags[idx := b])"

definition mark_tiles ::
  "damage_config \<Rightarrow> byte list \<Rightarrow> byte list \<Rightarrow> u32 \<Rightarrow> u32 \<Rightarrow> usize \<Rightarrow> usize \<Rightarrow> bool list \<Rightarrow> bool list" where
  "mark_tiles cfg prev cur width height nx ny flags =
     fold (\<lambda>ty. fold (\<lambda>tx. store_flag (ty * nx + tx) (tile_flag cfg prev cur width height tx ty)) [0..<nx])
       [0..<ny] (map (\<lambda>_. False) flags)"

definition detect_changes ::
  "byte list \<Rightarrow> byte list \<Rightarrow> u32 \<Rightarrow> u32 \<Rightarrow> damage_detector
   \<Rightarrow> (damage_panic, damage_region list \<times> damage_detector) result" where
  "detect_changes prev cur width height d =
     (let cfg = config d;
          flags = mark_tiles cfg prev cur width height (tiles_x d) (tiles_y d) (tile_dirty d)
      in case tiles_to_regions flags (tiles_x d) (tiles_y d) (tile_size cfg) width height of
           None \<Rightarrow> Err IndexOutOfBounds
         | Some regions \<Rightarrow>
             Ok (filter (\<lambda>r. area r \<ge> min_region_area cfg)
                   (merge_regions regions (merge_distance cfg)),
                 d\<lparr>tile_dirty := flags\<rparr>))"

text \<open>
  \<open>detect\<close>: \<open>dt\<close> is the time the call took, in nanoseconds.
\<close>

definition detect ::
  "byte list \<Rightarrow> u32 \<Rightarrow> u32 \<Rightarrow> u64 \<Rightarrow> damage_detector
   \<Rightarrow> (damage_panic, damage_region list \<times> damage_detector) result" where
  "detect frame width height dt d =
     (let frame_area = ucast width * ucast height;
          expected_len = (unat width * unat height * 4) mod 2 ^ 64
      in if length frame \<noteq> expected_len then Err (FrameSizeMismatch (length frame) expected_len)
      else let dimensions_changed = (case previous_dimensions d of
                 None \<Rightarrow> True | Some (w, h) \<Rightarrow> w \<noteq> width \<or> h \<noteq> height)
      in if previous_frame d = None \<or> invalidated d \<or> dimensions_changed
         then rbind (update_tile_grid width height d) (\<lambda>d1.
                Ok ([full_frame width height],
                    d1\<lparr>previous_frame := Some frame, previous_dimensions := Some (width, height),
                       invalidated := False,
                       stats := record_frame frame_area frame_area dt (stats d1)\<rparr>))
         else rbind (detect_changes (the (previous_frame d)) frame width height d) (\<lambda>(regions, d1).
                Ok (regions,
                    d1\<lparr>stats := record_frame frame_area (sum_list (map area regions)) dt (stats d1),
                       previous_frame := Some frame\<rparr>)))"

definition invalidate :: "damage_detector \<Rightarrow> damage_detector" where
  "invalidate d = d\<lparr>invalidated := True\<rparr>"

definition reset_stats :: "damage_detector \<Rightarrow> damage_detector" where
  "reset_stats d = d\<lparr>stats := damage_stats_default\<rparr>"

definition set_config :: "damage_config \<Rightarrow> damage_detector \<Rightarrow> damage_detector" where
  "set_config cfg d = invalidate (d\<lparr>config := cfg\<rparr>)"

section \<open>Merging keeps coverage and bounds\<close>

definition region_right :: "damage_region \<Rightarrow> u32" where
  "region_right r = saturating_add (reg_x r) (reg_width r)"

definition region_bottom :: "damage_region \<Rightarrow> u32" where
  "region_bottom r = saturating_add (reg_y r) (reg_height r)"

lemma region_edges_ge: "reg_x r \<le> region_right r" "reg_y r \<le> region_bottom r"
  by (simp_all add: region_right_def region_bottom_def saturating_add_ge)

lemma region_union_edges [simp]:
  "reg_x (region_union r s) = min (reg_x r) (reg_x s)"
  "reg_y (region_union r s) = min (reg_y r) (reg_y s)"
  "region_right (region_union r s) = max (region_right r) (region_right s)"
  "region_bottom (region_union r s) = max (region_bottom r) (region_bottom s)"
  using region_edges_ge[of r]
  by (simp_all add: region_union_def Let_def region_right_def region_bottom_def saturating_add_diff
      min.coboundedI1 max.coboundedI1)

lemma contains_edges:
  "contains r px py \<longleftrightarrow> reg_x r \<le> px \<and> px < region_right r \<and> reg_y r \<le> py \<and> py < region_bottom r"
  by (simp add: contains_def region_right_def region_bottom_def)

lemma contains_region_union:
  "contains r px py \<or> contains s px py \<Longrightarrow> contains (region_union r s) px py"
  by (auto simp: contains_edges min_le_iff_disj less_max_iff_disj)

text \<open>
  What the merging steps keep of every region: any property that taking bounding boxes keeps.
\<close>

locale union_closed =
  fixes P :: "damage_region \<Rightarrow> bool"
  assumes union: "P a \<Longrightarrow> P b \<Longrightarrow> P (region_union a b)"
begin

lemma absorb_all:
  "absorb d cur rs = (c, rest, ch) \<Longrightarrow> P cur \<Longrightarrow> list_all P rs \<Longrightarrow> P c \<and> list_all P rest"
  by (induction d cur rs arbitrary: c rest ch rule: absorb.induct)
    (auto simp: union split: if_splits prod.splits)

lemma merge_pass_all: "merge_pass d rs = (ms, ch) \<Longrightarrow> list_all P rs \<Longrightarrow> list_all P ms"
proof (induction d rs arbitrary: ms ch rule: merge_pass.induct)
  case (2 d r rs)
  obtain c rest ch1 where a: "absorb d r rs = (c, rest, ch1)" by (cases "absorb d r rs") auto
  obtain ms' ch2 where m: "merge_pass d rest = (ms', ch2)" by (cases "merge_pass d rest") auto
  from absorb_all[OF a] 2(3) have "P c" "list_all P rest" by auto
  with 2(1)[OF a[symmetric] refl refl m] 2(2) a m show ?case by auto
qed simp

lemma merge_loop_all: "list_all P rs \<Longrightarrow> list_all P (merge_loop d rs)"
proof (induction d rs rule: merge_loop.induct)
  case (1 d rs)
  obtain ms ch where m: "merge_pass d rs = (ms, ch)" by (cases "merge_pass d rs")
  with "1.IH"[OF m[symmetric]] merge_pass_all[OF m] "1.prems" show ?case
    by (simp add: merge_loop.simps[of d rs])
qed

lemma merge_regions_all: "list_all P rs \<Longrightarrow> list_all P (merge_regions rs d)"
  by (simp add: merge_regions_def merge_loop_all)

end

text \<open>
  What merging never loses: any property of a region that the bounding box inherits from
  either side, such as containing a pixel or covering a given rectangle.
\<close>

locale union_inherited =
  fixes Q :: "damage_region \<Rightarrow> bool"
  assumes inherit: "Q a \<or> Q b \<Longrightarrow> Q (region_union a b)"
begin

lemma absorb_keeps:
  "absorb d cur rs = (c, rest, ch) \<Longrightarrow> Q cur \<or> (\<exists>r \<in> set rs. Q r) \<Longrightarrow> Q c \<or> (\<exists>r \<in> set rest. Q r)"
proof (induction d cur rs arbitrary: c rest ch rule: absorb.induct)
  case (2 d cur r rs)
  then show ?case
    using inherit[of cur r] by (auto split: if_splits prod.splits) blast+
qed simp

lemma merge_pass_keeps:
  "merge_pass d rs = (ms, ch) \<Longrightarrow> \<exists>r \<in> set rs. Q r \<Longrightarrow> \<exists>r \<in> set ms. Q r"
proof (induction d rs arbitrary: ms ch rule: merge_pass.induct)
  case (2 d r rs)
  obtain c rest ch1 where a: "absorb d r rs = (c, rest, ch1)" by (cases "absorb d r rs") auto
  obtain ms' ch2 where m: "merge_pass d rest = (ms', ch2)" by (cases "merge_pass d rest") auto
  from absorb_keeps[OF a] 2(3) have "Q c \<or> (\<exists>r \<in> set rest. Q r)" by auto
  moreover have "\<exists>r \<in> set rest. Q r \<Longrightarrow> \<exists>r \<in> set ms'. Q r"
    by (rule 2(1)[OF a[symmetric] refl refl m])
  ultimately show ?case using 2(2) a m by fastforce
qed simp

lemma merge_loop_keeps: "\<exists>r \<in> set rs. Q r \<Longrightarrow> \<exists>r \<in> set (merge_loop d rs). Q r"
proof (induction d rs rule: merge_loop.induct)
  case (1 d rs)
  obtain ms ch where m: "merge_pass d rs = (ms, ch)" by (cases "merge_pass d rs")
  with "1.IH"[OF m[symmetric]] merge_pass_keeps[OF m] "1.prems" show ?case
    by (simp add: merge_loop.simps[of d rs])
qed

lemma merge_regions_keeps: "\<exists>r \<in> set rs. Q r \<Longrightarrow> \<exists>r \<in> set (merge_regions rs d). Q r"
  by (simp add: merge_regions_def merge_loop_keeps)

end

interpretation containing: union_inherited "\<lambda>r. contains r px py" for px py
  by unfold_locales (rule contains_region_union)

text \<open>\<open>covers s r\<close>: the rectangle \<open>r\<close> includes the rectangle \<open>s\<close>, edge by edge.\<close>

definition covers :: "damage_region \<Rightarrow> damage_region \<Rightarrow> bool" where
  "covers s r \<longleftrightarrow> reg_x r \<le> reg_x s \<and> reg_y r \<le> reg_y s \<and>
     region_right s \<le> region_right r \<and> region_bottom s \<le> region_bottom r"

interpretation covering: union_inherited "covers s" for s
  by unfold_locales (auto simp: covers_def min_le_iff_disj le_max_iff_disj)

lemma absorb_unchanged:
  "absorb d cur rs = (c, rest, False) \<Longrightarrow> c = cur \<and> rest = rs \<and> (\<forall>r \<in> set rs. \<not> is_adjacent cur r d)"
  by (induction d cur rs arbitrary: c rest rule: absorb.induct) (fastforce split: if_splits prod.splits)+

lemma merge_pass_unchanged:
  "merge_pass d rs = (ms, False) \<Longrightarrow> ms = rs \<and> sorted_wrt (\<lambda>a b. \<not> is_adjacent a b d) ms"
proof (induction d rs arbitrary: ms rule: merge_pass.induct)
  case (2 d r rs)
  obtain c rest ch1 where a: "absorb d r rs = (c, rest, ch1)" by (cases "absorb d r rs") auto
  obtain ms' ch2 where m: "merge_pass d rest = (ms', ch2)" by (cases "merge_pass d rest") auto
  from 2(2) a m have u: "\<not> ch1" "\<not> ch2" "ms = c # ms'" by auto
  with absorb_unchanged a have "c = r" "rest = rs" "\<forall>r' \<in> set rs. \<not> is_adjacent r r' d" by auto
  with u 2(1)[OF a[symmetric] refl refl] m show ?case by auto
qed simp

lemma merge_loop_separated: "sorted_wrt (\<lambda>a b. \<not> is_adjacent a b d) (merge_loop d rs)"
proof (induction d rs rule: merge_loop.induct)
  case (1 d rs)
  obtain ms ch where m: "merge_pass d rs = (ms, ch)" by (cases "merge_pass d rs")
  show ?case
  proof (cases ch)
    case True
    with "1.IH"[OF m[symmetric]] m show ?thesis by (simp add: merge_loop.simps[of d rs])
  next
    case False
    with m merge_pass_unchanged[of d rs ms] show ?thesis by (auto simp: merge_loop.simps[of d rs])
  qed
qed

section \<open>Frames and bounds\<close>

definition in_frame :: "u32 \<Rightarrow> u32 \<Rightarrow> damage_region \<Rightarrow> bool" where
  "in_frame w h r \<longleftrightarrow> reg_width r > 0 \<and> reg_height r > 0 \<and>
     unat (reg_x r) + unat (reg_width r) \<le> unat w \<and> unat (reg_y r) + unat (reg_height r) \<le> unat h"

lemma in_frame_edges:
  "in_frame w h r \<longleftrightarrow> reg_x r < region_right r \<and> reg_y r < region_bottom r \<and>
     region_right r \<le> w \<and> region_bottom r \<le> h \<and>
     unat (reg_x r) + unat (reg_width r) < 2 ^ 32 \<and> unat (reg_y r) + unat (reg_height r) < 2 ^ 32"
proof -
  show ?thesis
    using unat_u32_less[of w] unat_u32_less[of h]
    by (auto simp: in_frame_def region_right_def region_bottom_def word_less_nat_alt word_le_nat_alt
        unat_saturating_add)
qed

lemma in_frame_union:
  assumes "in_frame w h r" "in_frame w h s"
  shows "in_frame w h (region_union r s)"
proof -
  let ?u = "region_union r s"
  have "reg_width ?u = max (region_right r) (region_right s) - min (reg_x r) (reg_x s)"
    "reg_height ?u = max (region_bottom r) (region_bottom s) - min (reg_y r) (reg_y s)"
    by (simp_all add: region_union_def Let_def region_right_def region_bottom_def)
  then have "unat (reg_x ?u) + unat (reg_width ?u) = unat (region_right ?u)"
    "unat (reg_y ?u) + unat (reg_height ?u) = unat (region_bottom ?u)"
    using region_edges_ge[of ?u] by (simp_all add: unat_sub word_le_nat_alt)
  with assms unat_u32_less[of w] unat_u32_less[of h] show ?thesis
    by (simp add: in_frame_edges word_le_nat_alt)
       (auto simp: word_less_nat_alt word_le_nat_alt max_def min_def)
qed

interpretation in_frame: union_closed "in_frame w h" for w h
  by unfold_locales (rule in_frame_union)

section \<open>Tiles and pixels\<close>

lemma tile_region_x:
  assumes "0 < ts" "tx * ts < unat w"
  shows "unat (reg_x (tile_region ts w h tx ty)) = tx * ts"
    and "ts < 2 ^ 32 \<Longrightarrow> unat (reg_width (tile_region ts w h tx ty)) = min ts (unat w - tx * ts)"
    and "unat (reg_width (tile_region ts w h tx ty)) \<le> unat w - tx * ts"
proof -
  have a: "unat (of_nat (tx * ts) :: u32) = tx * ts"
    using assms(2) unat_u32_less[of w] by (simp add: unat_of_nat del: of_nat_mult)
  then show "unat (reg_x (tile_region ts w h tx ty)) = tx * ts"
    by (simp add: tile_region_def region_new_def Let_def del: of_nat_mult)
  have wd: "unat (reg_width (tile_region ts w h tx ty)) = min (unat (of_nat ts :: u32)) (unat w - tx * ts)"
    using a by (simp add: tile_region_def region_new_def Let_def unat_saturating_sub min_def
        word_le_nat_alt del: of_nat_mult)
  then show "unat (reg_width (tile_region ts w h tx ty)) \<le> unat w - tx * ts" by simp
  assume "ts < 2 ^ 32"
  then have "unat (of_nat ts :: u32) = ts" by (simp add: unat_of_nat)
  with wd show "unat (reg_width (tile_region ts w h tx ty)) = min ts (unat w - tx * ts)" by simp
qed

lemma tile_region_swap:
  "reg_y (tile_region ts w h tx ty) = reg_x (tile_region ts h w ty tx)"
  "reg_height (tile_region ts w h tx ty) = reg_width (tile_region ts h w ty tx)"
  by (simp_all add: tile_region_def region_new_def Let_def)

lemma tile_region_in_frame:
  assumes "0 < ts" "tx < div_ceil (unat w) ts" "ty < div_ceil (unat h) ts"
    and "reg_width (tile_region ts w h tx ty) > 0" "reg_height (tile_region ts w h tx ty) > 0"
  shows "in_frame w h (tile_region ts w h tx ty)"
proof -
  have t: "tx * ts < unat w" "ty * ts < unat h" using assms by (simp_all add: div_ceil_less)
  have "unat (reg_x (tile_region ts w h tx ty)) + unat (reg_width (tile_region ts w h tx ty)) \<le> unat w"
    using tile_region_x(1)[OF assms(1) t(1), of h ty] tile_region_x(3)[OF assms(1) t(1), of h ty] t(1)
    by linarith
  moreover have "unat (reg_y (tile_region ts w h tx ty)) + unat (reg_height (tile_region ts w h tx ty)) \<le> unat h"
    using tile_region_x(1)[OF assms(1) t(2), of w tx] tile_region_x(3)[OF assms(1) t(2), of w tx] t(2)
    unfolding tile_region_swap[of ts w h tx ty] by linarith
  ultimately show ?thesis using assms(4,5) by (simp add: in_frame_def)
qed

lemma tile_region_span:
  assumes "0 < ts" "ts < 2 ^ 32" "tx * ts < unat w" "unat p < unat w"
  shows "reg_x (tile_region ts w h tx ty) \<le> p \<and> p < region_right (tile_region ts w h tx ty)
           \<longleftrightarrow> unat p div ts = tx"
    and "reg_width (tile_region ts w h tx ty) > 0"
proof -
  note x = tile_region_x(1,2)[OF assms(1,3), of h ty]
  have "unat (region_right (tile_region ts w h tx ty)) = min (tx * ts + ts) (unat w)"
    unfolding region_right_def
    using x assms unat_u32_less[of w] by (simp add: unat_saturating_add)
  with x(1) assms(4) show "reg_x (tile_region ts w h tx ty) \<le> p \<and> p < region_right (tile_region ts w h tx ty)
           \<longleftrightarrow> unat p div ts = tx"
    by (simp add: word_le_nat_alt word_less_nat_alt div_eq_iff_block[OF assms(1)])
  show "reg_width (tile_region ts w h tx ty) > 0"
    using x(2) assms by (simp add: word_less_nat_alt)
qed

lemma tile_region_contains:
  assumes "0 < ts" "ts < 2 ^ 32" "tx < div_ceil (unat w) ts" "ty < div_ceil (unat h) ts"
    and "px < w" "py < h"
  shows "contains (tile_region ts w h tx ty) px py \<longleftrightarrow> unat px div ts = tx \<and> unat py div ts = ty"
    and "reg_width (tile_region ts w h tx ty) > 0" "reg_height (tile_region ts w h tx ty) > 0"
proof -
  have t: "tx * ts < unat w" "ty * ts < unat h" using assms by (simp_all add: div_ceil_less)
  have p: "unat px < unat w" "unat py < unat h" using assms(5,6) by (simp_all add: word_less_nat_alt)
  note sx = tile_region_span[OF assms(1,2) t(1) p(1), of h ty]
  note sy = tile_region_span[OF assms(1,2) t(2) p(2), of w tx]
  have b: "region_bottom (tile_region ts w h tx ty) = region_right (tile_region ts h w ty tx)"
    by (simp add: region_bottom_def region_right_def tile_region_swap[of ts w h tx ty])
  show "contains (tile_region ts w h tx ty) px py \<longleftrightarrow> unat px div ts = tx \<and> unat py div ts = ty"
    using sx(1) sy(1) unfolding contains_edges b tile_region_swap[of ts w h tx ty] by blast
  show "reg_width (tile_region ts w h tx ty) > 0" "reg_height (tile_region ts w h tx ty) > 0"
    using sx(2) sy(2) tile_region_swap[of ts w h tx ty] by simp_all
qed

lemma tiles_to_regions_set:
  "tiles_to_regions d nx ny ts w h = Some rs \<Longrightarrow>
   r \<in> set rs \<longleftrightarrow> (\<exists>tx ty. tx < nx \<and> ty < ny \<and> d ! (ty * nx + tx) \<and> r = tile_region ts w h tx ty \<and>
      reg_width r > 0 \<and> reg_height r > 0)"
  by (fastforce simp: tiles_to_regions_def Let_def split: if_splits)

lemma tiles_to_regions_total:
  "length d = nx * ny \<Longrightarrow> \<exists>rs. tiles_to_regions d nx ny ts w h = Some rs"
  by (simp add: tiles_to_regions_def)

section \<open>The marking loop\<close>

lemma store_flag_length [simp]: "length (store_flag j v fl) = length fl"
  by (simp add: store_flag_def split: option.splits)

lemma store_flag_nth:
  "i < length fl \<Longrightarrow> store_flag j v fl ! i = (if i = j then case_option (fl ! i) id v else fl ! i)"
  by (auto simp: store_flag_def split: option.splits)

lemma mark_row:
  "length (fold (\<lambda>tx. store_flag (base + tx) (f tx)) [0..<n] fl) = length fl"
  "i < length fl \<Longrightarrow> fold (\<lambda>tx. store_flag (base + tx) (f tx)) [0..<n] fl ! i =
     (if base \<le> i \<and> i < base + n then case_option (fl ! i) id (f (i - base)) else fl ! i)"
proof (induction n)
  case (Suc n)
  { case 1 show ?case using Suc(1) by simp }
  { case 2 show ?case
    proof (cases "i = base + n")
      case True
      then show ?thesis using Suc 2 by (simp add: store_flag_nth split: option.split)
    next
      case False
      then show ?thesis using Suc 2 by (simp add: store_flag_nth)
    qed }
qed auto

lemma mark_rows:
  assumes "0 < nx"
  shows "length (fold (\<lambda>ty. fold (\<lambda>tx. store_flag (ty * nx + tx) (f tx ty)) [0..<nx]) [0..<m] fl) = length fl"
    and "i < length fl \<Longrightarrow> fold (\<lambda>ty. fold (\<lambda>tx. store_flag (ty * nx + tx) (f tx ty)) [0..<nx]) [0..<m] fl ! i =
      (if i < m * nx then case_option (fl ! i) id (f (i mod nx) (i div nx)) else fl ! i)"
proof (induction m)
  case (Suc m)
  { case 1 show ?case using Suc(1) by (simp add: mark_row(1)) }
  { case 2
    have row: "i div nx = m \<and> i - m * nx = i mod nx" if "m * nx \<le> i" "i < m * nx + nx"
      using that assms by (metis div_eq_iff_block minus_div_mult_eq_mod)
    consider "i < m * nx" | "m * nx \<le> i" "i < m * nx + nx" | "m * nx + nx \<le> i" by linarith
    then show ?case using Suc 2 row by cases (simp_all add: mark_row split: option.split) }
qed simp_all

lemma mark_tiles_length:
  assumes "length fl = nx * ny"
  shows "length (mark_tiles cfg prev cur w h nx ny fl) = nx * ny"
proof (cases "nx = 0")
  case True
  have "fold (\<lambda>ty fl. fl) xs fl' = fl'" for xs :: "nat list" and fl' :: "bool list"
    by (induction xs) auto
  with True assms show ?thesis by (simp add: mark_tiles_def id_def)
next
  case False
  then show ?thesis using mark_rows(1)[of nx] assms by (simp add: mark_tiles_def)
qed

lemma mark_tiles_nth:
  assumes "tx < nx" "ty < ny" "length fl = nx * ny"
  shows "mark_tiles cfg prev cur w h nx ny fl ! (ty * nx + tx) = (tile_flag cfg prev cur w h tx ty = Some True)"
proof -
  have nx: "0 < nx" using assms(1) by simp
  have "ty * nx + nx \<le> ny * nx" using assms(2) by (metis Suc_leI add.commute mult_Suc mult_le_mono1)
  with assms(1) have i: "ty * nx + tx < ny * nx" by linarith
  then have "ty * nx + tx < length (map (\<lambda>_. False) fl)" using assms(3) by (simp add: mult.commute)
  from mark_rows(2)[OF nx this, of "tile_flag cfg prev cur w h" ny] i assms
  show "mark_tiles cfg prev cur w h nx ny fl ! (ty * nx + tx) = (tile_flag cfg prev cur w h tx ty = Some True)"
    by (simp add: mark_tiles_def mult.commute[of ny nx] split: option.splits)
qed


section \<open>What a tile comparison counts\<close>

text \<open>The pixel at index \<open>k\<close> of a frame, and at a position of a frame of width \<open>w\<close>.\<close>

definition pixel4 :: "byte list \<Rightarrow> nat \<Rightarrow> byte \<times> byte \<times> byte \<times> byte" where
  "pixel4 f k = (f ! (4 * k), f ! (4 * k + 1), f ! (4 * k + 2), f ! (4 * k + 3))"

definition pixel_at :: "byte list \<Rightarrow> nat \<Rightarrow> nat \<Rightarrow> nat \<Rightarrow> byte \<times> byte \<times> byte \<times> byte" where
  "pixel_at f w px py = pixel4 f (py * w + px)"

definition changed_pixels :: "u8 \<Rightarrow> byte list \<Rightarrow> byte list \<Rightarrow> nat \<Rightarrow> nat \<Rightarrow> nat \<Rightarrow> nat \<Rightarrow> nat \<Rightarrow> (nat \<times> nat) set" where
  "changed_pixels thr prev cur w x0 y0 tw th =
     {(px, py). x0 \<le> px \<and> px < x0 + tw \<and> y0 \<le> py \<and> py < y0 + th \<and>
        pixel_differs thr (pixel_at prev w px py) (pixel_at cur w px py)}"

lemma drop4:
  "4 * k + 4 \<le> length f \<Longrightarrow>
   drop (4 * k) f = f ! (4 * k) # f ! (4 * k + 1) # f ! (4 * k + 2) # f ! (4 * k + 3) # drop (4 * Suc k) f"
  by (simp add: Cons_nth_drop_Suc numeral_eq_Suc)

lemma take4: "take (4 * Suc n) (a # b # c # d # xs) = a # b # c # d # take (4 * n) xs"
  by (simp add: numeral_eq_Suc)

lemma chunks_exact4_slice:
  "4 * (k + n) \<le> length f \<Longrightarrow>
   chunks_exact4 (take (4 * n) (drop (4 * k) f)) = map (\<lambda>i. pixel4 f (k + i)) [0..<n]"
proof (induction n arbitrary: k)
  case (Suc n)
  have "drop (4 * k) f = f ! (4 * k) # f ! (4 * k + 1) # f ! (4 * k + 2) # f ! (4 * k + 3) # drop (4 * Suc k) f"
    using Suc.prems by (intro drop4) simp
  then have "chunks_exact4 (take (4 * Suc n) (drop (4 * k) f)) =
      pixel4 f k # chunks_exact4 (take (4 * n) (drop (4 * Suc k) f))"
    by (simp only: take4 pixel4_def chunks_exact4.simps)
  also have "\<dots> = pixel4 f k # map (\<lambda>i. pixel4 f (Suc k + i)) [0..<n]"
    using Suc.IH[of "Suc k"] Suc.prems by simp
  also have "\<dots> = map (\<lambda>i. pixel4 f (k + i)) [0..<Suc n]"
    by (simp add: upt_conv_Cons map_Suc_upt[symmetric] del: upt_Suc)
  finally show ?case .
qed simp

lemma count_fold:
  "fold (\<lambda>(p, c) n. if Q p c then n + 1 else n) ps (m :: u32) = m + of_nat (length (filter (\<lambda>(p, c). Q p c) ps))"
  by (induction ps arbitrary: m) auto

lemma count_row:
  assumes "4 * (k + n) \<le> length prev" "4 * (k + n) \<le> length cur"
  shows "count_different_pixels (take (4 * n) (drop (4 * k) prev)) (take (4 * n) (drop (4 * k) cur)) thr =
     of_nat (card {i. i < n \<and> pixel_differs thr (pixel4 prev (k + i)) (pixel4 cur (k + i))})"
proof -
  have z: "zip (map a xs) (map b xs) = map (\<lambda>i. (a i, b i)) xs"
    for a b :: "nat \<Rightarrow> byte \<times> byte \<times> byte \<times> byte" and xs
    by (induction xs) auto
  have "length (filter P [0..<n]) = card {i. i < n \<and> P i}" for P
    using length_filter_conv_card[of P "[0..<n]"] by (simp cong: conj_cong)
  then show ?thesis
    by (simp add: count_different_pixels_def count_fold chunks_exact4_slice[OF assms(1)]
        chunks_exact4_slice[OF assms(2)] z filter_map comp_def)
qed


lemma changed_pixels_finite [simp]: "finite (changed_pixels thr prev cur w x0 y0 tw th)"
  by (rule finite_subset[of _ "{..<x0 + tw} \<times> {..<y0 + th}"]) (auto simp: changed_pixels_def)

lemma changed_pixels_bound: "card (changed_pixels thr prev cur w x0 y0 tw th) \<le> tw * th"
proof -
  have "card (changed_pixels thr prev cur w x0 y0 tw th) \<le> card ({x0..<x0 + tw} \<times> {y0..<y0 + th})"
    by (rule card_mono) (auto simp: changed_pixels_def)
  then show ?thesis by (simp add: card_cartesian_product)
qed

lemma changed_pixels_row:
  "card (changed_pixels thr prev cur w x0 y0 tw (Suc th)) =
   card (changed_pixels thr prev cur w x0 y0 tw th) +
   card {i. i < tw \<and> pixel_differs thr (pixel4 prev ((y0 + th) * w + x0 + i)) (pixel4 cur ((y0 + th) * w + x0 + i))}"
proof -
  let ?I = "{i. i < tw \<and> pixel_differs thr (pixel4 prev ((y0 + th) * w + x0 + i)) (pixel4 cur ((y0 + th) * w + x0 + i))}"
  have "(px, py) \<in> changed_pixels thr prev cur w x0 y0 tw (Suc th) \<longleftrightarrow>
      (px, py) \<in> changed_pixels thr prev cur w x0 y0 tw th \<union> (\<lambda>i. (x0 + i, y0 + th)) ` ?I" for px py
  proof (cases "py = y0 + th \<and> x0 \<le> px")
    case True
    then obtain i where "px = x0 + i" by (metis le_iff_add)
    with True show ?thesis by (auto simp: changed_pixels_def pixel_at_def add.assoc)
  qed (auto simp: changed_pixels_def)
  then have "changed_pixels thr prev cur w x0 y0 tw (Suc th) =
      changed_pixels thr prev cur w x0 y0 tw th \<union> (\<lambda>i. (x0 + i, y0 + th)) ` ?I" by auto
  moreover have "changed_pixels thr prev cur w x0 y0 tw th \<inter> (\<lambda>i. (x0 + i, y0 + th)) ` ?I = {}"
    by (auto simp: changed_pixels_def)
  ultimately show ?thesis
    by (simp add: card_Un_disjoint card_image inj_on_def)
qed

lemma compare_tile_counts:
  assumes len: "length prev = w * h * 4" "length cur = w * h * 4"
    and fit: "x0 + tw \<le> w" "y0 + th \<le> h"
  shows "compare_tile prev cur x0 y0 tw th (w * 4) thr =
     of_nat (card (changed_pixels thr prev cur w x0 y0 tw th))"
  using fit(2)
proof (induction th)
  case 0
  have "changed_pixels thr prev cur w x0 y0 tw 0 = {}" by (auto simp: changed_pixels_def)
  then show ?case by (simp add: compare_tile_def)
next
  case (Suc n)
  let ?k = "(y0 + n) * w + x0"
  have "(y0 + n) * w + w \<le> h * w"
    using Suc.prems by (metis Suc_eq_plus1 add.assoc add_mult_distrib mult_1 mult_le_mono1)
  then have "?k + tw \<le> w * h" using fit(1) by (simp add: mult.commute)
  then have b: "4 * (?k + tw) \<le> length prev" "4 * (?k + tw) \<le> length cur" using len by simp_all
  have o: "(y0 + n) * (w * 4) + x0 * 4 = 4 * ?k" by (simp add: algebra_simps)
  have step: "compare_tile prev cur x0 y0 tw (Suc n) (w * 4) thr =
      compare_tile prev cur x0 y0 tw n (w * 4) thr
      + count_different_pixels (take (4 * tw) (drop (4 * ?k) prev)) (take (4 * tw) (drop (4 * ?k) cur)) thr"
    using b by (simp add: compare_tile_def Let_def o mult.commute[of tw 4])
  show ?case
    unfolding step count_row[OF b] using Suc.IH Suc.prems by (simp add: changed_pixels_row)
qed

section \<open>The detector's invariant\<close>

text \<open>
  A detector that is ready to compare (it has a previous frame and is not invalidated) knows
  that frame's dimensions, and its tile grid fits them.
\<close>

definition detector_inv :: "damage_detector \<Rightarrow> bool" where
  "detector_inv d \<longleftrightarrow>
     (\<forall>f. previous_frame d = Some f \<and> \<not> invalidated d \<longrightarrow>
        (\<exists>w h. previous_dimensions d = Some (w, h) \<and>
           length f = (unat w * unat h * 4) mod 2 ^ 64 \<and> 0 < tile_size (config d) \<and>
           tiles_x d = div_ceil (unat w) (tile_size (config d)) \<and>
           tiles_y d = div_ceil (unat h) (tile_size (config d)) \<and>
           length (tile_dirty d) = tiles_x d * tiles_y d))"

definition needs_full_frame :: "u32 \<Rightarrow> u32 \<Rightarrow> damage_detector \<Rightarrow> bool" where
  "needs_full_frame w h d \<longleftrightarrow>
     previous_frame d = None \<or> invalidated d \<or> previous_dimensions d \<noteq> Some (w, h)"

lemma detect_full:
  assumes "needs_full_frame w h d" "length f = (unat w * unat h * 4) mod 2 ^ 64" "0 < tile_size (config d)"
  shows "\<exists>d'. detect f w h dt d = Ok ([full_frame w h], d') \<and> detector_inv d' \<and> \<not> needs_full_frame w h d' \<and>
           previous_frame d' = Some f \<and> config d' = config d"
  using assms
  by (auto simp: detect_def needs_full_frame_def Let_def update_tile_grid_def detector_inv_def
      split: option.splits)

lemma detect_compare:
  assumes inv: "detector_inv d" and ready: "\<not> needs_full_frame w h d"
    and len: "length f = (unat w * unat h * 4) mod 2 ^ 64"
  obtains prev regions d' where "previous_frame d = Some prev" "length prev = length f"
    "tiles_to_regions (mark_tiles (config d) prev f w h (tiles_x d) (tiles_y d) (tile_dirty d))
       (tiles_x d) (tiles_y d) (tile_size (config d)) w h = Some regions"
    "tiles_x d = div_ceil (unat w) (tile_size (config d))"
    "tiles_y d = div_ceil (unat h) (tile_size (config d))"
    "length (tile_dirty d) = tiles_x d * tiles_y d" "0 < tile_size (config d)"
    "detect f w h dt d = Ok (filter (\<lambda>r. area r \<ge> min_region_area (config d))
       (merge_regions regions (merge_distance (config d))), d')"
    "detector_inv d'" "\<not> needs_full_frame w h d'" "previous_frame d' = Some f" "config d' = config d"
proof -
  from ready obtain prev where prev: "previous_frame d = Some prev" "\<not> invalidated d"
    "previous_dimensions d = Some (w, h)"
    by (auto simp: needs_full_frame_def)
  with inv have g: "length prev = (unat w * unat h * 4) mod 2 ^ 64" "0 < tile_size (config d)"
    "tiles_x d = div_ceil (unat w) (tile_size (config d))"
    "tiles_y d = div_ceil (unat h) (tile_size (config d))"
    "length (tile_dirty d) = tiles_x d * tiles_y d"
    by (auto simp: detector_inv_def)
  let ?fl = "mark_tiles (config d) prev f w h (tiles_x d) (tiles_y d) (tile_dirty d)"
  have fl: "length ?fl = tiles_x d * tiles_y d"
    by (rule mark_tiles_length) (rule g(5))
  then obtain regions where rg: "tiles_to_regions ?fl (tiles_x d) (tiles_y d) (tile_size (config d)) w h = Some regions"
    using tiles_to_regions_total by blast
  show thesis
  proof (rule that[OF prev(1) _ rg g(3,4,5,2)])
    show "length prev = length f" using g(1) len by simp
    let ?ms = "filter (\<lambda>r. area r \<ge> min_region_area (config d)) (merge_regions regions (merge_distance (config d)))"
    let ?d' = "d\<lparr>tile_dirty := ?fl, stats := record_frame (ucast w * ucast h)
        (sum_list (map area ?ms)) dt (stats d), previous_frame := Some f\<rparr>"
    show "detect f w h dt d = Ok (?ms, ?d')"
      using prev len rg by (simp add: detect_def Let_def detect_changes_def)
    show "detector_inv ?d'" "\<not> needs_full_frame w h ?d'" "previous_frame ?d' = Some f" "config ?d' = config d"
      using prev len g fl by (simp_all add: detector_inv_def needs_full_frame_def)
  qed
qed

text \<open>The operations a display loop performs on its detector.\<close>

datatype damage_op = Detect "byte list" u32 u32 u64 | Invalidate | SetConfig damage_config | ResetStats

fun damage_step :: "damage_op \<Rightarrow> damage_detector \<Rightarrow> (damage_panic, damage_detector) result" where
  "damage_step (Detect f w h dt) d = rbind (detect f w h dt d) (\<lambda>(_, d'). Ok d')"
| "damage_step Invalidate d = Ok (invalidate d)"
| "damage_step (SetConfig cfg) d = Ok (set_config cfg d)"
| "damage_step ResetStats d = Ok (reset_stats d)"

fun damage_op_ok :: "damage_op \<Rightarrow> bool" where
  "damage_op_ok (Detect f w h dt) \<longleftrightarrow> length f = (unat w * unat h * 4) mod 2 ^ 64"
| "damage_op_ok (SetConfig cfg) \<longleftrightarrow> 0 < tile_size cfg"
| "damage_op_ok _ \<longleftrightarrow> True"

lemma damage_step_safe:
  assumes "detector_inv d \<and> 0 < tile_size (config d)" "damage_op_ok op"
  shows "\<exists>d'. damage_step op d = Ok d' \<and> detector_inv d' \<and> 0 < tile_size (config d')"
proof (cases op)
  case (Detect f w h dt)
  with assms have len: "length f = (unat w * unat h * 4) mod 2 ^ 64" by simp
  show ?thesis
  proof (cases "needs_full_frame w h d")
    case True
    from detect_full[OF True len, of dt] assms(1) Detect show ?thesis by auto
  next
    case False
    from assms(1) have "detector_inv d" by simp
    then show ?thesis
      by (rule detect_compare[OF _ False len, of dt]) (use assms(1) Detect in auto)
  qed
qed (use assms in \<open>auto simp: invalidate_def set_config_def reset_stats_def detector_inv_def\<close>)

interpretation detector: safe_steps damage_step damage_op_ok
  "\<lambda>d. detector_inv d \<and> 0 < tile_size (config d)"
  by unfold_locales (rule damage_step_safe)

section \<open>What is reported\<close>

lemma merge_regions_separated: "sorted_wrt (\<lambda>a b. \<not> is_adjacent a b d) (merge_regions rs d)"
proof (cases "length rs \<le> 1")
  case True
  then show ?thesis by (cases rs) (auto simp: merge_regions_def)
next
  case False
  then show ?thesis by (simp add: merge_regions_def merge_loop_separated)
qed

lemma tiles_to_regions_in_frame:
  assumes "tiles_to_regions d (div_ceil (unat w) ts) (div_ceil (unat h) ts) ts w h = Some rs" "0 < ts"
  shows "list_all (in_frame w h) rs"
  unfolding list_all_iff
proof
  fix r assume "r \<in> set rs"
  then obtain tx ty where "tx < div_ceil (unat w) ts" "ty < div_ceil (unat h) ts"
    "r = tile_region ts w h tx ty" "reg_width r > 0" "reg_height r > 0"
    unfolding tiles_to_regions_set[OF assms(1)] by blast
  with tile_region_in_frame[OF assms(2)] show "in_frame w h r" by simp
qed

lemma unat_area: "in_frame w h r \<Longrightarrow> unat (area r) = unat (reg_width r) * unat (reg_height r)"
proof -
  have "unat (reg_width r) * unat (reg_height r) < 4294967296 * 4294967296"
    using unat_u32_less[of "reg_width r"] unat_u32_less[of "reg_height r"] by (intro mult_strict_mono) auto
  moreover have "unat (ucast v :: u64) = unat v" for v :: u32
    using unat_u32_less[of v] by (simp add: unsigned_ucast_eq take_bit_nat_eq_self)
  ultimately show ?thesis by (simp add: area_def unat_word_ariths)
qed

lemma covers_area:
  assumes "in_frame w h r" "in_frame w h s" "covers s r"
  shows "area s \<le> area r"
proof -
  have e: "unat (region_right t) = unat (reg_x t) + unat (reg_width t)"
    "unat (region_bottom t) = unat (reg_y t) + unat (reg_height t)" if "in_frame w h t" for t
    using that in_frame_edges[of w h t]
    by (simp_all add: region_right_def region_bottom_def saturating_add_exact)
  have "unat (reg_width s) \<le> unat (reg_width r)" "unat (reg_height s) \<le> unat (reg_height r)"
    using assms(3) e[OF assms(1)] e[OF assms(2)] unfolding covers_def word_le_nat_alt by linarith+
  then show ?thesis
    using assms by (simp add: word_le_nat_alt unat_area mult_le_mono)
qed

lemma compare_same: "compare_tile f f a b tw th st thr = 0"
proof -
  have "pixel_differs thr p p = False" for p
    by (cases p) (simp add: pixel_differs_def channel_diff_def)
  then have "count_different_pixels x x thr = 0" for x
    by (simp add: count_different_pixels_def count_fold zip_same_conv_map filter_map comp_def)
  then have "fold (\<lambda>row total_diff. let y = b + row; offset = y * st + a * 4
      in if offset + tw * 4 > length f \<or> offset + tw * 4 > length f then total_diff
         else total_diff + count_different_pixels (take (tw * 4) (drop offset f))
                (take (tw * 4) (drop offset f)) thr) xs (0 :: u32) = 0" for xs
    by (induction xs) (simp_all add: Let_def)
  then show ?thesis by (simp add: compare_tile_def)
qed

lemma tile_flag_same: "tile_flag cfg f f w h tx ty \<noteq> Some True"
  by (simp add: tile_flag_def Let_def compare_same)

text \<open>The number of changed pixels from which a tile of the frame is dirty.\<close>

definition tile_extent :: "usize \<Rightarrow> u32 \<Rightarrow> usize \<Rightarrow> usize" where
  "tile_extent ts w tx = min ts (unat w - tx * ts)"

definition tile_changes :: "damage_config \<Rightarrow> byte list \<Rightarrow> byte list \<Rightarrow> u32 \<Rightarrow> u32 \<Rightarrow> usize \<Rightarrow> usize \<Rightarrow> nat" where
  "tile_changes cfg prev cur w h tx ty =
     card (changed_pixels (pixel_threshold cfg) prev cur (unat w) (tx * tile_size cfg) (ty * tile_size cfg)
       (tile_extent (tile_size cfg) w tx) (tile_extent (tile_size cfg) h ty))"

definition tile_tolerance :: "damage_config \<Rightarrow> u32 \<Rightarrow> u32 \<Rightarrow> usize \<Rightarrow> usize \<Rightarrow> u32" where
  "tile_tolerance cfg w h tx ty =
     float_as_u32 (f32_mul (f32_of_nat (tile_extent (tile_size cfg) w tx * tile_extent (tile_size cfg) h ty))
       (diff_threshold cfg))"

lemma tile_flag_iff:
  assumes "0 < tile_size cfg" "tile_size cfg < 2 ^ 16"
    and "tx < div_ceil (unat w) (tile_size cfg)" "ty < div_ceil (unat h) (tile_size cfg)"
    and "length prev = unat w * unat h * 4" "length cur = unat w * unat h * 4"
  shows "tile_flag cfg prev cur w h tx ty = Some True \<longleftrightarrow>
    unat (tile_tolerance cfg w h tx ty) < tile_changes cfg prev cur w h tx ty"
proof -
  let ?ts = "tile_size cfg" let ?tw = "tile_extent ?ts w tx" let ?th = "tile_extent ?ts h ty"
  have t: "tx * ?ts < unat w" "ty * ?ts < unat h" using assms by (simp_all add: div_ceil_less)
  have "?tw * ?th \<le> ?ts * ?ts" unfolding tile_extent_def by (intro mult_le_mono) auto
  also have "\<dots> < 2 ^ 16 * 2 ^ 16" using assms(2) by (intro mult_strict_mono) auto
  finally have px: "?tw * ?th < 2 ^ 32" by simp
  then have n: "tile_changes cfg prev cur w h tx ty < 2 ^ 32"
    using changed_pixels_bound unfolding tile_changes_def by (rule le_less_trans[rotated])
  have fit: "tx * ?ts + ?tw \<le> unat w" "ty * ?ts + ?th \<le> unat h"
    using t by (auto simp: tile_extent_def)
  have "compare_tile prev cur (tx * ?ts) (ty * ?ts) ?tw ?th (unat w * 4) (pixel_threshold cfg) =
      of_nat (tile_changes cfg prev cur w h tx ty)"
    unfolding tile_changes_def by (rule compare_tile_counts[OF assms(5,6) fit])
  then have "tile_flag cfg prev cur w h tx ty =
      Some (tile_tolerance cfg w h tx ty < of_nat (tile_changes cfg prev cur w h tx ty))"
    using t assms(1) px
    by (simp add: tile_flag_def Let_def tile_extent_def tile_tolerance_def unat_of_nat del: of_nat_mult)
  then show ?thesis using n by (simp add: word_less_nat_alt unat_of_nat)
qed

text \<open>After any history that ends with a frame, the detector is ready to compare with it.\<close>

lemma detector_new_inv:
  "0 < tile_size cfg \<Longrightarrow> detector_inv (detector_new cfg) \<and> 0 < tile_size (config (detector_new cfg))"
  by (simp add: detector_inv_def detector_new_def)

lemma ready_after_frame:
  assumes "run_steps damage_step (ops @ [Detect prev w h dt]) (detector_new cfg) = Ok d"
    and "list_all damage_op_ok (ops @ [Detect prev w h dt])" "0 < tile_size cfg"
  shows "detector_inv d" "\<not> needs_full_frame w h d" "previous_frame d = Some prev" "0 < tile_size (config d)"
proof -
  have ops: "list_all damage_op_ok ops" and len: "length prev = (unat w * unat h * 4) mod 2 ^ 64"
    using assms(2) by simp_all
  from detector.run_safe[OF detector_new_inv[OF assms(3)] ops] obtain d0 where
    d0: "run_steps damage_step ops (detector_new cfg) = Ok d0" and i: "detector_inv d0" and ts: "0 < tile_size (config d0)"
    by blast
  from assms(1) d0 obtain rs where dt: "detect prev w h dt d0 = Ok (rs, d)"
    by (auto simp: run_steps_snoc rbind_eq_Inr)
  have "detector_inv d \<and> \<not> needs_full_frame w h d \<and> previous_frame d = Some prev \<and> config d = config d0"
  proof (cases "needs_full_frame w h d0")
    case True
    from detect_full[OF True len ts, of dt] dt show ?thesis by auto
  next
    case False
    show ?thesis by (rule detect_compare[OF i False len, of dt]) (use dt in auto)
  qed
  with ts show "detector_inv d" "\<not> needs_full_frame w h d" "previous_frame d = Some prev" "0 < tile_size (config d)"
    by simp_all
qed

section \<open>Properties\<close>

text \<open>
  C4.  Merging loses nothing and is finished: a pixel that some input region contains is
  contained in an output region; regions that lie in the frame merge into regions
  that lie in the frame; and no two output regions are within the merge distance of each
  other.
\<close>

theorem merge_regions_correct:
  "(\<forall>px py. (\<exists>r \<in> set rs. contains r px py) \<longrightarrow> (\<exists>r \<in> set (merge_regions rs d). contains r px py)) \<and>
   (list_all (in_frame w h) rs \<longrightarrow> list_all (in_frame w h) (merge_regions rs d)) \<and>
   sorted_wrt (\<lambda>a b. \<not> is_adjacent a b d) (merge_regions rs d)"
  using containing.merge_regions_keeps in_frame.merge_regions_all[of w h rs d] merge_regions_separated
  by blast

text \<open>Two touching regions and a distant one: the first two merge.\<close>

theorem merge_regions_correct_witness:
  "(\<exists>r \<in> set (merge_regions [region_new 0 0 2 2, region_new 9 9 1 1, region_new 2 0 2 1] 1). contains r 3 0) \<and>
   list_all (in_frame 10 10) (merge_regions [region_new 0 0 2 2, region_new 9 9 1 1, region_new 2 0 2 1] 1)"
proof -
  have "contains (region_new 2 0 2 1) 3 0"
    by (simp add: contains_def region_new_def saturating_add_def)
  moreover have "list_all (in_frame 10 10) [region_new 0 0 2 2, region_new 9 9 1 1, region_new 2 0 2 1]"
    by (simp add: in_frame_def region_new_def)
  ultimately show ?thesis
    using merge_regions_correct[of "[region_new 0 0 2 2, region_new 9 9 1 1, region_new 2 0 2 1]" 1 10 10]
    by (metis list.set_intros)
qed

text \<open>
  C5.  The detector never panics on well-sized frames: from a new detector, any
  sequence of frames of their declared size, invalidations, statistics resets and changes
  to a configuration with a non-zero tile size succeeds, and the next well-sized frame yields
  either the full frame or non-empty regions inside the frame, no two of them within the
  configured merge distance.
\<close>

theorem detector_never_panics:
  assumes "list_all damage_op_ok ops" "0 < tile_size cfg" "length f = (unat w * unat h * 4) mod 2 ^ 64"
  shows "\<exists>d regions d'. run_steps damage_step ops (detector_new cfg) = Ok d \<and>
     detect f w h dt d = Ok (regions, d') \<and>
     (regions = [full_frame w h] \<or>
      list_all (in_frame w h) regions \<and>
      sorted_wrt (\<lambda>a b. \<not> is_adjacent a b (merge_distance (config d))) regions)"
proof -
  from detector.run_safe[OF detector_new_inv[OF assms(2)] assms(1)] obtain d where
    d: "run_steps damage_step ops (detector_new cfg) = Ok d" and i: "detector_inv d" and ts: "0 < tile_size (config d)"
    by blast
  show ?thesis
  proof (cases "needs_full_frame w h d")
    case True
    from detect_full[OF True assms(3) ts, of dt] d show ?thesis by blast
  next
    case False
    from detect_compare[OF i False assms(3), of dt] obtain prev regions d' where
      r: "tiles_to_regions (mark_tiles (config d) prev f w h (tiles_x d) (tiles_y d) (tile_dirty d))
        (tiles_x d) (tiles_y d) (tile_size (config d)) w h = Some regions"
      "tiles_x d = div_ceil (unat w) (tile_size (config d))"
      "tiles_y d = div_ceil (unat h) (tile_size (config d))"
      "detect f w h dt d = Ok (filter (\<lambda>r. area r \<ge> min_region_area (config d))
        (merge_regions regions (merge_distance (config d))), d')" by blast
    let ?ms = "merge_regions regions (merge_distance (config d))"
    have "list_all (in_frame w h) ?ms"
      using tiles_to_regions_in_frame[OF _ ts] r(1) unfolding r(2,3)
      by (blast intro: in_frame.merge_regions_all)
    then have "list_all (in_frame w h) (filter (\<lambda>r. area r \<ge> min_region_area (config d)) ?ms)"
      by (auto simp: list_all_iff)
    with d r(4) sorted_wrt_filter[OF merge_regions_separated] show ?thesis by blast
  qed
qed

theorem detector_never_panics_witness:
  "\<exists>d regions d'. run_steps damage_step
       [Detect (replicate 8 0) 2 1 5, Invalidate, SetConfig (damage_config_default\<lparr>tile_size := 1\<rparr>), ResetStats]
       (detector_new damage_config_default) = Ok d \<and>
     detect (replicate 8 1) 1 2 9 d = Ok (regions, d') \<and>
     (regions = [full_frame 1 2] \<or>
      list_all (in_frame 1 2) regions \<and>
      sorted_wrt (\<lambda>a b. \<not> is_adjacent a b (merge_distance (config d))) regions)"
  by (rule detector_never_panics) (simp_all add: damage_config_default_def)

text \<open>
  An unchanged frame costs nothing: after any history that ends with a frame, the same
  frame again yields no region, whatever the configuration.
\<close>

theorem unchanged_frame_yields_nothing:
  assumes "run_steps damage_step (ops @ [Detect f w h dt]) (detector_new cfg) = Ok d"
    and "list_all damage_op_ok (ops @ [Detect f w h dt])" "0 < tile_size cfg"
  shows "\<exists>d'. detect f w h dt' d = Ok ([], d')"
proof -
  note rd = ready_after_frame[OF assms]
  have len: "length f = (unat w * unat h * 4) mod 2 ^ 64" using assms(2) by simp
  from detect_compare[OF rd(1,2) len, of dt'] rd(3) obtain regions d' where
    r: "tiles_to_regions (mark_tiles (config d) f f w h (tiles_x d) (tiles_y d) (tile_dirty d))
        (tiles_x d) (tiles_y d) (tile_size (config d)) w h = Some regions"
    "length (tile_dirty d) = tiles_x d * tiles_y d"
    "detect f w h dt' d = Ok (filter (\<lambda>r. area r \<ge> min_region_area (config d))
        (merge_regions regions (merge_distance (config d))), d')" by (metis option.inject)
  have "r \<notin> set regions" for r
    unfolding tiles_to_regions_set[OF r(1)] using mark_tiles_nth[OF _ _ r(2)] tile_flag_same by blast
  then have "regions = []" by (metis list.set_intros(1) neq_Nil_conv)
  with r(3) show ?thesis by (simp add: merge_regions_def)
qed

theorem unchanged_frame_yields_nothing_witness:
  "\<exists>d d'. run_steps damage_step ([Detect (replicate 8 0) 2 1 5] @ [Detect (replicate 8 9) 1 2 5])
       (detector_new damage_config_default) = Ok d \<and> detect (replicate 8 9) 1 2 7 d = Ok ([], d')"
proof -
  let ?ops = "[Detect (replicate 8 0) 2 1 5] @ [Detect (replicate 8 9) 1 2 5]"
  have ok: "list_all damage_op_ok ?ops" "0 < tile_size damage_config_default"
    by (simp_all add: damage_config_default_def)
  from detector.run_safe[OF detector_new_inv[OF ok(2)] ok(1)] obtain d where
    d: "run_steps damage_step ?ops (detector_new damage_config_default) = Ok d" by blast
  from unchanged_frame_yields_nothing[OF d ok] d show ?thesis by blast
qed

text \<open>
  C6.  No change of a tile is missed, unless the tile is small: after any history that ends with the frame \<open>prev\<close>, take the tile of a
  pixel in the next frame of the same size.  If more pixels of that tile changed (by more than
  the pixel threshold in some colour channel) than the tile's tolerance, and the tile itself is not
  below the minimum region area, then the pixel lies in a reported region (for tiles of less than $2^{16}$ pixels a side).
\<close>

theorem changed_tile_is_reported:
  assumes run: "run_steps damage_step (ops @ [Detect prev w h dt]) (detector_new cfg) = Ok d"
    and ok: "list_all damage_op_ok (ops @ [Detect prev w h dt])" "0 < tile_size cfg"
    and size: "unat w * unat h * 4 < 2 ^ 64" "length f = unat w * unat h * 4" "tile_size (config d) < 2 ^ 16"
    and p: "px < w" "py < h"
    and t: "tx = unat px div tile_size (config d)" "ty = unat py div tile_size (config d)"
    and changes: "unat (tile_tolerance (config d) w h tx ty) < tile_changes (config d) prev f w h tx ty"
    and big: "min_region_area (config d) \<le> area (tile_region (tile_size (config d)) w h tx ty)"
  shows "\<exists>regions d'. detect f w h dt' d = Ok (regions, d') \<and> (\<exists>r \<in> set regions. contains r px py)"
proof -
  note rd = ready_after_frame[OF run ok]
  let ?ts = "tile_size (config d)" let ?T = "tile_region ?ts w h tx ty"
  have len: "length f = (unat w * unat h * 4) mod 2 ^ 64" "length prev = unat w * unat h * 4"
    using size ok(1) by simp_all
  from detect_compare[OF rd(1,2) len(1), of dt'] rd(3) obtain regions d' where
    g: "tiles_x d = div_ceil (unat w) ?ts" "tiles_y d = div_ceil (unat h) ?ts"
    and r: "tiles_to_regions (mark_tiles (config d) prev f w h (tiles_x d) (tiles_y d) (tile_dirty d))
        (tiles_x d) (tiles_y d) ?ts w h = Some regions"
    "length (tile_dirty d) = tiles_x d * tiles_y d"
    "detect f w h dt' d = Ok (filter (\<lambda>r. area r \<ge> min_region_area (config d))
        (merge_regions regions (merge_distance (config d))), d')" by (metis option.inject)
  have txy: "tx < div_ceil (unat w) ?ts" "ty < div_ceil (unat h) ?ts"
    using p rd(4) by (simp_all add: t div_ceil_covers word_less_nat_alt)
  have ts: "?ts < 2 ^ 32" using size(3) by simp
  note T = tile_region_contains[OF rd(4) ts txy p]
  have "tile_flag (config d) prev f w h tx ty = Some True"
    using tile_flag_iff[OF rd(4) size(3) txy len(2) size(2)] changes by simp
  with mark_tiles_nth[OF txy[folded g] r(2)] have "?T \<in> set regions"
    unfolding tiles_to_regions_set[OF r(1)] using txy g T(2,3) by metis
  then obtain m where m: "m \<in> set (merge_regions regions (merge_distance (config d)))" "covers ?T m"
    using covering.merge_regions_keeps[of regions ?T] by (auto simp: covers_def)
  have "list_all (in_frame w h) (merge_regions regions (merge_distance (config d)))"
    using tiles_to_regions_in_frame[OF _ rd(4)] r(1) unfolding g
    by (blast intro: in_frame.merge_regions_all)
  with m(1) have "in_frame w h m" by (simp add: list_all_iff)
  then have "area ?T \<le> area m"
    using tile_region_in_frame[OF rd(4) txy T(2,3)] m(2) by (rule covers_area)
  with big have "min_region_area (config d) \<le> area m" by simp
  moreover have "contains m px py" using T(1) t m(2) by (auto simp: covers_def contains_edges)
  ultimately show ?thesis using m(1) r(3) by auto
qed

text \<open>A two-pixel frame whose second pixel changes, with one-pixel tiles and no tolerance.\<close>

definition example_config :: damage_config where
  "example_config = \<lparr>tile_size = 1, diff_threshold = 0, pixel_threshold = 0, merge_distance = 0, min_region_area = 0\<rparr>"

theorem changed_tile_is_reported_witness:
  "\<exists>d regions d'. run_steps damage_step ([] @ [Detect (replicate 8 0) 2 1 5]) (detector_new example_config) = Ok d \<and>
     detect [0, 0, 0, 0, 0, 7, 0, 0] 2 1 6 d = Ok (regions, d') \<and> (\<exists>r \<in> set regions. contains r 1 0)"
proof -
  let ?d = "(detector_new example_config)\<lparr>previous_frame := Some (replicate 8 0), previous_dimensions := Some (2, 1),
     tiles_x := 2, tiles_y := 1, tile_dirty := [False, False], invalidated := False,
     stats := record_frame 2 2 5 damage_stats_default\<rparr>"
  let ?f = "[0, 0, 0, 0, 0, 7, 0, 0] :: byte list"
  have r2: "replicate 2 False = [False, False]" by (simp add: numeral_2_eq_2)
  have run: "run_steps damage_step ([] @ [Detect (replicate 8 0) 2 1 5]) (detector_new example_config) = Ok ?d"
    by (simp add: detect_def detector_new_def update_tile_grid_def example_config_def div_ceil_def
        r2 Let_def)
  have cf: "config ?d = example_config" by (simp add: detector_new_def)
  have "(1, 0) \<in> changed_pixels 0 (replicate 8 0) ?f 2 1 0 1 1"
    by (simp add: changed_pixels_def pixel_at_def pixel4_def pixel_differs_def channel_diff_def)
  then have "0 < card (changed_pixels 0 (replicate 8 0) ?f 2 1 0 1 1)"
    by (metis card_gt_0_iff changed_pixels_finite empty_iff)
  then have "unat (tile_tolerance (config ?d) 2 1 1 0) < tile_changes (config ?d) (replicate 8 0) ?f 2 1 1 0"
    unfolding cf by (simp add: tile_tolerance_def tile_changes_def tile_extent_def example_config_def)
  moreover have "list_all damage_op_ok ([] @ [Detect (replicate 8 0) 2 1 5])" "0 < tile_size example_config"
    by (simp_all add: example_config_def)
  ultimately show ?thesis
    using changed_tile_is_reported[OF run, of ?f 1 0 1 0 6] run unfolding cf
    by (simp add: example_config_def)
qed

end
