(* ===== verification/Wrdp_Clipboard_Sync.thy ===== *)
theory Wrdp_Clipboard_Sync
  imports Wrdp_Prelude
begin

text \<open>
  Clipboard loop suppression (\<open>src/src/rdp/channels/clipboard\<close>):
  \<open>core/loop_detector.rs\<close> (\<open>LoopDetector\<close>) and its client \<open>sync.rs\<close> (\<open>SyncManager\<close>).

  SHA-256, a third-party function, is the parameter \<open>sha\<close>: the lower-case hexadecimal digest of
  a byte string.  Nothing is assumed of it.  Every operation takes the instant \<open>now\<close> at which
  it runs; the several readings of the clock within one call are that one instant.  A
  \<open>VecDeque\<close> is a list with its front first.
\<close>

section \<open>Data\<close>

record clipboard_format =
  format_id :: u32
  format_name :: "string option"

record loop_detection_config =
  window_ms :: u64
  max_history :: usize
  enable_content_hashing :: bool
  rate_limit_ms :: "u64 option"

definition loop_detection_config_default :: loop_detection_config where
  "loop_detection_config_default =
     \<lparr>window_ms = 500, max_history = 10, enable_content_hashing = True, rate_limit_ms = None\<rparr>"

definition with_rate_limit :: "u64 \<Rightarrow> loop_detection_config" where
  "with_rate_limit ms = loop_detection_config_default\<lparr>rate_limit_ms := Some ms\<rparr>"

datatype clipboard_source = Rdp | Local

fun opposite :: "clipboard_source \<Rightarrow> clipboard_source" where
  "opposite Rdp = Local"
| "opposite Local = Rdp"

record clipboard_operation =
  op_hash :: string
  op_source :: clipboard_source
  op_timestamp :: instant

record loop_detector =
  loop_config :: loop_detection_config
  format_history :: "clipboard_operation list"
  content_history :: "clipboard_operation list"
  last_sync_rdp :: "instant option"
  last_sync_local :: "instant option"

section \<open>Hashing\<close>

text \<open>\<open>str::as_bytes\<close> on the Latin-1 range, and \<open>u32::to_le_bytes\<close>.\<close>

definition char_bytes :: "char \<Rightarrow> byte list" where
  "char_bytes c = (if code c < 128 then [of_nat (code c)]
                   else [of_nat (192 + code c div 64), of_nat (128 + code c mod 64)])"

definition as_bytes :: "string \<Rightarrow> byte list" where
  "as_bytes s = concat (map char_bytes s)"

definition to_le_bytes32 :: "u32 \<Rightarrow> byte list" where
  "to_le_bytes32 w = map (\<lambda>i. ucast (drop_bit (8 * i) w)) [0, 1, 2, 3]"

type_synonym digest = "byte list \<Rightarrow> string"

definition hash_formats :: "digest \<Rightarrow> clipboard_format list \<Rightarrow> string" where
  "hash_formats sha formats =
     sha (concat (map (\<lambda>f. to_le_bytes32 (format_id f) @
       (case format_name f of None \<Rightarrow> [] | Some name \<Rightarrow> as_bytes name)) formats))"

definition hash_mime_types :: "digest \<Rightarrow> string list \<Rightarrow> string" where
  "hash_mime_types sha mime_types = sha (concat (map (\<lambda>m. as_bytes m @ [0]) mime_types))"

definition hash_content :: "digest \<Rightarrow> byte list \<Rightarrow> string" where
  "hash_content sha data = sha data"

section \<open>The detector\<close>

definition detector_with_config :: "loop_detection_config \<Rightarrow> loop_detector" where
  "detector_with_config c =
     \<lparr>loop_config = c, format_history = [], content_history = [],
      last_sync_rdp = None, last_sync_local = None\<rparr>"

text \<open>The reverse scan of \<open>check_hash_collision\<close>, with its \<open>break\<close> at the first old entry.\<close>

fun scan_recent :: "duration \<Rightarrow> instant \<Rightarrow> string \<Rightarrow> clipboard_source \<Rightarrow> clipboard_operation list \<Rightarrow> bool" where
  "scan_recent window now hash current_source [] = False"
| "scan_recent window now hash current_source (x # xs) =
     (if now - op_timestamp x > window then False
      else if op_source x = opposite current_source \<and> op_hash x = hash then True
      else scan_recent window now hash current_source xs)"

definition check_hash_collision ::
  "instant \<Rightarrow> loop_detection_config \<Rightarrow> clipboard_operation list \<Rightarrow> string \<Rightarrow> clipboard_source \<Rightarrow> bool" where
  "check_hash_collision now c history hash current_source =
     scan_recent (from_millis (unat (window_ms c))) now hash current_source (rev history)"

definition record_operation ::
  "instant \<Rightarrow> string \<Rightarrow> clipboard_source \<Rightarrow> clipboard_operation list \<Rightarrow> clipboard_operation list" where
  "record_operation now hash source history =
     history @ [\<lparr>op_hash = hash, op_source = source, op_timestamp = now\<rparr>]"

text \<open>The four \<open>pop_front\<close> loops of \<open>cleanup_history\<close>, one pair per history.\<close>

fun pop_stale :: "duration \<Rightarrow> instant \<Rightarrow> clipboard_operation list \<Rightarrow> clipboard_operation list" where
  "pop_stale window now [] = []"
| "pop_stale window now (front # rest) =
     (if now - op_timestamp front > window then pop_stale window now rest else front # rest)"

fun pop_excess :: "usize \<Rightarrow> clipboard_operation list \<Rightarrow> clipboard_operation list" where
  "pop_excess limit [] = []"
| "pop_excess limit (front # rest) =
     (if length (front # rest) > limit then pop_excess limit rest else front # rest)"

definition cleanup_queue ::
  "loop_detection_config \<Rightarrow> instant \<Rightarrow> clipboard_operation list \<Rightarrow> clipboard_operation list" where
  "cleanup_queue c now history =
     pop_excess (max_history c) (pop_stale (from_millis (unat (window_ms c * 2))) now history)"

definition cleanup_history :: "instant \<Rightarrow> loop_detector \<Rightarrow> loop_detector" where
  "cleanup_history now d =
     d\<lparr>format_history := cleanup_queue (loop_config d) now (format_history d),
       content_history := cleanup_queue (loop_config d) now (content_history d)\<rparr>"

text \<open>\<open>record_formats\<close> also appends to a clone of the history, which it then discards.\<close>

definition record_formats ::
  "digest \<Rightarrow> instant \<Rightarrow> clipboard_format list \<Rightarrow> clipboard_source \<Rightarrow> loop_detector \<Rightarrow> loop_detector" where
  "record_formats sha now formats source d =
     cleanup_history now
       (d\<lparr>format_history := record_operation now (hash_formats sha formats) source (format_history d)\<rparr>)"

definition record_mime_types ::
  "digest \<Rightarrow> instant \<Rightarrow> string list \<Rightarrow> clipboard_source \<Rightarrow> loop_detector \<Rightarrow> loop_detector" where
  "record_mime_types sha now mime_types source d =
     cleanup_history now
       (d\<lparr>format_history := record_operation now (hash_mime_types sha mime_types) source (format_history d)\<rparr>)"

definition record_content ::
  "digest \<Rightarrow> instant \<Rightarrow> byte list \<Rightarrow> clipboard_source \<Rightarrow> loop_detector \<Rightarrow> loop_detector" where
  "record_content sha now data source d =
     (if \<not> enable_content_hashing (loop_config d) then d
      else cleanup_history now
        (d\<lparr>content_history := record_operation now (hash_content sha data) source (content_history d)\<rparr>))"

definition would_cause_loop :: "digest \<Rightarrow> instant \<Rightarrow> clipboard_format list \<Rightarrow> loop_detector \<Rightarrow> bool" where
  "would_cause_loop sha now formats d =
     check_hash_collision now (loop_config d) (format_history d) (hash_formats sha formats) Local"

definition would_cause_loop_mime :: "digest \<Rightarrow> instant \<Rightarrow> string list \<Rightarrow> loop_detector \<Rightarrow> bool" where
  "would_cause_loop_mime sha now mime_types d =
     check_hash_collision now (loop_config d) (format_history d) (hash_mime_types sha mime_types) Rdp"

definition would_cause_content_loop ::
  "digest \<Rightarrow> instant \<Rightarrow> byte list \<Rightarrow> clipboard_source \<Rightarrow> loop_detector \<Rightarrow> bool" where
  "would_cause_content_loop sha now data source d =
     (if \<not> enable_content_hashing (loop_config d) then False
      else check_hash_collision now (loop_config d) (content_history d) (hash_content sha data) source)"

definition clear :: "loop_detector \<Rightarrow> loop_detector" where
  "clear d = d\<lparr>format_history := [], content_history := [], last_sync_rdp := None, last_sync_local := None\<rparr>"

definition detector_is_rate_limited :: "instant \<Rightarrow> clipboard_source \<Rightarrow> loop_detector \<Rightarrow> bool" where
  "detector_is_rate_limited now source d =
     (case rate_limit_ms (loop_config d) of None \<Rightarrow> False
      | Some ms \<Rightarrow> (case (case source of Rdp \<Rightarrow> last_sync_rdp d | Local \<Rightarrow> last_sync_local d) of
            None \<Rightarrow> False
          | Some since \<Rightarrow> elapsed since now < from_millis (unat ms)))"

definition record_sync :: "instant \<Rightarrow> clipboard_source \<Rightarrow> loop_detector \<Rightarrow> loop_detector" where
  "record_sync now source d =
     (case source of Rdp \<Rightarrow> d\<lparr>last_sync_rdp := Some now\<rparr> | Local \<Rightarrow> d\<lparr>last_sync_local := Some now\<rparr>)"

definition should_skip_sync ::
  "digest \<Rightarrow> instant \<Rightarrow> clipboard_format list \<Rightarrow> clipboard_source \<Rightarrow> loop_detector \<Rightarrow> bool" where
  "should_skip_sync sha now formats source d =
     (detector_is_rate_limited now source d \<or>
      check_hash_collision now (loop_config d) (format_history d) (hash_formats sha formats) source)"

definition should_skip_sync_mime ::
  "digest \<Rightarrow> instant \<Rightarrow> string list \<Rightarrow> clipboard_source \<Rightarrow> loop_detector \<Rightarrow> bool" where
  "should_skip_sync_mime sha now mime_types source d =
     (detector_is_rate_limited now source d \<or>
      check_hash_collision now (loop_config d) (format_history d) (hash_mime_types sha mime_types) source)"

section \<open>The synchronisation manager\<close>

datatype sync_direction = RdpToPortal | PortalToRdp
datatype portal_sync_decision = Allow | Block

datatype clipboard_state =
    Idle
  | RdpOwned "clipboard_format list" instant
  | PortalOwned "string list"
  | Syncing sync_direction

text \<open>The \<open>PartialEq\<close> of \<open>ClipboardState\<close>: only the format ids count for an RDP owner.\<close>

fun clipboard_state_eq :: "clipboard_state \<Rightarrow> clipboard_state \<Rightarrow> bool" where
  "clipboard_state_eq Idle Idle = True"
| "clipboard_state_eq (RdpOwned a _) (RdpOwned b _) = (map format_id a = map format_id b)"
| "clipboard_state_eq (PortalOwned a) (PortalOwned b) = (a = b)"
| "clipboard_state_eq (Syncing a) (Syncing b) = (a = b)"
| "clipboard_state_eq _ _ = False"

record sync_manager =
  sync_state :: clipboard_state
  detector :: loop_detector

abbreviation ECHO_WINDOW :: duration where "ECHO_WINDOW \<equiv> from_secs 2"

definition sync_with_config :: "loop_detection_config \<Rightarrow> sync_manager" where
  "sync_with_config c = \<lparr>sync_state = Idle, detector = detector_with_config c\<rparr>"

definition sync_new :: sync_manager where
  "sync_new = sync_with_config loop_detection_config_default"

definition handle_rdp_formats ::
  "digest \<Rightarrow> instant \<Rightarrow> clipboard_format list \<Rightarrow> sync_manager \<Rightarrow> bool \<times> sync_manager" where
  "handle_rdp_formats sha now formats m =
     (if would_cause_loop sha now formats (detector m) then (False, m)
      else (True, m\<lparr>detector := record_sync now Rdp (record_formats sha now formats Rdp (detector m)),
                    sync_state := RdpOwned formats now\<rparr>))"

definition rdp_owner_blocks :: "instant \<Rightarrow> bool \<Rightarrow> clipboard_state \<Rightarrow> bool" where
  "rdp_owner_blocks now authoritative st =
     (case st of RdpOwned _ since \<Rightarrow> \<not> authoritative \<or> elapsed since now < ECHO_WINDOW | _ \<Rightarrow> False)"

definition handle_portal_formats ::
  "digest \<Rightarrow> instant \<Rightarrow> string list \<Rightarrow> bool \<Rightarrow> sync_manager \<Rightarrow> portal_sync_decision \<times> sync_manager" where
  "handle_portal_formats sha now mime_types authoritative m =
     (if rdp_owner_blocks now authoritative (sync_state m) then (Block, m)
      else if \<not> authoritative \<and> would_cause_loop_mime sha now mime_types (detector m) then (Block, m)
      else (Allow, m\<lparr>detector := record_sync now Local (record_mime_types sha now mime_types Local (detector m)),
                     sync_state := PortalOwned mime_types\<rparr>))"

definition source_of :: "bool \<Rightarrow> clipboard_source" where
  "source_of from_rdp = (if from_rdp then Rdp else Local)"

definition check_content ::
  "digest \<Rightarrow> instant \<Rightarrow> byte list \<Rightarrow> bool \<Rightarrow> sync_manager \<Rightarrow> bool \<times> sync_manager" where
  "check_content sha now content from_rdp m =
     (let source = source_of from_rdp in
      if would_cause_content_loop sha now content source (detector m) then (False, m)
      else (True, m\<lparr>detector := record_content sha now content source (detector m)\<rparr>))"

definition set_syncing :: "sync_direction \<Rightarrow> sync_manager \<Rightarrow> sync_manager" where
  "set_syncing direction m = m\<lparr>sync_state := Syncing direction\<rparr>"

definition reset :: "sync_manager \<Rightarrow> sync_manager" where
  "reset m = m\<lparr>sync_state := Idle\<rparr>"

definition reset_loop_detector :: "sync_manager \<Rightarrow> sync_manager" where
  "reset_loop_detector m = m\<lparr>detector := clear (detector m)\<rparr>"

definition would_cause_loop_rdp :: "digest \<Rightarrow> instant \<Rightarrow> clipboard_format list \<Rightarrow> sync_manager \<Rightarrow> bool" where
  "would_cause_loop_rdp sha now formats m = would_cause_loop sha now formats (detector m)"

definition would_cause_loop_portal :: "digest \<Rightarrow> instant \<Rightarrow> string list \<Rightarrow> sync_manager \<Rightarrow> bool" where
  "would_cause_loop_portal sha now mimes m = would_cause_loop_mime sha now mimes (detector m)"

definition set_rdp_formats :: "digest \<Rightarrow> instant \<Rightarrow> clipboard_format list \<Rightarrow> sync_manager \<Rightarrow> sync_manager" where
  "set_rdp_formats sha now formats m =
     m\<lparr>detector := record_formats sha now formats Rdp (detector m), sync_state := RdpOwned formats now\<rparr>"

definition set_portal_formats :: "digest \<Rightarrow> instant \<Rightarrow> string list \<Rightarrow> sync_manager \<Rightarrow> sync_manager" where
  "set_portal_formats sha now mimes m =
     m\<lparr>detector := record_mime_types sha now mimes Local (detector m), sync_state := PortalOwned mimes\<rparr>"

definition is_rate_limited :: "instant \<Rightarrow> bool \<Rightarrow> sync_manager \<Rightarrow> bool" where
  "is_rate_limited now from_rdp m = detector_is_rate_limited now (source_of from_rdp) (detector m)"

text \<open>A history of the manager's operations, each at its instant.\<close>

datatype sync_op =
    HandleRdpFormats "clipboard_format list"
  | HandlePortalFormats "string list" bool
  | CheckContent "byte list" bool
  | SetSyncing sync_direction
  | Reset
  | ResetLoopDetector
  | SetRdpFormats "clipboard_format list"
  | SetPortalFormats "string list"

fun sync_step :: "digest \<Rightarrow> instant \<Rightarrow> sync_op \<Rightarrow> sync_manager \<Rightarrow> sync_manager" where
  "sync_step sha now (HandleRdpFormats f) m = snd (handle_rdp_formats sha now f m)"
| "sync_step sha now (HandlePortalFormats ms a) m = snd (handle_portal_formats sha now ms a m)"
| "sync_step sha now (CheckContent b r) m = snd (check_content sha now b r m)"
| "sync_step sha now (SetSyncing dir) m = set_syncing dir m"
| "sync_step sha now Reset m = reset m"
| "sync_step sha now ResetLoopDetector m = reset_loop_detector m"
| "sync_step sha now (SetRdpFormats f) m = set_rdp_formats sha now f m"
| "sync_step sha now (SetPortalFormats ms) m = set_portal_formats sha now ms m"

abbreviation sync_run :: "digest \<Rightarrow> (instant \<times> sync_op) list \<Rightarrow> sync_manager \<Rightarrow> sync_manager" where
  "sync_run sha \<equiv> run_timed (sync_step sha)"

section \<open>Histories\<close>

lemma pop_stale_dropWhile: "pop_stale window now h = dropWhile (\<lambda>x. now - op_timestamp x > window) h"
  by (induction h) auto

lemma pop_excess_drop: "pop_excess limit h = drop (length h - limit) h"
  by (induction h) (auto simp: Suc_diff_le)

lemmas cleanup_queue_alt = cleanup_queue_def pop_stale_dropWhile pop_excess_drop

lemma length_cleanup_queue [simp]: "length (cleanup_queue c now h) \<le> max_history c"
  by (simp add: cleanup_queue_alt)

lemma cleanup_queue_suffix: "\<exists>k. cleanup_queue c now h = drop k h"
  unfolding cleanup_queue_alt by (metis dropWhile_eq_drop drop_drop)

lemma sorted_cleanup_queue: "sorted (map op_timestamp h) \<Longrightarrow> sorted (map op_timestamp (cleanup_queue c now h))"
  using cleanup_queue_suffix[of c now h] by (auto simp: drop_map[symmetric] sorted_wrt_drop)

lemma set_cleanup_queue: "set (cleanup_queue c now h) \<subseteq> set h"
  using cleanup_queue_suffix[of c now h] by (auto dest: in_set_dropD)

lemma scan_recent_iff:
  assumes "sorted (map op_timestamp h)"
  shows "scan_recent window now hash src (rev h) \<longleftrightarrow>
    (\<exists>x \<in> set h. now - op_timestamp x \<le> window \<and> op_source x = opposite src \<and> op_hash x = hash)"
  using assms
proof (induction h rule: rev_induct)
  case (snoc x h)
  have "\<forall>y \<in> set h. op_timestamp y \<le> op_timestamp x" "sorted (map op_timestamp h)"
    using snoc.prems by (auto simp: sorted_append)
  with snoc.IH show ?case by (auto simp: not_le)
qed simp

text \<open>
  An operation \<open>e\<close> is remembered behind at most \<open>n\<close> newer ones, all recorded since.
\<close>

definition remembers :: "clipboard_operation \<Rightarrow> nat \<Rightarrow> clipboard_operation list \<Rightarrow> bool" where
  "remembers e n h \<longleftrightarrow>
     (\<exists>older newer. h = older @ e # newer \<and> length newer \<le> n \<and>
        (\<forall>x \<in> set newer. op_timestamp e \<le> op_timestamp x))"

lemma remembers_mem: "remembers e n h \<Longrightarrow> e \<in> set h"
  by (auto simp: remembers_def)

lemma remembers_mono: "remembers e n h \<Longrightarrow> n \<le> m \<Longrightarrow> remembers e m h"
  unfolding remembers_def using le_trans by blast

lemma remembers_push:
  "remembers e n h \<Longrightarrow> op_timestamp e \<le> op_timestamp x \<Longrightarrow> remembers e (Suc n) (h @ [x])"
  unfolding remembers_def by fastforce

lemma remembers_cleanup:
  assumes "remembers e n h" "now - op_timestamp e \<le> from_millis (unat (window_ms c * 2))" "n < max_history c"
  shows "remembers e n (cleanup_queue c now h)"
proof -
  obtain older newer where h: "h = older @ e # newer" "length newer \<le> n"
    "\<forall>x \<in> set newer. op_timestamp e \<le> op_timestamp x"
    using assms(1) by (auto simp: remembers_def)
  let ?P = "\<lambda>x. now - op_timestamp x > from_millis (unat (window_ms c * 2))"
  have "dropWhile ?P h = dropWhile ?P older @ e # newer"
    unfolding h(1) using assms(2) by (induction older) auto
  then have "cleanup_queue c now h =
      drop (length (dropWhile ?P older @ e # newer) - max_history c) (dropWhile ?P older) @ e # newer"
    using h(2) assms(3) by (simp add: cleanup_queue_alt)
  with h show ?thesis unfolding remembers_def by blast
qed

lemma remembers_scan:
  assumes "remembers e n h" "now - op_timestamp e \<le> window" "op_source e = opposite src" "op_hash e = hash"
  shows "scan_recent window now hash src (rev h)"
proof -
  obtain older newer where h: "h = older @ e # newer"
    and newer: "\<forall>x \<in> set newer. op_timestamp e \<le> op_timestamp x"
    using assms(1) by (auto simp: remembers_def)
  have "scan_recent window now hash src (xs @ e # rev older)"
    if "\<forall>x \<in> set xs. op_timestamp e \<le> op_timestamp x" for xs
    using that assms(2-4) by (induction xs) (auto simp: le_diff_conv not_less intro: le_trans)
  with newer show ?thesis by (simp add: h)
qed

text \<open>
  The contract between a client of the detector and a history it records into: every
  operation leaves the history alone, or cleans it, or appends one entry stamped with the
  current instant and cleans it, unless the operation forgets the history.  It follows
  that an entry is remembered as long as fewer than \<open>max_history\<close> others have been recorded
  since and the cleanup window has not passed.
\<close>

locale echo_memory =
  fixes step :: "instant \<Rightarrow> 'o \<Rightarrow> 's \<Rightarrow> 's"
    and history :: "'s \<Rightarrow> clipboard_operation list"
    and conf :: "'s \<Rightarrow> loop_detection_config"
    and records :: "'o \<Rightarrow> bool"
    and forgets :: "'o \<Rightarrow> bool"
  assumes step_conf: "conf (step now x s) = conf s"
    and step_history: "\<not> forgets x \<Longrightarrow>
      history (step now x s) = history s \<or>
      history (step now x s) = cleanup_queue (conf s) now (history s) \<or>
      (records x \<and> (\<exists>e. op_timestamp e = now \<and>
        history (step now x s) = cleanup_queue (conf s) now (history s @ [e])))"
begin

lemma run_remembers:
  assumes "remembers e n (history s)"
    and "list_all (\<lambda>(now, x). op_timestamp e \<le> now \<and>
           now - op_timestamp e \<le> from_millis (unat (window_ms (conf s) * 2)) \<and> \<not> forgets x) xs"
    and "n + length (filter (\<lambda>(now, x). records x) xs) < max_history (conf s)"
  shows "remembers e (n + length (filter (\<lambda>(now, x). records x) xs)) (history (run_timed step xs s)) \<and>
    conf (run_timed step xs s) = conf s"
  using assms
proof (induction xs arbitrary: n s)
  case (Cons a xs)
  obtain now x where a: "a = (now, x)" by (cases a)
  let ?s = "step now x s" let ?n = "n + (if records x then 1 else 0)"
  have w: "now - op_timestamp e \<le> from_millis (unat (window_ms (conf s) * 2))" "op_timestamp e \<le> now" "\<not> forgets x"
    using Cons.prems(2) a by auto
  have n: "?n < max_history (conf s)" using Cons.prems(3) a by auto
  have "remembers e ?n (history ?s)"
    using step_history[OF w(3), of now s] Cons.prems(1) remembers_cleanup[OF _ w(1) n]
      remembers_push[OF Cons.prems(1)] w(2) remembers_mono[OF Cons.prems(1), of ?n]
    by auto
  from Cons.IH[OF this] Cons.prems(2,3) show ?case
    by (auto simp: a step_conf)
qed simp

end

section \<open>The manager's histories\<close>

lemma detector_conf [simp]:
  "loop_config (cleanup_history now d) = loop_config d" "loop_config (record_sync now src d) = loop_config d"
  "loop_config (record_formats sha now f src d) = loop_config d"
  "loop_config (record_mime_types sha now ms src d) = loop_config d"
  "loop_config (record_content sha now b src d) = loop_config d" "loop_config (clear d) = loop_config d"
  by (simp_all add: cleanup_history_def record_sync_def record_formats_def record_mime_types_def
      record_content_def clear_def split: clipboard_source.splits)

lemma record_sync_histories [simp]:
  "format_history (record_sync now src d) = format_history d"
  "content_history (record_sync now src d) = content_history d"
  by (simp_all add: record_sync_def split: clipboard_source.splits)

lemma record_histories:
  "format_history (record_formats sha now f src d) =
     cleanup_queue (loop_config d) now (record_operation now (hash_formats sha f) src (format_history d))"
  "content_history (record_formats sha now f src d) = cleanup_queue (loop_config d) now (content_history d)"
  "format_history (record_mime_types sha now ms src d) =
     cleanup_queue (loop_config d) now (record_operation now (hash_mime_types sha ms) src (format_history d))"
  "content_history (record_mime_types sha now ms src d) = cleanup_queue (loop_config d) now (content_history d)"
  "format_history (record_content sha now b src d) =
     (if enable_content_hashing (loop_config d) then cleanup_queue (loop_config d) now (format_history d)
      else format_history d)"
  "content_history (record_content sha now b src d) =
     (if enable_content_hashing (loop_config d)
      then cleanup_queue (loop_config d) now (record_operation now (hash_content sha b) src (content_history d))
      else content_history d)"
  by (simp_all add: record_formats_def record_mime_types_def record_content_def cleanup_history_def)

lemmas sync_defs = handle_rdp_formats_def handle_portal_formats_def check_content_def set_syncing_def
  reset_def reset_loop_detector_def set_rdp_formats_def set_portal_formats_def

fun records_content :: "sync_op \<Rightarrow> bool" where
  "records_content (CheckContent _ _) = True"
| "records_content _ = False"

fun records_formats :: "sync_op \<Rightarrow> bool" where
  "records_formats (HandleRdpFormats _) = True"
| "records_formats (HandlePortalFormats _ _) = True"
| "records_formats (SetRdpFormats _) = True"
| "records_formats (SetPortalFormats _) = True"
| "records_formats _ = False"

lemma recorded_entry [simp]:
  "\<exists>e. op_timestamp e = now \<and>
     cleanup_queue c now (record_operation now h src hist) = cleanup_queue c now (hist @ [e])"
  by (rule exI[of _ "\<lparr>op_hash = h, op_source = src, op_timestamp = now\<rparr>"]) (simp add: record_operation_def)

lemma sync_step_conf: "loop_config (detector (sync_step sha now x m)) = loop_config (detector m)"
  by (cases x) (simp_all add: sync_defs Let_def)

interpretation content: echo_memory "sync_step sha" "\<lambda>m. content_history (detector m)"
  "\<lambda>m. loop_config (detector m)" records_content "\<lambda>x. x = ResetLoopDetector" for sha
proof
  show "loop_config (detector (sync_step sha now x m)) = loop_config (detector m)" for now x m
    by (rule sync_step_conf)
  show "content_history (detector (sync_step sha now x m)) = content_history (detector m) \<or>
    content_history (detector (sync_step sha now x m)) =
      cleanup_queue (loop_config (detector m)) now (content_history (detector m)) \<or>
    (records_content x \<and> (\<exists>e. op_timestamp e = now \<and> content_history (detector (sync_step sha now x m)) =
        cleanup_queue (loop_config (detector m)) now (content_history (detector m) @ [e])))"
    if "x \<noteq> ResetLoopDetector" for x now m
    using that by (cases x) (auto simp: sync_defs Let_def record_histories)
qed

interpretation formats: echo_memory "sync_step sha" "\<lambda>m. format_history (detector m)"
  "\<lambda>m. loop_config (detector m)" records_formats "\<lambda>x. x = ResetLoopDetector" for sha
proof
  show "loop_config (detector (sync_step sha now x m)) = loop_config (detector m)" for now x m
    by (rule sync_step_conf)
  show "format_history (detector (sync_step sha now x m)) = format_history (detector m) \<or>
    format_history (detector (sync_step sha now x m)) =
      cleanup_queue (loop_config (detector m)) now (format_history (detector m)) \<or>
    (records_formats x \<and> (\<exists>e. op_timestamp e = now \<and> format_history (detector (sync_step sha now x m)) =
        cleanup_queue (loop_config (detector m)) now (format_history (detector m) @ [e])))"
    if "x \<noteq> ResetLoopDetector" for x now m
    using that by (cases x) (auto simp: sync_defs Let_def record_histories)
qed

lemma window_twice: "window < 2 ^ 63 \<Longrightarrow> unat (window * 2) = unat window * 2" for window :: u64
  by (simp add: unat_word_ariths word_less_nat_alt)

text \<open>Operations that run within the detection window of instant \<open>t0\<close> and forget nothing.\<close>

definition within_window :: "u64 \<Rightarrow> instant \<Rightarrow> (instant \<times> sync_op) list \<Rightarrow> bool" where
  "within_window window t0 xs \<longleftrightarrow>
     list_all (\<lambda>(t, x). t0 \<le> t \<and> t - t0 \<le> from_millis (unat window) \<and> x \<noteq> ResetLoopDetector) xs"

lemma within_window_cleanup:
  assumes "within_window window (op_timestamp e) xs" "window < 2 ^ 63"
  shows "list_all (\<lambda>(t, x). op_timestamp e \<le> t \<and>
     t - op_timestamp e \<le> from_millis (unat (window * 2)) \<and> x \<noteq> ResetLoopDetector) xs"
  using assms(1) by (auto simp: within_window_def list_all_iff window_twice[OF assms(2)])

lemma remembers_recorded:
  assumes "0 < max_history c"
  shows "remembers \<lparr>op_hash = h, op_source = src, op_timestamp = now\<rparr> 0
     (cleanup_queue c now (record_operation now h src hist))"
proof -
  let ?e = "\<lparr>op_hash = h, op_source = src, op_timestamp = now\<rparr>"
  have "remembers ?e 0 (record_operation now h src hist)"
    by (simp add: remembers_def record_operation_def)
  then show ?thesis using assms by (intro remembers_cleanup) simp_all
qed

section \<open>Properties\<close>

text \<open>
  C7.  A content echo is stopped.  With content hashing enabled, when a payload from one side has been accepted at \<open>t0\<close>, the same
  payload from the other side at \<open>t1\<close> within the window is refused, whatever the manager
  did in between, provided fewer than \<open>max_history\<close> payload checks came between and
  the detector was not reset.
\<close>

theorem content_echo_blocked:
  assumes acc: "check_content sha t0 data from_rdp m = (True, m')"
    and cfg: "c = loop_config (detector m)" "enable_content_hashing c" "window_ms c < 2 ^ 63"
    and xs: "within_window (window_ms c) t0 xs"
      "length (filter (\<lambda>(t, x). records_content x) xs) < max_history c"
    and t1: "t0 \<le> t1" "t1 - t0 \<le> from_millis (unat (window_ms c))"
  shows "\<not> fst (check_content sha t1 data (\<not> from_rdp) (sync_run sha xs m'))"
proof -
  let ?e = "\<lparr>op_hash = hash_content sha data, op_source = source_of from_rdp, op_timestamp = t0\<rparr>"
  from acc cfg xs(2) have m': "loop_config (detector m') = c" "remembers ?e 0 (content_history (detector m'))"
    by (auto simp: check_content_def Let_def record_histories intro!: remembers_recorded split: if_splits)
  have r: "remembers ?e (0 + length (filter (\<lambda>(t, x). records_content x) xs))
      (content_history (detector (sync_run sha xs m')))" "loop_config (detector (sync_run sha xs m')) = c"
    using content.run_remembers[OF m'(2), of xs sha] within_window_cleanup[of "window_ms c" ?e xs]
      xs cfg(3) m'(1) by simp_all
  have "scan_recent (from_millis (unat (window_ms c))) t1 (hash_content sha data) (source_of (\<not> from_rdp))
      (rev (content_history (detector (sync_run sha xs m'))))"
    using t1(2) by (intro remembers_scan[OF r(1)]) (simp_all add: source_of_def)
  with r(2) cfg(2) show ?thesis
    by (simp add: check_content_def would_cause_content_loop_def check_hash_collision_def)
qed

definition example_sha :: digest where
  "example_sha = map (\<lambda>b. char_of (unat b))"

theorem content_echo_blocked_witness:
  "\<not> fst (check_content example_sha 7 [1, 2] (\<not> True)
      (sync_run example_sha [(3, Reset), (5, CheckContent [9] True), (6, HandlePortalFormats [''text/plain''] True)]
        (snd (check_content example_sha 2 [1, 2] True sync_new))))"
  by (rule content_echo_blocked[OF _ refl, of _ 2 _ _ sync_new])
    (simp_all add: check_content_def would_cause_content_loop_def check_hash_collision_def sync_new_def
      sync_with_config_def detector_with_config_def loop_detection_config_default_def within_window_def)

fun keeps_owner :: "instant \<Rightarrow> instant \<times> sync_op \<Rightarrow> bool" where
  "keeps_owner t0 (t, HandlePortalFormats _ authoritative) \<longleftrightarrow> \<not> authoritative \<or> t - t0 < ECHO_WINDOW"
| "keeps_owner t0 (t, CheckContent _ _) \<longleftrightarrow> True"
| "keeps_owner t0 (t, ResetLoopDetector) \<longleftrightarrow> True"
| "keeps_owner t0 _ \<longleftrightarrow> False"

lemma keeps_owner_step:
  "sync_state m = RdpOwned fs t0 \<Longrightarrow> keeps_owner t0 (t, x) \<Longrightarrow> sync_state (sync_step sha t x m) = RdpOwned fs t0"
  by (cases x) (auto simp: sync_defs Let_def rdp_owner_blocks_def)

lemma keeps_owner_run:
  "sync_state m = RdpOwned fs t0 \<Longrightarrow> list_all (keeps_owner t0) xs \<Longrightarrow>
   sync_state (sync_run sha xs m) = RdpOwned fs t0"
proof (induction xs arbitrary: m)
  case (Cons a xs)
  obtain t x where "a = (t, x)" by (cases a)
  with Cons keeps_owner_step[OF Cons.prems(1), of t x sha] show ?case by auto
qed simp

text \<open>
  C8.  While the remote side owns the clipboard, the local side cannot take it over as an echo:
  after an accepted announcement at \<open>t0\<close>, as long as only local announcements, payload checks and
  detector resets happen, every non-authoritative local announcement is blocked at any
  time, every announcement at all is blocked within the echo window of two seconds, and the
  remote side stays the owner; the first authoritative one after the window is allowed and
  takes ownership.
\<close>

theorem rdp_ownership_protected:
  assumes "handle_rdp_formats sha t0 formats m = (True, m')" "list_all (keeps_owner t0) xs"
  shows "sync_state (sync_run sha xs m') = RdpOwned formats t0 \<and>
    (\<not> authoritative \<or> t - t0 < ECHO_WINDOW \<longrightarrow>
       handle_portal_formats sha t mimes authoritative (sync_run sha xs m') = (Block, sync_run sha xs m')) \<and>
    (authoritative \<and> t - t0 \<ge> ECHO_WINDOW \<longrightarrow>
       fst (handle_portal_formats sha t mimes authoritative (sync_run sha xs m')) = Allow \<and>
       sync_state (snd (handle_portal_formats sha t mimes authoritative (sync_run sha xs m'))) = PortalOwned mimes)"
proof -
  have "sync_state m' = RdpOwned formats t0"
    using assms(1) by (auto simp: handle_rdp_formats_def split: if_splits)
  then have "sync_state (sync_run sha xs m') = RdpOwned formats t0"
    using assms(2) by (rule keeps_owner_run)
  then show ?thesis
    by (auto simp: handle_portal_formats_def rdp_owner_blocks_def)
qed

abbreviation (input) unicode_text_formats :: "clipboard_format list" where
  "unicode_text_formats \<equiv> [\<lparr>format_id = 13, format_name = None\<rparr>]"

theorem rdp_ownership_protected_witness:
  "fst (handle_portal_formats example_sha (from_secs 1) [''text/plain''] True
     (sync_run example_sha [(5, CheckContent [1] False)]
       (snd (handle_rdp_formats example_sha 3 unicode_text_formats sync_new)))) = Block"
proof -
  have "handle_rdp_formats example_sha 3 unicode_text_formats sync_new =
      (True, snd (handle_rdp_formats example_sha 3 unicode_text_formats sync_new))"
    by (simp add: handle_rdp_formats_def would_cause_loop_def check_hash_collision_def sync_new_def
      sync_with_config_def detector_with_config_def)
  from rdp_ownership_protected[OF this, of "[(5, CheckContent [1] False)]" True "from_secs 1" "[''text/plain'']"]
  show ?thesis by simp
qed

definition histories_ok :: "instant \<Rightarrow> sync_manager \<Rightarrow> bool" where
  "histories_ok now m \<longleftrightarrow>
     (\<forall>h \<in> {format_history (detector m), content_history (detector m)}.
        sorted (map op_timestamp h) \<and> length h \<le> max_history (loop_config (detector m)) \<and>
        (\<forall>x \<in> set h. op_timestamp x \<le> now))"

definition queue_ok :: "loop_detection_config \<Rightarrow> instant \<Rightarrow> clipboard_operation list \<Rightarrow> bool" where
  "queue_ok c now h \<longleftrightarrow> sorted (map op_timestamp h) \<and> length h \<le> max_history c \<and>
     (\<forall>x \<in> set h. op_timestamp x \<le> now)"

lemma queue_ok_cleanup:
  assumes "queue_ok c now0 h" "now0 \<le> now"
  shows "queue_ok c now h" "queue_ok c now (cleanup_queue c now h)"
    "op_timestamp e = now \<Longrightarrow> queue_ok c now (cleanup_queue c now (h @ [e]))"
proof -
  show h: "queue_ok c now h" using assms by (auto simp: queue_ok_def)
  have "sorted (map op_timestamp h)" using h by (simp add: queue_ok_def)
  from sorted_cleanup_queue[OF this] set_cleanup_queue[of c now h] h
  show "queue_ok c now (cleanup_queue c now h)" by (auto simp: queue_ok_def)
  assume e: "op_timestamp e = now"
  then have "sorted (map op_timestamp (h @ [e]))" using h by (auto simp: queue_ok_def sorted_append)
  from sorted_cleanup_queue[OF this] set_cleanup_queue[of c now "h @ [e]"] h e
  show "queue_ok c now (cleanup_queue c now (h @ [e]))" by (auto simp: queue_ok_def)
qed

lemma histories_ok_queues:
  "histories_ok now m \<longleftrightarrow> queue_ok (loop_config (detector m)) now (format_history (detector m)) \<and>
     queue_ok (loop_config (detector m)) now (content_history (detector m))"
  by (auto simp: histories_ok_def queue_ok_def)

context echo_memory
begin

lemma step_queue_ok:
  assumes "queue_ok (conf s) now0 (history s)" "now0 \<le> now" "\<not> forgets x"
  shows "queue_ok (conf (step now x s)) now (history (step now x s))"
  using step_history[OF assms(3), of now s] queue_ok_cleanup[OF assms(1,2)] step_conf[of now x s] by auto

end

lemma histories_ok_step:
  assumes "histories_ok now0 m" "now0 \<le> now"
  shows "histories_ok now (sync_step sha now x m)"
proof (cases "x = ResetLoopDetector")
  case True
  then show ?thesis by (simp add: histories_ok_def reset_loop_detector_def clear_def)
next
  case False
  with assms content.step_queue_ok[of m now0 now x sha] formats.step_queue_ok[of m now0 now x sha]
  show ?thesis by (simp add: histories_ok_queues)
qed

lemma histories_ok_run:
  "histories_ok now0 m \<Longrightarrow> sorted (now0 # map fst xs @ [now]) \<Longrightarrow> histories_ok now (sync_run sha xs m)"
proof (induction xs arbitrary: m now0)
  case Nil
  then show ?case by (auto simp: histories_ok_def)
next
  case (Cons a xs)
  obtain t x where a: "a = (t, x)" by (cases a)
  with Cons.prems have "histories_ok t (sync_step sha t x m)" by (auto intro: histories_ok_step)
  from Cons.IH[OF this] Cons.prems a show ?case by auto
qed

text \<open>
  On every history of operations in time order the detector's two queues stay in time
  order and within \<open>max_history\<close> entries, and the decisions are exactly these: a
  payload is refused when an equal one (by digest) of the opposite side is still
  stored and recent; a remote announcement is refused when an equal one of the
  remote side itself is.
\<close>

theorem sync_decisions_exact:
  fixes sha c xs
  defines "m \<equiv> sync_run sha xs (sync_with_config c)"
  assumes "sorted (map fst xs @ [now])"
  shows "histories_ok now m \<and>
    (\<not> fst (check_content sha now data from_rdp m) \<longleftrightarrow>
       enable_content_hashing (loop_config (detector m)) \<and>
       (\<exists>x \<in> set (content_history (detector m)). now - op_timestamp x \<le> from_millis (unat (window_ms (loop_config (detector m)))) \<and>
          op_source x = source_of (\<not> from_rdp) \<and> op_hash x = hash_content sha data)) \<and>
    (\<not> fst (handle_rdp_formats sha now formats m) \<longleftrightarrow>
       (\<exists>x \<in> set (format_history (detector m)). now - op_timestamp x \<le> from_millis (unat (window_ms (loop_config (detector m)))) \<and>
          op_source x = Rdp \<and> op_hash x = hash_formats sha formats))"
proof -
  have "histories_ok 0 (sync_with_config c)"
    by (simp add: histories_ok_def sync_with_config_def detector_with_config_def)
  with assms(2) have ok: "histories_ok now m" unfolding m_def by (intro histories_ok_run) auto
  then have s: "sorted (map op_timestamp (content_history (detector m)))"
    "sorted (map op_timestamp (format_history (detector m)))" by (auto simp: histories_ok_def)
  show ?thesis
    using ok scan_recent_iff[OF s(1)] scan_recent_iff[OF s(2)]
    by (simp add: check_content_def handle_rdp_formats_def would_cause_content_loop_def would_cause_loop_def
        check_hash_collision_def source_of_def Let_def)
qed

theorem sync_decisions_exact_witness:
  "histories_ok 9 (sync_run example_sha [(1, CheckContent [1] True), (4, ResetLoopDetector),
      (6, HandleRdpFormats unicode_text_formats)] sync_new)"
  using sync_decisions_exact[of "[(1, CheckContent [1] True), (4, ResetLoopDetector),
      (6, HandleRdpFormats unicode_text_formats)]" 9 example_sha loop_detection_config_default]
  by (simp add: sync_new_def)

text \<open>
  The check of remote announcements compares with the remote side's own announcements: an
  accepted announcement is refused when the remote side repeats it within the window
  (fewer than \<open>max_history\<close> announcements and no detector reset in between), even though the
  clipboard contents may have changed in the meantime.
\<close>

theorem repeated_rdp_announcement_refused:
  assumes acc: "handle_rdp_formats sha t0 formats m = (True, m')"
    and cfg: "c = loop_config (detector m)" "window_ms c < 2 ^ 63"
    and xs: "within_window (window_ms c) t0 xs"
      "length (filter (\<lambda>(t, x). records_formats x) xs) < max_history c"
    and t1: "t0 \<le> t1" "t1 - t0 \<le> from_millis (unat (window_ms c))"
  shows "handle_rdp_formats sha t1 formats (sync_run sha xs m') = (False, sync_run sha xs m')"
proof -
  let ?e = "\<lparr>op_hash = hash_formats sha formats, op_source = Rdp, op_timestamp = t0\<rparr>"
  from acc cfg xs(2) have m': "loop_config (detector m') = c" "remembers ?e 0 (format_history (detector m'))"
    by (auto simp: handle_rdp_formats_def record_histories intro!: remembers_recorded split: if_splits)
  have r: "remembers ?e (0 + length (filter (\<lambda>(t, x). records_formats x) xs))
      (format_history (detector (sync_run sha xs m')))" "loop_config (detector (sync_run sha xs m')) = c"
    using formats.run_remembers[OF m'(2), of xs sha] within_window_cleanup[of "window_ms c" ?e xs]
      xs cfg(2) m'(1) by simp_all
  have "scan_recent (from_millis (unat (window_ms c))) t1 (hash_formats sha formats) Local
      (rev (format_history (detector (sync_run sha xs m'))))"
    using t1(2) by (intro remembers_scan[OF r(1)]) simp_all
  with r(2) show ?thesis
    by (simp add: handle_rdp_formats_def would_cause_loop_def check_hash_collision_def)
qed

theorem repeated_rdp_announcement_refused_witness:
  "\<not> fst (handle_rdp_formats example_sha 9 unicode_text_formats
      (sync_run example_sha [(5, CheckContent [1] True)] (snd (handle_rdp_formats example_sha 3 unicode_text_formats sync_new))))"
proof -
  have "handle_rdp_formats example_sha 3 unicode_text_formats sync_new =
      (True, snd (handle_rdp_formats example_sha 3 unicode_text_formats sync_new))"
    by (simp add: handle_rdp_formats_def would_cause_loop_def check_hash_collision_def sync_new_def
      sync_with_config_def detector_with_config_def)
  from repeated_rdp_announcement_refused[OF this refl, of "[(5, CheckContent [1] True)]" 9]
  show ?thesis
    by (simp add: sync_new_def sync_with_config_def detector_with_config_def
      loop_detection_config_default_def within_window_def)
qed

end
