(* ===== verification/Wrdp_Clipboard_Transfer.thy ===== *)
theory Wrdp_Clipboard_Transfer
  imports Wrdp_Float
begin

text \<open>
  The chunked transfer engine (\<open>src/src/rdp/channels/clipboard/core/transfer.rs\<close>) and the
  error taxonomy it shares with the other clipboard helpers (\<open>core/error.rs\<close>).

  SHA-256 is the parameter \<open>sha\<close> (the hexadecimal digest of a byte string).  Byte counts are
  64-bit words, so the subtraction in the time estimate wraps as it does in a release build.
  \<open>None\<close> is a panic, which only a zero chunk size causes.
\<close>

section \<open>Errors\<close>

datatype clipboard_error =
    Backend string
  | FormatConversion string
  | UnsupportedFormat string
  | InvalidUtf8
  | InvalidUtf16
  | ImageDecode string
  | ImageEncode string
  | DataSizeExceeded usize usize
  | TransferTimeout u64
  | TransferCancelled
  | LoopDetected
  | InvalidState string
  | FileNotFound string
  | PermissionDenied string
  | Io string

fun is_recoverable :: "clipboard_error \<Rightarrow> bool" where
  "is_recoverable (TransferTimeout _) = True"
| "is_recoverable LoopDetected = True"
| "is_recoverable (InvalidState _) = True"
| "is_recoverable _ = False"

fun is_format_error :: "clipboard_error \<Rightarrow> bool" where
  "is_format_error (FormatConversion _) = True"
| "is_format_error (UnsupportedFormat _) = True"
| "is_format_error InvalidUtf8 = True"
| "is_format_error InvalidUtf16 = True"
| "is_format_error (ImageDecode _) = True"
| "is_format_error (ImageEncode _) = True"
| "is_format_error _ = False"

section \<open>State\<close>

datatype transfer_state = Pending | InProgress | Completed | Cancelled | Failed

definition state_is_active :: "transfer_state \<Rightarrow> bool" where
  "state_is_active s \<longleftrightarrow> s \<in> {Pending, InProgress}"

definition state_is_finished :: "transfer_state \<Rightarrow> bool" where
  "state_is_finished s \<longleftrightarrow> s \<in> {Completed, Cancelled, Failed}"

record transfer_progress =
  total_bytes :: u64
  transferred_bytes :: u64
  progress_state :: transfer_state
  progress_started_at :: "instant option"
  eta_ms :: "u64 option"

definition progress_new :: "u64 \<Rightarrow> transfer_progress" where
  "progress_new total_size =
     \<lparr>total_bytes = total_size, transferred_bytes = 0, progress_state = Pending,
      progress_started_at = None, eta_ms = None\<rparr>"

definition percentage :: "transfer_progress \<Rightarrow> rat" where
  "percentage p =
     (if total_bytes p = 0 then 100
      else f64_mul (f64_div (f64_of_nat (unat (transferred_bytes p))) (f64_of_nat (unat (total_bytes p)))) 100)"

definition bytes_per_second :: "instant \<Rightarrow> transfer_progress \<Rightarrow> rat option" where
  "bytes_per_second now p =
     (case progress_started_at p of None \<Rightarrow> None
      | Some started \<Rightarrow>
          (let secs = as_secs_f64 (elapsed started now)
           in if secs > 0 then Some (f64_div (f64_of_nat (unat (transferred_bytes p))) secs) else None))"

record transfer_config =
  chunk_size :: usize
  max_size :: usize
  timeout_ms :: u64
  verify_integrity :: bool

definition transfer_config_default :: transfer_config where
  "transfer_config_default =
     \<lparr>chunk_size = 64 * 1024, max_size = 16 * 1024 * 1024, timeout_ms = 30000, verify_integrity = True\<rparr>"

record transfer_engine =
  transfer_conf :: transfer_config
  progress :: "transfer_progress option"
  received_chunks :: "byte list list"
  expected_hash :: "string option"
  started_at :: "instant option"

definition engine_with_config :: "transfer_config \<Rightarrow> transfer_engine" where
  "engine_with_config c =
     \<lparr>transfer_conf = c, progress = None, received_chunks = [], expected_hash = None, started_at = None\<rparr>"

section \<open>Operations\<close>

text \<open>\<open>slice::chunks\<close>: pieces of \<open>n\<close> bytes, the last one possibly shorter.\<close>

function chunks :: "nat \<Rightarrow> 'a list \<Rightarrow> 'a list list" where
  "chunks n xs = (if n = 0 \<or> xs = [] then [] else take n xs # chunks n (drop n xs))"
  by pat_completeness auto
termination
  by (relation "measure (\<lambda>(n, xs). length xs)") auto

declare chunks.simps [simp del]

definition started_progress :: "instant \<Rightarrow> u64 \<Rightarrow> transfer_progress" where
  "started_progress now total_size =
     (progress_new total_size)\<lparr>progress_state := InProgress, progress_started_at := Some now\<rparr>"

definition prepare_send ::
  "instant \<Rightarrow> byte list \<Rightarrow> transfer_engine \<Rightarrow> ((clipboard_error, byte list list) result \<times> transfer_engine) option" where
  "prepare_send now data e =
     (if length data > max_size (transfer_conf e)
      then Some (Err (DataSizeExceeded (length data) (max_size (transfer_conf e))), e)
      else if chunk_size (transfer_conf e) = 0 then None
      else Some (Ok (chunks (chunk_size (transfer_conf e)) data),
                 e\<lparr>started_at := Some now, progress := Some (started_progress now (of_nat (length data)))\<rparr>))"

definition start_receive ::
  "instant \<Rightarrow> u64 \<Rightarrow> string option \<Rightarrow> transfer_engine \<Rightarrow> (clipboard_error, unit) result \<times> transfer_engine" where
  "start_receive now total_size hash e =
     (if unat total_size > max_size (transfer_conf e)
      then (Err (DataSizeExceeded (unat total_size) (max_size (transfer_conf e))), e)
      else (Ok (), e\<lparr>received_chunks := [], expected_hash := hash, started_at := Some now,
                     progress := Some (started_progress now total_size)\<rparr>))"

definition update_eta :: "instant \<Rightarrow> transfer_progress \<Rightarrow> transfer_progress" where
  "update_eta now p =
     (case progress_started_at p of None \<Rightarrow> p
      | Some started \<Rightarrow>
          (let secs = as_secs_f64 (elapsed started now) in
           if secs > 0 \<and> transferred_bytes p > 0
           then let rate = f64_div (f64_of_nat (unat (transferred_bytes p))) secs;
                    remaining = total_bytes p - transferred_bytes p
                in p\<lparr>eta_ms := Some (float_as_u64 (f64_mul (f64_div (f64_of_nat (unat remaining)) rate) 1000))\<rparr>
           else p))"

definition timed_out :: "instant \<Rightarrow> transfer_engine \<Rightarrow> bool" where
  "timed_out now e =
     (case started_at e of None \<Rightarrow> False
      | Some started \<Rightarrow> elapsed started now > from_millis (unat (timeout_ms (transfer_conf e))))"

definition receive_chunk ::
  "instant \<Rightarrow> byte list \<Rightarrow> transfer_engine \<Rightarrow> (clipboard_error, unit) result \<times> transfer_engine" where
  "receive_chunk now chunk e =
     (if timed_out now e
      then (Err (TransferTimeout (timeout_ms (transfer_conf e))),
            e\<lparr>progress := map_option (\<lambda>p. p\<lparr>progress_state := Failed\<rparr>) (progress e)\<rparr>)
      else case progress e of
        None \<Rightarrow> (Err (InvalidState ''no active transfer''), e)
      | Some p \<Rightarrow>
          if \<not> state_is_active (progress_state p) then (Err (InvalidState ''transfer not active''), e)
          else let p1 = update_eta now (p\<lparr>transferred_bytes := transferred_bytes p + of_nat (length chunk)\<rparr>);
                   p2 = (if transferred_bytes p1 \<ge> total_bytes p1 then p1\<lparr>progress_state := Completed\<rparr> else p1)
               in (Ok (), e\<lparr>progress := Some p2, received_chunks := received_chunks e @ [chunk]\<rparr>))"

fun state_debug :: "transfer_state \<Rightarrow> string" where
  "state_debug Pending = ''Pending''"
| "state_debug InProgress = ''InProgress''"
| "state_debug Completed = ''Completed''"
| "state_debug Cancelled = ''Cancelled''"
| "state_debug Failed = ''Failed''"

definition finalize_receive ::
  "(byte list \<Rightarrow> string) \<Rightarrow> transfer_engine \<Rightarrow> (clipboard_error, byte list) result \<times> transfer_engine" where
  "finalize_receive sha e =
     (case progress e of
        None \<Rightarrow> (Err (InvalidState ''no active transfer''), e)
      | Some p \<Rightarrow>
          if progress_state p \<noteq> Completed
          then (Err (InvalidState (''transfer not completed: '' @ state_debug (progress_state p))), e)
          else let data = concat (received_chunks e) in
               if verify_integrity (transfer_conf e) \<and> expected_hash e \<noteq> None \<and> Some (sha data) \<noteq> expected_hash e
               then (Err (FormatConversion ''integrity check failed: hash mismatch''), e)
               else (Ok data, e\<lparr>received_chunks := [], progress := None, expected_hash := None, started_at := None\<rparr>))"

definition cancel :: "transfer_engine \<Rightarrow> transfer_engine" where
  "cancel e = e\<lparr>progress := map_option (\<lambda>p. p\<lparr>progress_state := Cancelled\<rparr>) (progress e), received_chunks := []\<rparr>"

definition engine_is_active :: "transfer_engine \<Rightarrow> bool" where
  "engine_is_active e = (case progress e of None \<Rightarrow> False | Some p \<Rightarrow> state_is_active (progress_state p))"

section \<open>Chunks\<close>

lemma chunks_Nil [simp]: "chunks n [] = []"
  by (simp add: chunks.simps)

lemma concat_chunks: "0 < n \<Longrightarrow> concat (chunks n xs) = xs"
proof (induction n xs rule: chunks.induct)
  case (1 n xs)
  then show ?case by (cases "xs = []") (simp_all add: chunks.simps[of n xs])
qed

lemma chunks_eq_Nil: "0 < n \<Longrightarrow> chunks n xs = [] \<longleftrightarrow> xs = []"
  by (simp add: chunks.simps[of n xs])

lemma chunks_sizes: "c \<in> set (chunks n xs) \<Longrightarrow> c \<noteq> [] \<and> length c \<le> n"
proof (induction n xs rule: chunks.induct)
  case (1 n xs)
  then show ?case by (auto simp: chunks.simps[of n xs] split: if_splits)
qed

lemma length_chunks: "0 < n \<Longrightarrow> length (chunks n xs) = div_ceil (length xs) n"
proof (induction n xs rule: chunks.induct)
  case (1 n xs)
  show ?case
  proof (cases "length xs \<le> n")
    case True
    then have "chunks n xs = (if xs = [] then [] else [xs])"
      using "1.prems" by (simp add: chunks.simps[of n xs] chunks.simps[of n "[]"])
    with True "1.prems" show ?thesis
      by (cases "length xs = n") (auto simp: div_ceil_def)
  next
    case False
    then have "chunks n xs = take n xs # chunks n (drop n xs)" and ne: "xs \<noteq> []"
      using "1.prems" by (auto simp: chunks.simps[of n xs])
    moreover have "length (chunks n (drop n xs)) = div_ceil (length xs - n) n"
      using "1.IH" "1.prems" ne by simp
    moreover have "Suc (div_ceil (length xs - n) n) = div_ceil (length xs) n"
      using False "1.prems" by (simp add: div_ceil_def le_div_geq le_mod_geq)
    ultimately show ?thesis by simp
  qed
qed

section \<open>The receiving side refines a byte accumulator\<close>

text \<open>
  The contract of a receiver: it has a declared size and possibly a digest, appends what it is
  given to a byte string, is complete as soon as it has the declared number of bytes, and
  hands the bytes over once.
\<close>

record receiver =
  rx_total :: nat
  rx_hash :: "string option"
  rx_start :: instant
  rx_data :: "byte list"
  rx_state :: transfer_state

datatype rx_op = Start u64 "string option" | Chunk "byte list" | Finalize | Cancel

type_synonym rx_reply = "(clipboard_error, byte list) result"

fun spec_step :: "(byte list \<Rightarrow> string) \<Rightarrow> transfer_config \<Rightarrow> instant \<Rightarrow> rx_op \<Rightarrow> receiver option \<Rightarrow> rx_reply \<times> receiver option" where
  "spec_step sha c now (Start n h) r =
     (if unat n > max_size c then (Err (DataSizeExceeded (unat n) (max_size c)), r)
      else (Ok [], Some \<lparr>rx_total = unat n, rx_hash = h, rx_start = now, rx_data = [], rx_state = InProgress\<rparr>))"
| "spec_step sha c now op None =
     (case op of Cancel \<Rightarrow> (Ok [], None) | _ \<Rightarrow> (Err (InvalidState ''no active transfer''), None))"
| "spec_step sha c now (Chunk b) (Some r) =
     (if now - rx_start r > from_millis (unat (timeout_ms c))
      then (Err (TransferTimeout (timeout_ms c)), Some (r\<lparr>rx_state := Failed\<rparr>))
      else if rx_state r \<noteq> InProgress then (Err (InvalidState ''transfer not active''), Some r)
      else (Ok [], Some (r\<lparr>rx_data := rx_data r @ b,
              rx_state := (if length (rx_data r @ b) \<ge> rx_total r then Completed else InProgress)\<rparr>)))"
| "spec_step sha c now Finalize (Some r) =
     (if rx_state r \<noteq> Completed
      then (Err (InvalidState (''transfer not completed: '' @ state_debug (rx_state r))), Some r)
      else if verify_integrity c \<and> rx_hash r \<noteq> None \<and> rx_hash r \<noteq> Some (sha (rx_data r))
      then (Err (FormatConversion ''integrity check failed: hash mismatch''), Some r)
      else (Ok (rx_data r), None))"
| "spec_step sha c now Cancel (Some r) = (Ok [], Some (r\<lparr>rx_data := [], rx_state := Cancelled\<rparr>))"

definition lift_reply :: "(clipboard_error, unit) result \<times> 's \<Rightarrow> rx_reply \<times> 's" where
  "lift_reply p = (case fst p of Inl e \<Rightarrow> Err e | Inr _ \<Rightarrow> Ok [], snd p)"

fun rx_step :: "(byte list \<Rightarrow> string) \<Rightarrow> instant \<Rightarrow> rx_op \<Rightarrow> transfer_engine \<Rightarrow> rx_reply \<times> transfer_engine" where
  "rx_step sha now (Start n h) e = lift_reply (start_receive now n h e)"
| "rx_step sha now (Chunk b) e = lift_reply (receive_chunk now b e)"
| "rx_step sha now Finalize e = finalize_receive sha e"
| "rx_step sha now Cancel e = (Ok [], cancel e)"

definition rx_abs :: "transfer_engine \<Rightarrow> receiver option" where
  "rx_abs e = map_option (\<lambda>p. \<lparr>rx_total = unat (total_bytes p), rx_hash = expected_hash e,
     rx_start = the (started_at e), rx_data = concat (received_chunks e), rx_state = progress_state p\<rparr>) (progress e)"

definition rx_inv :: "transfer_engine \<Rightarrow> bool" where
  "rx_inv e \<longleftrightarrow>
     (case progress e of
        None \<Rightarrow> started_at e = None \<and> received_chunks e = []
      | Some p \<Rightarrow> started_at e \<noteq> None \<and> progress_state p \<noteq> Pending \<and>
          (progress_state p = InProgress \<longrightarrow> unat (transferred_bytes p) = length (concat (received_chunks e))))"

lemma update_eta_fields [simp]:
  "total_bytes (update_eta now p) = total_bytes p" "transferred_bytes (update_eta now p) = transferred_bytes p"
  "progress_state (update_eta now p) = progress_state p"
  by (simp_all add: update_eta_def Let_def split: option.splits)

fun op_bytes :: "rx_op \<Rightarrow> nat" where
  "op_bytes (Chunk b) = length b"
| "op_bytes _ = 0"

definition fits :: "rx_op \<Rightarrow> transfer_engine \<Rightarrow> bool" where
  "fits x e \<longleftrightarrow> length (concat (received_chunks e)) + op_bytes x < 2 ^ 64"

lemma unat_add_length:
  assumes "unat (a :: u64) = n" "n + m < 2 ^ 64"
  shows "unat (a + of_nat m) = n + m"
  using assms by (simp add: unat_word_ariths unat_of_nat)

lemma rx_refines:
  assumes inv: "rx_inv e" and fits: "fits x e"
  shows "rx_inv (snd (rx_step sha now x e)) \<and>
    fst (rx_step sha now x e) = fst (spec_step sha (transfer_conf e) now x (rx_abs e)) \<and>
    rx_abs (snd (rx_step sha now x e)) = snd (spec_step sha (transfer_conf e) now x (rx_abs e))"
proof (cases x)
  case (Start n h)
  then show ?thesis
    using inv by (cases "max_size (transfer_conf e) < unat n")
      (simp_all add: lift_reply_def start_receive_def started_progress_def progress_new_def rx_abs_def rx_inv_def)
next
  case (Chunk b)
  show ?thesis
  proof (cases "progress e")
    case None
    with inv have "started_at e = None" by (simp add: rx_inv_def)
    with None Chunk inv show ?thesis
      by (simp add: lift_reply_def receive_chunk_def timed_out_def rx_abs_def)
  next
    case (Some p)
    with inv obtain t0 where s: "started_at e = Some t0" "progress_state p \<noteq> Pending"
      "progress_state p = InProgress \<Longrightarrow> unat (transferred_bytes p) = length (concat (received_chunks e))"
      by (auto simp: rx_inv_def)
    show ?thesis
    proof (cases "progress_state p = InProgress \<and> \<not> timed_out now e")
      case True
      with s(3) fits Chunk have "unat (transferred_bytes p + of_nat (length b)) = length (concat (received_chunks e @ [b]))"
        by (simp add: fits_def unat_add_length)
      with True Some Chunk s show ?thesis
        by (auto simp: lift_reply_def receive_chunk_def timed_out_def rx_abs_def rx_inv_def state_is_active_def
            Let_def word_le_nat_alt)
    next
      case False
      with Some Chunk s show ?thesis
        by (cases "progress_state p")
          (auto simp: lift_reply_def receive_chunk_def timed_out_def rx_abs_def rx_inv_def state_is_active_def)
    qed
  qed
next
  case Finalize
  with inv show ?thesis
    by (auto simp: finalize_receive_def rx_abs_def rx_inv_def Let_def split: option.splits)
next
  case Cancel
  with inv show ?thesis
    by (auto simp: cancel_def rx_abs_def rx_inv_def split: option.splits)
qed

lemma rx_step_conf: "transfer_conf (snd (rx_step sha now x e)) = transfer_conf e"
  by (cases x) (auto simp: lift_reply_def start_receive_def receive_chunk_def finalize_receive_def cancel_def
      Let_def split: option.splits)

text \<open>An operation at an instant, on both levels.\<close>

fun timed :: "(instant \<Rightarrow> 'o \<Rightarrow> 's \<Rightarrow> 'b \<times> 's) \<Rightarrow> instant \<times> 'o \<Rightarrow> 's \<Rightarrow> 'b \<times> 's" where
  "timed step (now, x) s = step now x s"

interpretation rx: io_refinement "timed (rx_step sha)" "timed (spec_step sha c)" rx_abs
  "\<lambda>e. rx_inv e \<and> transfer_conf e = c" "\<lambda>x e. fits (snd x) e" for sha c
proof
  fix e and x :: "instant \<times> rx_op"
  assume "rx_inv e \<and> transfer_conf e = c" "fits (snd x) e"
  then show "(rx_inv (snd (timed (rx_step sha) x e)) \<and> transfer_conf (snd (timed (rx_step sha) x e)) = c) \<and>
     fst (timed (rx_step sha) x e) = fst (timed (spec_step sha c) x (rx_abs e)) \<and>
     rx_abs (snd (timed (rx_step sha) x e)) = snd (timed (spec_step sha c) x (rx_abs e))"
    using rx_refines[of e "snd x" sha "fst x"] rx_step_conf[of sha "fst x" "snd x" e] by (cases x) auto
qed

lemma received_grows:
  "length (concat (received_chunks (snd (rx_step sha now x e)))) \<le> length (concat (received_chunks e)) + op_bytes x"
  by (cases x) (auto simp: lift_reply_def start_receive_def receive_chunk_def finalize_receive_def cancel_def
      Let_def split: option.splits)

lemma run_fits:
  "length (concat (received_chunks e)) + (\<Sum>a\<leftarrow>xs. op_bytes (snd a)) < 2 ^ 64 \<Longrightarrow>
   run_ok (timed (rx_step sha)) (\<lambda>x e. fits (snd x) e) xs e"
proof (induction xs arbitrary: e)
  case (Cons a xs)
  obtain now x where a: "a = (now, x)" by (cases a)
  have "length (concat (received_chunks (snd (rx_step sha now x e)))) + (\<Sum>a\<leftarrow>xs. op_bytes (snd a)) < 2 ^ 64"
    using received_grows[of sha now x e] Cons.prems a by simp
  from Cons.IH[OF this] Cons.prems a show ?case by (simp add: fits_def)
qed simp

lemma engine_new_inv: "rx_inv (engine_with_config c) \<and> transfer_conf (engine_with_config c) = c"
  by (simp add: rx_inv_def engine_with_config_def)

lemma rx_abs_new [simp]: "rx_abs (engine_with_config c) = None"
  by (simp add: rx_abs_def engine_with_config_def)

lemma new_engine_refines:
  assumes "(\<Sum>a\<leftarrow>xs. op_bytes (snd a)) < 2 ^ 64"
  shows "fst (run_io (timed (rx_step sha)) xs (engine_with_config c)) = fst (run_io (timed (spec_step sha c)) xs None) \<and>
    rx_abs (snd (run_io (timed (rx_step sha)) xs (engine_with_config c))) = snd (run_io (timed (spec_step sha c)) xs None)"
proof -
  have "run_ok (timed (rx_step sha)) (\<lambda>x e. fits (snd x) e) xs (engine_with_config c)"
    using assms by (intro run_fits) (simp add: engine_with_config_def)
  from rx.run_refines[OF engine_new_inv this] show ?thesis by simp
qed

section \<open>Properties\<close>

text \<open>
  C9.  The receiving side implements the byte accumulator: on any sequence of starts, chunks,
  finalisations and cancellations whose chunks total less than \<open>2 ^ 64\<close> bytes, a new engine gives
  exactly the accumulator's replies, errors included, and ends in a state that represents it.
\<close>

theorem receiver_refines_accumulator:
  assumes "(\<Sum>a\<leftarrow>xs. op_bytes (snd a)) < 2 ^ 64"
  shows "fst (run_io (timed (rx_step sha)) xs (engine_with_config c)) = fst (run_io (timed (spec_step sha c)) xs None) \<and>
    rx_abs (snd (run_io (timed (rx_step sha)) xs (engine_with_config c))) = snd (run_io (timed (spec_step sha c)) xs None)"
  using assms by (rule new_engine_refines)

theorem receiver_refines_accumulator_witness:
  "fst (run_io (timed (rx_step (\<lambda>_. ''h''))) [(0, Start 3 None), (1, Chunk [1, 2]), (2, Finalize), (3, Chunk [3]), (4, Finalize)]
        (engine_with_config transfer_config_default)) =
   [Ok [], Ok [], Err (InvalidState ''transfer not completed: InProgress''), Ok [], Ok [1, 2, 3]]"
  using receiver_refines_accumulator[of "[(0, Start 3 None), (1, Chunk [1, 2]), (2, Finalize), (3, Chunk [3]), (4, Finalize)]"
      "\<lambda>_. ''h''" transfer_config_default]
  by (simp add: transfer_config_default_def)

lemma spec_chunks:
  assumes "rx_state r = InProgress" "list_all (\<lambda>t. t - rx_start r \<le> from_millis (unat (timeout_ms c))) ts"
    and "length ts = length cs" "cs \<noteq> []" "\<forall>b \<in> set cs. b \<noteq> []"
    and "rx_total r = length (rx_data r) + length (concat cs)"
  shows "run_io (timed (spec_step sha c)) (zip ts (map Chunk cs)) (Some r) =
    (replicate (length cs) (Ok []), Some (r\<lparr>rx_data := rx_data r @ concat cs, rx_state := Completed\<rparr>))"
  using assms
proof (induction cs arbitrary: ts r)
  case (Cons b cs)
  then obtain t ts' where ts: "ts = t # ts'" "length ts' = length cs" by (cases ts) auto
  show ?case
  proof (cases "cs = []")
    case True
    with Cons.prems ts show ?thesis by simp
  next
    case False
    have "0 < length (concat cs)"
      using False Cons.prems(5) by (cases cs) auto
    let ?r = "r\<lparr>rx_data := rx_data r @ b, rx_state := InProgress\<rparr>"
    have "run_io (timed (spec_step sha c)) (zip ts' (map Chunk cs)) (Some ?r) =
        (replicate (length cs) (Ok []), Some (?r\<lparr>rx_data := rx_data ?r @ concat cs, rx_state := Completed\<rparr>))"
      by (rule Cons.IH) (use Cons.prems ts False in auto)
    with \<open>0 < length (concat cs)\<close> Cons.prems ts show ?thesis by simp
  qed
qed simp

text \<open>
  C10.  Round trip: the chunks that \<open>prepare_send\<close> makes of a non-empty payload, received in
  order within the timeout by an engine that announced the payload's size and digest, are all
  accepted and finalise to the payload; there are as many chunks as needed and none
  exceeds the chunk size.
\<close>

theorem transfer_round_trip:
  assumes send: "prepare_send t data s = Some (Ok cs, s')"
    and data: "data \<noteq> []" "length data \<le> max_size c" "length data < 2 ^ 64"
    and ts: "length ts = length cs" "list_all (\<lambda>t. t - t0 \<le> from_millis (unat (timeout_ms c))) ts"
  shows "fst (run_io (timed (rx_step sha))
      ((t0, Start (of_nat (length data)) (Some (sha data))) # zip ts (map Chunk cs) @ [(t1, Finalize)])
      (engine_with_config c)) = replicate (Suc (length cs)) (Ok []) @ [Ok data] \<and>
    length cs = div_ceil (length data) (chunk_size (transfer_conf s)) \<and>
    (\<forall>b \<in> set cs. length b \<le> chunk_size (transfer_conf s))"
proof -
  have n: "0 < chunk_size (transfer_conf s)" and cs: "cs = chunks (chunk_size (transfer_conf s)) data"
    using send by (auto simp: prepare_send_def split: if_splits)
  let ?xs = "(t0, Start (of_nat (length data)) (Some (sha data))) # zip ts (map Chunk cs) @ [(t1, Finalize)]"
  let ?r = "\<lparr>rx_total = length data, rx_hash = Some (sha data), rx_start = t0, rx_data = [], rx_state = InProgress\<rparr>"
  have len: "unat (of_nat (length data) :: u64) = length data" using data(3) by (simp add: unat_of_nat)
  have "(\<Sum>a\<leftarrow>zip us (map Chunk bs). op_bytes (snd a)) = length (concat bs)" if "length us = length bs" for us :: "nat list" and bs
    using that by (induction us bs rule: list_induct2) auto
  with ts(1) have "(\<Sum>a\<leftarrow>?xs. op_bytes (snd a)) < 2 ^ 64"
    using concat_chunks[OF n, of data] data(3) cs by simp
  then have "fst (run_io (timed (rx_step sha)) ?xs (engine_with_config c)) = fst (run_io (timed (spec_step sha c)) ?xs None)"
    by (blast dest: new_engine_refines)
  also have "\<dots> = Ok [] # fst (run_io (timed (spec_step sha c)) (zip ts (map Chunk cs) @ [(t1, Finalize)]) (Some ?r))"
    using len data(2) by (simp add: split_beta Let_def)
  also have "\<dots> = replicate (Suc (length cs)) (Ok []) @ [Ok data]"
    using spec_chunks[of ?r c ts cs sha] ts n data(1) chunks_sizes[of _ "chunk_size (transfer_conf s)" data]
      concat_chunks[OF n, of data] chunks_eq_Nil[OF n, of data] cs
    by (simp add: run_io_append)
  finally show ?thesis
    using length_chunks[OF n] chunks_sizes cs by blast
qed

theorem transfer_round_trip_witness:
  "fst (run_io (timed (rx_step (\<lambda>_. ''h'')))
      ((0, Start 5 (Some ''h'')) # zip [1, 2, 3] (map Chunk [[1, 2], [3, 4], [5]]) @ [(9, Finalize)])
      (engine_with_config transfer_config_default)) = [Ok [], Ok [], Ok [], Ok [], Ok [1, 2, 3, 4, 5]]"
proof -
  let ?e = "engine_with_config (transfer_config_default\<lparr>chunk_size := 2\<rparr>)"
  have "prepare_send 0 [1, 2, 3, 4, 5] ?e = Some (Ok [[1, 2], [3, 4], [5]],
      ?e\<lparr>started_at := Some 0, progress := Some (started_progress 0 5)\<rparr>)"
    by (simp add: prepare_send_def engine_with_config_def transfer_config_default_def chunks.simps)
  from transfer_round_trip[OF this, of transfer_config_default "[1, 2, 3]" 0 "\<lambda>_. ''h''" 9]
  show ?thesis by (simp add: transfer_config_default_def)
qed

text \<open>
  What the engine does not check: the size limit binds the announced size only.  After any
  accepted announcement, a first chunk at least as long as announced completes the transfer,
  and finalising without a digest returns the whole chunk, also when it exceeds the
  announced size and the configured maximum.  And an announced empty transfer never
  completes, because completion is only checked when a chunk arrives.
\<close>

theorem announced_size_not_enforced:
  assumes "unat n \<le> max_size c" "unat n \<le> length b" "length b < 2 ^ 64"
    and "t1 - t0 \<le> from_millis (unat (timeout_ms c))"
  shows "fst (run_io (timed (rx_step sha)) [(t0, Start n None), (t1, Chunk b), (t2, Finalize)] (engine_with_config c))
      = [Ok [], Ok [], Ok b] \<and>
    fst (run_io (timed (rx_step sha)) [(t0, Start 0 h), (t2, Finalize)] (engine_with_config c))
      = [Ok [], Err (InvalidState ''transfer not completed: InProgress'')]"
proof -
  have "fst (run_io (timed (rx_step sha)) [(t0, Start n None), (t1, Chunk b), (t2, Finalize)] (engine_with_config c)) =
      fst (run_io (timed (spec_step sha c)) [(t0, Start n None), (t1, Chunk b), (t2, Finalize)] None)"
    "fst (run_io (timed (rx_step sha)) [(t0, Start 0 h), (t2, Finalize)] (engine_with_config c)) =
      fst (run_io (timed (spec_step sha c)) [(t0, Start 0 h), (t2, Finalize)] None)"
    using assms(3)
      new_engine_refines[of "[(t0, Start n None), (t1, Chunk b), (t2, Finalize)]" sha c]
      new_engine_refines[of "[(t0, Start 0 h), (t2, Finalize)]" sha c] by simp_all
  with assms show ?thesis by simp
qed

theorem announced_size_not_enforced_witness:
  "fst (run_io (timed (rx_step (\<lambda>_. ''h''))) [(0, Start 1 None), (1, Chunk [1, 2, 3]), (2, Finalize)]
      (engine_with_config (transfer_config_default\<lparr>max_size := 2\<rparr>))) = [Ok [], Ok [], Ok [1, 2, 3]]"
  using announced_size_not_enforced[of 1 "transfer_config_default\<lparr>max_size := 2\<rparr>" "[1, 2, 3]" 1 0]
  by (simp add: transfer_config_default_def)

end
