(* ===== verification/Wrdp_Unicode.thy ===== *)
theory Wrdp_Unicode
  imports Wrdp_Prelude
begin

text \<open>
  Texts beyond Latin-1: a Rust string is the list of its code points, bytes and UTF-16 units are natural numbers
  below 256 and 65536.  The encodings of the standard library, UTF-8, UTF-16 and little-endian integers, with the lemmas
  that decoding inverts encoding.
\<close>

type_synonym unicode = "nat list"

text \<open>The Unicode scalar values, which are what a \<open>char\<close> may be.\<close>

definition is_scalar :: "nat \<Rightarrow> bool" where
  "is_scalar c \<longleftrightarrow> c < 0xD800 \<or> 0xE000 \<le> c \<and> c < 0x110000"

definition char_from_u32 :: "nat \<Rightarrow> nat option" where
  "char_from_u32 n = (if is_scalar n then Some n else None)"

definition ascii :: "string \<Rightarrow> unicode" where
  "ascii s = map of_char s"

section \<open>UTF-8\<close>

text \<open>\<open>std::str::from_utf8\<close>: the code points of a well-formed UTF-8 byte sequence.\<close>

definition cont :: "nat \<Rightarrow> bool" where
  "cont b \<longleftrightarrow> 128 \<le> b \<and> b < 192"

fun from_utf8 :: "nat list \<Rightarrow> nat list option" where
  "from_utf8 [] = Some []"
| "from_utf8 (a # bs) =
     (if a < 128 then map_option ((#) a) (from_utf8 bs)
      else case bs of
        [] \<Rightarrow> None
      | b # cs \<Rightarrow>
          if 194 \<le> a \<and> a < 224 \<and> cont b
          then map_option ((#) ((a - 192) * 64 + (b - 128))) (from_utf8 cs)
          else case cs of
            [] \<Rightarrow> None
          | c # ds \<Rightarrow>
              if 224 \<le> a \<and> a < 240 \<and> cont b \<and> cont c \<and> (a = 224 \<longrightarrow> b \<ge> 160) \<and> (a = 237 \<longrightarrow> b < 160)
              then map_option ((#) ((a - 224) * 4096 + (b - 128) * 64 + (c - 128))) (from_utf8 ds)
              else case ds of
                [] \<Rightarrow> None
              | d # es \<Rightarrow>
                  if 240 \<le> a \<and> a < 245 \<and> cont b \<and> cont c \<and> cont d \<and> (a = 240 \<longrightarrow> b \<ge> 144) \<and> (a = 244 \<longrightarrow> b < 144)
                  then map_option ((#) ((a - 240) * 262144 + (b - 128) * 4096 + (c - 128) * 64 + (d - 128))) (from_utf8 es)
                  else None)"

definition utf8_char :: "nat \<Rightarrow> nat list" where
  "utf8_char c =
     (if c < 0x80 then [c]
      else if c < 0x800 then [192 + c div 64, 128 + c mod 64]
      else if c < 0x10000 then [224 + c div 4096, 128 + c div 64 mod 64, 128 + c mod 64]
      else [240 + c div 262144, 128 + c div 4096 mod 64, 128 + c div 64 mod 64, 128 + c mod 64])"

definition to_utf8 :: "unicode \<Rightarrow> nat list" where
  "to_utf8 t = concat (map utf8_char t)"

text \<open>\<open>str::len\<close>.\<close>

abbreviation utf8_len :: "unicode \<Rightarrow> nat" where
  "utf8_len t \<equiv> length (to_utf8 t)"

lemma to_utf8_simps [simp]: "to_utf8 [] = []" "to_utf8 (c # t) = utf8_char c @ to_utf8 t" "to_utf8 (s @ t) = to_utf8 s @ to_utf8 t"
  by (simp_all add: to_utf8_def)

lemma split_64: "n div 64 * 64 + n mod 64 = n" "n div 4096 = n div 64 div 64" "n div 262144 = n div 64 div 64 div 64" for n :: nat
  by (simp_all add: div_mult2_eq[symmetric])

lemma from_utf8_char:
  assumes "is_scalar c" shows "from_utf8 (utf8_char c @ bs) = map_option ((#) c) (from_utf8 bs)"
proof -
  define q l where "q = c div 64" and "l = c mod 64"
  define p m where "p = q div 64" and "m = q mod 64"
  define h k where "h = p div 64" and "k = p mod 64"
  have c: "c = q * 64 + l" "q = p * 64 + m" "p = h * 64 + k" "l < 64" "m < 64" "k < 64"
    by (simp_all add: q_def l_def p_def m_def h_def k_def split_64(1))
  have d: "c div 4096 = p" "c div 262144 = h" "c div 64 = q" "c mod 64 = l" "q mod 64 = m" "p mod 64 = k"
    by (simp_all add: split_64(2,3) q_def l_def p_def m_def h_def k_def)
  consider "c < 0x80" | "0x80 \<le> c" "c < 0x800" | "0x800 \<le> c" "c < 0x10000" | "0x10000 \<le> c" by linarith
  then show ?thesis
  proof cases
    case 2
    then have "utf8_char c = [192 + q, 128 + l]" by (simp add: utf8_char_def d)
    moreover have "2 \<le> q" "q < 32" using 2 c by linarith+
    ultimately show ?thesis using c by (simp add: cont_def)
  next
    case 3
    then have u: "utf8_char c = [224 + p, 128 + m, 128 + l]" by (simp add: utf8_char_def d)
    have e: "c = p * 4096 + m * 64 + l" using c(1,2) by simp
    have "p < 16" "p = 0 \<longrightarrow> 32 \<le> m" "p = 13 \<longrightarrow> m < 32"
      using 3 assms e c(4,5) unfolding is_scalar_def by linarith+
    then have "from_utf8 ([224 + p, 128 + m, 128 + l] @ bs) = map_option ((#) (p * 4096 + m * 64 + l)) (from_utf8 bs)"
      using c(4,5) by (auto simp: cont_def)
    then show ?thesis using u e by simp
  next
    case 4
    then have u: "utf8_char c = [240 + h, 128 + k, 128 + m, 128 + l]" by (simp add: utf8_char_def d)
    have e: "c = h * 262144 + k * 4096 + m * 64 + l" using c(1-3) by simp
    have "h < 5" "h = 0 \<longrightarrow> 16 \<le> k" "h = 4 \<longrightarrow> k < 16"
      using 4 assms e c(4-6) unfolding is_scalar_def by linarith+
    then have "from_utf8 ([240 + h, 128 + k, 128 + m, 128 + l] @ bs) = map_option ((#) (h * 262144 + k * 4096 + m * 64 + l)) (from_utf8 bs)"
      using c(4-6) by (auto simp: cont_def)
    then show ?thesis using u e by simp
  qed (simp add: utf8_char_def)
qed

lemma from_to_utf8: "list_all is_scalar t \<Longrightarrow> from_utf8 (to_utf8 t) = Some t"
  by (induction t) (simp_all add: from_utf8_char)

lemma utf8_char_bytes: "is_scalar c \<Longrightarrow> list_all (\<lambda>b. b < 256) (utf8_char c)"
  by (auto simp: utf8_char_def is_scalar_def)

lemma to_utf8_ascii: "list_all (\<lambda>c. c < 128) t \<Longrightarrow> to_utf8 t = t"
  by (induction t) (simp_all add: utf8_char_def)

section \<open>UTF-16\<close>

definition high_surrogate :: "nat \<Rightarrow> bool" where "high_surrogate u \<longleftrightarrow> 0xD800 \<le> u \<and> u \<le> 0xDBFF"
definition low_surrogate :: "nat \<Rightarrow> bool" where "low_surrogate u \<longleftrightarrow> 0xDC00 \<le> u \<and> u \<le> 0xDFFF"

definition utf16_units :: "nat \<Rightarrow> nat list" where
  "utf16_units c = (if c < 0x10000 then [c] else [0xD800 + (c - 0x10000) div 1024, 0xDC00 + (c - 0x10000) mod 1024])"

definition encode_utf16 :: "unicode \<Rightarrow> nat list" where
  "encode_utf16 t = concat (map utf16_units t)"

text \<open>\<open>String::from_utf16\<close>.\<close>

fun from_utf16 :: "nat list \<Rightarrow> unicode option" where
  "from_utf16 [] = Some []"
| "from_utf16 (u # us) =
     (if high_surrogate u
      then case us of
             v # vs \<Rightarrow> if low_surrogate v then map_option ((#) (0x10000 + (u - 0xD800) * 1024 + (v - 0xDC00))) (from_utf16 vs) else None
           | [] \<Rightarrow> None
      else if low_surrogate u then None
      else map_option ((#) u) (from_utf16 us))"

lemma utf16_pair:
  assumes "is_scalar c" "0x10000 \<le> c"
  defines "hi \<equiv> 0xD800 + (c - 0x10000) div 1024" and "lo \<equiv> 0xDC00 + (c - 0x10000) mod 1024"
  shows "high_surrogate hi" "low_surrogate lo" "0x10000 + (hi - 0xD800) * 1024 + (lo - 0xDC00) = c" "hi < 0xDC00" "lo < 0xE000"
proof -
  have "(c - 0x10000) div 1024 < 1024" "(c - 0x10000) mod 1024 < 1024" using assms(1,2) by (auto simp: is_scalar_def less_mult_imp_div_less)
  then show "high_surrogate hi" "low_surrogate lo" "hi < 0xDC00" "lo < 0xE000"
    by (auto simp: high_surrogate_def low_surrogate_def hi_def lo_def)
  show "0x10000 + (hi - 0xD800) * 1024 + (lo - 0xDC00) = c" using assms(2) by (simp add: hi_def lo_def)
qed

lemma from_utf16_units: "is_scalar c \<Longrightarrow> from_utf16 (utf16_units c @ us) = map_option ((#) c) (from_utf16 us)"
proof (cases "c < 0x10000")
  case True
  assume "is_scalar c"
  with True have "\<not> high_surrogate c" "\<not> low_surrogate c" by (auto simp: is_scalar_def high_surrogate_def low_surrogate_def)
  with True show ?thesis by (simp add: utf16_units_def)
next
  case False
  assume "is_scalar c"
  with False utf16_pair[of c] show ?thesis by (simp add: utf16_units_def)
qed

lemma from_encode_utf16: "list_all is_scalar t \<Longrightarrow> from_utf16 (encode_utf16 t) = Some t"
  by (induction t) (simp_all add: encode_utf16_def from_utf16_units)

lemma utf16_units_less: "is_scalar c \<Longrightarrow> list_all (\<lambda>u. u < 0x10000) (utf16_units c)"
  using utf16_pair[of c] by (auto simp: utf16_units_def)

lemma encode_utf16_less: "list_all is_scalar t \<Longrightarrow> list_all (\<lambda>u. u < 0x10000) (encode_utf16 t)"
  by (induction t) (auto simp: encode_utf16_def utf16_units_less)

lemma encode_utf16_nonzero: "list_all is_scalar t \<Longrightarrow> 0 \<in> set (encode_utf16 t) \<longleftrightarrow> 0 \<in> set t"
  by (induction t) (auto simp: encode_utf16_def utf16_units_def split: if_splits)

section \<open>Little-endian integers\<close>

fun le_bytes :: "nat \<Rightarrow> nat \<Rightarrow> nat list" where
  "le_bytes 0 n = []"
| "le_bytes (Suc k) n = n mod 256 # le_bytes k (n div 256)"

fun from_le :: "nat list \<Rightarrow> nat" where
  "from_le [] = 0"
| "from_le (b # bs) = b + 256 * from_le bs"

lemma length_le_bytes [simp]: "length (le_bytes k n) = k"
  by (induction k arbitrary: n) auto

lemma from_le_bytes: "from_le (le_bytes k n) = n mod 256 ^ k"
proof (induction k arbitrary: n)
  case (Suc k)
  have "n mod (256 * 256 ^ k) = n mod 256 + 256 * (n div 256 mod 256 ^ k)" by (simp add: mod_mult2_eq)
  with Suc show ?case by simp
qed simp

lemma from_le_small: "n < 256 ^ k \<Longrightarrow> from_le (le_bytes k n) = n"
  by (simp add: from_le_bytes)

lemma le_bytes_2: "le_bytes 2 u = [u mod 256, u div 256 mod 256]"
  by (simp add: numeral_2_eq_2)

lemma le_bytes_4: "le_bytes 4 n = [n mod 256, n div 256 mod 256, n div 65536 mod 256, n div 16777216 mod 256]"
proof -
  have four: "(4 :: nat) = Suc (Suc (Suc (Suc 0)))" by simp
  show ?thesis unfolding four by (simp add: div_mult2_eq[symmetric])
qed

text \<open>\<open>chunks_exact(2)\<close> read as units; a last odd byte is left out.\<close>

fun le_units :: "nat list \<Rightarrow> nat list" where
  "le_units (a # b # bs) = (a + 256 * b) # le_units bs"
| "le_units _ = []"

definition units_le :: "nat list \<Rightarrow> nat list" where
  "units_le us = concat (map (le_bytes 2) us)"

lemma units_le_simps [simp]: "units_le [] = []" "units_le (u # us) = le_bytes 2 u @ units_le us" "units_le (us @ vs) = units_le us @ units_le vs"
  by (simp_all add: units_le_def)

lemma length_units_le [simp]: "length (units_le us) = 2 * length us"
  by (induction us) simp_all

lemma le_units_le: "list_all (\<lambda>u. u < 0x10000) us \<Longrightarrow> le_units (units_le us) = us"
proof (induction us)
  case (Cons u us)
  then have "u div 256 < 256" by (simp add: less_mult_imp_div_less)
  with Cons show ?case by (simp add: le_bytes_2)
qed simp

section \<open>Lines and numbers\<close>

text \<open>\<open>str::lines\<close> and \<open>char::is_whitespace\<close> on code points.\<close>

fun unicode_lines_from :: "unicode \<Rightarrow> unicode \<Rightarrow> unicode list" where
  "unicode_lines_from acc [] = (if acc = [] then [] else [acc])"
| "unicode_lines_from acc (c # t) =
     (if c = 10 then (if acc \<noteq> [] \<and> last acc = 13 then butlast acc else acc) # unicode_lines_from [] t
      else unicode_lines_from (acc @ [c]) t)"

abbreviation unicode_lines :: "unicode \<Rightarrow> unicode list" where
  "unicode_lines \<equiv> unicode_lines_from []"

definition unicode_whitespace :: "nat \<Rightarrow> bool" where
  "unicode_whitespace c \<longleftrightarrow> 9 \<le> c \<and> c \<le> 13 \<or> c = 32 \<or> c = 0x85 \<or> c = 0xA0 \<or> c = 0x1680 \<or> 0x2000 \<le> c \<and> c \<le> 0x200A \<or>
     c = 0x2028 \<or> c = 0x2029 \<or> c = 0x202F \<or> c = 0x205F \<or> c = 0x3000"

definition unicode_trim :: "unicode \<Rightarrow> unicode" where
  "unicode_trim t = rev (dropWhile unicode_whitespace (rev (dropWhile unicode_whitespace t)))"

text \<open>\<open>str::parse\<close>: a text with a character outside ASCII is no number.\<close>

definition unicode_parse_unsigned :: "nat \<Rightarrow> unicode \<Rightarrow> nat option" where
  "unicode_parse_unsigned bits t = (if list_all (\<lambda>c. c < 128) t then parse_unsigned bits (map char_of t) else None)"

definition unicode_parse_signed :: "nat \<Rightarrow> unicode \<Rightarrow> int option" where
  "unicode_parse_signed bits t = (if list_all (\<lambda>c. c < 128) t then parse_signed bits (map char_of t) else None)"

lemma unicode_lines_line:
  "10 \<notin> set l \<Longrightarrow> l = [] \<or> last l \<noteq> 13 \<Longrightarrow> unicode_lines (l @ 13 # 10 # t) = l # unicode_lines t"
proof -
  have gen: "10 \<notin> set l \<Longrightarrow> unicode_lines_from acc (l @ t) = unicode_lines_from (acc @ l) t" for acc t
    by (induction l arbitrary: acc) auto
  assume "10 \<notin> set l"
  then show ?thesis using gen[of "[]" "13 # 10 # t"] by simp
qed

end
