(* ===== verification/Wrdp_Clipboard_Sanitize.thy ===== *)
theory Wrdp_Clipboard_Sanitize
  imports Wrdp_Unicode
begin

text \<open>
  Clipboard sanitising (\<open>src/src/rdp/channels/clipboard/core/sanitize.rs\<close>): file names for
  Windows and Linux, file URIs, and line endings.

  File names and texts are Latin-1 strings.  Upper-casing and percent-decoding can leave that
  range, so their results are lists of Unicode code points.
\<close>

section \<open>String operations the file uses\<close>

definition ends_with :: "char \<Rightarrow> string \<Rightarrow> bool" where
  "ends_with c s \<longleftrightarrow> s \<noteq> [] \<and> last s = c"

text \<open>\<open>char::to_uppercase\<close> on the Latin-1 range, as code points.\<close>

definition char_to_uppercase :: "char \<Rightarrow> nat list" where
  "char_to_uppercase c =
     (let n = code c in
      if 97 \<le> n \<and> n \<le> 122 \<or> 224 \<le> n \<and> n \<le> 254 \<and> n \<noteq> 247 then [n - 32]
      else if n = 181 then [924] else if n = 223 then [83, 83] else if n = 255 then [376] else [n])"

definition to_uppercase :: "string \<Rightarrow> nat list" where
  "to_uppercase s = concat (map char_to_uppercase s)"

text \<open>\<open>split('.').next()\<close>: everything before the first dot.\<close>

definition first_component :: "nat list \<Rightarrow> nat list" where
  "first_component = takeWhile (\<lambda>n. n \<noteq> 46)"

text \<open>
  \<open>rfind('.')\<close> with the two slices around it: the part before the last dot, and the rest
  from the dot on.
\<close>

definition split_extension :: "string \<Rightarrow> (string \<times> string) option" where
  "split_extension s = map_option (\<lambda>(base, ext). (base, CHR ''.'' # ext)) (rsplit_once (CHR ''.'') s)"

section \<open>File names\<close>

definition WINDOWS_INVALID_CHARS :: string where
  "WINDOWS_INVALID_CHARS = [CHR 0x5C, CHR ''/'', CHR '':'', CHR ''*'', CHR ''?'', CHR 0x22, CHR ''<'', CHR ''>'', CHR ''|'']"

definition WINDOWS_RESERVED_NAMES :: "string list" where
  "WINDOWS_RESERVED_NAMES =
     [''CON'', ''PRN'', ''AUX'', ''NUL'', ''COM1'', ''COM2'', ''COM3'', ''COM4'', ''COM5'', ''COM6'', ''COM7'', ''COM8'',
      ''COM9'', ''LPT1'', ''LPT2'', ''LPT3'', ''LPT4'', ''LPT5'', ''LPT6'', ''LPT7'', ''LPT8'', ''LPT9'']"

text \<open>The truncation step, the same for both systems; the limit is 255 for both.\<close>

definition truncate_name :: "nat \<Rightarrow> string \<Rightarrow> string" where
  "truncate_name limit s =
     (if str_len s > limit
      then case split_extension s of
             Some (base, ext) \<Rightarrow>
               if str_len ext < limit - 1 then take (limit - str_len ext) base @ ext else take limit s
           | None \<Rightarrow> take limit s
      else s)"

definition windows_char :: "char \<Rightarrow> char" where
  "windows_char c = (if c \<in> set WINDOWS_INVALID_CHARS \<or> char_is_control c then CHR ''_'' else c)"

text \<open>The \<open>while ... pop\<close> loop.\<close>

function strip_trailing :: "string \<Rightarrow> string" where
  "strip_trailing s = (if ends_with (CHR ''.'') s \<or> ends_with (CHR '' '') s then strip_trailing (butlast s) else s)"
  by pat_completeness auto
termination
  by (relation "measure length") (auto simp: ends_with_def)

declare strip_trailing.simps [simp del]

definition is_reserved :: "string \<Rightarrow> bool" where
  "is_reserved s \<longleftrightarrow> first_component (to_uppercase s) \<in> set (map (map of_char) WINDOWS_RESERVED_NAMES)"

definition sanitize_filename_for_windows :: "string \<Rightarrow> string" where
  "sanitize_filename_for_windows filename =
     (if filename = [] then ''_unnamed_''
      else let sanitized = strip_trailing (map windows_char filename)
      in if sanitized = [] then ''_unnamed_''
         else truncate_name 255 (if is_reserved sanitized then CHR ''_'' # sanitized else sanitized))"

definition linux_char :: "char \<Rightarrow> char" where
  "linux_char c = (if c \<in> {CHR ''/'', CHR 0x00} \<or> c = CHR 0x5C then CHR ''_'' else c)"

definition sanitize_filename_for_linux :: "string \<Rightarrow> string" where
  "sanitize_filename_for_linux filename =
     (if filename = [] then ''_unnamed_''
      else let s0 = map linux_char filename;
               sanitized = (if hd s0 = CHR ''-'' then CHR ''_'' # s0 else s0)
      in if sanitized = [] \<or> sanitized = ''.'' \<or> sanitized = ''..'' then ''_unnamed_''
         else truncate_name 255 sanitized)"

section \<open>Line endings and texts\<close>

text \<open>\<open>replace\<close> of the pair CR LF by LF, left to right without overlaps, and of LF by CR LF.\<close>

abbreviation CR :: char where "CR \<equiv> CHR 0x0D"
abbreviation LF :: char where "LF \<equiv> CHR 0x0A"

fun convert_line_endings_to_unix :: "string \<Rightarrow> string" where
  "convert_line_endings_to_unix (a # b # rest) =
     (if a = CR \<and> b = LF then LF # convert_line_endings_to_unix rest
      else a # convert_line_endings_to_unix (b # rest))"
| "convert_line_endings_to_unix s = s"

definition convert_line_endings_to_windows :: "string \<Rightarrow> string" where
  "convert_line_endings_to_windows s =
     concat (map (\<lambda>c. if c = LF then [CR, LF] else [c]) (convert_line_endings_to_unix s))"

definition sanitize_text_for_windows :: "string \<Rightarrow> string" where
  "sanitize_text_for_windows s = filter (\<lambda>c. c \<noteq> CHR 0x00) (convert_line_endings_to_windows s)"

definition sanitize_text_for_linux :: "string \<Rightarrow> string" where
  "sanitize_text_for_linux s = filter (\<lambda>c. c \<noteq> CHR 0x00) (convert_line_endings_to_unix s)"

section \<open>File URIs\<close>

text \<open>
  \<open>u8::from_str_radix(_, 16)\<close> on two characters: two hexadecimal digits, or a plus sign and
  one digit.
\<close>

definition hex_digit :: "char \<Rightarrow> nat option" where
  "hex_digit c =
     (let n = code c in
      if 48 \<le> n \<and> n \<le> 57 then Some (n - 48)
      else if 65 \<le> n \<and> n \<le> 70 then Some (n - 55)
      else if 97 \<le> n \<and> n \<le> 102 then Some (n - 87) else None)"

fun from_hex2 :: "string \<Rightarrow> nat option" where
  "from_hex2 [a, b] =
     (case hex_digit b of None \<Rightarrow> None
      | Some y \<Rightarrow> if a = CHR ''+'' then Some y else map_option (\<lambda>x. 16 * x + y) (hex_digit a))"
| "from_hex2 _ = None"

abbreviation REPLACEMENT :: nat where "REPLACEMENT \<equiv> 65533"

text \<open>
  The inner loop over the escapes that follow a non-ASCII byte: it returns what is pushed and
  the rest of the input.
\<close>

function decode_sequence :: "nat list \<Rightarrow> string \<Rightarrow> nat list \<times> string" where
  "decode_sequence bytes s =
     (case s of
        [] \<Rightarrow> ([REPLACEMENT], s)
      | c # rest \<Rightarrow>
          if c \<noteq> CHR ''%'' then ([REPLACEMENT], s)
          else let hex2 = take 2 rest; rest' = drop 2 rest in
            if str_len hex2 = 2
            then case from_hex2 hex2 of
                   Some b \<Rightarrow> (case from_utf8 (bytes @ [b]) of
                                Some cps \<Rightarrow> (cps, rest')
                              | None \<Rightarrow> decode_sequence (bytes @ [b]) rest')
                 | None \<Rightarrow> (37 # map of_char hex2 @ [REPLACEMENT], rest')
            else decode_sequence bytes rest')"
  by pat_completeness auto
termination
  by (relation "measure (\<lambda>(bytes, s). length s)") auto

declare decode_sequence.simps [simp del]

lemma decode_sequence_rest: "decode_sequence bytes s = (out, rest) \<Longrightarrow> length rest \<le> length s"
proof (induction bytes s arbitrary: out rest rule: decode_sequence.induct)
  case (1 bytes s)
  show ?case
  proof (cases "\<exists>r. s = CHR ''%'' # r")
    case False
    with "1.prems" show ?thesis by (auto simp: decode_sequence.simps[of bytes s] split: list.splits)
  next
    case True
    then obtain r where s: "s = CHR ''%'' # r" by blast
    note ih1 = "1.IH"(1)[OF s _ refl refl, simplified] and ih2 = "1.IH"(2)[OF s _ refl refl, simplified]
    show ?thesis
    proof (cases "str_len (take 2 r) = 2")
      case True
      then show ?thesis
        using ih1 "1.prems" unfolding s decode_sequence.simps[of bytes "CHR ''%'' # r"]
        by (auto simp: Let_def split: option.splits) fastforce
    next
      case False
      then show ?thesis using ih2 "1.prems" unfolding s decode_sequence.simps[of bytes "CHR ''%'' # r"]
        by (auto simp: Let_def)
    qed
  qed
qed

function percent_decode :: "string \<Rightarrow> nat list" where
  "percent_decode s =
     (case s of
        [] \<Rightarrow> []
      | c # rest \<Rightarrow>
          if c = CHR ''%''
          then let hex = take 2 rest; rest' = drop 2 rest in
            case (if str_len hex = 2 then from_hex2 hex else None) of
              Some byte \<Rightarrow>
                if byte < 128 then byte # percent_decode rest'
                else (case decode_sequence [byte] rest' of (out, rest'') \<Rightarrow> out @ percent_decode rest'')
            | None \<Rightarrow> 37 # map of_char hex @ percent_decode rest'
          else of_char c # percent_decode rest)"
  by pat_completeness auto
termination
  by (relation "measure length") (auto dest!: decode_sequence_rest[OF sym])

declare percent_decode.simps [simp del]

definition parse_file_uri :: "string \<Rightarrow> nat list option" where
  "parse_file_uri uri = map_option percent_decode (strip_prefix ''file://'' uri)"

section \<open>Truncation\<close>

lemma str_len_bounds: "length s \<le> str_len s" "str_len s \<le> 2 * length s"
  by (induction s) (auto simp: str_len_def utf8_width_def)

lemma split_extension_Some:
  "split_extension s = Some (base, ext) \<longleftrightarrow> s = base @ ext \<and> (\<exists>e. ext = CHR ''.'' # e \<and> CHR ''.'' \<notin> set e)"
  by (auto simp: split_extension_def rsplit_once_Some)

lemma truncate_name_short: "str_len s \<le> limit \<Longrightarrow> truncate_name limit s = s"
  by (simp add: truncate_name_def)

lemma truncate_name_cases:
  assumes "str_len s > limit"
  obtains (ext) base ext where "s = base @ ext" "ext \<noteq> []" "str_len ext < limit - 1"
      "truncate_name limit s = take (limit - str_len ext) base @ ext"
    | (cut) "truncate_name limit s = take limit s"
proof (cases "\<exists>base ext. split_extension s = Some (base, ext) \<and> str_len ext < limit - 1")
  case True
  then obtain base ext where e: "split_extension s = Some (base, ext)" "str_len ext < limit - 1" by blast
  then have "s = base @ ext" "ext \<noteq> []" by (auto simp: split_extension_Some)
  with e assms show thesis by (intro that(1)) (simp_all add: truncate_name_def)
next
  case False
  with assms show thesis by (intro that(2)) (auto simp: truncate_name_def split: option.splits)
qed

lemma truncate_name_length: "length (truncate_name limit s) \<le> limit"
proof (cases "str_len s > limit")
  case True
  then show ?thesis
  proof (cases rule: truncate_name_cases)
    case (ext base ext)
    then show ?thesis using length_le_str_len[of ext] by simp
  qed simp
next
  case False
  then show ?thesis using length_le_str_len[of s] by (simp add: truncate_name_short)
qed

lemma truncate_name_set: "set (truncate_name limit s) \<subseteq> set s"
proof (cases "str_len s > limit")
  case True
  then show ?thesis
    by (cases rule: truncate_name_cases) (auto dest: in_set_takeD)
qed (simp add: truncate_name_short)

lemma truncate_name_long:
  assumes "str_len s > limit" "6 \<le> limit"
  shows "2 < length (truncate_name limit s) \<and> hd (truncate_name limit s) = hd s"
  using assms(1)
proof (cases rule: truncate_name_cases)
  case (ext base ext)
  let ?k = "limit - str_len ext"
  have k: "2 \<le> ?k" using ext(3) assms(2) by linarith
  have "str_len base > ?k" using assms(1) ext(1,3) by (simp add: str_len_append)
  then have b: "2 \<le> length base" using k str_len_bounds(2)[of base] by linarith
  have "0 < length ext" using ext(2) by simp
  moreover have "2 \<le> length (take ?k base)" using k b by simp
  ultimately have "2 < length (truncate_name limit s)" unfolding ext(4) length_append by linarith
  moreover have "hd (take ?k base @ ext) = hd (base @ ext)"
    using k b by (cases base; cases ?k) auto
  then have "hd (truncate_name limit s) = hd s" using ext(1,4) by metis
  ultimately show ?thesis by simp
next
  case cut
  have "2 < length s" using assms str_len_bounds(2)[of s] by linarith
  then show ?thesis using cut assms(2) by (cases s) (auto simp: hd_take)
qed

section \<open>File names\<close>

lemma strip_trailing_prefix: "\<exists>t. s = strip_trailing s @ t"
proof (induction s rule: strip_trailing.induct)
  case (1 s)
  show ?case
  proof (cases "ends_with (CHR ''.'') s \<or> ends_with (CHR '' '') s")
    case True
    then obtain t where "butlast s = strip_trailing (butlast s) @ t" and "s \<noteq> []" using 1 by (auto simp: ends_with_def)
    then have "s = strip_trailing (butlast s) @ t @ [last s]" by (metis append.assoc append_butlast_last_id)
    with True show ?thesis by (metis strip_trailing.simps)
  next
    case False
    then show ?thesis by (simp add: strip_trailing.simps[of s])
  qed
qed

lemma strip_trailing_last: "\<not> ends_with (CHR ''.'') (strip_trailing s) \<and> \<not> ends_with (CHR '' '') (strip_trailing s)"
proof (induction s rule: strip_trailing.induct)
  case (1 s)
  then show ?case by (cases "ends_with (CHR ''.'') s \<or> ends_with (CHR '' '') s") (simp_all add: strip_trailing.simps[of s])
qed

lemma strip_trailing_set: "set (strip_trailing s) \<subseteq> set s"
  by (metis strip_trailing_prefix set_append sup_ge1)

lemma strip_trailing_str_len: "str_len (strip_trailing s) \<le> str_len s"
  by (metis strip_trailing_prefix str_len_append le_add1)

definition windows_ok_char :: "char \<Rightarrow> bool" where
  "windows_ok_char c \<longleftrightarrow> c \<notin> set WINDOWS_INVALID_CHARS \<and> \<not> char_is_control c"

lemma windows_char_ok: "windows_ok_char (windows_char c)"
  by (auto simp: windows_char_def windows_ok_char_def WINDOWS_INVALID_CHARS_def char_is_control_def)

lemma windows_char_id: "windows_ok_char c \<Longrightarrow> windows_char c = c"
  by (simp add: windows_char_def windows_ok_char_def)

lemma windows_char_width: "utf8_width (windows_char c) \<le> utf8_width c"
  by (simp add: windows_char_def utf8_width_def)

lemma str_len_map_le: "(\<And>c. utf8_width (f c) \<le> utf8_width c) \<Longrightarrow> str_len (map f s) \<le> str_len s"
  by (induction s) (auto simp: str_len_def intro: add_mono)

lemma not_reserved_underscore: "\<not> is_reserved (CHR ''_'' # s)"
  by (simp add: is_reserved_def to_uppercase_def first_component_def char_to_uppercase_def Let_def
      WINDOWS_RESERVED_NAMES_def)

text \<open>The name before truncation.\<close>

definition windows_stem :: "string \<Rightarrow> string" where
  "windows_stem filename =
     (let s = strip_trailing (map windows_char filename) in
      if filename = [] \<or> s = [] then ''_unnamed_'' else if is_reserved s then CHR ''_'' # s else s)"

lemma sanitize_windows_stem: "sanitize_filename_for_windows f = truncate_name 255 (windows_stem f)"
  by (simp add: sanitize_filename_for_windows_def windows_stem_def Let_def truncate_name_short
      str_len_def utf8_width_def)

lemma windows_stem_ok:
  "windows_stem f \<noteq> []" "list_all windows_ok_char (windows_stem f)" "\<not> is_reserved (windows_stem f)"
  "\<not> ends_with (CHR ''.'') (windows_stem f)" "\<not> ends_with (CHR '' '') (windows_stem f)"
proof -
  let ?s = "strip_trailing (map windows_char f)"
  have ok: "list_all windows_ok_char ?s"
    using strip_trailing_set[of "map windows_char f"] windows_char_ok by (fastforce simp: list_all_iff)
  have u: "windows_ok_char (CHR ''_'')" and un: "list_all windows_ok_char ''_unnamed_''"
    by (simp_all add: windows_ok_char_def WINDOWS_INVALID_CHARS_def char_is_control_def)
  have last: "ends_with c (CHR ''_'' # ?s) \<longleftrightarrow> ends_with c ?s" if "?s \<noteq> []" for c
    using that by (simp add: ends_with_def)
  show "windows_stem f \<noteq> []" by (simp add: windows_stem_def Let_def)
  show "list_all windows_ok_char (windows_stem f)" using ok u un by (simp add: windows_stem_def Let_def)
  show "\<not> is_reserved (windows_stem f)" by (simp add: windows_stem_def Let_def not_reserved_underscore)
  show "\<not> ends_with (CHR ''.'') (windows_stem f)" "\<not> ends_with (CHR '' '') (windows_stem f)"
    using strip_trailing_last[of "map windows_char f"] last
    by (auto simp: windows_stem_def Let_def ends_with_def)
qed

lemma windows_stem_id:
  assumes "s \<noteq> []" "list_all windows_ok_char s" "\<not> is_reserved s"
    "\<not> ends_with (CHR ''.'') s" "\<not> ends_with (CHR '' '') s"
  shows "windows_stem s = s"
proof -
  have "map windows_char s = s" using assms(2) by (simp add: list_all_iff windows_char_id map_idI)
  moreover have "strip_trailing s = s" using assms(4,5) by (simp add: strip_trailing.simps[of s])
  ultimately show ?thesis using assms by (simp add: windows_stem_def)
qed

lemma windows_stem_len: "str_len f < 255 \<Longrightarrow> str_len (windows_stem f) \<le> 255"
  using strip_trailing_str_len[of "map windows_char f"] str_len_map_le[of windows_char f, OF windows_char_width]
  by (auto simp: windows_stem_def Let_def str_len_def utf8_width_def)

section \<open>Line endings\<close>

definition expand_lf :: "string \<Rightarrow> string" where
  "expand_lf s = concat (map (\<lambda>c. if c = LF then [CR, LF] else [c]) s)"

lemma to_unix_expand: "convert_line_endings_to_unix (expand_lf s) = s"
proof (induction s)
  case (Cons c s)
  have tl: "expand_lf s = [] \<or> hd (expand_lf s) \<noteq> LF"
    by (cases s) (auto simp: expand_lf_def)
  show ?case
  proof (cases "c = LF")
    case True
    with Cons show ?thesis by (simp add: expand_lf_def)
  next
    case False
    then have "expand_lf (c # s) = c # expand_lf s" by (simp add: expand_lf_def)
    then show ?thesis using tl Cons by (cases "expand_lf s") auto
  qed
qed (simp add: expand_lf_def)

lemma to_unix_no_cr: "CR \<notin> set s \<Longrightarrow> convert_line_endings_to_unix s = s"
  by (induction s rule: convert_line_endings_to_unix.induct) auto

section \<open>Percent-decoding\<close>

text \<open>The escape of a character: its UTF-8 bytes, each as a percent sign and two digits.\<close>

definition hex_char :: "nat \<Rightarrow> char" where
  "hex_char n = (if n < 10 then char_of (48 + n) else char_of (55 + n))"

definition escape_byte :: "nat \<Rightarrow> string" where
  "escape_byte b = [CHR ''%'', hex_char (b div 16), hex_char (b mod 16)]"

definition escape_char :: "char \<Rightarrow> string" where
  "escape_char c = (if code c < 128 then escape_byte (code c)
     else escape_byte (192 + code c div 64) @ escape_byte (128 + code c mod 64))"

lemma code_hex_char: "n < 16 \<Longrightarrow> of_char (hex_char n) = (if n < 10 then 48 + n else 55 + n)"
  by (simp add: hex_char_def)

lemma hex_digit_hex_char: "n < 16 \<Longrightarrow> hex_digit (hex_char n) = Some n"
  by (simp add: hex_digit_def Let_def code_hex_char)

lemma utf8_width_hex_char: "n < 16 \<Longrightarrow> utf8_width (hex_char n) = 1"
  by (simp add: utf8_width_def code_hex_char)

lemma from_hex2_escape:
  assumes "b < 256"
  shows "from_hex2 [hex_char (b div 16), hex_char (b mod 16)] = Some b"
    and "str_len [hex_char (b div 16), hex_char (b mod 16)] = 2"
proof -
  have d: "b div 16 < 16" "b mod 16 < 16" using assms by auto
  have "hex_char (b div 16) \<noteq> CHR ''+''"
  proof
    assume "hex_char (b div 16) = CHR ''+''"
    then have "of_char (hex_char (b div 16)) = (43 :: nat)" by simp
    with code_hex_char[OF d(1)] show False by (simp split: if_splits)
  qed
  then show "from_hex2 [hex_char (b div 16), hex_char (b mod 16)] = Some b"
    by (simp add: hex_digit_hex_char[OF d(1)] hex_digit_hex_char[OF d(2)])
  show "str_len [hex_char (b div 16), hex_char (b mod 16)] = 2"
    by (simp add: str_len_def utf8_width_hex_char[OF d(1)] utf8_width_hex_char[OF d(2)])
qed

lemma code_less: "of_char (c :: char) < (256 :: nat)"
  using nat_of_char_less_256 .

lemma from_utf8_latin1:
  assumes "128 \<le> n" "n < 256"
  shows "from_utf8 [192 + n div 64, 128 + n mod 64] = Some [n]"
proof -
  have "n div 64 = 2 \<or> n div 64 = 3" using assms by auto
  moreover have "n div 64 * 64 + n mod 64 = n" by (rule div_mult_mod_eq)
  ultimately show ?thesis by (auto simp: cont_def)
qed

lemma percent_decode_escape: "percent_decode (escape_char c @ rest) = of_char c # percent_decode rest"
proof (cases "of_char c < (128 :: nat)")
  case True
  then show ?thesis
    using from_hex2_escape[of "of_char c"]
    by (simp add: escape_char_def escape_byte_def percent_decode.simps[of "CHR ''%'' # _"] numeral_2_eq_2)
next
  case False
  let ?n = "of_char c :: nat"
  let ?a = "192 + ?n div 64" let ?b = "128 + ?n mod 64"
  have n: "128 \<le> ?n" "?n < 256" using False code_less by auto
  then have "?n div 64 < 4" by (intro less_mult_imp_div_less) simp
  then have b: "?a < 256" "?b < 256" "\<not> ?a < 128" by auto
  have "decode_sequence [?a] (escape_byte ?b @ rest) = ([?n], rest)"
    using from_hex2_escape[OF b(2)] from_utf8_latin1[OF n]
    by (simp add: escape_byte_def decode_sequence.simps[of "[?a]"] numeral_2_eq_2)
  moreover have "escape_char c @ rest = CHR ''%'' # hex_char (?a div 16) # hex_char (?a mod 16) # escape_byte ?b @ rest"
    using False by (simp add: escape_char_def escape_byte_def)
  ultimately show ?thesis
    using from_hex2_escape[OF b(1)] b(3)
    by (simp add: percent_decode.simps[of "CHR ''%'' # _"] numeral_2_eq_2)
qed

section \<open>What the sanitisers leave\<close>

text \<open>
  Truncation runs after the reserved-name check and counts characters against a byte limit:
  it can cut a long name down to a reserved device name, and it keeps Linux names of up
  to 255 two-byte characters, which exceed the limit of 255 bytes.
\<close>

lemma str_len_replicate [simp]: "str_len (replicate n c) = n * utf8_width c"
  by (simp add: str_len_def sum_list_replicate)

lemma to_uppercase_append: "to_uppercase (a @ b) = to_uppercase a @ to_uppercase b"
  by (simp add: to_uppercase_def)

lemma truncation_makes_reserved_name:
  "sanitize_filename_for_windows (''CONSOLE.'' @ replicate 251 (CHR ''x'')) = ''CON.'' @ replicate 251 (CHR ''x'') \<and>
   is_reserved (''CON.'' @ replicate 251 (CHR ''x''))"
proof -
  let ?x = "replicate 251 (CHR ''x'')" let ?s = "''CONSOLE'' @ CHR ''.'' # ?x"
  have "windows_stem ?s = ?s"
  proof (rule windows_stem_id)
    show "list_all windows_ok_char ?s"
      by (simp add: list_all_iff windows_ok_char_def WINDOWS_INVALID_CHARS_def char_is_control_def)
    show "\<not> is_reserved ?s"
      by (simp add: is_reserved_def to_uppercase_def char_to_uppercase_def first_component_def
          WINDOWS_RESERVED_NAMES_def)
  qed (simp_all add: ends_with_def)
  moreover have "split_extension ?s = Some (''CONSOLE'', CHR ''.'' # ?x)"
    by (subst split_extension_Some) simp
  moreover have "str_len ?s = 259" "str_len (CHR ''.'' # ?x) = 252"
    using str_len_append[of "''CONSOLE.''" ?x] str_len_append[of "''.''" ?x]
    by (simp_all add: str_len_def utf8_width_def sum_list_replicate)
  ultimately have "sanitize_filename_for_windows ?s = ''CON.'' @ ?x"
    by (simp add: sanitize_windows_stem truncate_name_def)
  moreover have "is_reserved (''CON.'' @ ?x)"
    by (simp add: is_reserved_def to_uppercase_def char_to_uppercase_def first_component_def
        WINDOWS_RESERVED_NAMES_def)
  ultimately show ?thesis by simp
qed

lemma linux_name_exceeds_bytes:
  assumes "128 \<le> n" "n \<le> 255"
  shows "sanitize_filename_for_linux (replicate n (CHR 0xE9)) = replicate n (CHR 0xE9) \<and>
    str_len (replicate n (CHR 0xE9)) > 255"
proof -
  have n: "replicate n (CHR 0xE9) = CHR 0xE9 # replicate (n - 1) (CHR 0xE9)" using assms by (cases n) auto
  have m: "map linux_char (replicate n (CHR 0xE9)) = replicate n (CHR 0xE9)" by (simp add: linux_char_def)
  have "split_extension (replicate n (CHR 0xE9)) = None"
    by (simp add: split_extension_def rsplit_once_None)
  with assms have "truncate_name 255 (replicate n (CHR 0xE9)) = replicate n (CHR 0xE9)"
    by (simp add: truncate_name_def utf8_width_def)
  moreover have "sanitize_filename_for_linux (replicate n (CHR 0xE9)) = truncate_name 255 (replicate n (CHR 0xE9))"
    unfolding sanitize_filename_for_linux_def Let_def m by (subst n)+ simp
  ultimately show ?thesis using assms by (simp add: utf8_width_def)
qed

text \<open>
  NULs are removed after the line endings are converted, which can put a carriage return and a
  line feed together again; and the hexadecimal parser accepts a plus sign.
\<close>

lemma nul_removal_makes_crlf: "sanitize_text_for_linux [CR, CHR 0x00, LF] = [CR, LF]"
  by (simp add: sanitize_text_for_linux_def)

lemma plus_sign_decodes: "percent_decode ''%+5'' = [5]"
  by (simp add: percent_decode.simps hex_digit_def str_len_def utf8_width_def)

section \<open>Properties\<close>

text \<open>
  C11.  A name sanitised for Windows is never empty, contains no forbidden or control character and
  has at most 255 characters.  When the original is shorter than 255 bytes the name is moreover
  not a reserved device name, does not end in a dot or a space, and sanitising it again
  changes nothing.
\<close>

theorem windows_name_safe:
  "sanitize_filename_for_windows f \<noteq> [] \<and> list_all windows_ok_char (sanitize_filename_for_windows f) \<and>
   length (sanitize_filename_for_windows f) \<le> 255 \<and>
   (str_len f < 255 \<longrightarrow>
      \<not> is_reserved (sanitize_filename_for_windows f) \<and>
      \<not> ends_with (CHR ''.'') (sanitize_filename_for_windows f) \<and>
      \<not> ends_with (CHR '' '') (sanitize_filename_for_windows f) \<and>
      sanitize_filename_for_windows (sanitize_filename_for_windows f) = sanitize_filename_for_windows f)"
proof -
  let ?r = "sanitize_filename_for_windows f"
  have "?r \<noteq> []"
    using truncate_name_long[of 255 "windows_stem f"] windows_stem_ok(1)[of f]
    by (cases "str_len (windows_stem f) > 255") (auto simp: sanitize_windows_stem truncate_name_short)
  moreover have "list_all windows_ok_char ?r"
    using truncate_name_set[of 255 "windows_stem f"] windows_stem_ok(2)[of f]
    by (auto simp: sanitize_windows_stem list_all_iff)
  moreover have "length ?r \<le> 255" by (simp add: sanitize_windows_stem truncate_name_length)
  moreover have "?r = windows_stem f \<and> sanitize_filename_for_windows ?r = ?r" if "str_len f < 255"
    using windows_stem_len[OF that] windows_stem_id[OF windows_stem_ok, of f]
    by (simp add: sanitize_windows_stem truncate_name_short)
  ultimately show ?thesis using windows_stem_ok(3-5)[of f] by metis
qed

theorem windows_name_safe_witness:
  "str_len ''con.txt. '' < 255 \<and> \<not> is_reserved (sanitize_filename_for_windows ''con.txt. '')"
proof -
  have "str_len ''con.txt. '' < 255" by (simp add: str_len_def utf8_width_def)
  with windows_name_safe[of "''con.txt. ''"] show ?thesis by blast
qed

text \<open>
  A name sanitised for Linux is a single path component: it is not empty, has no slash,
  NUL or backslash, does not start with a dash, is neither \<open>.\<close> nor \<open>..\<close>, and has at most 255
  characters.
\<close>

theorem linux_name_safe:
  "sanitize_filename_for_linux f \<noteq> [] \<and>
   CHR ''/'' \<notin> set (sanitize_filename_for_linux f) \<and> CHR 0x00 \<notin> set (sanitize_filename_for_linux f) \<and>
   CHR 0x5C \<notin> set (sanitize_filename_for_linux f) \<and> hd (sanitize_filename_for_linux f) \<noteq> CHR ''-'' \<and>
   sanitize_filename_for_linux f \<noteq> ''.'' \<and> sanitize_filename_for_linux f \<noteq> ''..'' \<and>
   length (sanitize_filename_for_linux f) \<le> 255"
proof -
  define s where "s = (let s0 = map linux_char f in if hd s0 = CHR ''-'' then CHR ''_'' # s0 else s0)"
  show ?thesis
  proof (cases "f = [] \<or> s = ''.'' \<or> s = ''..''")
    case True
    then have "sanitize_filename_for_linux f = ''_unnamed_''"
      by (auto simp: sanitize_filename_for_linux_def s_def Let_def)
    then show ?thesis by simp
  next
    case False
    then have r: "sanitize_filename_for_linux f = truncate_name 255 s" and s: "s \<noteq> []" "hd s \<noteq> CHR ''-''"
      by (auto simp: sanitize_filename_for_linux_def s_def Let_def split: if_splits)
    have bad: "c \<notin> set s" if "c \<in> {CHR ''/'', CHR 0x00, CHR 0x5C}" for c
      using that by (auto simp: s_def Let_def linux_char_def split: if_splits)
    have "truncate_name 255 s \<noteq> [] \<and> hd (truncate_name 255 s) \<noteq> CHR ''-'' \<and>
        truncate_name 255 s \<noteq> ''.'' \<and> truncate_name 255 s \<noteq> ''..''"
      using truncate_name_long[of 255 s] False s
      by (cases "str_len s > 255") (auto simp: truncate_name_short)
    with r bad truncate_name_set[of 255 s] truncate_name_length[of 255 s] show ?thesis by auto
  qed
qed

text \<open>
  Line endings: converting to Unix endings undoes the conversion to Windows endings (so it
  restores every text without carriage returns), the conversion to Windows endings is
  idempotent, and neither sanitised text contains a NUL.
\<close>

theorem line_endings_round_trip:
  "convert_line_endings_to_unix (convert_line_endings_to_windows s) = convert_line_endings_to_unix s \<and>
   (CR \<notin> set s \<longrightarrow> convert_line_endings_to_unix (convert_line_endings_to_windows s) = s) \<and>
   convert_line_endings_to_windows (convert_line_endings_to_windows s) = convert_line_endings_to_windows s \<and>
   CHR 0x00 \<notin> set (sanitize_text_for_windows s) \<and> CHR 0x00 \<notin> set (sanitize_text_for_linux s)"
proof -
  have w: "convert_line_endings_to_windows t = expand_lf (convert_line_endings_to_unix t)" for t
    by (simp add: convert_line_endings_to_windows_def expand_lf_def)
  show ?thesis
    by (simp add: w to_unix_expand to_unix_no_cr sanitize_text_for_windows_def sanitize_text_for_linux_def)
qed

theorem line_endings_round_trip_witness:
  "CR \<notin> set [CHR ''a'', LF, CHR ''b''] \<and>
   convert_line_endings_to_unix (convert_line_endings_to_windows [CHR ''a'', LF, CHR ''b'']) = [CHR ''a'', LF, CHR ''b'']"
  using line_endings_round_trip[of "[CHR ''a'', LF, CHR ''b'']"] by simp

text \<open>
  Percent-decoding inverts percent-encoding: whichever characters of a Latin-1 path an encoder
  chooses to escape (as long as it escapes the percent sign), a file URI with that path
  parses back to it.
\<close>

theorem file_uri_round_trip:
  assumes "esc (CHR ''%'')"
  shows "parse_file_uri (''file://'' @ concat (map (\<lambda>c. if esc c then escape_char c else [c]) path)) = Some (map of_char path)"
proof -
  have "percent_decode (concat (map (\<lambda>c. if esc c then escape_char c else [c]) path)) = map of_char path"
  proof (induction path)
    case (Cons c path)
    show ?case
    proof (cases "esc c")
      case True
      with Cons show ?thesis by (simp add: percent_decode_escape)
    next
      case False
      with assms have "c \<noteq> CHR ''%''" by metis
      with False Cons show ?thesis by (simp add: percent_decode.simps[of "c # _"])
    qed
  qed (simp add: percent_decode.simps)
  then show ?thesis by (simp add: parse_file_uri_def)
qed

theorem file_uri_round_trip_witness:
  "parse_file_uri (''file://'' @ concat (map (\<lambda>c. if c \<in> {CHR ''%'', CHR '' '', CHR 0xE9} then escape_char c else [c]) [CHR ''/'', CHR '' '', CHR 0xE9, CHR ''%''])) =
   Some [47, 32, 233, 37]"
  using file_uri_round_trip[of "\<lambda>c. c \<in> {CHR ''%'', CHR '' '', CHR 0xE9}" "[CHR ''/'', CHR '' '', CHR 0xE9, CHR ''%'']"]
  by simp

end
