(* ===== verification/Wrdp_Clipboard_Formats.thy ===== *)
theory Wrdp_Clipboard_Formats
  imports Wrdp_Clipboard_Sync Wrdp_Clipboard_Transfer Wrdp_Clipboard_Sanitize
begin

text \<open>
  Clipboard formats (\<open>src/src/rdp/channels/clipboard/core/formats.rs\<close>): the mapping between MIME types and RDP formats, the
  conversions of text, HTML, rich text and file lists, and the file descriptors of file transfers.

  Texts are lists of code points, data lists of bytes (\<open>Wrdp_Unicode\<close>).  Where Rust panics the result is \<open>None\<close>.  File names are
  Latin-1 strings, as in \<open>Wrdp_Clipboard_Sanitize\<close>; what \<open>fs::metadata\<close> returns is an argument.
\<close>

section \<open>MIME types and formats\<close>

definition CF_UNICODETEXT :: u32 where "CF_UNICODETEXT = 13"
definition CF_TEXT :: u32 where "CF_TEXT = 1"
definition CF_OEMTEXT :: u32 where "CF_OEMTEXT = 7"
definition CF_DIB :: u32 where "CF_DIB = 8"
definition CF_DIBV5 :: u32 where "CF_DIBV5 = 17"
definition CF_HDROP :: u32 where "CF_HDROP = 15"
definition CF_WAVE :: u32 where "CF_WAVE = 12"
definition CF_RIFF :: u32 where "CF_RIFF = 11"
definition CF_HTML :: u32 where "CF_HTML = 0xD010"
definition CF_PNG :: u32 where "CF_PNG = 0xD011"
definition CF_JPEG :: u32 where "CF_JPEG = 0xD012"
definition CF_GIF :: u32 where "CF_GIF = 0xD013"
definition CF_RTF :: u32 where "CF_RTF = 0xD014"
definition CF_FILEGROUPDESCRIPTORW :: u32 where "CF_FILEGROUPDESCRIPTORW = 49430"
definition CF_FILECONTENTS :: u32 where "CF_FILECONTENTS = 49338"

lemmas cf_defs = CF_UNICODETEXT_def CF_TEXT_def CF_OEMTEXT_def CF_DIB_def CF_DIBV5_def CF_HDROP_def CF_WAVE_def CF_RIFF_def
  CF_HTML_def CF_PNG_def CF_JPEG_def CF_GIF_def CF_RTF_def CF_FILEGROUPDESCRIPTORW_def CF_FILECONTENTS_def

definition format_new :: "u32 \<Rightarrow> clipboard_format" where
  "format_new i = \<lparr>format_id = i, format_name = None\<rparr>"

definition format_with_name :: "u32 \<Rightarrow> string \<Rightarrow> clipboard_format" where
  "format_with_name i n = \<lparr>format_id = i, format_name = Some n\<rparr>"

definition has_id :: "u32 \<Rightarrow> clipboard_format list \<Rightarrow> bool" where
  "has_id i fs = list_ex (\<lambda>f. format_id f = i) fs"

text \<open>The body of the loop over the MIME types.\<close>

definition announce :: "string \<Rightarrow> clipboard_format list \<Rightarrow> clipboard_format list" where
  "announce mime fs =
     (if mime \<in> {''text/plain'', ''text/plain;charset=utf-8'', ''UTF8_STRING'', ''STRING''}
      then if has_id CF_UNICODETEXT fs then fs
           else fs @ [format_new CF_UNICODETEXT, format_new CF_TEXT, format_new CF_OEMTEXT]
      else if mime = ''text/html'' then fs @ [format_with_name CF_HTML ''HTML Format'']
      else if mime \<in> {''text/rtf'', ''application/rtf''} then fs @ [format_with_name CF_RTF ''Rich Text Format'']
      else if mime = ''image/png''
      then let fs1 = fs @ [format_with_name CF_PNG ''PNG''];
               fs2 = (if has_id CF_DIBV5 fs1 then fs1 else fs1 @ [format_new CF_DIBV5])
           in if has_id CF_DIB fs2 then fs2 else fs2 @ [format_new CF_DIB]
      else if mime \<in> {''image/jpeg'', ''image/jpg''}
      then let fs1 = fs @ [format_with_name CF_JPEG ''JFIF''] in if has_id CF_DIB fs1 then fs1 else fs1 @ [format_new CF_DIB]
      else if mime = ''image/gif'' then fs @ [format_with_name CF_GIF ''GIF'']
      else if mime \<in> {''image/bmp'', ''image/x-bmp''} then fs @ [format_new CF_DIB]
      else if mime \<in> {''text/uri-list'', ''x-special/gnome-copied-files''}
      then if list_ex (\<lambda>f. format_name f = Some ''FileGroupDescriptorW'') fs then fs
           else fs @ [format_with_name 0 ''FileGroupDescriptorW'', format_with_name 0 ''FileContents'']
      else if mime \<in> {''audio/wav'', ''audio/x-wav''} then fs @ [format_new CF_WAVE]
      else fs)"

definition mime_to_rdp_formats :: "string list \<Rightarrow> clipboard_format list" where
  "mime_to_rdp_formats mimes = fold announce mimes []"

definition rdp_format_to_mime :: "u32 \<Rightarrow> string option" where
  "rdp_format_to_mime i =
     (if i \<in> {CF_UNICODETEXT, CF_TEXT, CF_OEMTEXT} then Some ''text/plain;charset=utf-8''
      else if i = CF_HTML then Some ''text/html''
      else if i = CF_RTF then Some ''text/rtf''
      else if i \<in> {CF_DIB, CF_DIBV5} then Some ''image/png''
      else if i = CF_PNG then Some ''image/png''
      else if i = CF_JPEG then Some ''image/jpeg''
      else if i = CF_GIF then Some ''image/gif''
      else if i \<in> {CF_HDROP, CF_FILEGROUPDESCRIPTORW} then Some ''text/uri-list''
      else if i \<in> {CF_WAVE, CF_RIFF} then Some ''audio/wav''
      else None)"

section \<open>Code pages\<close>

definition windows1252_encoding :: "(nat \<times> nat) list" where
  "windows1252_encoding = [
    (0x20AC, 128), (0x201A, 130), (0x0192, 131), (0x201E, 132), (0x2026, 133), (0x2020, 134), (0x2021, 135), (0x02C6, 136), (0x2030, 137),
    (0x0160, 138), (0x2039, 139), (0x0152, 140), (0x017D, 142), (0x2018, 145), (0x2019, 146), (0x201C, 147), (0x201D, 148), (0x2022, 149),
    (0x2013, 150), (0x2014, 151), (0x02DC, 152), (0x2122, 153), (0x0161, 154), (0x203A, 155), (0x0153, 156), (0x017E, 158), (0x0178, 159)]"

definition char_to_windows1252 :: "nat \<Rightarrow> nat" where
  "char_to_windows1252 cp =
     (if cp < 128 then cp
      else case map_of windows1252_encoding cp of
             Some b \<Rightarrow> b
           | None \<Rightarrow> if 160 \<le> cp \<and> cp \<le> 255 then cp else 63)"

definition windows1252_decoding :: "(nat \<times> nat) list" where
  "windows1252_decoding = [
    (128, 0x20AC), (130, 0x201A), (131, 0x0192), (132, 0x201E), (133, 0x2026), (134, 0x2020), (135, 0x2021), (136, 0x02C6), (137, 0x2030),
    (138, 0x0160), (139, 0x2039), (140, 0x0152), (142, 0x017D), (145, 0x2018), (146, 0x2019), (147, 0x201C), (148, 0x201D), (149, 0x2022),
    (150, 0x2013), (151, 0x2014), (152, 0x02DC), (153, 0x2122), (154, 0x0161), (155, 0x203A), (156, 0x0153), (158, 0x017E), (159, 0x0178)]"

definition windows1252_to_char :: "nat \<Rightarrow> nat" where
  "windows1252_to_char b =
     (if b < 128 then b
      else if b \<ge> 160 then (case char_from_u32 b of Some c \<Rightarrow> c | None \<Rightarrow> 63)
      else case map_of windows1252_decoding b of Some c \<Rightarrow> c | None \<Rightarrow> 63)"

definition cp437_encoding :: "(nat \<times> nat) list" where
  "cp437_encoding = [
    (0x00C7, 128), (0x00FC, 129), (0x00E9, 130), (0x00E2, 131), (0x00E4, 132), (0x00E0, 133), (0x00E5, 134), (0x00E7, 135), (0x00EA, 136),
    (0x00EB, 137), (0x00E8, 138), (0x00EF, 139), (0x00EE, 140), (0x00EC, 141), (0x00C4, 142), (0x00C5, 143), (0x00C9, 144), (0x00E6, 145),
    (0x00C6, 146), (0x00F4, 147), (0x00F6, 148), (0x00F2, 149), (0x00FB, 150), (0x00F9, 151), (0x00FF, 152), (0x00D6, 153), (0x00DC, 154),
    (0x00A2, 155), (0x00A3, 156), (0x00A5, 157), (0x20A7, 158), (0x0192, 159), (0x00E1, 160), (0x00ED, 161), (0x00F3, 162), (0x00FA, 163),
    (0x00F1, 164), (0x00D1, 165), (0x00AA, 166), (0x00BA, 167), (0x00BF, 168), (0x00A1, 173), (0x00AB, 174), (0x00BB, 175), (0x00B0, 248),
    (0x00B7, 249), (0x00B2, 253)]"

definition char_to_cp437 :: "nat \<Rightarrow> nat" where
  "char_to_cp437 cp =
     (if 32 \<le> cp \<and> cp < 127 then cp
      else if cp < 32 then cp
      else case map_of cp437_encoding cp of Some b \<Rightarrow> b | None \<Rightarrow> 63)"

definition CP437_HIGH :: "nat list" where
  "CP437_HIGH = [
    0x00C7, 0x00FC, 0x00E9, 0x00E2, 0x00E4, 0x00E0, 0x00E5, 0x00E7, 0x00EA, 0x00EB, 0x00E8, 0x00EF, 0x00EE, 0x00EC, 0x00C4, 0x00C5, 0x00C9,
    0x00E6, 0x00C6, 0x00F4, 0x00F6, 0x00F2, 0x00FB, 0x00F9, 0x00FF, 0x00D6, 0x00DC, 0x00A2, 0x00A3, 0x00A5, 0x20A7, 0x0192, 0x00E1, 0x00ED,
    0x00F3, 0x00FA, 0x00F1, 0x00D1, 0x00AA, 0x00BA, 0x00BF, 0x2310, 0x00AC, 0x00BD, 0x00BC, 0x00A1, 0x00AB, 0x00BB, 0x2591, 0x2592, 0x2593,
    0x2502, 0x2524, 0x2561, 0x2562, 0x2556, 0x2555, 0x2563, 0x2551, 0x2557, 0x255D, 0x255C, 0x255B, 0x2510, 0x2514, 0x2534, 0x252C, 0x251C,
    0x2500, 0x253C, 0x255E, 0x255F, 0x255A, 0x2554, 0x2569, 0x2566, 0x2560, 0x2550, 0x256C, 0x2567, 0x2568, 0x2564, 0x2565, 0x2559, 0x2558,
    0x2552, 0x2553, 0x256B, 0x256A, 0x2518, 0x250C, 0x2588, 0x2584, 0x258C, 0x2590, 0x2580, 0x03B1, 0x00DF, 0x0393, 0x03C0, 0x03A3, 0x03C3,
    0x00B5, 0x03C4, 0x03A6, 0x0398, 0x03A9, 0x03B4, 0x221E, 0x03C6, 0x03B5, 0x2229, 0x2261, 0x00B1, 0x2265, 0x2264, 0x2320, 0x2321, 0x00F7,
    0x2248, 0x00B0, 0x2219, 0x00B7, 0x221A, 0x207F, 0x00B2, 0x25A0, 0x0020]"

definition cp437_to_char :: "nat \<Rightarrow> nat" where
  "cp437_to_char b =
     (if b < 32 then (case char_from_u32 b of Some c \<Rightarrow> c | None \<Rightarrow> 32)
      else if b < 127 then b
      else if b = 127 then 0x2302
      else CP437_HIGH ! (b - 128))"

section \<open>Plain text\<close>

record format_converter =
  fc_max_size :: usize

definition converter_new :: format_converter where
  "converter_new = \<lparr>fc_max_size = 16 * 1024 * 1024\<rparr>"

definition with_max_size :: "usize \<Rightarrow> format_converter" where
  "with_max_size n = \<lparr>fc_max_size = n\<rparr>"

text \<open>The size check that opens the conversions.\<close>

definition check_size :: "format_converter \<Rightarrow> usize \<Rightarrow> (clipboard_error, unit) result" where
  "check_size f n = (if n > fc_max_size f then Err (DataSizeExceeded n (fc_max_size f)) else Ok ())"

text \<open>Removing a terminator if there is one.\<close>

definition strip_null :: "nat list \<Rightarrow> nat list" where
  "strip_null xs = (if xs \<noteq> [] \<and> last xs = 0 then butlast xs else xs)"

definition text_to_unicode :: "format_converter \<Rightarrow> unicode \<Rightarrow> (clipboard_error, nat list) result" where
  "text_to_unicode f t = rbind (check_size f (utf8_len t)) (\<lambda>_. Ok (units_le (encode_utf16 t) @ [0, 0]))"

definition unicode_to_text :: "format_converter \<Rightarrow> nat list \<Rightarrow> (clipboard_error, unicode) result" where
  "unicode_to_text f data =
     rbind (check_size f (length data)) (\<lambda>_.
       if length data mod 2 \<noteq> 0 then Err InvalidUtf16
       else case from_utf16 (strip_null (le_units data)) of Some t \<Rightarrow> Ok t | None \<Rightarrow> Err InvalidUtf16)"

definition text_to_ansi :: "format_converter \<Rightarrow> unicode \<Rightarrow> (clipboard_error, nat list) result" where
  "text_to_ansi f t = rbind (check_size f (utf8_len t)) (\<lambda>_. Ok (map char_to_windows1252 t @ [0]))"

definition ansi_to_text :: "format_converter \<Rightarrow> nat list \<Rightarrow> (clipboard_error, unicode) result" where
  "ansi_to_text f data = rbind (check_size f (length data)) (\<lambda>_. Ok (map windows1252_to_char (strip_null data)))"

definition text_to_oem :: "format_converter \<Rightarrow> unicode \<Rightarrow> (clipboard_error, nat list) result" where
  "text_to_oem f t = rbind (check_size f (utf8_len t)) (\<lambda>_. Ok (map char_to_cp437 t @ [0]))"

definition oem_to_text :: "format_converter \<Rightarrow> nat list \<Rightarrow> (clipboard_error, unicode) result" where
  "oem_to_text f data = rbind (check_size f (length data)) (\<lambda>_. Ok (map cp437_to_char (strip_null data)))"

section \<open>HTML\<close>

text \<open>The format \<open>{:08}\<close>.\<close>

definition pad8 :: "nat \<Rightarrow> string" where
  "pad8 n = replicate (8 - length (show_nat n)) CHR ''0'' @ show_nat n"

abbreviation crlf :: string where "crlf \<equiv> [CHR 0x0D, CHR 0x0A]"

definition cf_html_header :: "string \<Rightarrow> string \<Rightarrow> string \<Rightarrow> string \<Rightarrow> string" where
  "cf_html_header a b c d =
     ''Version:0.9'' @ crlf @ ''StartHTML:'' @ a @ crlf @ ''EndHTML:'' @ b @ crlf @ ''StartFragment:'' @ c @ crlf @ ''EndFragment:'' @ d @ crlf"

definition html_to_cf_html :: "format_converter \<Rightarrow> unicode \<Rightarrow> (clipboard_error, nat list) result" where
  "html_to_cf_html f html =
     rbind (check_size f (utf8_len html)) (\<lambda>_.
       let prefix_html = ''<html><body><!--StartFragment-->'';
           suffix_html = ''<!--EndFragment--></body></html>'';
           header_len = length (cf_html_header ''XXXXXXXX'' ''XXXXXXXX'' ''XXXXXXXX'' ''XXXXXXXX'');
           start_html = header_len;
           start_fragment = header_len + length prefix_html;
           end_fragment = start_fragment + utf8_len html;
           end_html = end_fragment + length suffix_html
       in Ok (to_utf8 (ascii (cf_html_header (pad8 start_html) (pad8 end_html) (pad8 start_fragment) (pad8 end_fragment)) @
                       ascii prefix_html @ html @ ascii suffix_html)))"

definition parse_header_value :: "unicode \<Rightarrow> string \<Rightarrow> (clipboard_error, nat) result" where
  "parse_header_value t key =
     (case find (\<lambda>l. take (length key) l = ascii key) (unicode_lines t) of
        Some l \<Rightarrow> (case unicode_parse_unsigned 64 (unicode_trim (drop (length key) l)) of
                     Some n \<Rightarrow> Ok n
                   | None \<Rightarrow> Err (FormatConversion (''missing '' @ key @ '' header'')))
      | None \<Rightarrow> Err (FormatConversion (''missing '' @ key @ '' header'')))"

text \<open>
  Slicing a string by byte offsets, \<open>&text[a..b]\<close> for \<open>a \<le> b \<le> text.len()\<close>: a panic unless both ends are between characters.
\<close>

definition is_char_boundary :: "nat list \<Rightarrow> nat \<Rightarrow> bool" where
  "is_char_boundary bytes i \<longleftrightarrow> i = 0 \<or> i = length bytes \<or> (i < length bytes \<and> \<not> cont (bytes ! i))"

definition slice_text :: "nat list \<Rightarrow> nat \<Rightarrow> nat \<Rightarrow> unicode option" where
  "slice_text bytes a b = (if is_char_boundary bytes a \<and> is_char_boundary bytes b then from_utf8 (take (b - a) (drop a bytes)) else None)"

definition cf_html_to_html :: "nat list \<Rightarrow> (clipboard_error, unicode) result option" where
  "cf_html_to_html data =
     (case from_utf8 data of
        None \<Rightarrow> Some (Err InvalidUtf8)
      | Some t \<Rightarrow>
          (case parse_header_value t ''StartFragment:'' of
             Inl e \<Rightarrow> Some (Err e)
           | Inr start_fragment \<Rightarrow>
               (case parse_header_value t ''EndFragment:'' of
                  Inl e \<Rightarrow> Some (Err e)
                | Inr end_fragment \<Rightarrow>
                    if start_fragment \<ge> end_fragment \<or> end_fragment > length data
                    then Some (Err (FormatConversion ''invalid CF_HTML offsets''))
                    else map_option Inr (slice_text data start_fragment end_fragment))))"

section \<open>Rich text\<close>

abbreviation rtf_magic :: "nat list" where
  "rtf_magic \<equiv> ascii (CHR 0x7B # CHR 0x5C # ''rtf'')"

text \<open>The loop over the bytes: the depth at the end, or \<open>None\<close> when it becomes negative.\<close>

fun brace_depth :: "int \<Rightarrow> nat list \<Rightarrow> int option" where
  "brace_depth d [] = Some d"
| "brace_depth d (b # bs) =
     (let d1 = (if b = 0x7B then d + 1 else if b = 0x7D then d - 1 else d)
      in if d1 < 0 then None else brace_depth d1 bs)"

definition validate_rtf :: "format_converter \<Rightarrow> nat list \<Rightarrow> (clipboard_error, nat list) result" where
  "validate_rtf f data =
     rbind (check_size f (length data)) (\<lambda>_.
       if take (length rtf_magic) data \<noteq> rtf_magic
       then Err (FormatConversion (''Invalid RTF: must start with '' @ CHR 0x7B # CHR 0x5C # ''rtf''))
       else case brace_depth 0 data of
              None \<Rightarrow> Err (FormatConversion ''Invalid RTF: unmatched closing brace'')
            | Some d \<Rightarrow> if d \<noteq> 0 then Err (FormatConversion ''Invalid RTF: unmatched braces'') else Ok data)"

definition is_rtf :: "nat list \<Rightarrow> bool" where
  "is_rtf data \<longleftrightarrow> take (length rtf_magic) data = rtf_magic"

text \<open>A UTF-16 unit as a signed number, in decimal.\<close>

definition unit_as_i16 :: "nat \<Rightarrow> int" where
  "unit_as_i16 u = (if u < 0x8000 then int u else int u - 0x10000)"

definition show_int :: "int \<Rightarrow> string" where
  "show_int i = (if i < 0 then CHR ''-'' # show_nat (nat (- i)) else show_nat (nat i))"

definition backslash :: char where "backslash = CHR 0x5C"

definition rtf_escape :: "nat \<Rightarrow> unicode" where
  "rtf_escape c =
     (if c = 0x5C then [0x5C, 0x5C]
      else if c = 0x7B then [0x5C, 0x7B]
      else if c = 0x7D then [0x5C, 0x7D]
      else if c = 10 then ascii (backslash # ''par'') @ [10]
      else if c = 13 then []
      else if c < 128 then [c]
      else concat (map (\<lambda>u. ascii (backslash # ''u'' @ show_int (unit_as_i16 u) @ ''?'')) (utf16_units c)))"

definition rtf_open :: unicode where
  "rtf_open = ascii (CHR 0x7B # backslash # ''rtf1'' @ backslash # ''ansi'' @ backslash # ''deff0'' @ [CHR 0x0A]) @
     ascii (CHR 0x7B # backslash # ''fonttbl'' @ CHR 0x7B # backslash # ''f0'' @ backslash # ''fswiss'' @ backslash # ''fcharset0 Arial;'' @
            [CHR 0x7D, CHR 0x7D, CHR 0x0A])"

definition text_to_rtf :: "format_converter \<Rightarrow> unicode \<Rightarrow> (clipboard_error, nat list) result" where
  "text_to_rtf f t =
     rbind (check_size f (utf8_len t)) (\<lambda>_. Ok (to_utf8 (rtf_open @ concat (map rtf_escape t) @ [0x7D])))"

definition is_alpha :: "nat \<Rightarrow> bool" where
  "is_alpha c \<longleftrightarrow> 65 \<le> c \<and> c \<le> 90 \<or> 97 \<le> c \<and> c \<le> 122"

definition is_digit :: "nat \<Rightarrow> bool" where
  "is_digit c \<longleftrightarrow> 48 \<le> c \<and> c \<le> 57"

text \<open>Taking one character from the iterator if it is the given one.\<close>

definition skip_one :: "nat \<Rightarrow> unicode \<Rightarrow> unicode" where
  "skip_one x cs = (case cs of c # r \<Rightarrow> if c = x then r else cs | [] \<Rightarrow> [])"

definition skip_fallback :: "nat \<Rightarrow> unicode \<Rightarrow> unicode" where
  "skip_fallback c cs =
     (if c \<noteq> 0x5C then cs
      else case cs of
             [] \<Rightarrow> []
           | escaped # r \<Rightarrow>
               if escaped = 0x27 then drop 2 r
               else if is_alpha escaped
               then skip_one 32 (dropWhile is_digit (skip_one 45 (dropWhile is_alpha r)))
               else r)"

text \<open>A control word, its parameter and what follows.\<close>

definition control_word :: "unicode \<Rightarrow> unicode \<times> int option \<times> unicode" where
  "control_word cs =
     (let word = takeWhile is_alpha cs; cs1 = dropWhile is_alpha cs;
          minus = (if cs1 \<noteq> [] \<and> hd cs1 = 45 then [45] else []); cs2 = skip_one 45 cs1;
          digits = takeWhile is_digit cs2; cs3 = dropWhile is_digit cs2
      in (word, unicode_parse_signed 32 (minus @ digits), skip_one 32 cs3))"

definition skip_destinations :: "unicode list" where
  "skip_destinations = map ascii [''fonttbl'', ''colortbl'', ''stylesheet'', ''info'', ''pict'', ''header'', ''footer'', ''footnote'',
     ''annotation'', ''field'', ''fldinst'', ''datafield'', ''docvar'', ''xe'', ''tc'', ''rxe'']"

record rtf_state =
  rtf_out :: unicode
  skip_depth :: "int option"
  group_depth :: int
  unicode_fallback_count :: nat
  fallback_chars_to_skip :: nat
  pending_high :: "nat option"

definition rtf_start :: rtf_state where
  "rtf_start = \<lparr>rtf_out = [], skip_depth = None, group_depth = 0, unicode_fallback_count = 1, fallback_chars_to_skip = 0, pending_high = None\<rparr>"

definition push :: "nat list \<Rightarrow> rtf_state \<Rightarrow> rtf_state" where
  "push cs s = s\<lparr>rtf_out := rtf_out s @ cs\<rparr>"

abbreviation replacement :: nat where "replacement \<equiv> 0xFFFD"

definition char_or_replacement :: "nat \<Rightarrow> nat" where
  "char_or_replacement n = (case char_from_u32 n of Some c \<Rightarrow> c | None \<Rightarrow> replacement)"

definition unicode_unit :: "nat \<Rightarrow> rtf_state \<Rightarrow> rtf_state" where
  "unicode_unit u s =
     (let s1 =
        (if high_surrogate u
         then (if pending_high s \<noteq> None then push [replacement] s else s)\<lparr>pending_high := Some u\<rparr>
         else if low_surrogate u
         then (case pending_high s of
                 Some high \<Rightarrow> push [char_or_replacement (0x10000 + (high - 0xD800) * 2 ^ 10 + (u - 0xDC00))] (s\<lparr>pending_high := None\<rparr>)
               | None \<Rightarrow> push [replacement] s)
         else push [char_or_replacement u] ((if pending_high s \<noteq> None then push [replacement] s else s)\<lparr>pending_high := None\<rparr>))
      in s1\<lparr>fallback_chars_to_skip := unicode_fallback_count s1\<rparr>)"

text \<open>\<open>u8::from_str_radix(_, 16)\<close> on at most two characters.\<close>

definition from_hex_digits :: "string \<Rightarrow> nat option" where
  "from_hex_digits h = (case h of [a] \<Rightarrow> hex_digit a | _ \<Rightarrow> from_hex2 h)"

text \<open>A control word outside skipped groups; the result includes what is left of the input.\<close>

definition handle_control :: "unicode \<Rightarrow> int option \<Rightarrow> unicode \<Rightarrow> rtf_state \<Rightarrow> unicode \<times> rtf_state" where
  "handle_control word parameter cs s =
     (if word \<in> {ascii ''par'', ascii ''line''} then (cs, push [10] s)
      else if word = ascii ''tab'' then (cs, push [9] s)
      else if word = ascii ''uc''
      then (cs, case parameter of Some v \<Rightarrow> if v \<ge> 0 then s\<lparr>unicode_fallback_count := nat v\<rparr> else s | None \<Rightarrow> s)
      else if word = ascii ''u''
      then (cs, case parameter of Some v \<Rightarrow> unicode_unit (nat (v mod 0x10000)) s | None \<Rightarrow> s)
      else if word = []
      then case cs of
             [] \<Rightarrow> ([], s)
           | escaped # r \<Rightarrow>
               if escaped \<in> {0x5C, 0x7B, 0x7D} then (r, push [escaped] s)
               else if escaped = 0x27
               then (drop 2 r,
                     case (if list_all (\<lambda>c. c < 128) (take 2 r) then from_hex_digits (map char_of (take 2 r)) else None) of
                       Some b \<Rightarrow> push [windows1252_to_char b] s | None \<Rightarrow> s)
               else if escaped = 0x2A then (r, s\<lparr>skip_depth := Some (group_depth s)\<rparr>)
               else (r, s)
      else (cs, s))"

lemma length_skip_one: "length (skip_one x cs) \<le> length cs"
  by (auto simp: skip_one_def split: list.splits)

lemma length_skip_fallback: "length (skip_fallback c cs) \<le> length cs"
proof (cases cs)
  case (Cons e r)
  have "length (skip_one 32 (dropWhile is_digit (skip_one 45 (dropWhile is_alpha r)))) \<le> length r"
    by (meson length_dropWhile_le length_skip_one order_trans)
  with Cons show ?thesis by (auto simp: skip_fallback_def)
qed (simp add: skip_fallback_def)

lemma length_control_word: "control_word cs = (w, p, r) \<Longrightarrow> length r \<le> length cs"
proof -
  have "length (skip_one 32 (dropWhile is_digit (skip_one 45 (dropWhile is_alpha cs)))) \<le> length cs"
    by (meson length_dropWhile_le length_skip_one order_trans)
  then show "control_word cs = (w, p, r) \<Longrightarrow> length r \<le> length cs" by (auto simp: control_word_def Let_def)
qed

lemma length_handle_control: "length (fst (handle_control w p cs s)) \<le> length cs"
  by (auto simp: handle_control_def split: list.split)

function rtf_loop :: "unicode \<Rightarrow> rtf_state \<Rightarrow> rtf_state" where
  "rtf_loop [] s = s"
| "rtf_loop (c # cs) s =
     (if fallback_chars_to_skip s > 0
      then rtf_loop (skip_fallback c cs) (s\<lparr>fallback_chars_to_skip := fallback_chars_to_skip s - 1\<rparr>)
      else if c = 0x7B then rtf_loop cs (s\<lparr>group_depth := group_depth s + 1\<rparr>)
      else if c = 0x7D
      then rtf_loop cs ((if skip_depth s = Some (group_depth s) then s\<lparr>skip_depth := None\<rparr> else s)\<lparr>group_depth := group_depth s - 1\<rparr>)
      else if c = 0x5C
      then (case control_word cs of (word, parameter, cs1) \<Rightarrow>
              if word \<in> set skip_destinations then rtf_loop cs1 (s\<lparr>skip_depth := Some (group_depth s)\<rparr>)
              else if skip_depth s \<noteq> None then rtf_loop cs1 s
              else rtf_loop (fst (handle_control word parameter cs1 s)) (snd (handle_control word parameter cs1 s)))
      else if skip_depth s = None \<and> c \<ge> 32 then rtf_loop cs (push [c] s)
      else rtf_loop cs s)"
  by pat_completeness auto
termination
  by (relation "measure (length \<circ> fst)")
    (auto simp: less_Suc_eq_le length_skip_fallback dest!: length_control_word[OF sym] intro: order_trans[OF length_handle_control])

definition rtf_to_text :: "format_converter \<Rightarrow> nat list \<Rightarrow> (clipboard_error, unicode) result" where
  "rtf_to_text f data =
     rbind (check_size f (length data)) (\<lambda>_.
       case from_utf8 data of
         None \<Rightarrow> Err InvalidUtf8
       | Some t \<Rightarrow>
           let s = rtf_loop t rtf_start
           in Ok (rtf_out (if pending_high s \<noteq> None then push [replacement] s else s)))"

section \<open>File lists\<close>

fun uri_decode :: "nat list \<Rightarrow> nat list" where
  "uri_decode (p # a # b # bs) =
     (if p = 0x25
      then (case from_hex2 [char_of a, char_of b] of
              Some byte \<Rightarrow> byte # uri_decode bs
            | None \<Rightarrow> p # uri_decode (a # b # bs))
      else p # uri_decode (a # b # bs))"
| "uri_decode bs = bs"

definition uri_percent_decode :: "unicode \<Rightarrow> (clipboard_error, unicode) result" where
  "uri_percent_decode t = (case from_utf8 (uri_decode (to_utf8 t)) of Some d \<Rightarrow> Ok d | None \<Rightarrow> Err InvalidUtf8)"

definition unreserved :: "nat \<Rightarrow> bool" where
  "unreserved b \<longleftrightarrow> is_alpha b \<or> is_digit b \<or> b \<in> {0x2D, 0x2E, 0x5F, 0x7E, 0x2F, 0x3A}"

definition uri_percent_encode :: "unicode \<Rightarrow> unicode" where
  "uri_percent_encode t = concat (map (\<lambda>b. if unreserved b then [b] else ascii (escape_byte b)) (to_utf8 t))"

definition file_scheme :: unicode where "file_scheme = ascii ''file://''"

definition uri_paths :: "unicode \<Rightarrow> unicode list" where
  "uri_paths uri_list =
     map (drop (length file_scheme))
       (filter (\<lambda>l. take (length file_scheme) l = file_scheme)
         (filter (\<lambda>l. take 1 l \<noteq> [0x23]) (unicode_lines uri_list)))"

fun hdrop_paths :: "unicode list \<Rightarrow> (clipboard_error, nat list) result" where
  "hdrop_paths [] = Ok []"
| "hdrop_paths (p # ps) =
     rbind (uri_percent_decode p) (\<lambda>d. rbind (hdrop_paths ps) (\<lambda>rest. Ok (units_le (encode_utf16 d) @ [0, 0] @ rest)))"

definition uri_list_to_hdrop :: "format_converter \<Rightarrow> unicode \<Rightarrow> (clipboard_error, nat list) result" where
  "uri_list_to_hdrop f uri_list =
     rbind (check_size f (utf8_len uri_list)) (\<lambda>_.
       let paths = uri_paths uri_list in
       if paths = [] then Err (FormatConversion ''no valid file URIs'')
       else rbind (hdrop_paths paths) (\<lambda>body.
            let result = le_bytes 4 20 @ le_bytes 4 0 @ le_bytes 4 0 @ le_bytes 4 0 @ le_bytes 4 1 @ body @ [0, 0]
            in rbind (check_size f (length result)) (\<lambda>_. Ok result)))"

text \<open>One wide string: its units up to a null, and what follows.\<close>

fun read_wide :: "nat list \<Rightarrow> nat list \<times> nat list" where
  "read_wide (a # b # bs) =
     (let c = a + 256 * b in if c = 0 then ([], bs) else (case read_wide bs of (us, r) \<Rightarrow> (c # us, r)))"
| "read_wide bs = ([], bs)"

lemma length_read_wide: "length (snd (read_wide bs)) \<le> length bs"
  by (induction bs rule: read_wide.induct) (auto simp: Let_def split: prod.splits)

lemma read_wide_consumes: "2 \<le> length bs \<Longrightarrow> length (snd (read_wide bs)) < length bs"
proof -
  assume "2 \<le> length bs"
  then obtain a b r where "bs = a # b # r" by (metis One_nat_def Suc_1 Suc_le_length_iff)
  with length_read_wide[of r] show ?thesis by (auto simp: Let_def split: prod.splits)
qed

function wide_paths :: "nat list \<Rightarrow> unicode list" where
  "wide_paths data =
     (if length data < 2 then []
      else let (us, r) = read_wide data in
           if us = [] then []
           else (case from_utf16 us of Some p \<Rightarrow> [p] | None \<Rightarrow> []) @ wide_paths r)"
  by pat_completeness auto
termination
  by (relation "measure length") (auto simp: not_less dest!: read_wide_consumes, metis snd_conv)

declare wide_paths.simps [simp del]

function ansi_paths :: "nat list \<Rightarrow> unicode list" where
  "ansi_paths data =
     (if data = [] then []
      else let p = takeWhile (\<lambda>b. b \<noteq> 0) data in
           if p = [] then []
           else (case from_utf8 p of Some t \<Rightarrow> [t] | None \<Rightarrow> []) @ ansi_paths (drop (length p + 1) data))"
  by pat_completeness auto
termination
  by (relation "measure length") auto

declare ansi_paths.simps [simp del]

fun unicode_join :: "unicode \<Rightarrow> unicode list \<Rightarrow> unicode" where
  "unicode_join sep [] = []"
| "unicode_join sep [t] = t"
| "unicode_join sep (t # ts) = t @ sep @ unicode_join sep ts"

definition hdrop_to_uri_list :: "format_converter \<Rightarrow> nat list \<Rightarrow> (clipboard_error, unicode) result" where
  "hdrop_to_uri_list f data =
     rbind (check_size f (length data)) (\<lambda>_.
       if length data < 20 then Err (FormatConversion ''HDROP too small'')
       else let p_files = from_le (take 4 data);
                f_wide = (from_le (take 4 (drop 16 data)) \<noteq> 0)
            in if p_files < 20 \<or> p_files \<ge> length data \<or> f_wide \<and> p_files mod 2 \<noteq> 0
               then Err (FormatConversion ''invalid pFiles offset'')
               else let file_data = drop p_files data;
                        paths = (if f_wide then wide_paths file_data else ansi_paths file_data)
                    in Ok (unicode_join [13, 10] (map (\<lambda>p. file_scheme @ uri_percent_encode p) paths)))"

section \<open>File names of any characters\<close>

text \<open>
  \<open>sanitize_filename_for_windows\<close> on all code points; for Latin-1 names it is the function of \<open>Wrdp_Clipboard_Sanitize\<close>.  The only characters above Latin-1 whose upper
  case is plain ASCII are the dotless i, the long s and the ligatures of f, i, l, s and t, and no reserved name contains F, I or S: a base name with a character above
  Latin-1 is never reserved.
\<close>

definition rsplit_dot :: "unicode \<Rightarrow> (unicode \<times> unicode) option" where
  "rsplit_dot s = (if 46 \<in> set s then Some (rev (tl (dropWhile (\<lambda>c. c \<noteq> 46) (rev s))), rev (takeWhile (\<lambda>c. c \<noteq> 46) (rev s))) else None)"

definition truncate_unicode :: "nat \<Rightarrow> unicode \<Rightarrow> unicode" where
  "truncate_unicode limit s =
     (if utf8_len s > limit
      then case rsplit_dot s of
             Some (base, ext) \<Rightarrow>
               if utf8_len (46 # ext) < limit - 1 then take (limit - utf8_len (46 # ext)) base @ 46 # ext else take limit s
           | None \<Rightarrow> take limit s
      else s)"

definition windows_code :: "nat \<Rightarrow> nat" where
  "windows_code c = (if c \<in> set (ascii WINDOWS_INVALID_CHARS) \<or> c < 32 \<or> 127 \<le> c \<and> c < 160 then 95 else c)"

definition strip_trailing_codes :: "unicode \<Rightarrow> unicode" where
  "strip_trailing_codes s = rev (dropWhile (\<lambda>c. c = 46 \<or> c = 32) (rev s))"

definition reserved_name :: "unicode \<Rightarrow> bool" where
  "reserved_name s \<longleftrightarrow> (let base = takeWhile (\<lambda>c. c \<noteq> 46) s in list_all (\<lambda>c. c < 256) base \<and> is_reserved (map char_of base))"

definition windows_filename :: "unicode \<Rightarrow> unicode" where
  "windows_filename filename =
     (if filename = [] then ascii ''_unnamed_''
      else let sanitized = strip_trailing_codes (map windows_code filename)
      in if sanitized = [] then ascii ''_unnamed_''
         else truncate_unicode 255 (if reserved_name sanitized then 95 # sanitized else sanitized))"

section \<open>File descriptors\<close>

definition FLAG_FILESIZE :: nat where "FLAG_FILESIZE = 0x40"

definition has_flag :: "nat \<Rightarrow> nat \<Rightarrow> bool" where
  "has_flag flags flag \<longleftrightarrow> and flags flag \<noteq> 0"

record file_descriptor =
  fd_flags :: nat
  fd_attributes :: nat
  fd_creation_time :: "nat option"
  fd_access_time :: "nat option"
  fd_write_time :: "nat option"
  fd_size :: "nat option"
  fd_name :: unicode

definition field :: "nat list \<Rightarrow> nat \<Rightarrow> nat \<Rightarrow> nat" where
  "field data off n = from_le (take n (drop off data))"

definition parse_utf16_filename :: "nat list \<Rightarrow> (clipboard_error, unicode) result" where
  "parse_utf16_filename data =
     (if length data mod 2 \<noteq> 0 then Err InvalidUtf16
      else case from_utf16 (takeWhile (\<lambda>u. u \<noteq> 0) (le_units data)) of Some t \<Rightarrow> Ok t | None \<Rightarrow> Err InvalidUtf16)"

definition descriptor_parse :: "nat list \<Rightarrow> (clipboard_error, file_descriptor) result" where
  "descriptor_parse data =
     (if length data < 592
      then Err (FormatConversion (''FILEDESCRIPTORW too small: '' @ show_nat (length data) @ '' bytes (need 592)''))
      else let flags = field data 0 4;
               timed = (\<lambda>flag off. if has_flag flags flag then Some (field data off 8) else None);
               size = (if has_flag flags FLAG_FILESIZE then Some (field data 64 4 * 2 ^ 32 + field data 68 4) else None)
           in rbind (parse_utf16_filename (take 520 (drop 72 data))) (\<lambda>name.
              Ok \<lparr>fd_flags = flags, fd_attributes = field data 36 4, fd_creation_time = timed 0x02 40, fd_access_time = timed 0x10 48,
                  fd_write_time = timed 0x20 56, fd_size = size, fd_name = name\<rparr>))"

fun parse_each :: "nat list \<Rightarrow> nat \<Rightarrow> nat \<Rightarrow> (clipboard_error, file_descriptor list) result" where
  "parse_each data i 0 = Ok []"
| "parse_each data i (Suc n) =
     rbind (descriptor_parse (take 592 (drop (4 + i * 592) data))) (\<lambda>d. rbind (parse_each data (i + 1) n) (\<lambda>ds. Ok (d # ds)))"

definition parse_list :: "nat list \<Rightarrow> (clipboard_error, file_descriptor list) result" where
  "parse_list data =
     (if length data < 4 then Err (FormatConversion ''FileGroupDescriptorW too small for count'')
      else let count = field data 0 4 in
           if count = 0 then Ok []
           else let expected_size = 4 + count * 592 in
                if length data < expected_size
                then Err (FormatConversion (''FileGroupDescriptorW too small: '' @ show_nat (length data) @ '' bytes (need '' @
                       show_nat expected_size @ '' for '' @ show_nat count @ '' files)''))
                else parse_each data 0 count)"

text \<open>What the file system says of a path: its metadata (directory, size) or an error, and its file name if it has one.\<close>

record file_info =
  fi_metadata :: "(string, bool \<times> u64) result"
  fi_name :: "unicode option"

text \<open>\<open>data[a..a + n].copy_from_slice(src)\<close> for a source of length \<open>n\<close>.\<close>

definition put :: "nat \<Rightarrow> nat list \<Rightarrow> nat list \<Rightarrow> nat list" where
  "put off src data = take off data @ src @ drop (off + length src) data"

definition descriptor_build :: "file_info \<Rightarrow> (clipboard_error, nat list) result" where
  "descriptor_build p =
     (case fi_metadata p of
        Inl e \<Rightarrow> Err (FormatConversion (''Failed to get file metadata: '' @ e))
      | Inr (is_dir, len) \<Rightarrow>
          (case fi_name p of
             None \<Rightarrow> Err (FormatConversion ''Invalid filename'')
           | Some raw_filename \<Rightarrow>
               let filename = windows_filename raw_filename;
                   units = take (min (length (encode_utf16 filename)) 259) (encode_utf16 filename)
               in Ok (put 72 (units_le units)
                     (put 68 (le_bytes 4 (unat len mod 2 ^ 32))
                     (put 64 (le_bytes 4 (unat len div 2 ^ 32))
                     (put 36 (le_bytes 4 (if is_dir then 0x10 else 0x80))
                     (put 0 (le_bytes 4 FLAG_FILESIZE) (replicate 592 0))))))))"

fun build_each :: "file_info list \<Rightarrow> (clipboard_error, nat list) result" where
  "build_each [] = Ok []"
| "build_each (p # ps) = rbind (descriptor_build p) (\<lambda>d. rbind (build_each ps) (\<lambda>ds. Ok (d @ ds)))"

definition build_list :: "file_info list \<Rightarrow> (clipboard_error, nat list) result" where
  "build_list paths = rbind (build_each paths) (\<lambda>ds. Ok (le_bytes 4 (length paths mod 2 ^ 32) @ ds))"

section \<open>Round trips of plain text\<close>

lemma check_size_ok: "check_size f n = Ok () \<longleftrightarrow> n \<le> fc_max_size f"
  by (auto simp: check_size_def)

lemma strip_null_snoc [simp]: "strip_null (xs @ [0]) = xs"
  by (simp add: strip_null_def)

lemma windows1252_table: "list_all (\<lambda>(c, b). windows1252_to_char b = c \<and> 160 > b \<and> 128 \<le> b) windows1252_encoding"
  by (simp add: windows1252_encoding_def windows1252_to_char_def windows1252_decoding_def)

lemma cp437_high_bytes: "list_all (\<lambda>(c, b). 128 \<le> b \<and> 128 \<le> c) cp437_encoding"
  by (simp add: cp437_encoding_def)

lemma cp437_table: "list_all (\<lambda>(c, b). CP437_HIGH ! (b - 128) = (if c = 0xB7 then 0x2219 else c)) cp437_encoding"
  by (simp add: cp437_encoding_def CP437_HIGH_def)

definition windows1252_chars :: "nat set" where
  "windows1252_chars = {..<128} \<union> {160..255} \<union> fst ` set windows1252_encoding"

definition cp437_chars :: "nat set" where
  "cp437_chars = {..<127} \<union> fst ` set cp437_encoding"

lemma windows1252_round_trip:
  "windows1252_to_char (char_to_windows1252 c) = (if c \<in> windows1252_chars then c else 63)"
proof (cases "map_of windows1252_encoding c")
  case None
  then have "c \<notin> fst ` set windows1252_encoding" by (simp add: map_of_eq_None_iff)
  then show ?thesis
    by (auto simp: char_to_windows1252_def windows1252_to_char_def windows1252_chars_def None char_from_u32_def is_scalar_def)
next
  case (Some b)
  then have "(c, b) \<in> set windows1252_encoding" by (rule map_of_SomeD)
  with windows1252_table have "windows1252_to_char b = c" "c \<in> fst ` set windows1252_encoding" by (force simp: list_all_iff)+
  then show ?thesis using Some by (auto simp: char_to_windows1252_def windows1252_chars_def windows1252_to_char_def)
qed

lemma cp437_round_trip:
  "cp437_to_char (char_to_cp437 c) = (if c = 0xB7 then 0x2219 else if c \<in> cp437_chars then c else 63)"
proof (cases "map_of cp437_encoding c")
  case None
  then have "c \<notin> fst ` set cp437_encoding" by (simp add: map_of_eq_None_iff)
  moreover have "0xB7 \<in> fst ` set cp437_encoding" by (simp add: cp437_encoding_def)
  ultimately have "c \<noteq> 0xB7" "c \<notin> fst ` set cp437_encoding" by auto
  then show ?thesis
    by (auto simp: char_to_cp437_def cp437_to_char_def cp437_chars_def None char_from_u32_def is_scalar_def)
next
  case (Some b)
  then have m: "(c, b) \<in> set cp437_encoding" by (rule map_of_SomeD)
  then have "CP437_HIGH ! (b - 128) = (if c = 0xB7 then 0x2219 else c)" "128 \<le> b" "128 \<le> c"
    using cp437_table cp437_high_bytes by (auto simp: list_all_iff)
  moreover have "c \<in> fst ` set cp437_encoding" using m by force
  ultimately show ?thesis using Some by (simp add: char_to_cp437_def cp437_chars_def cp437_to_char_def)
qed

lemma le_units_terminated:
  assumes "list_all is_scalar t" shows "le_units (units_le (encode_utf16 t) @ [0, 0]) = encode_utf16 t @ [0]"
proof -
  have "units_le (encode_utf16 t) @ [0, 0] = units_le (encode_utf16 t @ [0])" by (simp add: le_bytes_2)
  then show ?thesis using le_units_le[of "encode_utf16 t @ [0]"] encode_utf16_less[OF assms] by simp
qed

text \<open>
  Plain text survives the clipboard formats.  As UTF-16 every text comes back unchanged.  As Windows-1252 or code page 437 each character comes back
  unchanged if the code page has it, and as a question mark otherwise, with one exception: the middle dot is
  written as byte 249 of code page 437 and comes back as another character, the bullet operator.
\<close>

theorem text_round_trips:
  assumes "list_all is_scalar t" "utf8_len t \<le> fc_max_size f" "2 * length (encode_utf16 t) + 2 \<le> fc_max_size f" "length t + 1 \<le> fc_max_size f"
  shows "rbind (text_to_unicode f t) (unicode_to_text f) = Ok t \<and>
    rbind (text_to_ansi f t) (ansi_to_text f) = Ok (map (\<lambda>c. if c \<in> windows1252_chars then c else 63) t) \<and>
    rbind (text_to_oem f t) (oem_to_text f) = Ok (map (\<lambda>c. if c = 0xB7 then 0x2219 else if c \<in> cp437_chars then c else 63) t)"
  using assms
  by (simp add: text_to_unicode_def unicode_to_text_def text_to_ansi_def ansi_to_text_def text_to_oem_def oem_to_text_def
      check_size_def le_units_terminated from_encode_utf16 windows1252_round_trip cp437_round_trip)

theorem text_round_trips_witness:
  "rbind (text_to_oem converter_new [0x41, 0xB7, 0x20AC]) (oem_to_text converter_new) = Ok [0x41, 0x2219, 63]"
proof -
  have "list_all is_scalar [0x41, 0xB7, 0x20AC]" "utf8_len [0x41, 0xB7, 0x20AC] \<le> fc_max_size converter_new"
    "2 * length (encode_utf16 [0x41, 0xB7, 0x20AC]) + 2 \<le> fc_max_size converter_new" "length [0x41, 0xB7, 0x20AC :: nat] + 1 \<le> fc_max_size converter_new"
    by (simp_all add: is_scalar_def converter_new_def utf8_char_def encode_utf16_def utf16_units_def)
  moreover have "0x20AC \<notin> cp437_chars" "0x41 \<in> cp437_chars" by (simp_all add: cp437_chars_def cp437_encoding_def)
  ultimately show ?thesis using text_round_trips[of "[0x41, 0xB7, 0x20AC]" converter_new] by simp
qed

section \<open>Round trip of HTML\<close>

lemma length_show_nat: "n < 10 ^ Suc k \<Longrightarrow> length (show_nat n) \<le> Suc k"
proof (induction k arbitrary: n)
  case 0
  then show ?case by (simp add: show_nat.simps[of n])
next
  case (Suc k)
  then have "n div 10 < 10 ^ Suc k" by (simp add: less_mult_imp_div_less)
  with Suc.IH[of "n div 10"] show ?case by (simp add: show_nat.simps[of n])
qed

lemma length_pad8: "n < 10 ^ 8 \<Longrightarrow> length (pad8 n) = 8"
  using length_show_nat[of n 7] by (simp add: pad8_def)

lemma digits_value_zeros: "digits_value 0 (replicate k CHR ''0'' @ s) = digits_value 0 s"
  by (induction k) (simp_all add: char_is_ascii_digit_def)

lemma parse_pad8:
  assumes "n < 10 ^ 8" shows "parse_unsigned 64 (pad8 n) = Some n"
proof -
  have d: "list_all char_is_ascii_digit (pad8 n)"
    using show_nat_digits by (auto simp: pad8_def list_all_iff char_is_ascii_digit_def)
  have "pad8 n \<noteq> []" using length_pad8[OF assms] by auto
  then obtain c cs where p: "pad8 n = c # cs" by (cases "pad8 n") auto
  with d have "c \<noteq> CHR ''+''" by (auto simp: char_is_ascii_digit_def)
  moreover have "parse_nat (pad8 n) = Some n" by (simp add: parse_nat_def pad8_def digits_value_zeros digits_value_show)
  moreover have "n < 2 ^ 64" using assms by simp
  ultimately show ?thesis by (simp add: parse_unsigned_def p)
qed

lemma pad8_chars:
  assumes "c \<in> set (ascii (pad8 n))" shows "48 \<le> c" "c \<le> 57"
  using assms show_nat_digits by (auto simp: pad8_def ascii_def char_is_ascii_digit_def split: if_splits)

lemma unicode_line: "list_all (\<lambda>c. 14 \<le> c) l \<Longrightarrow> unicode_lines (l @ 13 # 10 # t) = l # unicode_lines t"
proof (rule unicode_lines_line)
  assume l: "list_all (\<lambda>c. 14 \<le> c) l"
  then show "10 \<notin> set l" by (auto simp: list_all_iff)
  from l show "l = [] \<or> last l \<noteq> 13" by (cases l rule: rev_cases) auto
qed

lemma ascii_append [simp]: "ascii (s @ t) = ascii s @ ascii t" by (simp add: ascii_def)

lemma length_ascii [simp]: "length (ascii s) = length s" by (simp add: ascii_def)

lemma header_lines:
  assumes "list_all (\<lambda>c. 14 \<le> c) (ascii a)" "list_all (\<lambda>c. 14 \<le> c) (ascii b)" "list_all (\<lambda>c. 14 \<le> c) (ascii c)" "list_all (\<lambda>c. 14 \<le> c) (ascii d)"
  shows "unicode_lines (ascii (cf_html_header a b c d) @ t) =
    ascii ''Version:0.9'' # (ascii ''StartHTML:'' @ ascii a) # (ascii ''EndHTML:'' @ ascii b) #
    (ascii ''StartFragment:'' @ ascii c) # (ascii ''EndFragment:'' @ ascii d) # unicode_lines t"
proof -
  have keys: "list_all (\<lambda>c. 14 \<le> c) (ascii ''Version:0.9'')" "list_all (\<lambda>c. 14 \<le> c) (ascii ''StartHTML:'')"
    "list_all (\<lambda>c. 14 \<le> c) (ascii ''EndHTML:'')" "list_all (\<lambda>c. 14 \<le> c) (ascii ''StartFragment:'')" "list_all (\<lambda>c. 14 \<le> c) (ascii ''EndFragment:'')"
    by (simp_all add: ascii_def)
  have eq: "ascii (cf_html_header a b c d) @ t =
    ascii ''Version:0.9'' @ 13 # 10 # ((ascii ''StartHTML:'' @ ascii a) @ 13 # 10 # ((ascii ''EndHTML:'' @ ascii b) @ 13 # 10 #
    ((ascii ''StartFragment:'' @ ascii c) @ 13 # 10 # ((ascii ''EndFragment:'' @ ascii d) @ 13 # 10 # t))))"
    by (simp add: cf_html_header_def ascii_def)
  have line: "list_all (\<lambda>c. 14 \<le> c) l \<Longrightarrow> list_all (\<lambda>c. 14 \<le> c) m \<Longrightarrow> unicode_lines ((l @ m) @ 13 # 10 # u) = (l @ m) # unicode_lines u" for l m u
    by (rule unicode_line) simp
  show ?thesis unfolding eq unicode_line[OF keys(1)] line[OF keys(2) assms(1)] line[OF keys(3) assms(2)] line[OF keys(4) assms(3)]
      line[OF keys(5) assms(4)] by simp
qed

lemma trim_pad8: "unicode_trim (ascii (pad8 n)) = ascii (pad8 n)"
proof -
  have "\<not> unicode_whitespace c" if "c \<in> set (ascii (pad8 n))" for c
    using pad8_chars[OF that] by (simp add: unicode_whitespace_def)
  then have "dropWhile unicode_whitespace (ascii (pad8 n)) = ascii (pad8 n)" "dropWhile unicode_whitespace (rev (ascii (pad8 n))) = rev (ascii (pad8 n))"
    by (metis dropWhile_eq_self_iff hd_in_set, metis dropWhile_eq_self_iff hd_in_set set_rev)
  then show ?thesis by (simp add: unicode_trim_def)
qed

lemma parse_ascii: "list_all (\<lambda>c. c < 128) (ascii s) \<Longrightarrow> unicode_parse_unsigned w (ascii s) = parse_unsigned w s"
  by (simp add: unicode_parse_unsigned_def ascii_def comp_def)

lemma parse_padded: "n < 10 ^ 8 \<Longrightarrow> unicode_parse_unsigned 64 (unicode_trim (ascii (pad8 n))) = Some n"
proof -
  assume n: "n < 10 ^ 8"
  have "list_all (\<lambda>c. c < 128) (ascii (pad8 n))" using pad8_chars(2)[of _ n] by (fastforce simp: list_all_iff)
  with n show ?thesis by (simp add: trim_pad8 parse_ascii parse_pad8)
qed

lemma parse_header_line:
  assumes "find (\<lambda>l. take (length key) l = ascii key) (unicode_lines t) = Some (ascii key @ ascii (pad8 n))" "n < 10 ^ 8"
  shows "parse_header_value t key = Ok n"
  using assms by (simp add: parse_header_value_def parse_padded)

lemma parse_header_fragment:
  assumes "c < 10 ^ 8" "d < 10 ^ 8"
  shows "parse_header_value (ascii (cf_html_header (pad8 a) (pad8 b) (pad8 c) (pad8 d)) @ t) ''StartFragment:'' = Ok c"
    "parse_header_value (ascii (cf_html_header (pad8 a) (pad8 b) (pad8 c) (pad8 d)) @ t) ''EndFragment:'' = Ok d"
proof -
  have p: "list_all (\<lambda>c. 14 \<le> c) (ascii (pad8 n))" for n using pad8_chars(1)[of _ n] by (fastforce simp: list_all_iff)
  note lines = header_lines[OF p p p p, of a b c d t]
  show "parse_header_value (ascii (cf_html_header (pad8 a) (pad8 b) (pad8 c) (pad8 d)) @ t) ''StartFragment:'' = Ok c"
    by (rule parse_header_line[OF _ assms(1)], unfold lines) (simp add: ascii_def)
  show "parse_header_value (ascii (cf_html_header (pad8 a) (pad8 b) (pad8 c) (pad8 d)) @ t) ''EndFragment:'' = Ok d"
    by (rule parse_header_line[OF _ assms(2)], unfold lines) (simp add: ascii_def)
qed

lemma utf8_char_start: "is_scalar c \<Longrightarrow> \<exists>b bs. utf8_char c = b # bs \<and> \<not> cont b"
  by (auto simp: utf8_char_def cont_def is_scalar_def)

lemma boundary_after: "bs = [] \<or> \<not> cont (hd bs) \<Longrightarrow> is_char_boundary (pre @ bs) (length pre)"
  by (cases bs) (auto simp: is_char_boundary_def)

lemma slice_middle:
  assumes "list_all is_scalar t" "t \<noteq> []" "post = [] \<or> \<not> cont (hd post)"
  shows "slice_text (pre @ to_utf8 t @ post) (length pre) (length pre + utf8_len t) = Some t"
proof -
  obtain c u where t: "t = c # u" "is_scalar c" using assms(1,2) by (cases t) auto
  with utf8_char_start have "\<not> cont (hd (to_utf8 t @ post))" by fastforce
  then have "is_char_boundary (pre @ to_utf8 t @ post) (length pre)" by (intro boundary_after) simp
  moreover have "is_char_boundary ((pre @ to_utf8 t) @ post) (length (pre @ to_utf8 t))" using assms(3) by (rule boundary_after)
  ultimately show ?thesis using assms(1) by (simp add: slice_text_def from_to_utf8)
qed

lemma header_ascii: "list_all (\<lambda>c. c < 128) (ascii (cf_html_header (pad8 a) (pad8 b) (pad8 c) (pad8 d)))"
proof -
  have "list_all (\<lambda>c. c < 128) (ascii (pad8 n))" for n using pad8_chars(2)[of _ n] by (fastforce simp: list_all_iff)
  then show ?thesis by (simp add: cf_html_header_def ascii_def)
qed

lemma ascii_scalar: "list_all (\<lambda>c. c < 128) t \<Longrightarrow> list_all is_scalar t"
  by (auto simp: list_all_iff is_scalar_def)

lemma cf_html_fragment:
  assumes "from_utf8 data = Some t" "parse_header_value t ''StartFragment:'' = Ok s" "parse_header_value t ''EndFragment:'' = Ok e"
    "s < e" "e \<le> length data" "slice_text data s e = Some html"
  shows "cf_html_to_html data = Some (Ok html)"
  using assms by (simp add: cf_html_to_html_def)

text \<open>
  HTML survives the CF_HTML format: what \<open>html_to_cf_html\<close> builds, \<open>cf_html_to_html\<close> takes apart to the same text, for
  every non-empty text below about a hundred megabytes, without a panic.
\<close>

theorem cf_html_round_trip:
  assumes html: "list_all is_scalar html" "html \<noteq> []" and size: "utf8_len html \<le> fc_max_size f" "utf8_len html < 99000000"
  shows "\<exists>data. html_to_cf_html f html = Ok data \<and> cf_html_to_html data = Some (Ok html)"
proof -
  let ?pre = "''<html><body><!--StartFragment-->''" and ?post = "''<!--EndFragment--></body></html>''"
  let ?n = "length (cf_html_header ''XXXXXXXX'' ''XXXXXXXX'' ''XXXXXXXX'' ''XXXXXXXX'')"
  let ?s = "?n + length ?pre" let ?e = "?s + utf8_len html"
  have n: "?n = 97" by (simp add: cf_html_header_def)
  let ?h = "cf_html_header (pad8 ?n) (pad8 (?e + length ?post)) (pad8 ?s) (pad8 ?e)"
  have small: "?s < 10 ^ 8" "?e < 10 ^ 8" "?e + length ?post < 10 ^ 8" "?n < 10 ^ 8" using size n by simp_all
  let ?t = "ascii ?h @ ascii ?pre @ html @ ascii ?post"
  have plain: "list_all (\<lambda>c. c < 128) (ascii ?h @ ascii ?pre)" "list_all (\<lambda>c. c < 128) (ascii ?post)"
    using header_ascii by (simp_all add: ascii_def)
  then have data: "to_utf8 ?t = (ascii ?h @ ascii ?pre) @ to_utf8 html @ ascii ?post" by (simp add: to_utf8_ascii)
  have "length ?h = ?n" using small by (simp add: cf_html_header_def length_pad8)
  then have len: "length (ascii ?h @ ascii ?pre) = ?s" by simp
  have "from_utf8 (to_utf8 ?t) = Some ?t" using plain html(1) by (intro from_to_utf8) (simp add: ascii_scalar)
  moreover have "parse_header_value ?t ''StartFragment:'' = Ok ?s" "parse_header_value ?t ''EndFragment:'' = Ok ?e"
    using small by (intro parse_header_fragment; simp)+
  moreover have "?s < ?e" using html utf8_char_start by (cases html) fastforce+
  moreover have "?e \<le> length (to_utf8 ?t)" unfolding data using len by simp
  moreover have "slice_text (to_utf8 ?t) ?s ?e = Some html"
    using slice_middle[OF html, of "ascii ?post" "ascii ?h @ ascii ?pre"] unfolding data len by (simp add: ascii_def cont_def)
  ultimately have "cf_html_to_html (to_utf8 ?t) = Some (Ok html)"
    by (rule cf_html_fragment)
  moreover have "html_to_cf_html f html = Ok (to_utf8 ?t)"
    using size by (simp add: html_to_cf_html_def check_size_def Let_def)
  ultimately show ?thesis by blast
qed

theorem cf_html_round_trip_witness:
  "\<exists>data. html_to_cf_html converter_new [0x3C, 0xE9] = Ok data \<and> cf_html_to_html data = Some (Ok [0x3C, 0xE9])"
  by (rule cf_html_round_trip) (simp_all add: is_scalar_def converter_new_def utf8_char_def)

text \<open>Offsets that come from a client are not checked to lie between characters; those that do not make the conversion panic.\<close>

lemma cf_html_offset_inside_character:
  assumes "from_utf8 data = Some t" "parse_header_value t ''StartFragment:'' = Ok s" "parse_header_value t ''EndFragment:'' = Ok e"
    "s < e" "e \<le> length data" "\<not> is_char_boundary data s \<or> \<not> is_char_boundary data e"
  shows "cf_html_to_html data = None"
  using assms by (auto simp: cf_html_to_html_def slice_text_def)

section \<open>Round trip of rich text\<close>

text \<open>Outside skipped groups, with no fallback character to skip and one fallback character after each unit.\<close>

definition rtf_ready :: "rtf_state \<Rightarrow> bool" where
  "rtf_ready s \<longleftrightarrow> fallback_chars_to_skip s = 0 \<and> skip_depth s = None \<and> unicode_fallback_count s = 1"

lemma ascii_simps: "ascii [] = []" "ascii (c # s) = of_char c # ascii s"
  by (simp_all add: ascii_def)

lemma is_digit_show: "c \<in> set (ascii (show_nat n)) \<Longrightarrow> is_digit c"
  using show_nat_digits by (auto simp: ascii_def is_digit_def char_is_ascii_digit_def)

lemma takeWhile_digits:
  "takeWhile is_digit (ascii (show_nat n) @ 0x3F # cs) = ascii (show_nat n)"
  "dropWhile is_digit (ascii (show_nat n) @ 0x3F # cs) = 0x3F # cs"
  using is_digit_show by (simp_all add: takeWhile_append2 dropWhile_append2 is_digit_def)

lemma parse_signed_show_int:
  assumes "- (2 ^ 15) \<le> i" "i < 2 ^ 15" shows "unicode_parse_signed 32 (ascii (show_int i)) = Some i"
proof -
  have a: "list_all (\<lambda>c. c < 128) (ascii (show_int i))" 
    using is_digit_show by (fastforce simp: show_int_def list_all_iff ascii_def is_digit_def)
  obtain c cs where s: "show_nat (nat i) = c # cs" by (cases "show_nat (nat i)") auto
  then have "c \<noteq> CHR ''-''" using show_nat_digits[of c "nat i"] by (auto simp: char_is_ascii_digit_def)
  moreover have "parse_unsigned 31 (show_nat (nat i)) = Some (nat i)" using assms by (intro parse_unsigned_show) simp
  moreover have "nat (- i) \<le> 2147483648" using assms by simp
  ultimately have "parse_signed 32 (show_int i) = Some i"
    using assms s by (simp add: parse_signed_def show_int_def parse_nat_show)
  with a show ?thesis by (simp add: unicode_parse_signed_def ascii_def comp_def)
qed

lemma control_word_unit:
  assumes "u < 0x10000"
  shows "control_word (ascii (''u'' @ show_int (unit_as_i16 u) @ ''?'') @ cs) = (ascii ''u'', Some (unit_as_i16 u), 0x3F # cs)"
proof -
  have p: "unicode_parse_signed 32 (ascii (show_int (unit_as_i16 u))) = Some (unit_as_i16 u)"
    using assms by (intro parse_signed_show_int) (auto simp: unit_as_i16_def)
  show ?thesis
  proof (cases "unit_as_i16 u < 0")
    case True
    then show ?thesis using p
      by (simp add: control_word_def show_int_def ascii_simps is_alpha_def skip_one_def takeWhile_digits)
  next
    case False
    obtain c r where r: "ascii (show_nat (nat (unit_as_i16 u))) = c # r" by (cases "show_nat (nat (unit_as_i16 u))") (auto simp: ascii_def)
    then have "is_digit c" using is_digit_show[of c] by (metis list.set_intros(1))
    then have "\<not> is_alpha c" "c \<noteq> 45" by (auto simp: is_digit_def is_alpha_def)
    then show ?thesis using p False takeWhile_digits[of "nat (unit_as_i16 u)" cs] r
      by (simp add: control_word_def show_int_def ascii_simps is_alpha_def[of 117] skip_one_def)
  qed
qed

lemma skip_destinations_words: "ascii ''u'' \<notin> set skip_destinations" "ascii ''par'' \<notin> set skip_destinations" "[] \<notin> set skip_destinations"
  by (simp_all add: skip_destinations_def ascii_def)

lemma rtf_unit:
  assumes "u < 0x10000" "rtf_ready s"
  shows "rtf_loop (ascii (backslash # ''u'' @ show_int (unit_as_i16 u) @ ''?'') @ cs) s = rtf_loop cs ((unicode_unit u s)\<lparr>fallback_chars_to_skip := 0\<rparr>)"
proof -
  have "nat (unit_as_i16 u mod 0x10000) = u" using assms(1) by (auto simp: unit_as_i16_def)
  then have "handle_control (ascii ''u'') (Some (unit_as_i16 u)) r s = (r, unicode_unit u s)" for r
    by (simp add: handle_control_def ascii_def)
  moreover have "fallback_chars_to_skip (unicode_unit u s) = 1"
    using assms(2) by (auto simp: unicode_unit_def rtf_ready_def push_def Let_def split: option.splits)
  moreover have "ascii (backslash # w) = 0x5C # ascii w" for w by (simp add: ascii_def backslash_def)
  ultimately show ?thesis
    using assms(2) control_word_unit[OF assms(1), of cs] skip_destinations_words(1)
    by (simp add: rtf_ready_def skip_fallback_def)
qed

text \<open>The characters that come back: line feeds and everything that is not a control character.\<close>

definition rtf_keeps :: "nat \<Rightarrow> bool" where
  "rtf_keeps c \<longleftrightarrow> c = 10 \<or> 32 \<le> c"

lemma rtf_ready_push [simp]: "rtf_ready (push cs s) = rtf_ready s" "pending_high (push cs s) = pending_high s"
  by (simp_all add: rtf_ready_def push_def)

lemma rtf_symbol:
  assumes "rtf_ready s" "x \<in> {0x5C, 0x7B, 0x7D}" shows "rtf_loop (0x5C # x # cs) s = rtf_loop cs (push [x] s)"
proof -
  have "control_word (x # cs) = ([], None, x # cs)"
    using assms(2) by (auto simp: control_word_def is_alpha_def is_digit_def skip_one_def unicode_parse_signed_def parse_signed_def)
  moreover have "handle_control [] None (x # cs) s = (cs, push [x] s)" using assms(2) by (auto simp: handle_control_def ascii_def)
  ultimately show ?thesis using assms(1) skip_destinations_words(3) by (simp add: rtf_ready_def)
qed

lemma rtf_par:
  assumes "rtf_ready s" shows "rtf_loop (ascii (backslash # ''par'') @ 10 # cs) s = rtf_loop cs (push [10] s)"
proof -
  have "control_word (ascii ''par'' @ 10 # cs) = (ascii ''par'', None, 10 # cs)"
    by (simp add: control_word_def is_alpha_def is_digit_def skip_one_def unicode_parse_signed_def parse_signed_def ascii_simps)
  moreover have "handle_control (ascii ''par'') None r s = (r, push [10] s)" for r by (simp add: handle_control_def)
  moreover have "rtf_loop (10 # cs) (push [10] s) = rtf_loop cs (push [10] s)" using assms by (simp add: rtf_ready_def push_def)
  moreover have "ascii (backslash # ''par'') = 0x5C # ascii ''par''" by (simp add: ascii_simps backslash_def)
  ultimately show ?thesis using assms skip_destinations_words(2) by (simp add: rtf_ready_def)
qed

lemma rtf_escape_step:
  assumes "is_scalar c" "rtf_ready s" "pending_high s = None"
  shows "rtf_loop (rtf_escape c @ cs) s = rtf_loop cs (push (filter rtf_keeps [c]) s)"
proof -
  have no_out: "push [] s = s" by (simp add: push_def)
  consider "c \<in> {0x5C, 0x7B, 0x7D}" | "c = 10" | "c = 13" | "c < 128" "c \<notin> {0x5C, 0x7B, 0x7D, 10, 13}" | "128 \<le> c" "c < 0x10000" | "0x10000 \<le> c"
    by fastforce
  then show ?thesis
  proof cases
    case 1
    then show ?thesis using rtf_symbol[OF assms(2), of c] by (auto simp: rtf_escape_def rtf_keeps_def)
  next
    case 2
    then show ?thesis using rtf_par[OF assms(2)] by (simp add: rtf_escape_def rtf_keeps_def)
  next
    case 3
    then show ?thesis by (simp add: rtf_escape_def rtf_keeps_def no_out)
  next
    case 4
    then show ?thesis using assms(2) by (simp add: rtf_escape_def rtf_ready_def rtf_keeps_def no_out)
  next
    case 5
    then have "\<not> high_surrogate c" "\<not> low_surrogate c" using assms(1) by (auto simp: is_scalar_def high_surrogate_def low_surrogate_def)
    then have "(unicode_unit c s)\<lparr>fallback_chars_to_skip := 0\<rparr> = push [c] s"
      using assms by (simp add: unicode_unit_def char_or_replacement_def char_from_u32_def push_def rtf_ready_def)
    then show ?thesis using 5 rtf_unit[OF _ assms(2), of c cs] by (simp add: rtf_escape_def utf16_units_def rtf_keeps_def)
  next
    case 6
    define hi lo where "hi = 0xD800 + (c - 0x10000) div 1024" and "lo = 0xDC00 + (c - 0x10000) mod 1024"
    note pair = utf16_pair[OF assms(1) 6, folded hi_def lo_def]
    let ?h = "(unicode_unit hi s)\<lparr>fallback_chars_to_skip := 0\<rparr>"
    have h: "?h = s\<lparr>pending_high := Some hi\<rparr>" using pair assms by (simp add: unicode_unit_def rtf_ready_def)
    have nl: "\<not> high_surrogate lo" using pair(2) by (auto simp: high_surrogate_def low_surrogate_def)
    have "(unicode_unit lo ?h)\<lparr>fallback_chars_to_skip := 0\<rparr> = push [c] s"
      unfolding h using pair nl assms by (simp add: unicode_unit_def char_or_replacement_def char_from_u32_def push_def rtf_ready_def)
    moreover have "rtf_ready ?h" using assms(2) by (simp add: h rtf_ready_def)
    ultimately have "rtf_loop (rtf_escape c @ cs) s = rtf_loop cs (push [c] s)"
      using 6 rtf_unit[OF _ assms(2), of hi] rtf_unit[of lo ?h cs] pair(4,5)
      by (simp add: rtf_escape_def utf16_units_def flip: hi_def lo_def)
    then show ?thesis using 6 by (simp add: rtf_keeps_def)
  qed
qed

lemma rtf_escapes:
  assumes "list_all is_scalar t" "rtf_ready s" "pending_high s = None"
  shows "rtf_loop (concat (map rtf_escape t) @ cs) s = rtf_loop cs (push (filter rtf_keeps t) s)"
  using assms by (induction t arbitrary: s) (simp_all add: rtf_escape_step push_def rtf_ready_def)

lemma rtf_prologue: "rtf_loop (rtf_open @ cs) rtf_start = rtf_loop cs (rtf_start\<lparr>group_depth := 1\<rparr>)"
  by (simp add: rtf_open_def rtf_start_def ascii_simps backslash_def control_word_def is_alpha_def is_digit_def skip_one_def skip_destinations_def
      unicode_parse_signed_def parse_signed_def parse_unsigned_def parse_nat_def char_is_ascii_digit_def handle_control_def)

lemma show_int_ascii: "list_all (\<lambda>c. c < 128) (ascii (show_int i))"
  using is_digit_show by (fastforce simp: show_int_def list_all_iff ascii_def is_digit_def)

lemma rtf_escape_ascii: "list_all (\<lambda>c. c < 128) (rtf_escape c)"
proof -
  have "list_all (\<lambda>c. c < 128) (ascii (backslash # ''u'' @ show_int i @ ''?''))" for i
    using show_int_ascii[of i] by (simp add: ascii_simps backslash_def)
  then show ?thesis by (simp add: rtf_escape_def utf16_units_def ascii_simps backslash_def)
qed

lemma rtf_escapes_ascii: "list_all (\<lambda>c. c < 128) (concat (map rtf_escape t))"
  by (induction t) (simp_all add: rtf_escape_ascii)

lemma rtf_open_ascii: "list_all (\<lambda>c. c < 128) rtf_open"
  by (simp add: rtf_open_def ascii_simps backslash_def)

lemma rtf_bytes: "to_utf8 (rtf_open @ concat (map rtf_escape t) @ [0x7D]) = rtf_open @ concat (map rtf_escape t) @ [0x7D]"
  by (rule to_utf8_ascii) (simp add: rtf_escapes_ascii rtf_open_ascii)

text \<open>
  Rich text made from a text reads back as that text without its control characters: every visible character and
  every line feed comes back, characters outside the basic plane through a surrogate pair, while tabs and carriage returns are lost.
  What \<open>text_to_rtf\<close> writes always begins as rich text must and is plain ASCII.
\<close>

theorem rtf_round_trip:
  assumes "list_all is_scalar t" "utf8_len t \<le> fc_max_size f" "length (rtf_open @ concat (map rtf_escape t) @ [0x7D]) \<le> fc_max_size f"
  shows "\<exists>data. text_to_rtf f t = Ok data \<and> is_rtf data \<and> list_all (\<lambda>b. b < 128) data \<and> rtf_to_text f data = Ok (filter (\<lambda>c. c = 10 \<or> 32 \<le> c) t)"
proof -
  let ?data = "rtf_open @ concat (map rtf_escape t) @ [0x7D]"
  have a: "list_all (\<lambda>b. b < 128) ?data" by (simp add: rtf_escapes_ascii rtf_open_ascii)
  have "rtf_ready (rtf_start\<lparr>group_depth := 1\<rparr>)" "pending_high (rtf_start\<lparr>group_depth := 1\<rparr>) = None"
    by (simp_all add: rtf_ready_def rtf_start_def)
  then have "rtf_loop ?data rtf_start = rtf_loop [0x7D] (push (filter rtf_keeps t) (rtf_start\<lparr>group_depth := 1\<rparr>))"
    by (simp only: rtf_prologue rtf_escapes[OF assms(1)])
  then have "rtf_loop ?data rtf_start = push (filter rtf_keeps t) rtf_start"
    by (simp add: push_def rtf_start_def)
  moreover have "from_utf8 ?data = Some ?data" using from_to_utf8[OF ascii_scalar[OF a]] to_utf8_ascii[OF a] by simp
  ultimately have "rtf_to_text f ?data = Ok (filter rtf_keeps t)"
    using assms(3) by (simp add: rtf_to_text_def check_size_def push_def rtf_start_def)
  moreover have "text_to_rtf f t = Ok ?data" using assms(2) by (simp only: text_to_rtf_def check_size_def rtf_bytes) simp
  moreover have "is_rtf ?data" by (simp add: is_rtf_def rtf_open_def ascii_simps backslash_def)
  ultimately show ?thesis using a unfolding rtf_keeps_def by blast
qed

theorem rtf_round_trip_witness:
  "\<exists>data. text_to_rtf converter_new [0x7B, 9, 0x1F600, 10] = Ok data \<and> is_rtf data \<and> list_all (\<lambda>b. b < 128) data \<and>
     rtf_to_text converter_new data = Ok [0x7B, 0x1F600, 10]"
proof -
  have "length (rtf_open @ concat (map rtf_escape [0x7B, 9, 0x1F600, 10]) @ [0x7D]) \<le> fc_max_size converter_new"
    by (simp add: converter_new_def rtf_open_def rtf_escape_def utf16_units_def unit_as_i16_def show_int_def show_nat.simps backslash_def ascii_simps)
  then show ?thesis using rtf_round_trip[of "[0x7B, 9, 0x1F600, 10]" converter_new]
    by (simp add: is_scalar_def converter_new_def utf8_char_def)
qed

text \<open>\<open>validate_rtf\<close> counts escaped braces as braces, so it refuses the rich text that \<open>text_to_rtf\<close> makes of an opening brace.\<close>

lemma brace_rtf_refused:
  "rbind (text_to_rtf converter_new [0x7B]) (validate_rtf converter_new) = Err (FormatConversion ''Invalid RTF: unmatched braces'')"
  by (simp add: text_to_rtf_def validate_rtf_def check_size_def converter_new_def rtf_open_def rtf_escape_def utf8_char_def backslash_def ascii_simps)

section \<open>Round trip of file lists\<close>

lemma uri_decode_plain: "b \<noteq> 0x25 \<Longrightarrow> uri_decode (b # bs) = b # uri_decode bs"
  by (cases bs; cases "tl bs") (auto split: option.splits)

lemma uri_decode_escape: "b < 256 \<Longrightarrow> uri_decode (ascii (escape_byte b) @ bs) = b # uri_decode bs"
  using from_hex2_escape[of b] by (simp add: escape_byte_def ascii_simps)

lemma uri_decode_encode:
  "list_all (\<lambda>b. b < 256) bs \<Longrightarrow> uri_decode (concat (map (\<lambda>b. if unreserved b then [b] else ascii (escape_byte b)) bs)) = bs"
proof (induction bs)
  case (Cons b bs)
  then show ?case
    using uri_decode_plain[of b] uri_decode_escape[of b] by (cases "unreserved b") (auto simp: unreserved_def is_alpha_def is_digit_def)
qed simp

lemma to_utf8_bytes: "list_all is_scalar t \<Longrightarrow> list_all (\<lambda>b. b < 256) (to_utf8 t)"
  by (induction t) (simp_all add: utf8_char_bytes)

lemma escape_byte_printable: "b < 256 \<Longrightarrow> list_all (\<lambda>c. 14 \<le> c \<and> c < 128) (ascii (escape_byte b))"
proof -
  assume "b < 256"
  have "14 \<le> (of_char (hex_char n) :: nat) \<and> (of_char (hex_char n) :: nat) < 128" if "n < 16" for n
    unfolding code_hex_char[OF that] using that by simp
  moreover have "b div 16 < 16" "b mod 16 < 16" using \<open>b < 256\<close> by auto
  ultimately show ?thesis by (simp add: escape_byte_def ascii_simps)
qed

lemma uri_percent_encode_printable:
  assumes "list_all is_scalar p" shows "list_all (\<lambda>c. 14 \<le> c \<and> c < 128) (uri_percent_encode p)"
proof -
  have "list_all (\<lambda>c. 14 \<le> c \<and> c < 128) (concat (map (\<lambda>b. if unreserved b then [b] else ascii (escape_byte b)) bs))"
    if "list_all (\<lambda>b. b < 256) bs" for bs
    using that by (induction bs) (auto simp: escape_byte_printable unreserved_def is_alpha_def is_digit_def)
  then show ?thesis using to_utf8_bytes[OF assms] by (simp add: uri_percent_encode_def)
qed

lemma uri_percent_round_trip:
  assumes "list_all is_scalar p" shows "uri_percent_decode (uri_percent_encode p) = Ok p"
proof -
  have "to_utf8 (uri_percent_encode p) = uri_percent_encode p"
    using uri_percent_encode_printable[OF assms] by (intro to_utf8_ascii) (auto simp: list_all_iff)
  then show ?thesis using uri_decode_encode[OF to_utf8_bytes[OF assms]] assms
    by (simp add: uri_percent_decode_def uri_percent_encode_def from_to_utf8)
qed

lemma unicode_last_line: "10 \<notin> set l \<Longrightarrow> unicode_lines_from acc l = (if acc @ l = [] then [] else [acc @ l])"
  by (induction l arbitrary: acc) auto

lemma lines_join:
  "list_all (\<lambda>l. l \<noteq> [] \<and> list_all (\<lambda>c. 14 \<le> c) l) ls \<Longrightarrow> unicode_lines (unicode_join [13, 10] ls) = ls"
proof (induction ls rule: induct_list012)
  case (2 l)
  then have "10 \<notin> set l" by (auto simp: list_all_iff)
  with 2 show ?case by (simp add: unicode_last_line)
next
  case (3 l m ls)
  then show ?case using unicode_line[of l] by simp
qed simp

definition file_uri :: "unicode \<Rightarrow> unicode" where
  "file_uri p = file_scheme @ uri_percent_encode p"

lemma uri_paths_join:
  assumes "list_all (list_all is_scalar) ps" shows "uri_paths (unicode_join [13, 10] (map file_uri ps)) = map uri_percent_encode ps"
proof -
  have s: "length file_scheme = 7" "take (Suc 0) (file_scheme @ t) = [0x66]" "list_all (\<lambda>c. 14 \<le> c) file_scheme" "file_scheme \<noteq> []" for t
    by (simp_all add: file_scheme_def ascii_simps)
  have "list_all (\<lambda>l. l \<noteq> [] \<and> list_all (\<lambda>c. 14 \<le> c) l) (map file_uri ps)"
    using assms uri_percent_encode_printable s by (fastforce simp: list_all_iff file_uri_def)
  then have l: "unicode_lines (unicode_join [13, 10] (map file_uri ps)) = map file_uri ps" by (rule lines_join)
  have "take (length file_scheme) (file_uri p) = file_scheme" "take 1 (file_uri p) \<noteq> [0x23]" "drop (length file_scheme) (file_uri p) = uri_percent_encode p" for p
    using s by (simp_all add: file_uri_def)
  then show ?thesis by (simp add: uri_paths_def l comp_def)
qed

definition wide_body :: "unicode list \<Rightarrow> nat list" where
  "wide_body ps = concat (map (\<lambda>p. units_le (encode_utf16 p) @ [0, 0]) ps)"

lemma hdrop_paths_encoded: "list_all (list_all is_scalar) ps \<Longrightarrow> hdrop_paths (map uri_percent_encode ps) = Ok (wide_body ps)"
  by (induction ps) (simp_all add: uri_percent_round_trip wide_body_def)

lemma read_wide_units:
  "list_all (\<lambda>u. 0 < u \<and> u < 0x10000) us \<Longrightarrow> read_wide (units_le us @ 0 # 0 # r) = (us, r)"
proof (induction us)
  case (Cons u us)
  then have "u div 256 < 256" by (simp add: less_mult_imp_div_less)
  moreover have "0 < u mod 256 + 256 * (u div 256)" using Cons.prems by simp
  ultimately show ?case using Cons by (simp add: le_bytes_2 Let_def)
qed simp

definition clean_path :: "unicode \<Rightarrow> bool" where
  "clean_path p \<longleftrightarrow> p \<noteq> [] \<and> list_all (\<lambda>c. is_scalar c \<and> c \<noteq> 0) p"

lemma clean_path_scalar: "clean_path p \<Longrightarrow> list_all is_scalar p"
  by (auto simp: clean_path_def list_all_iff)

lemma clean_path_units:
  assumes "clean_path p" shows "list_all (\<lambda>u. 0 < u \<and> u < 0x10000) (encode_utf16 p)" "encode_utf16 p \<noteq> []"
proof -
  have "0 \<notin> set (encode_utf16 p)" "list_all (\<lambda>u. u < 0x10000) (encode_utf16 p)"
    using encode_utf16_nonzero encode_utf16_less clean_path_scalar[OF assms] assms by (auto simp: clean_path_def list_all_iff)
  then show "list_all (\<lambda>u. 0 < u \<and> u < 0x10000) (encode_utf16 p)" by (auto simp: list_all_iff intro: gr0I)
  show "encode_utf16 p \<noteq> []" using assms by (cases p) (auto simp: clean_path_def encode_utf16_def utf16_units_def)
qed

lemma wide_paths_body: "list_all clean_path ps \<Longrightarrow> wide_paths (wide_body ps @ [0, 0]) = ps"
proof (induction ps)
  case Nil
  show ?case by (simp add: wide_body_def wide_paths.simps[of "[0, 0]"])
next
  case (Cons p ps)
  let ?r = "wide_body ps @ [0, 0]"
  have "read_wide (units_le (encode_utf16 p) @ 0 # 0 # ?r) = (encode_utf16 p, ?r)"
    using Cons.prems clean_path_units(1) by (intro read_wide_units) simp
  moreover have "wide_body (p # ps) @ [0, 0] = units_le (encode_utf16 p) @ 0 # 0 # ?r" by (simp add: wide_body_def)
  ultimately show ?case using Cons clean_path_units(2)[of p] from_encode_utf16[OF clean_path_scalar, of p]
    by (simp add: wide_paths.simps[of "units_le _ @ _"])
qed

text \<open>
  File lists survive the CF_HDROP format: a list of \<open>file://\<close> URIs in the form \<open>hdrop_to_uri_list\<close> writes becomes a
  drop list and comes back unchanged, for all paths that are not empty and have no null character, whatever characters
  they have to escape.
\<close>

theorem hdrop_round_trip:
  assumes ps: "list_all clean_path ps" "ps \<noteq> []"
    and size: "utf8_len (unicode_join [13, 10] (map file_uri ps)) \<le> fc_max_size f" "22 + length (wide_body ps) \<le> fc_max_size f"
  shows "rbind (uri_list_to_hdrop f (unicode_join [13, 10] (map file_uri ps))) (hdrop_to_uri_list f) = Ok (unicode_join [13, 10] (map file_uri ps))"
proof -
  have sc: "list_all (list_all is_scalar) ps" using ps(1) clean_path_scalar by (auto simp: list_all_iff)
  have h: "le_bytes 4 20 @ le_bytes 4 0 @ le_bytes 4 0 @ le_bytes 4 0 @ le_bytes 4 1 = [20, 0, 0, 0, 0, 0, 0, 0, 0, 0, 0, 0, 0, 0, 0, 0, 1, 0, 0, 0]"
    by (simp add: le_bytes_4)
  let ?data = "[20, 0, 0, 0, 0, 0, 0, 0, 0, 0, 0, 0, 0, 0, 0, 0, 1, 0, 0, 0] @ wide_body ps @ [0, 0]"
  have "uri_list_to_hdrop f (unicode_join [13, 10] (map file_uri ps)) = Ok ?data"
    using size ps(2) h by (simp add: uri_list_to_hdrop_def check_size_def uri_paths_join[OF sc] hdrop_paths_encoded[OF sc])
  moreover have "hdrop_to_uri_list f ?data = Ok (unicode_join [13, 10] (map file_uri ps))"
    using size(2) wide_paths_body[OF ps(1)] by (simp add: hdrop_to_uri_list_def check_size_def Let_def file_uri_def[abs_def])
  ultimately show ?thesis by simp
qed

theorem hdrop_round_trip_witness:
  "rbind (uri_list_to_hdrop converter_new (unicode_join [13, 10] (map file_uri [ascii ''/a b'', [0x2F, 0xE9]])))
     (hdrop_to_uri_list converter_new) = Ok (unicode_join [13, 10] (map file_uri [ascii ''/a b'', [0x2F, 0xE9]]))"
proof -
  have "list_all clean_path [ascii ''/a b'', [0x2F, 0xE9]]" "22 + length (wide_body [ascii ''/a b'', [0x2F, 0xE9]]) \<le> fc_max_size converter_new"
    "utf8_len (unicode_join [13, 10] (map file_uri [ascii ''/a b'', [0x2F, 0xE9]])) \<le> fc_max_size converter_new"
    by (simp_all add: clean_path_def is_scalar_def ascii_simps wide_body_def encode_utf16_def utf16_units_def converter_new_def file_uri_def
        file_scheme_def uri_percent_encode_def utf8_char_def unreserved_def is_alpha_def is_digit_def escape_byte_def hex_char_def)
  then show ?thesis by (intro hdrop_round_trip) simp_all
qed

section \<open>Round trip of file descriptors\<close>

lemma put_between: "length xs = off \<Longrightarrow> length ys = length src \<Longrightarrow> put off src (xs @ ys @ zs) = xs @ src @ zs"
  by (simp add: put_def)

lemma rsplit_dot_Some: "rsplit_dot s = Some (base, ext) \<longleftrightarrow> s = base @ 46 # ext \<and> 46 \<notin> set ext"
proof
  assume "rsplit_dot s = Some (base, ext)"
  then have m: "46 \<in> set (rev s)" and b: "base = rev (tl (dropWhile (\<lambda>c. c \<noteq> 46) (rev s)))" and e: "ext = rev (takeWhile (\<lambda>c. c \<noteq> 46) (rev s))"
    by (auto simp: rsplit_dot_def split: if_splits)
  obtain r where r: "dropWhile (\<lambda>c. c \<noteq> 46) (rev s) = 46 # r"
    using m hd_dropWhile[of "\<lambda>c. c \<noteq> 46" "rev s"] by (cases "dropWhile (\<lambda>c. c \<noteq> 46) (rev s)") auto
  have "rev s = takeWhile (\<lambda>c. c \<noteq> 46) (rev s) @ 46 # r" by (simp flip: r)
  then have "s = rev r @ 46 # rev (takeWhile (\<lambda>c. c \<noteq> 46) (rev s))" by (metis append.assoc append_Cons append_Nil rev.simps(2) rev_append rev_rev_ident)
  then show "s = base @ 46 # ext \<and> 46 \<notin> set ext" using b e r by (auto dest: set_takeWhileD)
next
  assume "s = base @ 46 # ext \<and> 46 \<notin> set ext"
  then show "rsplit_dot s = Some (base, ext)" by (auto simp: rsplit_dot_def takeWhile_append dropWhile_append)
qed

lemma utf8_len_take: "utf8_len (take n s) \<le> utf8_len s"
proof -
  have "utf8_len s = utf8_len (take n s @ drop n s)" by simp
  then show ?thesis unfolding to_utf8_simps by simp
qed

lemma truncate_unicode_shrinks: "utf8_len (truncate_unicode n s) \<le> utf8_len s" "set (truncate_unicode n s) \<subseteq> set s"
proof -
  have "utf8_len (take k base @ 46 # ext) \<le> utf8_len (base @ 46 # ext)" for k base ext using utf8_len_take[of k base] by simp
  then show "utf8_len (truncate_unicode n s) \<le> utf8_len s" using utf8_len_take[of n s]
    by (auto simp: truncate_unicode_def rsplit_dot_Some simp del: to_utf8_simps split: option.split)
  show "set (truncate_unicode n s) \<subseteq> set s"
    by (auto simp: truncate_unicode_def rsplit_dot_Some split: option.split dest: in_set_takeD)
qed

lemma strip_codes_shrinks: "utf8_len (strip_trailing_codes s) \<le> utf8_len s" "set (strip_trailing_codes s) \<subseteq> set s"
proof -
  have "s = strip_trailing_codes s @ rev (takeWhile (\<lambda>c. c = 46 \<or> c = 32) (rev s))"
    unfolding strip_trailing_codes_def rev_append[symmetric] by simp
  then show "utf8_len (strip_trailing_codes s) \<le> utf8_len s" "set (strip_trailing_codes s) \<subseteq> set s"
    by (metis le_add1 length_append to_utf8_simps(3), metis set_append Un_upper1)
qed

lemma windows_code_ok: "0 < windows_code c" "is_scalar c \<Longrightarrow> is_scalar (windows_code c)" "length (utf8_char (windows_code c)) \<le> length (utf8_char c)"
  by (auto simp: windows_code_def is_scalar_def utf8_char_def)

lemma windows_codes_shrink: "utf8_len (map windows_code s) \<le> utf8_len s"
  using windows_code_ok(3) by (induction s) (simp_all add: add_mono)

lemma windows_filename_ok:
  assumes "list_all is_scalar f" "utf8_len f \<le> 255"
  shows "list_all is_scalar (windows_filename f)" "0 \<notin> set (windows_filename f)" "utf8_len (windows_filename f) \<le> 256"
proof -
  define w where "w = strip_trailing_codes (map windows_code f)"
  define r where "r = (if reserved_name w then 95 # w else w)"
  have sub: "set w \<subseteq> windows_code ` set f" using strip_codes_shrinks(2)[of "map windows_code f"] by (simp add: w_def)
  have "utf8_len w \<le> 255" using strip_codes_shrinks(1)[of "map windows_code f"] windows_codes_shrink[of f] assms(2) by (simp add: w_def)
  then have r: "utf8_len r \<le> 256" by (simp add: r_def utf8_char_def)
  have rs: "is_scalar c \<and> 0 < c" if "c \<in> set r" for c
    using that sub assms(1) windows_code_ok(1,2) by (auto simp: r_def list_all_iff is_scalar_def split: if_splits)
  have w: "windows_filename f = (if f = [] \<or> w = [] then ascii ''_unnamed_'' else truncate_unicode 255 r)"
    by (simp add: windows_filename_def w_def r_def Let_def)
  have t: "utf8_len (truncate_unicode 255 r) \<le> 256" "\<forall>c \<in> set (truncate_unicode 255 r). is_scalar c \<and> 0 < c"
    using r rs truncate_unicode_shrinks[of 255 r] by (auto intro: order_trans)
  have "list_all (\<lambda>c. is_scalar c \<and> 0 < c) (ascii ''_unnamed_'')" "utf8_len (ascii ''_unnamed_'') \<le> 256"
    by (simp_all add: ascii_def is_scalar_def utf8_char_def)
  with t have "\<forall>c \<in> set (windows_filename f). is_scalar c \<and> 0 < c" "utf8_len (windows_filename f) \<le> 256"
    unfolding w by (simp_all add: list_all_iff)
  then show "list_all is_scalar (windows_filename f)" "0 \<notin> set (windows_filename f)" "utf8_len (windows_filename f) \<le> 256"
    by (auto simp: list_all_iff)
qed

lemma units_le_utf8: "length (encode_utf16 t) \<le> utf8_len t"
proof (induction t)
  case (Cons c t)
  have "length (utf16_units c) \<le> length (utf8_char c)" by (simp add: utf16_units_def utf8_char_def)
  with Cons show ?case by (simp add: encode_utf16_def)
qed (simp add: encode_utf16_def)

lemma windows_name_units:
  assumes "list_all is_scalar f" "utf8_len f \<le> 255"
  shows "length (encode_utf16 (windows_filename f)) \<le> 259" "list_all (\<lambda>u. 0 < u \<and> u < 0x10000) (encode_utf16 (windows_filename f))"
proof -
  note ok = windows_filename_ok[OF assms]
  show "length (encode_utf16 (windows_filename f)) \<le> 259" using units_le_utf8[of "windows_filename f"] ok(3) by simp
  have "u \<noteq> 0 \<and> u < 0x10000" if "u \<in> set (encode_utf16 (windows_filename f))" for u
    using that encode_utf16_less[OF ok(1)] encode_utf16_nonzero[OF ok(1)] ok(2) by (metis list_all_iff)
  then show "list_all (\<lambda>u. 0 < u \<and> u < 0x10000) (encode_utf16 (windows_filename f))" by (simp add: list_all_iff)
qed

definition descriptor_bytes :: "nat \<Rightarrow> nat \<Rightarrow> nat list \<Rightarrow> nat list" where
  "descriptor_bytes attributes len us =
     le_bytes 4 FLAG_FILESIZE @ replicate 32 0 @ le_bytes 4 attributes @ replicate 24 0 @ le_bytes 4 (len div 2 ^ 32) @ le_bytes 4 (len mod 2 ^ 32) @
     units_le us @ replicate (520 - 2 * length us) 0"

lemma descriptor_build_bytes:
  assumes "fi_metadata p = Ok (d, len)" "fi_name p = Some name"
  shows "descriptor_build p =
    Ok (descriptor_bytes (if d then 0x10 else 0x80) (unat len) (take 259 (encode_utf16 (windows_filename name))))"
proof -
  let ?n = "take 259 (encode_utf16 (windows_filename name))"
  have z: "replicate 592 0 = [] @ replicate 4 0 @ replicate 588 (0 :: nat)" "replicate 588 0 = replicate 32 0 @ replicate 4 0 @ replicate 552 (0 :: nat)"
    "replicate 552 0 = replicate 24 0 @ replicate 4 0 @ replicate 4 0 @ replicate 520 (0 :: nat)"
    "replicate 520 0 = replicate (2 * length ?n) 0 @ replicate (520 - 2 * length ?n) (0 :: nat)"
    by (simp_all flip: replicate_add)
  let ?a = "le_bytes 4 (if d then 0x10 else 0x80)" and ?h = "le_bytes 4 (unat len div 2 ^ 32)" and ?l = "le_bytes 4 (unat len mod 2 ^ 32)"
  have s1: "put 0 (le_bytes 4 FLAG_FILESIZE) (replicate 592 0) = (le_bytes 4 FLAG_FILESIZE @ replicate 32 0) @ replicate 4 0 @ replicate 552 0"
    unfolding z(1) using put_between[of "[]" 0 "replicate 4 0"] by (simp add: z(2))
  have s2: "put 36 ?a ((le_bytes 4 FLAG_FILESIZE @ replicate 32 0) @ replicate 4 0 @ replicate 552 0) =
    (le_bytes 4 FLAG_FILESIZE @ replicate 32 0 @ ?a @ replicate 24 0) @ replicate 4 0 @ replicate 4 0 @ replicate 520 0"
    by (subst put_between) (simp_all add: z(3))
  have s3: "put 64 ?h ((le_bytes 4 FLAG_FILESIZE @ replicate 32 0 @ ?a @ replicate 24 0) @ replicate 4 0 @ replicate 4 0 @ replicate 520 0) =
    (le_bytes 4 FLAG_FILESIZE @ replicate 32 0 @ ?a @ replicate 24 0 @ ?h) @ replicate 4 0 @ replicate 520 0"
    by (subst put_between) simp_all
  have s4: "put 68 ?l ((le_bytes 4 FLAG_FILESIZE @ replicate 32 0 @ ?a @ replicate 24 0 @ ?h) @ replicate 4 0 @ replicate 520 0) =
    (le_bytes 4 FLAG_FILESIZE @ replicate 32 0 @ ?a @ replicate 24 0 @ ?h @ ?l) @ replicate (2 * length ?n) 0 @ replicate (520 - 2 * length ?n) 0"
    by (subst put_between) (simp_all add: z(4))
  have s5: "put 72 (units_le ?n) ((le_bytes 4 FLAG_FILESIZE @ replicate 32 0 @ ?a @ replicate 24 0 @ ?h @ ?l) @ replicate (2 * length ?n) 0 @ replicate (520 - 2 * length ?n) 0) =
    descriptor_bytes (if d then 0x10 else 0x80) (unat len) ?n"
    by (subst put_between) (simp_all add: descriptor_bytes_def)
  have t: "take (min (length us) 259) us = take 259 us" for us :: "nat list" by (simp add: min_def)
  show ?thesis unfolding descriptor_build_def assms by (simp only: sum.case prod.case option.case Let_def t s1 s2 s3 s4 s5)
qed

lemma length_descriptor_bytes: "2 * length us \<le> 520 \<Longrightarrow> length (descriptor_bytes a n us) = 592"
  by (simp add: descriptor_bytes_def)

lemma le_units_zeros: "le_units (units_le us @ replicate (2 * k) 0) = le_units (units_le us) @ replicate k 0"
proof -
  have "le_units (replicate (2 * k) 0) = replicate k 0" by (induction k) simp_all
  then show ?thesis by (induction us) (simp_all add: le_bytes_2)
qed

lemma parse_filename_field:
  assumes "list_all (\<lambda>u. 0 < u \<and> u < 0x10000) us" "length us \<le> 260"
  shows "parse_utf16_filename (units_le us @ replicate (520 - 2 * length us) 0) =
    (case from_utf16 us of Some t \<Rightarrow> Ok t | None \<Rightarrow> Err InvalidUtf16)"
proof -
  have e: "520 - 2 * length us = 2 * (260 - length us)" by simp
  have "le_units (units_le us) = us" using assms(1) by (intro le_units_le) (auto simp: list_all_iff)
  then have "le_units (units_le us @ replicate (520 - 2 * length us) 0) = us @ replicate (260 - length us) 0"
    by (simp only: e le_units_zeros)
  moreover have "takeWhile (\<lambda>u. u \<noteq> 0) (us @ replicate (260 - length us) 0) = us"
    using assms(1) by (auto simp: takeWhile_append list_all_iff)
  moreover have "(2 * length us + (520 - 2 * length us)) mod 2 = 0" using assms(2) by simp
  ultimately show ?thesis by (simp add: parse_utf16_filename_def)
qed

lemma descriptor_parse_bytes:
  assumes "list_all (\<lambda>u. 0 < u \<and> u < 0x10000) us" "length us \<le> 260" "from_utf16 us = Some name" "a < 2 ^ 32" "n < 2 ^ 64"
  shows "descriptor_parse (descriptor_bytes a n us) = Ok \<lparr>fd_flags = 0x40, fd_attributes = a, fd_creation_time = None, fd_access_time = None,
    fd_write_time = None, fd_size = Some n, fd_name = name\<rparr>"
proof -
  let ?d = "descriptor_bytes a n us"
  have "field ?d 0 4 = 0x40" "field ?d 36 4 = a" "field ?d 64 4 = n div 2 ^ 32" "field ?d 68 4 = n mod 2 ^ 32"
    using assms(4,5) by (simp_all add: field_def descriptor_bytes_def from_le_bytes FLAG_FILESIZE_def less_mult_imp_div_less)
  moreover have "parse_utf16_filename (take 520 (drop 72 ?d)) = Ok name"
    using parse_filename_field[OF assms(1,2)] assms(2,3) by (simp add: descriptor_bytes_def)
  moreover have "has_flag 0x40 0x02 = False" "has_flag 0x40 0x10 = False" "has_flag 0x40 0x20 = False" "has_flag 0x40 0x40 = True"
    by (simp_all add: has_flag_def)
  ultimately show ?thesis using length_descriptor_bytes[of us a n] assms(2) by (simp add: descriptor_parse_def FLAG_FILESIZE_def)
qed

lemma parse_each_concat:
  assumes "list_all2 (\<lambda>b d. length b = 592 \<and> descriptor_parse b = Ok d) bs ds" "length pre = 4 + i * 592"
  shows "parse_each (pre @ concat bs) i (length bs) = Ok ds"
  using assms
proof (induction arbitrary: pre i rule: list_all2_induct)
  case (Cons b bs d ds)
  have "parse_each ((pre @ b) @ concat bs) (i + 1) (length bs) = Ok ds" using Cons by (intro Cons.IH) simp
  with Cons show ?case by simp
qed simp

text \<open>A file that exists, and the descriptor a client should get of it: the sanitised name, the size and the kind.\<close>

definition present_file :: "bool \<times> u64 \<times> unicode \<Rightarrow> file_info" where
  "present_file = (\<lambda>(d, len, name). \<lparr>fi_metadata = Ok (d, len), fi_name = Some name\<rparr>)"

definition announced_file :: "bool \<times> u64 \<times> unicode \<Rightarrow> file_descriptor" where
  "announced_file = (\<lambda>(d, len, name). \<lparr>fd_flags = 0x40, fd_attributes = (if d then 0x10 else 0x80), fd_creation_time = None,
     fd_access_time = None, fd_write_time = None, fd_size = Some (unat len), fd_name = windows_filename name\<rparr>)"

text \<open>A name that a Linux file can have: any characters, in at most 255 bytes of UTF-8.\<close>

definition linux_name :: "bool \<times> u64 \<times> unicode \<Rightarrow> bool" where
  "linux_name = (\<lambda>(d, len, name). list_all is_scalar name \<and> utf8_len name \<le> 255)"

lemma build_present:
  assumes "linux_name p"
  shows "\<exists>b. descriptor_build (present_file p) = Ok b \<and> length b = 592 \<and> descriptor_parse b = Ok (announced_file p)"
proof -
  obtain d len name where p: "p = (d, len, name)" by (cases p)
  have n: "list_all is_scalar name" "utf8_len name \<le> 255" using assms by (simp_all add: linux_name_def p)
  let ?us = "encode_utf16 (windows_filename name)"
  note u = windows_name_units[OF n]
  have "from_utf16 ?us = Some (windows_filename name)" by (rule from_encode_utf16[OF windows_filename_ok(1)[OF n]])
  moreover have "unat len < 2 ^ 64" using unsigned_less[of len] by simp
  ultimately have "descriptor_parse (descriptor_bytes (if d then 0x10 else 0x80) (unat len) ?us) = Ok (announced_file p)"
    using u by (subst descriptor_parse_bytes) (auto simp: announced_file_def p)
  moreover have "length (descriptor_bytes (if d then 0x10 else 0x80) (unat len) ?us) = 592" using u(1) by (intro length_descriptor_bytes) simp
  moreover have "descriptor_build (present_file p) = Ok (descriptor_bytes (if d then 0x10 else 0x80) (unat len) ?us)"
    using descriptor_build_bytes[of "present_file p" d len name] u(1) by (simp add: present_file_def p)
  ultimately show ?thesis by blast
qed

lemma build_each_present:
  "list_all linux_name ps \<Longrightarrow> \<exists>bs. build_each (map present_file ps) = Ok (concat bs) \<and> list_all2 (\<lambda>b d. length b = 592 \<and> descriptor_parse b = Ok d) bs (map announced_file ps)"
proof (induction ps)
  case (Cons p ps)
  obtain b where "descriptor_build (present_file p) = Ok b" "length b = 592" "descriptor_parse b = Ok (announced_file p)"
    using build_present[of p] Cons.prems by fastforce
  moreover obtain bs where "build_each (map present_file ps) = Ok (concat bs)"
    "list_all2 (\<lambda>b d. length b = 592 \<and> descriptor_parse b = Ok d) bs (map announced_file ps)"
    using Cons by auto
  ultimately show ?case by (intro exI[of _ "b # bs"]) simp
qed (simp add: exI[of _ "[]"])

text \<open>
  C12.  The file list of a transfer is read as it was meant: the descriptors built for a list of files that exist, whose names have any Unicode characters in at most the 255 bytes
  that Linux allows, parse to one descriptor per file, in order, with its size, its kind and its name made safe for Windows, and no times.
\<close>

theorem descriptors_round_trip:
  assumes "length ps < 2 ^ 32" "list_all linux_name ps"
  shows "rbind (build_list (map present_file ps)) parse_list = Ok (map announced_file ps)"
proof -
  obtain bs where bs: "build_each (map present_file ps) = Ok (concat bs)"
    "list_all2 (\<lambda>b d. length b = 592 \<and> descriptor_parse b = Ok d) bs (map announced_file ps)"
    using build_each_present[OF assms(2)] by blast
  have len: "length bs = length ps" using list_all2_lengthD[OF bs(2)] by simp
  have "length (concat bs) = length bs * 592" using bs(2) by (induction rule: list_all2_induct) simp_all
  moreover have "field (le_bytes 4 (length ps) @ concat bs) 0 4 = length ps" using assms(1) by (simp add: field_def from_le_bytes)
  moreover have "parse_each (le_bytes 4 (length ps) @ concat bs) 0 (length ps) = Ok (map announced_file ps)"
    using parse_each_concat[OF bs(2), of "le_bytes 4 (length ps)" 0] len by simp
  ultimately have "parse_list (le_bytes 4 (length ps) @ concat bs) = Ok (map announced_file ps)"
    by (cases ps) (simp_all add: parse_list_def len)
  then show ?thesis using bs(1) assms(1) by (simp add: build_list_def)
qed

theorem descriptors_round_trip_witness:
  "rbind (build_list (map present_file [(False, 5000000000, ascii ''a?.txt''), (True, 0, [0xE9, 0x1F600])])) parse_list =
     Ok (map announced_file [(False, 5000000000, ascii ''a?.txt''), (True, 0, [0xE9, 0x1F600])]) \<and>
   windows_filename (ascii ''a?.txt'') = ascii ''a_.txt'' \<and> windows_filename [0xE9, 0x1F600] = [0xE9, 0x1F600]"
proof (intro conjI)
  show "rbind (build_list (map present_file [(False, 5000000000, ascii ''a?.txt''), (True, 0, [0xE9, 0x1F600])])) parse_list =
     Ok (map announced_file [(False, 5000000000, ascii ''a?.txt''), (True, 0, [0xE9, 0x1F600])])"
    by (rule descriptors_round_trip) (simp_all add: linux_name_def is_scalar_def utf8_char_def, simp add: ascii_def is_scalar_def utf8_char_def)
  show "windows_filename (ascii ''a?.txt'') = ascii ''a_.txt''" "windows_filename [0xE9, 0x1F600] = [0xE9, 0x1F600]"
    by (code_simp, simp add: windows_filename_def windows_code_def WINDOWS_INVALID_CHARS_def ascii_def strip_trailing_codes_def reserved_name_def
        truncate_unicode_def utf8_char_def)
qed

text \<open>
  The cap of 259 units is out of reach for such names.  A longer name would be cut there, also between the two halves of a surrogate
  pair, and its descriptor could then not be read.
\<close>

lemma cap_splits_pair:
  "rbind (descriptor_build (present_file (False, 0, replicate 130 0x1F600))) descriptor_parse = Err InvalidUtf16"
proof -
  let ?f = "replicate 130 (0x1F600 :: nat)" and ?pairs = "\<lambda>n. concat (replicate n [0xD83D, 0xDE00 :: nat])"
  have c: "windows_code 0x1F600 = 0x1F600" by (simp add: windows_code_def ascii_def WINDOWS_INVALID_CHARS_def)
  have "rev ?f = ?f" by simp
  then have st: "strip_trailing_codes ?f = ?f" by (simp add: strip_trailing_codes_def dropWhile_replicate)
  have "utf8_len ?f = 520" by (simp add: to_utf8_def utf8_char_def length_concat sum_list_replicate)
  then have tr: "truncate_unicode 255 ?f = ?f" by (simp add: truncate_unicode_def rsplit_dot_def)
  have "\<not> reserved_name ?f" by (simp add: reserved_name_def Let_def takeWhile_replicate list_all_iff)
  then have w: "windows_filename ?f = ?f" using c st tr by (simp add: windows_filename_def Let_def map_replicate)
  have "encode_utf16 ?f = ?pairs 130" by (simp add: encode_utf16_def utf16_units_def map_replicate)
  also have "\<dots> = ?pairs (Suc 129)" by simp
  also have "?pairs (Suc n) = (?pairs n @ [0xD83D]) @ [0xDE00]" for n by (induction n) simp_all
  finally have e: "take 259 (encode_utf16 ?f) = ?pairs 129 @ [0xD83D]" by (simp add: length_concat sum_list_replicate)
  have "from_utf16 (?pairs n @ [0xD83D]) = None" for n by (induction n) (simp_all add: high_surrogate_def low_surrogate_def)
  then have u: "from_utf16 (?pairs 129 @ [0xD83D]) = None" .
  have l: "length (?pairs 129 @ [0xD83D]) = 259" "list_all (\<lambda>u. 0 < u \<and> u < 0x10000) (?pairs 129 @ [0xD83D])"
    by (simp_all add: length_concat sum_list_replicate list_all_iff)
  let ?b = "descriptor_bytes 0x80 0 (?pairs 129 @ [0xD83D])"
  have "parse_utf16_filename (take 520 (drop 72 ?b)) = Err InvalidUtf16"
    using parse_filename_field[OF l(2)] l(1) u by (simp add: descriptor_bytes_def)
  moreover have "length ?b = 592" using l(1) by (intro length_descriptor_bytes) simp
  moreover have "descriptor_build (present_file (False, 0, ?f)) = Ok ?b"
    using descriptor_build_bytes[of "present_file (False, 0, ?f)" False 0 ?f] by (simp only: w e) (simp add: present_file_def)
  ultimately show ?thesis by (simp add: descriptor_parse_def)
qed

text \<open>The control symbol for an optional hyphen is read as the sign of a number, and the character after it is lost.\<close>

lemma optional_hyphen_swallows_character:
  "rtf_out (rtf_loop (0x5C # 0x2D # 0x61 # 0x62 # []) rtf_start) = [0x62]"
  by (simp add: rtf_start_def control_word_def is_alpha_def is_digit_def skip_one_def skip_destinations_words unicode_parse_signed_def
      parse_signed_def parse_nat_def handle_control_def ascii_simps push_def)

end
