(* ===== verification/Wrdp_Sesman_Paths.thy ===== *)
theory Wrdp_Sesman_Paths
  imports Wrdp_Prelude
begin

text \<open>
  Paths, account lookups and artifact cleanup of the session manager:
  the parts of \<open>std::path\<close> the session manager uses, \<open>src/src/sesman/identity.rs\<close> and
  \<open>src/src/sesman/cleanup.rs\<close>.

  A path is its text.  The programs \<open>id\<close> and \<open>getent\<close> are the parameter \<open>run\<close>: the argument
  vector gives the exit status and the standard output, or nothing if the program cannot
  run or its output is not text.  The file system as the cleanup sees it is the record \<open>fs_view\<close>.
\<close>

section \<open>Paths\<close>

type_synonym path = string

datatype component = RootDir | CurDir | ParentDir | Normal string

definition component_of :: "string \<Rightarrow> component list" where
  "component_of s = (if s = [] \<or> s = ''.'' then [] else if s = ''..'' then [ParentDir] else [Normal s])"

definition is_absolute :: "path \<Rightarrow> bool" where
  "is_absolute p \<longleftrightarrow> p \<noteq> [] \<and> hd p = CHR ''/''"

definition path_components :: "path \<Rightarrow> component list" where
  "path_components p =
     (let parts = split_char (CHR ''/'') p in
      (if is_absolute p then [RootDir] else if hd parts = ''.'' then [CurDir] else []) @
      concat (map component_of parts))"

text \<open>Rust compares paths component by component.\<close>

definition path_eq :: "path \<Rightarrow> path \<Rightarrow> bool" where
  "path_eq p q \<longleftrightarrow> path_components p = path_components q"

definition path_join :: "path \<Rightarrow> path \<Rightarrow> path" where
  "path_join p q =
     (if is_absolute q then q
      else if p = [] \<or> last p = CHR ''/'' then p @ q else p @ CHR ''/'' # q)"

fun component_text :: "component \<Rightarrow> string" where
  "component_text RootDir = []"
| "component_text CurDir = ''.''"
| "component_text ParentDir = ''..''"
| "component_text (Normal s) = s"

definition path_of :: "component list \<Rightarrow> path" where
  "path_of cs = (case cs of RootDir # rest \<Rightarrow> CHR ''/'' # join_with ''/'' (map component_text rest)
                 | _ \<Rightarrow> join_with ''/'' (map component_text cs))"

definition path_parent :: "path \<Rightarrow> path option" where
  "path_parent p =
     (let cs = path_components p in
      if cs = [] \<or> last cs = RootDir then None else Some (path_of (butlast cs)))"

definition path_file_name :: "path \<Rightarrow> string option" where
  "path_file_name p =
     (let cs = path_components p in
      if cs = [] then None else case last cs of Normal s \<Rightarrow> Some s | _ \<Rightarrow> None)"

section \<open>Accounts\<close>

datatype account_error = CommandFailed string | InvalidId string | NoHome string

type_synonym command_runner = "string list \<Rightarrow> (bool \<times> string) option"

definition user_id_field :: "command_runner \<Rightarrow> string \<Rightarrow> string \<Rightarrow> (account_error, nat) result" where
  "user_id_field run user flag =
     (case run [''id'', flag, user] of
        None \<Rightarrow> Err (CommandFailed user)
      | Some (success, stdout) \<Rightarrow>
          if \<not> success then Err (CommandFailed user)
          else case parse_unsigned 32 (trim stdout) of None \<Rightarrow> Err (InvalidId user) | Some n \<Rightarrow> Ok n)"

definition uid_for_user :: "command_runner \<Rightarrow> string \<Rightarrow> (account_error, nat) result" where
  "uid_for_user run user = user_id_field run user ''-u''"

definition gid_for_user :: "command_runner \<Rightarrow> string \<Rightarrow> (account_error, nat) result" where
  "gid_for_user run user = user_id_field run user ''-g''"

fun parse_gids :: "string \<Rightarrow> string list \<Rightarrow> (account_error, nat list) result" where
  "parse_gids user [] = Ok []"
| "parse_gids user (f # fs) =
     (case parse_unsigned 32 f of
        None \<Rightarrow> Err (InvalidId user)
      | Some g \<Rightarrow> rbind (parse_gids user fs) (\<lambda>gs. Ok (g # gs)))"

definition supplementary_groups_for_user ::
  "command_runner \<Rightarrow> string \<Rightarrow> nat \<Rightarrow> (account_error, nat list) result" where
  "supplementary_groups_for_user run user primary_gid =
     (case run [''id'', ''-G'', user] of
        None \<Rightarrow> Err (CommandFailed user)
      | Some (success, stdout) \<Rightarrow>
          if \<not> success then Err (CommandFailed user)
          else rbind (parse_gids user (split_whitespace stdout)) (\<lambda>groups.
            Ok (remdups_adj (sort (if primary_gid \<in> set groups then groups else groups @ [primary_gid])))))"

definition home_dir_for_user :: "command_runner \<Rightarrow> string \<Rightarrow> (account_error, path) result" where
  "home_dir_for_user run user =
     (case run [''getent'', ''passwd'', user] of
        None \<Rightarrow> Err (CommandFailed user)
      | Some (success, stdout) \<Rightarrow>
          if \<not> success then Err (CommandFailed user)
          else case nth_opt (split_char (CHR '':'') (trim_end stdout)) 5 of
                 None \<Rightarrow> Err (NoHome user)
               | Some home \<Rightarrow> if home = [] then Err (NoHome user) else Ok home)"

section \<open>Cleanup\<close>

datatype unlink_result = Unlinked | UnlinkNotFound | UnlinkFailed
datatype dir_entry = Named string | NotText | EntryFailed
datatype dir_result = Entries "dir_entry list" | DirNotFound | DirFailed
datatype cleanup_error = RemoveFailed path | ScanFailed path

record fs_view =
  unlink_at :: "path \<Rightarrow> unlink_result"
  read_dir_at :: "path \<Rightarrow> dir_result"

definition remove_stale_path :: "fs_view \<Rightarrow> path \<Rightarrow> (cleanup_error, unit) result" where
  "remove_stale_path fs p =
     (case unlink_at fs p of Unlinked \<Rightarrow> Ok () | UnlinkNotFound \<Rightarrow> Ok () | UnlinkFailed \<Rightarrow> Err (RemoveFailed p))"

fun remove_all :: "fs_view \<Rightarrow> path list \<Rightarrow> (cleanup_error, unit) result" where
  "remove_all fs [] = Ok ()"
| "remove_all fs (p # ps) = rbind (remove_stale_path fs p) (\<lambda>_. remove_all fs ps)"

definition name_starts_with :: "string \<Rightarrow> string \<Rightarrow> bool" where
  "name_starts_with pre s \<longleftrightarrow> take (length pre) s = pre"

definition ends_with_str :: "string \<Rightarrow> string \<Rightarrow> bool" where
  "ends_with_str suf s \<longleftrightarrow> name_starts_with (rev suf) (rev s)"

text \<open>The loop over the entries of the scanned directory.\<close>

fun remove_matching :: "fs_view \<Rightarrow> path \<Rightarrow> string \<Rightarrow> string \<Rightarrow> dir_entry list \<Rightarrow> (cleanup_error, unit) result" where
  "remove_matching fs parent name_prefix suffix [] = Ok ()"
| "remove_matching fs parent name_prefix suffix (EntryFailed # es) = Err (ScanFailed parent)"
| "remove_matching fs parent name_prefix suffix (NotText # es) = remove_matching fs parent name_prefix suffix es"
| "remove_matching fs parent name_prefix suffix (Named name # es) =
     (if name_starts_with name_prefix name \<and> ends_with_str suffix name
      then rbind (remove_stale_path fs (path_join parent name)) (\<lambda>_. remove_matching fs parent name_prefix suffix es)
      else remove_matching fs parent name_prefix suffix es)"

definition cleanup_simple_glob :: "fs_view \<Rightarrow> string \<Rightarrow> (cleanup_error, unit) result" where
  "cleanup_simple_glob fs pat =
     (case split_once (CHR ''*'') pat of
        None \<Rightarrow> remove_stale_path fs pat
      | Some (prefix, suffix) \<Rightarrow>
          let parent = (case path_parent prefix of Some p \<Rightarrow> p | None \<Rightarrow> ''.'') in
          case path_file_name prefix of
            None \<Rightarrow> Ok ()
          | Some name_prefix \<Rightarrow>
              (case read_dir_at fs parent of
                 DirNotFound \<Rightarrow> Ok ()
               | DirFailed \<Rightarrow> Err (ScanFailed parent)
               | Entries es \<Rightarrow> remove_matching fs parent name_prefix suffix es))"

fun cleanup_globs_loop :: "fs_view \<Rightarrow> string list \<Rightarrow> (cleanup_error, unit) result" where
  "cleanup_globs_loop fs [] = Ok ()"
| "cleanup_globs_loop fs (p # ps) = rbind (cleanup_simple_glob fs p) (\<lambda>_. cleanup_globs_loop fs ps)"

definition cleanup_runtime_paths :: "fs_view \<Rightarrow> path list \<Rightarrow> string list \<Rightarrow> (cleanup_error, unit) result" where
  "cleanup_runtime_paths fs cleanup_paths cleanup_globs =
     rbind (remove_all fs cleanup_paths) (\<lambda>_. cleanup_globs_loop fs cleanup_globs)"

section \<open>Absolute paths\<close>

definition valid_name :: "string \<Rightarrow> bool" where
  "valid_name n \<longleftrightarrow> n \<noteq> [] \<and> CHR ''/'' \<notin> set n \<and> n \<noteq> ''.'' \<and> n \<noteq> ''..''"

definition dir_text :: "string list \<Rightarrow> path" where
  "dir_text ns = concat (map (\<lambda>n. CHR ''/'' # n) ns)"

lemma split_dir_text:
  "list_all valid_name ns \<Longrightarrow> split_char (CHR ''/'') (dir_text ns @ CHR ''/'' # s) = [] # ns @ split_char (CHR ''/'') s"
proof (induction ns)
  case (Cons n ns)
  then have "valid_name n" and ns: "list_all valid_name ns" by simp_all
  then have n: "CHR ''/'' \<notin> set n" by (simp add: valid_name_def)
  have "\<exists>r. dir_text ns @ CHR ''/'' # s = CHR ''/'' # r \<and> split_char (CHR ''/'') r = ns @ split_char (CHR ''/'') s"
    using Cons.IH[OF ns] by (cases ns) (auto simp: dir_text_def)
  then show ?case using n split_char_append[OF n] by (auto simp: dir_text_def)
qed (simp add: dir_text_def)

lemma components_valid: "list_all valid_name ns \<Longrightarrow> concat (map component_of ns) = map Normal ns"
  by (induction ns) (auto simp: component_of_def valid_name_def)

lemma components_dir_slash:
  assumes "list_all valid_name ns" "s = [] \<or> valid_name s"
  shows "path_components (dir_text ns @ CHR ''/'' # s) = RootDir # map Normal (ns @ (if s = [] then [] else [s]))"
proof -
  have "is_absolute (dir_text ns @ CHR ''/'' # s)" by (cases ns) (auto simp: is_absolute_def dir_text_def)
  moreover have "split_char (CHR ''/'') s = [s]" using assms(2) by (auto simp: valid_name_def split_char_no_sep)
  ultimately show ?thesis
    using split_dir_text[OF assms(1), of s] components_valid[OF assms(1)] assms(2)
    by (auto simp: path_components_def component_of_def valid_name_def)
qed

lemma path_of_names: "path_of (RootDir # map Normal ns) = (if ns = [] then ''/'' else dir_text ns)"
proof -
  have "join_with ''/'' (map component_text (map Normal (n # ns))) = n @ dir_text ns" for n ns
    by (induction ns arbitrary: n) (auto simp: dir_text_def)
  then show ?thesis by (cases ns) (auto simp: path_of_def dir_text_def)
qed

lemma parent_and_name:
  assumes "path_components p = RootDir # map Normal (ns @ [n])" "ns \<noteq> []"
  shows "path_parent p = Some (dir_text ns)" "path_file_name p = Some n"
  using assms path_of_names[of ns] by (simp_all add: path_parent_def path_file_name_def butlast_append)

lemma remove_matching_Ok:
  "remove_matching fs parent pre suf es = Ok () \<Longrightarrow> Named name \<in> set es \<Longrightarrow>
   name_starts_with pre name \<Longrightarrow> ends_with_str suf name \<Longrightarrow> unlink_at fs (path_join parent name) \<noteq> UnlinkFailed"
  by (induction fs parent pre suf es rule: remove_matching.induct)
    (auto simp: rbind_eq_Inr remove_stale_path_def split: if_splits)

lemma remove_all_Ok: "remove_all fs ps = Ok () \<Longrightarrow> p \<in> set ps \<Longrightarrow> unlink_at fs p \<noteq> UnlinkFailed"
  by (induction ps) (auto simp: rbind_eq_Inr remove_stale_path_def split: unlink_result.splits)

lemma cleanup_globs_Ok: "cleanup_globs_loop fs ps = Ok () \<Longrightarrow> p \<in> set ps \<Longrightarrow> cleanup_simple_glob fs p = Ok ()"
  by (induction ps) (auto simp: rbind_eq_Inr)

text \<open>What a pattern over an absolute directory scans.\<close>

lemma cleanup_glob_scan:
  assumes "split_once (CHR ''*'') pat = Some (prefix, suf)"
    and "path_components prefix = RootDir # map Normal (ns @ [n])" "ns \<noteq> []"
  shows "cleanup_simple_glob fs pat =
     (case read_dir_at fs (dir_text ns) of
        DirNotFound \<Rightarrow> Ok () | DirFailed \<Rightarrow> Err (ScanFailed (dir_text ns))
      | Entries es \<Rightarrow> remove_matching fs (dir_text ns) n suf es)"
  using assms(1) parent_and_name[OF assms(2,3)]
  by (simp add: cleanup_simple_glob_def Let_def split: dir_result.split)

lemma glob_in_directory:
  assumes "list_all valid_name ns" "ns \<noteq> []" "valid_name pre" "CHR ''*'' \<notin> set (dir_text ns @ CHR ''/'' # pre)"
    and "read_dir_at fs (dir_text ns) = Entries es"
  shows "cleanup_simple_glob fs (dir_text ns @ CHR ''/'' # pre @ CHR ''*'' # suf) = remove_matching fs (dir_text ns) pre suf es"
proof -
  have "split_once (CHR ''*'') ((dir_text ns @ CHR ''/'' # pre) @ CHR ''*'' # suf) = Some (dir_text ns @ CHR ''/'' # pre, suf)"
    using assms(4) by (subst split_once_Some) simp
  moreover have "path_components (dir_text ns @ CHR ''/'' # pre) = RootDir # map Normal (ns @ [pre])"
    using components_dir_slash[OF assms(1)] assms(3) by (simp add: valid_name_def)
  ultimately show ?thesis using cleanup_glob_scan[OF _ _ assms(2)] assms(5) by simp
qed

lemma glob_star_only:
  assumes "list_all valid_name ns" "ns \<noteq> []" "valid_name n" "CHR ''*'' \<notin> set (dir_text (ns @ [n]))"
    and "read_dir_at fs (dir_text ns) = Entries es"
  shows "cleanup_simple_glob fs (dir_text (ns @ [n]) @ CHR ''/'' # CHR ''*'' # suf) = remove_matching fs (dir_text ns) n suf es"
proof -
  have "split_once (CHR ''*'') ((dir_text (ns @ [n]) @ ''/'') @ CHR ''*'' # suf) = Some (dir_text (ns @ [n]) @ ''/'', suf)"
    using assms(4) by (subst split_once_Some) simp
  moreover have "path_components (dir_text (ns @ [n]) @ ''/'') = RootDir # map Normal (ns @ [n])"
    using components_dir_slash[of "ns @ [n]" "[]"] assms(1,3) by simp
  ultimately show ?thesis using cleanup_glob_scan[OF _ _ assms(2)] assms(5) by simp
qed

lemma parse_gids_Ok: "parse_gids user fs = Ok gs \<Longrightarrow> map Some gs = map (parse_unsigned 32) fs"
  by (induction fs arbitrary: gs) (auto simp: rbind_eq_Inr split: option.splits)

lemma distinct_sorted_dedup: "sorted xs \<Longrightarrow> distinct (remdups_adj xs)" for xs :: "'a :: linorder list"
proof (induction xs rule: remdups_adj.induct)
  case (3 x y xs)
  show ?case
  proof (cases "x = y")
    case False
    with 3(3) have "\<forall>z \<in> set (y # xs). x < z" by auto
    then have "x \<notin> set (remdups_adj (y # xs))" by (metis remdups_adj_set less_irrefl)
    with False 3 show ?thesis by simp
  qed (use 3 in auto)
qed simp_all

section \<open>Properties\<close>

text \<open>
  A successful cleanup is complete: no configured path could fail to be removed, and of every
  pattern \<open>/d1/.../dn/pre*suf\<close> every entry of that directory with that prefix and suffix
  was removed or already gone, unless the directory does not exist.  A
  pattern \<open>/d1/.../dn/*suf\<close> with nothing before the star, however, is applied to the entries
  of the directory's parent whose name starts with \<open>dn\<close>.
\<close>

theorem cleanup_complete:
  assumes "cleanup_runtime_paths fs paths globs = Ok ()"
  shows "(\<forall>p \<in> set paths. unlink_at fs p \<noteq> UnlinkFailed) \<and>
    (\<forall>ns pre suf es name. list_all valid_name ns \<and> ns \<noteq> [] \<and> valid_name pre \<and> CHR ''*'' \<notin> set (dir_text ns @ CHR ''/'' # pre) \<and>
       dir_text ns @ CHR ''/'' # pre @ CHR ''*'' # suf \<in> set globs \<and>
       read_dir_at fs (dir_text ns) = Entries es \<and> Named name \<in> set es \<and> name_starts_with pre name \<and> ends_with_str suf name \<longrightarrow>
         unlink_at fs (path_join (dir_text ns) name) \<noteq> UnlinkFailed) \<and>
    (\<forall>ns n suf es name. list_all valid_name ns \<and> ns \<noteq> [] \<and> valid_name n \<and> CHR ''*'' \<notin> set (dir_text (ns @ [n])) \<and>
       dir_text (ns @ [n]) @ CHR ''/'' # CHR ''*'' # suf \<in> set globs \<and>
       read_dir_at fs (dir_text ns) = Entries es \<and> Named name \<in> set es \<and> name_starts_with n name \<and> ends_with_str suf name \<longrightarrow>
         unlink_at fs (path_join (dir_text ns) name) \<noteq> UnlinkFailed)"
proof -
  have c: "remove_all fs paths = Ok ()" "cleanup_globs_loop fs globs = Ok ()"
    using assms by (auto simp: cleanup_runtime_paths_def rbind_eq_Inr)
  note each = cleanup_globs_Ok[OF c(2)]
  show ?thesis
  proof (intro conjI allI impI ballI, goal_cases)
    case (1 p)
    then show ?case using remove_all_Ok[OF c(1)] by blast
  next
    case (2 ns pre suf es name)
    then have "remove_matching fs (dir_text ns) pre suf es = Ok ()"
      using each[of "dir_text ns @ CHR ''/'' # pre @ CHR ''*'' # suf"] glob_in_directory[of ns pre fs es suf] by auto
    with 2 show ?case using remove_matching_Ok by blast
  next
    case (3 ns n suf es name)
    then have "remove_matching fs (dir_text ns) n suf es = Ok ()"
      using each[of "dir_text (ns @ [n]) @ CHR ''/'' # CHR ''*'' # suf"] glob_star_only[of ns n fs es suf] by auto
    with 3 show ?case using remove_matching_Ok by blast
  qed
qed

definition example_fs :: fs_view where
  "example_fs = \<lparr>unlink_at = (\<lambda>_. Unlinked), read_dir_at = (\<lambda>p. if p = ''/run/x'' then Entries [Named ''a1.log''] else DirNotFound)\<rparr>"

theorem cleanup_complete_witness:
  "cleanup_runtime_paths example_fs [''/run/x/s''] [''/run/x/a*.log''] = Ok () \<and> unlink_at example_fs ''/run/x/s'' \<noteq> UnlinkFailed"
proof -
  have "cleanup_runtime_paths example_fs [''/run/x/s''] [''/run/x/a*.log''] = Ok ()"
    by (simp add: cleanup_runtime_paths_def remove_stale_path_def cleanup_simple_glob_def example_fs_def path_parent_def
        path_file_name_def path_components_def is_absolute_def component_of_def path_of_def name_starts_with_def ends_with_str_def)
  from cleanup_complete[OF this] this show ?thesis by simp
qed

text \<open>
  The supplementary groups handed to a component are sorted, without repetition, contain
  the primary group and otherwise exactly the groups that the account database listed.
\<close>

theorem supplementary_groups_exact:
  assumes "supplementary_groups_for_user run user primary = Ok gs"
  shows "sorted gs \<and> distinct gs \<and> primary \<in> set gs \<and>
    (\<exists>out. run [''id'', ''-G'', user] = Some (True, out) \<and>
       Some ` set gs = Some ` {primary} \<union> parse_unsigned 32 ` set (split_whitespace out))"
proof -
  obtain out groups where o: "run [''id'', ''-G'', user] = Some (True, out)" "parse_gids user (split_whitespace out) = Ok groups"
    and g: "gs = remdups_adj (sort (if primary \<in> set groups then groups else groups @ [primary]))"
    using assms by (auto simp: supplementary_groups_for_user_def rbind_eq_Inr split: option.splits if_splits)
  from parse_gids_Ok[OF o(2)] have "Some ` set groups = parse_unsigned 32 ` set (split_whitespace out)"
    by (metis list.set_map)
  moreover have "set gs = insert primary (set groups)" by (auto simp: g)
  moreover have "sorted gs \<and> distinct gs" unfolding g by (simp add: distinct_sorted_dedup sorted_remdups_adj)
  ultimately show ?thesis using o(1) by auto
qed

theorem supplementary_groups_exact_witness:
  "supplementary_groups_for_user (\<lambda>_. Some (True, ''20 4 20'')) ''u'' 7 = Ok [4, 7, 20] \<and> sorted [4, 7, 20 :: nat]"
proof -
  have "supplementary_groups_for_user (\<lambda>_. Some (True, ''20 4 20'')) ''u'' 7 = Ok [4, 7, 20]"
    by (simp add: supplementary_groups_for_user_def split_whitespace.simps char_is_whitespace_def parse_unsigned_def
        parse_nat_def char_is_ascii_digit_def)
  from supplementary_groups_exact[OF this] this show ?thesis by simp
qed

end
