(* ===== verification/Wrdp_Sesman_Process.thy ===== *)
theory Wrdp_Sesman_Process
  imports Wrdp_Prelude
begin

text \<open>
  Process identity (\<open>src/src/sesman/process.rs\<close>): deciding from \<open>/proc\<close> whether a PID that was
  written to disk still denotes the process that was recorded.

  What the kernel shows at a moment is a \<open>proc_view\<close>: the results of \<open>kill(pid, 0)\<close> and the texts
  of the files that are read.  One call reads one view.  Texts are parsed as the code
  parses them.  The conversion of a time stamp by the date library is the view's component
  \<open>datetime_millis\<close> (seconds and nanoseconds to milliseconds, or out of range).  PIDs and
  process groups are integers in the range of \<open>i32\<close>, tick counts are natural numbers below
  \<open>2 ^ 64\<close>.
\<close>

record proc_view =
  kill_zero :: "int \<Rightarrow> bool"
  proc_stat :: "int \<Rightarrow> string option"
  proc_status :: "int \<Rightarrow> string option"
  boot_id_file :: "string option"
  kernel_stat :: "string option"
  clk_tck :: "int option"
  datetime_millis :: "int \<Rightarrow> nat \<Rightarrow> int option"

section \<open>Reading the kernel's texts\<close>

definition after_comm :: "string \<Rightarrow> string option" where
  "after_comm stat = map_option snd (rsplit_once2 (CHR '')'') (CHR '' '') stat)"

definition process_alive :: "proc_view \<Rightarrow> int \<Rightarrow> bool" where
  "process_alive v pid =
     (if pid \<le> 0 \<or> \<not> kill_zero v pid then False
      else case proc_stat v pid of None \<Rightarrow> False
           | Some stat \<Rightarrow> (case after_comm stat of None \<Rightarrow> False
               | Some rest \<Rightarrow> strip_prefix ''Z'' rest = None))"

definition read_boot_id :: "proc_view \<Rightarrow> string option" where
  "read_boot_id v =
     (case boot_id_file v of None \<Rightarrow> None
      | Some s \<Rightarrow> (let boot_id = trim s in if boot_id = [] then None else Some boot_id))"

definition process_status_uids :: "proc_view \<Rightarrow> int \<Rightarrow> (nat \<times> nat) option" where
  "process_status_uids v pid =
     (case proc_status v pid of None \<Rightarrow> None
      | Some status \<Rightarrow> (case find_map (strip_prefix ''Uid:'') (lines status) of None \<Rightarrow> None
          | Some uid_line \<Rightarrow> (case split_whitespace uid_line of
                r # e # _ \<Rightarrow> (case (parse_unsigned 32 r, parse_unsigned 32 e) of
                    (Some real_uid, Some effective_uid) \<Rightarrow> Some (real_uid, effective_uid)
                  | _ \<Rightarrow> None)
              | _ \<Rightarrow> None)))"

definition stat_field :: "proc_view \<Rightarrow> int \<Rightarrow> nat \<Rightarrow> string option" where
  "stat_field v pid k =
     (case proc_stat v pid of None \<Rightarrow> None
      | Some stat \<Rightarrow> (case after_comm stat of None \<Rightarrow> None
          | Some rest \<Rightarrow> nth_opt (split_whitespace rest) k))"

definition process_pgid :: "proc_view \<Rightarrow> int \<Rightarrow> int option" where
  "process_pgid v pid = (case stat_field v pid 2 of None \<Rightarrow> None | Some f \<Rightarrow> parse_signed 32 f)"

definition process_start_ticks :: "proc_view \<Rightarrow> int \<Rightarrow> nat option" where
  "process_start_ticks v pid = (case stat_field v pid 19 of None \<Rightarrow> None | Some f \<Rightarrow> parse_unsigned 64 f)"

definition boot_seconds :: "proc_view \<Rightarrow> nat option" where
  "boot_seconds v =
     (case kernel_stat v of None \<Rightarrow> None
      | Some s \<Rightarrow> (case find_map (strip_prefix ''btime '') (lines s) of None \<Rightarrow> None
          | Some b \<Rightarrow> parse_unsigned 64 b))"

text \<open>\<open>process_started_at\<close>, in milliseconds, with its checked arithmetic.\<close>

definition process_started_at :: "proc_view \<Rightarrow> int \<Rightarrow> int option" where
  "process_started_at v pid =
     (case (process_start_ticks v pid, boot_seconds v, clk_tck v) of
        (Some start_ticks, Some boot, Some tps) \<Rightarrow>
          if tps \<le> 0 then None
          else let t = nat tps;
                   seconds = boot + start_ticks div t;
                   scaled = (start_ticks mod t) * 1000000000;
                   nanos = scaled div t
               in if seconds \<ge> 2 ^ 64 \<or> scaled \<ge> 2 ^ 64 \<or> seconds \<ge> 2 ^ 63 \<or> nanos \<ge> 2 ^ 32 then None
                  else datetime_millis v (int seconds) nanos
      | _ \<Rightarrow> None)"

definition process_group_alive :: "proc_view \<Rightarrow> int \<Rightarrow> bool" where
  "process_group_alive v pid \<longleftrightarrow> pid > 0 \<and> kill_zero v (- pid)"

section \<open>Authenticating a recorded process\<close>

datatype match_purpose = Status | Signal

record process_signature =
  sig_pid :: int
  sig_command :: "string list"
  sig_started_at :: int
  sig_start_ticks :: "nat option"
  sig_boot_id :: "string option"
  sig_uid :: "nat option"
  sig_pgid :: "int option"

definition is_fully_hardened :: "process_signature \<Rightarrow> bool" where
  "is_fully_hardened s \<longleftrightarrow>
     sig_start_ticks s \<noteq> None \<and> sig_boot_id s \<noteq> None \<and> sig_uid s \<noteq> None \<and> sig_pgid s \<noteq> None"

definition boot_matches :: "proc_view \<Rightarrow> process_signature \<Rightarrow> bool" where
  "boot_matches v s = (case sig_boot_id s of None \<Rightarrow> True | Some b \<Rightarrow> read_boot_id v = Some b)"

definition uid_matches :: "proc_view \<Rightarrow> process_signature \<Rightarrow> bool" where
  "uid_matches v s =
     (case sig_uid s of None \<Rightarrow> True
      | Some u \<Rightarrow> (case process_status_uids v (sig_pid s) of
            Some (real_uid, effective_uid) \<Rightarrow> real_uid = u \<or> effective_uid = u
          | None \<Rightarrow> False))"

definition pgid_matches :: "proc_view \<Rightarrow> process_signature \<Rightarrow> bool" where
  "pgid_matches v s = (case sig_pgid s of None \<Rightarrow> True | Some g \<Rightarrow> process_pgid v (sig_pid s) = Some g)"

definition process_matches :: "proc_view \<Rightarrow> process_signature \<Rightarrow> match_purpose \<Rightarrow> bool" where
  "process_matches v s purpose =
     (if \<not> process_alive v (sig_pid s) \<or> sig_command s = [] then False
      else if purpose = Signal \<and> \<not> is_fully_hardened s then False
      else if \<not> boot_matches v s then False
      else if \<not> uid_matches v s then False
      else if \<not> pgid_matches v s then False
      else case sig_start_ticks s of
             Some ticks \<Rightarrow> process_start_ticks v (sig_pid s) = Some ticks
           | None \<Rightarrow> (case process_started_at v (sig_pid s) of
                 None \<Rightarrow> False
               | Some actual \<Rightarrow> \<bar>actual - sig_started_at s\<bar> \<le> 5000))"

record captured_identity =
  cap_start_ticks :: "nat option"
  cap_boot_id :: "string option"
  cap_uid :: "nat option"
  cap_pgid :: "int option"

definition capture_identity :: "proc_view \<Rightarrow> int \<Rightarrow> captured_identity" where
  "capture_identity v pid =
     \<lparr>cap_start_ticks = process_start_ticks v pid, cap_boot_id = read_boot_id v,
      cap_uid = map_option fst (process_status_uids v pid), cap_pgid = process_pgid v pid\<rparr>"

text \<open>The signature that a captured identity is recorded as.\<close>

definition signature_of :: "int \<Rightarrow> string list \<Rightarrow> int \<Rightarrow> captured_identity \<Rightarrow> process_signature" where
  "signature_of pid command started i =
     \<lparr>sig_pid = pid, sig_command = command, sig_started_at = started,
      sig_start_ticks = cap_start_ticks i, sig_boot_id = cap_boot_id i, sig_uid = cap_uid i, sig_pgid = cap_pgid i\<rparr>"

section \<open>The layout of the stat line\<close>

text \<open>
  The line the kernel writes: the PID, the command name in parentheses, which may contain any
  characters, and the remaining fields, which contain neither blanks nor parentheses.
\<close>

definition stat_rest :: "string list \<Rightarrow> string" where
  "stat_rest flds = concat (map (\<lambda>(t, w). t @ [w]) (zip flds (replicate (length flds - 1) (CHR '' '') @ [CHR 0x0A])))"

definition stat_line :: "string \<Rightarrow> string \<Rightarrow> string list \<Rightarrow> string" where
  "stat_line pid comm flds = pid @ '' ('' @ comm @ '') '' @ stat_rest flds"

definition stat_fields_ok :: "string list \<Rightarrow> bool" where
  "stat_fields_ok flds \<longleftrightarrow> flds \<noteq> [] \<and> list_all is_token flds \<and> list_all (\<lambda>t. CHR '')'' \<notin> set t) flds"

lemma in_zipD: "(t, w) \<in> set (zip xs ys) \<Longrightarrow> t \<in> set xs \<and> w \<in> set ys"
  by (auto dest: set_zip_leftD set_zip_rightD)

lemma zip_separators:
  assumes "stat_fields_ok flds"
  shows "list_all (\<lambda>(t, w). is_token t \<and> char_is_whitespace w) (zip flds (replicate (length flds - 1) (CHR '' '') @ [CHR 0x0A]))"
    and "map fst (zip flds (replicate (length flds - 1) (CHR '' '') @ [CHR 0x0A])) = flds"
proof -
  have "length flds = length (replicate (length flds - 1) (CHR '' '') @ [CHR 0x0A])"
    using assms by (cases flds) (auto simp: stat_fields_ok_def)
  then show "map fst (zip flds (replicate (length flds - 1) (CHR '' '') @ [CHR 0x0A])) = flds"
    by (metis map_fst_zip)
  show "list_all (\<lambda>(t, w). is_token t \<and> char_is_whitespace w) (zip flds (replicate (length flds - 1) (CHR '' '') @ [CHR 0x0A]))"
    using assms by (auto simp: list_all_iff stat_fields_ok_def char_is_whitespace_def
        dest!: in_zipD split: if_splits)
qed

lemma after_comm_stat_line:
  assumes "stat_fields_ok flds"
  shows "after_comm (stat_line pid comm flds) = Some (stat_rest flds)"
proof -
  have "CHR '')'' \<notin> set (stat_rest flds)"
    using assms by (auto simp: stat_rest_def stat_fields_ok_def list_all_iff dest!: in_zipD split: if_splits)
  from rsplit_once2_last[OF _ this, of "CHR '' ''" "pid @ '' ('' @ comm"]
  show ?thesis by (simp add: after_comm_def stat_line_def)
qed

lemma stat_field_stat_line:
  assumes "stat_fields_ok flds" "proc_stat v p = Some (stat_line pid comm flds)"
  shows "stat_field v p k = nth_opt flds k"
  using assms split_whitespace_fields[OF zip_separators(1)[OF assms(1)]] zip_separators(2)[OF assms(1)]
  by (simp add: stat_field_def after_comm_stat_line stat_rest_def)

lemma stat_rest_Cons: "\<exists>rest. stat_rest ((c # cs) # fs) = c # rest"
  by (cases fs) (auto simp: stat_rest_def)

lemma process_alive_stat_line:
  assumes "stat_fields_ok flds" "proc_stat v p = Some (stat_line pid comm flds)"
  shows "process_alive v p \<longleftrightarrow> 0 < p \<and> kill_zero v p \<and> hd (hd flds) \<noteq> CHR ''Z''"
proof -
  obtain c cs fs where f: "flds = (c # cs) # fs"
    using assms(1) by (cases flds) (auto simp: stat_fields_ok_def is_token_def neq_Nil_conv)
  show ?thesis
    using assms after_comm_stat_line[OF assms(1), of pid comm] stat_rest_Cons[of c cs fs]
    by (auto simp: process_alive_def f)
qed

lemma process_matches_status: "process_matches v s Signal \<Longrightarrow> process_matches v s Status"
  by (simp add: process_matches_def split: if_splits)

section \<open>Properties\<close>

text \<open>
  A command name cannot disguise a process: whatever characters the name contains,
  liveness, process group and start time are read from the kernel's own fields (the state, the
  third and the twentieth field after the name).
\<close>

theorem stat_parsing_ignores_command_name:
  assumes "stat_fields_ok flds" "proc_stat v p = Some (stat_line pid comm flds)"
  shows "process_pgid v p = (case nth_opt flds 2 of None \<Rightarrow> None | Some f \<Rightarrow> parse_signed 32 f) \<and>
    process_start_ticks v p = (case nth_opt flds 19 of None \<Rightarrow> None | Some f \<Rightarrow> parse_unsigned 64 f) \<and>
    (process_alive v p \<longleftrightarrow> 0 < p \<and> kill_zero v p \<and> hd (hd flds) \<noteq> CHR ''Z'')"
  by (simp add: process_pgid_def process_start_ticks_def stat_field_stat_line[OF assms]
      process_alive_stat_line[OF assms])

text \<open>A view with one process, used by the witnesses; its name imitates the end of the name field.\<close>

definition example_fields :: "string list" where
  "example_fields = [''S'', ''1'', ''42'', ''0'', ''0'', ''0'', ''0'', ''0'', ''0'', ''0'', ''0'', ''0'', ''0'', ''0'', ''0'', ''0'', ''0'', ''0'', ''0'', ''777'']"

definition example_view :: proc_view where
  "example_view =
     \<lparr>kill_zero = (\<lambda>p. p = 42), proc_stat = (\<lambda>p. if p = 42 then Some (stat_line ''42'' ''a) Z 9 9'' example_fields) else None),
      proc_status = (\<lambda>p. if p = 42 then Some ''Uid: 1000 1000'' else None), boot_id_file = Some ''b00t'',
      kernel_stat = None, clk_tck = Some 100, datetime_millis = (\<lambda>_ _. None)\<rparr>"

lemma example_view_ok:
  "stat_fields_ok example_fields" "proc_stat example_view 42 = Some (stat_line ''42'' ''a) Z 9 9'' example_fields)"
  "kill_zero example_view 42"
  by (simp_all add: stat_fields_ok_def example_fields_def is_token_def char_is_whitespace_def example_view_def)

theorem stat_parsing_ignores_command_name_witness:
  "process_alive example_view 42 \<and> process_pgid example_view 42 = Some 42 \<and> process_start_ticks example_view 42 = Some 777"
  using stat_parsing_ignores_command_name[OF example_view_ok(1,2)] example_view_ok(3)
  by (simp add: example_fields_def nth_opt_def parse_signed_def parse_unsigned_def parse_nat_def char_is_ascii_digit_def)

text \<open>
  C13.  A destructive signal is authorised exactly for the recorded process instance: the
  process is alive, every identity field was recorded, and the boot, the process group, the
  kernel start time and the real or effective user are those recorded.
\<close>

theorem signal_authorisation_exact:
  "process_matches v s Signal \<longleftrightarrow>
     process_alive v (sig_pid s) \<and> sig_command s \<noteq> [] \<and>
     (\<exists>ticks boot uid pgid r e. sig_start_ticks s = Some ticks \<and> sig_boot_id s = Some boot \<and>
        sig_uid s = Some uid \<and> sig_pgid s = Some pgid \<and>
        read_boot_id v = Some boot \<and> process_pgid v (sig_pid s) = Some pgid \<and>
        process_start_ticks v (sig_pid s) = Some ticks \<and>
        process_status_uids v (sig_pid s) = Some (r, e) \<and> (r = uid \<or> e = uid))"
  by (auto simp: process_matches_def is_fully_hardened_def boot_matches_def uid_matches_def pgid_matches_def
      split: option.splits)

text \<open>
  Capturing the identity of a live process with all its fields and comparing it with the same
  view succeeds for both purposes; and once any of boot, start time or process group has
  changed, or neither user matches, a fully recorded signature matches for neither purpose,
  so a reused PID is never taken for the recorded process.
\<close>

theorem capture_then_match:
  assumes "process_alive v pid" "command \<noteq> []"
    and "s = signature_of pid command started (capture_identity v pid)" "is_fully_hardened s"
  shows "process_matches v s purpose \<and>
    (read_boot_id v' \<noteq> read_boot_id v \<or> process_start_ticks v' pid \<noteq> process_start_ticks v pid \<or>
     process_pgid v' pid \<noteq> process_pgid v pid \<or>
     (\<forall>u r e. sig_uid s = Some u \<and> process_status_uids v' pid = Some (r, e) \<longrightarrow> r \<noteq> u \<and> e \<noteq> u) \<longrightarrow>
       \<not> process_matches v' s purpose)"
  using assms
  by (auto simp: process_matches_def signature_of_def capture_identity_def is_fully_hardened_def
      boot_matches_def uid_matches_def pgid_matches_def split: option.splits)

lemma example_view_reads:
  "process_status_uids example_view 42 = Some (1000, 1000)" "read_boot_id example_view = Some ''b00t''"
  "process_alive example_view 42" "process_pgid example_view 42 = Some 42" "process_start_ticks example_view 42 = Some 777"
proof -
  show "process_status_uids example_view 42 = Some (1000, 1000)"
    by (simp add: process_status_uids_def example_view_def lines.simps split_once_None
        split_whitespace.simps char_is_whitespace_def parse_unsigned_def parse_nat_def char_is_ascii_digit_def)
  show "read_boot_id example_view = Some ''b00t''"
    by (simp add: read_boot_id_def example_view_def trim_def trim_start_def trim_end_def char_is_whitespace_def)
  show "process_alive example_view 42" "process_pgid example_view 42 = Some 42" "process_start_ticks example_view 42 = Some 777"
    using stat_field_stat_line[OF example_view_ok(1,2)] process_alive_stat_line[OF example_view_ok(1,2)] example_view_ok(3)
    by (simp_all add: process_pgid_def process_start_ticks_def example_fields_def nth_opt_def
        parse_signed_def parse_unsigned_def parse_nat_def char_is_ascii_digit_def)
qed

theorem capture_then_match_witness:
  "process_matches example_view (signature_of 42 [''x''] 0 (capture_identity example_view 42)) Signal"
  using capture_then_match[OF example_view_reads(3), of "[''x'']" _ 0 Signal]
  by (simp add: signature_of_def capture_identity_def is_fully_hardened_def example_view_reads)

end
