(* ===== verification/Wrdp_Sesman_State.thy ===== *)
theory Wrdp_Sesman_State
  imports Wrdp_Auth Wrdp_Sesman_Paths Wrdp_Sesman_Process
begin

text \<open>
  The session manager's configuration and registry data: the types of \<open>src/src/sesman/state.rs\<close>,
  the per-user layout and validation, and the defaults of \<open>src/src/sesman/mod.rs\<close>.

  What the defaults take from the running process (effective user, environment variables, the
  account programs) is the record \<open>host\<close>.  Instants of the wall clock are integers of
  milliseconds.  A \<open>BTreeMap\<close> is an association list kept sorted by its insertion.
\<close>

record host =
  host_euid :: nat
  host_egid :: nat
  host_user_name :: "nat \<Rightarrow> string option"
  host_env :: "string \<Rightarrow> string option"
  host_run :: command_runner

section \<open>Data\<close>

record session_size =
  size_width :: nat
  size_height :: nat

definition session_size_default :: session_size where
  "session_size_default = \<lparr>size_width = 1920, size_height = 1080\<rparr>"

record client_info =
  peer_address :: string
  connected_at :: int
  client_size :: "session_size option"

datatype readiness_check = ProcessAlive | UnixSocket path | NoCheck

type_synonym btree_map = "(string \<times> string) list"

fun btree_insert :: "string \<Rightarrow> 'v \<Rightarrow> (string \<times> 'v) list \<Rightarrow> (string \<times> 'v) list" where
  "btree_insert k v [] = [(k, v)]"
| "btree_insert k v ((k', v') # m) =
     (if k < k' then (k, v) # (k', v') # m else if k = k' then (k, v) # m else (k', v') # btree_insert k v m)"

definition btree_of :: "(string \<times> 'v) list \<Rightarrow> (string \<times> 'v) list" where
  "btree_of kvs = fold (\<lambda>(k, v). btree_insert k v) kvs []"

record component_config =
  cc_name :: string
  cc_command :: string
  cc_args :: "string list"
  cc_env :: btree_map
  cc_working_dir :: "path option"
  cc_log_path :: "path option"
  cc_readiness :: readiness_check
  cc_required :: bool
  cc_startup_delay_ms :: nat

record sesman_config =
  session_name :: string
  session_user :: string
  xdg_runtime_dir :: path
  state_dir :: path
  log_dir :: path
  default_size :: session_size
  start_timeout_ms :: nat
  stop_timeout_ms :: nat
  idle_timeout_ms :: nat
  environment :: btree_map
  cleanup_paths :: "path list"
  cleanup_globs :: "string list"
  components :: "component_config list"

record component_state =
  cs_name :: string
  cs_pid :: int
  cs_command :: "string list"
  cs_started_at :: int
  cs_start_ticks :: "nat option"
  cs_boot_id :: "string option"
  cs_uid :: "nat option"
  cs_pgid :: "int option"
  cs_required :: bool
  cs_process_group :: bool

record session_state =
  ss_version :: nat
  ss_id :: string
  ss_name :: string
  ss_user :: string
  ss_created_at :: int
  ss_updated_at :: int
  ss_xdg_runtime_dir :: path
  ss_boot_id :: "string option"
  ss_uid :: "nat option"
  ss_gid :: "nat option"
  ss_default_size :: session_size
  ss_requested_size :: "session_size option"
  ss_last_client :: "client_info option"
  ss_active_clients :: u32
  ss_last_disconnected_at :: "int option"
  ss_idle_deadline_at :: "int option"
  ss_components :: "component_state list"

datatype session_health = Missing | Healthy | Degraded | Dead

record session_status =
  st_health :: session_health
  st_state_path :: path
  st_state :: "session_state option"
  st_dead_components :: "string list"

record ensure_options =
  opt_force_restart :: bool
  opt_requested_size :: "session_size option"
  opt_client_peer :: "string option"
  opt_client_connected :: bool

section \<open>Defaults\<close>

definition STATE_VERSION :: nat where "STATE_VERSION = 2"

definition MANAGED_COMPOSITOR_COMPONENT :: string where "MANAGED_COMPOSITOR_COMPONENT = ''wrdp-compositor''"
definition MANAGED_COMPOSITOR_COMMAND :: string where "MANAGED_COMPOSITOR_COMMAND = ''/usr/lib/wrdp/wrdp-compositor''"
definition MANAGED_WRDP_COMPOSITOR_CONFIG_DIR :: string where "MANAGED_WRDP_COMPOSITOR_CONFIG_DIR = ''/etc/wrdp/labwc''"
definition MANAGED_WAYLAND_SOCKET :: string where "MANAGED_WAYLAND_SOCKET = ''wayland-0''"
definition MANAGED_WAYLAND_LOCK :: string where "MANAGED_WAYLAND_LOCK = ''wayland-0.lock''"

definition default_user :: "host \<Rightarrow> string" where
  "default_user h = (case host_user_name h (host_euid h) of None \<Rightarrow> [] | Some u \<Rightarrow> u)"

definition default_xdg_runtime_dir :: "host \<Rightarrow> path" where
  "default_xdg_runtime_dir h =
     (case host_env h ''XDG_RUNTIME_DIR'' of
        Some p \<Rightarrow> p | None \<Rightarrow> ''/run/user/'' @ show_nat (host_euid h) @ ''/wrdp'')"

definition default_state_dir :: "host \<Rightarrow> path" where
  "default_state_dir h = path_join (default_xdg_runtime_dir h) ''sesman''"

definition default_log_dir :: "host \<Rightarrow> path" where
  "default_log_dir h = path_join (default_xdg_runtime_dir h) ''logs''"

definition env_or :: "host \<Rightarrow> string \<Rightarrow> string \<Rightarrow> string" where
  "env_or h name d = (case host_env h name of Some v \<Rightarrow> v | None \<Rightarrow> d)"

definition default_environment :: "host \<Rightarrow> btree_map" where
  "default_environment h = btree_of
     [(''XDG_CURRENT_DESKTOP'', ''wrdp-compositor''),
      (''XDG_SESSION_DESKTOP'', ''wrdp-compositor''),
      (''WLR_BACKENDS'', ''headless''),
      (''WLR_LIBINPUT_NO_DEVICES'', ''1''),
      (''WLR_RENDERER'', env_or h ''WRDP_WLR_RENDERER'' ''gles2''),
      (''WLR_RENDER_DRM_DEVICE'', env_or h ''WRDP_RENDER_DRM_DEVICE'' ''/dev/dri/renderD128''),
      (''WLR_NO_HARDWARE_CURSORS'', ''1''),
      (''LIBVA_DRIVER_NAME'', ''iHD''),
      (''RUST_BACKTRACE'', ''1''),
      (''PATH'', ''/usr/local/bin:/usr/bin:/bin'')]"

definition default_cleanup_paths :: "host \<Rightarrow> path list" where
  "default_cleanup_paths h =
     [path_join (default_xdg_runtime_dir h) MANAGED_WAYLAND_SOCKET, path_join (default_xdg_runtime_dir h) MANAGED_WAYLAND_LOCK]"

definition default_components :: "host \<Rightarrow> component_config list" where
  "default_components h =
     [\<lparr>cc_name = MANAGED_COMPOSITOR_COMPONENT, cc_command = MANAGED_COMPOSITOR_COMMAND,
       cc_args = [''--config-dir'', MANAGED_WRDP_COMPOSITOR_CONFIG_DIR], cc_env = [],
       cc_working_dir = None, cc_log_path = None,
       cc_readiness = UnixSocket (path_join (default_xdg_runtime_dir h) MANAGED_WAYLAND_SOCKET),
       cc_required = True, cc_startup_delay_ms = 250\<rparr>]"

definition sesman_config_default :: "host \<Rightarrow> sesman_config" where
  "sesman_config_default h =
     \<lparr>session_name = ''default'', session_user = default_user h, xdg_runtime_dir = default_xdg_runtime_dir h,
      state_dir = default_state_dir h, log_dir = default_log_dir h, default_size = session_size_default,
      start_timeout_ms = 15000, stop_timeout_ms = 10000, idle_timeout_ms = 30 * 60 * 1000,
      environment = default_environment h, cleanup_paths = default_cleanup_paths h, cleanup_globs = [],
      components = default_components h\<rparr>"

section \<open>Validation and the per-user layout\<close>

datatype config_error =
    EmptySessionName | EmptyUser | InvalidUser username_error | RelativePath | NoComponents
  | EmptyComponentName | DuplicateComponent string | EmptyCommand string | AccountError account_error

fun validate_components :: "string list \<Rightarrow> component_config list \<Rightarrow> (config_error, unit) result" where
  "validate_components seen [] = Ok ()"
| "validate_components seen (c # cs) =
     (if trim (cc_name c) = [] then Err EmptyComponentName
      else if cc_name c \<in> set seen then Err (DuplicateComponent (cc_name c))
      else if trim (cc_command c) = [] then Err (EmptyCommand (cc_name c))
      else validate_components (cc_name c # seen) cs)"

definition validate :: "sesman_config \<Rightarrow> (config_error, unit) result" where
  "validate c =
     (if trim (session_name c) = [] then Err EmptySessionName
      else if trim (session_user c) = [] then Err EmptyUser
      else case validate_username (session_user c) of
             Inl e \<Rightarrow> Err (InvalidUser e)
           | Inr _ \<Rightarrow>
               if \<not> is_absolute (xdg_runtime_dir c) \<or> \<not> is_absolute (state_dir c) \<or> \<not> is_absolute (log_dir c)
               then Err RelativePath
               else if components c = [] then Err NoComponents
               else validate_components [] (components c))"

definition apply_runtime_defaults :: "host \<Rightarrow> sesman_config \<Rightarrow> sesman_config" where
  "apply_runtime_defaults h c =
     c\<lparr>environment := (if environment c = [] then default_environment h else environment c),
       cleanup_paths := (if cleanup_paths c = [] then default_cleanup_paths h else cleanup_paths c),
       cleanup_globs := (if cleanup_globs c = [] then [] else cleanup_globs c),
       components := (if components c = [] then default_components h else components c)\<rparr>"

definition user_component :: "path \<Rightarrow> path \<Rightarrow> component_config \<Rightarrow> component_config" where
  "user_component runtime logs c =
     c\<lparr>cc_log_path := Some (path_join logs (cc_name c @ ''.log'')),
       cc_readiness := (if cc_name c = MANAGED_COMPOSITOR_COMPONENT
                        then UnixSocket (path_join runtime MANAGED_WAYLAND_SOCKET) else cc_readiness c)\<rparr>"

definition for_user :: "host \<Rightarrow> string \<Rightarrow> (config_error, sesman_config) result" where
  "for_user h user =
     (case uid_for_user (host_run h) user of
        Inl e \<Rightarrow> Err (AccountError e)
      | Inr uid \<Rightarrow>
          let runtime = ''/run/user/'' @ show_nat uid @ ''/wrdp'';
              base = sesman_config_default h;
              logs = path_join runtime ''logs'';
              c = base\<lparr>session_user := user, xdg_runtime_dir := runtime,
                       state_dir := ''/run/wrdp/sesman/'' @ show_nat uid, log_dir := logs,
                       cleanup_paths := [path_join runtime MANAGED_WAYLAND_SOCKET, path_join runtime ''wayland-0.lock''],
                       cleanup_globs := [],
                       components := map (user_component runtime logs) (components base)\<rparr>
          in rbind (validate c) (\<lambda>_. Ok c))"

definition state_path :: "sesman_config \<Rightarrow> path" where
  "state_path c = path_join (state_dir c) (session_name c @ ''.state.json'')"

definition lock_path :: "sesman_config \<Rightarrow> path" where
  "lock_path c = path_join (state_dir c) (session_name c @ ''.lock'')"

definition session_state_new :: "host \<Rightarrow> proc_view \<Rightarrow> string \<Rightarrow> int \<Rightarrow> sesman_config \<Rightarrow> session_state" where
  "session_state_new h v uuid now c =
     \<lparr>ss_version = STATE_VERSION, ss_id = uuid, ss_name = session_name c, ss_user = session_user c,
      ss_created_at = now, ss_updated_at = now, ss_xdg_runtime_dir = xdg_runtime_dir c,
      ss_boot_id = read_boot_id v,
      ss_uid = (case uid_for_user (host_run h) (session_user c) of Inr u \<Rightarrow> Some u | Inl _ \<Rightarrow> None),
      ss_gid = (case gid_for_user (host_run h) (session_user c) of Inr g \<Rightarrow> Some g | Inl _ \<Rightarrow> None),
      ss_default_size = default_size c, ss_requested_size = None, ss_last_client = None, ss_active_clients = 0,
      ss_last_disconnected_at = None, ss_idle_deadline_at = None, ss_components = []\<rparr>"

definition mark_updated :: "int \<Rightarrow> session_state \<Rightarrow> session_state" where
  "mark_updated now s = s\<lparr>ss_updated_at := now\<rparr>"

section \<open>Facts about validation\<close>

lemma validate_components_Ok:
  "validate_components seen cs = Ok () \<longleftrightarrow>
     distinct (map cc_name cs) \<and> set (map cc_name cs) \<inter> set seen = {} \<and>
     (\<forall>c \<in> set cs. trim (cc_name c) \<noteq> [] \<and> trim (cc_command c) \<noteq> [])"
  by (induction seen cs rule: validate_components.induct) auto

lemma parent_state_dir_uid:
  "uid_for_user run u = Ok a \<Longrightarrow> a < 2 ^ 32"
  by (auto simp: uid_for_user_def user_id_field_def parse_unsigned_def split: option.splits if_splits)

lemma show_nat_inject: "show_nat a = show_nat b \<longleftrightarrow> a = b"
  by (metis parse_nat_show option.inject)

section \<open>Properties\<close>

text \<open>
  The production layout separates users: a per-user configuration that could be built has
  a valid user name, absolute paths, its registry in the root-owned tree
  \<open>/run/wrdp/sesman/<uid>\<close> and its runtime below \<open>/run/user/<uid>\<close>, validated components with distinct
  names; and two users with different user ids have different registries and runtimes.
\<close>

theorem per_user_layout:
  assumes "for_user h user = Ok c" "uid_for_user (host_run h) user = Ok uid"
  shows "validate_username user = Ok () \<and> session_user c = user \<and>
    state_path c = ''/run/wrdp/sesman/'' @ show_nat uid @ ''/default.state.json'' \<and>
    xdg_runtime_dir c = ''/run/user/'' @ show_nat uid @ ''/wrdp'' \<and>
    distinct (map cc_name (components c)) \<and> components c \<noteq> [] \<and>
    (\<forall>user' c' uid'. for_user h user' = Ok c' \<and> uid_for_user (host_run h) user' = Ok uid' \<and> uid \<noteq> uid' \<longrightarrow>
       state_dir c \<noteq> state_dir c' \<and> xdg_runtime_dir c \<noteq> xdg_runtime_dir c')"
proof -
  have layout: "validate c' = Ok () \<and> session_user c' = user' \<and> session_name c' = ''default'' \<and>
      state_dir c' = ''/run/wrdp/sesman/'' @ show_nat uid' \<and> xdg_runtime_dir c' = ''/run/user/'' @ show_nat uid' @ ''/wrdp''"
    if "for_user h user' = Ok c'" "uid_for_user (host_run h) user' = Ok uid'" for user' c' uid'
    using that by (auto simp: for_user_def Let_def rbind_eq_Inr sesman_config_default_def)
  note l = layout[OF assms]
  have "validate_username user = Ok () \<and> components c \<noteq> [] \<and> validate_components [] (components c) = Ok ()"
    using l by (auto simp: validate_def split: sum.splits if_splits)
  moreover have "state_path c = ''/run/wrdp/sesman/'' @ show_nat uid @ ''/default.state.json''"
  proof -
    have "last (''/run/wrdp/sesman/'' @ show_nat uid) = last (show_nat uid)" by (simp add: last_append)
    moreover have "last (show_nat uid) \<noteq> CHR ''/''"
      using show_nat_digits[of "last (show_nat uid)" uid] by (auto simp: char_is_ascii_digit_def)
    ultimately show ?thesis using l by (simp add: state_path_def path_join_def is_absolute_def)
  qed
  moreover have "state_dir c \<noteq> state_dir c' \<and> xdg_runtime_dir c \<noteq> xdg_runtime_dir c'"
    if "for_user h user' = Ok c'" "uid_for_user (host_run h) user' = Ok uid'" "uid \<noteq> uid'" for user' c' uid'
    using l layout[OF that(1,2)] that(3) by (simp add: show_nat_inject)
  ultimately show ?thesis using l validate_components_Ok[of "[]" "components c"] by blast
qed

definition example_host :: host where
  "example_host = \<lparr>host_euid = 0, host_egid = 0, host_user_name = (\<lambda>_. Some ''root''), host_env = (\<lambda>_. None),
     host_run = (\<lambda>args. if args = [''id'', ''-u'', ''ann''] \<or> args = [''id'', ''-g'', ''ann''] then Some (True, ''7'') else None)\<rparr>"

lemma example_uid: "uid_for_user (host_run example_host) ''ann'' = Ok 7" "gid_for_user (host_run example_host) ''ann'' = Ok 7"
  by (simp_all add: uid_for_user_def gid_for_user_def user_id_field_def example_host_def trim_def trim_start_def trim_end_def
      char_is_whitespace_def parse_unsigned_def parse_nat_def char_is_ascii_digit_def)

theorem per_user_layout_witness:
  "\<exists>c. for_user example_host ''ann'' = Ok c \<and> state_path c = ''/run/wrdp/sesman/7/default.state.json''"
proof -
  have u: "validate_username ''ann'' = Ok ()"
    by (simp add: validate_username_def str_len_def utf8_width_def char_is_control_def username_char_def
        char_is_alphanumeric_def Let_def normalize_local_account_name_def rsplit_once_def split_once.simps)
  have "\<exists>c. for_user example_host ''ann'' = Ok c"
    by (simp add: for_user_def example_uid Let_def validate_def u trim_def trim_start_def trim_end_def char_is_whitespace_def
        sesman_config_default_def is_absolute_def path_join_def default_components_def user_component_def
        MANAGED_COMPOSITOR_COMPONENT_def MANAGED_COMPOSITOR_COMMAND_def)
  then obtain c where c: "for_user example_host ''ann'' = Ok c" by blast
  have "show_nat 7 = ''7''" by code_simp
  with per_user_layout[OF c example_uid(1)] c show ?thesis by auto
qed

end
