(* ===== verification/Wrdp_Sesman_Dirs.thy ===== *)
theory Wrdp_Sesman_Dirs
  imports Wrdp_Sesman_State
begin

text \<open>
  Trusted directories of the session manager: \<open>ensure_secure_directory\<close> and
  \<open>prepare_directories\<close> of \<open>src/src/sesman/mod.rs\<close>.

  The file system is a map from absolute component lists to nodes.  A missing directory is made by
  the parameter \<open>mk\<close>: it is created (with the node the process would create), another
  process creates something there first, or the call fails.  The checks and the final
  ownership and permission changes act on one and the same tree.
\<close>

datatype file_kind = Regular | Directory | Symlink | Socket | OtherKind

record node =
  node_kind :: file_kind
  node_uid :: nat
  node_gid :: nat
  node_mode :: nat

type_synonym tree = "string list \<Rightarrow> node option"

datatype mkdir_outcome = Created node | Raced node | MkdirFailed

datatype dir_error =
    NotAbsolute path | UnsafePath path | UnsafeDirectory "string list" | CreateFailed "string list"
  | NotOwned path nat nat | OpenFailed path | UnsafeRuntimeRoot nat | DirAccount account_error

definition is_plain_dir :: "tree \<Rightarrow> string list \<Rightarrow> bool" where
  "is_plain_dir t p = (case t p of Some n \<Rightarrow> node_kind n = Directory | None \<Rightarrow> False)"

text \<open>
  The loop over the path's components: \<open>done\<close> is the part already checked.  It returns the tree
  and whether the last component was created.
\<close>

fun walk :: "(string list \<Rightarrow> mkdir_outcome) \<Rightarrow> path \<Rightarrow> string list \<Rightarrow> component list \<Rightarrow> tree \<Rightarrow> (dir_error, tree \<times> bool) result" where
  "walk mk p done [] t = Ok (t, False)"
| "walk mk p done (RootDir # cs) t = walk mk p done cs t"
| "walk mk p done (Normal name # cs) t =
     (let cur = done @ [name] in
      case t cur of
        Some n \<Rightarrow> if node_kind n \<noteq> Directory then Err (UnsafeDirectory cur) else walk mk p cur cs t
      | None \<Rightarrow>
          (case mk cur of
             MkdirFailed \<Rightarrow> Err (CreateFailed cur)
           | Created n \<Rightarrow>
               rbind (walk mk p cur cs (t(cur \<mapsto> n\<lparr>node_kind := Directory\<rparr>)))
                 (\<lambda>(t', leaf). Ok (t', leaf \<or> cs = []))
           | Raced n \<Rightarrow>
               if node_kind n \<noteq> Directory then Err (UnsafeDirectory cur)
               else walk mk p cur cs (t(cur \<mapsto> n))))"
| "walk mk p done (CurDir # cs) t = Err (UnsafePath p)"
| "walk mk p done (ParentDir # cs) t = Err (UnsafePath p)"

fun normal_names :: "component list \<Rightarrow> string list" where
  "normal_names [] = []"
| "normal_names (Normal n # cs) = n # normal_names cs"
| "normal_names (_ # cs) = normal_names cs"

definition ensure_secure_directory ::
  "(string list \<Rightarrow> mkdir_outcome) \<Rightarrow> path \<Rightarrow> nat \<Rightarrow> nat \<Rightarrow> bool \<Rightarrow> tree \<Rightarrow> (dir_error, tree) result" where
  "ensure_secure_directory mk p uid gid chown_created t =
     (if \<not> is_absolute p then Err (NotAbsolute p)
      else rbind (walk mk p [] (path_components p) t) (\<lambda>(t1, created_leaf).
        let leaf = normal_names (path_components p) in
        case t1 leaf of
          None \<Rightarrow> Err (OpenFailed p)
        | Some n \<Rightarrow>
            if node_kind n \<noteq> Directory then Err (UnsafeDirectory leaf)
            else let n1 = (if created_leaf \<and> chown_created then n\<lparr>node_uid := uid, node_gid := gid\<rparr> else n)
                 in if node_uid n1 \<noteq> uid \<or> node_gid n1 \<noteq> gid then Err (NotOwned p uid gid)
                    else Ok (t1(leaf \<mapsto> n1\<lparr>node_mode := 448\<rparr>))))"

definition is_production_runtime :: "sesman_config \<Rightarrow> nat \<Rightarrow> bool" where
  "is_production_runtime c target_uid = path_eq (xdg_runtime_dir c) (''/run/user/'' @ show_nat target_uid @ ''/wrdp'')"

definition is_production_registry :: "host \<Rightarrow> sesman_config \<Rightarrow> bool" where
  "is_production_registry h c =
     (case uid_for_user (host_run h) (session_user c) of
        Inr uid \<Rightarrow> path_eq (state_dir c) (''/run/wrdp/sesman/'' @ show_nat uid) | Inl _ \<Rightarrow> False)"

definition runtime_root_ok :: "sesman_config \<Rightarrow> nat \<Rightarrow> tree \<Rightarrow> bool" where
  "runtime_root_ok c target_uid t =
     (\<not> is_production_runtime c target_uid \<or>
      (case t [''run'', ''user'', show_nat target_uid] of
         Some n \<Rightarrow> node_kind n = Directory \<and> node_uid n = target_uid | None \<Rightarrow> False))"

definition prepare_directories ::
  "host \<Rightarrow> sesman_config \<Rightarrow> (string list \<Rightarrow> mkdir_outcome) \<Rightarrow> tree \<Rightarrow> (dir_error, tree) result" where
  "prepare_directories h c mk t =
     (case uid_for_user (host_run h) (session_user c) of Inl e \<Rightarrow> Err (DirAccount e)
      | Inr target_uid \<Rightarrow>
     (case gid_for_user (host_run h) (session_user c) of Inl e \<Rightarrow> Err (DirAccount e)
      | Inr target_gid \<Rightarrow>
          if \<not> runtime_root_ok c target_uid t then Err (UnsafeRuntimeRoot target_uid)
          else rbind (ensure_secure_directory mk (state_dir c) (host_euid h) (host_egid h) True t) (\<lambda>t1.
               rbind (ensure_secure_directory mk (xdg_runtime_dir c) target_uid target_gid True t1) (\<lambda>t2.
               ensure_secure_directory mk (log_dir c) target_uid target_gid True t2))))"

section \<open>What the walk guarantees\<close>

text \<open>
  Every component reached is a real directory afterwards, existing nodes are never changed, and
  the last component was created exactly if the walk says so.
\<close>

lemma extends_update:
  assumes "\<forall>q m. (t(k \<mapsto> n)) q = Some m \<longrightarrow> t' q = Some m" "t k = None"
  shows "\<forall>q m. t q = Some m \<longrightarrow> t' q = Some m" "t' k = Some n"
proof -
  show "t' k = Some n" using assms(1) by simp
  show "\<forall>q m. t q = Some m \<longrightarrow> t' q = Some m"
  proof (intro allI impI)
    fix q m assume "t q = Some m"
    with assms(2) have "(t(k \<mapsto> n)) q = Some m" by auto
    with assms(1) show "t' q = Some m" by blast
  qed
qed

lemma walk_Ok:
  "walk mk p dn cs t = Ok (t', leaf) \<Longrightarrow>
     (\<forall>q n. t q = Some n \<longrightarrow> t' q = Some n) \<and>
     (\<forall>k. 0 < k \<and> k \<le> length (normal_names cs) \<longrightarrow> is_plain_dir t' (dn @ take k (normal_names cs))) \<and>
     list_all (\<lambda>x. x \<noteq> CurDir \<and> x \<noteq> ParentDir) cs \<and>
     (leaf \<longrightarrow> normal_names cs \<noteq> [] \<and> t (dn @ normal_names cs) = None)"
proof (induction mk p dn cs t arbitrary: t' leaf rule: walk.induct)
  case (3 mk p dn name cs t)
  let ?cur = "dn @ [name]"
  have dirs: "is_plain_dir t' (dn @ take k (normal_names (Normal name # cs)))"
    if "0 < k" "k \<le> length (normal_names (Normal name # cs))" "is_plain_dir t' ?cur"
      "\<forall>j. 0 < j \<and> j \<le> length (normal_names cs) \<longrightarrow> is_plain_dir t' (?cur @ take j (normal_names cs))" for k
    using that by (cases k; cases "k = 1") auto
  show ?case
  proof (cases "t ?cur")
    case (Some n)
    with 3(4) have w: "walk mk p ?cur cs t = Ok (t', leaf)" "node_kind n = Directory" by (auto simp: Let_def split: if_splits)
    note ih = 3(3)[OF refl Some _ w(1)]
    with w(2) Some dirs show ?thesis by (auto simp: is_plain_dir_def)
  next
    case None
    show ?thesis
    proof (cases "mk ?cur")
      case (Created n)
      with None 3(4) obtain lf where w: "walk mk p ?cur cs (t(?cur \<mapsto> n\<lparr>node_kind := Directory\<rparr>)) = Ok (t', lf)"
        "leaf = (lf \<or> cs = [])"
        by (auto simp: rbind_eq_Inr Let_def)
      note ih = 3(1)[OF refl None Created w(1)]
      note e = extends_update[OF conjunct1[OF ih] None]
      have "is_plain_dir t' ?cur" using e(2) by (simp add: is_plain_dir_def)
      moreover note e(1)
      moreover have "leaf \<longrightarrow> t (dn @ normal_names (Normal name # cs)) = None"
      proof
        assume leaf
        with w(2) consider "lf" | "cs = []" by blast
        then show "t (dn @ normal_names (Normal name # cs)) = None"
        proof cases
          case 1
          with ih have "normal_names cs \<noteq> []" "(t(?cur \<mapsto> n\<lparr>node_kind := Directory\<rparr>)) (?cur @ normal_names cs) = None" by auto
          then show ?thesis by (auto split: if_splits)
        qed (use None in simp)
      qed
      ultimately show ?thesis using ih dirs by auto
    next
      case (Raced n)
      with None 3(4) have w: "walk mk p ?cur cs (t(?cur \<mapsto> n)) = Ok (t', leaf)" "node_kind n = Directory"
        by (auto simp: Let_def split: if_splits)
      note ih = 3(2)[OF refl None Raced _ w(1)]
      have "\<not> node_kind n \<noteq> Directory" using w(2) by simp
      note ih = ih[OF this]
      note e = extends_update[OF conjunct1[OF ih] None]
      have "is_plain_dir t' ?cur" using e(2) w(2) by (simp add: is_plain_dir_def)
      moreover note e(1)
      moreover have "leaf \<longrightarrow> t (dn @ normal_names (Normal name # cs)) = None"
        using ih w(2) by (auto split: if_splits)
      ultimately show ?thesis using ih dirs w(2) by auto
    next
      case MkdirFailed
      with None 3(4) show ?thesis by simp
    qed
  qed
qed auto

text \<open>The node at \<open>p\<close> is a private directory of the given owner.\<close>

definition private_dir :: "tree \<Rightarrow> path \<Rightarrow> nat \<Rightarrow> nat \<Rightarrow> bool" where
  "private_dir t p uid gid \<longleftrightarrow>
     (case t (normal_names (path_components p)) of None \<Rightarrow> False
      | Some n \<Rightarrow> node_kind n = Directory \<and> node_uid n = uid \<and> node_gid n = gid \<and> node_mode n = 448)"

text \<open>
  A node below \<open>leaves\<close>, the directories that are managed, keeps its kind and its owner and becomes
  owner-only; every other node that existed is left exactly as it was.
\<close>

definition leaf_of :: "path \<Rightarrow> string list" where
  "leaf_of p = normal_names (path_components p)"

definition keeps_nodes :: "string list set \<Rightarrow> tree \<Rightarrow> tree \<Rightarrow> bool" where
  "keeps_nodes leaves t t' \<longleftrightarrow>
     (\<forall>q n. t q = Some n \<longrightarrow> t' q = Some (if q \<in> leaves then n\<lparr>node_mode := 448\<rparr> else n))"

lemma keeps_nodes_trans:
  assumes "keeps_nodes A a b" "keeps_nodes B b c"
  shows "keeps_nodes (A \<union> B) a c"
  using assms unfolding keeps_nodes_def by fastforce

lemma keeps_nodes_private: "keeps_nodes A t t' \<Longrightarrow> private_dir t p u g \<Longrightarrow> private_dir t' p u g"
  unfolding keeps_nodes_def private_dir_def by (fastforce split: option.splits)

lemma keeps_nodes_plain: "keeps_nodes A t t' \<Longrightarrow> is_plain_dir t q \<Longrightarrow> is_plain_dir t' q"
  unfolding keeps_nodes_def is_plain_dir_def by (fastforce split: option.splits)

text \<open>Every ancestor and the directory itself is a real directory, not a symbolic link.\<close>

definition plain_path :: "tree \<Rightarrow> path \<Rightarrow> bool" where
  "plain_path t p \<longleftrightarrow> is_absolute p \<and> list_all (\<lambda>x. x \<noteq> CurDir \<and> x \<noteq> ParentDir) (path_components p) \<and>
     (\<forall>k. 0 < k \<and> k \<le> length (normal_names (path_components p)) \<longrightarrow>
        is_plain_dir t (take k (normal_names (path_components p))))"

lemma keeps_nodes_plain_path: "keeps_nodes A t t' \<Longrightarrow> plain_path t p \<Longrightarrow> plain_path t' p"
  using keeps_nodes_plain unfolding plain_path_def by blast

lemma ensure_secure_directory_Ok:
  assumes "ensure_secure_directory mk p uid gid ch t = Ok t'"
  shows "plain_path t' p" "private_dir t' p uid gid" "keeps_nodes {leaf_of p} t t'"
proof -
  let ?leaf = "normal_names (path_components p)"
  from assms obtain t1 cl n n1 where a: "is_absolute p" and w: "walk mk p [] (path_components p) t = Ok (t1, cl)"
    and n: "t1 ?leaf = Some n" "node_kind n = Directory"
    and n1: "n1 = (if cl \<and> ch then n\<lparr>node_uid := uid, node_gid := gid\<rparr> else n)" "node_uid n1 = uid" "node_gid n1 = gid"
    and t': "t' = t1(?leaf \<mapsto> n1\<lparr>node_mode := 448\<rparr>)"
    by (fastforce simp: ensure_secure_directory_def rbind_eq_Inr Let_def split: if_splits option.splits prod.splits)
  note wk = walk_Ok[OF w]
  have k: "node_kind n1 = Directory" using n(2) n1(1) by simp
  show "private_dir t' p uid gid" using k n1(2,3) by (simp add: private_dir_def t')
  have pd: "is_plain_dir t' q" if "is_plain_dir t1 q" for q
    using that k by (auto simp: is_plain_dir_def t')
  then show "plain_path t' p" using wk a by (auto simp: plain_path_def)
  have "n1 = n" if "t ?leaf \<noteq> None" using that wk n1(1) by auto
  then show "keeps_nodes {leaf_of p} t t'"
    using wk n(1) by (auto simp: keeps_nodes_def leaf_of_def t')
qed

section \<open>Properties\<close>

text \<open>
  C14.  Preparing the directories either fails or leaves the registry, the runtime and
  the log directory as real directories without symbolic links on their way, private to the daemon
  and to the session's user respectively; these three keep the kind and
  the owner they had, every other node that existed, the ancestors included, is left exactly as it was, mode and all; and a production runtime is only accepted below a directory that the user owns.
\<close>

theorem prepared_directories_are_private:
  assumes "prepare_directories h c mk t = Ok t'"
  shows "\<exists>uid gid. uid_for_user (host_run h) (session_user c) = Ok uid \<and> gid_for_user (host_run h) (session_user c) = Ok gid \<and>
    plain_path t' (state_dir c) \<and> private_dir t' (state_dir c) (host_euid h) (host_egid h) \<and>
    plain_path t' (xdg_runtime_dir c) \<and> private_dir t' (xdg_runtime_dir c) uid gid \<and>
    plain_path t' (log_dir c) \<and> private_dir t' (log_dir c) uid gid \<and>
    keeps_nodes {leaf_of (state_dir c), leaf_of (xdg_runtime_dir c), leaf_of (log_dir c)} t t' \<and> runtime_root_ok c uid t"
proof -
  from assms obtain uid gid t1 t2 where u: "uid_for_user (host_run h) (session_user c) = Ok uid"
    "gid_for_user (host_run h) (session_user c) = Ok gid" "runtime_root_ok c uid t"
    and e: "ensure_secure_directory mk (state_dir c) (host_euid h) (host_egid h) True t = Ok t1"
    "ensure_secure_directory mk (xdg_runtime_dir c) uid gid True t1 = Ok t2"
    "ensure_secure_directory mk (log_dir c) uid gid True t2 = Ok t'"
    by (auto simp: prepare_directories_def rbind_eq_Inr split: sum.splits if_splits)
  note s1 = ensure_secure_directory_Ok[OF e(1)]
  note s2 = ensure_secure_directory_Ok[OF e(2)]
  note s3 = ensure_secure_directory_Ok[OF e(3)]
  note r13 = keeps_nodes_trans[OF s2(3) s3(3)]
  have r: "keeps_nodes {leaf_of (state_dir c), leaf_of (xdg_runtime_dir c), leaf_of (log_dir c)} t t'"
    using keeps_nodes_trans[OF s1(3) r13] by (simp add: insert_commute)
  from u s3 keeps_nodes_private[OF s3(3) s2(2)] keeps_nodes_plain_path[OF s3(3) s2(1)]
    keeps_nodes_private[OF r13 s1(2)] keeps_nodes_plain_path[OF r13 s1(1)] r
  show ?thesis by blast
qed

text \<open>A tree with the two parents, in which the three leaves are created.\<close>

definition example_sesman_config :: sesman_config where
  "example_sesman_config = (sesman_config_default example_host)\<lparr>session_user := ''ann'', xdg_runtime_dir := ''/a/r'', state_dir := ''/a/s'', log_dir := ''/a/l''\<rparr>"

definition example_tree :: tree where
  "example_tree q = (if q = [''a''] then Some \<lparr>node_kind = Directory, node_uid = 0, node_gid = 0, node_mode = 493\<rparr> else None)"

definition example_mk :: "string list \<Rightarrow> mkdir_outcome" where
  "example_mk q = Created \<lparr>node_kind = Directory, node_uid = 0, node_gid = 0, node_mode = 493\<rparr>"

lemma example_directories: "\<exists>t'. prepare_directories example_host example_sesman_config example_mk example_tree = Ok t'"
proof -
  have pc: "path_components ''/a/r'' = [RootDir, Normal ''a'', Normal ''r'']" "path_components ''/a/s'' = [RootDir, Normal ''a'', Normal ''s'']"
    "path_components ''/a/l'' = [RootDir, Normal ''a'', Normal ''l'']"
    "path_components (''/run/user/'' @ show_nat 7 @ ''/wrdp'') = [RootDir, Normal ''run'', Normal ''user'', Normal ''7'', Normal ''wrdp'']"
    by code_simp+
  have rr: "runtime_root_ok example_sesman_config 7 example_tree"
    using pc by (simp add: runtime_root_ok_def is_production_runtime_def path_eq_def example_sesman_config_def)
  have ab: "is_absolute ''/a/r''" "is_absolute ''/a/s''" "is_absolute ''/a/l''" by (simp_all add: is_absolute_def)
  show ?thesis
    using rr by (simp add: prepare_directories_def example_uid example_sesman_config_def ensure_secure_directory_def pc ab
        example_tree_def example_mk_def Let_def)
qed

theorem prepared_directories_are_private_witness:
  "\<exists>t'. prepare_directories example_host example_sesman_config example_mk example_tree = Ok t' \<and> private_dir t' ''/a/s'' 0 0 \<and> private_dir t' ''/a/l'' 7 7 \<and>
     t' [''a''] = example_tree [''a'']"
proof -
  from example_directories
  obtain t' where p: "prepare_directories example_host example_sesman_config example_mk example_tree = Ok t'" by blast
  have "host_euid example_host = 0" "host_egid example_host = 0" "session_user example_sesman_config = ''ann''"
    "state_dir example_sesman_config = ''/a/s''" "log_dir example_sesman_config = ''/a/l''"
    "xdg_runtime_dir example_sesman_config = ''/a/r''"
    by (simp_all add: example_host_def example_sesman_config_def)
  with prepared_directories_are_private[OF p] example_uid
  have "private_dir t' ''/a/s'' 0 0" "private_dir t' ''/a/l'' 7 7"
    "keeps_nodes {leaf_of ''/a/s'', leaf_of ''/a/r'', leaf_of ''/a/l''} example_tree t'" by auto
  moreover have "leaf_of ''/a/s'' = [''a'', ''s'']" "leaf_of ''/a/r'' = [''a'', ''r'']" "leaf_of ''/a/l'' = [''a'', ''l'']"
    by code_simp+
  moreover obtain n where "example_tree [''a''] = Some n" by (simp add: example_tree_def)
  ultimately show ?thesis using p by (auto simp: keeps_nodes_def)
qed

end
