(* ===== verification/Wrdp_Sesman_Manager.thy ===== *)
theory Wrdp_Sesman_Manager
  imports Wrdp_Sesman_Dirs
begin

text \<open>
  The session manager (\<open>SessionManager\<close> of \<open>src/src/sesman/mod.rs\<close>): status, start and reuse, client
  binding, idle cleanup, restart reconciliation and teardown.

  The machine the manager runs on is a record \<open>machine\<close> of functions of an observation number:
  the manager counts the moments at which it looks at the system or acts on it, and what it sees at
  one observation says nothing about the next, so that processes may die, be replaced or
  change identity between any two steps.  The manager's own effects are the fields of \<open>world\<close>:
  the registry file, the signals it has sent (with the observation number of each), the directories,
  the time it has slept.  The monotonic clock at a moment is what the machine shows plus the time slept.
  Serialisation of the registry is the identity; a file that does not parse holds \<open>None\<close>.
\<close>

section \<open>The machine and the world\<close>

datatype signal_kind = SIGTERM | SIGKILL

datatype registry_file = RegAbsent | RegFile file_kind nat "session_state option"

text \<open>What \<open>Child::try_wait\<close> reports.\<close>

datatype child_wait = StillRunning | HasExited | WaitFailed

record sent_signal =
  sent_at :: nat
  sent_pid :: int
  sent_group :: bool
  sent_kind :: signal_kind

record machine =
  sm_config :: sesman_config
  sm_host :: host
  view_at :: "nat \<Rightarrow> proc_view"
  clock_at :: "nat \<Rightarrow> instant"
  wall_at :: "nat \<Rightarrow> int"
  fs_at :: "nat \<Rightarrow> fs_view"
  socket_at :: "nat \<Rightarrow> path \<Rightarrow> (file_kind \<times> nat) option"
  connect_at :: "nat \<Rightarrow> path \<Rightarrow> bool"
  kill_at :: "nat \<Rightarrow> bool"
  inspect_at :: "nat \<Rightarrow> bool"
  io_at :: "nat \<Rightarrow> bool"
  lock_at :: "nat \<Rightarrow> bool"
  mkdir_at :: "nat \<Rightarrow> string list \<Rightarrow> mkdir_outcome"
  fork_at :: "nat \<Rightarrow> component_config \<Rightarrow> int option"
  wait_at :: "nat \<Rightarrow> int \<Rightarrow> child_wait"
  uuid_at :: "nat \<Rightarrow> string"

record world =
  obs :: nat
  slept :: duration
  registry :: registry_file
  sent :: "sent_signal list"
  dirs :: tree

datatype sesman_error =
    AlreadyLocked | UnsafeStateFile | UntrustedStateFile | ParseFailed | IoFailed
  | CannotBind session_health | StatusWithoutState | SignalFailed int | Survived "string list"
  | CleanupFailed cleanup_error | DirectoryFailed dir_error | AccountFailed account_error
  | SpawnFailed string | PidOutOfRange | NeverSettled string
  | ComponentExited string | ReadinessTimeout string
  | StartupFailed sesman_error | StartupAndCleanupFailed sesman_error sesman_error

type_synonym 'a act = "world \<Rightarrow> (sesman_error, 'a) result \<times> world"

definition tick :: "world \<Rightarrow> world" where
  "tick w = w\<lparr>obs := Suc (obs w)\<rparr>"

definition instant_now :: "machine \<Rightarrow> world \<Rightarrow> instant" where
  "instant_now m w = clock_at m (obs w) + slept w"

definition sleep :: "duration \<Rightarrow> world \<Rightarrow> world" where
  "sleep d w = w\<lparr>slept := slept w + d\<rparr>"

definition bindm :: "'a act \<Rightarrow> ('a \<Rightarrow> 'b act) \<Rightarrow> 'b act" where
  "bindm a f w = (case a w of (Inl e, w1) \<Rightarrow> (Inl e, w1) | (Inr x, w1) \<Rightarrow> f x w1)"

definition ret :: "'a \<Rightarrow> 'a act" where "ret x w = (Inr x, w)"

section \<open>The registry file\<close>

definition file_trusted :: "machine \<Rightarrow> nat \<Rightarrow> bool" where
  "file_trusted m owner \<longleftrightarrow> \<not> is_production_registry (sm_host m) (sm_config m) \<or> owner = host_euid (sm_host m)"

definition read_state :: "machine \<Rightarrow> session_state option act" where
  "read_state m w =
     (if \<not> inspect_at m (obs w) then (Err IoFailed, tick w) else
      case registry w of
        RegAbsent \<Rightarrow> (Ok None, tick w)
      | RegFile kind owner content \<Rightarrow>
          if kind \<noteq> Regular then (Err UnsafeStateFile, tick w)
          else if \<not> file_trusted m owner then (Err UntrustedStateFile, tick w)
          else if \<not> io_at m (obs w) then (Err IoFailed, tick w)
          else case content of None \<Rightarrow> (Err ParseFailed, tick w) | Some s \<Rightarrow> (Ok (Some s), tick w))"

text \<open>The temporary file is renamed over the registry file, which fails only on a directory.\<close>

definition is_directory_entry :: "registry_file \<Rightarrow> bool" where
  "is_directory_entry r = (case r of RegFile kind _ _ \<Rightarrow> kind = Directory | RegAbsent \<Rightarrow> False)"

definition write_state :: "machine \<Rightarrow> session_state \<Rightarrow> unit act" where
  "write_state m s w =
     (if io_at m (obs w) \<and> \<not> is_directory_entry (registry w)
      then (Ok (), tick (w\<lparr>registry := RegFile Regular (host_euid (sm_host m)) (Some s)\<rparr>))
      else (Err IoFailed, tick w))"

definition remove_state_file :: "machine \<Rightarrow> unit act" where
  "remove_state_file m w =
     (if \<not> inspect_at m (obs w) then (Err IoFailed, tick w) else
      case registry w of
        RegAbsent \<Rightarrow> (Ok (), tick w)
      | RegFile kind owner content \<Rightarrow>
          if kind \<noteq> Regular then (Err UnsafeStateFile, tick w)
          else if \<not> file_trusted m owner then (Err UntrustedStateFile, tick w)
          else if io_at m (obs w) then (Ok (), tick (w\<lparr>registry := RegAbsent\<rparr>)) else (Err IoFailed, tick w))"

definition acquire_lock :: "machine \<Rightarrow> unit act" where
  "acquire_lock m w =
     (if \<not> io_at m (obs w) then (Err IoFailed, tick w)
      else if lock_at m (obs w) then (Ok (), tick w) else (Err AlreadyLocked, tick w))"

section \<open>Status\<close>

definition component_signature :: "component_state \<Rightarrow> process_signature" where
  "component_signature c =
     \<lparr>sig_pid = cs_pid c, sig_command = cs_command c, sig_started_at = cs_started_at c,
      sig_start_ticks = cs_start_ticks c, sig_boot_id = cs_boot_id c, sig_uid = cs_uid c, sig_pgid = cs_pgid c\<rparr>"

definition ok_option :: "'e + 'a \<Rightarrow> 'a option" where
  "ok_option r = (case r of Inr a \<Rightarrow> Some a | Inl _ \<Rightarrow> None)"

definition state_belongs_to_config :: "machine \<Rightarrow> proc_view \<Rightarrow> session_state \<Rightarrow> bool" where
  "state_belongs_to_config m v s \<longleftrightarrow>
     (let c = sm_config m; run = host_run (sm_host m) in
      ss_version s = STATE_VERSION \<and> ss_name s = session_name c \<and> ss_user s = session_user c \<and>
      path_eq (ss_xdg_runtime_dir s) (xdg_runtime_dir c) \<and> ss_boot_id s = read_boot_id v \<and>
      ss_uid s = ok_option (uid_for_user run (session_user c)) \<and>
      ss_gid s = ok_option (gid_for_user run (session_user c)))"

definition unix_socket_ready :: "machine \<Rightarrow> nat \<Rightarrow> path \<Rightarrow> bool" where
  "unix_socket_ready m k p =
     (case uid_for_user (host_run (sm_host m)) (session_user (sm_config m)) of Inl _ \<Rightarrow> False
      | Inr target_uid \<Rightarrow> (case socket_at m k p of None \<Rightarrow> False
          | Some (kind, owner) \<Rightarrow> kind = Socket \<and> owner = target_uid \<and> connect_at m k p))"

definition readiness_met :: "machine \<Rightarrow> nat \<Rightarrow> readiness_check \<Rightarrow> bool" where
  "readiness_met m k r = (case r of UnixSocket p \<Rightarrow> unix_socket_ready m k p | _ \<Rightarrow> True)"

definition component_ready :: "machine \<Rightarrow> nat \<Rightarrow> component_config \<Rightarrow> component_state \<Rightarrow> bool" where
  "component_ready m k cc cs \<longleftrightarrow>
     cs_command cs = cc_command cc # cc_args cc \<and>
     process_matches (view_at m k) (component_signature cs) Status \<and> readiness_met m k (cc_readiness cc)"

text \<open>The loop over the configured components: alive count and dead names; one observation each.\<close>

fun check_components :: "machine \<Rightarrow> session_state \<Rightarrow> component_config list \<Rightarrow> world \<Rightarrow> nat \<times> string list \<times> world" where
  "check_components m s [] w = (0, [], w)"
| "check_components m s (cc # ccs) w =
     (let (alive, dead, w') = check_components m s ccs (tick w) in
      case find (\<lambda>cs. cs_name cs = cc_name cc) (ss_components s) of
        None \<Rightarrow> (alive, (if cc_required cc then [cc_name cc] else []) @ dead, w')
      | Some cs \<Rightarrow> if component_ready m (obs w) cc cs then (Suc alive, dead, w') else (alive, cs_name cs # dead, w'))"

definition removed_components :: "sesman_config \<Rightarrow> session_state \<Rightarrow> string list" where
  "removed_components c s =
     map cs_name (filter (\<lambda>cs. \<not> list_ex (\<lambda>cc. cc_name cc = cs_name cs) (components c)) (ss_components s))"

definition classify :: "machine \<Rightarrow> session_state \<Rightarrow> world \<Rightarrow> session_status \<times> world" where
  "classify m s w =
     (let (alive, dead, w') =
            (if \<not> state_belongs_to_config m (view_at m (obs w)) s then (0, [''session-registry''], tick w)
             else let (a, d, w1) = check_components m s (components (sm_config m)) (tick w)
                  in (a, d @ removed_components (sm_config m) s, w1));
          health = (if dead = [] then Healthy else if alive = 0 then Dead else Degraded)
      in (\<lparr>st_health = health, st_state_path = state_path (sm_config m), st_state = Some s, st_dead_components = dead\<rparr>, w'))"

definition status :: "machine \<Rightarrow> session_status act" where
  "status m = bindm (read_state m) (\<lambda>st w.
     case st of
       None \<Rightarrow> (Ok \<lparr>st_health = Missing, st_state_path = state_path (sm_config m), st_state = None, st_dead_components = []\<rparr>, w)
     | Some s \<Rightarrow> (let (r, w') = classify m s w in (Ok r, w')))"

definition status_can_serve :: "machine \<Rightarrow> session_status \<Rightarrow> bool" where
  "status_can_serve m st \<longleftrightarrow>
     st_health st = Healthy \<or>
     (st_health st = Degraded \<and>
      list_all (\<lambda>name. case find (\<lambda>cc. cc_name cc = name) (components (sm_config m)) of
                         Some cc \<Rightarrow> \<not> cc_required cc | None \<Rightarrow> False) (st_dead_components st))"

section \<open>Teardown\<close>

type_synonym target = "component_state \<times> bool"

text \<open>
  Authorising every target once; the session's ownership is decided first, at one observation.
\<close>

definition authorized_at :: "machine \<Rightarrow> nat \<Rightarrow> bool \<Rightarrow> component_state \<Rightarrow> bool" where
  "authorized_at m k owned c \<longleftrightarrow>
     owned \<and> process_matches (view_at m k) (component_signature c) Signal \<and>
     (\<not> cs_process_group c \<or> cs_pgid c = Some (cs_pid c))"

fun authorize :: "machine \<Rightarrow> bool \<Rightarrow> component_state list \<Rightarrow> world \<Rightarrow> target list \<times> world" where
  "authorize m owned [] w = ([], w)"
| "authorize m owned (c # cs) w =
     (let (ts, w') = authorize m owned cs (tick w) in ((c, authorized_at m (obs w) owned c) # ts, w'))"

definition target_alive :: "machine \<Rightarrow> target \<Rightarrow> world \<Rightarrow> bool" where
  "target_alive m t w =
     (case t of (c, a) \<Rightarrow> a \<and>
        (if cs_process_group c then process_group_alive (view_at m (obs w)) (cs_pid c)
         else process_matches (view_at m (obs w)) (component_signature c) Signal))"

definition signal_target :: "signal_kind \<Rightarrow> component_state \<Rightarrow> world \<Rightarrow> world" where
  "signal_target k c w =
     tick (w\<lparr>sent := sent w @ [\<lparr>sent_at = obs w, sent_pid = cs_pid c, sent_group = cs_process_group c, sent_kind = k\<rparr>]\<rparr>)"

fun signal_phase :: "machine \<Rightarrow> signal_kind \<Rightarrow> target list \<Rightarrow> unit act" where
  "signal_phase m k [] w = (Ok (), w)"
| "signal_phase m k (t # ts) w =
     (if \<not> target_alive m t w then signal_phase m k ts (tick w)
      else let w1 = tick w; w2 = signal_target k (fst t) w1 in
           if kill_at m (obs w1) then signal_phase m k ts w2
           else if target_alive m t w2 then (Err (SignalFailed (cs_pid (fst t))), tick w2)
           else signal_phase m k ts (tick w2))"

fun all_stopped :: "machine \<Rightarrow> target list \<Rightarrow> world \<Rightarrow> bool \<times> world" where
  "all_stopped m [] w = (True, w)"
| "all_stopped m (t # ts) w = (if target_alive m t w then (False, tick w) else all_stopped m ts (tick w))"

lemma tick_simps [simp]:
  "obs (tick w) = Suc (obs w)" "slept (tick w) = slept w" "registry (tick w) = registry w" "sent (tick w) = sent w" "dirs (tick w) = dirs w"
  by (simp_all add: tick_def)

lemma sleep_simps [simp]:
  "obs (sleep d w) = obs w" "slept (sleep d w) = slept w + d" "registry (sleep d w) = registry w" "sent (sleep d w) = sent w" "dirs (sleep d w) = dirs w"
  by (simp_all add: sleep_def)

lemma all_stopped_frame [simp]:
  "slept (snd (all_stopped m ts w)) = slept w" "registry (snd (all_stopped m ts w)) = registry w" "sent (snd (all_stopped m ts w)) = sent w"
  by (induction m ts w rule: all_stopped.induct) auto

text \<open>The polling loop; it ends because every iteration sleeps and the deadline is fixed.\<close>

function wait_stopped :: "machine \<Rightarrow> target list \<Rightarrow> instant \<Rightarrow> world \<Rightarrow> world" where
  "wait_stopped m ts deadline w =
     (if instant_now m w < deadline
      then let (stopped, w1) = all_stopped m ts w
           in if stopped then w1 else wait_stopped m ts deadline (sleep (from_millis 100) w1)
      else w)"
  by pat_completeness auto
termination
proof (relation "measure (\<lambda>(m, ts, deadline, w). deadline - slept w)", goal_cases)
  case (2 m ts deadline w x stopped w1)
  have "slept w1 = slept w" using all_stopped_frame(1)[of m ts w] 2(2,3) by (metis snd_conv)
  moreover have "slept w < deadline" using 2(1) by (simp add: instant_now_def)
  ultimately show ?case by simp
qed simp

declare wait_stopped.simps [simp del]

fun survivors :: "machine \<Rightarrow> target list \<Rightarrow> world \<Rightarrow> string list \<times> world" where
  "survivors m [] w = ([], w)"
| "survivors m (t # ts) w =
     (let (ns, w') = survivors m ts (tick w) in ((if target_alive m t w then [cs_name (fst t)] else []) @ ns, w'))"

definition cleanup_runtime :: "machine \<Rightarrow> unit act" where
  "cleanup_runtime m w =
     (case cleanup_runtime_paths (fs_at m (obs w)) (cleanup_paths (sm_config m)) (cleanup_globs (sm_config m)) of
        Inl e \<Rightarrow> (Err (CleanupFailed e), tick w) | Inr _ \<Rightarrow> (Ok (), tick w))"

definition stop_state :: "machine \<Rightarrow> session_state \<Rightarrow> unit act" where
  "stop_state m s w =
     (let owned = state_belongs_to_config m (view_at m (obs w)) s;
          (ts, w1) = authorize m owned (ss_components s) (tick w);
          timeout = from_millis (stop_timeout_ms (sm_config m))
      in bindm (signal_phase m SIGTERM (rev ts)) (\<lambda>_ w2.
           bindm (signal_phase m SIGKILL (rev ts)) (\<lambda>_ w3.
             let w4 = wait_stopped m ts (instant_now m w3 + timeout) w3;
                 (alive, w5) = survivors m ts w4
             in if alive \<noteq> [] then (Err (Survived alive), w5)
                else bindm (cleanup_runtime m) (\<lambda>_. remove_state_file m) w5)
             (wait_stopped m ts (instant_now m w2 + timeout) w2)) w1)"

definition stop_locked :: "machine \<Rightarrow> unit act" where
  "stop_locked m = bindm (status m) (\<lambda>st. case st_state st of None \<Rightarrow> ret () | Some s \<Rightarrow> stop_state m s)"

definition stop :: "machine \<Rightarrow> session_status act" where
  "stop m = bindm (acquire_lock m) (\<lambda>_. bindm (stop_locked m) (\<lambda>_. status m))"

section \<open>Launching a component\<close>

text \<open>
  \<open>spawn_managed_component\<close> of \<open>desktop/compositor/launch.rs\<close>: the child is forked (\<open>fork_at\<close> gives its PID),
  then its identity is polled until \<open>setpriv\<close> has assumed the user's credentials.  Opening the
  component's log is one I/O step.
\<close>

definition identity_is_settled :: "captured_identity \<Rightarrow> nat \<Rightarrow> bool \<Rightarrow> bool" where
  "identity_is_settled i expected_uid alive \<longleftrightarrow>
     alive \<and> cap_uid i = Some expected_uid \<and> cap_start_ticks i \<noteq> None \<and> cap_boot_id i \<noteq> None \<and> cap_pgid i \<noteq> None"

datatype settle_error = SetprivExited | WaitError | SettleTimedOut

function settle_setpriv_identity ::
  "machine \<Rightarrow> int \<Rightarrow> nat \<Rightarrow> instant \<Rightarrow> nat option \<Rightarrow> world \<Rightarrow> (settle_error, captured_identity) result \<times> world" where
  "settle_setpriv_identity m pid expected_uid deadline start_ticks w =
     (case wait_at m (obs w) pid of
        WaitFailed \<Rightarrow> (Err WaitError, tick w)
      | HasExited \<Rightarrow> (Err SetprivExited, tick w)
      | StillRunning \<Rightarrow>
          let identity = capture_identity (view_at m (obs w)) pid;
              ticks = (case start_ticks of Some t \<Rightarrow> Some t | None \<Rightarrow> cap_start_ticks identity);
              identity' = identity\<lparr>cap_start_ticks := ticks\<rparr>
          in if identity_is_settled identity' expected_uid (process_alive (view_at m (obs w)) pid)
             then (Ok identity', tick w)
             else let remaining = deadline - instant_now m w
                  in if remaining = 0 then (Err SettleTimedOut, tick w)
                     else settle_setpriv_identity m pid expected_uid deadline ticks
                            (sleep (min (from_millis 10) remaining) (tick w)))"
  by pat_completeness auto
termination
  by (relation "measure (\<lambda>(m, pid, uid, deadline, ticks, w). deadline - slept w)") (auto simp: instant_now_def)

declare settle_setpriv_identity.simps [simp del]

text \<open>\<open>Child::kill\<close> does nothing for a child whose exit status was already collected.\<close>

definition terminate_and_reap :: "settle_error \<Rightarrow> int \<Rightarrow> world \<Rightarrow> world" where
  "terminate_and_reap e pid w =
     tick (if e = SetprivExited then w
           else w\<lparr>sent := sent w @ [\<lparr>sent_at = obs w, sent_pid = pid, sent_group = False, sent_kind = SIGKILL\<rparr>]\<rparr>)"

definition spawn_managed_component :: "machine \<Rightarrow> nat \<Rightarrow> component_config \<Rightarrow> component_state act" where
  "spawn_managed_component m uid cc w =
     (if \<not> io_at m (obs w) then (Err IoFailed, tick w)
      else case fork_at m (obs w) cc of None \<Rightarrow> (Err (SpawnFailed (cc_name cc)), tick w)
      | Some pid \<Rightarrow>
          if pid \<ge> 2 ^ 31 then (Err PidOutOfRange, tick w)
          else case settle_setpriv_identity m pid uid (instant_now m w + from_secs 1) None (tick w) of
            (Inl e, w1) \<Rightarrow> (Err (NeverSettled (cc_name cc)), terminate_and_reap e pid w1)
          | (Inr i, w1) \<Rightarrow>
              (Ok \<lparr>cs_name = cc_name cc, cs_pid = pid, cs_command = cc_command cc # cc_args cc,
                   cs_started_at = wall_at m (obs w1), cs_start_ticks = cap_start_ticks i,
                   cs_boot_id = cap_boot_id i, cs_uid = cap_uid i, cs_pgid = cap_pgid i,
                   cs_required = cc_required cc, cs_process_group = True\<rparr>, tick w1))"

definition spawn_component :: "machine \<Rightarrow> component_config \<Rightarrow> component_state act" where
  "spawn_component m cc w =
     (let run = host_run (sm_host m); user = session_user (sm_config m) in
      case uid_for_user run user of Inl e \<Rightarrow> (Err (AccountFailed e), w)
      | Inr uid \<Rightarrow> (case gid_for_user run user of Inl e \<Rightarrow> (Err (AccountFailed e), w)
      | Inr gid \<Rightarrow> (case supplementary_groups_for_user run user gid of Inl e \<Rightarrow> (Err (AccountFailed e), w)
      | Inr groups \<Rightarrow> (case home_dir_for_user run user of Inl e \<Rightarrow> (Err (AccountFailed e), w)
      | Inr home \<Rightarrow> spawn_managed_component m uid cc w))))"

section \<open>Starting and reusing a session\<close>

definition component_alive :: "machine \<Rightarrow> nat \<Rightarrow> component_config \<Rightarrow> session_state \<Rightarrow> bool" where
  "component_alive m k cc s =
     (case find (\<lambda>cs. cs_name cs = cc_name cc) (ss_components s) of None \<Rightarrow> False
      | Some cs \<Rightarrow> process_matches (view_at m k) (component_signature cs) Status)"

function wait_until_ready_loop :: "machine \<Rightarrow> component_config \<Rightarrow> session_state \<Rightarrow> instant \<Rightarrow> unit act" where
  "wait_until_ready_loop m cc s deadline w =
     (if \<not> component_alive m (obs w) cc s
      then (if cc_required cc then Err (ComponentExited (cc_name cc)) else Ok (), tick w)
      else if readiness_met m (obs w) (cc_readiness cc) then (Ok (), tick w)
      else if instant_now m w \<ge> deadline
      then (if cc_required cc then Err (ReadinessTimeout (cc_name cc)) else Ok (), tick w)
      else wait_until_ready_loop m cc s deadline (sleep (from_millis 100) (tick w)))"
  by pat_completeness auto
termination
  by (relation "measure (\<lambda>(m, cc, s, deadline, w). deadline - slept w)") (auto simp: instant_now_def)

declare wait_until_ready_loop.simps [simp del]

definition wait_until_ready :: "machine \<Rightarrow> component_config \<Rightarrow> session_state \<Rightarrow> unit act" where
  "wait_until_ready m cc s w =
     wait_until_ready_loop m cc s (instant_now m w + from_millis (start_timeout_ms (sm_config m))) w"

text \<open>The start loop; it returns the in-memory state also when it fails.\<close>

fun start_components ::
  "machine \<Rightarrow> session_state \<Rightarrow> component_config list \<Rightarrow> world \<Rightarrow> sesman_error option \<times> session_state \<times> world" where
  "start_components m s [] w = (None, s, w)"
| "start_components m s (cc # ccs) w =
     (case spawn_component m cc w of
        (Inl e, w1) \<Rightarrow> (Some e, s, w1)
      | (Inr cs, w1) \<Rightarrow>
          let s1 = mark_updated (wall_at m (obs w1)) (s\<lparr>ss_components := ss_components s @ [cs]\<rparr>) in
          case bindm (write_state m s1) (\<lambda>_. wait_until_ready m cc s1) w1 of
            (Inl e, w2) \<Rightarrow> (Some e, s1, w2)
          | (Inr _, w2) \<Rightarrow> start_components m s1 ccs (sleep (from_millis (cc_startup_delay_ms cc)) w2))"

definition update_reconnect_state :: "int \<Rightarrow> ensure_options \<Rightarrow> session_state \<Rightarrow> session_state" where
  "update_reconnect_state now opts s =
     (let s1 = (case opt_requested_size opts of Some z \<Rightarrow> s\<lparr>ss_requested_size := Some z\<rparr> | None \<Rightarrow> s);
          s2 = (case opt_client_peer opts of
                  Some peer_addr \<Rightarrow> s1\<lparr>ss_last_client := Some \<lparr>peer_address = peer_addr, connected_at = now,
                                                     client_size = opt_requested_size opts\<rparr>\<rparr>
                | None \<Rightarrow> s1);
          s3 = (if opt_client_connected opts
                then s2\<lparr>ss_active_clients := saturating_add (ss_active_clients s2) 1,
                        ss_last_disconnected_at := None, ss_idle_deadline_at := None\<rparr>
                else s2)
      in mark_updated now s3)"

definition prepare :: "machine \<Rightarrow> unit act" where
  "prepare m w =
     (case prepare_directories (sm_host m) (sm_config m) (mkdir_at m (obs w)) (dirs w) of
        Inl e \<Rightarrow> (Err (DirectoryFailed e), tick w) | Inr t \<Rightarrow> (Ok (), tick (w\<lparr>dirs := t\<rparr>)))"

definition start_fresh :: "machine \<Rightarrow> ensure_options \<Rightarrow> (bool \<times> session_status) act" where
  "start_fresh m opts w =
     (let s = update_reconnect_state (wall_at m (obs w)) opts
                (session_state_new (sm_host m) (view_at m (obs w)) (uuid_at m (obs w)) (wall_at m (obs w)) (sm_config m))
      in case start_components m s (components (sm_config m)) (tick w) of
           (None, s1, w1) \<Rightarrow> bindm (status m) (\<lambda>st. ret (False, st)) w1
         | (Some e, s1, w1) \<Rightarrow>
             (case stop_state m s1 w1 of
                (Inl e', w2) \<Rightarrow> (Err (StartupAndCleanupFailed e e'), w2)
              | (Inr _, w2) \<Rightarrow> (Err (StartupFailed e), w2)))"

definition reuse :: "machine \<Rightarrow> ensure_options \<Rightarrow> session_status \<Rightarrow> (bool \<times> session_status) act" where
  "reuse m opts st w =
     (case st_state st of None \<Rightarrow> (Err StatusWithoutState, w)
      | Some s \<Rightarrow> bindm (write_state m (update_reconnect_state (wall_at m (obs w)) opts s))
          (\<lambda>_. bindm (status m) (\<lambda>st'. ret (True, st'))) (tick w))"

definition ensure :: "machine \<Rightarrow> ensure_options \<Rightarrow> (bool \<times> session_status) act" where
  "ensure m opts =
     bindm (prepare m) (\<lambda>_. bindm (acquire_lock m) (\<lambda>_. bindm (status m) (\<lambda>st0.
     bindm (if opt_force_restart opts then bindm (stop_locked m) (\<lambda>_. status m) else ret st0) (\<lambda>st.
       if status_can_serve m st then reuse m opts st
       else bindm (if st_health st \<in> {Degraded, Dead} then stop_locked m else ret ()) (\<lambda>_.
            bindm (cleanup_runtime m) (\<lambda>_. start_fresh m opts))))))"

section \<open>Clients and idleness\<close>

text \<open>\<open>idle_timeout_ms as i64\<close>.\<close>

definition as_i64 :: "nat \<Rightarrow> int" where
  "as_i64 n = (let k = int (n mod 2 ^ 64) in if k < 2 ^ 63 then k else k - 2 ^ 64)"

definition idle_deadline_after :: "sesman_config \<Rightarrow> int \<Rightarrow> int option" where
  "idle_deadline_after c base = (if idle_timeout_ms c = 0 then None else Some (base + as_i64 (idle_timeout_ms c)))"

definition effective_idle_deadline :: "sesman_config \<Rightarrow> session_state \<Rightarrow> int option" where
  "effective_idle_deadline c s =
     (case ss_idle_deadline_at s of
        Some d \<Rightarrow> Some d
      | None \<Rightarrow> if idle_timeout_ms c = 0 then None
                else case ss_last_disconnected_at s of None \<Rightarrow> None | Some t \<Rightarrow> idle_deadline_after c t)"

definition bound :: "int \<Rightarrow> session_state \<Rightarrow> session_state" where
  "bound now s = mark_updated now (s\<lparr>ss_active_clients := 1, ss_last_disconnected_at := None, ss_idle_deadline_at := None\<rparr>)"

definition bind_single_client :: "machine \<Rightarrow> session_status act" where
  "bind_single_client m =
     bindm (acquire_lock m) (\<lambda>_. bindm (status m) (\<lambda>st w.
       if \<not> status_can_serve m st then (Err (CannotBind (st_health st)), w)
       else case st_state st of None \<Rightarrow> (Err StatusWithoutState, w)
            | Some s \<Rightarrow> bindm (write_state m (bound (wall_at m (obs w)) s)) (\<lambda>_. status m) (tick w)))"

definition unbound :: "sesman_config \<Rightarrow> int \<Rightarrow> session_state \<Rightarrow> session_state" where
  "unbound c now s =
     mark_updated now (s\<lparr>ss_active_clients := 0, ss_last_disconnected_at := Some now, ss_idle_deadline_at := idle_deadline_after c now\<rparr>)"

definition unbind_single_client :: "machine \<Rightarrow> session_status act" where
  "unbind_single_client m =
     bindm (acquire_lock m) (\<lambda>_. bindm (status m) (\<lambda>st w.
       case st_state st of None \<Rightarrow> (Ok st, w)
       | Some s \<Rightarrow> bindm (write_state m (unbound (sm_config m) (wall_at m (obs w)) s)) (\<lambda>_. status m) (tick w)))"

definition disconnected :: "sesman_config \<Rightarrow> int \<Rightarrow> session_state \<Rightarrow> session_state" where
  "disconnected c now s =
     (let s1 = s\<lparr>ss_active_clients := saturating_sub (ss_active_clients s) 1\<rparr>
      in mark_updated now (if ss_active_clients s1 = 0
           then s1\<lparr>ss_last_disconnected_at := Some now, ss_idle_deadline_at := idle_deadline_after c now\<rparr> else s1))"

definition disconnect_client :: "machine \<Rightarrow> session_status act" where
  "disconnect_client m =
     bindm (acquire_lock m) (\<lambda>_. bindm (status m) (\<lambda>st w.
       case st_state st of None \<Rightarrow> (Ok st, w)
       | Some s \<Rightarrow> bindm (write_state m (disconnected (sm_config m) (wall_at m (obs w)) s)) (\<lambda>_. status m) (tick w)))"

definition idle_expired :: "sesman_config \<Rightarrow> int \<Rightarrow> session_state \<Rightarrow> bool" where
  "idle_expired c now s \<longleftrightarrow>
     ss_active_clients s = 0 \<and>
     (case effective_idle_deadline c s of None \<Rightarrow> False | Some deadline \<Rightarrow> deadline \<le> now)"

definition cleanup_idle_locked :: "machine \<Rightarrow> bool act" where
  "cleanup_idle_locked m =
     bindm (status m) (\<lambda>st w.
       if st_health st = Missing then (Ok False, w)
       else case st_state st of None \<Rightarrow> (Ok False, w)
            | Some s \<Rightarrow> if \<not> idle_expired (sm_config m) (wall_at m (obs w)) s then (Ok False, tick w)
                        else bindm (stop_locked m) (\<lambda>_. ret True) (tick w))"

definition cleanup_idle :: "machine \<Rightarrow> bool act" where
  "cleanup_idle m = bindm (acquire_lock m) (\<lambda>_. cleanup_idle_locked m)"

definition reconciled :: "sesman_config \<Rightarrow> int \<Rightarrow> session_state \<Rightarrow> session_state" where
  "reconciled c now s =
     (let s1 = s\<lparr>ss_active_clients := 0\<rparr>;
          s2 = (if ss_last_disconnected_at s1 = None then s1\<lparr>ss_last_disconnected_at := Some now\<rparr> else s1)
      in if ss_idle_deadline_at s2 = None \<and> idle_timeout_ms c \<noteq> 0
         then s2\<lparr>ss_idle_deadline_at := idle_deadline_after c (case ss_last_disconnected_at s2 of Some t \<Rightarrow> t | None \<Rightarrow> now)\<rparr>
         else s2)"

definition reconcile_changes :: "sesman_config \<Rightarrow> session_state \<Rightarrow> bool" where
  "reconcile_changes c s \<longleftrightarrow>
     ss_active_clients s > 0 \<or> ss_last_disconnected_at s = None \<or> (ss_idle_deadline_at s = None \<and> idle_timeout_ms c \<noteq> 0)"

definition reconcile_locked :: "machine \<Rightarrow> session_status act" where
  "reconcile_locked m = bindm (status m) (\<lambda>st w.
     case st_state st of None \<Rightarrow> (Ok st, w)
     | Some s \<Rightarrow>
         let c = sm_config m; now = wall_at m (obs w); s' = mark_updated now (reconciled c now s)
         in bindm (if reconcile_changes c s then write_state m s' else ret ())
              (\<lambda>_. bindm (cleanup_idle_locked m) (\<lambda>_. status m)) (tick w))"

definition reconcile_after_daemon_restart :: "machine \<Rightarrow> session_status act" where
  "reconcile_after_daemon_restart m = bindm (acquire_lock m) (\<lambda>_. reconcile_locked m)"

section \<open>Frames\<close>

text \<open>
  Every action only adds observations and signals.  \<open>acts G w w'\<close>: between the two worlds only
  signals that satisfy \<open>G\<close> were sent.
\<close>

definition acts :: "(sent_signal \<Rightarrow> bool) \<Rightarrow> world \<Rightarrow> world \<Rightarrow> bool" where
  "acts G w w' \<longleftrightarrow> obs w \<le> obs w' \<and> (\<exists>new. sent w' = sent w @ new \<and> list_all G new)"

lemma acts_refl [simp]: "acts G w w"
  by (simp add: acts_def)

lemma acts_trans: "acts G a b \<Longrightarrow> acts G b c \<Longrightarrow> acts G a c"
  by (auto simp: acts_def)

lemma acts_quiet: "obs w \<le> obs w' \<Longrightarrow> sent w' = sent w \<Longrightarrow> acts G w w'"
  by (simp add: acts_def)

lemma acts_tick [simp]: "acts G w (tick w)" "acts G w (sleep d w)" "acts G w (w\<lparr>registry := r\<rparr>)" "acts G w (w\<lparr>dirs := t\<rparr>)"
  by (simp_all add: acts_def)

lemma acts_mono: "acts G w w' \<Longrightarrow> (\<And>x. G x \<Longrightarrow> H x) \<Longrightarrow> acts H w w'"
  by (auto simp: acts_def list_all_iff)

lemma bindm_cases:
  "bindm a f w = (r, w') \<Longrightarrow>
   (\<exists>e. a w = (Inl e, w') \<and> r = Inl e) \<or> (\<exists>x w1. a w = (Inr x, w1) \<and> f x w1 = (r, w'))"
  by (auto simp: bindm_def split: prod.splits sum.splits)

lemma bindm_acts:
  assumes "acts G w (snd (a w))" "\<And>x w1. a w = (Inr x, w1) \<Longrightarrow> acts G w1 (snd (f x w1))"
  shows "acts G w (snd (bindm a f w))"
proof (cases "a w")
  case (Pair r w1)
  show ?thesis
  proof (cases r)
    case (Inl e)
    then show ?thesis using assms(1) Pair by (simp add: bindm_def)
  next
    case (Inr x)
    then have "bindm a f w = f x w1" "acts G w w1" using Pair assms(1) by (simp_all add: bindm_def)
    with assms(2)[of x w1] Pair Inr show ?thesis by (simp add: acts_trans)
  qed
qed

section \<open>Status reads only\<close>

lemma read_state_frame:
  "registry (snd (read_state m w)) = registry w" "sent (snd (read_state m w)) = sent w" "obs (snd (read_state m w)) = Suc (obs w)"
  by (auto simp: read_state_def split: registry_file.splits option.splits)

lemma check_components_frame:
  "check_components m s cs w = (a, d, w') \<Longrightarrow> registry w' = registry w \<and> sent w' = sent w \<and> obs w \<le> obs w'"
  by (induction m s cs w arbitrary: a d w' rule: check_components.induct)
    (fastforce simp: Let_def split: prod.splits option.splits if_splits)+

lemma classify_frame:
  "registry (snd (classify m s w)) = registry w" "sent (snd (classify m s w)) = sent w"
  "obs w \<le> obs (snd (classify m s w))" "st_state (fst (classify m s w)) = Some s"
  by (auto simp: classify_def Let_def split: prod.splits dest: check_components_frame)

lemma status_eq:
  "status m w =
     (case read_state m w of
        (Inl e, w1) \<Rightarrow> (Inl e, w1)
      | (Inr None, w1) \<Rightarrow> (Ok \<lparr>st_health = Missing, st_state_path = state_path (sm_config m), st_state = None, st_dead_components = []\<rparr>, w1)
      | (Inr (Some s), w1) \<Rightarrow> (Ok (fst (classify m s w1)), snd (classify m s w1)))"
  by (simp add: status_def bindm_def split_beta split: sum.split option.split)

lemma status_frame:
  "registry (snd (status m w)) = registry w" "sent (snd (status m w)) = sent w" "obs w \<le> obs (snd (status m w))"
  using read_state_frame[of m w] classify_frame(1-3)
  by (auto simp: status_eq split: prod.splits sum.splits option.splits intro: le_trans[OF _ classify_frame(3)])

lemma status_acts [simp]: "acts G w (snd (status m w))"
  by (simp add: acts_quiet status_frame)

lemma status_state:
  assumes "status m w = (Ok st, w')"
  shows "(registry w = RegAbsent \<and> st_state st = None \<and> st_health st = Missing) \<or>
    (\<exists>owner s. registry w = RegFile Regular owner (Some s) \<and> file_trusted m owner \<and> st_state st = Some s)"
  using assms classify_frame(4)
  by (auto simp: status_eq read_state_def split: registry_file.splits option.splits if_splits)

section \<open>Teardown\<close>

definition target_alive_at :: "machine \<Rightarrow> component_state \<Rightarrow> nat \<Rightarrow> bool" where
  "target_alive_at m c k =
     (if cs_process_group c then process_group_alive (view_at m k) (cs_pid c)
      else process_matches (view_at m k) (component_signature c) Signal)"

lemma target_alive_alt: "target_alive m (c, a) w \<longleftrightarrow> a \<and> target_alive_at m c (obs w)"
  by (simp add: target_alive_def target_alive_at_def)

text \<open>
  A signal that was properly authorised: it goes to a component of the session \<open>s\<close>; the session belonged
  to this configuration and the component's process was the recorded one at observations after \<open>k0\<close> and
  before the signal; a whole group is signalled only if the recorded group is the
  component's own; and the target was alive at the observation just before the signal.
\<close>

definition signal_ok :: "machine \<Rightarrow> session_state \<Rightarrow> nat \<Rightarrow> sent_signal \<Rightarrow> bool" where
  "signal_ok m s k0 x \<longleftrightarrow>
     (\<exists>c \<in> set (ss_components s). \<exists>k1 k2. k0 \<le> k1 \<and> k1 < k2 \<and> Suc k2 < sent_at x \<and>
        state_belongs_to_config m (view_at m k1) s \<and>
        process_matches (view_at m k2) (component_signature c) Signal \<and>
        sent_pid x = cs_pid c \<and> sent_group x = cs_process_group c \<and>
        (sent_group x \<longrightarrow> cs_pgid c = Some (cs_pid c)) \<and> target_alive_at m c (sent_at x - 1))"

lemma authorize_spec:
  "authorize m owned cs w = (ts, w') \<Longrightarrow>
     map fst ts = cs \<and> obs w' = obs w + length cs \<and> registry w' = registry w \<and> sent w' = sent w \<and> slept w' = slept w \<and>
     (\<forall>c. (c, True) \<in> set ts \<longrightarrow> (\<exists>k. obs w \<le> k \<and> k < obs w' \<and> authorized_at m k owned c))"
proof (induction m owned cs w arbitrary: ts w' rule: authorize.induct)
  case (2 m owned c cs w)
  obtain ts1 w1 where r: "authorize m owned cs (tick w) = (ts1, w1)" by (cases "authorize m owned cs (tick w)")
  with 2(2) have e: "ts = (c, authorized_at m (obs w) owned c) # ts1" "w' = w1" by auto
  note ih = 2(1)[OF r]
  then have o: "obs w1 = Suc (obs w) + length cs" by simp
  have "\<exists>k. obs w \<le> k \<and> k < obs w1 \<and> authorized_at m k owned c'" if "(c', True) \<in> set ts" for c'
  proof (cases "(c', True) \<in> set ts1")
    case True
    with ih obtain k where "Suc (obs w) \<le> k" "k < obs w1" "authorized_at m k owned c'" by fastforce
    then show ?thesis using Suc_leD by blast
  next
    case False
    with that e have "c' = c" "authorized_at m (obs w) owned c" by auto
    then show ?thesis using o by auto
  qed
  with ih show ?case by (auto simp: e)
qed simp

text \<open>
  \<open>A c\<close>: the component may be signalled.  Every signal of a phase that starts at observation
  \<open>k0\<close> or later follows an observation at which its target was alive.
\<close>

lemma signal_phase_spec:
  assumes "\<And>c j. A c \<Longrightarrow> k0 \<le> j \<Longrightarrow> target_alive_at m c j \<Longrightarrow>
           G \<lparr>sent_at = Suc j, sent_pid = cs_pid c, sent_group = cs_process_group c, sent_kind = k\<rparr>"
  shows "k0 \<le> obs w \<Longrightarrow> \<forall>c. (c, True) \<in> set ts \<longrightarrow> A c \<Longrightarrow>
    acts G w (snd (signal_phase m k ts w)) \<and> registry (snd (signal_phase m k ts w)) = registry w"
proof (induction ts arbitrary: w)
  case (Cons t ts)
  obtain c a where t: "t = (c, a)" by (cases t)
  have rest: "acts G w1 (snd (signal_phase m k ts w1)) \<and> registry (snd (signal_phase m k ts w1)) = registry w1"
    if "obs w \<le> obs w1" for w1
    using Cons.IH[of w1] Cons.prems that by auto
  show ?case
  proof (cases "target_alive m t w")
    case False
    with rest[of "tick w"] show ?thesis using acts_trans[OF acts_tick(1)] by auto
  next
    case True
    then have "A c" "target_alive_at m c (obs w)" using Cons.prems t by (auto simp: target_alive_alt)
    then have g: "G \<lparr>sent_at = Suc (obs w), sent_pid = cs_pid c, sent_group = cs_process_group c, sent_kind = k\<rparr>"
      using assms Cons.prems(1) by blast
    define w2 where "w2 = signal_target k c (tick w)"
    have a2: "acts G w w2" "registry w2 = registry w" "obs w \<le> obs w2"
      using g by (simp_all add: acts_def signal_target_def w2_def)
    have step: "signal_phase m k (t # ts) w =
        (if kill_at m (Suc (obs w)) then signal_phase m k ts w2
         else if target_alive m t w2 then (Err (SignalFailed (cs_pid c)), tick w2)
         else signal_phase m k ts (tick w2))"
      using True by (simp add: t w2_def Let_def)
    have "acts G w2 (snd (signal_phase m k (t # ts) w)) \<and> registry (snd (signal_phase m k (t # ts) w)) = registry w2"
      using rest[of w2] rest[of "tick w2"] a2(3) acts_trans[OF acts_tick(1)] unfolding step by auto
    then show ?thesis using a2 acts_trans by auto
  qed
qed simp

lemma all_stopped_obs: "obs w \<le> obs (snd (all_stopped m ts w))"
  by (induction m ts w rule: all_stopped.induct) auto

lemma wait_stopped_frame:
  "registry (wait_stopped m ts d w) = registry w \<and> sent (wait_stopped m ts d w) = sent w \<and> obs w \<le> obs (wait_stopped m ts d w)"
proof (induction m ts d w rule: wait_stopped.induct)
  case (1 m ts d w)
  obtain b w1 where a: "all_stopped m ts w = (b, w1)" by (cases "all_stopped m ts w")
  have f: "registry w1 = registry w" "sent w1 = sent w" "obs w \<le> obs w1"
    using all_stopped_frame(2,3)[of m ts w] all_stopped_obs[of w m ts] a by auto
  show ?case
  proof (cases "instant_now m w < d \<and> \<not> b")
    case True
    with 1[OF _ a[symmetric] refl] f show ?thesis
      by (auto simp: wait_stopped.simps[of m ts d w] a)
  next
    case False
    then show ?thesis using f by (auto simp: wait_stopped.simps[of m ts d w] a)
  qed
qed

lemma survivors_spec:
  "survivors m ts w = (ns, w') \<Longrightarrow>
     registry w' = registry w \<and> sent w' = sent w \<and> obs w \<le> obs w' \<and>
     (ns = [] \<longrightarrow> (\<forall>c. (c, True) \<in> set ts \<longrightarrow> (\<exists>k. obs w \<le> k \<and> k < obs w' \<and> \<not> target_alive_at m c k)))"
proof (induction m ts w arbitrary: ns w' rule: survivors.induct)
  case (2 m t ts w)
  obtain c a where t: "t = (c, a)" by (cases t)
  obtain ns1 w1 where r: "survivors m ts (tick w) = (ns1, w1)" by (cases "survivors m ts (tick w)")
  with 2(2) have e: "ns = (if target_alive m t w then [cs_name c] else []) @ ns1" "w' = w1" by (auto simp: t)
  note ih = 2(1)[OF r]
  have "\<exists>k. obs w \<le> k \<and> k < obs w1 \<and> \<not> target_alive_at m c' k" if "ns = []" "(c', True) \<in> set (t # ts)" for c'
  proof (cases "(c', True) \<in> set ts")
    case True
    with ih that(1) e obtain k where "Suc (obs w) \<le> k" "k < obs w1" "\<not> target_alive_at m c' k" by fastforce
    then show ?thesis using Suc_leD by blast
  next
    case False
    with that t e have "c' = c" "\<not> target_alive_at m c (obs w)" by (auto simp: target_alive_alt split: if_splits)
    then show ?thesis using ih by (auto intro: exI[of _ "obs w"])
  qed
  with ih e show ?case by auto
qed simp

lemma cleanup_runtime_frame:
  "registry (snd (cleanup_runtime m w)) = registry w" "sent (snd (cleanup_runtime m w)) = sent w" "obs w \<le> obs (snd (cleanup_runtime m w))"
  by (auto simp: cleanup_runtime_def split: sum.splits)

lemma remove_state_file_spec:
  "remove_state_file m w = (r, w') \<Longrightarrow> sent w' = sent w \<and> obs w \<le> obs w' \<and>
     (case r of Inr _ \<Rightarrow> registry w' = RegAbsent | Inl _ \<Rightarrow> registry w' = registry w)"
  by (auto simp: remove_state_file_def split: registry_file.splits if_splits)

text \<open>The phases of a teardown, named.\<close>

lemma stop_state_cases:
  fixes m s w
  defines "owned \<equiv> state_belongs_to_config m (view_at m (obs w)) s"
  assumes run: "stop_state m s w = (r, w')" and au: "authorize m owned (ss_components s) (tick w) = (ts, w1)"
  obtains (term_failed) e where "signal_phase m SIGTERM (rev ts) w1 = (Inl e, w')" "r = Inl e"
    | (kill_failed) w2 w3 e where "signal_phase m SIGTERM (rev ts) w1 = (Inr (), w2)"
        "w3 = wait_stopped m ts (instant_now m w2 + from_millis (stop_timeout_ms (sm_config m))) w2"
        "signal_phase m SIGKILL (rev ts) w3 = (Inl e, w')" "r = Inl e"
    | (waited) w2 w3 w4 w5 alive w6 where "signal_phase m SIGTERM (rev ts) w1 = (Inr (), w2)"
        "w3 = wait_stopped m ts (instant_now m w2 + from_millis (stop_timeout_ms (sm_config m))) w2"
        "signal_phase m SIGKILL (rev ts) w3 = (Inr (), w4)"
        "w5 = wait_stopped m ts (instant_now m w4 + from_millis (stop_timeout_ms (sm_config m))) w4"
        "survivors m ts w5 = (alive, w6)"
        "(r, w') = (if alive \<noteq> [] then (Err (Survived alive), w6) else bindm (cleanup_runtime m) (\<lambda>_. remove_state_file m) w6)"
proof -
  from run au obtain body where b: "bindm (signal_phase m SIGTERM (rev ts)) body w1 = (r, w')"
    and body: "\<And>u w2. body u w2 = bindm (signal_phase m SIGKILL (rev ts)) (\<lambda>_ w3.
             let w4 = wait_stopped m ts (instant_now m w3 + from_millis (stop_timeout_ms (sm_config m))) w3;
                 (alive, w5) = survivors m ts w4
             in if alive \<noteq> [] then (Err (Survived alive), w5)
                else bindm (cleanup_runtime m) (\<lambda>_. remove_state_file m) w5)
             (wait_stopped m ts (instant_now m w2 + from_millis (stop_timeout_ms (sm_config m))) w2)"
    unfolding stop_state_def Let_def owned_def by (auto simp: Let_def)
  from bindm_cases[OF b] consider e where "signal_phase m SIGTERM (rev ts) w1 = (Inl e, w')" "r = Inl e"
    | w2 where "signal_phase m SIGTERM (rev ts) w1 = (Inr (), w2)" "body () w2 = (r, w')" by auto
  then show thesis
  proof cases
    case 1
    then show thesis by (rule term_failed)
  next
    case (2 w2)
    from bindm_cases[OF 2(2)[unfolded body]] show thesis
    proof (elim disjE exE conjE, goal_cases)
      case (1 e)
      then show ?case by (intro kill_failed[OF 2(1) refl]) auto
    next
      case (2 u w4)
      then show ?case
        by (intro waited[OF \<open>signal_phase m SIGTERM (rev ts) w1 = (Inr (), w2)\<close> refl _ refl surjective_pairing])
          (auto simp: Let_def split_beta)
    qed
  qed
qed

lemma authorize_nth:
  "authorize m owned cs w = (ts, w') \<Longrightarrow> i < length cs \<Longrightarrow>
   ts ! i = (cs ! i, authorized_at m (obs w + i) owned (cs ! i))"
proof (induction m owned cs w arbitrary: ts w' i rule: authorize.induct)
  case (2 m owned c cs w)
  obtain ts1 w1 where r: "authorize m owned cs (tick w) = (ts1, w1)" by (cases "authorize m owned cs (tick w)")
  with 2(2) have e: "ts = (c, authorized_at m (obs w) owned c) # ts1" by auto
  show ?case
  proof (cases i)
    case (Suc j)
    with 2(1)[OF r, of j] 2(3) show ?thesis by (simp add: e)
  qed (simp add: e)
qed simp

text \<open>\<open>kept G w u\<close>: like \<open>acts\<close>, and the registry is as it was.\<close>

definition kept :: "(sent_signal \<Rightarrow> bool) \<Rightarrow> world \<Rightarrow> world \<Rightarrow> bool" where
  "kept G w u \<longleftrightarrow> acts G w u \<and> registry u = registry w"

lemma kept_trans: "kept G a b \<Longrightarrow> kept G b c \<Longrightarrow> kept G a c"
  using acts_trans by (auto simp: kept_def)

lemma kept_refl [simp]: "kept G w w" by (simp add: kept_def)

lemma kept_obs: "kept G w u \<Longrightarrow> obs w \<le> obs u" by (simp add: kept_def acts_def)

lemma kept_quiet:
  "kept G w (tick w)" "kept G w (sleep d w)" "kept G w (wait_stopped m ts dl w)" "kept G w (snd (survivors m ts w))"
  "kept G w (snd (cleanup_runtime m w))" "kept G w (snd (status m w))"
  using wait_stopped_frame[of m ts dl w] survivors_spec[of m ts w, OF surjective_pairing] cleanup_runtime_frame status_frame
  by (simp_all add: kept_def acts_quiet)

lemma kept_acts: "kept G w u \<Longrightarrow> acts G w u" by (simp add: kept_def)

text \<open>The outcome of a teardown whose signals satisfy \<open>G\<close>, from the authorised targets on.\<close>

lemma stop_state_chain:
  assumes run: "stop_state m s w = (r, w')"
    and au: "authorize m (state_belongs_to_config m (view_at m (obs w)) s) (ss_components s) (tick w) = (ts, w1)"
    and phase: "\<And>sg u. obs w1 \<le> obs u \<Longrightarrow> kept G u (snd (signal_phase m sg (rev ts) u))"
  shows "acts G w1 w' \<and> (\<not> is_ok r \<longrightarrow> registry w' = registry w1) \<and>
    (is_ok r \<longrightarrow> registry w' = RegAbsent \<and> (\<forall>c. (c, True) \<in> set ts \<longrightarrow> (\<exists>k. obs w1 \<le> k \<and> k < obs w' \<and> \<not> target_alive_at m c k)))"
  using run au
proof (cases rule: stop_state_cases)
  case (term_failed e)
  then show ?thesis using phase[of w1 SIGTERM] by (simp add: kept_def)
next
  case (kill_failed w2 w3 e)
  have k2: "kept G w1 w2" using phase[of w1 SIGTERM] kill_failed(1) by simp
  have k3: "kept G w1 w3" using kept_trans[OF k2 kept_quiet(3)] kill_failed(2) by simp
  have "kept G w3 w'" using phase[OF kept_obs[OF k3], of SIGKILL] kill_failed(3) by simp
  with k3 kill_failed(4) show ?thesis using kept_trans by (auto simp: kept_def)
next
  case (waited w2 w3 w4 w5 alive w6)
  have k2: "kept G w1 w2" using phase[of w1 SIGTERM] waited(1) by simp
  have k3: "kept G w1 w3" using kept_trans[OF k2 kept_quiet(3)] waited(2) by simp
  have k4: "kept G w1 w4" using kept_trans[OF k3] phase[OF kept_obs[OF k3], of SIGKILL] waited(3) by simp
  have k5: "kept G w1 w5" using kept_trans[OF k4 kept_quiet(3)] waited(4) by simp
  have k6: "kept G w1 w6" using kept_trans[OF k5 kept_quiet(4)[of _ _ m ts]] waited(5) by simp
  show ?thesis
  proof (cases "alive = []")
    case False
    then show ?thesis using waited(6) k6 by (simp add: kept_def)
  next
    case True
    then have b: "bindm (cleanup_runtime m) (\<lambda>_. remove_state_file m) w6 = (r, w')" using waited(6) by simp
    have k7: "kept G w1 (snd (cleanup_runtime m w6))" by (rule kept_trans[OF k6 kept_quiet(5)])
    from bindm_cases[OF b] show ?thesis
    proof (elim disjE exE conjE)
      fix e assume "cleanup_runtime m w6 = (Inl e, w')" "r = Inl e"
      then show ?thesis using k7 by (simp add: kept_def)
    next
      fix u w7 assume c7: "cleanup_runtime m w6 = (Inr u, w7)" and rm: "remove_state_file m w7 = (r, w')"
      note rs = remove_state_file_spec[OF rm]
      have "obs w6 \<le> obs w'" using kept_obs[OF kept_quiet(5)[of G w6 m]] c7 rs by simp
      moreover have "acts G w1 w'" using acts_trans[OF kept_acts[OF k7], of w'] c7 rs by (simp add: acts_quiet)
      moreover have "\<exists>k. obs w1 \<le> k \<and> k < obs w' \<and> \<not> target_alive_at m c k" if "(c, True) \<in> set ts" for c
      proof -
        from survivors_spec[OF waited(5)] True that obtain k where "obs w5 \<le> k" "k < obs w6" "\<not> target_alive_at m c k" by blast
        then show ?thesis using le_trans[OF kept_obs[OF k5]] less_le_trans[OF _ \<open>obs w6 \<le> obs w'\<close>] by blast
      qed
      ultimately show ?thesis using rs k7 c7 by (cases r) (auto simp: kept_def)
    qed
  qed
qed

lemma authorized_signal_ok:
  assumes "c \<in> set (ss_components s)" "obs w < k" "k < j" "target_alive_at m c j"
    and "authorized_at m k (state_belongs_to_config m (view_at m (obs w)) s) c"
  shows "signal_ok m s (obs w) \<lparr>sent_at = Suc j, sent_pid = cs_pid c, sent_group = cs_process_group c, sent_kind = sg\<rparr>"
  unfolding signal_ok_def
proof (rule bexI[OF _ assms(1)], rule exI[of _ "obs w"], rule exI[of _ k])
  show "obs w \<le> obs w \<and> obs w < k \<and> Suc k < sent_at \<lparr>sent_at = Suc j, sent_pid = cs_pid c, sent_group = cs_process_group c, sent_kind = sg\<rparr> \<and>
    state_belongs_to_config m (view_at m (obs w)) s \<and>
    process_matches (view_at m k) (component_signature c) Signal \<and>
    sent_pid \<lparr>sent_at = Suc j, sent_pid = cs_pid c, sent_group = cs_process_group c, sent_kind = sg\<rparr> = cs_pid c \<and>
    sent_group \<lparr>sent_at = Suc j, sent_pid = cs_pid c, sent_group = cs_process_group c, sent_kind = sg\<rparr> = cs_process_group c \<and>
    (sent_group \<lparr>sent_at = Suc j, sent_pid = cs_pid c, sent_group = cs_process_group c, sent_kind = sg\<rparr> \<longrightarrow> cs_pgid c = Some (cs_pid c)) \<and>
    target_alive_at m c (sent_at \<lparr>sent_at = Suc j, sent_pid = cs_pid c, sent_group = cs_process_group c, sent_kind = sg\<rparr> - 1)"
    using assms by (simp add: authorized_at_def)
qed

lemma stop_state_safe:
  fixes m s w
  defines "owned \<equiv> state_belongs_to_config m (view_at m (obs w)) s"
  assumes run: "stop_state m s w = (r, w')"
  shows "acts (signal_ok m s (obs w)) w w'" and "\<not> is_ok r \<Longrightarrow> registry w' = registry w"
    and "is_ok r \<Longrightarrow> registry w' = RegAbsent"
    and "is_ok r \<Longrightarrow> i < length (ss_components s) \<Longrightarrow> authorized_at m (Suc (obs w) + i) owned (ss_components s ! i) \<Longrightarrow>
      \<exists>k. obs w + length (ss_components s) < k \<and> k < obs w' \<and> \<not> target_alive_at m (ss_components s ! i) k"
proof -
  obtain ts w1 where au: "authorize m owned (ss_components s) (tick w) = (ts, w1)"
    by (cases "authorize m owned (ss_components s) (tick w)")
  note a = authorize_spec[OF au]
  have w1: "acts (signal_ok m s (obs w)) w w1" "registry w1 = registry w" "obs w1 = Suc (obs w) + length (ss_components s)"
    using a by (simp_all add: acts_quiet)
  let ?A = "\<lambda>c. c \<in> set (ss_components s) \<and> (\<exists>k. obs w < k \<and> k < obs w1 \<and> authorized_at m k owned c)"
  have A: "?A c" if "(c, True) \<in> set ts" for c
  proof
    show "c \<in> set (ss_components s)" using that a by (metis fst_conv image_eqI list.set_map)
    from that a have "\<exists>k. obs (tick w) \<le> k \<and> k < obs w1 \<and> authorized_at m k owned c" by blast
    then show "\<exists>k. obs w < k \<and> k < obs w1 \<and> authorized_at m k owned c" by (auto simp: less_eq_Suc_le)
  qed
  have "kept (signal_ok m s (obs w)) u (snd (signal_phase m sg (rev ts) u))" if "obs w1 \<le> obs u" for sg u
    unfolding kept_def
  proof (rule signal_phase_spec[where A = ?A and ?k0.0 = "obs w1"])
    fix c j assume "?A c" "obs w1 \<le> j" "target_alive_at m c j"
    then show "signal_ok m s (obs w) \<lparr>sent_at = Suc j, sent_pid = cs_pid c, sent_group = cs_process_group c, sent_kind = sg\<rparr>"
      using authorized_signal_ok[of c s w _ j m sg] by (auto simp: owned_def)
  qed (use that A in auto)
  note ch = stop_state_chain[OF run au[unfolded owned_def] this]
  show "acts (signal_ok m s (obs w)) w w'" using ch w1(1) acts_trans by blast
  show "\<not> is_ok r \<Longrightarrow> registry w' = registry w" using ch w1(2) by simp
  show "is_ok r \<Longrightarrow> registry w' = RegAbsent" using ch by simp
  assume r: "is_ok r" and i: "i < length (ss_components s)" "authorized_at m (Suc (obs w) + i) owned (ss_components s ! i)"
  have "ts ! i = (ss_components s ! i, True)" "ts ! i \<in> set ts"
    using authorize_nth[OF au i(1)] i a by (simp_all, metis length_map nth_mem)
  with ch r have "\<exists>k. obs w1 \<le> k \<and> k < obs w' \<and> \<not> target_alive_at m (ss_components s ! i) k" by metis
  then show "\<exists>k. obs w + length (ss_components s) < k \<and> k < obs w' \<and> \<not> target_alive_at m (ss_components s ! i) k"
    using w1(3) by (auto simp: less_eq_Suc_le)
qed

section \<open>Starting components\<close>

lemma settle_frame:
  "settle_setpriv_identity m pid uid dl ticks w = (r, w') \<Longrightarrow>
     kept G w w' \<and> (\<forall>i. r = Inr i \<longrightarrow> (\<exists>k. identity_is_settled i uid (process_alive (view_at m k) pid)))"
proof (induction m pid uid dl ticks w arbitrary: r w' rule: settle_setpriv_identity.induct)
  case (1 m pid uid dl ticks w)
  let ?t = "case ticks of Some t \<Rightarrow> Some t | None \<Rightarrow> cap_start_ticks (capture_identity (view_at m (obs w)) pid)"
  let ?id = "(capture_identity (view_at m (obs w)) pid)\<lparr>cap_start_ticks := ?t\<rparr>"
  show ?case
  proof (cases "wait_at m (obs w) pid \<noteq> StillRunning \<or> identity_is_settled ?id uid (process_alive (view_at m (obs w)) pid) \<or> dl - instant_now m w = 0")
    case True
    with "1.prems" show ?thesis
      by (auto simp: settle_setpriv_identity.simps[of m pid uid dl ticks w] Let_def kept_quiet
          split: if_splits child_wait.splits)
  next
    case False
    with "1.prems" have "settle_setpriv_identity m pid uid dl ?t
        (sleep (min (from_millis 10) (dl - instant_now m w)) (tick w)) = (r, w')"
      by (simp add: settle_setpriv_identity.simps[of m pid uid dl ticks w] Let_def)
    from "1.IH"[OF _ refl refl refl _ refl _ this] False
    show ?thesis using kept_trans[OF kept_trans[OF kept_quiet(1) kept_quiet(2)]] by blast
  qed
qed

text \<open>What is recorded of a component that was started.\<close>

definition spawned_ok :: "machine \<Rightarrow> nat \<Rightarrow> component_config \<Rightarrow> component_state \<Rightarrow> bool" where
  "spawned_ok m k0 cc c \<longleftrightarrow>
     cs_name c = cc_name cc \<and> cs_command c = cc_command cc # cc_args cc \<and> cs_process_group c \<and>
     is_fully_hardened (component_signature c) \<and>
     cs_uid c = ok_option (uid_for_user (host_run (sm_host m)) (session_user (sm_config m))) \<and>
     (\<exists>k \<ge> k0. fork_at m k cc = Some (cs_pid c))"

text \<open>The one signal outside a teardown: the child that was forked and never settled is killed.\<close>

definition child_kill_ok :: "machine \<Rightarrow> nat \<Rightarrow> sent_signal \<Rightarrow> bool" where
  "child_kill_ok m k0 x \<longleftrightarrow>
     sent_kind x = SIGKILL \<and> \<not> sent_group x \<and> (\<exists>k cc. k0 \<le> k \<and> k < sent_at x \<and> fork_at m k cc = Some (sent_pid x))"

lemma spawn_managed_spec:
  assumes "spawn_managed_component m uid cc w = (r, w')"
  shows "kept (child_kill_ok m (obs w)) w w' \<and>
    (\<forall>c. r = Inr c \<longrightarrow> cs_name c = cc_name cc \<and> cs_command c = cc_command cc # cc_args cc \<and> cs_process_group c \<and>
       is_fully_hardened (component_signature c) \<and> cs_uid c = Some uid \<and> fork_at m (obs w) cc = Some (cs_pid c))"
proof -
  let ?G = "child_kill_ok m (obs w)"
  consider (err) e where "r = Inl e" "w' = tick w"
    | (settle) pid i w1 where "fork_at m (obs w) cc = Some pid"
        "settle_setpriv_identity m pid uid (instant_now m w + from_secs 1) None (tick w) = (i, w1)"
        "(r, w') = (case i of Inl e \<Rightarrow> (Err (NeverSettled (cc_name cc)), terminate_and_reap e pid w1)
          | Inr i \<Rightarrow> (Ok \<lparr>cs_name = cc_name cc, cs_pid = pid, cs_command = cc_command cc # cc_args cc,
                        cs_started_at = wall_at m (obs w1), cs_start_ticks = cap_start_ticks i,
                        cs_boot_id = cap_boot_id i, cs_uid = cap_uid i, cs_pgid = cap_pgid i,
                        cs_required = cc_required cc, cs_process_group = True\<rparr>, tick w1))"
    using assms by (auto simp: spawn_managed_component_def split: sum.splits if_splits option.splits prod.splits)
  then show ?thesis
  proof cases
    case err
    then show ?thesis by (auto simp: kept_quiet)
  next
    case (settle pid i w1)
    note f = settle_frame[OF settle(2)]
    have k: "kept ?G w w1" "kept ?G w (tick w1)" using f kept_trans[OF kept_quiet(1)] kept_trans[OF _ kept_quiet(1)] by blast+
    have "obs w < obs w1" using kept_obs[of ?G "tick w" w1] f by simp
    then have "kept ?G w (terminate_and_reap e pid w1)" for e
      using k settle(1) by (auto simp: kept_def acts_def terminate_and_reap_def child_kill_ok_def intro!: exI[of _ "obs w"])
    moreover have "cap_uid i' = Some uid \<and> cap_start_ticks i' \<noteq> None \<and> cap_boot_id i' \<noteq> None \<and> cap_pgid i' \<noteq> None"
      if "i = Inr i'" for i' using f that by (auto simp: identity_is_settled_def)
    ultimately show ?thesis
      using settle(1,3) k by (cases i) (auto simp: is_fully_hardened_def component_signature_def)
  qed
qed

lemma spawn_component_spec:
  assumes "spawn_component m cc w = (r, w')"
  shows "kept (child_kill_ok m (obs w)) w w' \<and> (\<forall>c. r = Inr c \<longrightarrow> spawned_ok m (obs w) cc c)"
  using assms spawn_managed_spec
  by (fastforce simp: spawn_component_def Let_def spawned_ok_def ok_option_def split: sum.splits)

lemma wait_ready_frame: "kept G w (snd (wait_until_ready_loop m cc s dl w))"
proof (induction m cc s dl w rule: wait_until_ready_loop.induct)
  case (1 m cc s dl w)
  show ?case
  proof (cases "component_alive m (obs w) cc s \<and> \<not> readiness_met m (obs w) (cc_readiness cc) \<and> instant_now m w < dl")
    case True
    with 1 have "kept G (sleep (from_millis 100) (tick w)) (snd (wait_until_ready_loop m cc s dl (sleep (from_millis 100) (tick w))))"
      by simp
    from kept_trans[OF kept_trans[OF kept_quiet(1) kept_quiet(2)] this] True show ?thesis
      by (simp add: wait_until_ready_loop.simps[of m cc s dl w])
  next
    case False
    then show ?thesis by (auto simp: wait_until_ready_loop.simps[of m cc s dl w] kept_quiet)
  qed
qed

lemma write_state_spec:
  "write_state m s w = (r, w') \<Longrightarrow> sent w' = sent w \<and> obs w \<le> obs w' \<and>
     registry w' = (if is_ok r then RegFile Regular (host_euid (sm_host m)) (Some s) else registry w)"
  by (auto simp: write_state_def split: if_splits)

lemma child_kill_ok_mono: "child_kill_ok m k x \<Longrightarrow> j \<le> k \<Longrightarrow> child_kill_ok m j x"
  by (auto simp: child_kill_ok_def intro: le_trans)

lemma spawned_ok_mono: "spawned_ok m k cc c \<Longrightarrow> j \<le> k \<Longrightarrow> spawned_ok m j cc c"
  unfolding spawned_ok_def by (meson le_trans)

lemma publish_and_wait:
  assumes "bindm (write_state m s) (\<lambda>_. wait_until_ready m cc s) w = (r, w')"
  shows "acts G w w' \<and> (is_ok r \<longrightarrow> registry w' = RegFile Regular (host_euid (sm_host m)) (Some s))"
proof -
  from bindm_cases[OF assms] consider (err) e where "write_state m s w = (Inl e, w')" "r = Inl e"
    | (ok) u w1 where "write_state m s w = (Inr u, w1)" "wait_until_ready m cc s w1 = (r, w')" by blast
  then show ?thesis
  proof cases
    case err
    then show ?thesis using write_state_spec[OF err(1)] by (simp add: acts_quiet)
  next
    case ok
    from ok(2) have "kept G w1 w'"
      using wait_ready_frame[of G w1 m cc s "instant_now m w1 + from_millis (start_timeout_ms (sm_config m))"]
      by (simp add: wait_until_ready_def)
    moreover have "acts G w w1" "registry w1 = RegFile Regular (host_euid (sm_host m)) (Some s)"
      using write_state_spec[OF ok(1)] by (simp_all add: acts_quiet)
    ultimately show ?thesis using acts_trans by (auto simp: kept_def)
  qed
qed

text \<open>
  The start loop adds the components it has started, in the configured order; when it ends without an error all of
  them were started and the registry holds the state in memory.
\<close>

lemma start_components_spec:
  "start_components m s ccs w = (e, s1, w1) \<Longrightarrow> k0 \<le> obs w \<Longrightarrow>
     acts (child_kill_ok m k0) w w1 \<and>
     (\<exists>cs. ss_components s1 = ss_components s @ cs \<and> list_all2 (spawned_ok m k0) (take (length cs) ccs) cs \<and>
        (e = None \<longrightarrow> length cs = length ccs)) \<and>
     (e = None \<and> ccs \<noteq> [] \<longrightarrow> registry w1 = RegFile Regular (host_euid (sm_host m)) (Some s1))"
proof (induction ccs arbitrary: s w)
  case (Cons cc ccs)
  obtain r w2 where sp: "spawn_component m cc w = (r, w2)" by (cases "spawn_component m cc w")
  let ?G = "child_kill_ok m k0"
  have spd: "kept ?G w w2 \<and> (\<forall>c. r = Inr c \<longrightarrow> spawned_ok m k0 cc c)"
    using spawn_component_spec[OF sp] Cons.prems(2) child_kill_ok_mono[of m "obs w"] spawned_ok_mono[of m "obs w"] acts_mono
    by (fastforce simp: kept_def)
  show ?case
  proof (cases r)
    case (Inl err)
    then show ?thesis using Cons.prems sp spd by (auto simp: kept_def)
  next
    case (Inr c)
    define s2 where "s2 = mark_updated (wall_at m (obs w2)) (s\<lparr>ss_components := ss_components s @ [c]\<rparr>)"
    obtain r3 w3 where b: "bindm (write_state m s2) (\<lambda>_. wait_until_ready m cc s2) w2 = (r3, w3)"
      by (cases "bindm (write_state m s2) (\<lambda>_. wait_until_ready m cc s2) w2")
    note w3 = publish_and_wait[OF b, of ?G]
    have cs2: "ss_components s2 = ss_components s @ [c]" by (simp add: s2_def mark_updated_def)
    have ok: "spawned_ok m k0 cc c" using spd Inr by simp
    have acc: "acts ?G w w3" using spd w3 acts_trans by (auto simp: kept_def)
    let ?w4 = "sleep (from_millis (cc_startup_delay_ms cc)) w3"
    have eq: "start_components m s (cc # ccs) w =
        (case r3 of Inl e \<Rightarrow> (Some e, s2, w3) | Inr _ \<Rightarrow> start_components m s2 ccs ?w4)"
      using sp Inr b by (simp add: s2_def[symmetric] Let_def split: sum.splits)
    show ?thesis
    proof (cases r3)
      case (Inl e3)
      then show ?thesis using Cons.prems eq acc cs2 ok by (auto intro: exI[of _ "[c]"])
    next
      case (Inr u)
      have o3: "k0 \<le> obs ?w4" using acc Cons.prems(2) by (simp add: acts_def)
      from Inr Cons.prems(1) eq have st: "start_components m s2 ccs ?w4 = (e, s1, w1)" by simp
      note ih = Cons.IH[OF st o3]
      then obtain cs where "ss_components s1 = ss_components s @ c # cs"
        "list_all2 (spawned_ok m k0) (take (length cs) ccs) cs" "e = None \<longrightarrow> length cs = length ccs"
        using cs2 by auto
      moreover have "ccs = [] \<Longrightarrow> s1 = s2 \<and> registry w1 = registry w3" using st by auto
      moreover have "acts ?G w w1" using acts_trans[OF acts_trans[OF acc acts_tick(2)]] ih by blast
      ultimately show ?thesis
        using ih ok w3 Inr by (intro conjI exI[of _ "c # cs"]) auto
    qed
  qed
qed auto

section \<open>Operations under the registry lock\<close>

text \<open>
  The public operations take the registry lock first and then run a body.  \<open>registry_edit\<close> is the
  shape shared by the client operations: read the status, pick the state to change or an early answer,
  write the changed state, and report the status again.
\<close>

locale locked_operation =
  fixes op :: "machine \<Rightarrow> 'a act" and body :: "machine \<Rightarrow> 'a act"
  assumes op_locks: "op m = bindm (acquire_lock m) (\<lambda>_. body m)"
begin

lemma op_unfold:
  "op m w = (if \<not> io_at m (obs w) then (Err IoFailed, tick w)
             else if \<not> lock_at m (obs w) then (Err AlreadyLocked, tick w) else body m (tick w))"
  by (simp add: op_locks bindm_def acquire_lock_def)

lemma refused_without_lock:
  "io_at m (obs w) \<Longrightarrow> \<not> lock_at m (obs w) \<Longrightarrow> op m w = (Err AlreadyLocked, tick w)"
  by (simp add: op_unfold)

lemma ran_body: "op m w = (Inr x, w') \<Longrightarrow> body m (tick w) = (Inr x, w')"
  by (auto simp: op_unfold split: if_splits)

lemma body_or_nothing:
  assumes "op m w = (r, w')" shows "body m (tick w) = (r, w') \<or> (w' = tick w \<and> \<not> is_ok r)"
  using assms by (auto simp: op_unfold split: if_splits)

end

definition edit_body ::
  "(machine \<Rightarrow> session_status \<Rightarrow> (sesman_error, session_status) result + session_state) \<Rightarrow>
   (sesman_config \<Rightarrow> int \<Rightarrow> session_state \<Rightarrow> session_state) \<Rightarrow> machine \<Rightarrow> session_status act" where
  "edit_body pick edit m = bindm (status m) (\<lambda>st w.
     case pick m st of Inl r \<Rightarrow> (r, w)
     | Inr s \<Rightarrow> bindm (write_state m (edit (sm_config m) (wall_at m (obs w)) s)) (\<lambda>_. status m) (tick w))"

locale registry_edit =
  locked_operation op "edit_body pick edit"
  for op :: "machine \<Rightarrow> session_status act"
    and pick :: "machine \<Rightarrow> session_status \<Rightarrow> (sesman_error, session_status) result + session_state"
    and edit :: "sesman_config \<Rightarrow> int \<Rightarrow> session_state \<Rightarrow> session_state" +
  assumes picks_state: "pick m st = Inr s \<Longrightarrow> st_state st = Some s"
begin

text \<open>Whatever the operation answers, it sends no signal, and the registry is either untouched or edited.\<close>

lemma edit_outcome:
  assumes "op m w = (r, w')"
  obtains (kept) "sent w' = sent w" "registry w' = registry w" "is_ok r \<Longrightarrow> \<exists>st w1. status m (tick w) = (Ok st, w1) \<and> pick m st = Inl r"
    | (edited) owner s st w1 where "sent w' = sent w" "registry w = RegFile Regular owner (Some s)" "file_trusted m owner"
        "status m (tick w) = (Ok st, w1)" "pick m st = Inr s" "obs w < obs w1" "obs w1 < obs w'"
        "registry w' = RegFile Regular (host_euid (sm_host m)) (Some (edit (sm_config m) (wall_at m (obs w1)) s))"
  using body_or_nothing[OF assms]
proof (elim disjE)
  show "w' = tick w \<and> \<not> is_ok r \<Longrightarrow> thesis" by (rule kept) auto
  assume b: "edit_body pick edit m (tick w) = (r, w')"
  from bindm_cases[OF this[unfolded edit_body_def]]
  consider (bad) e where "status m (tick w) = (Inl e, w')" "r = Inl e"
    | (read) st w1 where "status m (tick w) = (Inr st, w1)"
        "(case pick m st of Inl r \<Rightarrow> (r, w1)
          | Inr s \<Rightarrow> bindm (write_state m (edit (sm_config m) (wall_at m (obs w1)) s)) (\<lambda>_. status m) (tick w1)) = (r, w')"
    by blast
  then show thesis
  proof cases
    case bad
    then show thesis using status_frame(1,2)[of m "tick w"] by (intro kept) auto
  next
    case (read st w1)
    have f1: "registry w1 = registry w" "sent w1 = sent w" using status_frame(1,2)[of m "tick w"] read(1) by simp_all
    show thesis
    proof (cases "pick m st")
      case (Inl a)
      then show thesis using read f1 by (intro kept) auto
    next
      case (Inr s)
      from status_state[OF read(1)] picks_state[OF Inr]
      obtain owner where o: "registry w = RegFile Regular owner (Some s)" "file_trusted m owner" by auto
      let ?s = "edit (sm_config m) (wall_at m (obs w1)) s"
      from read(2) Inr have "bindm (write_state m ?s) (\<lambda>_. status m) (tick w1) = (r, w')" by simp
      from bindm_cases[OF this] show thesis
      proof (elim disjE exE conjE)
        fix e assume "write_state m ?s (tick w1) = (Inl e, w')" "r = Inl e"
        then show thesis using write_state_spec[of m ?s "tick w1"] f1 by (intro kept) auto
      next
        fix u w2 assume ws: "write_state m ?s (tick w1) = (Inr u, w2)" and st: "status m w2 = (r, w')"
        show thesis
          using write_state_spec[OF ws] status_frame(1,2)[of m w2] status_frame(3)[of w2 m] status_frame(3)[of "tick w" m]
            st f1 o read(1) Inr by (intro edited) auto
      qed
    qed
  qed
qed

end

definition bind_pick :: "machine \<Rightarrow> session_status \<Rightarrow> (sesman_error, session_status) result + session_state" where
  "bind_pick m st =
     (if \<not> status_can_serve m st then Inl (Err (CannotBind (st_health st)))
      else case st_state st of None \<Rightarrow> Inl (Err StatusWithoutState) | Some s \<Rightarrow> Inr s)"

definition state_pick :: "machine \<Rightarrow> session_status \<Rightarrow> (sesman_error, session_status) result + session_state" where
  "state_pick m st = (case st_state st of None \<Rightarrow> Inl (Ok st) | Some s \<Rightarrow> Inr s)"

interpretation stopping: locked_operation stop "\<lambda>m. bindm (stop_locked m) (\<lambda>_. status m)"
  by unfold_locales (simp add: stop_def)

interpretation reconciling: locked_operation reconcile_after_daemon_restart reconcile_locked
  by unfold_locales (simp add: reconcile_after_daemon_restart_def)

interpretation idling: locked_operation cleanup_idle cleanup_idle_locked
  by unfold_locales (simp add: cleanup_idle_def)

lemma client_operations_edit:
  "bind_single_client m = bindm (acquire_lock m) (\<lambda>_. edit_body bind_pick (\<lambda>c. bound) m)"
  "unbind_single_client m = bindm (acquire_lock m) (\<lambda>_. edit_body state_pick unbound m)"
  "disconnect_client m = bindm (acquire_lock m) (\<lambda>_. edit_body state_pick disconnected m)"
  unfolding bind_single_client_def unbind_single_client_def disconnect_client_def edit_body_def bind_pick_def state_pick_def
  by (intro arg_cong[of _ _ "bindm _"] ext; auto split: option.splits)+

interpretation binding: registry_edit bind_single_client bind_pick "\<lambda>c. bound"
  by unfold_locales (auto simp: client_operations_edit bind_pick_def split: if_splits option.splits)

interpretation unbinding: registry_edit unbind_single_client state_pick unbound
  by unfold_locales (auto simp: client_operations_edit state_pick_def split: option.splits)

interpretation disconnecting: registry_edit disconnect_client state_pick disconnected
  by unfold_locales (auto simp: client_operations_edit state_pick_def split: option.splits)

section \<open>Teardown and idle cleanup\<close>

lemma stop_locked_cases:
  assumes "stop_locked m w = (r, w')"
  obtains (unread) e where "r = Inl e" "kept G w w'"
    | (absent) "r = Ok ()" "registry w = RegAbsent" "kept G w w'"
    | (teardown) owner s w1 where "registry w = RegFile Regular owner (Some s)" "file_trusted m owner"
        "kept G w w1" "stop_state m s w1 = (r, w')"
proof -
  from bindm_cases[OF assms[unfolded stop_locked_def]]
  consider e where "status m w = (Inl e, w')" "r = Inl e"
    | st w1 where "status m w = (Inr st, w1)"
        "(case st_state st of None \<Rightarrow> ret () | Some s \<Rightarrow> stop_state m s) w1 = (r, w')" by blast
  then show thesis
  proof cases
    case 1
    then show thesis using kept_quiet(6)[of G w m] unread by simp
  next
    case (2 st w1)
    then have k: "kept G w w1" using kept_quiet(6)[of G w m] by simp
    from status_state[OF 2(1)] 2(2) k show thesis
      by (elim disjE exE conjE) (auto simp: ret_def intro: absent teardown)
  qed
qed

lemma signal_ok_mono: "signal_ok m s k x \<Longrightarrow> j \<le> k \<Longrightarrow> signal_ok m s j x"
  unfolding signal_ok_def by (meson le_trans)

definition registry_state :: "registry_file \<Rightarrow> session_state option" where
  "registry_state r = (case r of RegFile Regular _ content \<Rightarrow> content | _ \<Rightarrow> None)"

text \<open>Signals that a teardown of the recorded session may send; none if there is no recorded session.\<close>

definition teardown_signal :: "machine \<Rightarrow> world \<Rightarrow> sent_signal \<Rightarrow> bool" where
  "teardown_signal m w x = (case registry_state (registry w) of None \<Rightarrow> False | Some s \<Rightarrow> signal_ok m s (obs w) x)"

lemma registry_state_file [simp]: "registry_state (RegFile Regular owner c) = c" "registry_state RegAbsent = None"
  by (simp_all add: registry_state_def)

lemma stop_locked_safe:
  assumes "stop_locked m w = (r, w')"
  shows "acts (teardown_signal m w) w w'" "is_ok r \<Longrightarrow> registry w' = RegAbsent" "\<not> is_ok r \<Longrightarrow> registry w' = registry w"
    and "registry_state (registry w) = Some s \<Longrightarrow> is_ok r \<Longrightarrow> \<exists>k0 \<ge> obs w. \<forall>i < length (ss_components s).
      authorized_at m (Suc k0 + i) (state_belongs_to_config m (view_at m k0) s) (ss_components s ! i) \<longrightarrow>
      (\<exists>k. k0 + length (ss_components s) < k \<and> k < obs w' \<and> \<not> target_alive_at m (ss_components s ! i) k)"
proof -
  have all: "acts (teardown_signal m w) w w' \<and> (is_ok r \<longrightarrow> registry w' = RegAbsent) \<and> (\<not> is_ok r \<longrightarrow> registry w' = registry w) \<and>
    (registry_state (registry w) = Some s \<longrightarrow> is_ok r \<longrightarrow> (\<exists>k0 \<ge> obs w. \<forall>i < length (ss_components s).
      authorized_at m (Suc k0 + i) (state_belongs_to_config m (view_at m k0) s) (ss_components s ! i) \<longrightarrow>
      (\<exists>k. k0 + length (ss_components s) < k \<and> k < obs w' \<and> \<not> target_alive_at m (ss_components s ! i) k)))"
    using assms
  proof (cases rule: stop_locked_cases[where G = "teardown_signal m w"])
    case (teardown owner s' w1)
    note safe = stop_state_safe[OF teardown(4)]
    have o: "obs w \<le> obs w1" by (rule kept_obs[OF teardown(3)])
    have "acts (teardown_signal m w) w1 w'"
      by (rule acts_mono[OF safe(1)]) (use teardown(1) o in \<open>auto simp: teardown_signal_def intro: signal_ok_mono\<close>)
    then have "acts (teardown_signal m w) w w'" "registry w1 = registry w"
      using teardown(3) acts_trans by (auto simp: kept_def)
    moreover have "\<exists>k0 \<ge> obs w. \<forall>i < length (ss_components s).
      authorized_at m (Suc k0 + i) (state_belongs_to_config m (view_at m k0) s) (ss_components s ! i) \<longrightarrow>
      (\<exists>k. k0 + length (ss_components s) < k \<and> k < obs w' \<and> \<not> target_alive_at m (ss_components s ! i) k)"
      if "is_ok r" "s' = s" using safe(4)[OF that(1)] o that(2) by auto
    ultimately show ?thesis using safe(2,3) teardown(1) by (cases "is_ok r") auto
  qed (auto simp: kept_def)
  from all show "acts (teardown_signal m w) w w'" by simp
  from all show "is_ok r \<Longrightarrow> registry w' = RegAbsent" by simp
  from all show "\<not> is_ok r \<Longrightarrow> registry w' = registry w" by simp
  from all show "registry_state (registry w) = Some s \<Longrightarrow> is_ok r \<Longrightarrow> \<exists>k0 \<ge> obs w. \<forall>i < length (ss_components s).
      authorized_at m (Suc k0 + i) (state_belongs_to_config m (view_at m k0) s) (ss_components s ! i) \<longrightarrow>
      (\<exists>k. k0 + length (ss_components s) < k \<and> k < obs w' \<and> \<not> target_alive_at m (ss_components s ! i) k)" by blast
qed

lemma teardown_signal_mono:
  "teardown_signal m w1 x \<Longrightarrow> registry w1 = registry w \<Longrightarrow> obs w \<le> obs w1 \<Longrightarrow> teardown_signal m w x"
  by (auto simp: teardown_signal_def intro: signal_ok_mono split: option.splits)

lemma status_obs: "obs w < obs (snd (status m w))"
  using read_state_frame(3)[of m w] classify_frame(3)
  by (auto simp: status_eq less_eq_Suc_le split: prod.splits sum.splits option.splits intro: le_trans[OF _ classify_frame(3)])

lemma cleanup_idle_locked_cases:
  assumes "cleanup_idle_locked m w = (r, w')"
  obtains (quiet) "kept G w w'" "r \<noteq> Ok True"
    | (expired) s k w1 q where "registry_state (registry w) = Some s" "obs w < k" "k < obs w'"
        "idle_expired (sm_config m) (wall_at m k) s" "kept G w w1"
        "stop_locked m w1 = (q, w')" "r = (case q of Inl e \<Rightarrow> Inl e | Inr _ \<Rightarrow> Ok True)"
proof -
  from bindm_cases[OF assms[unfolded cleanup_idle_locked_def]]
  consider e where "status m w = (Inl e, w')" "r = Inl e"
    | st w1 where "status m w = (Inr st, w1)"
        "(if st_health st = Missing then (Ok False, w1)
          else case st_state st of None \<Rightarrow> (Ok False, w1)
            | Some s \<Rightarrow> if \<not> idle_expired (sm_config m) (wall_at m (obs w1)) s then (Ok False, tick w1)
                        else bindm (stop_locked m) (\<lambda>_. ret True) (tick w1)) = (r, w')" by blast
  then show thesis
  proof cases
    case 1
    then show thesis using kept_quiet(6)[of G w m] quiet by simp
  next
    case (2 st w1)
    then have k: "kept G w w1" using kept_quiet(6)[of G w m] by simp
    then have kt: "kept G w (tick w1)" by (rule kept_trans[OF _ kept_quiet(1)])
    show thesis
    proof (cases "\<exists>s. st_health st \<noteq> Missing \<and> st_state st = Some s \<and> idle_expired (sm_config m) (wall_at m (obs w1)) s")
      case False
      with 2(2) have "(r, w') = (Ok False, w1) \<or> (r, w') = (Ok False, tick w1)"
        by (cases "st_state st") (auto split: if_splits)
      then show thesis using k kt by (intro quiet) auto
    next
      case True
      then obtain s where s: "st_health st \<noteq> Missing" "st_state st = Some s" "idle_expired (sm_config m) (wall_at m (obs w1)) s" by blast
      with 2(2) have b: "bindm (stop_locked m) (\<lambda>_. ret True) (tick w1) = (r, w')" by simp
      obtain q w2 where q: "stop_locked m (tick w1) = (q, w2)" by (cases "stop_locked m (tick w1)")
      have "w2 = w'" and rq: "r = (case q of Inl e \<Rightarrow> Inl e | Inr _ \<Rightarrow> Ok True)"
        using b q by (auto simp: bindm_def ret_def split: sum.splits)
      have "obs w1 < obs w'" using stop_locked_safe(1)[OF q] \<open>w2 = w'\<close> by (simp add: acts_def)
      moreover have "registry_state (registry w) = Some s" using status_state[OF 2(1)] s(2) by auto
      moreover have "obs w < obs w1" using status_state[OF 2(1)] s(2) status_obs[of w m] 2(1) by simp
      ultimately show thesis using s(3) kt q \<open>w2 = w'\<close> rq by (intro expired) auto
    qed
  qed
qed

section \<open>An example machine\<close>

text \<open>
  A machine with one component, process 42 of its own group, that dies at observation \<open>death\<close>; used
  by the witnesses.  Every I/O step succeeds and the wall clock shows the observation number.
\<close>

definition example_view_at :: "nat \<Rightarrow> nat \<Rightarrow> proc_view" where
  "example_view_at death k = example_view\<lparr>kill_zero := (\<lambda>p. k < death \<and> (p = 42 \<or> p = - 42))\<rparr>"

definition example_component :: component_config where
  "example_component = \<lparr>cc_name = ''c'', cc_command = ''x'', cc_args = [], cc_env = [], cc_working_dir = None,
     cc_log_path = None, cc_readiness = ProcessAlive, cc_required = True, cc_startup_delay_ms = 0\<rparr>"

definition example_machine :: "nat \<Rightarrow> machine" where
  "example_machine death =
     \<lparr>sm_config = example_sesman_config\<lparr>components := [example_component], stop_timeout_ms := 0, cleanup_paths := [], idle_timeout_ms := 100\<rparr>,
      sm_host = example_host, view_at = example_view_at death, clock_at = (\<lambda>_. 0), wall_at = int,
      fs_at = (\<lambda>_. example_fs), socket_at = (\<lambda>_ _. None), connect_at = (\<lambda>_ _. False), kill_at = (\<lambda>_. True),
      inspect_at = (\<lambda>_. True), io_at = (\<lambda>_. True), lock_at = (\<lambda>_. True), mkdir_at = (\<lambda>_. example_mk),
      fork_at = (\<lambda>_ _. None), wait_at = (\<lambda>_ _. StillRunning), uuid_at = (\<lambda>_. ''id'')\<rparr>"

definition example_component_state :: component_state where
  "example_component_state = \<lparr>cs_name = ''c'', cs_pid = 42, cs_command = [''x''], cs_started_at = 0, cs_start_ticks = Some 777,
     cs_boot_id = Some ''b00t'', cs_uid = Some 1000, cs_pgid = Some 42, cs_required = True, cs_process_group = True\<rparr>"

definition example_session :: session_state where
  "example_session = (session_state_new example_host example_view ''id'' 0 (sm_config (example_machine 0)))\<lparr>ss_components := [example_component_state]\<rparr>"

definition example_world :: "session_state \<Rightarrow> world" where
  "example_world s = \<lparr>obs = 0, slept = 0, registry = RegFile Regular 0 (Some s), sent = [], dirs = example_tree\<rparr>"

lemma example_reads:
  "process_status_uids (example_view_at d k) 42 = Some (1000, 1000)" "read_boot_id (example_view_at d k) = Some ''b00t''"
  "process_pgid (example_view_at d k) 42 = Some 42" "process_start_ticks (example_view_at d k) 42 = Some 777"
  "process_alive (example_view_at d k) 42 \<longleftrightarrow> k < d" "process_group_alive (example_view_at d k) 42 \<longleftrightarrow> k < d"
  using example_view_reads example_view_ok(3)
  by (simp_all add: process_status_uids_def read_boot_id_def process_pgid_def process_start_ticks_def stat_field_def
      process_alive_def process_group_alive_def example_view_at_def split: option.splits)

lemma example_matches:
  "process_matches (example_view_at d k) (component_signature example_component_state) p \<longleftrightarrow> k < d"
  by (auto simp: process_matches_def component_signature_def example_component_state_def example_reads
      is_fully_hardened_def boot_matches_def uid_matches_def pgid_matches_def)

lemma example_belongs:
  assumes "s \<in> {example_session, bound t example_session, unbound c t example_session}"
  shows "state_belongs_to_config (example_machine d) (example_view_at d k) s" "ss_components s = [example_component_state]"
  using assms
  by (auto simp: state_belongs_to_config_def example_session_def session_state_new_def example_machine_def Let_def
      example_reads example_view_reads example_sesman_config_def path_eq_def ok_option_def example_uid
      bound_def unbound_def mark_updated_def)

lemmas example_machine_simps =
  example_machine_def[THEN arg_cong[of _ _ sm_config], simplified]
  example_machine_def[THEN arg_cong[of _ _ sm_host], simplified]
  example_machine_def[THEN arg_cong[of _ _ view_at], simplified]
  example_machine_def[THEN arg_cong[of _ _ clock_at], simplified]
  example_machine_def[THEN arg_cong[of _ _ wall_at], simplified]
  example_machine_def[THEN arg_cong[of _ _ kill_at], simplified]
  example_machine_def[THEN arg_cong[of _ _ inspect_at], simplified]
  example_machine_def[THEN arg_cong[of _ _ io_at], simplified]
  example_machine_def[THEN arg_cong[of _ _ lock_at], simplified]
  example_machine_def[THEN arg_cong[of _ _ fs_at], simplified]
  example_machine_def[THEN arg_cong[of _ _ mkdir_at], simplified]

lemma example_status:
  assumes "s \<in> {example_session, bound t example_session, unbound c t example_session}"
    "registry w = RegFile Regular 0 (Some s)"
  shows "status (example_machine d) w =
    (Ok \<lparr>st_health = (if Suc (Suc (obs w)) < d then Healthy else Dead), st_state_path = state_path (sm_config (example_machine d)),
         st_state = Some s, st_dead_components = (if Suc (Suc (obs w)) < d then [] else [''c''])\<rparr>, tick (tick (tick w)))"
  using assms(2) example_belongs[OF assms(1)]
  by (simp add: status_eq read_state_def example_machine_simps file_trusted_def example_host_def classify_def Let_def
      component_ready_def example_matches example_component_def readiness_met_def removed_components_def
      example_component_state_def[THEN arg_cong[of _ _ cs_name], simplified]
      example_component_state_def[THEN arg_cong[of _ _ cs_command], simplified])

section \<open>Properties of teardown\<close>

text \<open>
  C15.  Teardown signals only what it has authenticated and forgets nothing that may still run.
  Every signal goes to a component of the recorded session that, earlier in this teardown, was
  seen to be the recorded process of a session belonging to this configuration and that was alive
  just before the signal; a group is signalled only if it is the component's own.  If
  teardown succeeds the registry is gone and every component that was authorised was
  seen dead after its authorisation; if it fails the registry is as it was.
\<close>

theorem teardown_is_safe:
  assumes "stop_locked m w = (r, w')" "registry_state (registry w) = Some s"
  shows "acts (signal_ok m s (obs w)) w w' \<and> (\<not> is_ok r \<longrightarrow> registry w' = registry w) \<and>
    (is_ok r \<longrightarrow> registry w' = RegAbsent \<and>
      (\<exists>k0 \<ge> obs w. \<forall>i < length (ss_components s).
        authorized_at m (Suc k0 + i) (state_belongs_to_config m (view_at m k0) s) (ss_components s ! i) \<longrightarrow>
        (\<exists>k. k0 + length (ss_components s) < k \<and> k < obs w' \<and> \<not> target_alive_at m (ss_components s ! i) k)))"
proof -
  have "acts (signal_ok m s (obs w)) w w'"
    using stop_locked_safe(1)[OF assms(1)] assms(2) by (auto simp: teardown_signal_def elim: acts_mono)
  then show ?thesis using stop_locked_safe(2,3,4)[OF assms(1)] assms(2) by blast
qed

lemma example_cleanup: "cleanup_runtime (example_machine d) w = (Ok (), tick w)"
  by (simp add: cleanup_runtime_def example_machine_simps example_sesman_config_def sesman_config_default_def
      cleanup_runtime_paths_def)

lemma wait_stopped_overdue: "deadline \<le> instant_now m w \<Longrightarrow> wait_stopped m ts deadline w = w"
  by (subst wait_stopped.simps) simp

lemma example_stop:
  assumes "registry w = RegFile Regular 0 (Some s)"
    "s \<in> {example_session, bound t example_session, unbound c t example_session}" "d = obs w + 7"
  shows "\<exists>w'. stop_locked (example_machine d) w = (Ok (), w') \<and>
     sent w' = sent w @ [\<lparr>sent_at = obs w + 6, sent_pid = 42, sent_group = True, sent_kind = SIGTERM\<rparr>] \<and> obs w' = obs w + 11"
proof -
  note cs = example_component_state_def[THEN arg_cong[of _ _ cs_pid], simplified]
    example_component_state_def[THEN arg_cong[of _ _ cs_process_group], simplified]
    example_component_state_def[THEN arg_cong[of _ _ cs_pgid], simplified]
  define w1 where "w1 = tick (tick (tick w))"
  have w1: "obs w1 = obs w + 3" "registry w1 = RegFile Regular 0 (Some s)" "sent w1 = sent w" "slept w1 = slept w"
    using assms(1) by (simp_all add: w1_def)
  define w2 where "w2 = signal_target SIGTERM example_component_state (tick (tick (tick w1)))"
  have w2: "obs w2 = obs w + 7" "registry w2 = RegFile Regular 0 (Some s)" "slept w2 = slept w"
     "sent w2 = sent w @ [\<lparr>sent_at = obs w + 6, sent_pid = 42, sent_group = True, sent_kind = SIGTERM\<rparr>]"
    using w1 by (simp_all add: w2_def signal_target_def cs)
  let ?m = "example_machine d"
  let ?ts = "[(example_component_state, True)]"
  have auth: "authorize ?m True [example_component_state] (tick w1) = (?ts, tick (tick w1))"
    using w1(1) assms(3) by (simp add: authorized_at_def example_machine_simps example_matches cs)
  have p1: "signal_phase ?m SIGTERM ?ts (tick (tick w1)) = (Ok (), w2)"
    using w1(1) assms(3) by (simp add: target_alive_def cs example_machine_simps example_reads w2_def Let_def)
  have p2: "signal_phase ?m SIGKILL ?ts w2 = (Ok (), tick w2)" "survivors ?m ?ts (tick w2) = ([], tick (tick w2))"
    using w2(1) assms(3) by (simp_all add: target_alive_def cs example_machine_simps example_reads)
  have st: "stop_timeout_ms (sm_config ?m) = 0" by (simp add: example_machine_simps)
  have "stop_state ?m s w1 = remove_state_file ?m (tick (tick (tick w2)))"
    supply authorize.simps [simp del] signal_phase.simps [simp del] survivors.simps [simp del]
    by (simp add: stop_state_def bindm_def st wait_stopped_overdue example_cleanup example_machine_simps(3)
        example_belongs[OF assms(2)] auth p1 p2)
  moreover have "stop_locked ?m w = stop_state ?m s w1"
    using example_status[OF assms(2,1), of d] by (simp add: stop_locked_def bindm_def w1_def)
  ultimately show ?thesis
    using w2 by (simp add: remove_state_file_def example_machine_simps file_trusted_def example_host_def)
qed

theorem teardown_is_safe_witness:
  "\<exists>w'. stop_locked (example_machine 7) (example_world example_session) = (Ok (), w') \<and> sent w' \<noteq> [] \<and>
     acts (signal_ok (example_machine 7) example_session 0) (example_world example_session) w' \<and> registry w' = RegAbsent"
proof -
  have g: "registry (example_world example_session) = RegFile Regular 0 (Some example_session)" "obs (example_world example_session) = 0"
    by (simp_all add: example_world_def)
  from example_stop[OF g(1), of 0 "sm_config (example_machine 0)" 7] g
  obtain w' where "stop_locked (example_machine 7) (example_world example_session) = (Ok (), w')" "sent w' \<noteq> []" by auto
  with teardown_is_safe[OF this(1), of example_session] g show ?thesis by auto
qed

section \<open>Properties of the client operations\<close>

text \<open>
  Without the registry lock nothing happens: every public operation that is refused the lock
  returns the error and leaves the registry, the directories and the processes alone.
\<close>

theorem refused_without_lock_exact:
  assumes "io_at m (obs w)" "\<not> lock_at m (obs w)"
  shows "stop m w = (Err AlreadyLocked, tick w) \<and> bind_single_client m w = (Err AlreadyLocked, tick w) \<and>
    unbind_single_client m w = (Err AlreadyLocked, tick w) \<and> disconnect_client m w = (Err AlreadyLocked, tick w) \<and>
    cleanup_idle m w = (Err AlreadyLocked, tick w) \<and> reconcile_after_daemon_restart m w = (Err AlreadyLocked, tick w)"
  using stopping.refused_without_lock[OF assms] binding.refused_without_lock[OF assms]
    unbinding.refused_without_lock[OF assms] disconnecting.refused_without_lock[OF assms]
    idling.refused_without_lock[OF assms] reconciling.refused_without_lock[OF assms]
  by blast

theorem refused_without_lock_exact_witness:
  "stop (example_machine 7\<lparr>lock_at := \<lambda>_. False\<rparr>) (example_world example_session) =
     (Err AlreadyLocked, tick (example_world example_session))"
  using refused_without_lock_exact[of "example_machine 7\<lparr>lock_at := \<lambda>_. False\<rparr>" "example_world example_session"]
  by (simp add: example_machine_simps)

lemma disconnected_exact:
  "disconnected c now s = (if unat (ss_active_clients s) \<le> 1
     then s\<lparr>ss_updated_at := now, ss_active_clients := 0, ss_last_disconnected_at := Some now,
            ss_idle_deadline_at := idle_deadline_after c now\<rparr>
     else s\<lparr>ss_updated_at := now, ss_active_clients := ss_active_clients s - 1\<rparr>)"
proof (cases "unat (ss_active_clients s) \<le> 1")
  case True
  then have "ss_active_clients s \<le> 1" by (simp add: word_le_nat_alt)
  then show ?thesis using True by (simp add: disconnected_def saturating_sub_def mark_updated_def)
next
  case False
  then have "\<not> ss_active_clients s \<le> 1" "ss_active_clients s - 1 \<noteq> 0" by (auto simp: word_le_nat_alt)
  then show ?thesis using False by (simp add: disconnected_def saturating_sub_def mark_updated_def)
qed

text \<open>
  Binding, unbinding and disconnecting a client never signal a process.  The registry afterwards is the
  one before, or the recorded session with exactly the client fields changed as of a wall clock
  reading during the call: binding is possible only on a session that can serve and leaves one
  active client and no deadline; unbinding leaves none and a fresh deadline; disconnecting
  takes one client away and sets the deadline when the last one leaves.  A successful answer
  to a binding means that it was written.
\<close>

theorem client_operations_exact:
  shows "(bind_single_client m w = (r, w') \<longrightarrow> sent w' = sent w \<and>
      ((registry w' = registry w \<and> \<not> is_ok r) \<or>
       (\<exists>s st w1. registry_state (registry w) = Some s \<and> status m (tick w) = (Ok st, w1) \<and> st_state st = Some s \<and> status_can_serve m st \<and>
          registry_state (registry w') = Some (s\<lparr>ss_updated_at := wall_at m (obs w1), ss_active_clients := 1,
            ss_last_disconnected_at := None, ss_idle_deadline_at := None\<rparr>)))) \<and>
    (unbind_single_client m w = (r, w') \<longrightarrow> sent w' = sent w \<and>
      ((registry w' = registry w \<and> (is_ok r \<longrightarrow> registry w = RegAbsent)) \<or>
       (\<exists>s k. registry_state (registry w) = Some s \<and> obs w < k \<and>
          registry_state (registry w') = Some (s\<lparr>ss_updated_at := wall_at m k, ss_active_clients := 0,
            ss_last_disconnected_at := Some (wall_at m k), ss_idle_deadline_at := idle_deadline_after (sm_config m) (wall_at m k)\<rparr>)))) \<and>
    (disconnect_client m w = (r, w') \<longrightarrow> sent w' = sent w \<and>
      ((registry w' = registry w \<and> (is_ok r \<longrightarrow> registry w = RegAbsent)) \<or>
       (\<exists>s k. registry_state (registry w) = Some s \<and> obs w < k \<and>
          registry_state (registry w') = Some (if unat (ss_active_clients s) \<le> 1
            then s\<lparr>ss_updated_at := wall_at m k, ss_active_clients := 0,
                  ss_last_disconnected_at := Some (wall_at m k), ss_idle_deadline_at := idle_deadline_after (sm_config m) (wall_at m k)\<rparr>
            else s\<lparr>ss_updated_at := wall_at m k, ss_active_clients := ss_active_clients s - 1\<rparr>))))"
proof (intro conjI impI, goal_cases)
  case 1
  then show ?case by (cases rule: binding.edit_outcome) simp_all
next
  case 2
  then show ?case
  proof (cases rule: binding.edit_outcome)
    case kept
    then show ?thesis by (auto simp: bind_pick_def split: if_splits option.splits)
  next
    case (edited owner s st w1)
    then have "st_state st = Some s \<and> status_can_serve m st" by (auto simp: bind_pick_def split: if_splits option.splits)
    with edited show ?thesis by (auto simp: bound_def mark_updated_def)
  qed
next
  case 3
  then show ?case by (cases rule: unbinding.edit_outcome) simp_all
next
  case 4
  then show ?case
  proof (cases rule: unbinding.edit_outcome)
    case kept
    then show ?thesis by (auto simp: state_pick_def split: option.splits dest!: status_state)
  next
    case (edited owner s st w1)
    have "obs w < obs w1" using status_obs[of "tick w" m] edited(4) by simp
    with edited show ?thesis by (auto simp: unbound_def mark_updated_def)
  qed
next
  case 5
  then show ?case by (cases rule: disconnecting.edit_outcome) simp_all
next
  case 6
  then show ?case
  proof (cases rule: disconnecting.edit_outcome)
    case kept
    then show ?thesis by (auto simp: state_pick_def split: option.splits dest!: status_state)
  next
    case (edited owner s st w1)
    have "obs w < obs w1" using status_obs[of "tick w" m] edited(4) by simp
    moreover have "disconnected (sm_config m) (wall_at m (obs w1)) s = (if unat (ss_active_clients s) \<le> 1
            then s\<lparr>ss_updated_at := wall_at m (obs w1), ss_active_clients := 0,
                  ss_last_disconnected_at := Some (wall_at m (obs w1)), ss_idle_deadline_at := idle_deadline_after (sm_config m) (wall_at m (obs w1))\<rparr>
            else s\<lparr>ss_updated_at := wall_at m (obs w1), ss_active_clients := ss_active_clients s - 1\<rparr>)"
      by (rule disconnected_exact)
    ultimately show ?thesis using edited by auto
  qed
qed


lemma example_unbind:
  assumes "registry w = RegFile Regular 0 (Some s)" "s \<in> {example_session, bound t example_session}"
  shows "\<exists>st w'. unbind_single_client (example_machine d) w = (Ok st, w') \<and> obs w' = obs w + 9 \<and> sent w' = sent w \<and>
    registry w' = RegFile Regular 0 (Some (unbound (sm_config (example_machine d)) (4 + int (obs w)) example_session))"
proof -
  let ?m = "example_machine d" let ?w = "tick (tick (tick (tick w)))"
  have "status ?m (tick w) = (Ok \<lparr>st_health = (if Suc (Suc (Suc (obs w))) < d then Healthy else Dead),
      st_state_path = state_path (sm_config ?m), st_state = Some s, st_dead_components = (if Suc (Suc (Suc (obs w))) < d then [] else [''c''])\<rparr>, ?w)"
    using example_status[of s t undefined "tick w" d] assms by auto
  then have "unbind_single_client ?m w = status ?m (snd (write_state ?m (unbound (sm_config ?m) (wall_at ?m (obs ?w)) s) (tick ?w)))"
    by (simp add: unbind_single_client_def bindm_def acquire_lock_def write_state_def example_machine_simps
        assms(1) is_directory_entry_def)
  moreover have "unbound (sm_config ?m) (wall_at ?m (obs ?w)) s = unbound (sm_config ?m) (wall_at ?m (obs ?w)) example_session"
    using assms(2) by (auto simp: unbound_def bound_def mark_updated_def)
  ultimately show ?thesis
    using example_status[of "unbound (sm_config ?m) (wall_at ?m (obs ?w)) s" "wall_at ?m (obs ?w)" "sm_config ?m" "snd (write_state ?m (unbound (sm_config ?m) (wall_at ?m (obs ?w)) s) (tick ?w))" d]
    by (auto simp: write_state_def example_machine_simps assms(1) is_directory_entry_def example_host_def)
qed

theorem client_operations_exact_witness:
  "\<exists>st w' s'. unbind_single_client (example_machine 99) (example_world (bound 0 example_session)) = (Ok st, w') \<and>
     registry_state (registry w') = Some s' \<and> ss_active_clients s' = 0"
proof -
  let ?w = "example_world (bound 0 example_session)"
  have g: "registry ?w = RegFile Regular 0 (Some (bound 0 example_session))" by (simp add: example_world_def)
  from example_unbind[OF g, of 0 99] obtain st w' where u: "unbind_single_client (example_machine 99) ?w = (Ok st, w')" by auto
  from client_operations_exact[of "example_machine 99" ?w "Ok st" w', THEN conjunct2, THEN conjunct1, THEN mp, OF u] g
  obtain s k where "registry_state (registry w') = Some (s\<lparr>ss_updated_at := wall_at (example_machine 99) k, ss_active_clients := 0,
      ss_last_disconnected_at := Some (wall_at (example_machine 99) k),
      ss_idle_deadline_at := idle_deadline_after (sm_config (example_machine 99)) (wall_at (example_machine 99) k)\<rparr>)" by auto
  with u show ?thesis by (intro exI conjI) auto
qed

section \<open>Properties of idle cleanup\<close>

lemma cleanup_idle_locked_spec:
  assumes "cleanup_idle_locked m w = (r, w')"
  shows "acts (teardown_signal m w) w w'" "r = Ok True \<Longrightarrow> registry w' = RegAbsent" "r \<noteq> Ok True \<Longrightarrow> registry w' = registry w"
    and "r = Ok False \<Longrightarrow> sent w' = sent w"
    and "r = Ok True \<or> sent w' \<noteq> sent w \<Longrightarrow>
      \<exists>s k. registry_state (registry w) = Some s \<and> obs w < k \<and> k < obs w' \<and> idle_expired (sm_config m) (wall_at m k) s"
proof -
  have "acts (teardown_signal m w) w w' \<and> (r = Ok True \<longrightarrow> registry w' = RegAbsent) \<and> (r \<noteq> Ok True \<longrightarrow> registry w' = registry w) \<and>
    ((r = Ok False \<longrightarrow> sent w' = sent w) \<and> (r = Ok True \<or> sent w' \<noteq> sent w \<longrightarrow>
      (\<exists>s k. registry_state (registry w) = Some s \<and> obs w < k \<and> k < obs w' \<and> idle_expired (sm_config m) (wall_at m k) s)))"
    using assms
  proof (cases rule: cleanup_idle_locked_cases[where G = "\<lambda>_. False"])
    case quiet
    then show ?thesis by (auto simp: kept_def acts_def list_all_iff)
  next
    case (expired s k w1 q)
    have w1: "acts (teardown_signal m w) w w1" "registry w1 = registry w" "obs w \<le> obs w1"
      using expired(5) acts_mono[of "\<lambda>_. False"] by (auto simp: kept_def acts_def)
    note st = stop_locked_safe[OF expired(6)]
    have "acts (teardown_signal m w) w1 w'"
      by (rule acts_mono[OF st(1)]) (rule teardown_signal_mono[OF _ w1(2,3)])
    then show ?thesis using expired st(2,3) w1 acts_trans by (cases q) auto
  qed
  then show "acts (teardown_signal m w) w w'" "r = Ok True \<Longrightarrow> registry w' = RegAbsent" "r \<noteq> Ok True \<Longrightarrow> registry w' = registry w"
    "r = Ok False \<Longrightarrow> sent w' = sent w"
    "r = Ok True \<or> sent w' \<noteq> sent w \<Longrightarrow>
      \<exists>s k. registry_state (registry w) = Some s \<and> obs w < k \<and> k < obs w' \<and> idle_expired (sm_config m) (wall_at m k) s"
    by blast+
qed

lemma cleanup_idle_spec:
  assumes "cleanup_idle m w = (r, w')"
  shows "acts (teardown_signal m w) w w'" "r = Ok True \<Longrightarrow> registry w' = RegAbsent" "r \<noteq> Ok True \<Longrightarrow> registry w' = registry w"
    and "r = Ok False \<Longrightarrow> sent w' = sent w"
    and "r = Ok True \<or> sent w' \<noteq> sent w \<Longrightarrow>
      \<exists>s k. registry_state (registry w) = Some s \<and> obs w < k \<and> k < obs w' \<and> idle_expired (sm_config m) (wall_at m k) s"
proof -
  note b = idling.body_or_nothing[OF assms]
  note spec = cleanup_idle_locked_spec[of m "tick w" r w']
  have tm: "teardown_signal m (tick w) x \<Longrightarrow> teardown_signal m w x" for x by (erule teardown_signal_mono) simp_all
  have "acts (teardown_signal m w) (tick w) w'"
    using b spec(1) by (auto elim!: acts_mono intro: tm)
  then show "acts (teardown_signal m w) w w'" by (rule acts_trans[OF acts_tick(1)])
  show "r = Ok True \<Longrightarrow> registry w' = RegAbsent" using b spec(2) by auto
  show "r \<noteq> Ok True \<Longrightarrow> registry w' = registry w" using b spec(3) by auto
  show "r = Ok False \<Longrightarrow> sent w' = sent w" using b spec(4) by auto
  show "r = Ok True \<or> sent w' \<noteq> sent w \<Longrightarrow>
      \<exists>s k. registry_state (registry w) = Some s \<and> obs w < k \<and> k < obs w' \<and> idle_expired (sm_config m) (wall_at m k) s"
    using b spec(5) by (fastforce dest: Suc_lessD)
qed

text \<open>
  The sweeper stops a session only when it has expired: if it reports a stop, or signals any process,
  the recorded session had no client and its deadline had passed at a moment during
  the call.  A reported stop means that the registry is gone; any other outcome leaves the registry in
  place, and the answer that nothing was stopped means that nothing was signalled.
\<close>

theorem idle_cleanup_exact:
  assumes "cleanup_idle m w = (r, w')"
  shows "(r = Ok True \<longrightarrow> registry w' = RegAbsent) \<and> (r \<noteq> Ok True \<longrightarrow> registry w' = registry w) \<and>
    (r = Ok False \<longrightarrow> sent w' = sent w) \<and> acts (teardown_signal m w) w w' \<and>
    (r = Ok True \<or> sent w' \<noteq> sent w \<longrightarrow>
      (\<exists>s k deadline. registry_state (registry w) = Some s \<and> obs w < k \<and> k < obs w' \<and> ss_active_clients s = 0 \<and>
         effective_idle_deadline (sm_config m) s = Some deadline \<and> deadline \<le> wall_at m k))"
proof -
  note c = cleanup_idle_spec[OF assms]
  have "\<exists>s k deadline. registry_state (registry w) = Some s \<and> obs w < k \<and> k < obs w' \<and> ss_active_clients s = 0 \<and>
         effective_idle_deadline (sm_config m) s = Some deadline \<and> deadline \<le> wall_at m k"
    if "r = Ok True \<or> sent w' \<noteq> sent w"
    using c(5)[OF that] by (fastforce simp: idle_expired_def split: option.splits)
  then show ?thesis using c(1-4) by blast
qed

lemma example_idle:
  assumes "registry w = RegFile Regular 0 (Some (unbound (sm_config (example_machine d)) t example_session))"
  shows "cleanup_idle (example_machine d) w =
    (if t + 100 \<le> int (obs w + 4) then bindm (stop_locked (example_machine d)) (\<lambda>_. ret True) (tick (tick (tick (tick (tick w)))))
     else (Ok False, tick (tick (tick (tick (tick w))))))"
proof -
  let ?s = "unbound (sm_config (example_machine d)) t example_session"
  have "idle_expired (sm_config (example_machine d)) now ?s \<longleftrightarrow> t + 100 \<le> now" for now
    by (simp add: idle_expired_def unbound_def mark_updated_def effective_idle_deadline_def idle_deadline_after_def
        as_i64_def example_machine_simps(1))
  then show ?thesis
    using example_status[of ?s t "sm_config (example_machine d)" "tick w" d] assms
    by (simp add: cleanup_idle_def cleanup_idle_locked_def bindm_def[of "acquire_lock _"] bindm_def[of "status _"] acquire_lock_def
        example_machine_simps(5,8,9))
qed

theorem idle_cleanup_exact_witness:
  "\<exists>w'. cleanup_idle (example_machine 12) (example_world (unbound (sm_config (example_machine 12)) (- 1000) example_session)) = (Ok True, w') \<and>
     registry w' = RegAbsent"
proof -
  let ?c = "sm_config (example_machine 12)"
  let ?w = "example_world (unbound ?c (- 1000) example_session)"
  let ?w5 = "tick (tick (tick (tick (tick ?w))))"
  have g: "registry ?w = RegFile Regular 0 (Some (unbound ?c (- 1000) example_session))" "obs ?w = 0" by (simp_all add: example_world_def)
  then have "registry ?w5 = RegFile Regular 0 (Some (unbound ?c (- 1000) example_session))" "12 = obs ?w5 + 7" by simp_all
  from example_stop[OF this(1) _ this(2), of "- 1000" ?c] obtain w' where "stop_locked (example_machine 12) ?w5 = (Ok (), w')" by auto
  with example_idle[OF g(1)] g(2) have c: "cleanup_idle (example_machine 12) ?w = (Ok True, w')"
    by (simp add: bindm_def ret_def)
  from idle_cleanup_exact[OF c] c show ?thesis by auto
qed

lemma unexpired_untouched:
  assumes "cleanup_idle m w = (r, w')" "registry_state (registry w) = Some s"
    and "\<And>k. obs w < k \<Longrightarrow> k < obs w' \<Longrightarrow> \<not> idle_expired (sm_config m) (wall_at m k) s"
  shows "registry w' = registry w \<and> sent w' = sent w"
  using cleanup_idle_spec(3,5)[OF assms(1)] assms(2,3) by fastforce

text \<open>
  C16.  A disconnected user has the whole grace period to come back: after a successful unbinding of a
  recorded session with an idle timeout, a sweep of that registry during which the wall clock stays
  below the time of the unbinding plus the timeout touches neither the registry nor any
  process.  While a client is bound, no sweep ever does, whatever the clock shows.
\<close>

theorem grace_period_respected:
  assumes "registry w2 = registry w1" "cleanup_idle m w2 = (r, w3)"
  shows "(unbind_single_client m w = (Ok st, w1) \<and> registry w \<noteq> RegAbsent \<and>
       0 < idle_timeout_ms (sm_config m) \<and> idle_timeout_ms (sm_config m) < 2 ^ 63 \<and>
       (\<forall>i j. obs w < i \<and> i < obs w1 \<and> obs w2 < j \<and> j < obs w3 \<longrightarrow>
          wall_at m j < wall_at m i + int (idle_timeout_ms (sm_config m))) \<longrightarrow>
       registry w3 = registry w1 \<and> sent w3 = sent w2) \<and>
    (bind_single_client m w = (Ok st, w1) \<longrightarrow> registry w3 = registry w1 \<and> sent w3 = sent w2)"
proof -
  have bound: "registry w3 = registry w1 \<and> sent w3 = sent w2" if "bind_single_client m w = (Ok st, w1)"
    using that
  proof (cases rule: binding.edit_outcome)
    case kept
    then show ?thesis by (auto simp: bind_pick_def split: if_splits option.splits)
  next
    case (edited owner s st' w')
    then show ?thesis
      using unexpired_untouched[OF assms(2), of "bound (wall_at m (obs w')) s"] assms(1)
      by (simp add: idle_expired_def bound_def mark_updated_def)
  qed
  have unbound: "registry w3 = registry w1 \<and> sent w3 = sent w2"
    if "unbind_single_client m w = (Ok st, w1)" "registry w \<noteq> RegAbsent"
      "0 < idle_timeout_ms (sm_config m)" "idle_timeout_ms (sm_config m) < 2 ^ 63"
      "\<forall>i j. obs w < i \<and> i < obs w1 \<and> obs w2 < j \<and> j < obs w3 \<longrightarrow>
          wall_at m j < wall_at m i + int (idle_timeout_ms (sm_config m))"
    using that(1)
  proof (cases rule: unbinding.edit_outcome)
    case kept
    then show ?thesis using that(2) by (auto simp: state_pick_def split: option.splits dest!: status_state)
  next
    case (edited owner s st' w')
    have "as_i64 (idle_timeout_ms (sm_config m)) = int (idle_timeout_ms (sm_config m))"
      using that(4) by (simp add: as_i64_def Let_def)
    then have "\<not> idle_expired (sm_config m) (wall_at m k) (unbound (sm_config m) (wall_at m (obs w')) s)"
      if "obs w2 < k" "k < obs w3" for k
      using that \<open>\<forall>i j. _ i j\<close> edited(6,7) \<open>0 < _\<close>
      by (force simp: idle_expired_def unbound_def mark_updated_def effective_idle_deadline_def idle_deadline_after_def)
    then show ?thesis
      using unexpired_untouched[OF assms(2), of "unbound (sm_config m) (wall_at m (obs w')) s"] assms(1) edited(8) by simp
  qed
  show ?thesis using bound unbound by blast
qed

theorem grace_period_respected_witness:
  "\<exists>st w1 w3. unbind_single_client (example_machine 99) (example_world (bound 0 example_session)) = (Ok st, w1) \<and>
     cleanup_idle (example_machine 99) w1 = (Ok False, w3) \<and> registry w3 = registry w1 \<and> sent w3 = sent w1"
proof -
  let ?m = "example_machine 99" let ?w = "example_world (bound 0 example_session)"
  have g: "registry ?w = RegFile Regular 0 (Some (bound 0 example_session))" "obs ?w = 0" by (simp_all add: example_world_def)
  from example_unbind[OF g(1), of 0 99] g(2) obtain st w1 where u: "unbind_single_client ?m ?w = (Ok st, w1)" "obs w1 = 9"
    "registry w1 = RegFile Regular 0 (Some (unbound (sm_config ?m) 4 example_session))" by auto
  have c: "cleanup_idle ?m w1 = (Ok False, tick (tick (tick (tick (tick w1)))))"
    using example_idle[OF u(3)] u(2) by simp
  have "\<forall>i j. obs ?w < i \<and> i < obs w1 \<and> obs w1 < j \<and> j < obs (tick (tick (tick (tick (tick w1))))) \<longrightarrow>
      wall_at ?m j < wall_at ?m i + int (idle_timeout_ms (sm_config ?m))"
    using u(2) g(2) by (simp add: example_machine_simps(1,5))
  moreover have "idle_timeout_ms (sm_config ?m) = 100" by (simp add: example_machine_simps(1))
  ultimately have "registry (tick (tick (tick (tick (tick w1))))) = registry w1 \<and> sent (tick (tick (tick (tick (tick w1))))) = sent w1"
    using grace_period_respected[OF refl c, of ?w st, THEN conjunct1] u(1) g(1) by simp
  then show ?thesis using u(1) c by blast
qed

end
