(* ===== verification/Wrdp_Sesman_Lifecycle.thy ===== *)
theory Wrdp_Sesman_Lifecycle
  imports Wrdp_Sesman_Manager
begin

text \<open>
  The life of a session across operations of the session manager: what the reported health guarantees,
  what \<open>ensure\<close> leaves behind on each of its outcomes, and what the reconciliation
  after a restart of the daemon repairs.  Operations and machine are those of \<open>Wrdp_Sesman_Manager\<close>.
\<close>

section \<open>Health\<close>

lemma check_components_ready:
  assumes "check_components m s ccs w = (a, d, w')" "cc \<in> set ccs" "cc_required cc" "cc_name cc \<notin> set d"
  shows "\<exists>cs \<in> set (ss_components s). cs_name cs = cc_name cc \<and> (\<exists>k. obs w \<le> k \<and> k < obs w' \<and> component_ready m k cc cs)"
  using assms
proof (induction m s ccs w arbitrary: a d w' rule: check_components.induct)
  case (2 m s cc1 ccs w)
  obtain a1 d1 w1 where r: "check_components m s ccs (tick w) = (a1, d1, w1)"
    by (cases "check_components m s ccs (tick w)")
  have o: "obs w < obs w1" using check_components_frame[OF r] by simp
  have sub: "w' = w1" "set d1 \<subseteq> set d" using 2(2) r by (auto split: option.splits if_splits)
  show ?case
  proof (cases "cc \<in> set ccs")
    case True
    from 2(1)[OF r this 2(4)] 2(5) sub show ?thesis by (auto intro: Suc_leD)
  next
    case False
    then have cc: "cc = cc1" using 2(3) by simp
    obtain cs where f: "find (\<lambda>cs. cs_name cs = cc_name cc1) (ss_components s) = Some cs"
      using 2(2,4,5) r cc by (auto split: option.splits if_splits)
    then have "cs \<in> set (ss_components s)" "cs_name cs = cc_name cc1" by (auto simp: find_Some_iff in_set_conv_nth)
    moreover have "component_ready m (obs w) cc1 cs"
      using 2(2,5) r cc f calculation(2) by (auto split: if_splits)
    ultimately show ?thesis using cc o sub(1) by auto
  qed
qed simp

lemma served_status:
  assumes "status m w = (Ok st, w')" "status_can_serve m st"
  obtains owner s w1 where "registry w = RegFile Regular owner (Some s)" "st_state st = Some s"
    "obs w1 = Suc (obs w)" "state_belongs_to_config m (view_at m (obs w1)) s"
    "\<exists>a d. check_components m s (components (sm_config m)) (tick w1) = (a, d, w') \<and>
       st_dead_components st = d @ removed_components (sm_config m) s"
proof -
  from status_state[OF assms(1)] assms(2)
  obtain owner s where rs: "registry w = RegFile Regular owner (Some s)" "st_state st = Some s" "file_trusted m owner"
    by (auto simp: status_can_serve_def)
  define w1 where "w1 = snd (read_state m w)"
  have c: "classify m s w1 = (st, w')" "obs w1 = Suc (obs w)"
    using assms(1) rs by (auto simp: status_eq w1_def read_state_def split: if_splits)
  have b: "state_belongs_to_config m (view_at m (obs w1)) s"
  proof (rule ccontr)
    assume "\<not> ?thesis"
    with c(1) have "st_health st = Dead" by (auto simp: classify_def)
    with assms(2) show False by (simp add: status_can_serve_def)
  qed
  then have "\<exists>a d. check_components m s (components (sm_config m)) (tick w1) = (a, d, w') \<and>
       st_dead_components st = d @ removed_components (sm_config m) s"
    using c(1) by (auto simp: classify_def Let_def split: prod.splits)
  with rs b c(2) show thesis by (intro that)
qed

lemma status_healthy_no_dead: "status m w = (Ok st, w') \<Longrightarrow> st_health st = Healthy \<Longrightarrow> st_dead_components st = []"
  by (auto simp: status_eq classify_def Let_def split: prod.splits sum.splits option.splits if_splits)

text \<open>
  C17.  Only a session that really runs is reported able to serve: it belongs to this configuration, it
  has no component that was removed from it, and, when the configured names are distinct, every required component has a
  recorded process that was seen, during the call, to be the recorded one, to run the configured
  command and to be ready.
\<close>

theorem served_session_runs:
  assumes "status m w = (Ok st, w')" "status_can_serve m st" "distinct (map cc_name (components (sm_config m)))"
  shows "\<exists>s. registry_state (registry w) = Some s \<and> st_state st = Some s \<and>
    state_belongs_to_config m (view_at m (Suc (obs w))) s \<and>
    (\<forall>cs \<in> set (ss_components s). \<exists>cc \<in> set (components (sm_config m)). cc_name cc = cs_name cs) \<and>
    (\<forall>cc \<in> set (components (sm_config m)). cc_required cc \<longrightarrow>
       (\<exists>cs \<in> set (ss_components s). cs_name cs = cc_name cc \<and> (\<exists>k. obs w < k \<and> k < obs w' \<and> component_ready m k cc cs)))"
proof -
  obtain owner s w1 a d where s: "registry w = RegFile Regular owner (Some s)" "st_state st = Some s"
    "obs w1 = Suc (obs w)" "state_belongs_to_config m (view_at m (obs w1)) s"
    and c: "check_components m s (components (sm_config m)) (tick w1) = (a, d, w')"
    and dead: "st_dead_components st = d @ removed_components (sm_config m) s"
    using served_status[OF assms(1,2)] by metis
  let ?ccs = "components (sm_config m)"
  have optional: "\<exists>cc \<in> set ?ccs. cc_name cc = n \<and> \<not> cc_required cc" if "n \<in> set (st_dead_components st)" for n
  proof (cases "st_health st = Healthy")
    case True
    then show ?thesis using that assms(1) s(2) status_healthy_no_dead[OF assms(1)] by simp
  next
    case False
    then have "list_all (\<lambda>name. case find (\<lambda>cc. cc_name cc = name) ?ccs of Some cc \<Rightarrow> \<not> cc_required cc | None \<Rightarrow> False) (st_dead_components st)"
      using assms(2) by (simp add: status_can_serve_def)
    with that show ?thesis
      by (fastforce simp: list_all_iff find_Some_iff split: option.splits)
  qed
  have "\<exists>cc \<in> set ?ccs. cc_name cc = cs_name cs" if "cs \<in> set (ss_components s)" for cs
    using optional[of "cs_name cs"] that dead by (auto simp: removed_components_def list_ex_iff)
  moreover have "\<exists>cs \<in> set (ss_components s). cs_name cs = cc_name cc \<and> (\<exists>k. obs w < k \<and> k < obs w' \<and> component_ready m k cc cs)"
    if "cc \<in> set ?ccs" "cc_required cc" for cc
  proof -
    have "cc_name cc \<notin> set d"
      using optional[of "cc_name cc"] dead that assms(3) by (auto simp: distinct_map inj_on_eq_iff)
    from check_components_ready[OF c that this] obtain cs k where "cs \<in> set (ss_components s)" "cs_name cs = cc_name cc"
      "obs (tick w1) \<le> k" "k < obs w'" "component_ready m k cc cs" by blast
    then show ?thesis using s(3) by (intro bexI[of _ cs] conjI exI[of _ k]) auto
  qed
  ultimately show ?thesis using s by auto
qed


theorem served_session_runs_witness:
  "\<exists>k cs. cs_name cs = ''c'' \<and> component_ready (example_machine 99) k example_component cs"
proof -
  let ?m = "example_machine 99" let ?w = "example_world example_session"
  have g: "registry ?w = RegFile Regular 0 (Some example_session)" "obs ?w = 0" by (simp_all add: example_world_def)
  obtain st w' where st: "status ?m ?w = (Ok st, w')" "st_health st = Healthy"
    using example_status[OF _ g(1), of undefined undefined 99] g(2) by simp
  have "status_can_serve ?m st" using st(2) by (simp add: status_can_serve_def)
  moreover have "components (sm_config ?m) = [example_component]" by (simp add: example_machine_simps)
  moreover have "cc_required example_component" "cc_name example_component = ''c''" by (simp_all add: example_component_def)
  ultimately show ?thesis using served_session_runs[OF st(1)] by auto
qed

section \<open>Ensuring a session\<close>





























section \<open>Reconciliation\<close>

text \<open>A reconciled session has no client, a disconnection time and, with an idle timeout, a deadline.\<close>

definition is_reconciled :: "sesman_config \<Rightarrow> session_state \<Rightarrow> bool" where
  "is_reconciled c s \<longleftrightarrow> ss_active_clients s = 0 \<and> ss_last_disconnected_at s \<noteq> None \<and>
     (idle_timeout_ms c \<noteq> 0 \<longrightarrow> ss_idle_deadline_at s \<noteq> None)"

definition same_session :: "session_state \<Rightarrow> session_state \<Rightarrow> bool" where
  "same_session s s' \<longleftrightarrow> ss_id s' = ss_id s \<and> ss_user s' = ss_user s \<and> ss_components s' = ss_components s"

lemma reconciled_ok:
  "is_reconciled c (mark_updated now (reconciled c now s))" "same_session s (mark_updated now (reconciled c now s))"
  by (auto simp: is_reconciled_def same_session_def reconciled_def mark_updated_def idle_deadline_after_def Let_def)

lemma unchanged_is_reconciled: "\<not> reconcile_changes c s \<Longrightarrow> is_reconciled c s"
  by (auto simp: is_reconciled_def reconcile_changes_def word_gt_0)

lemma reconcile_write:
  assumes "(if reconcile_changes c s then write_state m (mark_updated now (reconciled c now s)) else ret ()) w = (Ok (), w')"
    and "registry_state (registry w) = Some s"
  shows "sent w' = sent w \<and> obs w \<le> obs w' \<and> (\<exists>s'. registry_state (registry w') = Some s' \<and> is_reconciled c s' \<and> same_session s s')"
proof (cases "reconcile_changes c s")
  case True
  with assms(1) have "write_state m (mark_updated now (reconciled c now s)) w = (Ok (), w')" by simp
  from write_state_spec[OF this] show ?thesis using reconciled_ok by auto
next
  case False
  with assms unchanged_is_reconciled show ?thesis by (auto simp: ret_def same_session_def)
qed


text \<open>
  A restarted daemon repairs the registry.  After a successful reconciliation there is no session, or
  the recorded session, the same as before, has no client left, a disconnection time and (with an idle timeout) a deadline, and
  nothing was signalled; or that repaired session had already expired, was torn down by authorised signals only, and
  its registry is gone.
\<close>

theorem reconciliation_repairs:
  assumes "reconcile_after_daemon_restart m w = (Ok st, w')"
  shows "(registry w = RegAbsent \<and> registry w' = RegAbsent \<and> sent w' = sent w) \<or>
    (\<exists>s s'. registry_state (registry w) = Some s \<and> same_session s s' \<and> is_reconciled (sm_config m) s' \<and>
       ((registry_state (registry w') = Some s' \<and> sent w' = sent w) \<or>
        (registry w' = RegAbsent \<and> (\<exists>k. idle_expired (sm_config m) (wall_at m k) s') \<and> acts (signal_ok m s' (obs w)) w w')))"
proof -
  from bindm_cases[OF reconciling.ran_body[OF assms, unfolded reconcile_locked_def]]
  obtain st0 w1 where st0: "status m (tick w) = (Ok st0, w1)"
    and rest: "(case st_state st0 of None \<Rightarrow> (Ok st0, w1) | Some s \<Rightarrow>
         let c = sm_config m; now = wall_at m (obs w1); s' = mark_updated now (reconciled c now s)
         in bindm (if reconcile_changes c s then write_state m s' else ret ())
              (\<lambda>_. bindm (cleanup_idle_locked m) (\<lambda>_. status m)) (tick w1)) = (Ok st, w')" by auto
  have f1: "registry w1 = registry w" "sent w1 = sent w" "obs w \<le> obs w1"
    using status_frame(1,2)[of m "tick w"] status_frame(3)[of "tick w" m] st0 by simp_all
  show ?thesis
  proof (cases "st_state st0")
    case None
    with rest status_state[OF st0] f1 show ?thesis by auto
  next
    case (Some s)
    let ?c = "sm_config m" let ?now = "wall_at m (obs w1)"
    have s: "registry_state (registry (tick w1)) = Some s" "registry_state (registry w) = Some s"
      using status_state[OF st0] Some f1 by auto
    from rest Some obtain w2 where
      wr: "(if reconcile_changes ?c s then write_state m (mark_updated ?now (reconciled ?c ?now s)) else ret ()) (tick w1) = (Ok (), w2)"
      and cl: "bindm (cleanup_idle_locked m) (\<lambda>_. status m) w2 = (Ok st, w')"
      using bindm_cases by (fastforce simp: Let_def)
    from reconcile_write[OF wr s(1)] f1 obtain s' where w2: "sent w2 = sent w" "obs w \<le> obs w2"
      "registry_state (registry w2) = Some s'" "is_reconciled ?c s'" "same_session s s'" by auto
    from bindm_cases[OF cl] obtain b w3 where b: "cleanup_idle_locked m w2 = (Ok b, w3)" and "status m w3 = (Ok st, w')" by auto
    then have f3: "registry w' = registry w3" "sent w' = sent w3" "obs w3 \<le> obs w'"
      using status_frame(1,2)[of m w3] status_frame(3)[of w3 m] by simp_all
    note c = cleanup_idle_locked_spec[OF b]
    show ?thesis
    proof (cases b)
      case False
      with c(3,4) f3 w2 s show ?thesis by auto
    next
      case True
      have "acts (signal_ok m s' (obs w)) w2 w3"
        by (rule acts_mono[OF c(1)]) (use w2(2,3) in \<open>auto simp: teardown_signal_def dest: signal_ok_mono\<close>)
      moreover have "acts (signal_ok m s' (obs w)) w w2" "acts (signal_ok m s' (obs w)) w3 w'"
        using w2(1,2) f3(2,3) by (simp_all add: acts_quiet)
      ultimately have "acts (signal_ok m s' (obs w)) w w'" using acts_trans by blast
      with True c(2,5) f3(1) w2(3-5) s show ?thesis by auto
    qed
  qed
qed


lemma example_not_expired: "\<not> idle_expired (sm_config (example_machine d)) 9 (unbound (sm_config (example_machine d)) 4 example_session)"
  by (simp add: idle_expired_def unbound_def mark_updated_def effective_idle_deadline_def idle_deadline_after_def
      as_i64_def example_machine_simps(1))

theorem reconciliation_repairs_witness:
  "\<exists>st w' s. reconcile_after_daemon_restart (example_machine 99) (example_world (bound 0 example_session)) = (Ok st, w') \<and>
     (registry_state (registry w') = Some s \<longrightarrow> is_reconciled (sm_config (example_machine 99)) s)"
proof -
  let ?m = "example_machine 99" let ?w = "example_world (bound 0 example_session)" let ?c = "sm_config (example_machine 99)"
  let ?w1 = "tick (tick (tick (tick ?w)))"
  have g: "registry ?w = RegFile Regular 0 (Some (bound 0 example_session))" "obs ?w = 0" by (simp_all add: example_world_def)
  obtain st where st: "status ?m (tick ?w) = (Ok st, ?w1)" "st_state st = Some (bound 0 example_session)"
    using example_status[of "bound 0 example_session" 0 undefined "tick ?w" 99] g by simp
  let ?s = "unbound ?c 4 example_session"
  have "mark_updated 4 (reconciled ?c 4 (bound 0 example_session)) = ?s" "reconcile_changes ?c (bound 0 example_session)"
    by (simp_all add: reconciled_def bound_def unbound_def mark_updated_def Let_def reconcile_changes_def example_machine_simps(1))
  moreover obtain w2 where w2: "write_state ?m ?s (tick ?w1) = (Ok (), w2)" "registry w2 = RegFile Regular 0 (Some ?s)" "obs w2 = 6"
    using g by (simp add: write_state_def example_machine_simps is_directory_entry_def example_host_def)
  ultimately have "reconcile_after_daemon_restart ?m ?w = bindm (cleanup_idle_locked ?m) (\<lambda>_. status ?m) w2"
    using st g(2) by (simp add: reconcile_after_daemon_restart_def reconcile_locked_def bindm_def acquire_lock_def example_machine_simps(5,8,9))
  moreover have "cleanup_idle_locked ?m w2 = (Ok False, tick (tick (tick (tick w2))))"
    using example_status[of ?s 4 ?c w2 99] w2(2,3) example_not_expired
    by (simp add: cleanup_idle_locked_def bindm_def example_machine_simps(5))
  ultimately obtain st' w' where r: "reconcile_after_daemon_restart ?m ?w = (Ok st', w')"
    using example_status[of ?s 4 ?c "tick (tick (tick (tick w2)))" 99] w2(2) by (auto simp: bindm_def)
  from reconciliation_repairs[OF r] r g(1) show ?thesis by auto
qed

end
