(* ===== verification/Wrdp_Input_Keyboard.thy ===== *)
theory Wrdp_Input_Keyboard
  imports Wrdp_Float
begin

text \<open>
  Keyboard input (\<open>src/src/rdp/channels/input\<close>): the scancode tables of \<open>mapper.rs\<close> and the key state of
  \<open>keyboard.rs\<close>, and the error type of \<open>error.rs\<close>.

  A \<open>HashMap\<close> filled by insertions is the map of the reversed insertion list (the last insertion of a key wins); the
  hash sets and maps of the handler are sets and maps.  The clock read of an event is an argument.  Every field of an
  evdev event is kept at its width.
\<close>

section \<open>Errors\<close>

datatype input_error =
    PortalError string | ScancodeTranslationFailed string | UnknownScancode u16 | UnknownKeycode u32
  | CoordinateTransformError string | MonitorNotFound u32 | InvalidCoordinate f64 f64
  | InvalidMonitorConfig string | LayoutError string | LayoutNotFound string | XkbError string
  | EventQueueFull | EventSendFailed | EventReceiveFailed | LatencyTooHigh u64 u64 | InvalidState string
  | PortalSessionError string | DBusError string | IoError string | InvalidKeyEvent string | InvalidMouseEvent string
  | Unknown string

section \<open>Scancode tables\<close>

text \<open>Linux evdev key codes.\<close>

abbreviation (input) KEY_ESC :: u32 where "KEY_ESC \<equiv> 1"
abbreviation (input) KEY_1 :: u32 where "KEY_1 \<equiv> 2"
abbreviation (input) KEY_2 :: u32 where "KEY_2 \<equiv> 3"
abbreviation (input) KEY_3 :: u32 where "KEY_3 \<equiv> 4"
abbreviation (input) KEY_4 :: u32 where "KEY_4 \<equiv> 5"
abbreviation (input) KEY_5 :: u32 where "KEY_5 \<equiv> 6"
abbreviation (input) KEY_6 :: u32 where "KEY_6 \<equiv> 7"
abbreviation (input) KEY_7 :: u32 where "KEY_7 \<equiv> 8"
abbreviation (input) KEY_8 :: u32 where "KEY_8 \<equiv> 9"
abbreviation (input) KEY_9 :: u32 where "KEY_9 \<equiv> 10"
abbreviation (input) KEY_0 :: u32 where "KEY_0 \<equiv> 11"
abbreviation (input) KEY_MINUS :: u32 where "KEY_MINUS \<equiv> 12"
abbreviation (input) KEY_EQUAL :: u32 where "KEY_EQUAL \<equiv> 13"
abbreviation (input) KEY_BACKSPACE :: u32 where "KEY_BACKSPACE \<equiv> 14"
abbreviation (input) KEY_TAB :: u32 where "KEY_TAB \<equiv> 15"
abbreviation (input) KEY_Q :: u32 where "KEY_Q \<equiv> 16"
abbreviation (input) KEY_W :: u32 where "KEY_W \<equiv> 17"
abbreviation (input) KEY_E :: u32 where "KEY_E \<equiv> 18"
abbreviation (input) KEY_R :: u32 where "KEY_R \<equiv> 19"
abbreviation (input) KEY_T :: u32 where "KEY_T \<equiv> 20"
abbreviation (input) KEY_Y :: u32 where "KEY_Y \<equiv> 21"
abbreviation (input) KEY_U :: u32 where "KEY_U \<equiv> 22"
abbreviation (input) KEY_I :: u32 where "KEY_I \<equiv> 23"
abbreviation (input) KEY_O :: u32 where "KEY_O \<equiv> 24"
abbreviation (input) KEY_P :: u32 where "KEY_P \<equiv> 25"
abbreviation (input) KEY_LEFTBRACE :: u32 where "KEY_LEFTBRACE \<equiv> 26"
abbreviation (input) KEY_RIGHTBRACE :: u32 where "KEY_RIGHTBRACE \<equiv> 27"
abbreviation (input) KEY_ENTER :: u32 where "KEY_ENTER \<equiv> 28"
abbreviation (input) KEY_LEFTCTRL :: u32 where "KEY_LEFTCTRL \<equiv> 29"
abbreviation (input) KEY_A :: u32 where "KEY_A \<equiv> 30"
abbreviation (input) KEY_S :: u32 where "KEY_S \<equiv> 31"
abbreviation (input) KEY_D :: u32 where "KEY_D \<equiv> 32"
abbreviation (input) KEY_F :: u32 where "KEY_F \<equiv> 33"
abbreviation (input) KEY_G :: u32 where "KEY_G \<equiv> 34"
abbreviation (input) KEY_H :: u32 where "KEY_H \<equiv> 35"
abbreviation (input) KEY_J :: u32 where "KEY_J \<equiv> 36"
abbreviation (input) KEY_K :: u32 where "KEY_K \<equiv> 37"
abbreviation (input) KEY_L :: u32 where "KEY_L \<equiv> 38"
abbreviation (input) KEY_SEMICOLON :: u32 where "KEY_SEMICOLON \<equiv> 39"
abbreviation (input) KEY_APOSTROPHE :: u32 where "KEY_APOSTROPHE \<equiv> 40"
abbreviation (input) KEY_GRAVE :: u32 where "KEY_GRAVE \<equiv> 41"
abbreviation (input) KEY_LEFTSHIFT :: u32 where "KEY_LEFTSHIFT \<equiv> 42"
abbreviation (input) KEY_BACKSLASH :: u32 where "KEY_BACKSLASH \<equiv> 43"
abbreviation (input) KEY_Z :: u32 where "KEY_Z \<equiv> 44"
abbreviation (input) KEY_X :: u32 where "KEY_X \<equiv> 45"
abbreviation (input) KEY_C :: u32 where "KEY_C \<equiv> 46"
abbreviation (input) KEY_V :: u32 where "KEY_V \<equiv> 47"
abbreviation (input) KEY_B :: u32 where "KEY_B \<equiv> 48"
abbreviation (input) KEY_N :: u32 where "KEY_N \<equiv> 49"
abbreviation (input) KEY_M :: u32 where "KEY_M \<equiv> 50"
abbreviation (input) KEY_COMMA :: u32 where "KEY_COMMA \<equiv> 51"
abbreviation (input) KEY_DOT :: u32 where "KEY_DOT \<equiv> 52"
abbreviation (input) KEY_SLASH :: u32 where "KEY_SLASH \<equiv> 53"
abbreviation (input) KEY_RIGHTSHIFT :: u32 where "KEY_RIGHTSHIFT \<equiv> 54"
abbreviation (input) KEY_KPASTERISK :: u32 where "KEY_KPASTERISK \<equiv> 55"
abbreviation (input) KEY_LEFTALT :: u32 where "KEY_LEFTALT \<equiv> 56"
abbreviation (input) KEY_SPACE :: u32 where "KEY_SPACE \<equiv> 57"
abbreviation (input) KEY_CAPSLOCK :: u32 where "KEY_CAPSLOCK \<equiv> 58"
abbreviation (input) KEY_F1 :: u32 where "KEY_F1 \<equiv> 59"
abbreviation (input) KEY_F2 :: u32 where "KEY_F2 \<equiv> 60"
abbreviation (input) KEY_F3 :: u32 where "KEY_F3 \<equiv> 61"
abbreviation (input) KEY_F4 :: u32 where "KEY_F4 \<equiv> 62"
abbreviation (input) KEY_F5 :: u32 where "KEY_F5 \<equiv> 63"
abbreviation (input) KEY_F6 :: u32 where "KEY_F6 \<equiv> 64"
abbreviation (input) KEY_F7 :: u32 where "KEY_F7 \<equiv> 65"
abbreviation (input) KEY_F8 :: u32 where "KEY_F8 \<equiv> 66"
abbreviation (input) KEY_F9 :: u32 where "KEY_F9 \<equiv> 67"
abbreviation (input) KEY_F10 :: u32 where "KEY_F10 \<equiv> 68"
abbreviation (input) KEY_NUMLOCK :: u32 where "KEY_NUMLOCK \<equiv> 69"
abbreviation (input) KEY_SCROLLLOCK :: u32 where "KEY_SCROLLLOCK \<equiv> 70"
abbreviation (input) KEY_KP7 :: u32 where "KEY_KP7 \<equiv> 71"
abbreviation (input) KEY_KP8 :: u32 where "KEY_KP8 \<equiv> 72"
abbreviation (input) KEY_KP9 :: u32 where "KEY_KP9 \<equiv> 73"
abbreviation (input) KEY_KPMINUS :: u32 where "KEY_KPMINUS \<equiv> 74"
abbreviation (input) KEY_KP4 :: u32 where "KEY_KP4 \<equiv> 75"
abbreviation (input) KEY_KP5 :: u32 where "KEY_KP5 \<equiv> 76"
abbreviation (input) KEY_KP6 :: u32 where "KEY_KP6 \<equiv> 77"
abbreviation (input) KEY_KPPLUS :: u32 where "KEY_KPPLUS \<equiv> 78"
abbreviation (input) KEY_KP1 :: u32 where "KEY_KP1 \<equiv> 79"
abbreviation (input) KEY_KP2 :: u32 where "KEY_KP2 \<equiv> 80"
abbreviation (input) KEY_KP3 :: u32 where "KEY_KP3 \<equiv> 81"
abbreviation (input) KEY_KP0 :: u32 where "KEY_KP0 \<equiv> 82"
abbreviation (input) KEY_KPDOT :: u32 where "KEY_KPDOT \<equiv> 83"
abbreviation (input) KEY_102ND :: u32 where "KEY_102ND \<equiv> 86"
abbreviation (input) KEY_F11 :: u32 where "KEY_F11 \<equiv> 87"
abbreviation (input) KEY_F12 :: u32 where "KEY_F12 \<equiv> 88"
abbreviation (input) KEY_RO :: u32 where "KEY_RO \<equiv> 89"
abbreviation (input) KEY_KATAKANAHIRAGANA :: u32 where "KEY_KATAKANAHIRAGANA \<equiv> 90"
abbreviation (input) KEY_HENKAN :: u32 where "KEY_HENKAN \<equiv> 92"
abbreviation (input) KEY_MUHENKAN :: u32 where "KEY_MUHENKAN \<equiv> 94"
abbreviation (input) KEY_KPENTER :: u32 where "KEY_KPENTER \<equiv> 96"
abbreviation (input) KEY_RIGHTCTRL :: u32 where "KEY_RIGHTCTRL \<equiv> 97"
abbreviation (input) KEY_KPSLASH :: u32 where "KEY_KPSLASH \<equiv> 98"
abbreviation (input) KEY_SYSRQ :: u32 where "KEY_SYSRQ \<equiv> 99"
abbreviation (input) KEY_RIGHTALT :: u32 where "KEY_RIGHTALT \<equiv> 100"
abbreviation (input) KEY_HOME :: u32 where "KEY_HOME \<equiv> 102"
abbreviation (input) KEY_UP :: u32 where "KEY_UP \<equiv> 103"
abbreviation (input) KEY_PAGEUP :: u32 where "KEY_PAGEUP \<equiv> 104"
abbreviation (input) KEY_LEFT :: u32 where "KEY_LEFT \<equiv> 105"
abbreviation (input) KEY_RIGHT :: u32 where "KEY_RIGHT \<equiv> 106"
abbreviation (input) KEY_END :: u32 where "KEY_END \<equiv> 107"
abbreviation (input) KEY_DOWN :: u32 where "KEY_DOWN \<equiv> 108"
abbreviation (input) KEY_PAGEDOWN :: u32 where "KEY_PAGEDOWN \<equiv> 109"
abbreviation (input) KEY_INSERT :: u32 where "KEY_INSERT \<equiv> 110"
abbreviation (input) KEY_DELETE :: u32 where "KEY_DELETE \<equiv> 111"
abbreviation (input) KEY_MUTE :: u32 where "KEY_MUTE \<equiv> 113"
abbreviation (input) KEY_VOLUMEDOWN :: u32 where "KEY_VOLUMEDOWN \<equiv> 114"
abbreviation (input) KEY_VOLUMEUP :: u32 where "KEY_VOLUMEUP \<equiv> 115"
abbreviation (input) KEY_POWER :: u32 where "KEY_POWER \<equiv> 116"
abbreviation (input) KEY_KPEQUAL :: u32 where "KEY_KPEQUAL \<equiv> 117"
abbreviation (input) KEY_PAUSE :: u32 where "KEY_PAUSE \<equiv> 119"
abbreviation (input) KEY_HANGEUL :: u32 where "KEY_HANGEUL \<equiv> 122"
abbreviation (input) KEY_HANJA :: u32 where "KEY_HANJA \<equiv> 123"
abbreviation (input) KEY_YEN :: u32 where "KEY_YEN \<equiv> 124"
abbreviation (input) KEY_LEFTMETA :: u32 where "KEY_LEFTMETA \<equiv> 125"
abbreviation (input) KEY_RIGHTMETA :: u32 where "KEY_RIGHTMETA \<equiv> 126"
abbreviation (input) KEY_COMPOSE :: u32 where "KEY_COMPOSE \<equiv> 127"
abbreviation (input) KEY_STOP :: u32 where "KEY_STOP \<equiv> 128"
abbreviation (input) KEY_AGAIN :: u32 where "KEY_AGAIN \<equiv> 129"
abbreviation (input) KEY_PROPS :: u32 where "KEY_PROPS \<equiv> 130"
abbreviation (input) KEY_UNDO :: u32 where "KEY_UNDO \<equiv> 131"
abbreviation (input) KEY_FRONT :: u32 where "KEY_FRONT \<equiv> 132"
abbreviation (input) KEY_COPY :: u32 where "KEY_COPY \<equiv> 133"
abbreviation (input) KEY_MENU :: u32 where "KEY_MENU \<equiv> 139"
abbreviation (input) KEY_CALC :: u32 where "KEY_CALC \<equiv> 140"
abbreviation (input) KEY_SLEEP :: u32 where "KEY_SLEEP \<equiv> 142"
abbreviation (input) KEY_WAKEUP :: u32 where "KEY_WAKEUP \<equiv> 143"
abbreviation (input) KEY_MAIL :: u32 where "KEY_MAIL \<equiv> 155"
abbreviation (input) KEY_BOOKMARKS :: u32 where "KEY_BOOKMARKS \<equiv> 156"
abbreviation (input) KEY_COMPUTER :: u32 where "KEY_COMPUTER \<equiv> 157"
abbreviation (input) KEY_BACK :: u32 where "KEY_BACK \<equiv> 158"
abbreviation (input) KEY_FORWARD :: u32 where "KEY_FORWARD \<equiv> 159"
abbreviation (input) KEY_EJECTCD :: u32 where "KEY_EJECTCD \<equiv> 161"
abbreviation (input) KEY_NEXTSONG :: u32 where "KEY_NEXTSONG \<equiv> 163"
abbreviation (input) KEY_PLAYPAUSE :: u32 where "KEY_PLAYPAUSE \<equiv> 164"
abbreviation (input) KEY_PREVIOUSSONG :: u32 where "KEY_PREVIOUSSONG \<equiv> 165"
abbreviation (input) KEY_STOPCD :: u32 where "KEY_STOPCD \<equiv> 166"
abbreviation (input) KEY_REFRESH :: u32 where "KEY_REFRESH \<equiv> 173"
abbreviation (input) KEY_F13 :: u32 where "KEY_F13 \<equiv> 183"
abbreviation (input) KEY_F14 :: u32 where "KEY_F14 \<equiv> 184"
abbreviation (input) KEY_F15 :: u32 where "KEY_F15 \<equiv> 185"
abbreviation (input) KEY_F16 :: u32 where "KEY_F16 \<equiv> 186"
abbreviation (input) KEY_F17 :: u32 where "KEY_F17 \<equiv> 187"
abbreviation (input) KEY_F18 :: u32 where "KEY_F18 \<equiv> 188"
abbreviation (input) KEY_F19 :: u32 where "KEY_F19 \<equiv> 189"
abbreviation (input) KEY_F20 :: u32 where "KEY_F20 \<equiv> 190"
abbreviation (input) KEY_F21 :: u32 where "KEY_F21 \<equiv> 191"
abbreviation (input) KEY_F22 :: u32 where "KEY_F22 \<equiv> 192"
abbreviation (input) KEY_F23 :: u32 where "KEY_F23 \<equiv> 193"
abbreviation (input) KEY_F24 :: u32 where "KEY_F24 \<equiv> 194"
abbreviation (input) KEY_MEDIA :: u32 where "KEY_MEDIA \<equiv> 226"
abbreviation (input) KEY_SEARCH :: u32 where "KEY_SEARCH \<equiv> 217"
abbreviation (input) KEY_HOMEPAGE :: u32 where "KEY_HOMEPAGE \<equiv> 172"
abbreviation (input) KEY_BREAK :: u32 where "KEY_BREAK \<equiv> 411"
abbreviation (input) KEY_PRINT :: u32 where "KEY_PRINT \<equiv> 210"

definition primary_mappings :: "(u16 \<times> u32) list" where
  "primary_mappings =
     [(0x01, KEY_ESC), (0x02, KEY_1), (0x03, KEY_2), (0x04, KEY_3), (0x05, KEY_4),
      (0x06, KEY_5), (0x07, KEY_6), (0x08, KEY_7), (0x09, KEY_8), (0x0A, KEY_9),
      (0x0B, KEY_0), (0x0C, KEY_MINUS), (0x0D, KEY_EQUAL), (0x0E, KEY_BACKSPACE), (0x0F, KEY_TAB),
      (0x10, KEY_Q), (0x11, KEY_W), (0x12, KEY_E), (0x13, KEY_R), (0x14, KEY_T),
      (0x15, KEY_Y), (0x16, KEY_U), (0x17, KEY_I), (0x18, KEY_O), (0x19, KEY_P),
      (0x1A, KEY_LEFTBRACE), (0x1B, KEY_RIGHTBRACE), (0x1C, KEY_ENTER), (0x1D, KEY_LEFTCTRL), (0x1E, KEY_A),
      (0x1F, KEY_S), (0x20, KEY_D), (0x21, KEY_F), (0x22, KEY_G), (0x23, KEY_H),
      (0x24, KEY_J), (0x25, KEY_K), (0x26, KEY_L), (0x27, KEY_SEMICOLON), (0x28, KEY_APOSTROPHE),
      (0x29, KEY_GRAVE), (0x2A, KEY_LEFTSHIFT), (0x2B, KEY_BACKSLASH), (0x2C, KEY_Z), (0x2D, KEY_X),
      (0x2E, KEY_C), (0x2F, KEY_V), (0x30, KEY_B), (0x31, KEY_N), (0x32, KEY_M),
      (0x33, KEY_COMMA), (0x34, KEY_DOT), (0x35, KEY_SLASH), (0x36, KEY_RIGHTSHIFT), (0x37, KEY_KPASTERISK),
      (0x38, KEY_LEFTALT), (0x39, KEY_SPACE), (0x3A, KEY_CAPSLOCK), (0x3B, KEY_F1), (0x3C, KEY_F2),
      (0x3D, KEY_F3), (0x3E, KEY_F4), (0x3F, KEY_F5), (0x40, KEY_F6), (0x41, KEY_F7),
      (0x42, KEY_F8), (0x43, KEY_F9), (0x44, KEY_F10), (0x45, KEY_NUMLOCK), (0x46, KEY_SCROLLLOCK),
      (0x47, KEY_KP7), (0x48, KEY_KP8), (0x49, KEY_KP9), (0x4A, KEY_KPMINUS), (0x4B, KEY_KP4),
      (0x4C, KEY_KP5), (0x4D, KEY_KP6), (0x4E, KEY_KPPLUS), (0x4F, KEY_KP1), (0x50, KEY_KP2),
      (0x51, KEY_KP3), (0x52, KEY_KP0), (0x53, KEY_KPDOT), (0x54, KEY_SYSRQ), (0x56, KEY_102ND),
      (0x57, KEY_F11), (0x58, KEY_F12), (0x59, KEY_KPEQUAL), (0x5A, KEY_F13), (0x5B, KEY_F14),
      (0x5C, KEY_F15), (0x5D, KEY_F16), (0x5E, KEY_F17), (0x5F, KEY_F18), (0x60, KEY_F19),
      (0x61, KEY_F20), (0x62, KEY_F21), (0x63, KEY_F22), (0x64, KEY_F23), (0x65, KEY_F24),
      (0x70, KEY_KATAKANAHIRAGANA), (0x71, KEY_MUHENKAN), (0x72, KEY_HENKAN), (0x73, KEY_RO), (0x74, KEY_YEN),
      (0x75, KEY_HANGEUL), (0x76, KEY_HANJA), (0x77, KEY_LEFTMETA), (0x78, KEY_RIGHTMETA), (0x79, KEY_COMPOSE),
      (0x7A, KEY_STOP), (0x7B, KEY_AGAIN), (0x7C, KEY_PROPS), (0x7D, KEY_UNDO), (0x7E, KEY_FRONT),
      (0x7F, KEY_COPY)]"

definition extended_mappings :: "(u16 \<times> u32) list" where
  "extended_mappings =
     [(0xE01C, KEY_KPENTER), (0xE01D, KEY_RIGHTCTRL), (0xE020, KEY_MUTE), (0xE021, KEY_CALC), (0xE022, KEY_PLAYPAUSE),
      (0xE024, KEY_STOPCD), (0xE02E, KEY_VOLUMEDOWN), (0xE030, KEY_VOLUMEUP), (0xE032, KEY_HOMEPAGE), (0xE035, KEY_KPSLASH),
      (0xE037, KEY_PRINT), (0xE038, KEY_RIGHTALT), (0xE045, KEY_PAUSE), (0xE047, KEY_HOME), (0xE048, KEY_UP),
      (0xE049, KEY_PAGEUP), (0xE04B, KEY_LEFT), (0xE04D, KEY_RIGHT), (0xE04F, KEY_END), (0xE050, KEY_DOWN),
      (0xE051, KEY_PAGEDOWN), (0xE052, KEY_INSERT), (0xE053, KEY_DELETE), (0xE05B, KEY_LEFTMETA), (0xE05C, KEY_RIGHTMETA),
      (0xE05D, KEY_MENU), (0xE05E, KEY_POWER), (0xE05F, KEY_SLEEP), (0xE063, KEY_WAKEUP), (0xE065, KEY_SEARCH),
      (0xE066, KEY_BOOKMARKS), (0xE067, KEY_REFRESH), (0xE068, KEY_STOP), (0xE069, KEY_FORWARD), (0xE06A, KEY_BACK),
      (0xE06B, KEY_COMPUTER), (0xE06C, KEY_MAIL), (0xE06D, KEY_MEDIA), (0xE010, KEY_PREVIOUSSONG), (0xE019, KEY_NEXTSONG),
      (0xE02C, KEY_EJECTCD)]"

definition de_overrides :: "(u16 \<times> u32) list" where
  "de_overrides =
     [(0x15, KEY_Z), (0x2C, KEY_Y)]"

definition fr_overrides :: "(u16 \<times> u32) list" where
  "fr_overrides =
     [(0x10, KEY_A), (0x1E, KEY_Q), (0x11, KEY_Z), (0x2C, KEY_W), (0x27, KEY_M),
      (0x32, KEY_COMMA)]"

definition uk_overrides :: "(u16 \<times> u32) list" where
  "uk_overrides =
     [(0x2B, KEY_102ND)]"

definition be_overrides :: "(u16 \<times> u32) list" where
  "be_overrides =
     [(0x10, KEY_A), (0x1E, KEY_Q), (0x11, KEY_Z), (0x2C, KEY_W), (0x27, KEY_M),
      (0x32, KEY_COMMA)]"

definition ch_overrides :: "(u16 \<times> u32) list" where
  "ch_overrides =
     [(0x15, KEY_Z), (0x2C, KEY_Y)]"

definition dvorak_overrides :: "(u16 \<times> u32) list" where
  "dvorak_overrides =
     [(0x10, KEY_APOSTROPHE), (0x11, KEY_COMMA), (0x12, KEY_DOT), (0x13, KEY_P), (0x14, KEY_Y),
      (0x15, KEY_F), (0x16, KEY_G), (0x17, KEY_C), (0x18, KEY_R), (0x19, KEY_L),
      (0x1E, KEY_A), (0x1F, KEY_O), (0x20, KEY_E), (0x21, KEY_U), (0x22, KEY_I),
      (0x23, KEY_D), (0x24, KEY_H), (0x25, KEY_T), (0x26, KEY_N), (0x27, KEY_S),
      (0x2C, KEY_SEMICOLON), (0x2D, KEY_Q), (0x2E, KEY_J), (0x2F, KEY_K), (0x30, KEY_X),
      (0x31, KEY_B), (0x32, KEY_M), (0x33, KEY_W), (0x34, KEY_V), (0x35, KEY_Z)]"

definition colemak_overrides :: "(u16 \<times> u32) list" where
  "colemak_overrides =
     [(0x12, KEY_F), (0x13, KEY_P), (0x14, KEY_G), (0x15, KEY_J), (0x16, KEY_L),
      (0x17, KEY_U), (0x18, KEY_Y), (0x19, KEY_SEMICOLON), (0x1F, KEY_R), (0x20, KEY_S),
      (0x21, KEY_T), (0x22, KEY_D), (0x24, KEY_N), (0x25, KEY_E), (0x26, KEY_I),
      (0x27, KEY_O), (0x31, KEY_K)]"

record scancode_mapper =
  primary_map :: "u16 \<rightharpoonup> u32"
  extended_map :: "u16 \<rightharpoonup> u32"
  e1_map :: "u32 \<rightharpoonup> u32"
  layout_overrides :: "string \<rightharpoonup> (u16 \<rightharpoonup> u32)"
  current_layout :: string

definition hash_map_of :: "('k \<times> 'v) list \<Rightarrow> 'k \<rightharpoonup> 'v" where
  "hash_map_of kvs = map_of (rev kvs)"

definition layout_tables :: "(string \<times> (u16 \<rightharpoonup> u32)) list" where
  "layout_tables =
     [(''de'', hash_map_of de_overrides), (''fr'', hash_map_of fr_overrides),
      (''uk'', hash_map_of uk_overrides), (''gb'', hash_map_of uk_overrides),
      (''es'', hash_map_of []), (''pt'', hash_map_of []), (''it'', hash_map_of []),
      (''be'', hash_map_of be_overrides), (''ch'', hash_map_of ch_overrides),
      (''dvorak'', hash_map_of dvorak_overrides), (''colemak'', hash_map_of colemak_overrides)]"

definition mapper_new :: scancode_mapper where
  "mapper_new =
     \<lparr>primary_map = hash_map_of primary_mappings, extended_map = hash_map_of extended_mappings,
      e1_map = hash_map_of [(0xE11D45, KEY_PAUSE), (0xE11D46, KEY_BREAK)],
      layout_overrides = hash_map_of layout_tables, current_layout = ''us''\<rparr>"

definition ok_or :: "'e \<Rightarrow> 'a option \<Rightarrow> ('e, 'a) result" where
  "ok_or e x = (case x of Some a \<Rightarrow> Ok a | None \<Rightarrow> Err e)"

text \<open>\<open>translate_scancode\<close> on a \<open>u32\<close>; \<open>ucast\<close> is the truncating cast \<open>as u16\<close>.\<close>

definition translate_scancode :: "scancode_mapper \<Rightarrow> u32 \<Rightarrow> bool \<Rightarrow> bool \<Rightarrow> (input_error, u32) result" where
  "translate_scancode m scancode extended e1_prefix =
     (if e1_prefix then ok_or (UnknownScancode (ucast scancode)) (e1_map m scancode)
      else if extended then
        let extended_scan = or 0xE000 (and (ucast scancode) 0xFF) in
        ok_or (UnknownScancode extended_scan)
          (case extended_map m extended_scan of Some k \<Rightarrow> Some k | None \<Rightarrow> primary_map m (ucast scancode))
      else
        case (case layout_overrides m (current_layout m) of None \<Rightarrow> None | Some ov \<Rightarrow> ov (ucast scancode)) of
          Some keycode \<Rightarrow> Ok keycode
        | None \<Rightarrow> ok_or (UnknownScancode (ucast scancode)) (primary_map m (ucast scancode)))"

definition mapper_set_layout :: "string \<Rightarrow> scancode_mapper \<Rightarrow> scancode_mapper" where
  "mapper_set_layout l m = m\<lparr>current_layout := l\<rparr>"

section \<open>Keyboard state\<close>

record key_modifiers =
  km_shift :: bool
  km_ctrl :: bool
  km_alt :: bool
  km_meta :: bool
  km_caps_lock :: bool
  km_num_lock :: bool
  km_scroll_lock :: bool

definition key_modifiers_default :: key_modifiers where
  "key_modifiers_default = \<lparr>km_shift = False, km_ctrl = False, km_alt = False, km_meta = False,
     km_caps_lock = False, km_num_lock = False, km_scroll_lock = False\<rparr>"

datatype keyboard_event =
    Ignored u32
  | KeyDown u32 u16 key_modifiers instant
  | KeyUp u32 u16 key_modifiers instant
  | KeyRepeat u32 u16 key_modifiers instant

record keyboard_handler =
  mapper :: scancode_mapper
  pressed_keys :: "u32 set"
  modifiers :: key_modifiers
  last_key_times :: "u32 \<rightharpoonup> instant"
  repeating_keys :: "u32 set"
  repeat_delay_ms :: nat
  repeat_rate_ms :: nat

definition keyboard_new :: keyboard_handler where
  "keyboard_new = \<lparr>mapper = mapper_new, pressed_keys = {}, modifiers = key_modifiers_default,
     last_key_times = Map.empty, repeating_keys = {}, repeat_delay_ms = 500, repeat_rate_ms = 33\<rparr>"

definition is_key_pressed :: "keyboard_handler \<Rightarrow> u32 \<Rightarrow> bool" where
  "is_key_pressed h k \<longleftrightarrow> k \<in> pressed_keys h"

definition update_modifiers :: "u32 \<Rightarrow> bool \<Rightarrow> keyboard_handler \<Rightarrow> keyboard_handler" where
  "update_modifiers keycode pressed h =
     (let m = modifiers h in
      if keycode \<in> {KEY_LEFTSHIFT, KEY_RIGHTSHIFT}
      then h\<lparr>modifiers := m\<lparr>km_shift := pressed \<or> is_key_pressed h KEY_LEFTSHIFT \<or> is_key_pressed h KEY_RIGHTSHIFT\<rparr>\<rparr>
      else if keycode \<in> {KEY_LEFTCTRL, KEY_RIGHTCTRL}
      then h\<lparr>modifiers := m\<lparr>km_ctrl := pressed \<or> is_key_pressed h KEY_LEFTCTRL \<or> is_key_pressed h KEY_RIGHTCTRL\<rparr>\<rparr>
      else if keycode \<in> {KEY_LEFTALT, KEY_RIGHTALT}
      then h\<lparr>modifiers := m\<lparr>km_alt := pressed \<or> is_key_pressed h KEY_LEFTALT \<or> is_key_pressed h KEY_RIGHTALT\<rparr>\<rparr>
      else if keycode \<in> {KEY_LEFTMETA, KEY_RIGHTMETA}
      then h\<lparr>modifiers := m\<lparr>km_meta := pressed \<or> is_key_pressed h KEY_LEFTMETA \<or> is_key_pressed h KEY_RIGHTMETA\<rparr>\<rparr>
      else if keycode = KEY_CAPSLOCK
      then (if pressed then h\<lparr>modifiers := m\<lparr>km_caps_lock := \<not> km_caps_lock m\<rparr>\<rparr> else h)
      else if keycode = KEY_NUMLOCK
      then (if pressed then h\<lparr>modifiers := m\<lparr>km_num_lock := \<not> km_num_lock m\<rparr>\<rparr> else h)
      else if keycode = KEY_SCROLLLOCK
      then (if pressed then h\<lparr>modifiers := m\<lparr>km_scroll_lock := \<not> km_scroll_lock m\<rparr>\<rparr> else h)
      else h)"

definition elapsed_ms :: "instant \<Rightarrow> instant \<Rightarrow> nat" where
  "elapsed_ms now last_time = ((now - last_time) div 1000000) mod 2 ^ 64"

text \<open>The rest of \<open>handle_key_down\<close> once the event is accepted.\<close>

definition accept_key_down :: "instant \<Rightarrow> u32 \<Rightarrow> u16 \<Rightarrow> bool \<Rightarrow> keyboard_handler \<Rightarrow> keyboard_event \<times> keyboard_handler" where
  "accept_key_down timestamp keycode scancode is_repeat h =
     (let h1 = update_modifiers keycode True
                 (h\<lparr>pressed_keys := insert keycode (pressed_keys h), last_key_times := (last_key_times h)(keycode \<mapsto> timestamp)\<rparr>)
      in (if is_repeat then KeyRepeat keycode scancode (modifiers h1) timestamp
          else KeyDown keycode scancode (modifiers h1) timestamp, h1))"

definition handle_key_down ::
  "instant \<Rightarrow> u16 \<Rightarrow> bool \<Rightarrow> bool \<Rightarrow> keyboard_handler \<Rightarrow> (input_error, keyboard_event) result \<times> keyboard_handler" where
  "handle_key_down timestamp scancode extended e1_prefix h =
     (case translate_scancode (mapper h) (ucast scancode) extended e1_prefix of
        Inl e \<Rightarrow> (Err e, h)
      | Inr keycode \<Rightarrow>
          let is_repeat = (keycode \<in> pressed_keys h);
              last_time = (case last_key_times h keycode of Some t \<Rightarrow> t | None \<Rightarrow> timestamp);
              elapsed = elapsed_ms timestamp last_time
          in if is_repeat \<and> keycode \<notin> repeating_keys h \<and> elapsed < repeat_delay_ms h then (Ok (Ignored keycode), h)
             else if is_repeat \<and> keycode \<in> repeating_keys h \<and> elapsed < repeat_rate_ms h then (Ok (Ignored keycode), h)
             else let h1 = (if is_repeat then h\<lparr>repeating_keys := insert keycode (repeating_keys h)\<rparr> else h);
                      (ev, h2) = accept_key_down timestamp keycode scancode is_repeat h1
                  in (Ok ev, h2))"

definition handle_key_up ::
  "instant \<Rightarrow> u16 \<Rightarrow> bool \<Rightarrow> bool \<Rightarrow> keyboard_handler \<Rightarrow> (input_error, keyboard_event) result \<times> keyboard_handler" where
  "handle_key_up timestamp scancode extended e1_prefix h =
     (case translate_scancode (mapper h) (ucast scancode) extended e1_prefix of
        Inl e \<Rightarrow> (Err e, h)
      | Inr keycode \<Rightarrow>
          if keycode \<notin> pressed_keys h then (Ok (Ignored keycode), h)
          else let h1 = update_modifiers keycode False
                          (h\<lparr>pressed_keys := pressed_keys h - {keycode}, last_key_times := (last_key_times h)(keycode := None),
                             repeating_keys := repeating_keys h - {keycode}\<rparr>)
               in (Ok (KeyUp keycode scancode (modifiers h1) timestamp), h1))"

definition synchronize_locks :: "bool \<Rightarrow> bool \<Rightarrow> bool \<Rightarrow> keyboard_handler \<Rightarrow> u32 list \<times> keyboard_handler" where
  "synchronize_locks caps_lock num_lock scroll_lock h =
     (let m = modifiers h in
      ((if km_caps_lock m \<noteq> caps_lock then [KEY_CAPSLOCK] else []) @
       (if km_num_lock m \<noteq> num_lock then [KEY_NUMLOCK] else []) @
       (if km_scroll_lock m \<noteq> scroll_lock then [KEY_SCROLLLOCK] else []),
       h\<lparr>modifiers := m\<lparr>km_caps_lock := caps_lock, km_num_lock := num_lock, km_scroll_lock := scroll_lock\<rparr>\<rparr>))"

definition keyboard_set_layout :: "string \<Rightarrow> keyboard_handler \<Rightarrow> keyboard_handler" where
  "keyboard_set_layout l h = h\<lparr>mapper := mapper_set_layout l (mapper h)\<rparr>"

definition set_repeat_delay :: "nat \<Rightarrow> keyboard_handler \<Rightarrow> keyboard_handler" where
  "set_repeat_delay ms h = h\<lparr>repeat_delay_ms := ms\<rparr>"

definition set_repeat_rate :: "nat \<Rightarrow> keyboard_handler \<Rightarrow> keyboard_handler" where
  "set_repeat_rate ms h = h\<lparr>repeat_rate_ms := ms\<rparr>"

definition keyboard_reset :: "keyboard_handler \<Rightarrow> keyboard_handler" where
  "keyboard_reset h = h\<lparr>pressed_keys := {}, last_key_times := Map.empty, repeating_keys := {}, modifiers := key_modifiers_default\<rparr>"

section \<open>The key protocol\<close>

text \<open>The calls of a handler and what each answers; \<open>reset\<close> drops the key state without an event.\<close>

datatype keyboard_call =
    CallDown instant u16 bool bool | CallUp instant u16 bool bool | CallSync bool bool bool
  | CallLayout string | CallDelay nat | CallRate nat | CallReset

datatype keyboard_reply = Event "(input_error, keyboard_event) result" | Toggles "u32 list" | Done | WasReset

fun keyboard_step :: "keyboard_call \<Rightarrow> keyboard_handler \<Rightarrow> keyboard_reply \<times> keyboard_handler" where
  "keyboard_step (CallDown t sc ext e1) h = (let (r, h') = handle_key_down t sc ext e1 h in (Event r, h'))"
| "keyboard_step (CallUp t sc ext e1) h = (let (r, h') = handle_key_up t sc ext e1 h in (Event r, h'))"
| "keyboard_step (CallSync c n s) h = (let (ks, h') = synchronize_locks c n s h in (Toggles ks, h'))"
| "keyboard_step (CallLayout l) h = (Done, keyboard_set_layout l h)"
| "keyboard_step (CallDelay ms) h = (Done, set_repeat_delay ms h)"
| "keyboard_step (CallRate ms) h = (Done, set_repeat_rate ms h)"
| "keyboard_step CallReset h = (WasReset, keyboard_reset h)"

fun event_transitions :: "keyboard_event \<Rightarrow> u32 transition list" where
  "event_transitions (KeyDown k _ _ _) = [Press k]"
| "event_transitions (KeyUp k _ _ _) = [Release k]"
| "event_transitions _ = []"

fun key_transitions :: "keyboard_reply \<Rightarrow> u32 transition list" where
  "key_transitions (Event (Inr e)) = event_transitions e"
| "key_transitions WasReset = [Forget]"
| "key_transitions _ = []"

definition modifiers_match :: "keyboard_handler \<Rightarrow> bool" where
  "modifiers_match h \<longleftrightarrow>
     (km_shift (modifiers h) \<longleftrightarrow> KEY_LEFTSHIFT \<in> pressed_keys h \<or> KEY_RIGHTSHIFT \<in> pressed_keys h) \<and>
     (km_ctrl (modifiers h) \<longleftrightarrow> KEY_LEFTCTRL \<in> pressed_keys h \<or> KEY_RIGHTCTRL \<in> pressed_keys h) \<and>
     (km_alt (modifiers h) \<longleftrightarrow> KEY_LEFTALT \<in> pressed_keys h \<or> KEY_RIGHTALT \<in> pressed_keys h) \<and>
     (km_meta (modifiers h) \<longleftrightarrow> KEY_LEFTMETA \<in> pressed_keys h \<or> KEY_RIGHTMETA \<in> pressed_keys h)"

definition keyboard_ok :: "keyboard_handler \<Rightarrow> bool" where
  "keyboard_ok h \<longleftrightarrow> dom (last_key_times h) = pressed_keys h \<and> repeating_keys h \<subseteq> pressed_keys h \<and> modifiers_match h"

lemma update_modifiers_frame [simp]:
  "pressed_keys (update_modifiers k p h) = pressed_keys h" "last_key_times (update_modifiers k p h) = last_key_times h"
  "repeating_keys (update_modifiers k p h) = repeating_keys h" "mapper (update_modifiers k p h) = mapper h"
  by (simp_all add: update_modifiers_def Let_def)

text \<open>After a press or a release of \<open>k\<close> the modifiers fit the new set of keys.\<close>

lemma update_modifiers_match:
  assumes "modifiers_match h" "pressed_keys h' = (if p then insert k (pressed_keys h) else pressed_keys h - {k})" "modifiers h' = modifiers h"
  shows "modifiers_match (update_modifiers k p h')"
  using assms by (auto simp: modifiers_match_def update_modifiers_def is_key_pressed_def Let_def)

lemma accept_key_down_simps:
  assumes "accept_key_down t k sc r h = (ev, h')"
  shows "pressed_keys h' = insert k (pressed_keys h)" "last_key_times h' = (last_key_times h)(k \<mapsto> t)"
    "repeating_keys h' = repeating_keys h" "event_transitions ev = (if r then [] else [Press k])" "mapper h' = mapper h"
  using assms by (auto simp: accept_key_down_def Let_def)

lemma accept_key_down_ok:
  assumes "accept_key_down t k sc r h = (ev, h')" "modifiers_match h"
  shows "modifiers_match h'"
  using assms by (auto simp: accept_key_down_def Let_def intro!: update_modifiers_match[where p = True])

lemma handle_key_down_ok:
  assumes "handle_key_down t sc ext e1 h = (r, h')" "keyboard_ok h"
  shows "keyboard_ok h' \<and> replay (key_transitions (Event r)) (pressed_keys h) = Some (pressed_keys h')"
proof (cases "\<exists>e. r = Inl e \<or> (\<exists>k. r = Ok (Ignored k))")
  case True
  then show ?thesis
    using assms by (auto simp: handle_key_down_def accept_key_down_def Let_def split: sum.splits if_splits prod.splits)
next
  case False
  with assms(1) obtain k ev where tr: "translate_scancode (mapper h) (ucast sc) ext e1 = Ok k" "r = Ok ev"
    and a: "accept_key_down t k sc (k \<in> pressed_keys h)
      (if k \<in> pressed_keys h then h\<lparr>repeating_keys := insert k (repeating_keys h)\<rparr> else h) = (ev, h')"
    by (auto simp: handle_key_down_def Let_def split: sum.splits if_splits prod.splits)
  have "modifiers_match (if k \<in> pressed_keys h then h\<lparr>repeating_keys := insert k (repeating_keys h)\<rparr> else h)"
    using assms(2) by (simp add: keyboard_ok_def modifiers_match_def)
  from accept_key_down_ok[OF a this] accept_key_down_simps[OF a] assms(2) tr show ?thesis
    by (cases "k \<in> pressed_keys h") (auto simp: keyboard_ok_def insert_absorb)
qed

lemma handle_key_up_ok:
  assumes "handle_key_up t sc ext e1 h = (r, h')" "keyboard_ok h"
  shows "keyboard_ok h' \<and> replay (key_transitions (Event r)) (pressed_keys h) = Some (pressed_keys h')"
proof (cases "translate_scancode (mapper h) (ucast sc) ext e1")
  case (Inl e)
  then have "r = Inl e" "h' = h" using assms(1) by (simp_all add: handle_key_up_def)
  with assms(2) show ?thesis by simp
next
  case (Inr k)
  show ?thesis
  proof (cases "k \<in> pressed_keys h")
    case False
    with Inr have "r = Ok (Ignored k)" "h' = h" using assms(1) by (simp_all add: handle_key_up_def)
    with assms(2) show ?thesis by simp
  next
    case True
    define h1 where "h1 = h\<lparr>pressed_keys := pressed_keys h - {k}, last_key_times := (last_key_times h)(k := None),
        repeating_keys := repeating_keys h - {k}\<rparr>"
    define h2 where "h2 = update_modifiers k False h1"
    have "handle_key_up t sc ext e1 h = (Ok (KeyUp k sc (modifiers h2) t), h2)"
      using Inr True by (simp add: handle_key_up_def Let_def h1_def[symmetric] h2_def[symmetric])
    from trans[OF assms(1)[symmetric] this] have "(r, h') = (Ok (KeyUp k sc (modifiers h2) t), h2)" .
    then have r: "key_transitions (Event r) = [Release k]" and h': "h' = h2" by simp_all
    have "modifiers_match h2" unfolding h2_def
      by (rule update_modifiers_match[where h = h]) (use assms(2) in \<open>simp_all add: keyboard_ok_def h1_def\<close>)
    moreover have "pressed_keys h2 = pressed_keys h - {k}" "last_key_times h2 = (last_key_times h)(k := None)"
      "repeating_keys h2 = repeating_keys h - {k}" by (simp_all add: h1_def h2_def)
    ultimately show ?thesis using assms(2) r True unfolding h' by (auto simp: keyboard_ok_def)
  qed
qed

lemma keyboard_step_ok:
  assumes "keyboard_step x h = (b, h')" "keyboard_ok h"
  shows "keyboard_ok h' \<and> replay (key_transitions b) (pressed_keys h) = Some (pressed_keys h')"
proof (cases x)
  case (CallDown t sc ext e1)
  then obtain r where "handle_key_down t sc ext e1 h = (r, h')" "b = Event r" using assms(1) by (auto split: prod.splits)
  with handle_key_down_ok assms(2) show ?thesis by blast
next
  case (CallUp t sc ext e1)
  then obtain r where "handle_key_up t sc ext e1 h = (r, h')" "b = Event r" using assms(1) by (auto split: prod.splits)
  with handle_key_up_ok assms(2) show ?thesis by blast
next
  case (CallSync c n l)
  with assms have "b = Toggles (fst (synchronize_locks c n l h))" "h' = snd (synchronize_locks c n l h)"
    by (auto simp: split_beta)
  with assms(2) show ?thesis by (simp add: synchronize_locks_def Let_def keyboard_ok_def modifiers_match_def)
next
  case CallReset
  with assms(1) have "b = WasReset" "h' = keyboard_reset h" by simp_all
  then show ?thesis by (simp add: keyboard_reset_def keyboard_ok_def modifiers_match_def key_modifiers_default_def)
next
  case (CallLayout l)
  with assms(1) have "b = Done" "h' = keyboard_set_layout l h" by simp_all
  with assms(2) show ?thesis by (simp add: keyboard_set_layout_def keyboard_ok_def modifiers_match_def)
next
  case (CallDelay ms)
  with assms(1) have "b = Done" "h' = set_repeat_delay ms h" by simp_all
  with assms(2) show ?thesis by (simp add: set_repeat_delay_def keyboard_ok_def modifiers_match_def)
next
  case (CallRate ms)
  with assms(1) have "b = Done" "h' = set_repeat_rate ms h" by simp_all
  with assms(2) show ?thesis by (simp add: set_repeat_rate_def keyboard_ok_def modifiers_match_def)
qed

interpretation keys: press_release keyboard_step pressed_keys key_transitions keyboard_ok
  by unfold_locales (rule keyboard_step_ok)

lemma keyboard_new_ok: "keyboard_ok keyboard_new" "pressed_keys keyboard_new = {}"
  by (simp_all add: keyboard_new_def keyboard_ok_def modifiers_match_def key_modifiers_default_def)

section \<open>Properties\<close>

text \<open>
  C19.  The keyboard handler keeps the key protocol.  Whatever sequence of calls a new handler receives, its events
  never press a key that is down nor release one that is up; its set of pressed keys is what replaying its events
  gives; the shift, control, alt and meta modifiers are exactly those of the keys that are down; and a key has
  a recorded time exactly while it is down.
\<close>

theorem keyboard_protocol:
  "let (rs, h) = run_io keyboard_step xs keyboard_new in
     replay (concat (map key_transitions rs)) {} = Some (pressed_keys h) \<and>
     modifiers_match h \<and> dom (last_key_times h) = pressed_keys h \<and> repeating_keys h \<subseteq> pressed_keys h"
  using keys.run_legal[OF surjective_pairing keyboard_new_ok(1), of xs]
  by (auto simp: split_beta keyboard_new_ok(2) keyboard_ok_def)

text \<open>
  What becomes of a key press.  A translated press of a key that is up is a key-down event.  While the key is down, a further press
  within the initial delay, or within the repeat interval once the key repeats, is ignored and changes nothing; a later
  one is a repeat, is timed from its own acceptance, and makes the key repeat.
\<close>

theorem key_down_exact:
  assumes "keyboard_ok h" "translate_scancode (mapper h) (ucast sc) ext e1 = Ok k"
  shows "\<exists>ev h'. handle_key_down t sc ext e1 h = (Ok ev, h') \<and>
    (k \<notin> pressed_keys h \<longrightarrow> ev = KeyDown k sc (modifiers h') t \<and> last_key_times h' k = Some t \<and> k \<notin> repeating_keys h') \<and>
    (k \<in> pressed_keys h \<longrightarrow>
      (\<exists>last_time. last_key_times h k = Some last_time \<and>
        (if elapsed_ms t last_time < (if k \<in> repeating_keys h then repeat_rate_ms h else repeat_delay_ms h)
         then ev = Ignored k \<and> h' = h
         else ev = KeyRepeat k sc (modifiers h') t \<and> last_key_times h' k = Some t \<and> k \<in> repeating_keys h')))"
proof (cases "k \<in> pressed_keys h")
  case False
  with assms show ?thesis
    by (auto simp: handle_key_down_def accept_key_down_def Let_def keyboard_ok_def)
next
  case True
  with assms(1) obtain last_time where l: "last_key_times h k = Some last_time" by (auto simp: keyboard_ok_def)
  show ?thesis
  proof (cases "elapsed_ms t last_time < (if k \<in> repeating_keys h then repeat_rate_ms h else repeat_delay_ms h)")
    case early: True
    then have "handle_key_down t sc ext e1 h = (Ok (Ignored k), h)"
      using assms(2) True l by (cases "k \<in> repeating_keys h") (simp_all add: handle_key_down_def)
    then show ?thesis using True l early by simp
  next
    case False
    define h1 where "h1 = h\<lparr>repeating_keys := insert k (repeating_keys h)\<rparr>"
    obtain ev h2 where a: "accept_key_down t k sc True h1 = (ev, h2)" by (cases "accept_key_down t k sc True h1")
    have "handle_key_down t sc ext e1 h = (Ok ev, h2)"
      using assms(2) True l False a by (cases "k \<in> repeating_keys h") (simp_all add: handle_key_down_def h1_def[symmetric])
    moreover have "ev = KeyRepeat k sc (modifiers h2) t" using a by (auto simp: accept_key_down_def Let_def)
    ultimately show ?thesis using True l False accept_key_down_simps(2,3)[OF a] by (simp add: h1_def)
  qed
qed

theorem key_down_exact_witness:
  "\<exists>ev h'. handle_key_down 5 0x1E False False keyboard_new = (Ok ev, h') \<and> ev = KeyDown KEY_A 0x1E (modifiers h') 5"
proof -
  have "translate_scancode (mapper keyboard_new) (ucast (0x1E :: u16)) False False = Ok KEY_A" by code_simp
  from key_down_exact[OF keyboard_new_ok(1) this, of 5] keyboard_new_ok(2) show ?thesis by auto
qed

section \<open>Layouts\<close>

text \<open>The tables are closed: every override is of a scancode that the primary table has.\<close>

definition overrides_of :: "string \<Rightarrow> (u16 \<times> u32) list" where
  "overrides_of l =
     (if l = ''de'' then de_overrides else if l = ''fr'' then fr_overrides
      else if l = ''uk'' \<or> l = ''gb'' then uk_overrides else if l = ''be'' then be_overrides
      else if l = ''ch'' then ch_overrides else if l = ''dvorak'' then dvorak_overrides
      else if l = ''colemak'' then colemak_overrides else [])"

lemma layout_tables_overrides:
  "(case hash_map_of layout_tables l of None \<Rightarrow> None | Some ov \<Rightarrow> ov c) = hash_map_of (overrides_of l) c"
  by (simp add: hash_map_of_def[of layout_tables] layout_tables_def overrides_of_def) (simp add: hash_map_of_def)

abbreviation in_primary :: "(u16 \<times> u32) list \<Rightarrow> bool" where
  "in_primary t \<equiv> list_all (\<lambda>(c, k). c \<in> set (map fst primary_mappings)) t"

lemma overrides_in_primary: "in_primary (overrides_of l)"
proof -
  have "in_primary de_overrides" "in_primary fr_overrides" "in_primary uk_overrides" "in_primary be_overrides"
    "in_primary ch_overrides" "in_primary dvorak_overrides" "in_primary colemak_overrides"
    by code_simp+
  then show ?thesis by (simp add: overrides_of_def del: list.set_map)
qed

definition layout_list :: "string \<Rightarrow> (u16 \<times> u32) list" where
  "layout_list l = map (\<lambda>(c, k). (c, case hash_map_of (overrides_of l) c of None \<Rightarrow> k | Some k' \<Rightarrow> k')) primary_mappings"

lemma map_of_map_values: "map_of (map (\<lambda>(c, k). (c, f c k)) xs) c = map_option (f c) (map_of xs c)"
  by (induction xs) auto

lemma primary_distinct: "distinct (map fst primary_mappings)"
  by code_simp

lemma map_of_distinct_rev: "distinct (map fst xs) \<Longrightarrow> map_of (rev xs) = map_of xs"
  by (rule map_of_inject_set[THEN iffD2]) (auto simp: rev_map[symmetric])

lemma map_of_rev_primary: "map_of (rev primary_mappings) = map_of primary_mappings"
  using primary_distinct by (simp add: map_of_distinct_rev)

lemma translate_layout:
  "translate_scancode (mapper_set_layout l mapper_new) (ucast sc) False False =
     ok_or (UnknownScancode sc) (map_of (layout_list l) sc)" for sc :: u16
proof -
  have u: "ucast (ucast sc :: u32) = sc" by (simp add: ucast_up_ucast_id is_up)
  let ?ov = "hash_map_of (overrides_of l) sc"
  have "sc \<in> fst ` set primary_mappings" if "?ov = Some k" for k
    using that overrides_in_primary[of l] by (auto simp: hash_map_of_def list_all_iff dest!: map_of_SomeD)
  then have "?ov = Some k \<Longrightarrow> map_of primary_mappings sc \<noteq> None" for k
    by (simp add: map_of_eq_None_iff)
  then show ?thesis
    by (cases ?ov) (auto simp: translate_scancode_def mapper_set_layout_def mapper_new_def layout_tables_overrides u layout_list_def
        map_of_map_values ok_or_def hash_map_of_def[of primary_mappings] map_of_rev_primary split: option.splits)
qed

lemma layout_one_to_one:
  assumes "distinct (map snd (layout_list l))"
    and "translate_scancode (mapper_set_layout l mapper_new) (ucast a) False False = Ok k"
    and "translate_scancode (mapper_set_layout l mapper_new) (ucast b) False False = Ok k"
  shows "a = (b :: u16)"
proof -
  have "(a, k) \<in> set (layout_list l)" "(b, k) \<in> set (layout_list l)"
    using assms(2,3) unfolding translate_layout by (auto simp: ok_or_def split: option.splits dest: map_of_SomeD)
  with assms(1) inj_onD[of snd "set (layout_list l)" "(a, k)" "(b, k)"] show ?thesis by (simp add: distinct_map)
qed

lemma distinct_by_sorting: "sorted_wrt (<) (sort (map uint xs)) \<Longrightarrow> distinct xs"
proof -
  assume "sorted_wrt (<) (sort (map uint xs))"
  then have "distinct (sort (map uint xs))" using strict_sorted_iff by blast
  then show ?thesis by (simp add: distinct_map)
qed

lemma distinct_layouts:
  "distinct (map snd (layout_list ''us''))" "distinct (map snd (layout_list ''de''))" "distinct (map snd (layout_list ''ch''))"
  "distinct (map snd (layout_list ''colemak''))"
  by (rule distinct_by_sorting, code_simp)+

lemma e1_never_translates:
  "translate_scancode (mapper_set_layout l mapper_new) (ucast sc) ext True = Err (UnknownScancode sc)" for sc :: u16
proof -
  have "unat sc < 2 ^ 16" using unsigned_less[of sc, where ?'a = nat] by simp
  then have "unat (ucast sc :: u32) < 2 ^ 16"
    by (simp add: unsigned_ucast_eq le_less_trans[OF take_bit_nat_less_eq_self])
  then have "(ucast sc :: u32) \<noteq> 0xE11D45" "(ucast sc :: u32) \<noteq> 0xE11D46" by auto
  then show ?thesis
    by (simp add: translate_scancode_def mapper_set_layout_def mapper_new_def hash_map_of_def[of "[_, _]"] ok_or_def
        ucast_up_ucast_id is_up)
qed

text \<open>
  Scancodes under the layouts.  Under every layout except the French, Belgian, British and Dvorak ones, distinct scancodes
  give distinct key codes, so that no two physical keys share their state.  Under the others two keys collide: the
  keys of M and the comma, of the backslash and the 102nd key, of Q and the apostrophe.  A scancode with an E1 prefix
  is never translated: the table's keys do not fit the sixteen bits that the handler passes on.
\<close>

theorem scancode_layouts:
  defines "tr l c \<equiv> translate_scancode (mapper_set_layout l mapper_new) (ucast (c :: u16)) False False"
  shows "(l \<notin> {''fr'', ''be'', ''uk'', ''gb'', ''dvorak''} \<longrightarrow> (\<forall>a b k. tr l a = Ok k \<and> tr l b = Ok k \<longrightarrow> a = b)) \<and>
    tr ''fr'' 0x32 = Ok KEY_COMMA \<and> tr ''fr'' 0x33 = Ok KEY_COMMA \<and> tr ''be'' 0x32 = Ok KEY_COMMA \<and> tr ''be'' 0x33 = Ok KEY_COMMA \<and>
    tr ''uk'' 0x2B = Ok KEY_102ND \<and> tr ''uk'' 0x56 = Ok KEY_102ND \<and> tr ''gb'' 0x2B = Ok KEY_102ND \<and> tr ''gb'' 0x56 = Ok KEY_102ND \<and>
    tr ''dvorak'' 0x10 = Ok KEY_APOSTROPHE \<and> tr ''dvorak'' 0x28 = Ok KEY_APOSTROPHE \<and>
    (\<forall>c ext. translate_scancode (mapper_set_layout l mapper_new) (ucast (c :: u16)) ext True = Err (UnknownScancode c))"
proof -
  have "distinct (map snd (layout_list l))" if "l \<notin> {''fr'', ''be'', ''uk'', ''gb'', ''dvorak''}"
  proof -
    have "overrides_of l \<in> {overrides_of ''us'', overrides_of ''de'', overrides_of ''ch'', overrides_of ''colemak''}"
      using that by (simp add: overrides_of_def)
    then show ?thesis using distinct_layouts by (auto simp: layout_list_def)
  qed
  then have "l \<notin> {''fr'', ''be'', ''uk'', ''gb'', ''dvorak''} \<longrightarrow> (\<forall>a b k. tr l a = Ok k \<and> tr l b = Ok k \<longrightarrow> a = b)"
    using layout_one_to_one[of l] unfolding tr_def by blast
  moreover have "map_of (layout_list ''fr'') 0x32 = Some KEY_COMMA" "map_of (layout_list ''fr'') 0x33 = Some KEY_COMMA"
    "map_of (layout_list ''be'') 0x32 = Some KEY_COMMA" "map_of (layout_list ''be'') 0x33 = Some KEY_COMMA"
    "map_of (layout_list ''uk'') 0x2B = Some KEY_102ND" "map_of (layout_list ''uk'') 0x56 = Some KEY_102ND"
    "map_of (layout_list ''gb'') 0x2B = Some KEY_102ND" "map_of (layout_list ''gb'') 0x56 = Some KEY_102ND"
    "map_of (layout_list ''dvorak'') 0x10 = Some KEY_APOSTROPHE" "map_of (layout_list ''dvorak'') 0x28 = Some KEY_APOSTROPHE"
    by code_simp+
  ultimately show ?thesis
    using e1_never_translates[of l] by (simp add: tr_def[unfolded translate_layout] ok_or_def)
qed

theorem scancode_layouts_witness:
  "translate_scancode (mapper_set_layout ''de'' mapper_new) (ucast (0x15 :: u16)) False False = Ok KEY_Z \<and>
   translate_scancode (mapper_set_layout ''de'' mapper_new) (ucast (0x2C :: u16)) False False \<noteq> Ok KEY_Z"
proof -
  have "translate_scancode (mapper_set_layout ''de'' mapper_new) (ucast (0x15 :: u16)) False False = Ok KEY_Z" by code_simp
  with scancode_layouts[of "''de''"] show ?thesis by fastforce
qed

end
