(* ===== verification/Wrdp_Input_Pointer.thy ===== *)
theory Wrdp_Input_Pointer
  imports Wrdp_Input_Keyboard
begin

text \<open>
  Pointer input (\<open>src/src/rdp/channels/input\<close>): the coordinate spaces of \<open>coordinates.rs\<close> and the buttons, wheel
  and position of \<open>mouse.rs\<close>.

  Unsigned fields are words, \<open>i32\<close> fields integers in their range (\<open>monitor_fits\<close>); the casts of the source
  are written out.  Coordinates are \<open>f64\<close> values with rounding, infinities and NaN.  Clock reads are arguments.
\<close>

section \<open>Monitors and coordinate spaces\<close>

record monitor_info =
  mon_id :: u32
  mon_name :: string
  mon_x :: int
  mon_y :: int
  mon_width :: u32
  mon_height :: u32
  mon_dpi :: f64
  mon_scale_factor :: f64
  mon_stream_x :: u32
  mon_stream_y :: u32
  mon_stream_width :: u32
  mon_stream_height :: u32
  mon_is_primary :: bool

abbreviation f64_u32 :: "u32 \<Rightarrow> f64" where "f64_u32 w \<equiv> f64_int (uint w)"

definition contains_point :: "monitor_info \<Rightarrow> f64 \<Rightarrow> f64 \<Rightarrow> bool" where
  "contains_point m x y =
     (let end_x = mon_x m + uint (mon_width m); end_y = mon_y m + uint (mon_height m) in
      fle (f64_int (mon_x m)) x \<and> flt x (f64_int end_x) \<and> fle (f64_int (mon_y m)) y \<and> flt y (f64_int end_y))"

definition contains_stream_point :: "monitor_info \<Rightarrow> f64 \<Rightarrow> f64 \<Rightarrow> bool" where
  "contains_stream_point m x y =
     (let end_x = uint (mon_stream_x m) + uint (mon_stream_width m); end_y = uint (mon_stream_y m) + uint (mon_stream_height m) in
      fle (f64_u32 (mon_stream_x m)) x \<and> flt x (f64_int end_x) \<and> fle (f64_u32 (mon_stream_y m)) y \<and> flt y (f64_int end_y))"

record coordinate_system =
  cs_rdp_width :: u32
  cs_rdp_height :: u32
  cs_virtual_width :: u32
  cs_virtual_height :: u32
  cs_virtual_x_offset :: int
  cs_virtual_y_offset :: int
  cs_stream_width :: u32
  cs_stream_height :: u32
  cs_rdp_dpi :: f64
  cs_system_dpi :: f64

record coordinate_transformer =
  coord_system :: coordinate_system
  monitors :: "monitor_info list"
  sub_pixel_x :: f64
  sub_pixel_y :: f64
  last_rdp_x :: u32
  last_rdp_y :: u32
  enable_acceleration :: bool
  acceleration_factor :: f64
  enable_sub_pixel :: bool

text \<open>The range of the \<open>i32\<close> fields.\<close>

definition monitor_fits :: "monitor_info \<Rightarrow> bool" where
  "monitor_fits m \<longleftrightarrow> - (2 ^ 31) \<le> mon_x m \<and> mon_x m < 2 ^ 31 \<and> - (2 ^ 31) \<le> mon_y m \<and> mon_y m < 2 ^ 31"

definition i32_max :: int where "i32_max = 2147483647"
definition i32_min :: int where "i32_min = - 2147483648"

text \<open>The cast \<open>as i32\<close> of an \<open>i64\<close>.\<close>

definition as_i32 :: "int \<Rightarrow> int" where
  "as_i32 n = (n + 2 ^ 31) mod 2 ^ 32 - 2 ^ 31"

definition quoted :: "string \<Rightarrow> string" where
  "quoted s = CHR 0x27 # s @ [CHR 0x27]"

definition validate_monitor :: "monitor_info \<Rightarrow> (input_error, unit) result" where
  "validate_monitor m =
     (if mon_width m = 0 \<or> mon_height m = 0 \<or> mon_stream_width m = 0 \<or> mon_stream_height m = 0
      then Err (InvalidMonitorConfig (''Monitor '' @ quoted (mon_name m) @ '' has zero-sized desktop or stream dimensions''))
      else if \<not> is_finite (mon_dpi m) \<or> fle (mon_dpi m) (Fin 0) \<or> \<not> is_finite (mon_scale_factor m) \<or> fle (mon_scale_factor m) (Fin 0)
      then Err (InvalidMonitorConfig (''Monitor '' @ quoted (mon_name m) @ '' has invalid DPI or scale factor''))
      else if mon_x m + uint (mon_width m) > i32_max \<or> mon_y m + uint (mon_height m) > i32_max \<or>
              uint (mon_stream_x m) + uint (mon_stream_width m) \<ge> 2 ^ 32 \<or> uint (mon_stream_y m) + uint (mon_stream_height m) \<ge> 2 ^ 32
      then Err (InvalidMonitorConfig (''Monitor '' @ quoted (mon_name m) @ '' coordinate extent overflows''))
      else Ok ())"

fun validate_each :: "monitor_info list \<Rightarrow> (input_error, unit) result" where
  "validate_each [] = Ok ()"
| "validate_each (m # ms) = rbind (validate_monitor m) (\<lambda>_. validate_each ms)"

definition validate_monitors :: "monitor_info list \<Rightarrow> (input_error, unit) result" where
  "validate_monitors ms = (if ms = [] then Err (InvalidMonitorConfig ''No monitors configured'') else validate_each ms)"

text \<open>The loop over the monitors: the bounds \<open>(min_x, min_y, max_x, max_y)\<close>.\<close>

definition extend_bounds :: "monitor_info \<Rightarrow> int \<times> int \<times> int \<times> int \<Rightarrow> int \<times> int \<times> int \<times> int" where
  "extend_bounds m = (\<lambda>(min_x, min_y, max_x, max_y).
     (min min_x (mon_x m), min min_y (mon_y m),
      max max_x (as_i32 (mon_x m + uint (mon_width m))), max max_y (as_i32 (mon_y m + uint (mon_height m)))))"

definition calculate_coordinate_system :: "monitor_info list \<Rightarrow> coordinate_system" where
  "calculate_coordinate_system ms =
     (let (min_x, min_y, max_x, max_y) = fold extend_bounds ms (i32_max, i32_max, i32_min, i32_min);
          virtual_width = word_of_int (max_x - min_x);
          virtual_height = word_of_int (max_y - min_y);
          primary = (case find mon_is_primary ms of Some m \<Rightarrow> m | None \<Rightarrow> ms ! 0)
      in \<lparr>cs_rdp_width = virtual_width, cs_rdp_height = virtual_height,
          cs_virtual_width = virtual_width, cs_virtual_height = virtual_height,
          cs_virtual_x_offset = min_x, cs_virtual_y_offset = min_y,
          cs_stream_width = fold max (map (\<lambda>m. mon_stream_x m + mon_stream_width m) ms) 0,
          cs_stream_height = fold max (map (\<lambda>m. mon_stream_y m + mon_stream_height m) ms) 0,
          cs_rdp_dpi = mon_dpi primary, cs_system_dpi = Fin 96\<rparr>)"

definition transformer_new :: "monitor_info list \<Rightarrow> (input_error, coordinate_transformer) result" where
  "transformer_new ms = rbind (validate_monitors ms) (\<lambda>_. Ok
     \<lparr>coord_system = calculate_coordinate_system ms, monitors = ms, sub_pixel_x = Fin 0, sub_pixel_y = Fin 0,
      last_rdp_x = 0, last_rdp_y = 0, enable_acceleration = True, acceleration_factor = Fin 1, enable_sub_pixel = True\<rparr>)"

definition find_monitor_at_point :: "coordinate_transformer \<Rightarrow> f64 \<Rightarrow> f64 \<Rightarrow> (input_error, monitor_info) result" where
  "find_monitor_at_point t x y =
     (case find (\<lambda>m. contains_point m x y) (monitors t) of Some m \<Rightarrow> Ok m
      | None \<Rightarrow> (case find mon_is_primary (monitors t) of Some m \<Rightarrow> Ok m
      | None \<Rightarrow> (case monitors t of m # _ \<Rightarrow> Ok m | [] \<Rightarrow> Err (InvalidCoordinate x y))))"

definition find_monitor_from_stream :: "coordinate_transformer \<Rightarrow> f64 \<Rightarrow> f64 \<Rightarrow> (input_error, monitor_info) result" where
  "find_monitor_from_stream t x y =
     (case find (\<lambda>m. contains_stream_point m x y) (monitors t) of Some m \<Rightarrow> Ok m
      | None \<Rightarrow> (case monitors t of m # _ \<Rightarrow> Ok m | [] \<Rightarrow> Err (InvalidCoordinate x y)))"

section \<open>From the client to the stream\<close>

text \<open>Steps 1 to 3 along one axis: a client coordinate to the virtual desktop.\<close>

definition to_virtual :: "coordinate_system \<Rightarrow> u32 \<Rightarrow> u32 \<Rightarrow> u32 \<Rightarrow> int \<Rightarrow> f64" where
  "to_virtual c rdp rdp_extent virtual_extent offset =
     (let norm = fdiv (f64_u32 rdp) (f64_u32 rdp_extent);
          dpi_scale = fdiv (cs_system_dpi c) (cs_rdp_dpi c);
          scaled = fmul norm dpi_scale
      in fadd (fmul scaled (f64_u32 virtual_extent)) (f64_int offset))"

text \<open>Steps 5 and 6 along one axis: a desktop coordinate to the stream of its monitor.\<close>

definition to_stream :: "f64 \<Rightarrow> int \<Rightarrow> u32 \<Rightarrow> u32 \<Rightarrow> u32 \<Rightarrow> f64 \<Rightarrow> f64" where
  "to_stream virtual_pos origin extent stream_origin stream_extent scale =
     (let local = fsub virtual_pos (f64_int origin);
          monitor_scale = fdiv (f64_u32 stream_extent) (f64_u32 extent)
      in fadd (f64_u32 stream_origin) (fmul (fmul local monitor_scale) scale))"

text \<open>Step 7 along one axis: the whole pixel and the new accumulator.\<close>

definition accumulate :: "f64 \<Rightarrow> f64 \<Rightarrow> f64 \<times> f64" where
  "accumulate sub stream =
     (let sub1 = fadd sub (fsub stream (ffloor stream))
      in if fle (Fin 1) sub1 then (fadd (ffloor stream) (Fin 1), fsub sub1 (Fin 1)) else (fadd (ffloor stream) (Fin 0), sub1))"

definition rdp_to_stream ::
  "u32 \<Rightarrow> u32 \<Rightarrow> coordinate_transformer \<Rightarrow> (input_error, f64 \<times> f64) result \<times> coordinate_transformer" where
  "rdp_to_stream rdp_x rdp_y t =
     (let c = coord_system t;
          t1 = t\<lparr>last_rdp_x := min rdp_x (saturating_sub (cs_rdp_width c) 1),
                 last_rdp_y := min rdp_y (saturating_sub (cs_rdp_height c) 1)\<rparr>;
          virtual_x = to_virtual c rdp_x (cs_rdp_width c) (cs_virtual_width c) (cs_virtual_x_offset c);
          virtual_y = to_virtual c rdp_y (cs_rdp_height c) (cs_virtual_height c) (cs_virtual_y_offset c)
      in case find_monitor_at_point t1 virtual_x virtual_y of
           Inl e \<Rightarrow> (Err e, t1)
         | Inr m \<Rightarrow>
             let stream_x = to_stream virtual_x (mon_x m) (mon_width m) (mon_stream_x m) (mon_stream_width m) (mon_scale_factor m);
                 stream_y = to_stream virtual_y (mon_y m) (mon_height m) (mon_stream_y m) (mon_stream_height m) (mon_scale_factor m)
             in if enable_sub_pixel t1
                then let (final_x, sub_x) = accumulate (sub_pixel_x t1) stream_x;
                         (final_y, sub_y) = accumulate (sub_pixel_y t1) stream_y
                     in (Ok (final_x, final_y), t1\<lparr>sub_pixel_x := sub_x, sub_pixel_y := sub_y\<rparr>)
                else (Ok (stream_x, stream_y), t1))"

text \<open>Back from the stream along one axis, and the cast and clamp to the client's range.\<close>

definition to_rdp :: "coordinate_system \<Rightarrow> f64 \<Rightarrow> u32 \<Rightarrow> u32 \<Rightarrow> u32 \<Rightarrow> f64 \<Rightarrow> int \<Rightarrow> int \<Rightarrow> u32 \<Rightarrow> u32 \<Rightarrow> u32" where
  "to_rdp c stream stream_origin stream_extent extent scale origin offset virtual_extent rdp_extent =
     (let local_stream = fsub stream (f64_u32 stream_origin);
          monitor_scale = fdiv (f64_u32 extent) (f64_u32 stream_extent);
          local = fdiv (fmul local_stream monitor_scale) scale;
          virtual_pos = fadd (f64_int origin) local;
          norm = fdiv (fsub virtual_pos (f64_int offset)) (f64_u32 virtual_extent);
          dpi_scale = fdiv (cs_rdp_dpi c) (cs_system_dpi c);
          scaled = fmul norm dpi_scale;
          rdp = word_of_int (f64_as 0 4294967295 (fround (fmul scaled (f64_u32 rdp_extent))))
      in min rdp (saturating_sub rdp_extent 1))"

definition stream_to_rdp :: "f64 \<Rightarrow> f64 \<Rightarrow> coordinate_transformer \<Rightarrow> (input_error, u32 \<times> u32) result" where
  "stream_to_rdp stream_x stream_y t =
     rbind (find_monitor_from_stream t stream_x stream_y) (\<lambda>m.
       let c = coord_system t in
       Ok (to_rdp c stream_x (mon_stream_x m) (mon_stream_width m) (mon_width m) (mon_scale_factor m) (mon_x m)
             (cs_virtual_x_offset c) (cs_virtual_width c) (cs_rdp_width c),
           to_rdp c stream_y (mon_stream_y m) (mon_stream_height m) (mon_height m) (mon_scale_factor m) (mon_y m)
             (cs_virtual_y_offset c) (cs_virtual_height c) (cs_rdp_height c)))"

definition calculate_acceleration :: "coordinate_transformer \<Rightarrow> nat \<Rightarrow> f64" where
  "calculate_acceleration t speed =
     (let base = acceleration_factor t in
      if speed < 2 then base
      else if speed < 4 then fmul base (Fin (3 / 2))
      else if speed < 6 then fmul base (Fin 2)
      else if speed < 9 then fmul base (Fin (5 / 2))
      else if speed < 13 then fmul base (Fin 3)
      else fmul base (Fin (7 / 2)))"

definition accelerate :: "coordinate_transformer \<Rightarrow> int \<Rightarrow> f64" where
  "accelerate t delta =
     (if enable_acceleration t then fmul (f64_int delta) (calculate_acceleration t (nat \<bar>delta\<bar>)) else f64_int delta)"

definition moved :: "u32 \<Rightarrow> f64 \<Rightarrow> u32 \<Rightarrow> u32" where
  "moved last_pos accel extent =
     word_of_int (f64_as 0 4294967295 (fclamp (fadd (f64_u32 last_pos) accel) (Fin 0) (f64_u32 (saturating_sub extent 1))))"

definition apply_relative_movement ::
  "int \<Rightarrow> int \<Rightarrow> coordinate_transformer \<Rightarrow> (input_error, f64 \<times> f64) result \<times> coordinate_transformer" where
  "apply_relative_movement delta_x delta_y t =
     (let new_rdp_x = moved (last_rdp_x t) (accelerate t delta_x) (cs_rdp_width (coord_system t));
          new_rdp_y = moved (last_rdp_y t) (accelerate t delta_y) (cs_rdp_height (coord_system t))
      in rdp_to_stream new_rdp_x new_rdp_y (t\<lparr>last_rdp_x := new_rdp_x, last_rdp_y := new_rdp_y\<rparr>))"

definition clamp_to_bounds :: "coordinate_transformer \<Rightarrow> f64 \<Rightarrow> f64 \<Rightarrow> f64 \<times> f64" where
  "clamp_to_bounds t x y =
     (fmin (fmax x (Fin 0)) (fsub (f64_u32 (cs_stream_width (coord_system t))) (Fin 1)),
      fmin (fmax y (Fin 0)) (fsub (f64_u32 (cs_stream_height (coord_system t))) (Fin 1)))"

definition update_monitors :: "monitor_info list \<Rightarrow> coordinate_transformer \<Rightarrow> (input_error, unit) result \<times> coordinate_transformer" where
  "update_monitors ms t =
     (case validate_monitors ms of
        Inl e \<Rightarrow> (Err e, t)
      | Inr _ \<Rightarrow> (Ok (), t\<lparr>coord_system := calculate_coordinate_system ms, monitors := ms, sub_pixel_x := Fin 0, sub_pixel_y := Fin 0\<rparr>))"

definition set_acceleration_enabled :: "bool \<Rightarrow> coordinate_transformer \<Rightarrow> coordinate_transformer" where
  "set_acceleration_enabled b t = t\<lparr>enable_acceleration := b\<rparr>"

definition set_acceleration_factor :: "f64 \<Rightarrow> coordinate_transformer \<Rightarrow> coordinate_transformer" where
  "set_acceleration_factor a t = t\<lparr>acceleration_factor := a\<rparr>"

definition set_sub_pixel_enabled :: "bool \<Rightarrow> coordinate_transformer \<Rightarrow> coordinate_transformer" where
  "set_sub_pixel_enabled b t = t\<lparr>enable_sub_pixel := b\<rparr>"

definition get_monitor :: "coordinate_transformer \<Rightarrow> u32 \<Rightarrow> monitor_info option" where
  "get_monitor t i = find (\<lambda>m. mon_id m = i) (monitors t)"

section \<open>The mouse\<close>

datatype mouse_button = LeftButton | RightButton | MiddleButton | Extra1 | Extra2

fun to_linux_button :: "mouse_button \<Rightarrow> u32" where
  "to_linux_button LeftButton = 0x110" | "to_linux_button RightButton = 0x111" | "to_linux_button MiddleButton = 0x112"
| "to_linux_button Extra1 = 0x113" | "to_linux_button Extra2 = 0x114"

definition from_rdp_button :: "u16 \<Rightarrow> mouse_button option" where
  "from_rdp_button b =
     (if b = 0x1000 then Some LeftButton else if b = 0x2000 then Some RightButton else if b = 0x4000 then Some MiddleButton
      else if b = 0x0080 then Some Extra1 else if b = 0x0100 then Some Extra2 else None)"

datatype mouse_event =
    MouseMove f64 f64 instant
  | ButtonDown mouse_button instant
  | ButtonUp mouse_button instant
  | ScrollBy int int instant

record mouse_handler =
  current_x :: f64
  current_y :: f64
  button_states :: "bool list"
  last_event_time :: "instant option"
  last_button_release :: "instant option list"
  high_precision_scroll :: bool
  scroll_accum_x :: f64
  scroll_accum_y :: f64

definition mouse_new :: mouse_handler where
  "mouse_new = \<lparr>current_x = Fin 0, current_y = Fin 0, button_states = replicate 5 False, last_event_time = None,
     last_button_release = replicate 5 None, high_precision_scroll = True, scroll_accum_x = Fin 0, scroll_accum_y = Fin 0\<rparr>"

fun button_to_index :: "mouse_button \<Rightarrow> nat" where
  "button_to_index LeftButton = 0" | "button_to_index RightButton = 1" | "button_to_index MiddleButton = 2"
| "button_to_index Extra1 = 3" | "button_to_index Extra2 = 4"

text \<open>The common end of both moves: clamp, remember the position, report it.\<close>

definition finish_move ::
  "instant \<Rightarrow> (input_error, f64 \<times> f64) result \<times> coordinate_transformer \<Rightarrow> mouse_handler \<Rightarrow>
   (input_error, mouse_event) result \<times> mouse_handler \<times> coordinate_transformer" where
  "finish_move timestamp moved_to h =
     (case moved_to of
        (Inl e, t) \<Rightarrow> (Err e, h, t)
      | (Inr (stream_x, stream_y), t) \<Rightarrow>
          let (x, y) = clamp_to_bounds t stream_x stream_y
          in (Ok (MouseMove x y timestamp), h\<lparr>current_x := x, current_y := y, last_event_time := Some timestamp\<rparr>, t))"

definition handle_absolute_move ::
  "instant \<Rightarrow> u32 \<Rightarrow> u32 \<Rightarrow> mouse_handler \<Rightarrow> coordinate_transformer \<Rightarrow>
   (input_error, mouse_event) result \<times> mouse_handler \<times> coordinate_transformer" where
  "handle_absolute_move timestamp rdp_x rdp_y h t = finish_move timestamp (rdp_to_stream rdp_x rdp_y t) h"

definition handle_relative_move ::
  "instant \<Rightarrow> int \<Rightarrow> int \<Rightarrow> mouse_handler \<Rightarrow> coordinate_transformer \<Rightarrow>
   (input_error, mouse_event) result \<times> mouse_handler \<times> coordinate_transformer" where
  "handle_relative_move timestamp delta_x delta_y h t = finish_move timestamp (apply_relative_movement delta_x delta_y t) h"

definition DUPLICATE_PATH_WINDOW :: duration where "DUPLICATE_PATH_WINDOW = from_millis 8"

definition accept_button_transition :: "instant \<Rightarrow> mouse_button \<Rightarrow> bool \<Rightarrow> mouse_handler \<Rightarrow> bool \<times> mouse_handler" where
  "accept_button_transition now button pressed h =
     (let index = button_to_index button in
      if button_states h ! index = pressed then (False, h)
      else if pressed \<and> (case last_button_release h ! index of None \<Rightarrow> False | Some released \<Rightarrow> now - released < DUPLICATE_PATH_WINDOW)
      then (False, h)
      else let h1 = h\<lparr>button_states := (button_states h)[index := pressed]\<rparr>
           in (True, if pressed then h1 else h1\<lparr>last_button_release := (last_button_release h1)[index := Some now]\<rparr>))"

definition handle_button_down :: "instant \<Rightarrow> mouse_button \<Rightarrow> mouse_handler \<Rightarrow> mouse_event \<times> mouse_handler" where
  "handle_button_down timestamp button h = (ButtonDown button timestamp, h\<lparr>last_event_time := Some timestamp\<rparr>)"

definition handle_button_up :: "instant \<Rightarrow> mouse_button \<Rightarrow> mouse_handler \<Rightarrow> mouse_event \<times> mouse_handler" where
  "handle_button_up timestamp button h = (ButtonUp button timestamp, h\<lparr>last_event_time := Some timestamp\<rparr>)"

text \<open>Integer division towards zero.\<close>

definition trunc_div :: "int \<Rightarrow> int \<Rightarrow> int" where
  "trunc_div a b = (if a < 0 then - ((- a) div b) else a div b)"

definition handle_scroll :: "instant \<Rightarrow> int \<Rightarrow> int \<Rightarrow> mouse_handler \<Rightarrow> mouse_event \<times> mouse_handler" where
  "handle_scroll timestamp delta_x delta_y h =
     (let h1 = h\<lparr>last_event_time := Some timestamp\<rparr> in
      if high_precision_scroll h1
      then let ax = fadd (scroll_accum_x h1) (fdiv (f64_int delta_x) (Fin 120));
               ay = fadd (scroll_accum_y h1) (fdiv (f64_int delta_y) (Fin 120));
               x = f64_as i32_min i32_max (ftrunc ax);
               y = f64_as i32_min i32_max (ftrunc ay)
           in (ScrollBy x y timestamp, h1\<lparr>scroll_accum_x := fsub ax (f64_int x), scroll_accum_y := fsub ay (f64_int y)\<rparr>)
      else (ScrollBy (trunc_div delta_x 120) (trunc_div delta_y 120) timestamp, h1))"

definition is_button_pressed :: "mouse_handler \<Rightarrow> mouse_button \<Rightarrow> bool" where
  "is_button_pressed h b = button_states h ! button_to_index b"

definition pressed_buttons :: "mouse_handler \<Rightarrow> mouse_button list" where
  "pressed_buttons h = filter (is_button_pressed h) [LeftButton, RightButton, MiddleButton, Extra1, Extra2]"

definition set_high_precision_scroll :: "bool \<Rightarrow> mouse_handler \<Rightarrow> mouse_handler" where
  "set_high_precision_scroll enabled h =
     (let h1 = h\<lparr>high_precision_scroll := enabled\<rparr>
      in if enabled then h1 else h1\<lparr>scroll_accum_x := Fin 0, scroll_accum_y := Fin 0\<rparr>)"

definition mouse_reset :: "mouse_handler \<Rightarrow> mouse_handler" where
  "mouse_reset h = h\<lparr>button_states := replicate 5 False, last_button_release := replicate 5 None,
     scroll_accum_x := Fin 0, scroll_accum_y := Fin 0\<rparr>"


section \<open>Calls of the pointer\<close>

text \<open>The operations that the input handler performs on the mouse and the transformer, each with its clock reading.\<close>

datatype pointer_call =
    AbsoluteMove instant u32 u32
  | RelativeMove instant int int
  | ButtonTransition instant mouse_button bool
  | Scroll instant int int
  | UpdateMonitors "monitor_info list"
  | SetAcceleration bool
  | SetAccelerationFactor f64
  | SetSubPixel bool
  | SetHighPrecision bool
  | ResetMouse

datatype pointer_reply =
    Moved "(input_error, mouse_event) result"
  | Button mouse_button bool "mouse_event option"
  | Scrolled mouse_event
  | Updated "(input_error, unit) result"
  | MouseForgotten
  | Configured

type_synonym pointer = "mouse_handler \<times> coordinate_transformer"

fun pointer_step :: "pointer_call \<Rightarrow> pointer \<Rightarrow> pointer_reply \<times> pointer" where
  "pointer_step (AbsoluteMove now x y) (h, t) = (let (r, h', t') = handle_absolute_move now x y h t in (Moved r, h', t'))"
| "pointer_step (RelativeMove now x y) (h, t) = (let (r, h', t') = handle_relative_move now x y h t in (Moved r, h', t'))"
| "pointer_step (ButtonTransition now b pressed) (h, t) =
     (let (accepted, h1) = accept_button_transition now b pressed h in
      if accepted
      then let (ev, h2) = (if pressed then handle_button_down now b h1 else handle_button_up now b h1)
           in (Button b pressed (Some ev), h2, t)
      else (Button b pressed None, h1, t))"
| "pointer_step (Scroll now x y) (h, t) = (let (ev, h') = handle_scroll now x y h in (Scrolled ev, h', t))"
| "pointer_step (UpdateMonitors ms) (h, t) = (let (r, t') = update_monitors ms t in (Updated r, h, t'))"
| "pointer_step (SetAcceleration b) (h, t) = (Configured, h, set_acceleration_enabled b t)"
| "pointer_step (SetAccelerationFactor a) (h, t) = (Configured, h, set_acceleration_factor a t)"
| "pointer_step (SetSubPixel b) (h, t) = (Configured, h, set_sub_pixel_enabled b t)"
| "pointer_step (SetHighPrecision b) (h, t) = (Configured, set_high_precision_scroll b h, t)"
| "pointer_step ResetMouse (h, t) = (MouseForgotten, mouse_reset h, t)"

fun button_transitions :: "pointer_reply \<Rightarrow> mouse_button transition list" where
  "button_transitions (Button b pressed (Some _)) = [if pressed then Press b else Release b]"
| "button_transitions MouseForgotten = [Forget]"
| "button_transitions _ = []"

definition held_buttons :: "pointer \<Rightarrow> mouse_button set" where
  "held_buttons p = {b. is_button_pressed (fst p) b}"

definition on_stream :: "coordinate_system \<Rightarrow> f64 \<Rightarrow> f64 \<Rightarrow> bool" where
  "on_stream c x y \<longleftrightarrow> (\<exists>a b. x = Fin a \<and> y = Fin b \<and> 0 \<le> a \<and> a \<le> of_int (uint (cs_stream_width c)) - 1 \<and>
     0 \<le> b \<and> b \<le> of_int (uint (cs_stream_height c)) - 1)"

definition transformer_ok :: "coordinate_transformer \<Rightarrow> bool" where
  "transformer_ok t \<longleftrightarrow> validate_monitors (monitors t) = Ok () \<and> coord_system t = calculate_coordinate_system (monitors t)"

definition pointer_ok :: "pointer \<Rightarrow> bool" where
  "pointer_ok p \<longleftrightarrow> transformer_ok (snd p) \<and> length (button_states (fst p)) = 5 \<and> length (last_button_release (fst p)) = 5"

section \<open>Geometry of the monitors\<close>

lemma validate_each_ok: "validate_each ms = Ok () \<longleftrightarrow> (\<forall>m\<in>set ms. validate_monitor m = Ok ())"
  by (induction ms) (auto simp: rbind_def split: sum.splits)

lemma validate_monitors_ok: "validate_monitors ms = Ok () \<longleftrightarrow> ms \<noteq> [] \<and> (\<forall>m\<in>set ms. validate_monitor m = Ok ())"
  by (auto simp: validate_monitors_def validate_each_ok)

lemma validate_monitor_ok:
  assumes "validate_monitor m = Ok ()"
  shows "mon_width m \<noteq> 0" "mon_height m \<noteq> 0" "mon_stream_width m \<noteq> 0" "mon_stream_height m \<noteq> 0"
    "mon_x m + uint (mon_width m) \<le> i32_max" "mon_y m + uint (mon_height m) \<le> i32_max"
    "uint (mon_stream_x m) + uint (mon_stream_width m) < 2 ^ 32" "uint (mon_stream_y m) + uint (mon_stream_height m) < 2 ^ 32"
  using assms by (auto simp: validate_monitor_def split: if_splits)

lemma fold_extend_bounds:
  "fold extend_bounds ms (a, b, c, d) =
     (fold min (map mon_x ms) a, fold min (map mon_y ms) b,
      fold max (map (\<lambda>m. as_i32 (mon_x m + uint (mon_width m))) ms) c,
      fold max (map (\<lambda>m. as_i32 (mon_y m + uint (mon_height m))) ms) d)"
  by (induction ms arbitrary: a b c d) (auto simp: extend_bounds_def ac_simps)

lemma as_i32_id: "- (2 ^ 31) \<le> n \<Longrightarrow> n < 2 ^ 31 \<Longrightarrow> as_i32 n = n"
  by (simp add: as_i32_def)

lemma fold_min_Min: "xs \<noteq> [] \<Longrightarrow> \<forall>x\<in>set xs. x \<le> a \<Longrightarrow> fold min xs a = Min (set xs)" for a :: "'a :: linorder"
  by (metis List.finite_set Min.insert Min.set_eq_fold Min_in list.set(2) min_absorb2 set_empty)

lemma fold_max_Max: "xs \<noteq> [] \<Longrightarrow> \<forall>x\<in>set xs. a \<le> x \<Longrightarrow> fold max xs a = Max (set xs)" for a :: "'a :: linorder"
  by (metis List.finite_set Max.insert Max.set_eq_fold Max_in list.set(2) max_absorb2 set_empty)

lemma uint_Max: "finite A \<Longrightarrow> A \<noteq> {} \<Longrightarrow> uint (Max A) = Max (uint ` A)"
  by (rule mono_Max_commute) (auto simp: mono_def word_le_def)

definition span :: "('a \<Rightarrow> int) \<Rightarrow> ('a \<Rightarrow> u32) \<Rightarrow> 'a list \<Rightarrow> int" where
  "span start extent ms = Max ((\<lambda>m. start m + uint (extent m)) ` set ms)"

lemma axis_exact:
  assumes "ms \<noteq> []" "\<And>m. m \<in> set ms \<Longrightarrow> - (2 ^ 31) \<le> start m \<and> start m + uint (extent m) \<le> i32_max"
  shows "fold min (map start ms) i32_max = Min (start ` set ms)"
    and "fold max (map (\<lambda>m. as_i32 (start m + uint (extent m))) ms) i32_min = span start extent ms"
    and "uint (word_of_int (span start extent ms - Min (start ` set ms)) :: u32) = span start extent ms - Min (start ` set ms)"
proof -
  have r: "- (2 ^ 31) \<le> start m" "start m \<le> i32_max" "start m + uint (extent m) \<le> i32_max" "- (2 ^ 31) \<le> start m + uint (extent m)"
    "start m + uint (extent m) < 2 ^ 31" if "m \<in> set ms" for m
    using assms(2)[OF that] uint_ge_0[of "extent m"] unfolding i32_max_def by (simp, linarith, simp, linarith, simp)
  show 1: "fold min (map start ms) i32_max = Min (start ` set ms)"
    using assms(1) r(2) by (subst fold_min_Min) auto
  have e: "map (\<lambda>m. as_i32 (start m + uint (extent m))) ms = map (\<lambda>m. start m + uint (extent m)) ms"
    using r by (simp add: as_i32_id)
  show "fold max (map (\<lambda>m. as_i32 (start m + uint (extent m))) ms) i32_min = span start extent ms"
    unfolding e span_def using assms(1) r(4) by (subst fold_max_Max) (auto simp: i32_min_def)
  obtain m where m: "m \<in> set ms" using assms(1) by (cases ms) auto
  have "span start extent ms \<le> i32_max" unfolding span_def using m r(3) by (subst Max_le_iff) auto
  moreover have "- (2 ^ 31) \<le> Min (start ` set ms)" using m r(1) by (subst Min_ge_iff) auto
  moreover have "Min (start ` set ms) \<le> start m" using m by simp
  moreover have "start m + uint (extent m) \<le> span start extent ms" unfolding span_def using m by simp
  ultimately have "0 \<le> span start extent ms - Min (start ` set ms)" "span start extent ms - Min (start ` set ms) < 2 ^ 32"
    using uint_ge_0[of "extent m"] unfolding i32_max_def by (linarith, simp)
  then show "uint (word_of_int (span start extent ms - Min (start ` set ms)) :: u32) = span start extent ms - Min (start ` set ms)"
    using word_of_int_inverse[OF refl, of "span start extent ms - Min (start ` set ms)", where ?'a = 32] by simp
qed

lemma stream_axis_exact:
  assumes "ms \<noteq> []" "\<And>m. m \<in> set ms \<Longrightarrow> uint (start m) + uint (extent m) < 2 ^ 32"
  shows "uint (fold max (map (\<lambda>m. start m + extent m :: u32) ms) 0) = span (\<lambda>m. uint (start m)) extent ms"
proof -
  have "uint (start m + extent m) = uint (start m) + uint (extent m)" if "m \<in> set ms" for m
    using assms(2)[OF that] by (simp add: uint_word_ariths(1))
  then have "uint ` ((\<lambda>m. start m + extent m) ` set ms) = (\<lambda>m. uint (start m) + uint (extent m)) ` set ms"
    by (force simp: image_image)
  moreover have "fold max (map (\<lambda>m. start m + extent m) ms) 0 = Max ((\<lambda>m. start m + extent m) ` set ms)"
    using assms(1) by (subst fold_max_Max) auto
  ultimately show ?thesis using assms(1) by (simp add: uint_Max span_def)
qed

lemma stream_extents:
  assumes "validate_monitors ms = Ok ()"
  shows "uint (cs_stream_width (calculate_coordinate_system ms)) = span (\<lambda>m. uint (mon_stream_x m)) mon_stream_width ms"
    and "uint (cs_stream_height (calculate_coordinate_system ms)) = span (\<lambda>m. uint (mon_stream_y m)) mon_stream_height ms"
  using assms validate_monitor_ok(7,8)
  by (auto simp: calculate_coordinate_system_def fold_extend_bounds Let_def validate_monitors_ok intro!: stream_axis_exact)

lemma stream_extents_positive:
  assumes "validate_monitors ms = Ok ()"
  shows "1 \<le> uint (cs_stream_width (calculate_coordinate_system ms))" "1 \<le> uint (cs_stream_height (calculate_coordinate_system ms))"
proof -
  obtain m where m: "m \<in> set ms" using assms by (cases ms) (auto simp: validate_monitors_ok)
  then have ok: "mon_stream_width m \<noteq> 0" "mon_stream_height m \<noteq> 0" using assms validate_monitor_ok(3,4) by (auto simp: validate_monitors_ok)
  have pos: "1 \<le> uint w" if "w \<noteq> 0" for w :: u32
    using that uint_ge_0[of w] by (metis int_one_le_iff_zero_less order_neq_le_trans uint_0_iff)
  have "uint (mon_stream_x m) + uint (mon_stream_width m) \<le> span (\<lambda>m. uint (mon_stream_x m)) mon_stream_width ms"
    "uint (mon_stream_y m) + uint (mon_stream_height m) \<le> span (\<lambda>m. uint (mon_stream_y m)) mon_stream_height ms"
    using m by (auto simp: span_def)
  with pos[OF ok(1)] pos[OF ok(2)] uint_ge_0[of "mon_stream_x m"] uint_ge_0[of "mon_stream_y m"]
  show "1 \<le> uint (cs_stream_width (calculate_coordinate_system ms))" "1 \<le> uint (cs_stream_height (calculate_coordinate_system ms))"
    unfolding stream_extents[OF assms] by linarith+
qed


section \<open>The clamp\<close>

lemma clamp_axis:
  assumes "1 \<le> uint (w :: u32)"
  shows "\<exists>a. fmin (fmax x (Fin 0)) (fsub (f64_u32 w) (Fin 1)) = Fin a \<and> 0 \<le> a \<and> a \<le> of_int (uint w) - 1"
proof -
  have w: "uint w < 2 ^ 32" using uint_lt2p[of w] by simp
  then have "f64_u32 w = Fin (of_int (uint w))" using assms by (intro f64_int_exact) auto
  moreover have "f64_make (of_int (uint w - 1)) = Fin (of_int (uint w - 1))"
    using f64_int_exact[of "uint w - 1"] assms w by (simp add: f64_int_def)
  ultimately have e: "fsub (f64_u32 w) (Fin 1) = Fin (of_int (uint w) - 1)" by (simp add: fsub_def)
  have "0 \<le> (of_int (uint w) - 1 :: rat)" using assms by (metis diff_ge_0_iff_ge of_int_1 of_int_le_iff)
  then show ?thesis unfolding e by (cases x) (auto simp: fmin_def fmax_def)
qed

lemma clamp_on_stream:
  assumes "transformer_ok t" "clamp_to_bounds t x y = (x', y')"
  shows "on_stream (coord_system t) x' y'"
proof -
  have "1 \<le> uint (cs_stream_width (coord_system t))" "1 \<le> uint (cs_stream_height (coord_system t))"
    using assms(1) stream_extents_positive by (auto simp: transformer_ok_def)
  from clamp_axis[OF this(1), of x] clamp_axis[OF this(2), of y] assms(2) show ?thesis
    by (auto simp: on_stream_def clamp_to_bounds_def)
qed

lemma rdp_to_stream_keeps:
  "monitors (snd (rdp_to_stream x y t)) = monitors t" "coord_system (snd (rdp_to_stream x y t)) = coord_system t"
  by (simp_all add: rdp_to_stream_def Let_def split_beta split: sum.split)

lemma rdp_to_stream_ok:
  assumes "transformer_ok t" shows "transformer_ok (snd (rdp_to_stream x y t)) \<and> is_ok (fst (rdp_to_stream x y t))"
proof -
  have "monitors t \<noteq> []" using assms by (simp add: transformer_ok_def validate_monitors_ok)
  then have "\<exists>m. find_monitor_at_point u a b = Ok m" if "monitors u = monitors t" for u a b
    using that by (auto simp: find_monitor_at_point_def split: option.splits list.splits)
  then have "find_monitor_at_point u a b = Inl e \<Longrightarrow> monitors u = monitors t \<Longrightarrow> False" for u a b e
    by (metis old.sum.distinct(1))
  note no_error = this[OF _ trans]
  have "is_ok (fst (rdp_to_stream x y t))"
    by (auto simp: rdp_to_stream_def Let_def split_beta split: sum.split dest!: no_error)
  with assms show ?thesis by (simp add: transformer_ok_def rdp_to_stream_keeps)
qed

lemma relative_ok:
  assumes "transformer_ok t"
  shows "transformer_ok (snd (apply_relative_movement x y t)) \<and> is_ok (fst (apply_relative_movement x y t))"
  unfolding apply_relative_movement_def Let_def by (rule rdp_to_stream_ok) (use assms in \<open>simp add: transformer_ok_def\<close>)

lemma finish_move_ok:
  assumes "transformer_ok (snd m)" "is_ok (fst m)" "finish_move now m h = (r, h', t')"
  shows "t' = snd m \<and> (\<exists>x y. r = Ok (MouseMove x y now) \<and> on_stream (coord_system t') x y) \<and>
    button_states h' = button_states h \<and> last_button_release h' = last_button_release h"
proof -
  obtain a b where "fst m = Ok (a, b)" using assms(2) by (cases "fst m") auto
  then have m: "m = (Ok (a, b), snd m)" by (simp add: prod_eq_iff)
  obtain x y where c: "clamp_to_bounds (snd m) a b = (x, y)" by (cases "clamp_to_bounds (snd m) a b")
  have "finish_move now (Ok (a, b), snd m) h =
      (Ok (MouseMove x y now), h\<lparr>current_x := x, current_y := y, last_event_time := Some now\<rparr>, snd m)"
    by (simp add: finish_move_def c)
  with m assms(3) clamp_on_stream[OF assms(1) c] show ?thesis by auto
qed


section \<open>The pointer's steps\<close>

lemma move_step_ok:
  assumes "transformer_ok t" "c = AbsoluteMove now x y \<or> c = RelativeMove now i j" "pointer_step c (h, t) = (b, h', t')"
  shows "transformer_ok t' \<and> (\<exists>x y. b = Moved (Ok (MouseMove x y now)) \<and> on_stream (coord_system t') x y) \<and>
    button_states h' = button_states h \<and> last_button_release h' = last_button_release h"
proof -
  define m where "m = (if c = AbsoluteMove now x y then rdp_to_stream x y t else apply_relative_movement i j t)"
  obtain r where m: "finish_move now m h = (r, h', t')" "b = Moved r" "m = rdp_to_stream x y t \<or> m = apply_relative_movement i j t"
    using assms(2,3) by (auto simp: m_def handle_absolute_move_def handle_relative_move_def split: prod.splits)
  have "transformer_ok (snd m)" "is_ok (fst m)" using m(3) rdp_to_stream_ok[OF assms(1)] relative_ok[OF assms(1)] by blast+
  from finish_move_ok[OF this m(1)] this(1) m(2) show ?thesis by auto
qed

lemma button_to_index_less [simp]: "button_to_index b < 5"
  by (cases b) simp_all

lemma button_to_index_inj [simp]: "button_to_index b = button_to_index c \<longleftrightarrow> b = c"
  by (cases b; cases c) simp_all

lemma button_step_ok:
  assumes "length (button_states h) = 5" "pointer_step (ButtonTransition now b p) (h, t) = (r, h', t')"
  shows "t' = t \<and> length (button_states h') = 5 \<and> length (last_button_release h') = length (last_button_release h) \<and>
    replay (button_transitions r) (held_buttons (h, t)) = Some (held_buttons (h', t'))"
proof (cases "fst (accept_button_transition now b p h)")
  case False
  with assms(2) have "r = Button b p None" "t' = t" "h' = h"
    by (auto simp: accept_button_transition_def Let_def split: if_splits)
  with assms(1) show ?thesis by simp
next
  case True
  then have p: "button_states h ! button_to_index b \<noteq> p"
    by (auto simp: accept_button_transition_def Let_def split: if_splits)
  define h1 where "h1 = snd (accept_button_transition now b p h)"
  have h1: "button_states h1 = (button_states h)[button_to_index b := p]"
    "length (last_button_release h1) = length (last_button_release h)"
    using True by (auto simp: h1_def accept_button_transition_def Let_def split: if_splits)
  have a: "accept_button_transition now b p h = (True, h1)" using True by (simp add: h1_def prod_eq_iff)
  with assms(2) have r: "\<exists>ev. r = Button b p (Some ev)" and h': "button_states h' = button_states h1" "last_button_release h' = last_button_release h1" "t' = t"
    by (auto simp: handle_button_down_def handle_button_up_def split: if_splits)
  have "held_buttons (h', t') = (if p then insert b (held_buttons (h, t)) else held_buttons (h, t) - {b})"
    "b \<in> held_buttons (h, t) \<longleftrightarrow> \<not> p"
    using assms(1) p by (auto simp: held_buttons_def is_button_pressed_def h' h1 nth_list_update)
  then show ?thesis using r h' h1 assms(1) by auto
qed

lemma pointer_step_ok:
  assumes "pointer_step c (h, t) = (r, h', t')" "pointer_ok (h, t)"
  shows "pointer_ok (h', t') \<and> replay (button_transitions r) (held_buttons (h, t)) = Some (held_buttons (h', t'))"
proof -
  have ok: "transformer_ok t" "length (button_states h) = 5" "length (last_button_release h) = 5"
    using assms(2) by (simp_all add: pointer_ok_def)
  have same: "held_buttons (k, u) = held_buttons (h, t)" if "button_states k = button_states h" for k u
    using that by (simp add: held_buttons_def is_button_pressed_def)
  show ?thesis
  proof (cases c)
    case (AbsoluteMove now x y)
    from move_step_ok[OF ok(1) disjI1[OF this] assms(1)] ok(2,3) same[of h' t'] show ?thesis by (auto simp: pointer_ok_def)
  next
    case (RelativeMove now x y)
    from move_step_ok[OF ok(1) disjI2[OF this] assms(1)] ok(2,3) same[of h' t'] show ?thesis by (auto simp: pointer_ok_def)
  next
    case (ButtonTransition now b p)
    from button_step_ok[OF ok(2) assms(1)[unfolded this]] ok(1,3) show ?thesis by (auto simp: pointer_ok_def)
  next
    case (Scroll now x y)
    with assms(1) have "t' = t" "button_states h' = button_states h" "last_button_release h' = last_button_release h" "button_transitions r = []"
      by (auto simp: handle_scroll_def Let_def split: if_splits)
    with assms(2) same[of h' t'] show ?thesis by (simp add: pointer_ok_def)
  next
    case (UpdateMonitors ms)
    with assms(1) have "t' = snd (update_monitors ms t)" "h' = h" "button_transitions r = []" by (auto simp: split_beta)
    with assms(2) same[of h' t'] show ?thesis
      by (auto simp: pointer_ok_def update_monitors_def transformer_ok_def split: sum.splits)
  next
    case ResetMouse
    with assms(1) have "t' = t" "button_states h' = replicate 5 False" "length (last_button_release h') = 5" "r = MouseForgotten"
      by (auto simp: mouse_reset_def)
    moreover from this(2) have "held_buttons (h', t') = {}" by (simp add: held_buttons_def is_button_pressed_def)
    ultimately show ?thesis using ok(1) by (simp add: pointer_ok_def)
  qed (use assms ok same[of h' t'] in \<open>auto simp: pointer_ok_def transformer_ok_def set_acceleration_enabled_def set_acceleration_factor_def
      set_sub_pixel_enabled_def set_high_precision_scroll_def Let_def\<close>)
qed

interpretation buttons: press_release pointer_step held_buttons button_transitions pointer_ok
  by unfold_locales (metis pointer_step_ok surj_pair)


section \<open>Properties\<close>

definition move_in_bounds :: "pointer_call \<Rightarrow> pointer_reply \<Rightarrow> pointer \<Rightarrow> bool" where
  "move_in_bounds c b p \<longleftrightarrow>
     (case c of AbsoluteMove now _ _ \<Rightarrow> True | RelativeMove now _ _ \<Rightarrow> True | _ \<Rightarrow> False) \<longrightarrow>
     (\<exists>x y now. b = Moved (Ok (MouseMove x y now)) \<and> on_stream (coord_system (snd p)) x y)"

text \<open>
  C20.  The pointer stays on the stream.  Let a pointer start from any monitor configuration that the transformer
  accepts.  Then whatever calls arrive, with new monitor configurations, accepted or not, and any acceleration factor in
  between, every absolute or relative move succeeds, and the position it reports is finite and
  within the stream's current extents, even where the arithmetic before the clamp overflows or is undefined.
\<close>

theorem pointer_stays_on_stream:
  assumes "transformer_new ms = Ok t" "run_io pointer_step (cs @ [c]) (mouse_new, t) = (bs @ [b], p)"
  shows "move_in_bounds c b p"
proof -
  have "pointer_ok (mouse_new, t)"
    using assms(1) by (auto simp: transformer_new_def rbind_eq_Inr pointer_ok_def transformer_ok_def mouse_new_def)
  moreover obtain bs1 h u where 1: "run_io pointer_step cs (mouse_new, t) = (bs1, h, u)" by (metis surj_pair)
  ultimately have "transformer_ok u" using buttons.run_legal[OF 1] by (simp add: pointer_ok_def)
  moreover from 1 assms(2) have "pointer_step c (h, u) = (b, fst p, snd p)" by (auto simp: run_io_append split: prod.splits)
  ultimately have "c = AbsoluteMove now x y \<or> c = RelativeMove now i j \<Longrightarrow> move_in_bounds c b p" for now x y i j
    using move_step_ok[of u c now x y i j h b "fst p" "snd p"] by (force simp: move_in_bounds_def)
  then show ?thesis by (cases c) (auto simp: move_in_bounds_def)
qed

definition example_monitor :: monitor_info where
  "example_monitor = \<lparr>mon_id = 1, mon_name = ''Primary'', mon_x = 0, mon_y = 0, mon_width = 1920, mon_height = 1080,
     mon_dpi = Fin 96, mon_scale_factor = Fin 1, mon_stream_x = 0, mon_stream_y = 0, mon_stream_width = 1920,
     mon_stream_height = 1080, mon_is_primary = True\<rparr>"

lemma example_transformer: "\<exists>t. transformer_new [example_monitor] = Ok t"
  by (simp add: transformer_new_def validate_monitors_def validate_monitor_def example_monitor_def is_finite_def i32_max_def)

theorem pointer_stays_on_stream_witness:
  "\<exists>t b p. transformer_new [example_monitor] = Ok t \<and> pointer_step (RelativeMove 0 (- 5) 70000) (mouse_new, t) = (b, p) \<and>
     move_in_bounds (RelativeMove 0 (- 5) 70000) b p"
proof -
  obtain t where t: "transformer_new [example_monitor] = Ok t" using example_transformer by blast
  obtain b p where b: "pointer_step (RelativeMove 0 (- 5) 70000) (mouse_new, t) = (b, p)" by (metis surj_pair)
  then have "run_io pointer_step ([] @ [RelativeMove 0 (- 5) 70000]) (mouse_new, t) = ([] @ [b], p)" by simp
  from pointer_stays_on_stream[OF t this] t b show ?thesis by blast
qed

text \<open>
  The buttons keep the press and release protocol.  Whatever calls a new pointer receives, no button is reported pressed
  while it is down nor released while it is up, so that the duplicate of an event that arrives by the second path has no effect; the
  buttons that the handler holds are those that replaying its reports gives; and a press is refused exactly if the button is down
  or was released less than 8 milliseconds earlier, and nothing then changes.
\<close>

theorem button_protocol:
  assumes "transformer_new ms = Ok t" "run_io pointer_step cs (mouse_new, t) = (bs, h, u)"
  shows "replay (concat (map button_transitions bs)) {} = Some {b. is_button_pressed h b} \<and>
    set (pressed_buttons h) = {b. is_button_pressed h b} \<and>
    (\<forall>now b. let (ok, h') = accept_button_transition now b True h in
       (\<not> ok \<longrightarrow> h' = h) \<and>
       (ok \<longleftrightarrow> \<not> is_button_pressed h b \<and>
         (\<forall>released. last_button_release h ! button_to_index b = Some released \<longrightarrow> \<not> now - released < from_millis 8))) \<and>
    (\<forall>now b. let (ok, h') = accept_button_transition now b False h in ok \<longleftrightarrow> is_button_pressed h b)"
proof -
  have "pointer_ok (mouse_new, t)"
    using assms(1) by (auto simp: transformer_new_def rbind_eq_Inr pointer_ok_def transformer_ok_def mouse_new_def)
  from buttons.run_legal[OF assms(2) this]
  have "replay (concat (map button_transitions bs)) {} = Some {b. is_button_pressed h b}"
  proof -
    have "held_buttons (mouse_new, t) = {}" by (simp add: held_buttons_def is_button_pressed_def mouse_new_def)
    then show ?thesis using buttons.run_legal[OF assms(2) \<open>pointer_ok (mouse_new, t)\<close>] by (simp add: held_buttons_def)
  qed
  moreover have "b \<in> set [LeftButton, RightButton, MiddleButton, Extra1, Extra2]" for b by (cases b) simp_all
  then have "set (pressed_buttons h) = {b. is_button_pressed h b}" unfolding pressed_buttons_def set_filter by blast
  ultimately show ?thesis
    by (auto simp: accept_button_transition_def is_button_pressed_def DUPLICATE_PATH_WINDOW_def Let_def split: if_splits option.splits)
qed

theorem button_protocol_witness:
  "\<exists>t h u. transformer_new [example_monitor] = Ok t \<and>
     snd (run_io pointer_step [ButtonTransition 0 LeftButton True, ButtonTransition 1 LeftButton True, ButtonTransition 2 LeftButton False]
       (mouse_new, t)) = (h, u) \<and> \<not> fst (accept_button_transition 3 LeftButton True h)"
proof -
  obtain t where t: "transformer_new [example_monitor] = Ok t" using example_transformer by blast
  let ?cs = "[ButtonTransition 0 LeftButton True, ButtonTransition 1 LeftButton True, ButtonTransition 2 LeftButton False]"
  obtain bs h u where r: "run_io pointer_step ?cs (mouse_new, t) = (bs, h, u)" by (metis surj_pair)
  then have "last_button_release h ! button_to_index LeftButton = Some 2"
    by (auto simp: accept_button_transition_def mouse_new_def handle_button_down_def handle_button_up_def Let_def numeral_eq_Suc)
  moreover have "(3 :: instant) - 2 < from_millis 8" by simp
  ultimately have "\<not> fst (accept_button_transition 3 LeftButton True h)"
    using button_protocol[OF t r] by (fastforce simp: split_beta)
  with t r show ?thesis by auto
qed

text \<open>
  The desktop is the bounding box of the monitors.  For monitors that pass validation, with positions in the range of their type, no
  sum or cast of the computation wraps: the offset is the least coordinate of a monitor, the client and
  desktop sizes are the distance to the greatest end of a monitor, and the stream's size is the greatest end of a monitor's region in it.
\<close>

theorem desktop_is_bounding_box:
  assumes "validate_monitors ms = Ok ()" "\<forall>m\<in>set ms. monitor_fits m"
  defines "c \<equiv> calculate_coordinate_system ms"
  shows "cs_virtual_x_offset c = Min (mon_x ` set ms) \<and>
    cs_virtual_y_offset c = Min (mon_y ` set ms) \<and>
    uint (cs_virtual_width c) = Max ((\<lambda>m. mon_x m + uint (mon_width m)) ` set ms) - Min (mon_x ` set ms) \<and>
    uint (cs_virtual_height c) = Max ((\<lambda>m. mon_y m + uint (mon_height m)) ` set ms) - Min (mon_y ` set ms) \<and>
    cs_rdp_width c = cs_virtual_width c \<and>
    cs_rdp_height c = cs_virtual_height c \<and>
    uint (cs_stream_width c) = Max ((\<lambda>m. uint (mon_stream_x m) + uint (mon_stream_width m)) ` set ms) \<and>
    uint (cs_stream_height c) = Max ((\<lambda>m. uint (mon_stream_y m) + uint (mon_stream_height m)) ` set ms)"
proof -
  have "ms \<noteq> []" using assms(1) by (simp add: validate_monitors_ok)
  moreover have "- (2 ^ 31) \<le> mon_x m \<and> mon_x m + uint (mon_width m) \<le> i32_max" "- (2 ^ 31) \<le> mon_y m \<and> mon_y m + uint (mon_height m) \<le> i32_max"
    if "m \<in> set ms" for m
    using assms(1,2) that validate_monitor_ok(5,6)[of m] by (auto simp: validate_monitors_ok monitor_fits_def)
  ultimately have x: "fold min (map mon_x ms) i32_max = Min (mon_x ` set ms)"
      "fold max (map (\<lambda>m. as_i32 (mon_x m + uint (mon_width m))) ms) i32_min = span mon_x mon_width ms"
      "uint (word_of_int (span mon_x mon_width ms - Min (mon_x ` set ms)) :: u32) = span mon_x mon_width ms - Min (mon_x ` set ms)"
    and y: "fold min (map mon_y ms) i32_max = Min (mon_y ` set ms)"
      "fold max (map (\<lambda>m. as_i32 (mon_y m + uint (mon_height m))) ms) i32_min = span mon_y mon_height ms"
      "uint (word_of_int (span mon_y mon_height ms - Min (mon_y ` set ms)) :: u32) = span mon_y mon_height ms - Min (mon_y ` set ms)"
    using axis_exact[of ms mon_x mon_width] axis_exact[of ms mon_y mon_height] by blast+
  have "uint (cs_stream_width c) = Max ((\<lambda>m. uint (mon_stream_x m) + uint (mon_stream_width m)) ` set ms)"
    "uint (cs_stream_height c) = Max ((\<lambda>m. uint (mon_stream_y m) + uint (mon_stream_height m)) ` set ms)"
    using stream_extents[OF assms(1)] by (simp_all add: c_def span_def)
  moreover have "cs_virtual_x_offset c = Min (mon_x ` set ms)" "cs_virtual_y_offset c = Min (mon_y ` set ms)"
    "uint (cs_virtual_width c) = Max ((\<lambda>m. mon_x m + uint (mon_width m)) ` set ms) - Min (mon_x ` set ms)"
    "uint (cs_virtual_height c) = Max ((\<lambda>m. mon_y m + uint (mon_height m)) ` set ms) - Min (mon_y ` set ms)"
    "cs_rdp_width c = cs_virtual_width c" "cs_rdp_height c = cs_virtual_height c"
    using x y by (simp_all add: c_def calculate_coordinate_system_def fold_extend_bounds Let_def span_def del: of_int_diff)
  ultimately show ?thesis by blast
qed

theorem desktop_is_bounding_box_witness:
  "uint (cs_virtual_width (calculate_coordinate_system [example_monitor, example_monitor\<lparr>mon_x := - 100\<rparr>])) = 2020"
proof -
  have "validate_monitors [example_monitor, example_monitor\<lparr>mon_x := - 100\<rparr>] = Ok ()"
    by (simp add: validate_monitors_def validate_monitor_def example_monitor_def is_finite_def i32_max_def)
  moreover have "\<forall>m\<in>set [example_monitor, example_monitor\<lparr>mon_x := - 100\<rparr>]. monitor_fits m"
    by (simp add: monitor_fits_def example_monitor_def)
  ultimately show ?thesis using desktop_is_bounding_box by (force simp: example_monitor_def)
qed

text \<open>
  Rounding.  On one monitor of 1920 pixels whose stream has the same size the mapping should be the identity; the client's
  column 123 is mapped to column 122, since \<open>123 / 1920 * 1920\<close> is below 123 in \<open>f64\<close> and is then floored.
\<close>

definition example_system :: coordinate_system where
  "example_system = \<lparr>cs_rdp_width = 1920, cs_rdp_height = 1080, cs_virtual_width = 1920, cs_virtual_height = 1080,
     cs_virtual_x_offset = 0, cs_virtual_y_offset = 0, cs_stream_width = 1920, cs_stream_height = 1080,
     cs_rdp_dpi = Fin 96, cs_system_dpi = Fin 96\<rparr>"

lemma column_123_is_mapped_to_122:
  "\<exists>t. transformer_new [example_monitor] = Ok t \<and> fst (rdp_to_stream 123 0 t) = Ok (Fin 122, Fin 0)"
proof -
  let ?v = "Fin (8655355533852671 / 70368744177664)"
  have "validate_monitors [example_monitor] = Ok ()" "calculate_coordinate_system [example_monitor] = example_system"
    by (simp_all add: validate_monitors_def validate_monitor_def example_monitor_def is_finite_def i32_max_def
        calculate_coordinate_system_def example_system_def extend_bounds_def i32_min_def as_i32_def)
  then obtain t where t: "transformer_new [example_monitor] = Ok t" "coord_system t = example_system" "monitors t = [example_monitor]"
    "sub_pixel_x t = Fin 0" "sub_pixel_y t = Fin 0" "enable_sub_pixel t" by (simp add: transformer_new_def)
  have v: "to_virtual example_system 123 1920 1920 0 = ?v" "to_virtual example_system 0 1080 1080 0 = Fin 0" by code_simp+
  have "contains_point example_monitor ?v (Fin 0)" by code_simp
  then have m: "find_monitor_at_point u ?v (Fin 0) = Ok example_monitor" if "monitors u = [example_monitor]" for u
    using that by (simp add: find_monitor_at_point_def)
  have s: "to_stream ?v 0 1920 0 1920 (Fin 1) = ?v" "to_stream (Fin 0) 0 1080 0 1080 (Fin 1) = Fin 0" by code_simp+
  have a: "accumulate (Fin 0) ?v = (Fin 122, Fin (70368744177663 / 70368744177664))" "accumulate (Fin 0) (Fin 0) = (Fin 0, Fin 0)"
    by code_simp+
  have "fst (rdp_to_stream 123 0 t) = Ok (Fin 122, Fin 0)"
    using t v m s a by (simp add: rdp_to_stream_def example_system_def example_monitor_def Let_def)
  with t(1) show ?thesis by blast
qed

end
