(* ===== verification/Wrdp_Input_Handler.thy ===== *)
theory Wrdp_Input_Handler
  imports Wrdp_Input_Pointer Wrdp_Clipboard_Sanitize "HOL-Library.Sublist"
begin

text \<open>
  The input channel (\<open>src/src/rdp/server/input_handler.rs\<close>): the bounded queue between the synchronous callbacks of the RDP
  server and the worker, the worker's handling of every keyboard and pointer event, the fallback that pastes text through the
  clipboard, and the report of a terminal failure.

  What happens outside (the session handle's injections, the clipboard provider, the display update channel) is a sequence of
  effects, each with its outcome.  The answers come from a \<open>backend\<close>, an argument: \<open>respond n e\<close> is the error, if any, of
  effect \<open>e\<close> when \<open>n\<close> effects went before.  A text is its list of code points.  The event types are those that the
  RDP server library passes, with the variants that the handler matches.
\<close>

section \<open>Unicode input\<close>

record cjk_paste_buffer =
  buf :: "nat list"
  pending_high_surrogate :: "u16 option"

definition cjk_new :: cjk_paste_buffer where
  "cjk_new = \<lparr>buf = [], pending_high_surrogate = None\<rparr>"

definition push_char :: "nat \<Rightarrow> cjk_paste_buffer \<Rightarrow> cjk_paste_buffer" where
  "push_char c b = b\<lparr>buf := buf b @ [c]\<rparr>"

definition is_high :: "u16 \<Rightarrow> bool" where "is_high u \<longleftrightarrow> 0xD800 \<le> u \<and> u \<le> 0xDBFF"
definition is_low :: "u16 \<Rightarrow> bool" where "is_low u \<longleftrightarrow> 0xDC00 \<le> u \<and> u \<le> 0xDFFF"

definition push_surrogate_pair :: "u16 \<Rightarrow> u16 \<Rightarrow> cjk_paste_buffer \<Rightarrow> nat option \<times> cjk_paste_buffer" where
  "push_surrogate_pair high low b =
     (if \<not> is_high high \<or> \<not> is_low low then (None, b\<lparr>pending_high_surrogate := None\<rparr>)
      else case char_from_u32 (0x10000 + unat (high - 0xD800) * 2 ^ 10 + unat (low - 0xDC00)) of
             None \<Rightarrow> (None, b)
           | Some c \<Rightarrow> (Some c, b\<lparr>buf := buf b @ [c], pending_high_surrogate := None\<rparr>))"

definition cjk_is_empty :: "cjk_paste_buffer \<Rightarrow> bool" where
  "cjk_is_empty b \<longleftrightarrow> buf b = [] \<and> pending_high_surrogate b = None"

definition take_text :: "cjk_paste_buffer \<Rightarrow> nat list option \<times> cjk_paste_buffer" where
  "take_text b =
     (let b1 = b\<lparr>pending_high_surrogate := None\<rparr>
      in if buf b1 = [] then (None, b1) else (Some (buf b1), b1\<lparr>buf := []\<rparr>))"

definition unicode_table :: "(u16 \<times> u32 \<times> bool) list" where
  "unicode_table = [
    (0x20, KEY_SPACE, False), (0x09, KEY_TAB, False), (0x0A, KEY_ENTER, False), (0x0D, KEY_ENTER, False), (0x30, KEY_0, False), (0x31, KEY_1, False),
    (0x32, KEY_2, False), (0x33, KEY_3, False), (0x34, KEY_4, False), (0x35, KEY_5, False), (0x36, KEY_6, False), (0x37, KEY_7, False),
    (0x38, KEY_8, False), (0x39, KEY_9, False), (0x61, KEY_A, False), (0x62, KEY_B, False), (0x63, KEY_C, False), (0x64, KEY_D, False),
    (0x65, KEY_E, False), (0x66, KEY_F, False), (0x67, KEY_G, False), (0x68, KEY_H, False), (0x69, KEY_I, False), (0x6A, KEY_J, False),
    (0x6B, KEY_K, False), (0x6C, KEY_L, False), (0x6D, KEY_M, False), (0x6E, KEY_N, False), (0x6F, KEY_O, False), (0x70, KEY_P, False),
    (0x71, KEY_Q, False), (0x72, KEY_R, False), (0x73, KEY_S, False), (0x74, KEY_T, False), (0x75, KEY_U, False), (0x76, KEY_V, False),
    (0x77, KEY_W, False), (0x78, KEY_X, False), (0x79, KEY_Y, False), (0x7A, KEY_Z, False), (0x41, KEY_A, True), (0x42, KEY_B, True),
    (0x43, KEY_C, True), (0x44, KEY_D, True), (0x45, KEY_E, True), (0x46, KEY_F, True), (0x47, KEY_G, True), (0x48, KEY_H, True), (0x49, KEY_I, True),
    (0x4A, KEY_J, True), (0x4B, KEY_K, True), (0x4C, KEY_L, True), (0x4D, KEY_M, True), (0x4E, KEY_N, True), (0x4F, KEY_O, True), (0x50, KEY_P, True),
    (0x51, KEY_Q, True), (0x52, KEY_R, True), (0x53, KEY_S, True), (0x54, KEY_T, True), (0x55, KEY_U, True), (0x56, KEY_V, True), (0x57, KEY_W, True),
    (0x58, KEY_X, True), (0x59, KEY_Y, True), (0x5A, KEY_Z, True), (0x2D, KEY_MINUS, False), (0x3D, KEY_EQUAL, False), (0x5B, KEY_LEFTBRACE, False),
    (0x5D, KEY_RIGHTBRACE, False), (0x5C, KEY_BACKSLASH, False), (0x3B, KEY_SEMICOLON, False), (0x27, KEY_APOSTROPHE, False), (0x60, KEY_GRAVE, False),
    (0x2C, KEY_COMMA, False), (0x2E, KEY_DOT, False), (0x2F, KEY_SLASH, False), (0x21, KEY_1, True), (0x40, KEY_2, True), (0x23, KEY_3, True),
    (0x24, KEY_4, True), (0x25, KEY_5, True), (0x5E, KEY_6, True), (0x26, KEY_7, True), (0x2A, KEY_8, True), (0x28, KEY_9, True), (0x29, KEY_0, True),
    (0x5F, KEY_MINUS, True), (0x2B, KEY_EQUAL, True), (0x7B, KEY_LEFTBRACE, True), (0x7D, KEY_RIGHTBRACE, True), (0x7C, KEY_BACKSLASH, True),
    (0x3A, KEY_SEMICOLON, True), (0x22, KEY_APOSTROPHE, True), (0x7E, KEY_GRAVE, True), (0x3C, KEY_COMMA, True), (0x3E, KEY_DOT, True),
    (0x3F, KEY_SLASH, True)]"

definition unicode_to_evdev :: "u16 \<Rightarrow> (u32 \<times> bool) option" where
  "unicode_to_evdev cp = map_of unicode_table cp"

definition unicode_to_keysym :: "u16 \<Rightarrow> int option" where
  "unicode_to_keysym cp =
     (if 0xD800 \<le> cp \<and> cp \<le> 0xDFFF then None
      else if cp \<le> 0x001F \<or> 0x007F \<le> cp \<and> cp \<le> 0x009F then None
      else if 0x0020 \<le> cp \<and> cp \<le> 0x00FF then Some (uint cp)
      else Some (uint (or 0x01000000 (ucast cp :: u32))))"

section \<open>Events and effects\<close>

datatype iron_keyboard_event =
    Pressed u8 bool | Released u8 bool | UnicodePressed u16 | UnicodeReleased u16 | Synchronize bool bool bool

datatype iron_mouse_event =
    Move u16 u16 | RelMove int int
  | LeftPressed | LeftReleased | RightPressed | RightReleased | MiddlePressed | MiddleReleased
  | Button4Pressed | Button4Released | Button5Pressed | Button5Released
  | VerticalScroll int | ScrollXY int int

datatype input_event = Keyboard iron_keyboard_event | Mouse iron_mouse_event

fun input_event_is_droppable :: "input_event \<Rightarrow> bool" where
  "input_event_is_droppable (Keyboard (Released _ _)) = False"
| "input_event_is_droppable (Keyboard (UnicodeReleased _)) = False"
| "input_event_is_droppable (Keyboard (Synchronize _ _ _)) = False"
| "input_event_is_droppable (Keyboard _) = True"
| "input_event_is_droppable (Mouse e) =
     (e \<notin> {LeftReleased, RightReleased, MiddleReleased, Button4Released, Button5Released})"

datatype queue_pressure_action = Drop | FailConnection

definition queue_pressure_action :: "input_event \<Rightarrow> queue_pressure_action" where
  "queue_pressure_action e = (if input_event_is_droppable e then Drop else FailConnection)"

definition INPUT_FAILURE_THRESHOLD :: nat where "INPUT_FAILURE_THRESHOLD = 32"

definition injection_failures_are_terminal :: "nat \<Rightarrow> bool" where
  "injection_failures_are_terminal consecutive_failures \<longleftrightarrow> consecutive_failures \<ge> INPUT_FAILURE_THRESHOLD"

record rgba_pointer =
  cache_index :: nat
  rp_width :: nat
  rp_height :: nat
  hot_x :: nat
  hot_y :: nat
  rp_data :: "u8 list"

datatype effect =
    Keycode int bool | Keysym int bool | MotionAbsolute u32 f64 f64 | PointerButton int bool | PointerAxis f64 f64
  | ShowPointer rgba_pointer | PointerPosition u16 u16 | WriteText "nat list"

record backend =
  respond :: "nat \<Rightarrow> effect \<Rightarrow> string option"
  read_data :: "nat \<Rightarrow> nat list option"
  has_clipboard_provider :: bool
  has_pointer_update_tx :: bool
  android_updates :: "nat \<Rightarrow> bool"

type_synonym effects = "(effect \<times> bool) list"

definition perform :: "backend \<Rightarrow> effect \<Rightarrow> effects \<Rightarrow> string option \<times> effects" where
  "perform b e l = (let r = respond b (length l) e in (r, l @ [(e, r = None)]))"

text \<open>Effects one after the other, each with \<open>map_err(portal_err)?\<close>.\<close>

fun inject :: "backend \<Rightarrow> effect list \<Rightarrow> effects \<Rightarrow> (input_error, unit) result \<times> effects" where
  "inject b [] l = (Ok (), l)"
| "inject b (e # es) l =
     (case perform b e l of (Some msg, l1) \<Rightarrow> (Err (PortalError msg), l1) | (None, l1) \<Rightarrow> inject b es l1)"

text \<open>Effects whose failure is logged only.\<close>

fun attempt :: "backend \<Rightarrow> effect list \<Rightarrow> effects \<Rightarrow> effects" where
  "attempt b [] l = l"
| "attempt b (e # es) l = attempt b es (snd (perform b e l))"

section \<open>Keyboard events\<close>

record input_worker =
  keyboard :: keyboard_handler
  mouse :: mouse_handler
  transformer :: coordinate_transformer
  cjk_buffer :: cjk_paste_buffer
  pointer_shape_sent :: bool
  effects_log :: effects

definition flush_cjk_buffer :: "backend \<Rightarrow> input_worker \<Rightarrow> input_worker" where
  "flush_cjk_buffer b w =
     (let (text, c) = take_text (cjk_buffer w); w1 = w\<lparr>cjk_buffer := c\<rparr> in
      case text of
        None \<Rightarrow> w1
      | Some text \<Rightarrow>
          if has_clipboard_provider b
          then let saved_clipboard = read_data b (length (effects_log w1));
                   l1 = attempt b [WriteText text, Keycode 29 True, Keycode 47 True, Keycode 47 False, Keycode 29 False]
                          (effects_log w1);
                   l2 = (case saved_clipboard of
                           None \<Rightarrow> l1
                         | Some saved \<Rightarrow> (case from_utf8 saved of None \<Rightarrow> l1 | Some saved_text \<Rightarrow> attempt b [WriteText saved_text] l1))
               in w1\<lparr>effects_log := l2\<rparr>
          else w1)"

definition inject_on :: "backend \<Rightarrow> effect list \<Rightarrow> input_worker \<Rightarrow> (input_error, unit) result \<times> input_worker" where
  "inject_on b es w = (let (r, l) = inject b es (effects_log w) in (r, w\<lparr>effects_log := l\<rparr>))"

abbreviation (input) keycode_i32 :: "u32 \<Rightarrow> int" where "keycode_i32 k \<equiv> as_i32 (uint k)"

definition unicode_press :: "backend \<Rightarrow> bool \<Rightarrow> u16 \<Rightarrow> input_worker \<Rightarrow> (input_error, unit) result \<times> input_worker" where
  "unicode_press b cjk_paste_enabled unicode w =
     (case unicode_to_evdev unicode of
        Some (keycode, needs_shift) \<Rightarrow>
          inject_on b ((if needs_shift then [Keycode 42 True] else []) @ [Keycode (keycode_i32 keycode) True]) w
      | None \<Rightarrow>
          if cjk_paste_enabled
          then if is_high unicode then (Ok (), w\<lparr>cjk_buffer := (cjk_buffer w)\<lparr>pending_high_surrogate := Some unicode\<rparr>\<rparr>)
               else if is_low unicode
               then case pending_high_surrogate (cjk_buffer w) of
                      None \<Rightarrow> (Ok (), w)
                    | Some high \<Rightarrow>
                        let (c, buf1) = push_surrogate_pair high unicode ((cjk_buffer w)\<lparr>pending_high_surrogate := None\<rparr>);
                            w1 = w\<lparr>cjk_buffer := buf1\<rparr>
                        in (Ok (), if c \<noteq> None then flush_cjk_buffer b w1 else w1)
               else case char_from_u32 (unat unicode) of
                      None \<Rightarrow> (Ok (), w)
                    | Some c \<Rightarrow> (Ok (), flush_cjk_buffer b (w\<lparr>cjk_buffer := push_char c (cjk_buffer w)\<rparr>))
          else case unicode_to_keysym unicode of
                 Some keysym \<Rightarrow> inject_on b [Keysym keysym True] w
               | None \<Rightarrow> (Ok (), w))"

definition unicode_release :: "backend \<Rightarrow> u16 \<Rightarrow> input_worker \<Rightarrow> (input_error, unit) result \<times> input_worker" where
  "unicode_release b unicode w =
     (case unicode_to_evdev unicode of
        Some (keycode, needs_shift) \<Rightarrow>
          inject_on b ([Keycode (keycode_i32 keycode) False] @ (if needs_shift then [Keycode 42 False] else [])) w
      | None \<Rightarrow> (case unicode_to_keysym unicode of
                   Some keysym \<Rightarrow> inject_on b [Keysym keysym False] w
                 | None \<Rightarrow> (Ok (), w)))"

fun handle_keyboard_event_impl ::
  "backend \<Rightarrow> bool \<Rightarrow> instant \<Rightarrow> iron_keyboard_event \<Rightarrow> input_worker \<Rightarrow> (input_error, unit) result \<times> input_worker" where
  "handle_keyboard_event_impl b cjk_paste_enabled now (Pressed sc extended) w =
     (let w1 = (if cjk_is_empty (cjk_buffer w) then w else flush_cjk_buffer b w) in
      case handle_key_down now (ucast sc) extended False (keyboard w1) of
        (Inl e, k) \<Rightarrow> (Err e, w1\<lparr>keyboard := k\<rparr>)
      | (Inr (Ignored _), k) \<Rightarrow> (Ok (), w1\<lparr>keyboard := k\<rparr>)
      | (Inr (KeyDown keycode _ _ _), k) \<Rightarrow> inject_on b [Keycode (keycode_i32 keycode) True] (w1\<lparr>keyboard := k\<rparr>)
      | (Inr (KeyRepeat keycode _ _ _), k) \<Rightarrow> inject_on b [Keycode (keycode_i32 keycode) True] (w1\<lparr>keyboard := k\<rparr>)
      | (Inr (KeyUp keycode _ _ _), k) \<Rightarrow> inject_on b [Keycode (keycode_i32 keycode) True] (w1\<lparr>keyboard := k\<rparr>))"
| "handle_keyboard_event_impl b cjk_paste_enabled now (Released sc extended) w =
     (case handle_key_up now (ucast sc) extended False (keyboard w) of
        (Inl e, k) \<Rightarrow> (Err e, w\<lparr>keyboard := k\<rparr>)
      | (Inr (KeyUp keycode _ _ _), k) \<Rightarrow> inject_on b [Keycode (keycode_i32 keycode) False] (w\<lparr>keyboard := k\<rparr>)
      | (Inr (Ignored _), k) \<Rightarrow> (Ok (), w\<lparr>keyboard := k\<rparr>)
      | (Inr _, k) \<Rightarrow> (Err (InvalidKeyEvent ''Unexpected event type''), w\<lparr>keyboard := k\<rparr>))"
| "handle_keyboard_event_impl b cjk_paste_enabled now (UnicodePressed unicode) w = unicode_press b cjk_paste_enabled unicode w"
| "handle_keyboard_event_impl b cjk_paste_enabled now (UnicodeReleased unicode) w = unicode_release b unicode w"
| "handle_keyboard_event_impl b cjk_paste_enabled now (Synchronize caps num scroll) w =
     (let (toggles, k) = synchronize_locks caps num scroll (keyboard w)
      in inject_on b (concat (map (\<lambda>keycode. [Keycode (keycode_i32 keycode) True, Keycode (keycode_i32 keycode) False]) toggles))
           (w\<lparr>keyboard := k\<rparr>))"

section \<open>Pointer events\<close>

definition arrow_points :: "(nat \<times> nat) list" where
  "arrow_points = concat (map (\<lambda>y. map (\<lambda>x. (x, y)) [0..<Suc (min y 14)]) [0..<24])"

definition draw_point :: "nat \<times> nat \<Rightarrow> u8 list \<Rightarrow> u8 list" where
  "draw_point p data =
     (let (x, y) = p;
          border = (x = 0 \<or> x = min y 14 \<or> y = 23);
          src_y = 32 - 1 - y;
          idx = (src_y * 32 + x) * 4;
          v = (if border then 0 else 255)
      in data[idx := v, idx + 1 := v, idx + 2 := v, idx + 3 := 255])"

definition create_android_arrow_cursor :: rgba_pointer where
  "create_android_arrow_cursor =
     \<lparr>cache_index = 0, rp_width = 32, rp_height = 32, hot_x = 4, hot_y = 27,
      rp_data = fold draw_point arrow_points (replicate (32 * 32 * 4) 0)\<rparr>"

definition needs_android_pointer_updates :: "backend \<Rightarrow> input_worker \<Rightarrow> bool" where
  "needs_android_pointer_updates b w = android_updates b (length (effects_log w))"

definition send_android_pointer_shape_once :: "backend \<Rightarrow> input_worker \<Rightarrow> input_worker" where
  "send_android_pointer_shape_once b w =
     (if \<not> needs_android_pointer_updates b w then w
      else if pointer_shape_sent w then w
      else let w1 = w\<lparr>pointer_shape_sent := True\<rparr> in
           if \<not> has_pointer_update_tx b then w1
           else let (err, l) = perform b (ShowPointer create_android_arrow_cursor) (effects_log w1); w2 = w1\<lparr>effects_log := l\<rparr>
                in if err \<noteq> None then w2\<lparr>pointer_shape_sent := False\<rparr> else w2)"

definition send_android_pointer_position_update :: "backend \<Rightarrow> u16 \<Rightarrow> u16 \<Rightarrow> input_worker \<Rightarrow> input_worker" where
  "send_android_pointer_position_update b x y w =
     (if \<not> needs_android_pointer_updates b w \<or> \<not> has_pointer_update_tx b then w
      else w\<lparr>effects_log := attempt b [PointerPosition x y] (effects_log w)\<rparr>)"

text \<open>The two kinds of move after the handler has placed the pointer; \<open>shown\<close> gives the position that the Android client is sent.\<close>

definition finish_pointer_move ::
  "backend \<Rightarrow> u32 \<Rightarrow> (f64 \<Rightarrow> f64 \<Rightarrow> u16 \<times> u16) \<Rightarrow> (input_error, mouse_event) result \<times> mouse_handler \<times> coordinate_transformer \<Rightarrow>
   input_worker \<Rightarrow> (input_error, unit) result \<times> input_worker" where
  "finish_pointer_move b stream_id shown outcome w =
     (case outcome of (r, h, t) \<Rightarrow>
        let w1 = w\<lparr>mouse := h, transformer := t\<rparr> in
        case r of
          Inl e \<Rightarrow> (Err e, w1)
        | Inr (MouseMove stream_x stream_y _) \<Rightarrow>
            let w2 = send_android_pointer_shape_once b w1;
                (x, y) = shown stream_x stream_y;
                w3 = send_android_pointer_position_update b x y w2
            in inject_on b [MotionAbsolute stream_id stream_x stream_y] w3
        | Inr _ \<Rightarrow> (Err (InvalidMouseEvent ''Unexpected event type''), w1))"

definition pointer_u16 :: "f64 \<Rightarrow> u16" where
  "pointer_u16 v = word_of_int (f64_as 0 65535 (fround (fclamp v (Fin 0) (Fin 65535))))"

definition handle_button :: "backend \<Rightarrow> instant \<Rightarrow> mouse_button \<Rightarrow> int \<Rightarrow> bool \<Rightarrow> input_worker \<Rightarrow> (input_error, unit) result \<times> input_worker" where
  "handle_button b now button btn pressed w =
     (let (accepted, h1) = accept_button_transition now button pressed (mouse w) in
      if \<not> accepted then (Ok (), w\<lparr>mouse := h1\<rparr>)
      else let (_, h2) = (if pressed then handle_button_down now button h1 else handle_button_up now button h1)
           in inject_on b [PointerButton btn pressed] (w\<lparr>mouse := h2\<rparr>))"

definition handle_wheel :: "backend \<Rightarrow> instant \<Rightarrow> int \<Rightarrow> int \<Rightarrow> input_worker \<Rightarrow> (input_error, unit) result \<times> input_worker" where
  "handle_wheel b now x y w =
     (let (event, h) = handle_scroll now x y (mouse w); w1 = w\<lparr>mouse := h\<rparr> in
      case event of
        ScrollBy delta_x delta_y _ \<Rightarrow>
          if delta_x \<noteq> 0 \<or> delta_y \<noteq> 0
          then inject_on b [PointerAxis (fmul (f64_int delta_x) (Fin 15)) (fmul (f64_int delta_y) (Fin 15)), PointerAxis (Fin 0) (Fin 0)] w1
          else (Ok (), w1)
      | _ \<Rightarrow> (Ok (), w1))"

fun handle_mouse_event_impl ::
  "backend \<Rightarrow> u32 \<Rightarrow> instant \<Rightarrow> iron_mouse_event \<Rightarrow> input_worker \<Rightarrow> (input_error, unit) result \<times> input_worker" where
  "handle_mouse_event_impl b stream_id now (Move x y) w =
     finish_pointer_move b stream_id (\<lambda>_ _. (x, y)) (handle_absolute_move now (ucast x) (ucast y) (mouse w) (transformer w)) w"
| "handle_mouse_event_impl b stream_id now (RelMove x y) w =
     finish_pointer_move b stream_id (\<lambda>sx sy. (pointer_u16 sx, pointer_u16 sy)) (handle_relative_move now x y (mouse w) (transformer w)) w"
| "handle_mouse_event_impl b stream_id now LeftPressed w = handle_button b now LeftButton 272 True w"
| "handle_mouse_event_impl b stream_id now LeftReleased w = handle_button b now LeftButton 272 False w"
| "handle_mouse_event_impl b stream_id now RightPressed w = handle_button b now RightButton 273 True w"
| "handle_mouse_event_impl b stream_id now RightReleased w = handle_button b now RightButton 273 False w"
| "handle_mouse_event_impl b stream_id now MiddlePressed w = handle_button b now MiddleButton 274 True w"
| "handle_mouse_event_impl b stream_id now MiddleReleased w = handle_button b now MiddleButton 274 False w"
| "handle_mouse_event_impl b stream_id now Button4Pressed w = handle_button b now Extra1 275 True w"
| "handle_mouse_event_impl b stream_id now Button4Released w = handle_button b now Extra1 275 False w"
| "handle_mouse_event_impl b stream_id now Button5Pressed w = handle_button b now Extra2 276 True w"
| "handle_mouse_event_impl b stream_id now Button5Released w = handle_button b now Extra2 276 False w"
| "handle_mouse_event_impl b stream_id now (VerticalScroll v) w = handle_wheel b now 0 v w"
| "handle_mouse_event_impl b stream_id now (ScrollXY x y) w = handle_wheel b now x y w"

section \<open>The queue and the worker\<close>

record stream_info =
  node_id :: u32
  si_width :: u32
  si_height :: u32
  position_x :: int
  position_y :: int

record input_channel =
  worker :: input_worker
  mouse_errors :: nat
  kbd_errors :: nat
  running :: bool
  queue :: "input_event list"
  terminal_overflow :: bool
  overflow_reported :: bool
  health_reporter :: bool
  reports :: "string list"
  topology :: "monitor_info list"
  session_streams :: "stream_info list"
  primary_stream_id :: u32
  cjk_enabled :: bool

definition INPUT_QUEUE_CAPACITY :: nat where "INPUT_QUEUE_CAPACITY = 4096"

definition channel_new :: "string \<Rightarrow> bool \<Rightarrow> u32 \<Rightarrow> stream_info list \<Rightarrow> monitor_info list \<Rightarrow> (input_error, input_channel) result" where
  "channel_new layout cjk stream_id streams ms =
     rbind (transformer_new ms) (\<lambda>t. Ok
       \<lparr>worker = \<lparr>keyboard = keyboard_set_layout (if layout = ''auto'' then ''us'' else layout) keyboard_new, mouse = mouse_new, transformer = t,
                  cjk_buffer = cjk_new, pointer_shape_sent = False, effects_log = []\<rparr>,
        mouse_errors = 0, kbd_errors = 0, running = True, queue = [], terminal_overflow = False, overflow_reported = False,
        health_reporter = False, reports = [], topology = ms, session_streams = streams, primary_stream_id = stream_id,
        cjk_enabled = cjk\<rparr>)"

definition report_input_failed_once :: "string \<Rightarrow> input_channel \<Rightarrow> input_channel" where
  "report_input_failed_once reason c =
     (if \<not> terminal_overflow c \<or> overflow_reported c then c
      else if health_reporter c then c\<lparr>overflow_reported := True, reports := reports c @ [reason]\<rparr> else c)"

definition fail_input_connection :: "string \<Rightarrow> input_channel \<Rightarrow> input_channel" where
  "fail_input_connection reason c = report_input_failed_once reason (c\<lparr>terminal_overflow := True\<rparr>)"

text \<open>The receiver of the queue lives as long as the worker runs.\<close>

definition enqueue_input :: "input_event \<Rightarrow> input_channel \<Rightarrow> input_channel" where
  "enqueue_input event c =
     (if terminal_overflow c then c
      else if \<not> running c then fail_input_connection ''bounded input queue closed while the connection was active'' c
      else if length (queue c) < INPUT_QUEUE_CAPACITY then c\<lparr>queue := queue c @ [event]\<rparr>
      else case queue_pressure_action event of
             Drop \<Rightarrow> c
           | FailConnection \<Rightarrow>
               fail_input_connection ''bounded input queue overflowed before a non-droppable release or synchronize event'' c)"

definition handle_event :: "backend \<Rightarrow> instant \<Rightarrow> input_event \<Rightarrow> input_channel \<Rightarrow> (input_error, unit) result \<times> input_worker" where
  "handle_event b now event c =
     (case event of
        Keyboard e \<Rightarrow> handle_keyboard_event_impl b (cjk_enabled c) now e (worker c)
      | Mouse e \<Rightarrow> handle_mouse_event_impl b (primary_stream_id c) now e (worker c))"

definition count_failure :: "input_event \<Rightarrow> input_channel \<Rightarrow> nat \<times> input_channel" where
  "count_failure event c =
     (case event of
        Mouse _ \<Rightarrow> (mouse_errors c + 1, c\<lparr>mouse_errors := mouse_errors c + 1\<rparr>)
      | Keyboard _ \<Rightarrow> (kbd_errors c + 1, c\<lparr>kbd_errors := kbd_errors c + 1\<rparr>))"

text \<open>
  One round of the worker's loop: an event is received and handled.  When the loop is left, the task ends and drops the receiver, with
  whatever is still queued.
\<close>

definition stop_worker :: "input_channel \<Rightarrow> input_channel" where
  "stop_worker c = c\<lparr>running := False, queue := []\<rparr>"

definition worker_round :: "backend \<Rightarrow> instant \<Rightarrow> input_channel \<Rightarrow> input_channel" where
  "worker_round b now c =
     (if \<not> running c then c
      else case queue c of
        [] \<Rightarrow> c
      | event # rest \<Rightarrow>
          let c1 = c\<lparr>queue := rest\<rparr> in
          if terminal_overflow c1 then stop_worker c1
          else let (result, w) = handle_event b now event c1; c2 = c1\<lparr>worker := w\<rparr> in
               case result of
                 Inr _ \<Rightarrow> c2\<lparr>mouse_errors := 0, kbd_errors := 0\<rparr>
               | Inl _ \<Rightarrow>
                   let (count, c3) = count_failure event c2 in
                   if injection_failures_are_terminal count
                   then stop_worker (report_input_failed_once ''input injection failed on every attempt past the permanent-failure threshold''
                           (c3\<lparr>terminal_overflow := True\<rparr>))
                   else c3)"

definition set_health_reporter :: "input_channel \<Rightarrow> input_channel" where
  "set_health_reporter c =
     report_input_failed_once ''input event queue entered a terminal state before supervision was attached''
       (c\<lparr>health_reporter := True\<rparr>)"

definition channel_update_monitors :: "monitor_info list \<Rightarrow> input_channel \<Rightarrow> (input_error, unit) result \<times> input_channel" where
  "channel_update_monitors ms c =
     (case transformer_new ms of
        Inl e \<Rightarrow> (Err e, c)
      | Inr t \<Rightarrow> (Ok (), c\<lparr>topology := ms, worker := (worker c)\<lparr>transformer := t\<rparr>\<rparr>))"

fun position :: "('a \<Rightarrow> bool) \<Rightarrow> 'a list \<Rightarrow> nat option" where
  "position P [] = None"
| "position P (x # xs) = (if P x then Some 0 else map_option Suc (position P xs))"

definition update_primary_topology ::
  "u32 \<Rightarrow> u32 \<Rightarrow> u32 \<Rightarrow> u32 \<Rightarrow> u32 \<Rightarrow> monitor_info list \<Rightarrow> stream_info list \<Rightarrow>
   (input_error, monitor_info list \<times> stream_info list) result" where
  "update_primary_topology stream_id rdp_width rdp_height stream_width stream_height ms ss =
     rbind (ok_or (InvalidMonitorConfig ''no primary monitor configured'') (position mon_is_primary ms)) (\<lambda>i.
     rbind (ok_or (MonitorNotFound stream_id) (position (\<lambda>s. node_id s = stream_id) ss)) (\<lambda>j.
       Ok (ms[i := (ms ! i)\<lparr>mon_width := rdp_width, mon_height := rdp_height,
                            mon_stream_width := stream_width, mon_stream_height := stream_height\<rparr>],
           ss[j := (ss ! j)\<lparr>si_width := stream_width, si_height := stream_height\<rparr>])))"

definition update_primary_stream_mapping ::
  "u32 \<Rightarrow> u32 \<Rightarrow> u32 \<Rightarrow> u32 \<Rightarrow> input_channel \<Rightarrow> (input_error, unit) result \<times> input_channel" where
  "update_primary_stream_mapping rdp_width rdp_height stream_width stream_height c =
     (case update_primary_topology (primary_stream_id c) (max rdp_width 1) (max rdp_height 1) (max stream_width 1) (max stream_height 1)
             (topology c) (session_streams c) of
        Inl e \<Rightarrow> (Err e, c)
      | Inr (ms, ss) \<Rightarrow>
          (case channel_update_monitors ms c of
             (Inl e, c1) \<Rightarrow> (Err e, c1)
           | (Inr _, c1) \<Rightarrow> (Ok (), c1\<lparr>session_streams := ss\<rparr>)))"

definition update_primary_stream_geometry :: "u32 \<Rightarrow> u32 \<Rightarrow> input_channel \<Rightarrow> (input_error, unit) result \<times> input_channel" where
  "update_primary_stream_geometry width height c = update_primary_stream_mapping width height width height c"

section \<open>Runs of the channel\<close>

text \<open>
  The callbacks, the worker, supervision and the display act on the channel in any order.  A step tells which event was offered
  to the queue and which one the worker handled, with its outcome.
\<close>

datatype channel_call =
    Offer input_event | WorkerRound instant | Shutdown | AttachReporter
  | UpdateTopology "monitor_info list" | UpdateMapping u32 u32 u32 u32

definition round_result :: "backend \<Rightarrow> instant \<Rightarrow> input_channel \<Rightarrow> (input_event \<times> bool) list" where
  "round_result b now c =
     (case queue c of
        [] \<Rightarrow> []
      | event # rest \<Rightarrow>
          if running c \<and> \<not> terminal_overflow c then [(event, is_ok (fst (handle_event b now event (c\<lparr>queue := rest\<rparr>))))] else [])"

fun channel_step :: "backend \<Rightarrow> channel_call \<Rightarrow> input_channel \<Rightarrow> (input_event list \<times> (input_event \<times> bool) list) \<times> input_channel" where
  "channel_step b (Offer e) c = (([e], []), enqueue_input e c)"
| "channel_step b (WorkerRound now) c = (([], round_result b now c), worker_round b now c)"
| "channel_step b Shutdown c = (([], []), stop_worker c)"
| "channel_step b AttachReporter c = (([], []), set_health_reporter c)"
| "channel_step b (UpdateTopology ms) c = (([], []), snd (channel_update_monitors ms c))"
| "channel_step b (UpdateMapping rw rh sw sh) c = (([], []), snd (update_primary_stream_mapping rw rh sw sh c))"

definition offered :: "(input_event list \<times> (input_event \<times> bool) list) list \<Rightarrow> input_event list" where
  "offered rs = concat (map fst rs)"

definition handled :: "(input_event list \<times> (input_event \<times> bool) list) list \<Rightarrow> (input_event \<times> bool) list" where
  "handled rs = concat (map snd rs)"

text \<open>The failures since the last success.\<close>

definition trailing_failures :: "(input_event \<times> bool) list \<Rightarrow> input_event list" where
  "trailing_failures hs = map fst (takeWhile (\<lambda>(_, ok). \<not> ok) (rev hs))"

fun is_mouse :: "input_event \<Rightarrow> bool" where
  "is_mouse (Mouse _) = True" | "is_mouse (Keyboard _) = False"

definition report_ok :: "input_channel \<Rightarrow> bool" where
  "report_ok c \<longleftrightarrow> length (reports c) = of_bool (overflow_reported c) \<and>
     (overflow_reported c \<longleftrightarrow> terminal_overflow c \<and> health_reporter c)"

definition channel_invar :: "input_event list \<Rightarrow> (input_event \<times> bool) list \<Rightarrow> input_channel \<Rightarrow> bool" where
  "channel_invar os hs c \<longleftrightarrow>
     subseq (map fst hs @ queue c) os \<and> length (queue c) \<le> INPUT_QUEUE_CAPACITY \<and>
     (\<not> running c \<longrightarrow> queue c = []) \<and>
     (\<not> terminal_overflow c \<longrightarrow>
        (\<exists>q. (running c \<longrightarrow> q = queue c) \<and> length q \<le> INPUT_QUEUE_CAPACITY \<and>
           filter (\<lambda>e. \<not> input_event_is_droppable e) (map fst hs @ q) = filter (\<lambda>e. \<not> input_event_is_droppable e) os) \<and>
        mouse_errors c = length (filter is_mouse (trailing_failures hs)) \<and>
        kbd_errors c = length (filter (\<lambda>e. \<not> is_mouse e) (trailing_failures hs)) \<and>
        mouse_errors c < 32 \<and> kbd_errors c < 32) \<and>
     report_ok c"

lemma trailing_snoc:
  "trailing_failures (hs @ [(e, ok)]) = (if ok then [] else e # trailing_failures hs)"
  by (simp add: trailing_failures_def)

text \<open>What reporting leaves alone, and that it keeps the report in step with the flags.\<close>

lemma report_fields [simp]:
  "queue (report_input_failed_once r c) = queue c" "running (report_input_failed_once r c) = running c"
  "terminal_overflow (report_input_failed_once r c) = terminal_overflow c" "health_reporter (report_input_failed_once r c) = health_reporter c"
  "mouse_errors (report_input_failed_once r c) = mouse_errors c" "kbd_errors (report_input_failed_once r c) = kbd_errors c"
  by (simp_all add: report_input_failed_once_def)

lemma report_once_ok:
  assumes "length (reports c) = of_bool (overflow_reported c)" "overflow_reported c \<longrightarrow> terminal_overflow c \<and> health_reporter c"
  shows "report_ok (report_input_failed_once r c)"
  using assms by (auto simp: report_input_failed_once_def report_ok_def split: if_splits)

lemma enqueue_invar:
  assumes "channel_invar os hs c" shows "channel_invar (os @ [e]) hs (enqueue_input e c)"
proof -
  have r: "length (reports c) = of_bool (overflow_reported c)" "overflow_reported c \<longrightarrow> terminal_overflow c \<and> health_reporter c"
    using assms by (auto simp: channel_invar_def report_ok_def)
  have s: "subseq (map fst hs @ queue c) (os @ [e])" "subseq (map fst hs @ queue c @ [e]) (os @ [e])"
    using assms subseq_rev_drop_many[of "map fst hs @ queue c" os "[e]"] list_emb_append_mono[of "(=)" "map fst hs @ queue c" os "[e]" "[e]"]
    by (simp_all add: channel_invar_def)
  consider (kept) "terminal_overflow c" | (closed) "\<not> terminal_overflow c" "\<not> running c"
    | (room) "\<not> terminal_overflow c" "running c" "length (queue c) < INPUT_QUEUE_CAPACITY"
    | (full) "\<not> terminal_overflow c" "running c" "\<not> length (queue c) < INPUT_QUEUE_CAPACITY" by blast
  then show ?thesis
  proof cases
    case closed
    have "report_ok (enqueue_input e c)"
      using closed r report_once_ok[of "c\<lparr>terminal_overflow := True\<rparr>"] by (simp add: enqueue_input_def fail_input_connection_def)
    then show ?thesis using assms closed s by (simp add: enqueue_input_def fail_input_connection_def channel_invar_def)
  next
    case room
    then show ?thesis using assms s by (simp add: enqueue_input_def channel_invar_def report_ok_def)
  next
    case full
    show ?thesis
    proof (cases "input_event_is_droppable e")
      case True
      then show ?thesis using full assms s by (simp add: enqueue_input_def channel_invar_def queue_pressure_action_def)
    next
      case False
      have "report_ok (enqueue_input e c)"
        using full False r report_once_ok[of "c\<lparr>terminal_overflow := True\<rparr>"]
        by (simp add: enqueue_input_def fail_input_connection_def queue_pressure_action_def)
      then show ?thesis using assms full False s
        by (simp add: enqueue_input_def fail_input_connection_def channel_invar_def queue_pressure_action_def)
    qed
  qed (use assms s in \<open>simp add: enqueue_input_def channel_invar_def\<close>)
qed


lemma count_failure_simps:
  "fst (count_failure e c) = (if is_mouse e then mouse_errors c else kbd_errors c) + 1"
  "mouse_errors (snd (count_failure e c)) = (if is_mouse e then mouse_errors c + 1 else mouse_errors c)"
  "kbd_errors (snd (count_failure e c)) = (if is_mouse e then kbd_errors c else kbd_errors c + 1)"
  "queue (snd (count_failure e c)) = queue c" "terminal_overflow (snd (count_failure e c)) = terminal_overflow c"
  "reports (snd (count_failure e c)) = reports c" "overflow_reported (snd (count_failure e c)) = overflow_reported c"
  "health_reporter (snd (count_failure e c)) = health_reporter c" "running (snd (count_failure e c)) = running c"
  by (cases e; simp add: count_failure_def)+

text \<open>One round on an open channel: the next event is handled, and the channel fails with the 32nd failure of its kind.\<close>

lemma worker_round_open:
  fixes b :: backend and now :: instant
  assumes "running c" "\<not> terminal_overflow c" "queue c = e # rest"
  defines "ok \<equiv> is_ok (fst (handle_event b now e (c\<lparr>queue := rest\<rparr>)))"
  defines "n \<equiv> (if is_mouse e then mouse_errors c else kbd_errors c)"
  shows "queue (worker_round b now c) = (if terminal_overflow (worker_round b now c) then [] else rest)" "terminal_overflow (worker_round b now c) \<longleftrightarrow> \<not> ok \<and> n + 1 \<ge> 32"
    "mouse_errors (worker_round b now c) = (if ok then 0 else if is_mouse e then mouse_errors c + 1 else mouse_errors c)"
    "kbd_errors (worker_round b now c) = (if ok then 0 else if is_mouse e then kbd_errors c else kbd_errors c + 1)"
    "report_ok c \<Longrightarrow> report_ok (worker_round b now c)"
    "round_result b now c = [(e, ok)]" "running (worker_round b now c) \<longleftrightarrow> \<not> terminal_overflow (worker_round b now c)"
proof -
  obtain r w where h: "handle_event b now e (c\<lparr>queue := rest\<rparr>) = (r, w)" by (metis surj_pair)
  define c2 where "c2 = c\<lparr>queue := rest, worker := w\<rparr>"
  have c2: "queue c2 = rest" "terminal_overflow c2 = terminal_overflow c" "mouse_errors c2 = mouse_errors c" "kbd_errors c2 = kbd_errors c"
    "reports c2 = reports c" "overflow_reported c2 = overflow_reported c" "health_reporter c2 = health_reporter c"
    by (simp_all add: c2_def)
  define c3 where "c3 = snd (count_failure e c2)"
  have w: "worker_round b now c =
    (if ok then c2\<lparr>mouse_errors := 0, kbd_errors := 0\<rparr>
     else if injection_failures_are_terminal (fst (count_failure e c2))
     then stop_worker (report_input_failed_once ''input injection failed on every attempt past the permanent-failure threshold''
             (c3\<lparr>terminal_overflow := True\<rparr>))
     else c3)"
    using assms(1-3) h by (cases r) (simp_all add: worker_round_def ok_def c2_def c3_def split_beta)
  show "round_result b now c = [(e, ok)]" using assms(1-3) by (simp add: round_result_def ok_def)
  have c3: "terminal_overflow c3 = terminal_overflow c" "reports c3 = reports c" "overflow_reported c3 = overflow_reported c"
    "health_reporter c3 = health_reporter c" "queue c3 = rest" "running c3" "running c2"
    using assms(1) by (simp_all add: c3_def count_failure_simps c2 c2_def)
  show "queue (worker_round b now c) = (if terminal_overflow (worker_round b now c) then [] else rest)"
    "running (worker_round b now c) \<longleftrightarrow> \<not> terminal_overflow (worker_round b now c)"
    using assms(2) by (simp_all add: w c2 c3 stop_worker_def)
  show "terminal_overflow (worker_round b now c) \<longleftrightarrow> \<not> ok \<and> n + 1 \<ge> 32"
    using assms(2) by (simp add: w c2 c3 stop_worker_def injection_failures_are_terminal_def INPUT_FAILURE_THRESHOLD_def count_failure_simps n_def)
  show "mouse_errors (worker_round b now c) = (if ok then 0 else if is_mouse e then mouse_errors c + 1 else mouse_errors c)"
    "kbd_errors (worker_round b now c) = (if ok then 0 else if is_mouse e then kbd_errors c else kbd_errors c + 1)"
    by (simp_all add: w c2 c3_def stop_worker_def count_failure_simps)
  assume r: "report_ok c"
  have "report_ok (report_input_failed_once m (c3\<lparr>terminal_overflow := True\<rparr>))" for m
    by (rule report_once_ok) (use r assms(2) c3 in \<open>auto simp: report_ok_def\<close>)
  moreover have "report_ok c2" "report_ok c3" using r c2 c3 by (simp_all add: report_ok_def)
  ultimately show "report_ok (worker_round b now c)" by (simp add: w report_ok_def stop_worker_def)
qed

text \<open>Stopping the worker: what was queued is given up, and nothing else.\<close>

lemma stop_invar:
  assumes "channel_invar os hs c" shows "channel_invar os hs (stop_worker c)"
proof -
  have "subseq (map fst hs) (map fst hs @ queue c)" by (rule subseq_rev_drop_many[OF subseq_order.refl])
  with assms show ?thesis
    unfolding channel_invar_def stop_worker_def report_ok_def by (auto intro: subseq_order.order_trans)
qed

lemma round_invar:
  assumes "channel_invar os hs c" shows "channel_invar os (hs @ round_result b now c) (worker_round b now c)"
proof -
  have i: "subseq (map fst hs @ queue c) os" "length (queue c) \<le> INPUT_QUEUE_CAPACITY" "report_ok c"
    using assms by (simp_all add: channel_invar_def)
  consider (live) e rest where "running c" "\<not> terminal_overflow c" "queue c = e # rest"
    | (stop) e rest where "running c" "terminal_overflow c" "queue c = e # rest"
    | (idle) "\<not> running c \<or> queue c = []" by (cases "queue c") auto
  then show ?thesis
  proof cases
    case live
    note w = worker_round_open[OF live, of b now]
    have "subseq (map fst hs @ [e]) os"
      using i(1) live(3) subseq_rev_drop_many[of "map fst hs @ [e]" "map fst hs @ [e]" rest] subseq_order.order_trans by fastforce
    with assms i live w show ?thesis by (auto simp: channel_invar_def trailing_snoc split: if_splits)
  next
    case stop
    then have "worker_round b now c = stop_worker c" "round_result b now c = []"
      by (simp_all add: worker_round_def round_result_def stop_worker_def)
    with stop_invar[OF assms] show ?thesis by simp
  next
    case idle
    then have "worker_round b now c = c" "round_result b now c = []"
      by (auto simp: worker_round_def round_result_def split: list.splits)
    with assms show ?thesis by simp
  qed
qed

lemma mapping_fields:
  "queue (snd (update_primary_stream_mapping rw rh sw sh c)) = queue c" "terminal_overflow (snd (update_primary_stream_mapping rw rh sw sh c)) = terminal_overflow c"
  "mouse_errors (snd (update_primary_stream_mapping rw rh sw sh c)) = mouse_errors c" "kbd_errors (snd (update_primary_stream_mapping rw rh sw sh c)) = kbd_errors c"
  "report_ok (snd (update_primary_stream_mapping rw rh sw sh c)) = report_ok c"
  "queue (snd (channel_update_monitors ms c)) = queue c" "terminal_overflow (snd (channel_update_monitors ms c)) = terminal_overflow c"
  "mouse_errors (snd (channel_update_monitors ms c)) = mouse_errors c" "kbd_errors (snd (channel_update_monitors ms c)) = kbd_errors c"
  "report_ok (snd (channel_update_monitors ms c)) = report_ok c" "running (snd (channel_update_monitors ms c)) = running c"
  "running (snd (update_primary_stream_mapping rw rh sw sh c)) = running c"
  by (simp_all add: update_primary_stream_mapping_def channel_update_monitors_def report_ok_def split: sum.split prod.split)

lemma channel_step_invar:
  assumes "channel_step b x c = ((o1, h1), c')" "channel_invar os hs c"
  shows "channel_invar (os @ o1) (hs @ h1) c'"
proof (cases x)
  case AttachReporter
  have "report_ok (set_health_reporter c)"
    unfolding set_health_reporter_def by (rule report_once_ok) (use assms(2) in \<open>auto simp: channel_invar_def report_ok_def\<close>)
  moreover from AttachReporter assms(1) have "o1 = []" "h1 = []" "c' = set_health_reporter c" by simp_all
  ultimately show ?thesis using assms(2)
    by (cases "terminal_overflow c") (simp_all add: channel_invar_def set_health_reporter_def)
next
  case (Offer e)
  with assms(1) have "o1 = [e]" "h1 = []" "c' = enqueue_input e c" by simp_all
  with enqueue_invar[OF assms(2), of e] show ?thesis by simp
next
  case (WorkerRound now)
  with assms(1) have "o1 = []" "h1 = round_result b now c" "c' = worker_round b now c" by simp_all
  with round_invar[OF assms(2), of b now] show ?thesis by simp
next
  case Shutdown
  with assms(1) have "o1 = []" "h1 = []" "c' = stop_worker c" by simp_all
  with stop_invar[OF assms(2)] show ?thesis by simp
next
  case (UpdateTopology ms)
  with assms(1) have "o1 = []" "h1 = []" "c' = snd (channel_update_monitors ms c)" by simp_all
  with assms(2) show ?thesis by (cases "terminal_overflow c") (simp_all add: channel_invar_def mapping_fields)
next
  case (UpdateMapping rw rh sw sh)
  with assms(1) have "o1 = []" "h1 = []" "c' = snd (update_primary_stream_mapping rw rh sw sh c)" by simp_all
  with assms(2) show ?thesis by (cases "terminal_overflow c") (simp_all add: channel_invar_def mapping_fields)
qed

lemma run_invar:
  assumes "run_io (channel_step b) xs c = (rs, c')" "channel_invar os hs c"
  shows "channel_invar (os @ offered rs) (hs @ handled rs) c'"
  using assms
proof (induction xs arbitrary: c rs os hs)
  case (Cons x xs)
  obtain o1 h1 c1 where 1: "channel_step b x c = ((o1, h1), c1)" by (metis surj_pair)
  obtain rs2 where 2: "run_io (channel_step b) xs c1 = (rs2, c')" "rs = (o1, h1) # rs2"
    using Cons.prems(1) 1 by (auto split: prod.splits)
  from Cons.IH[OF 2(1) channel_step_invar[OF 1 Cons.prems(2)]] 2(2) show ?case by (simp add: offered_def handled_def)
qed (simp add: offered_def handled_def)

lemma new_invar: "channel_new layout cjk sid ss ms = Ok c \<Longrightarrow> channel_invar [] [] c"
  by (auto simp: channel_new_def rbind_eq_Inr channel_invar_def report_ok_def trailing_failures_def)

section \<open>Properties of the channel\<close>

fun is_release_or_sync :: "input_event \<Rightarrow> bool" where
  "is_release_or_sync (Keyboard e) = (case e of Released _ _ \<Rightarrow> True | UnicodeReleased _ \<Rightarrow> True | Synchronize _ _ _ \<Rightarrow> True | _ \<Rightarrow> False)"
| "is_release_or_sync (Mouse e) = (case e of LeftReleased \<Rightarrow> True | RightReleased \<Rightarrow> True | MiddleReleased \<Rightarrow> True
     | Button4Released \<Rightarrow> True | Button5Released \<Rightarrow> True | _ \<Rightarrow> False)"

lemma undroppable_is_release: "\<not> input_event_is_droppable e \<longleftrightarrow> is_release_or_sync e"
proof (cases e)
  case (Keyboard k)
  then show ?thesis by (cases k) simp_all
next
  case (Mouse m)
  then show ?thesis by (cases m) simp_all
qed

text \<open>Only a shutdown stops the worker of a channel that is not terminal.\<close>

lemma step_keeps_running:
  assumes "channel_step b x c = (r, c')" "x \<noteq> Shutdown" "running c \<or> terminal_overflow c"
  shows "running c' \<or> terminal_overflow c'"
proof (cases x)
  case (WorkerRound now)
  with assms(1) have c': "c' = worker_round b now c" by simp
  show ?thesis
  proof (cases "running c \<and> \<not> terminal_overflow c \<and> queue c \<noteq> []")
    case True
    then obtain e rest where q: "running c" "\<not> terminal_overflow c" "queue c = e # rest" by (cases "queue c") auto
    from worker_round_open(7)[OF q] c' show ?thesis by simp
  next
    case False
    with c' assms(3) show ?thesis by (auto simp: worker_round_def stop_worker_def split: list.split)
  qed
next
  case (Offer e)
  with assms(1) have "c' = enqueue_input e c" by simp
  moreover have "running (enqueue_input e c) = running c" "terminal_overflow c \<Longrightarrow> terminal_overflow (enqueue_input e c)"
    by (simp_all add: enqueue_input_def fail_input_connection_def split: queue_pressure_action.split)
  ultimately show ?thesis using assms(3) by auto
qed (use assms in \<open>auto simp: set_health_reporter_def mapping_fields\<close>)

lemma stops_only_on_shutdown:
  assumes "run_io (channel_step b) xs c = (rs, c')" "Shutdown \<notin> set xs" "running c \<or> terminal_overflow c"
  shows "running c' \<or> terminal_overflow c'"
  using assms
proof (induction xs arbitrary: c rs)
  case (Cons x xs)
  obtain r c1 where 1: "channel_step b x c = (r, c1)" by (metis surj_pair)
  obtain rs2 where 2: "run_io (channel_step b) xs c1 = (rs2, c')" using Cons.prems(1) 1 by (auto split: prod.splits)
  from Cons.IH[OF 2] step_keeps_running[OF 1] Cons.prems show ?case by auto
qed simp

text \<open>
  C21.  No release and no synchronisation is lost silently while the worker runs.  In every run of a channel, whatever the order of callbacks,
  rounds of the worker, reconfigurations and shutdown: the events handled and then those queued are offered events in the order of offering; at most
  4096 are queued; and as long as the channel is not in its terminal state and the worker runs, every key, character and button release and every lock
  synchronisation that was offered is among them.  If the worker has stopped without a failure, then because of a shutdown, and the releases and
  synchronisations that are lost are the last ones that were offered: they were still queued then, at most 4096.
  Once the channel is terminal and supervision attached, exactly one failure has been reported, and none before.
\<close>

theorem releases_never_lost:
  assumes "channel_new layout cjk sid ss ms = Ok c" "run_io (channel_step b) xs c = (rs, c')"
  shows "subseq (map fst (handled rs) @ queue c') (offered rs) \<and> length (queue c') \<le> 4096 \<and>
    (\<not> terminal_overflow c' \<and> running c' \<longrightarrow>
      filter is_release_or_sync (map fst (handled rs) @ queue c') =
      filter is_release_or_sync (offered rs)) \<and>
    (\<not> terminal_overflow c' \<and> \<not> running c' \<longrightarrow> Shutdown \<in> set xs \<and>
      (\<exists>lost. length lost \<le> 4096 \<and> filter is_release_or_sync (map fst (handled rs) @ lost) = filter is_release_or_sync (offered rs))) \<and>
    length (reports c') = (if terminal_overflow c' \<and> health_reporter c' then 1 else 0)"
proof -
  have "running c" using assms(1) by (auto simp: channel_new_def rbind_eq_Inr)
  with stops_only_on_shutdown[OF assms(2)] have s: "\<not> terminal_overflow c' \<and> \<not> running c' \<longrightarrow> Shutdown \<in> set xs" by blast
  have i: "channel_invar (offered rs) (handled rs) c'" using run_invar[OF assms(2) new_invar[OF assms(1)]] by simp
  have f: "(\<lambda>e. \<not> input_event_is_droppable e) = is_release_or_sync" using undroppable_is_release by blast
  from i s show ?thesis unfolding channel_invar_def report_ok_def INPUT_QUEUE_CAPACITY_def f by auto
qed

lemma example_channel: "\<exists>c. channel_new ''us'' True 7 [] [example_monitor] = Ok c"
  using example_transformer by (auto simp: channel_new_def)

definition willing :: backend where
  "willing = \<lparr>respond = \<lambda>_ _. None, read_data = \<lambda>_. None, has_clipboard_provider = True, has_pointer_update_tx = False,
     android_updates = \<lambda>_. False\<rparr>"

definition broken :: backend where
  "broken = willing\<lparr>respond := \<lambda>_ _. Some ''portal closed''\<rparr>"

theorem releases_never_lost_witness:
  "\<exists>c. channel_new ''us'' True 7 [] [example_monitor] = Ok c \<and>
     queue (snd (run_io (channel_step willing) [Offer (Mouse LeftReleased)] c)) = [Mouse LeftReleased]"
proof -
  obtain c where c: "channel_new ''us'' True 7 [] [example_monitor] = Ok c" using example_channel by blast
  obtain rs c' where r: "run_io (channel_step willing) [Offer (Mouse LeftReleased)] c = (rs, c')" by (metis surj_pair)
  have "\<not> terminal_overflow c" "running c" "queue c = []" using c by (auto simp: channel_new_def rbind_eq_Inr)
  then have "\<not> terminal_overflow c'" "running c'" "handled rs = []" "offered rs = [Mouse LeftReleased]"
    using r by (auto simp: enqueue_input_def INPUT_QUEUE_CAPACITY_def handled_def offered_def)
  with releases_never_lost[OF c r] have "filter is_release_or_sync (queue c') = [Mouse LeftReleased]"
    "subseq (queue c') [Mouse LeftReleased]" by simp_all
  then have "queue c' = [Mouse LeftReleased]" by (cases "queue c'") (auto split: if_splits dest: list_emb_length)
  with c r show ?thesis by auto
qed

text \<open>
  When the worker gives up.  After any run of a channel that is still open, the next event that the worker handles makes the
  channel terminal exactly if it fails and 31 events of its kind, keyboard or pointer, have failed since the last event that succeeded.
\<close>

theorem worker_gives_up_exactly:
  assumes "channel_new layout cjk sid ss ms = Ok c" "run_io (channel_step b) xs c = (rs, c1)"
    and "running c1" "\<not> terminal_overflow c1" "queue c1 = e # rest"
  defines "same_kind \<equiv> filter (\<lambda>f. is_mouse f = is_mouse e) (trailing_failures (handled rs))"
  shows "length same_kind \<le> 31 \<and>
    (terminal_overflow (worker_round b now c1) \<longleftrightarrow>
       \<not> is_ok (fst (handle_event b now e (c1\<lparr>queue := rest\<rparr>))) \<and> length same_kind = 31)"
proof -
  have "mouse_errors c1 = length (filter is_mouse (trailing_failures (handled rs)))"
    "kbd_errors c1 = length (filter (\<lambda>e. \<not> is_mouse e) (trailing_failures (handled rs)))" "mouse_errors c1 < 32" "kbd_errors c1 < 32"
    using run_invar[OF assms(2) new_invar[OF assms(1)]] assms(4) by (simp_all add: channel_invar_def)
  then show ?thesis using worker_round_open(2)[OF assms(3-5), of b now] by (cases "is_mouse e") (auto simp: same_kind_def)
qed

theorem worker_gives_up_exactly_witness:
  "\<exists>c. channel_new ''us'' True 7 [] [example_monitor] = Ok c \<and>
     \<not> terminal_overflow (worker_round broken 0 (snd (run_io (channel_step broken) [Offer (Mouse LeftPressed)] c)))"
proof -
  obtain c where c: "channel_new ''us'' True 7 [] [example_monitor] = Ok c" using example_channel by blast
  obtain rs c1 where r: "run_io (channel_step broken) [Offer (Mouse LeftPressed)] c = (rs, c1)" by (metis surj_pair)
  have "\<not> terminal_overflow c" "running c" "queue c = []" using c by (auto simp: channel_new_def rbind_eq_Inr)
  then have "running c1" "\<not> terminal_overflow c1" "queue c1 = [Mouse LeftPressed]" "handled rs = []"
    using r by (auto simp: enqueue_input_def INPUT_QUEUE_CAPACITY_def handled_def)
  from worker_gives_up_exactly[OF c r this(1-3), of 0] this(4) c r show ?thesis by (auto simp: trailing_failures_def)
qed

section \<open>The report under interleaving\<close>

text \<open>
  The callbacks, the worker and supervision run on different threads, which meet in the two flags and the reporter's lock.  A
  thread is its place in \<open>fail_input_connection\<close> (\<open>SetTerminal\<close>), in the worker's failure path (the same), in
  \<open>set_health_reporter\<close> (\<open>SetReporter\<close>) or in \<open>report_input_failed_once\<close>; each access to shared state is a step.
\<close>

datatype report_pc =
  SetTerminal | SetReporter | LoadTerminal | LoadReported | ReadReporter | CompareExchange | SendReport | Returned

record report_shared =
  sh_terminal :: bool
  sh_reported :: bool
  sh_reporter :: bool
  sh_sent :: nat

fun advance :: "report_pc \<Rightarrow> report_shared \<Rightarrow> report_pc \<times> report_shared" where
  "advance SetTerminal s = (LoadTerminal, s\<lparr>sh_terminal := True\<rparr>)"
| "advance SetReporter s = (LoadTerminal, s\<lparr>sh_reporter := True\<rparr>)"
| "advance LoadTerminal s = (if sh_terminal s then LoadReported else Returned, s)"
| "advance LoadReported s = (if sh_reported s then Returned else ReadReporter, s)"
| "advance ReadReporter s = (if sh_reporter s then CompareExchange else Returned, s)"
| "advance CompareExchange s = (if sh_reported s then (Returned, s) else (SendReport, s\<lparr>sh_reported := True\<rparr>))"
| "advance SendReport s = (Returned, s\<lparr>sh_sent := sh_sent s + 1\<rparr>)"
| "advance Returned s = (Returned, s)"

inductive report_step :: "report_shared \<times> report_pc list \<Rightarrow> report_shared \<times> report_pc list \<Rightarrow> bool" where
  step: "i < length ts \<Longrightarrow> ts ! i \<noteq> Returned \<Longrightarrow> advance (ts ! i) s = (pc, s') \<Longrightarrow> report_step (s, ts) (s', ts[i := pc])"

inductive_cases report_stepE: "report_step (s, ts) q"

definition report_start :: "report_shared \<times> report_pc list \<Rightarrow> bool" where
  "report_start q \<longleftrightarrow> fst q = \<lparr>sh_terminal = False, sh_reported = False, sh_reporter = False, sh_sent = 0\<rparr> \<and>
     set (snd q) \<subseteq> {SetTerminal, SetReporter, LoadTerminal}"

definition report_invar :: "report_shared \<times> report_pc list \<Rightarrow> bool" where
  "report_invar q \<longleftrightarrow> (case q of (s, ts) \<Rightarrow>
     sh_sent s + count_list ts SendReport = of_bool (sh_reported s) \<and>
     (sh_reported s \<longrightarrow> sh_terminal s \<and> sh_reporter s) \<and>
     (set ts \<inter> {LoadReported, ReadReporter, CompareExchange} \<noteq> {} \<longrightarrow> sh_terminal s) \<and>
     (CompareExchange \<in> set ts \<longrightarrow> sh_reporter s) \<and>
     (sh_terminal s \<and> sh_reporter s \<and> \<not> sh_reported s \<longrightarrow>
        set ts \<inter> {LoadTerminal, LoadReported, ReadReporter, CompareExchange} \<noteq> {}))"

lemma count_list_update:
  "i < length xs \<Longrightarrow> count_list (xs[i := y]) z + of_bool (xs ! i = z) = count_list xs z + of_bool (y = z)"
proof (induction xs arbitrary: i)
  case (Cons x xs)
  then show ?case using Cons.IH[of "i - 1"] by (cases i) auto
qed simp

lemma set_update_cases: "x \<in> set (xs[i := y]) \<Longrightarrow> x = y \<or> x \<in> set xs"
  using set_update_subset_insert by fastforce

lemma kept_elsewhere: "x \<in> set xs \<Longrightarrow> x \<noteq> xs ! i \<Longrightarrow> x \<in> set (xs[i := y])"
  by (metis in_set_conv_nth length_list_update nth_list_update_neq)

lemma report_step_invar:
  assumes "report_step q q'" "report_invar q" shows "report_invar q'"
proof -
  obtain s ts s' i pc where q: "q = (s, ts)" "q' = (s', ts[i := pc])" and i: "i < length ts" "ts ! i \<noteq> Returned"
    and a: "advance (ts ! i) s = (pc, s')"
    using assms(1) by (auto elim: report_step.cases)
  note c = count_list_update[OF i(1), of pc SendReport]
  have inv: "sh_sent s + count_list ts SendReport = of_bool (sh_reported s)" "sh_reported s \<longrightarrow> sh_terminal s \<and> sh_reporter s"
    "set ts \<inter> {LoadReported, ReadReporter, CompareExchange} \<noteq> {} \<longrightarrow> sh_terminal s" "CompareExchange \<in> set ts \<longrightarrow> sh_reporter s"
    "sh_terminal s \<and> sh_reporter s \<and> \<not> sh_reported s \<longrightarrow> set ts \<inter> {LoadTerminal, LoadReported, ReadReporter, CompareExchange} \<noteq> {}"
    using assms(2) by (simp_all add: report_invar_def q)
  have here: "ts ! i \<in> set ts" "pc \<in> set (ts[i := pc])" using i(1) by (simp_all add: set_update_memI)
  have mono: "sh_terminal s \<longrightarrow> sh_terminal s'" "sh_reporter s \<longrightarrow> sh_reporter s'" "sh_reported s \<longrightarrow> sh_reported s'"
    using a by (cases "ts ! i"; auto split: if_splits)+
  have 1: "sh_sent s' + count_list (ts[i := pc]) SendReport = of_bool (sh_reported s')"
    using a c inv(1) by (cases "ts ! i") (auto split: if_splits)
  have "sh_reported s' \<Longrightarrow> sh_reported s \<or> ts ! i = CompareExchange" using a by (cases "ts ! i") (auto split: if_splits)
  then have 2: "sh_reported s' \<longrightarrow> sh_terminal s' \<and> sh_reporter s'" using inv(2-4) here(1) mono by fastforce
  have 3: "set (ts[i := pc]) \<inter> {LoadReported, ReadReporter, CompareExchange} \<noteq> {} \<longrightarrow> sh_terminal s'"
  proof -
    have "pc \<in> {LoadReported, ReadReporter, CompareExchange} \<Longrightarrow> sh_terminal s'"
      using a inv(3) here(1) mono(1) by (cases "ts ! i") (auto split: if_splits)
    then show ?thesis using inv(3) mono(1) by (auto dest!: set_update_cases)
  qed
  have 4: "CompareExchange \<in> set (ts[i := pc]) \<longrightarrow> sh_reporter s'"
  proof -
    have "pc = CompareExchange \<Longrightarrow> sh_reporter s'" using a by (cases "ts ! i") (auto split: if_splits)
    then show ?thesis using inv(4) mono(2) by (auto dest!: set_update_cases)
  qed
  have 5: "set (ts[i := pc]) \<inter> {LoadTerminal, LoadReported, ReadReporter, CompareExchange} \<noteq> {}"
    if t: "sh_terminal s'" "sh_reporter s'" "\<not> sh_reported s'"
  proof (cases "pc \<in> {LoadTerminal, LoadReported, ReadReporter, CompareExchange}")
    case False
    then have pc: "ts ! i \<notin> {LoadTerminal, LoadReported, ReadReporter, CompareExchange}" "sh_terminal s" "sh_reporter s" "\<not> sh_reported s"
      using a t i(2) by (cases "ts ! i"; auto split: if_splits)+
    then obtain x where "x \<in> set ts" "x \<in> {LoadTerminal, LoadReported, ReadReporter, CompareExchange}" using inv(5) by blast
    with pc(1) kept_elsewhere[of x ts i pc] show ?thesis by blast
  qed (use here(2) in blast)
  from 1 2 3 4 5 show ?thesis by (simp add: report_invar_def q)
qed

lemma report_reachable_invar:
  assumes "report_start q0" "report_step\<^sup>*\<^sup>* q0 q" shows "report_invar q"
  using assms(2)
proof (induction rule: rtranclp_induct)
  case base
  obtain s ts where q: "q0 = (s, ts)" by (cases q0)
  have "count_list ts SendReport = 0" "set ts \<inter> {LoadReported, ReadReporter, CompareExchange} = {}" "CompareExchange \<notin> set ts"
    using assms(1) by (auto simp: report_start_def q count_list_0_iff)
  with assms(1) show ?case by (simp add: report_start_def report_invar_def q)
qed (rule report_step_invar)

text \<open>Every thread gets out of the code in at most six steps.\<close>

fun pc_rank :: "report_pc \<Rightarrow> nat" where
  "pc_rank SetTerminal = 6" | "pc_rank SetReporter = 6" | "pc_rank LoadTerminal = 5" | "pc_rank LoadReported = 4"
| "pc_rank ReadReporter = 3" | "pc_rank CompareExchange = 2" | "pc_rank SendReport = 1" | "pc_rank Returned = 0"

lemma advance_rank: "pc \<noteq> Returned \<Longrightarrow> advance pc s = (pc', s') \<Longrightarrow> pc_rank pc' < pc_rank pc"
  by (cases pc) (auto split: if_splits)

lemma report_step_rank:
  assumes "report_step q q'" shows "sum_list (map pc_rank (snd q')) < sum_list (map pc_rank (snd q))"
  using assms
proof cases
  case (step i ts s pc s')
  have "map pc_rank (ts[i := pc]) = (map pc_rank ts)[i := pc_rank pc]" by (simp add: map_update)
  with step advance_rank[OF step(4,5)] elem_le_sum_list[of i "map pc_rank ts"] show ?thesis
    by (simp add: sum_list_update)
qed

lemma report_steps_bounded: "(report_step ^^ n) q q' \<Longrightarrow> n + sum_list (map pc_rank (snd q')) \<le> sum_list (map pc_rank (snd q))"
proof (induction n arbitrary: q')
  case (Suc n)
  then obtain p where "(report_step ^^ n) q p" "report_step p q'" by auto
  with Suc.IH[of p] report_step_rank[of p q'] show ?case by simp
qed simp

text \<open>
  C22.  The failure is reported exactly once under every interleaving.  Let any number of threads, from flags that
  are all unset, fail the connection, attach the reporter or only look at the flags.  In no state that their steps reach has more than one report been sent, and none unless
  the connection has failed and a reporter is attached; the threads run for at most six steps each; and when all have returned, a
  failed connection with a reporter attached has been reported.
\<close>

theorem failure_reported_exactly_once:
  assumes "report_start q0" "(report_step ^^ n) q0 (s, ts)"
  shows "sh_sent s \<le> 1 \<and> (sh_sent s = 1 \<longrightarrow> sh_terminal s \<and> sh_reporter s) \<and> n \<le> 6 * length (snd q0) \<and>
    (set ts \<subseteq> {Returned} \<longrightarrow> sh_sent s = of_bool (sh_terminal s \<and> sh_reporter s)) \<and>
    (\<not> set ts \<subseteq> {Returned} \<longrightarrow> (\<exists>q. report_step (s, ts) q))"
proof -
  have i: "report_invar (s, ts)" using assms report_reachable_invar relpowp_imp_rtranclp by metis
  have c: "count_list ts SendReport = 0" if "set ts \<subseteq> {Returned}"
    using that by (auto simp: count_list_0_iff)
  have "pc_rank pc \<le> 6" for pc by (cases pc) simp_all
  then have "sum_list (map pc_rank (snd q0)) \<le> 6 * length (snd q0)"
    using sum_list_mono[of "snd q0" pc_rank "\<lambda>_. 6"] by (simp add: sum_list_triv)
  with report_steps_bounded[OF assms(2)] have "n \<le> 6 * length (snd q0)" by simp
  moreover have "\<exists>q. report_step (s, ts) q" if some: "\<not> set ts \<subseteq> {Returned}"
  proof -
    obtain x where "x \<in> set ts" "x \<noteq> Returned" using some by auto
    then obtain i where "i < length ts" "ts ! i \<noteq> Returned" by (auto simp: in_set_conv_nth)
    then show ?thesis by (metis report_step.step surj_pair)
  qed
  moreover have "set ts \<subseteq> {Returned} \<longrightarrow> set ts \<inter> {LoadTerminal, LoadReported, ReadReporter, CompareExchange} = {}" by auto
  ultimately show ?thesis using i c by (cases "sh_reported s") (auto simp: report_invar_def)
qed

theorem failure_reported_exactly_once_witness:
  "\<exists>n s. (report_step ^^ n) (\<lparr>sh_terminal = False, sh_reported = False, sh_reporter = False, sh_sent = 0\<rparr>, [SetTerminal])
     (s, [Returned]) \<and> sh_sent s = 0"
proof -
  let ?init = "\<lparr>sh_terminal = False, sh_reported = False, sh_reporter = False, sh_sent = 0\<rparr>"
  let ?s = "\<lparr>sh_terminal = True, sh_reported = False, sh_reporter = False, sh_sent = 0\<rparr>"
  have s1: "report_step (?init, [SetTerminal]) (?s, [LoadTerminal])" using report_step.step[of 0 "[SetTerminal]" ?init] by simp
  have s2: "report_step (?s, [LoadTerminal]) (?s, [LoadReported])" using report_step.step[of 0 "[LoadTerminal]" ?s] by simp
  have s3: "report_step (?s, [LoadReported]) (?s, [ReadReporter])" using report_step.step[of 0 "[LoadReported]" ?s] by simp
  have s4: "report_step (?s, [ReadReporter]) (?s, [Returned])" using report_step.step[of 0 "[ReadReporter]" ?s] by simp
  have r: "(report_step ^^ Suc (Suc (Suc (Suc 0)))) (?init, [SetTerminal]) (?s, [Returned])"
    using s1 s2 s3 s4 by (simp only: relpowp.simps) blast
  have "report_start (?init, [SetTerminal])" by (simp add: report_start_def)
  then have "sh_sent ?s = 0" using failure_reported_exactly_once[OF _ r] by simp
  with r show ?thesis by blast
qed

text \<open>One thread alone does what \<open>report_input_failed_once\<close> is above.\<close>

lemma alone_is_report_once:
  "\<exists>n. (report_step ^^ n)
     (\<lparr>sh_terminal = terminal_overflow c, sh_reported = overflow_reported c, sh_reporter = health_reporter c, sh_sent = length (reports c)\<rparr>, [LoadTerminal])
     (let c' = report_input_failed_once r c in
      \<lparr>sh_terminal = terminal_overflow c', sh_reported = overflow_reported c', sh_reporter = health_reporter c', sh_sent = length (reports c')\<rparr>, [Returned])"
proof -
  have one: "report_step\<^sup>*\<^sup>* (s, [pc]) (t, [Returned])"
    if "pc \<noteq> Returned" "advance pc s = (pc', s')" "report_step\<^sup>*\<^sup>* (s', [pc']) (t, [Returned])" for pc s pc' s' t
    using that report_step.step[of 0 "[pc]" s pc' s'] by (simp add: converse_rtranclp_into_rtranclp)
  have "report_step\<^sup>*\<^sup>*
     (\<lparr>sh_terminal = terminal_overflow c, sh_reported = overflow_reported c, sh_reporter = health_reporter c, sh_sent = length (reports c)\<rparr>, [LoadTerminal])
     (let c' = report_input_failed_once r c in
      \<lparr>sh_terminal = terminal_overflow c', sh_reported = overflow_reported c', sh_reporter = health_reporter c', sh_sent = length (reports c')\<rparr>, [Returned])"
  proof (cases "terminal_overflow c \<and> \<not> overflow_reported c \<and> health_reporter c")
    case True
    then show ?thesis
      by (auto simp: report_input_failed_once_def Let_def intro!: one[of LoadTerminal] one[of LoadReported] one[of ReadReporter] one[of CompareExchange] one[of SendReport])
  next
    case False
    then show ?thesis
      by (cases "terminal_overflow c"; cases "overflow_reported c"; cases "health_reporter c")
        (auto simp: report_input_failed_once_def Let_def intro!: one[of LoadTerminal] one[of LoadReported] one[of ReadReporter])
  qed
  then show ?thesis by (simp add: rtranclp_power)
qed

section \<open>Characters\<close>

lemma unicode_table_distinct: "distinct (map fst unicode_table)"
  by (rule distinct_by_sorting) code_simp

text \<open>The units with a key of their own: tab, newline, carriage return and printable ASCII.\<close>

lemma unicode_table_units: "sort (map (uint \<circ> fst) unicode_table) = [9, 10, 13] @ [0x20..0x7E]"
  by code_simp

lemma unicode_to_evdev_None: "unicode_to_evdev u = None \<longleftrightarrow> uint u \<notin> {9, 10, 13} \<union> {0x20..0x7E}"
proof -
  have "uint ` fst ` set unicode_table = set (sort (map (uint \<circ> fst) unicode_table))" by (simp add: image_comp)
  also have "\<dots> = {9, 10, 13} \<union> {0x20..0x7E}" unfolding unicode_table_units set_append set_upto by simp
  finally have "uint u \<in> {9, 10, 13} \<union> {0x20..0x7E} \<longleftrightarrow> u \<in> fst ` set unicode_table" by (metis inj_image_mem_iff inj_unsigned)
  then show ?thesis by (simp add: unicode_to_evdev_def map_of_eq_None_iff)
qed

definition utf16 :: "nat \<Rightarrow> u16 list" where
  "utf16 c = (if c < 0x10000 then [word_of_nat c]
     else [word_of_nat (0xD800 + (c - 0x10000) div 1024), word_of_nat (0xDC00 + (c - 0x10000) mod 1024)])"

definition paste_effects :: "nat list option \<Rightarrow> nat list \<Rightarrow> effect list" where
  "paste_effects saved text =
     [WriteText text, Keycode 29 True, Keycode 47 True, Keycode 47 False, Keycode 29 False] @
     (case saved of None \<Rightarrow> [] | Some bs \<Rightarrow> (case from_utf8 bs of None \<Rightarrow> [] | Some t \<Rightarrow> [WriteText t]))"

lemma attempt_effects: "map fst (attempt b es l) = map fst l @ es"
  by (induction es arbitrary: l) (simp_all add: perform_def Let_def)

lemma flush_effects:
  assumes "buf (cjk_buffer w) \<noteq> []" "has_clipboard_provider b" "read_data b = (\<lambda>_. saved)"
  shows "\<exists>l. flush_cjk_buffer b w = w\<lparr>cjk_buffer := cjk_new, effects_log := l\<rparr> \<and>
    map fst l = map fst (effects_log w) @ paste_effects saved (buf (cjk_buffer w))"
proof -
  have "take_text (cjk_buffer w) = (Some (buf (cjk_buffer w)), cjk_new)"
    using assms(1) by (simp add: take_text_def cjk_new_def Let_def)
  then show ?thesis using assms(2,3)
    by (auto simp: flush_cjk_buffer_def Let_def attempt_effects paste_effects_def simp del: attempt.simps split: option.splits)
qed

lemma unat_unit: "n < 0x10000 \<Longrightarrow> unat (word_of_nat n :: u16) = n"
  by (simp add: unsigned_of_nat take_bit_nat_eq_self)

lemma press_scalar:
  assumes "is_scalar c" "c < 0x10000 \<Longrightarrow> unicode_to_evdev (word_of_nat c) = None" "cjk_buffer w = cjk_new"
    and "has_clipboard_provider b" "read_data b = (\<lambda>_. saved)"
  shows "\<exists>l. fold (\<lambda>u w. snd (unicode_press b True u w)) (utf16 c) w = w\<lparr>effects_log := l\<rparr> \<and>
    map fst l = map fst (effects_log w) @ paste_effects saved [c]"
proof -
  have f: "\<exists>l. flush_cjk_buffer b (w\<lparr>cjk_buffer := cjk_new\<lparr>buf := [c]\<rparr>\<rparr>) = w\<lparr>effects_log := l\<rparr> \<and>
      map fst l = map fst (effects_log w) @ paste_effects saved [c]"
  proof -
    have "w\<lparr>cjk_buffer := cjk_new, effects_log := l\<rparr> = w\<lparr>effects_log := l\<rparr>" for l using assms(3) by (cases w) simp
    then show ?thesis using flush_effects[of "w\<lparr>cjk_buffer := cjk_new\<lparr>buf := [c]\<rparr>\<rparr>" b saved] assms(4,5) by simp
  qed
  show ?thesis
  proof (cases "c < 0x10000")
    case True
    then have u: "unat (word_of_nat c :: u16) = c" by (rule unat_unit)
    have "\<not> is_high (word_of_nat c)" "\<not> is_low (word_of_nat c)"
      using assms(1) u by (auto simp: is_high_def is_low_def is_scalar_def word_le_nat_alt)
    then have "unicode_press b True (word_of_nat c) w = (Ok (), flush_cjk_buffer b (w\<lparr>cjk_buffer := push_char c (cjk_buffer w)\<rparr>))"
      using assms(1) assms(2)[OF True] u by (simp add: unicode_press_def char_from_u32_def is_scalar_def)
    then show ?thesis using f True assms(3) by (simp add: utf16_def push_char_def cjk_new_def)
  next
    case False
    define hi lo where "hi = 0xD800 + (c - 0x10000) div 1024" and "lo = 0xDC00 + (c - 0x10000) mod 1024"
    have "c < 0x110000" using assms(1) False by (auto simp: is_scalar_def)
    then have "(c - 0x10000) div 1024 < 1024" using False by (auto simp: div_less_iff_less_mult)
    then have hl: "hi < 0xDC00" "0xD800 \<le> hi" "lo < 0xE000" "0xDC00 \<le> lo" by (auto simp: hi_def lo_def)
    then have u: "unat (word_of_nat hi :: u16) = hi" "unat (word_of_nat lo :: u16) = lo" by (auto intro!: unat_unit)
    have h: "is_high (word_of_nat hi)" "is_low (word_of_nat lo)" "\<not> is_high (word_of_nat lo)"
      using hl u by (auto simp: is_high_def is_low_def word_le_nat_alt)
    have none: "unicode_to_evdev v = None" if "0xD800 \<le> v" for v
      using that by (auto simp: unicode_to_evdev_None word_le_def)
    have "unat (word_of_nat hi - 0xD800 :: u16) = hi - 0xD800" "unat (word_of_nat lo - 0xDC00 :: u16) = lo - 0xDC00"
      using hl u by (simp_all add: unat_sub word_le_nat_alt)
    moreover have "0x10000 + (hi - 0xD800) * 2 ^ 10 + (lo - 0xDC00) = c" using False by (simp add: hi_def lo_def)
    ultimately have p: "push_surrogate_pair (word_of_nat hi) (word_of_nat lo) cjk_new = (Some c, cjk_new\<lparr>buf := [c]\<rparr>)"
      using h assms(1) by (simp add: push_surrogate_pair_def char_from_u32_def is_scalar_def cjk_new_def)
    have 1: "unicode_press b True (word_of_nat hi) w = (Ok (), w\<lparr>cjk_buffer := cjk_new\<lparr>pending_high_surrogate := Some (word_of_nat hi)\<rparr>\<rparr>)"
      using h assms(3) none[of "word_of_nat hi"] by (simp add: unicode_press_def is_high_def)
    have 2: "unicode_press b True (word_of_nat lo) (w\<lparr>cjk_buffer := cjk_new\<lparr>pending_high_surrogate := Some (word_of_nat hi)\<rparr>\<rparr>) =
        (Ok (), flush_cjk_buffer b (w\<lparr>cjk_buffer := cjk_new\<lparr>buf := [c]\<rparr>\<rparr>))"
    proof -
      have "cjk_new\<lparr>pending_high_surrogate := Some (word_of_nat hi)\<rparr>\<lparr>pending_high_surrogate := None\<rparr> = cjk_new" by (simp add: cjk_new_def)
      then show ?thesis using h p none[of "word_of_nat lo"] hl(4) u(2) by (simp add: unicode_press_def word_le_nat_alt)
    qed
    show ?thesis using False f by (simp add: utf16_def 1 2 hi_def[symmetric] lo_def[symmetric])
  qed
qed


text \<open>
  Text pasted through the clipboard is the text typed.  With the paste fallback on and a clipboard provider, let a client type any
  text outside printable ASCII, as UTF-16 units, surrogate pairs included.  Then each character in its order is written to the clipboard and pasted with
  one balanced Ctrl+V, after which the saved text is written back, if there is one; nothing else is injected, the buffer is empty again and the key and
  pointer state is untouched.
\<close>

theorem pasted_text_is_typed_text:
  assumes "\<forall>c\<in>set cs. is_scalar c \<and> c \<notin> {9, 10, 13} \<union> {0x20..0x7E}" "cjk_buffer w = cjk_new"
    and "has_clipboard_provider b" "read_data b = (\<lambda>_. saved)"
  shows "\<exists>l. fold (\<lambda>u w. snd (handle_keyboard_event_impl b True now (UnicodePressed u) w)) (concat (map utf16 cs)) w = w\<lparr>effects_log := l\<rparr> \<and>
    map fst l = map fst (effects_log w) @ concat (map (\<lambda>c. paste_effects saved [c]) cs)"
  using assms(1,2)
proof (induction cs arbitrary: w)
  case Nil
  show ?case by (rule exI[of _ "effects_log w"]) simp
next
  case (Cons c cs)
  have "unicode_to_evdev (word_of_nat c) = None" if "c < 0x10000"
    using Cons.prems(1) unat_unit[OF that] by (auto simp: unicode_to_evdev_None uint_nat)
  then obtain l where l: "fold (\<lambda>u w. snd (unicode_press b True u w)) (utf16 c) w = w\<lparr>effects_log := l\<rparr>"
    "map fst l = map fst (effects_log w) @ paste_effects saved [c]"
    using press_scalar[of c w b saved] Cons.prems assms(3,4) by auto
  with Cons.IH[of "w\<lparr>effects_log := l\<rparr>"] Cons.prems show ?case by auto
qed

theorem pasted_text_is_typed_text_witness:
  "\<exists>c l. channel_new ''us'' True 7 [] [example_monitor] = Ok c \<and>
     effects_log (fold (\<lambda>u w. snd (handle_keyboard_event_impl willing True 0 (UnicodePressed u) w)) [0xD83D, 0xDE00] (worker c)) = l \<and>
     map fst l = [WriteText [0x1F600], Keycode 29 True, Keycode 47 True, Keycode 47 False, Keycode 29 False]"
proof -
  obtain c where c: "channel_new ''us'' True 7 [] [example_monitor] = Ok c" using example_channel by blast
  then have w: "cjk_buffer (worker c) = cjk_new" "effects_log (worker c) = []" by (auto simp: channel_new_def rbind_eq_Inr)
  have "concat (map utf16 [0x1F600]) = [0xD83D, 0xDE00]" by (simp add: utf16_def)
  then obtain l where "fold (\<lambda>u w. snd (handle_keyboard_event_impl willing True 0 (UnicodePressed u) w)) [0xD83D, 0xDE00] (worker c) = (worker c)\<lparr>effects_log := l\<rparr>"
    "map fst l = paste_effects None [0x1F600]"
    using pasted_text_is_typed_text[of "[0x1F600]" "worker c" willing None 0] w by (auto simp: willing_def is_scalar_def)
  with c show ?thesis by (auto simp: paste_effects_def)
qed

section \<open>What the compositor sees\<close>

text \<open>The keys and buttons that are down after the injections that succeeded.\<close>

fun key_effect :: "effect \<times> bool \<Rightarrow> int set \<Rightarrow> int set" where
  "key_effect (Keycode k p, True) H = (if p then insert k H else H - {k})" | "key_effect _ H = H"

fun button_effect :: "effect \<times> bool \<Rightarrow> int set \<Rightarrow> int set" where
  "button_effect (PointerButton k p, True) H = (if p then insert k H else H - {k})" | "button_effect _ H = H"

definition keys_down :: "effects \<Rightarrow> int set" where "keys_down l = fold key_effect l {}"
definition buttons_down :: "effects \<Rightarrow> int set" where "buttons_down l = fold button_effect l {}"

lemma down_snoc:
  "keys_down (l @ [e]) = key_effect e (keys_down l)" "buttons_down (l @ [e]) = button_effect e (buttons_down l)"
  by (simp_all add: keys_down_def buttons_down_def)

text \<open>Events of physical keys and of the pointer.\<close>

fun is_physical :: "input_event \<Rightarrow> bool" where
  "is_physical (Keyboard (Pressed _ _)) = True" | "is_physical (Keyboard (Released _ _)) = True" | "is_physical (Keyboard _) = False"
| "is_physical (Mouse _) = True"

definition worker_in_step :: "input_worker \<Rightarrow> bool" where
  "worker_in_step w \<longleftrightarrow> cjk_is_empty (cjk_buffer w) \<and> length (button_states (mouse w)) = 5 \<and>
     keys_down (effects_log w) = (\<lambda>k. keycode_i32 k) ` pressed_keys (keyboard w) \<and>
     buttons_down (effects_log w) = (\<lambda>b. uint (to_linux_button b)) ` {b. is_button_pressed (mouse w) b}"

lemma keycode_i32_inj: "keycode_i32 j = keycode_i32 k \<longleftrightarrow> j = k" for j k :: u32
proof -
  have "as_i32 m = as_i32 n \<Longrightarrow> m mod 2 ^ 32 = n mod 2 ^ 32" for m n
    by (simp add: as_i32_def mod_eq_dvd_iff)
  moreover have "uint (x :: u32) mod 2 ^ 32 = uint x" for x using uint_lt2p[of x] by simp
  ultimately have "as_i32 (uint j) = as_i32 (uint k) \<Longrightarrow> uint j = uint k" by metis
  then show ?thesis by (auto intro: word_uint_eqI)
qed

lemma linux_button_inj: "uint (to_linux_button a) = uint (to_linux_button b) \<longleftrightarrow> a = b"
  by (cases a; cases b) simp_all

lemma perform_willing: "respond b = (\<lambda>_ _. None) \<Longrightarrow> perform b e l = (None, l @ [(e, True)])"
  by (simp add: perform_def)

lemma inject_one_willing:
  "respond b = (\<lambda>_ _. None) \<Longrightarrow> inject_on b [e] w = (Ok (), w\<lparr>effects_log := effects_log w @ [(e, True)]\<rparr>)"
  by (simp add: inject_on_def perform_willing)

lemma handle_key_down_cases:
  assumes "handle_key_down t sc ext e1 h = (r, h')"
  obtains (err) e where "r = Inl e" "pressed_keys h' = pressed_keys h"
  | (ignored) k where "r = Ok (Ignored k)" "pressed_keys h' = pressed_keys h"
  | (down) k m where "r = Ok (KeyDown k sc m t) \<or> r = Ok (KeyRepeat k sc m t)" "pressed_keys h' = insert k (pressed_keys h)"
  using assms by (auto simp: handle_key_down_def accept_key_down_def Let_def split: sum.splits if_splits)

lemma handle_key_up_cases:
  assumes "handle_key_up t sc ext e1 h = (r, h')"
  obtains (err) e where "r = Inl e" "pressed_keys h' = pressed_keys h"
  | (ignored) k where "r = Ok (Ignored k)" "pressed_keys h' = pressed_keys h"
  | (up) k m where "r = Ok (KeyUp k sc m t)" "pressed_keys h' = pressed_keys h - {k}"
  using assms by (auto simp: handle_key_up_def Let_def split: sum.splits if_splits)

lemma keyboard_in_step:
  assumes "worker_in_step w" "respond b = (\<lambda>_ _. None)" "is_physical (Keyboard e)"
  shows "worker_in_step (snd (handle_keyboard_event_impl b cjk now e w))"
proof -
  consider (p) sc x where "e = Pressed sc x" | (r) sc x where "e = Released sc x" using assms(3) by (cases e) auto
  then show ?thesis
  proof cases
    case p
    obtain r k where d: "handle_key_down now (ucast sc) x False (keyboard w) = (r, k)" by (metis surj_pair)
    have "cjk_is_empty (cjk_buffer w)" using assms(1) by (simp add: worker_in_step_def)
    with p have e: "handle_keyboard_event_impl b cjk now e w =
        (case (r, k) of (Inl e, k) \<Rightarrow> (Err e, w\<lparr>keyboard := k\<rparr>)
         | (Inr (Ignored _), k) \<Rightarrow> (Ok (), w\<lparr>keyboard := k\<rparr>)
         | (Inr (KeyDown kc _ _ _), k) \<Rightarrow> inject_on b [Keycode (keycode_i32 kc) True] (w\<lparr>keyboard := k\<rparr>)
         | (Inr (KeyRepeat kc _ _ _), k) \<Rightarrow> inject_on b [Keycode (keycode_i32 kc) True] (w\<lparr>keyboard := k\<rparr>)
         | (Inr (KeyUp kc _ _ _), k) \<Rightarrow> inject_on b [Keycode (keycode_i32 kc) True] (w\<lparr>keyboard := k\<rparr>))"
      by (simp add: d)
    from d show ?thesis
      by (cases rule: handle_key_down_cases)
        (use assms(1) in \<open>auto simp: e worker_in_step_def inject_one_willing[OF assms(2)] down_snoc\<close>)
  next
    case r
    obtain r k where d: "handle_key_up now (ucast sc) x False (keyboard w) = (r, k)" by (metis surj_pair)
    from d show ?thesis
      by (cases rule: handle_key_up_cases)
        (use assms(1) \<open>e = Released sc x\<close> d in \<open>auto simp: worker_in_step_def inject_one_willing[OF assms(2)] down_snoc keycode_i32_inj\<close>)
  qed
qed

lemma button_in_step:
  assumes "worker_in_step w" "respond b = (\<lambda>_ _. None)" "btn = uint (to_linux_button x)"
  shows "worker_in_step (snd (handle_button b now x btn p w))"
proof (cases "fst (accept_button_transition now x p (mouse w))")
  case False
  then have "accept_button_transition now x p (mouse w) = (False, mouse w)"
    by (auto simp: accept_button_transition_def Let_def split: if_splits)
  with assms(1) show ?thesis by (simp add: handle_button_def)
next
  case True
  define h1 where "h1 = snd (accept_button_transition now x p (mouse w))"
  have a: "accept_button_transition now x p (mouse w) = (True, h1)" using True by (simp add: h1_def prod_eq_iff)
  have h1: "button_states h1 = (button_states (mouse w))[button_to_index x := p]"
    using True by (auto simp: h1_def accept_button_transition_def Let_def split: if_splits)
  obtain h2 where h2: "snd (handle_button b now x btn p w) = w\<lparr>mouse := h2, effects_log := effects_log w @ [(PointerButton btn p, True)]\<rparr>"
    "button_states h2 = button_states h1"
    using a by (cases p) (simp_all add: handle_button_def inject_one_willing[OF assms(2)] handle_button_down_def handle_button_up_def)
  have "is_button_pressed h2 y \<longleftrightarrow> (if y = x then p else is_button_pressed (mouse w) y)" for y
    using assms(1) by (simp add: is_button_pressed_def h2(2) h1 nth_list_update worker_in_step_def)
  then have "(\<lambda>b. uint (to_linux_button b)) ` {b. is_button_pressed h2 b} =
      (if p then insert btn (buttons_down (effects_log w)) else buttons_down (effects_log w) - {btn})"
    using assms(1,3) by (auto simp: worker_in_step_def linux_button_inj)
  with assms(1) h1 h2(2) show ?thesis by (simp add: h2(1) worker_in_step_def down_snoc)
qed

lemma move_in_step:
  assumes "worker_in_step w" "respond b = (\<lambda>_ _. None)" "button_states h = button_states (mouse w)"
  shows "worker_in_step (snd (finish_pointer_move b sid f (r, h, t) w))"
proof -
  define w1 where "w1 = w\<lparr>mouse := h, transformer := t\<rparr>"
  have 1: "worker_in_step w1" using assms(1,3) by (simp add: w1_def worker_in_step_def is_button_pressed_def)
  have 2: "worker_in_step (send_android_pointer_shape_once b v)" if "worker_in_step v" for v
    using that by (simp add: send_android_pointer_shape_once_def Let_def perform_willing[OF assms(2)] worker_in_step_def down_snoc)
  have 3: "worker_in_step (send_android_pointer_position_update b x y v)" if "worker_in_step v" for x y v
    using that by (simp add: send_android_pointer_position_update_def perform_willing[OF assms(2)] worker_in_step_def down_snoc)
  have 4: "worker_in_step (snd (inject_on b [MotionAbsolute s x y] v))" if "worker_in_step v" for s x y v
    using that by (simp add: inject_one_willing[OF assms(2)] worker_in_step_def down_snoc)
  show ?thesis using 1 by (auto simp: finish_pointer_move_def w1_def[symmetric] Let_def split_beta 2 3 4 split: sum.split mouse_event.split)
qed

lemma wheel_in_step:
  assumes "worker_in_step w" "respond b = (\<lambda>_ _. None)" shows "worker_in_step (snd (handle_wheel b now x y w))"
proof -
  obtain ev h where s: "handle_scroll now x y (mouse w) = (ev, h)" by (metis surj_pair)
  then have h: "button_states h = button_states (mouse w)" by (auto simp: handle_scroll_def Let_def split: if_splits)
  have "worker_in_step (w\<lparr>mouse := h\<rparr>)" using assms(1) h by (simp add: worker_in_step_def is_button_pressed_def)
  moreover have "worker_in_step (snd (inject_on b [PointerAxis p q, PointerAxis r t] v))" if "worker_in_step v" for p q r t v
    using that by (simp add: inject_on_def perform_willing[OF assms(2)] worker_in_step_def keys_down_def buttons_down_def)
  ultimately show ?thesis by (simp add: handle_wheel_def s Let_def split: mouse_event.split)
qed

lemma finish_move_buttons: "button_states (fst (snd (finish_move now m h))) = button_states h"
  by (simp add: finish_move_def split_beta split: sum.split prod.split)

lemma mouse_in_step:
  assumes "worker_in_step w" "respond b = (\<lambda>_ _. None)"
  shows "worker_in_step (snd (handle_mouse_event_impl b sid now e w))"
proof -
  have m: "worker_in_step (snd (finish_pointer_move b sid f m w))" if "button_states (fst (snd m)) = button_states (mouse w)" for f m
    using move_in_step[OF assms that, of sid f "fst m" "snd (snd m)"] by simp
  show ?thesis
    by (cases e) (simp_all add: m button_in_step[OF assms] wheel_in_step[OF assms] handle_absolute_move_def handle_relative_move_def finish_move_buttons)
qed


lemma channel_in_step:
  assumes "channel_step b x c = (r, c')" "respond b = (\<lambda>_ _. None)" "\<forall>e\<in>set (fst r). is_physical e"
    and "worker_in_step (worker c)" "\<forall>e\<in>set (queue c). is_physical e"
  shows "worker_in_step (worker c') \<and> (\<forall>e\<in>set (queue c'). is_physical e)"
proof -
  have only: ?thesis if "worker c2 = (worker c)\<lparr>transformer := t\<rparr> \<or> worker c2 = worker c" "queue c2 = queue c" "c' = c2" for t c2
    using that assms(4,5) by (auto simp: worker_in_step_def)
  have u: "\<exists>t. worker (snd (channel_update_monitors ms c)) = (worker c)\<lparr>transformer := t\<rparr> \<or> worker (snd (channel_update_monitors ms c)) = worker c" for ms
    by (auto simp: channel_update_monitors_def split: sum.split)
  have m: "\<exists>t. worker (snd (update_primary_stream_mapping rw rh sw sh c)) = (worker c)\<lparr>transformer := t\<rparr> \<or>
      worker (snd (update_primary_stream_mapping rw rh sw sh c)) = worker c" for rw rh sw sh
    by (auto simp: update_primary_stream_mapping_def channel_update_monitors_def split: sum.split prod.split)
  show ?thesis
  proof (cases x)
    case (Offer e)
    with assms(1,3) have c': "c' = enqueue_input e c" "is_physical e" by auto
    have "worker (enqueue_input e c) = worker c" "set (queue (enqueue_input e c)) \<subseteq> insert e (set (queue c))"
      by (simp_all add: enqueue_input_def fail_input_connection_def report_input_failed_once_def split: queue_pressure_action.split) auto
    with c' assms(4,5) show ?thesis by auto
  next
    case (WorkerRound now)
    then have c': "c' = worker_round b now c" using assms(1) by simp
    show ?thesis
    proof (cases "running c \<and> \<not> terminal_overflow c \<and> queue c \<noteq> []")
      case True
      then obtain e rest where q: "running c" "\<not> terminal_overflow c" "queue c = e # rest" by (cases "queue c") auto
      define h where "h = handle_event b now e (c\<lparr>queue := rest\<rparr>)"
      have "worker_in_step (snd h)" using assms(2,4,5) q keyboard_in_step mouse_in_step
        by (auto simp: h_def handle_event_def split: input_event.split)
      moreover have "worker (worker_round b now c) = snd h" using q
        by (simp add: worker_round_def h_def count_failure_def report_input_failed_once_def stop_worker_def split_beta Let_def split: sum.split input_event.split)
      ultimately show ?thesis using assms(5) q(3) worker_round_open(1)[OF q, of b now] c' by simp
    next
      case False
      with c' have "worker c' = worker c" "set (queue c') \<subseteq> set (queue c)"
        by (auto simp: worker_round_def stop_worker_def split: list.split)
      with assms(4,5) show ?thesis by auto
    qed
  next
    case Shutdown
    with assms(1,4) show ?thesis by (auto simp: stop_worker_def)
  next
    case AttachReporter
    with assms(1) have "c' = set_health_reporter c" by simp
    then show ?thesis by (rule only[OF disjI2, rotated 2]) (simp_all add: set_health_reporter_def report_input_failed_once_def)
  next
    case (UpdateTopology ms)
    with assms(1) have "c' = snd (channel_update_monitors ms c)" by simp
    with u[of ms] mapping_fields(6) only show ?thesis by blast
  next
    case (UpdateMapping rw rh sw sh)
    with assms(1) have "c' = snd (update_primary_stream_mapping rw rh sw sh c)" by simp
    with m[of rw rh sw sh] mapping_fields(1) only show ?thesis by blast
  qed
qed

text \<open>
  C23.  The compositor sees the keys and buttons that the handlers hold.  In every run of a channel that is offered events of physical keys and
  of the pointer, and whose injections succeed, and whatever is dropped from a full queue, reconfigured or shut down on the way, the keys and buttons that
  the injected events leave down are exactly those that the keyboard and mouse handlers record as pressed.
\<close>

theorem compositor_in_step:
  assumes "channel_new layout cjk sid ss ms = Ok c" "run_io (channel_step b) xs c = (rs, c')"
    and "respond b = (\<lambda>_ _. None)" "\<forall>e\<in>set (offered rs). is_physical e"
  shows "keys_down (effects_log (worker c')) = (\<lambda>k. keycode_i32 k) ` pressed_keys (keyboard (worker c')) \<and>
    buttons_down (effects_log (worker c')) = (\<lambda>b. uint (to_linux_button b)) ` {b. is_button_pressed (mouse (worker c')) b}"
proof -
  have "worker_in_step (worker c')"
    if "run_io (channel_step b) xs c = (rs, c')" "\<forall>e\<in>set (offered rs). is_physical e" "worker_in_step (worker c)" "\<forall>e\<in>set (queue c). is_physical e" for xs c rs
    using that
  proof (induction xs arbitrary: c rs)
    case (Cons x xs)
    obtain r c1 where 1: "channel_step b x c = (r, c1)" by (metis surj_pair)
    obtain rs2 where 2: "run_io (channel_step b) xs c1 = (rs2, c')" "rs = r # rs2" using Cons.prems(1) 1 by (auto split: prod.splits)
    with channel_in_step[OF 1 assms(3) _ Cons.prems(3,4)] Cons.prems(2) Cons.IH[OF 2(1)] show ?case by (auto simp: offered_def)
  qed simp
  moreover have "worker_in_step (worker c)" "queue c = []"
    using assms(1) by (auto simp: channel_new_def rbind_eq_Inr worker_in_step_def cjk_is_empty_def cjk_new_def mouse_new_def
        keys_down_def buttons_down_def keyboard_set_layout_def keyboard_new_def is_button_pressed_def)
  ultimately show ?thesis using assms(2,4) by (simp add: worker_in_step_def)
qed

theorem compositor_in_step_witness:
  "\<exists>c c'. channel_new ''us'' True 7 [] [example_monitor] = Ok c \<and>
     snd (run_io (channel_step willing) [Offer (Mouse LeftPressed), Offer (Mouse LeftPressed), WorkerRound 0, WorkerRound 0] c) = c' \<and>
     buttons_down (effects_log (worker c')) = {272}"
proof -
  obtain c where c: "channel_new ''us'' True 7 [] [example_monitor] = Ok c" using example_channel by blast
  let ?xs = "[Offer (Mouse LeftPressed), Offer (Mouse LeftPressed), WorkerRound 0, WorkerRound 0]"
  obtain rs c' where r: "run_io (channel_step willing) ?xs c = (rs, c')" by (metis surj_pair)
  have "running c" "queue c = []" "\<not> terminal_overflow c" "mouse (worker c) = mouse_new" "button_states mouse_new = replicate 5 False"
    "last_button_release mouse_new = replicate 5 None"
    using c by (auto simp: channel_new_def rbind_eq_Inr mouse_new_def)
  then have "button_states (mouse (worker c')) = [True, False, False, False, False] \<and> offered rs = [Mouse LeftPressed, Mouse LeftPressed]"
    using r by (auto simp: enqueue_input_def INPUT_QUEUE_CAPACITY_def worker_round_def handle_event_def handle_button_def Let_def
        accept_button_transition_def handle_button_down_def inject_on_def perform_def willing_def offered_def numeral_eq_Suc)
  then have b: "button_states (mouse (worker c')) = [True, False, False, False, False]" and o: "offered rs = [Mouse LeftPressed, Mouse LeftPressed]" by simp_all
  have "{b. is_button_pressed (mouse (worker c')) b} = {LeftButton}"
  proof -
    have "is_button_pressed (mouse (worker c')) y \<longleftrightarrow> y = LeftButton" for y by (cases y) (simp_all add: is_button_pressed_def b)
    then show ?thesis by auto
  qed
  with compositor_in_step[OF c r] o have "buttons_down (effects_log (worker c')) = {272}" by (simp add: willing_def)
  with c r show ?thesis by auto
qed

text \<open>
  A release whose injection fails is not repeated: the handler has already forgotten the key, so that the client's next release of it is
  ignored and the compositor keeps it down.
\<close>

lemma failed_release_is_forgotten:
  assumes "handle_key_up now (ucast sc) x False (keyboard w) = (Ok (KeyUp k (ucast sc) m now), h)"
    and "respond b (length (effects_log w)) (Keycode (keycode_i32 k) False) = Some e" "mapper h = mapper (keyboard w)"
  shows "\<exists>w'. handle_keyboard_event_impl b cjk now (Released sc x) w = (Err (PortalError e), w') \<and>
    keys_down (effects_log w') = keys_down (effects_log w) \<and>
    (\<forall>later. \<exists>w2. handle_keyboard_event_impl b cjk later (Released sc x) w' = (Ok (), w2) \<and> effects_log w2 = effects_log w')"
proof -
  have k: "translate_scancode (mapper (keyboard w)) (ucast (ucast sc :: u16)) x False = Ok k" "k \<notin> pressed_keys h"
    using assms(1) by (auto simp: handle_key_up_def Let_def split: sum.splits if_splits)
  define w' where "w' = w\<lparr>keyboard := h, effects_log := effects_log w @ [(Keycode (keycode_i32 k) False, False)]\<rparr>"
  have "handle_keyboard_event_impl b cjk now (Released sc x) w = (Err (PortalError e), w')"
    using assms(1,2) by (simp add: inject_on_def perform_def w'_def)
  moreover have "handle_key_up later (ucast sc) x False (keyboard w') = (Ok (Ignored k), h)" for later
    using k assms(3) by (simp add: handle_key_up_def w'_def)
  ultimately show ?thesis by (auto simp: w'_def down_snoc)
qed

end
