(* ===== verification/Wrdp_Simd.thy ===== *)
theory Wrdp_Simd
  imports Wrdp_Unicode
begin

text \<open>
  The vector instructions the colour conversion uses (\<open>std::arch\<close>).  An x86 register is the list of its bytes, lowest first, since its instructions
  reinterpret it freely; a NEON register has a type and is the list of its lanes.  Memory accesses through pointers are undefined
  outside the slice: loads and stores give \<open>None\<close> there.
\<close>

section \<open>Memory\<close>

definition load :: "nat \<Rightarrow> nat \<Rightarrow> 'a list \<Rightarrow> 'a list option" where
  "load n off xs = (if off + n \<le> length xs then Some (take n (drop off xs)) else None)"

definition store :: "nat \<Rightarrow> 'a list \<Rightarrow> 'a list \<Rightarrow> 'a list option" where
  "store off src xs = (if off + length src \<le> length xs then Some (take off xs @ src @ drop (off + length src) xs) else None)"

text \<open>A \<open>for\<close> loop whose body may fail.\<close>

fun for_each :: "('i \<Rightarrow> 's \<Rightarrow> 's option) \<Rightarrow> 'i list \<Rightarrow> 's \<Rightarrow> 's option" where
  "for_each f [] s = Some s"
| "for_each f (i # is) s = (case f i s of None \<Rightarrow> None | Some s' \<Rightarrow> for_each f is s')"

section \<open>Lanes\<close>

text \<open>Wrap-around of a signed integer of \<open>w\<close> bits, and the saturations.\<close>

definition wrap :: "nat \<Rightarrow> int \<Rightarrow> int" where
  "wrap w i = (i + 2 ^ (w - 1)) mod 2 ^ w - 2 ^ (w - 1)"

definition in_range :: "nat \<Rightarrow> int \<Rightarrow> bool" where
  "in_range w i \<longleftrightarrow> - (2 ^ (w - 1)) \<le> i \<and> i < 2 ^ (w - 1)"

definition to_signed :: "nat \<Rightarrow> nat \<Rightarrow> int" where
  "to_signed w n = wrap w (int n)"

definition of_signed :: "nat \<Rightarrow> int \<Rightarrow> nat" where
  "of_signed w i = nat (i mod 2 ^ w)"

definition clamp_int :: "int \<Rightarrow> int \<Rightarrow> int \<Rightarrow> int" where
  "clamp_int lo hi i = max lo (min hi i)"

abbreviation saturate16 :: "int \<Rightarrow> int" where "saturate16 \<equiv> clamp_int (- 32768) 32767"
abbreviation saturate_u8 :: "int \<Rightarrow> nat" where "saturate_u8 i \<equiv> nat (clamp_int 0 255 i)"

fun i32s :: "nat list \<Rightarrow> int list" where
  "i32s (a # b # c # d # bs) = to_signed 32 (from_le [a, b, c, d]) # i32s bs"
| "i32s _ = []"

definition of_i32s :: "int list \<Rightarrow> nat list" where
  "of_i32s xs = concat (map (\<lambda>i. le_bytes 4 (of_signed 32 i)) xs)"

definition i16s :: "nat list \<Rightarrow> int list" where
  "i16s bs = map (to_signed 16) (le_units bs)"

definition of_i16s :: "int list \<Rightarrow> nat list" where
  "of_i16s xs = units_le (map (of_signed 16) xs)"

section \<open>x86\<close>

definition mm256_setzero_si256 :: "nat list" where "mm256_setzero_si256 = replicate 32 0"
definition mm_setzero_si128 :: "nat list" where "mm_setzero_si128 = replicate 16 0"

definition mm256_set1_epi32 :: "int \<Rightarrow> nat list" where "mm256_set1_epi32 k = of_i32s (replicate 8 k)"
definition mm256_set1_epi16 :: "int \<Rightarrow> nat list" where "mm256_set1_epi16 k = of_i16s (replicate 16 k)"

definition mm256_castsi256_si128 :: "nat list \<Rightarrow> nat list" where "mm256_castsi256_si128 r = take 16 r"
definition mm256_extracti128_si256 :: "nat list \<Rightarrow> nat \<Rightarrow> nat list" where "mm256_extracti128_si256 r i = take 16 (drop (16 * i) r)"
definition mm256_set_m128i :: "nat list \<Rightarrow> nat list \<Rightarrow> nat list" where "mm256_set_m128i hi lo = lo @ hi"

text \<open>A mask byte with its top bit set, as \<open>-1\<close>, selects zero.\<close>

definition mm_shuffle_epi8 :: "nat list \<Rightarrow> int list \<Rightarrow> nat list" where
  "mm_shuffle_epi8 r sel = map (\<lambda>k. if k < 0 then 0 else r ! nat (k mod 16)) sel"

text \<open>Interleaving units of some bytes of two registers.\<close>

fun interleave :: "nat \<Rightarrow> nat list \<Rightarrow> nat list \<Rightarrow> nat \<Rightarrow> nat list" where
  "interleave k a b 0 = []"
| "interleave k a b (Suc n) = take k a @ take k b @ interleave k (drop k a) (drop k b) n"

definition mm_unpacklo_epi8 :: "nat list \<Rightarrow> nat list \<Rightarrow> nat list" where "mm_unpacklo_epi8 a b = interleave 1 a b 8"
definition mm_unpackhi_epi8 :: "nat list \<Rightarrow> nat list \<Rightarrow> nat list" where "mm_unpackhi_epi8 a b = interleave 1 (drop 8 a) (drop 8 b) 8"
definition mm_unpacklo_epi16 :: "nat list \<Rightarrow> nat list \<Rightarrow> nat list" where "mm_unpacklo_epi16 a b = interleave 2 a b 4"
definition mm_unpackhi_epi16 :: "nat list \<Rightarrow> nat list \<Rightarrow> nat list" where "mm_unpackhi_epi16 a b = interleave 2 (drop 8 a) (drop 8 b) 4"
definition mm_unpacklo_epi32 :: "nat list \<Rightarrow> nat list \<Rightarrow> nat list" where "mm_unpacklo_epi32 a b = interleave 4 a b 2"

text \<open>The 256-bit forms work on each half.\<close>

definition mm256_unpacklo_epi8 :: "nat list \<Rightarrow> nat list \<Rightarrow> nat list" where
  "mm256_unpacklo_epi8 a b = mm_unpacklo_epi8 (take 16 a) (take 16 b) @ mm_unpacklo_epi8 (drop 16 a) (drop 16 b)"

definition mm256_unpackhi_epi8 :: "nat list \<Rightarrow> nat list \<Rightarrow> nat list" where
  "mm256_unpackhi_epi8 a b = mm_unpackhi_epi8 (take 16 a) (take 16 b) @ mm_unpackhi_epi8 (drop 16 a) (drop 16 b)"

definition mm256_mullo_epi32 :: "nat list \<Rightarrow> nat list \<Rightarrow> nat list" where
  "mm256_mullo_epi32 a b = of_i32s (map2 (\<lambda>x y. wrap 32 (x * y)) (i32s a) (i32s b))"

definition mm256_add_epi32 :: "nat list \<Rightarrow> nat list \<Rightarrow> nat list" where
  "mm256_add_epi32 a b = of_i32s (map2 (\<lambda>x y. wrap 32 (x + y)) (i32s a) (i32s b))"

definition mm256_srai_epi32 :: "nat list \<Rightarrow> nat \<Rightarrow> nat list" where
  "mm256_srai_epi32 a n = of_i32s (map (\<lambda>x. x div 2 ^ n) (i32s a))"

definition mm256_max_epi32 :: "nat list \<Rightarrow> nat list \<Rightarrow> nat list" where
  "mm256_max_epi32 a b = of_i32s (map2 max (i32s a) (i32s b))"

definition mm256_min_epi32 :: "nat list \<Rightarrow> nat list \<Rightarrow> nat list" where
  "mm256_min_epi32 a b = of_i32s (map2 min (i32s a) (i32s b))"

definition mm256_packs_epi32 :: "nat list \<Rightarrow> nat list \<Rightarrow> nat list" where
  "mm256_packs_epi32 a b =
     (let x = i32s a; y = i32s b in of_i16s (map saturate16 (take 4 x @ take 4 y @ drop 4 x @ drop 4 y)))"

definition mm256_packus_epi16 :: "nat list \<Rightarrow> nat list \<Rightarrow> nat list" where
  "mm256_packus_epi16 a b = (let x = i16s a; y = i16s b in map saturate_u8 (take 8 x @ take 8 y @ drop 8 x @ drop 8 y))"

definition mm256_add_epi16 :: "nat list \<Rightarrow> nat list \<Rightarrow> nat list" where
  "mm256_add_epi16 a b = of_i16s (map2 (\<lambda>x y. wrap 16 (x + y)) (i16s a) (i16s b))"

fun pair_sums :: "int list \<Rightarrow> int list" where
  "pair_sums (x # y # xs) = wrap 16 (x + y) # pair_sums xs"
| "pair_sums _ = []"

definition mm256_hadd_epi16 :: "nat list \<Rightarrow> nat list \<Rightarrow> nat list" where
  "mm256_hadd_epi16 a b =
     (let x = i16s a; y = i16s b
      in of_i16s (pair_sums (take 8 x) @ pair_sums (take 8 y) @ pair_sums (drop 8 x) @ pair_sums (drop 8 y)))"

definition mm256_srli_epi16 :: "nat list \<Rightarrow> nat \<Rightarrow> nat list" where
  "mm256_srli_epi16 a n = units_le (map (\<lambda>u. u div 2 ^ n) (le_units a))"

definition mm256_permute4x64_epi64 :: "nat list \<Rightarrow> nat \<Rightarrow> nat list" where
  "mm256_permute4x64_epi64 a imm = concat (map (\<lambda>i. take 8 (drop (8 * (imm div 4 ^ i mod 4)) a)) [0, 1, 2, 3])"

section \<open>NEON\<close>

text \<open>\<open>vld4_u8\<close>: 32 bytes, deinterleaved into four vectors of eight.\<close>

definition vld4_u8 :: "nat list \<Rightarrow> nat list \<times> nat list \<times> nat list \<times> nat list" where
  "vld4_u8 bs = (let lane = (\<lambda>c. map (\<lambda>i. bs ! (4 * i + c)) [0..<8]) in (lane 0, lane 1, lane 2, lane 3))"

text \<open>Widening \<open>vmovl\<close> keeps the values; the halves are \<open>vget_low\<close> and \<open>vget_high\<close>.\<close>

definition vmovl :: "nat list \<Rightarrow> nat list" where "vmovl xs = xs"
definition vget_low :: "nat list \<Rightarrow> nat list" where "vget_low xs = take (length xs div 2) xs"
definition vget_high :: "nat list \<Rightarrow> nat list" where "vget_high xs = drop (length xs div 2) xs"
definition vreinterpretq_s32_u32 :: "nat list \<Rightarrow> int list" where "vreinterpretq_s32_u32 xs = map (to_signed 32) xs"
definition vdupq_n_s32 :: "int \<Rightarrow> int list" where "vdupq_n_s32 k = replicate 4 k"
definition vmulq_s32 :: "int list \<Rightarrow> int list \<Rightarrow> int list" where "vmulq_s32 = map2 (\<lambda>x y. wrap 32 (x * y))"
definition vaddq_s32 :: "int list \<Rightarrow> int list \<Rightarrow> int list" where "vaddq_s32 = map2 (\<lambda>x y. wrap 32 (x + y))"

definition vmlaq_s32 :: "int list \<Rightarrow> int list \<Rightarrow> int list \<Rightarrow> int list" where
  "vmlaq_s32 a b c = map2 (\<lambda>x y. wrap 32 (x + y)) a (map2 (\<lambda>x y. wrap 32 (x * y)) b c)"

definition vshrq_n_s32 :: "int list \<Rightarrow> nat \<Rightarrow> int list" where "vshrq_n_s32 a n = map (\<lambda>x. x div 2 ^ n) a"
definition vmaxq_s32 :: "int list \<Rightarrow> int list \<Rightarrow> int list" where "vmaxq_s32 = map2 max"
definition vminq_s32 :: "int list \<Rightarrow> int list \<Rightarrow> int list" where "vminq_s32 = map2 min"
definition vmovn_s32 :: "int list \<Rightarrow> int list" where "vmovn_s32 a = map (wrap 16) a"
definition vcombine_s16 :: "int list \<Rightarrow> int list \<Rightarrow> int list" where "vcombine_s16 lo hi = lo @ hi"
definition vqmovun_s16 :: "int list \<Rightarrow> nat list" where "vqmovun_s16 a = map saturate_u8 a"
definition vaddq_u16 :: "nat list \<Rightarrow> nat list \<Rightarrow> nat list" where "vaddq_u16 = map2 (\<lambda>x y. (x + y) mod 2 ^ 16)"
definition vdupq_n_u16 :: "nat \<Rightarrow> nat list" where "vdupq_n_u16 k = replicate 8 k"
definition vshrq_n_u16 :: "nat list \<Rightarrow> nat \<Rightarrow> nat list" where "vshrq_n_u16 a n = map (\<lambda>x. x div 2 ^ n) a"
definition vmovn_u16 :: "nat list \<Rightarrow> nat list" where "vmovn_u16 a = map (\<lambda>x. x mod 256) a"

fun pair_sums_u16 :: "nat list \<Rightarrow> nat list" where
  "pair_sums_u16 (x # y # xs) = (x + y) mod 2 ^ 16 # pair_sums_u16 xs"
| "pair_sums_u16 _ = []"

definition vpaddq_u16 :: "nat list \<Rightarrow> nat list \<Rightarrow> nat list" where "vpaddq_u16 a b = pair_sums_u16 a @ pair_sums_u16 b"

section \<open>Lemmas\<close>

lemma wrap_id [simp]: "in_range w i \<Longrightarrow> 0 < w \<Longrightarrow> wrap w i = i"
proof -
  assume r: "in_range w i" and w: "0 < w"
  have "(2 :: int) ^ w = 2 * 2 ^ (w - 1)" using w by (cases w) simp_all
  with r have "(i + 2 ^ (w - 1)) mod 2 ^ w = i + 2 ^ (w - 1)" by (intro mod_pos_pos_trivial) (auto simp: in_range_def)
  then show ?thesis by (simp add: wrap_def)
qed

lemma to_of_signed: "in_range w i \<Longrightarrow> 0 < w \<Longrightarrow> to_signed w (of_signed w i) = i"
proof -
  assume r: "in_range w i" "0 < w"
  have "int (of_signed w i) = i mod 2 ^ w" by (simp add: of_signed_def)
  then have "to_signed w (of_signed w i) = wrap w i" by (simp add: to_signed_def wrap_def mod_add_left_eq)
  with r show ?thesis by simp
qed

lemma of_signed_less: "of_signed w i < 2 ^ w"
proof -
  have "i mod 2 ^ w < 2 ^ w" "0 \<le> i mod 2 ^ w" by simp_all
  then have "nat (i mod 2 ^ w) < nat (2 ^ w)" by simp
  then show ?thesis by (simp add: of_signed_def nat_power_eq)
qed

lemma of_i32s_simps [simp]: "of_i32s [] = []" "of_i32s (x # xs) = le_bytes 4 (of_signed 32 x) @ of_i32s xs" "of_i32s (xs @ ys) = of_i32s xs @ of_i32s ys"
  by (simp_all add: of_i32s_def)

lemma i32s_of: "list_all (in_range 32) xs \<Longrightarrow> i32s (of_i32s xs) = xs"
proof (induction xs)
  case (Cons x xs)
  have "from_le (le_bytes 4 (of_signed 32 x)) = of_signed 32 x" using of_signed_less[of 32 x] by (intro from_le_small) simp
  moreover obtain a b c d where "le_bytes 4 (of_signed 32 x) = [a, b, c, d]" using le_bytes_4 by blast
  ultimately show ?case using Cons by (simp del: from_le.simps add: to_of_signed)
qed simp

lemma i16s_of: "list_all (in_range 16) xs \<Longrightarrow> i16s (of_i16s xs) = xs"
proof -
  assume r: "list_all (in_range 16) xs"
  have "list_all (\<lambda>u. u < 0x10000) (map (of_signed 16) xs)" using of_signed_less[of 16] by (simp add: list_all_iff)
  then show ?thesis using r by (simp add: i16s_def of_i16s_def le_units_le map_idI list_all_iff to_of_signed)
qed

end
