(* ===== verification/Wrdp_Color.thy ===== *)
theory Wrdp_Color
  imports Wrdp_Simd
begin

text \<open>
  Colour conversion (\<open>src/src/rdp/channels/graphics/egfx/color/convert.rs\<close>): BGRA to YUV 4:4:4, in the scalar form and in
  the AVX2 and NEON forms, and which of them runs.

  Planes and buffers are lists of bytes as natural numbers.  The scalar arithmetic on \<open>i32\<close> is that of the integers; \<open>no_i32_overflow\<close> shows that
  it never leaves the range.  A failed assertion and a memory access outside a slice give \<open>None\<close>.
\<close>

section \<open>Colour matrices\<close>

datatype color_matrix = BT601 | BT709 | OpenH264

definition matrix_auto_select :: "nat \<Rightarrow> nat \<Rightarrow> color_matrix" where
  "matrix_auto_select width height = (if width \<ge> 1280 \<and> height \<ge> 720 then BT709 else BT601)"

fun y_coefficients_fixed :: "color_matrix \<Rightarrow> int \<times> int \<times> int" where
  "y_coefficients_fixed BT601 = (19595, 38470, 7471)"
| "y_coefficients_fixed BT709 = (13933, 46871, 4732)"
| "y_coefficients_fixed OpenH264 = (16896, 33024, 6400)"

definition matrix_is_limited_range :: "color_matrix \<Rightarrow> bool" where
  "matrix_is_limited_range m \<longleftrightarrow> m = OpenH264"

fun u_coefficients_fixed :: "color_matrix \<Rightarrow> int \<times> int \<times> int" where
  "u_coefficients_fixed BT601 = (- 11056, - 21712, 32768)"
| "u_coefficients_fixed BT709 = (- 7508, - 25260, 32768)"
| "u_coefficients_fixed OpenH264 = (- 9728, - 18944, 28672)"

fun v_coefficients_fixed :: "color_matrix \<Rightarrow> int \<times> int \<times> int" where
  "v_coefficients_fixed BT601 = (32768, - 27440, - 5328)"
| "v_coefficients_fixed BT709 = (32768, - 29764, - 3004)"
| "v_coefficients_fixed OpenH264 = (28672, - 24064, - 4608)"

section \<open>One sample\<close>

record bgra_sample =
  smp_r :: int
  smp_g :: int
  smp_b :: int

text \<open>Indexing panics past the end.\<close>

definition byte_at :: "nat list \<Rightarrow> nat \<Rightarrow> nat option" where
  "byte_at bs i = (if i < length bs then Some (bs ! i) else None)"

definition from_bgra_slice :: "nat list \<Rightarrow> nat \<Rightarrow> bgra_sample option" where
  "from_bgra_slice bgra i =
     (case (byte_at bgra (i * 4), byte_at bgra (i * 4 + 1), byte_at bgra (i * 4 + 2)) of
        (Some b, Some g, Some r) \<Rightarrow> Some \<lparr>smp_r = int r, smp_g = int g, smp_b = int b\<rparr>
      | _ \<Rightarrow> None)"

definition weighted :: "int \<times> int \<times> int \<Rightarrow> bgra_sample \<Rightarrow> int" where
  "weighted k s = (case k of (kr, kg, kb) \<Rightarrow> kr * smp_r s + kg * smp_g s + kb * smp_b s + 32768)"

definition convert_bgra_sample_to_yuv :: "bgra_sample \<Rightarrow> color_matrix \<Rightarrow> nat \<times> nat \<times> nat" where
  "convert_bgra_sample_to_yuv s m =
     (let limited_range = matrix_is_limited_range m;
          y_base = weighted (y_coefficients_fixed m) s div 2 ^ 16;
          y_val = (if limited_range then clamp_int 16 235 (y_base + 16) else clamp_int 0 255 y_base);
          u_val = weighted (u_coefficients_fixed m) s div 2 ^ 16 + 128;
          u_val = (if limited_range then clamp_int 16 240 u_val else clamp_int 0 255 u_val);
          v_val = weighted (v_coefficients_fixed m) s div 2 ^ 16 + 128;
          v_val = (if limited_range then clamp_int 16 240 v_val else clamp_int 0 255 v_val)
      in (nat y_val, nat u_val, nat v_val))"

section \<open>Frames\<close>

record yuv444_frame =
  f_y :: "nat list"
  f_u :: "nat list"
  f_v :: "nat list"
  f_width :: nat
  f_height :: nat

definition frame444_new :: "nat \<Rightarrow> nat \<Rightarrow> yuv444_frame" where
  "frame444_new w h = \<lparr>f_y = replicate (w * h) 0, f_u = replicate (w * h) 128, f_v = replicate (w * h) 128, f_width = w, f_height = h\<rparr>"

definition frame_pixel_count :: "yuv444_frame \<Rightarrow> nat" where
  "frame_pixel_count f = f_width f * f_height f"

text \<open>Storing into the three planes at an offset.\<close>

definition store3 :: "nat \<Rightarrow> nat list \<times> nat list \<times> nat list \<Rightarrow> yuv444_frame \<Rightarrow> yuv444_frame option" where
  "store3 off planes f =
     (case planes of (y, u, v) \<Rightarrow>
        (case (store off y (f_y f), store off u (f_u f), store off v (f_v f)) of
           (Some y', Some u', Some v') \<Rightarrow> Some (f\<lparr>f_y := y', f_u := u', f_v := v'\<rparr>)
         | _ \<Rightarrow> None))"

definition scalar_step :: "nat list \<Rightarrow> color_matrix \<Rightarrow> nat \<Rightarrow> yuv444_frame \<Rightarrow> yuv444_frame option" where
  "scalar_step bgra m i f =
     (case from_bgra_slice bgra i of
        None \<Rightarrow> None
      | Some s \<Rightarrow> (case convert_bgra_sample_to_yuv s m of (y, u, v) \<Rightarrow> store3 i ([y], [u], [v]) f))"

definition bgra_to_yuv444_scalar :: "nat list \<Rightarrow> color_matrix \<Rightarrow> yuv444_frame \<Rightarrow> yuv444_frame option" where
  "bgra_to_yuv444_scalar bgra m f = for_each (scalar_step bgra m) [0..<frame_pixel_count f] f"

text \<open>The loops over what is left after the vector loops repeat the full-range arithmetic.\<close>

definition remainder_step :: "nat list \<Rightarrow> color_matrix \<Rightarrow> nat \<Rightarrow> yuv444_frame \<Rightarrow> yuv444_frame option" where
  "remainder_step bgra m i f =
     (case from_bgra_slice bgra i of
        None \<Rightarrow> None
      | Some s \<Rightarrow>
          let y_val = clamp_int 0 255 (weighted (y_coefficients_fixed m) s div 2 ^ 16);
              u_val = clamp_int 0 255 (weighted (u_coefficients_fixed m) s div 2 ^ 16 + 128);
              v_val = clamp_int 0 255 (weighted (v_coefficients_fixed m) s div 2 ^ 16 + 128)
          in store3 i ([nat y_val], [nat u_val], [nat v_val]) f)"

section \<open>AVX2\<close>

definition shuffle_b :: "int list" where "shuffle_b = [0, 4, 8, 12, -1, -1, -1, -1, -1, -1, -1, -1, -1, -1, -1, -1]"
definition shuffle_g :: "int list" where "shuffle_g = [1, 5, 9, 13, -1, -1, -1, -1, -1, -1, -1, -1, -1, -1, -1, -1]"
definition shuffle_r :: "int list" where "shuffle_r = [2, 6, 10, 14, -1, -1, -1, -1, -1, -1, -1, -1, -1, -1, -1, -1]"
definition shuffle_mask :: "int list" where "shuffle_mask = [0, 1, 2, 3, 8, 9, 10, 11, -1, -1, -1, -1, -1, -1, -1, -1]"

text \<open>One channel of eight pixels as eight 32-bit lanes.\<close>

definition avx2_channel :: "int list \<Rightarrow> nat list \<Rightarrow> nat list" where
  "avx2_channel shuffle pixels =
     (let lo = mm256_castsi256_si128 pixels;
          hi = mm256_extracti128_si256 pixels 1;
          c_lo = mm_shuffle_epi8 lo shuffle;
          c_hi = mm_shuffle_epi8 hi shuffle;
          c_packed = mm_unpacklo_epi32 c_lo c_hi;
          zero_128 = mm_setzero_si128;
          c_16 = mm_unpacklo_epi8 c_packed zero_128;
          c_32_lo = mm_unpacklo_epi16 c_16 zero_128;
          c_32_hi = mm_unpackhi_epi16 c_16 zero_128
      in mm256_set_m128i c_32_hi c_32_lo)"

definition avx2_weighted :: "int \<times> int \<times> int \<Rightarrow> nat list \<Rightarrow> nat list \<Rightarrow> nat list \<Rightarrow> nat list" where
  "avx2_weighted k r_32 g_32 b_32 =
     (case k of (kr, kg, kb) \<Rightarrow>
        let c_r = mm256_mullo_epi32 r_32 (mm256_set1_epi32 kr);
            c_g = mm256_mullo_epi32 g_32 (mm256_set1_epi32 kg);
            c_b = mm256_mullo_epi32 b_32 (mm256_set1_epi32 kb);
            c_sum = mm256_add_epi32 (mm256_add_epi32 c_r c_g) c_b;
            c_sum = mm256_add_epi32 c_sum (mm256_set1_epi32 32768)
        in mm256_srai_epi32 c_sum 16)"

definition avx2_clamp :: "nat list \<Rightarrow> nat list" where
  "avx2_clamp c = mm256_min_epi32 (mm256_max_epi32 c mm256_setzero_si256) (mm256_set1_epi32 255)"

definition avx2_pack :: "nat list \<Rightarrow> nat list" where
  "avx2_pack c =
     (let c_16 = mm256_packs_epi32 c c;
          c_8 = mm256_packus_epi16 c_16 c_16
      in take 8 (mm_shuffle_epi8 (mm256_castsi256_si128 c_8) shuffle_mask))"

definition avx2_block :: "color_matrix \<Rightarrow> nat list \<Rightarrow> nat list \<times> nat list \<times> nat list" where
  "avx2_block m pixels =
     (let b_32 = avx2_channel shuffle_b pixels;
          g_32 = avx2_channel shuffle_g pixels;
          r_32 = avx2_channel shuffle_r pixels;
          offset_128 = mm256_set1_epi32 128;
          y_val = avx2_clamp (avx2_weighted (y_coefficients_fixed m) r_32 g_32 b_32);
          u_val = avx2_clamp (mm256_add_epi32 (avx2_weighted (u_coefficients_fixed m) r_32 g_32 b_32) offset_128);
          v_val = avx2_clamp (mm256_add_epi32 (avx2_weighted (v_coefficients_fixed m) r_32 g_32 b_32) offset_128)
      in (avx2_pack y_val, avx2_pack u_val, avx2_pack v_val))"

definition avx2_step :: "nat list \<Rightarrow> color_matrix \<Rightarrow> nat \<Rightarrow> yuv444_frame \<Rightarrow> yuv444_frame option" where
  "avx2_step bgra m i f =
     (let base = i * 8 in
      case load 32 (base * 4) bgra of None \<Rightarrow> None | Some pixels \<Rightarrow> store3 base (avx2_block m pixels) f)"

definition bgra_to_yuv444_avx2_impl :: "nat list \<Rightarrow> color_matrix \<Rightarrow> yuv444_frame \<Rightarrow> yuv444_frame option" where
  "bgra_to_yuv444_avx2_impl bgra m f =
     (let pixel_count = frame_pixel_count f; simd_count = pixel_count div 8
      in case for_each (avx2_step bgra m) [0..<simd_count] f of
           None \<Rightarrow> None
         | Some f' \<Rightarrow> for_each (remainder_step bgra m) [simd_count * 8..<pixel_count] f')"

section \<open>NEON\<close>

definition neon_weighted :: "int \<times> int \<times> int \<Rightarrow> int list \<Rightarrow> int list \<Rightarrow> int list \<Rightarrow> int list" where
  "neon_weighted k r_32 g_32 b_32 =
     (case k of (kr, kg, kb) \<Rightarrow>
        let c = vmulq_s32 r_32 (vdupq_n_s32 kr);
            c = vmlaq_s32 c g_32 (vdupq_n_s32 kg);
            c = vmlaq_s32 c b_32 (vdupq_n_s32 kb);
            c = vaddq_s32 c (vdupq_n_s32 32768)
        in vshrq_n_s32 c 16)"

definition neon_clamp :: "int list \<Rightarrow> int list" where
  "neon_clamp c = vminq_s32 (vmaxq_s32 c (vdupq_n_s32 0)) (vdupq_n_s32 255)"

definition neon_pack :: "int list \<Rightarrow> int list \<Rightarrow> nat list" where
  "neon_pack lo hi = vqmovun_s16 (vcombine_s16 (vmovn_s32 lo) (vmovn_s32 hi))"

definition neon_block :: "color_matrix \<Rightarrow> nat list \<Rightarrow> nat list \<times> nat list \<times> nat list" where
  "neon_block m bs =
     (case vld4_u8 bs of (b_8, g_8, r_8, a_8) \<Rightarrow>
        let b_16 = vmovl b_8; g_16 = vmovl g_8; r_16 = vmovl r_8;
            b_32_lo = vreinterpretq_s32_u32 (vmovl (vget_low b_16));
            g_32_lo = vreinterpretq_s32_u32 (vmovl (vget_low g_16));
            r_32_lo = vreinterpretq_s32_u32 (vmovl (vget_low r_16));
            b_32_hi = vreinterpretq_s32_u32 (vmovl (vget_high b_16));
            g_32_hi = vreinterpretq_s32_u32 (vmovl (vget_high g_16));
            r_32_hi = vreinterpretq_s32_u32 (vmovl (vget_high r_16));
            offset_128 = vdupq_n_s32 128;
            y_lo = neon_clamp (neon_weighted (y_coefficients_fixed m) r_32_lo g_32_lo b_32_lo);
            y_hi = neon_clamp (neon_weighted (y_coefficients_fixed m) r_32_hi g_32_hi b_32_hi);
            u_lo = neon_clamp (vaddq_s32 (neon_weighted (u_coefficients_fixed m) r_32_lo g_32_lo b_32_lo) offset_128);
            u_hi = neon_clamp (vaddq_s32 (neon_weighted (u_coefficients_fixed m) r_32_hi g_32_hi b_32_hi) offset_128);
            v_lo = neon_clamp (vaddq_s32 (neon_weighted (v_coefficients_fixed m) r_32_lo g_32_lo b_32_lo) offset_128);
            v_hi = neon_clamp (vaddq_s32 (neon_weighted (v_coefficients_fixed m) r_32_hi g_32_hi b_32_hi) offset_128)
        in (neon_pack y_lo y_hi, neon_pack u_lo u_hi, neon_pack v_lo v_hi))"

definition neon_step :: "nat list \<Rightarrow> color_matrix \<Rightarrow> nat \<Rightarrow> yuv444_frame \<Rightarrow> yuv444_frame option" where
  "neon_step bgra m i f =
     (let base = i * 8 in
      case load 32 (base * 4) bgra of None \<Rightarrow> None | Some bs \<Rightarrow> store3 base (neon_block m bs) f)"

definition bgra_to_yuv444_neon :: "nat list \<Rightarrow> color_matrix \<Rightarrow> yuv444_frame \<Rightarrow> yuv444_frame option" where
  "bgra_to_yuv444_neon bgra m f =
     (let pixel_count = frame_pixel_count f; simd_count = pixel_count div 8
      in case for_each (neon_step bgra m) [0..<simd_count] f of
           None \<Rightarrow> None
         | Some f' \<Rightarrow> for_each (remainder_step bgra m) [simd_count * 8..<pixel_count] f')"

section \<open>Dispatch\<close>

text \<open>What the processor has: AVX2 is detected when running, NEON when compiling.\<close>

datatype vector_unit = Avx2 | Neon | No_simd

definition bgra_to_yuv444 :: "vector_unit \<Rightarrow> nat list \<Rightarrow> nat \<Rightarrow> nat \<Rightarrow> color_matrix \<Rightarrow> yuv444_frame option" where
  "bgra_to_yuv444 unit bgra w h m =
     (if length bgra \<noteq> w * h * 4 then None
      else let f = frame444_new w h in
           if \<not> matrix_is_limited_range m \<and> unit = Avx2 then bgra_to_yuv444_avx2_impl bgra m f
           else if \<not> matrix_is_limited_range m \<and> unit = Neon then bgra_to_yuv444_neon bgra m f
           else bgra_to_yuv444_scalar bgra m f)"

section \<open>Lanes of eight pixels\<close>

lemma interleave_numeral [simp]:
  "interleave k a b (numeral n) = take k a @ take k b @ interleave k (drop k a) (drop k b) (pred_numeral n)"
  by (simp add: numeral_eq_Suc)

lemma replicate_numeral_Cons: "replicate (numeral n) x = x # replicate (pred_numeral n) x"
  by (simp add: numeral_eq_Suc)

abbreviation upto8 :: "nat list" where "upto8 \<equiv> [0, 1, 2, 3, 4, 5, 6, 7]"

definition lanes8 :: "(nat \<Rightarrow> int) \<Rightarrow> nat list" where
  "lanes8 F = of_i32s (map F upto8)"

definition in32 :: "(nat \<Rightarrow> int) \<Rightarrow> bool" where
  "in32 F \<longleftrightarrow> (\<forall>j. in_range 32 (F j))"

lemma i32s_lanes8: "in32 F \<Longrightarrow> i32s (lanes8 F) = map F upto8"
  unfolding lanes8_def by (rule i32s_of) (simp add: in32_def)

lemma set1_lanes8: "mm256_set1_epi32 k = lanes8 (\<lambda>_. k)"
  by (simp add: mm256_set1_epi32_def lanes8_def replicate_numeral_Cons)

lemma zero_lanes8: "mm256_setzero_si256 = lanes8 (\<lambda>_. 0)"
  by (simp add: mm256_setzero_si256_def lanes8_def of_signed_def le_bytes_4 replicate_numeral_Cons)

lemma map2_lanes: "map2 h (map F xs) (map G xs) = map (\<lambda>j. h (F j) (G j)) xs"
  by (induction xs) simp_all

lemma lanes8_map2: "in32 F \<Longrightarrow> in32 G \<Longrightarrow> of_i32s (map2 h (i32s (lanes8 F)) (i32s (lanes8 G))) = lanes8 (\<lambda>j. h (F j) (G j))"
  by (simp only: i32s_lanes8 map2_lanes) (simp only: lanes8_def)

lemma lanes8_mullo:
  assumes "in32 F" "in32 G" "in32 (\<lambda>j. F j * G j)" shows "mm256_mullo_epi32 (lanes8 F) (lanes8 G) = lanes8 (\<lambda>j. F j * G j)"
  unfolding mm256_mullo_epi32_def lanes8_map2[OF assms(1,2)] using assms(3) by (simp add: in32_def)

lemma lanes8_add:
  assumes "in32 F" "in32 G" "in32 (\<lambda>j. F j + G j)" shows "mm256_add_epi32 (lanes8 F) (lanes8 G) = lanes8 (\<lambda>j. F j + G j)"
  unfolding mm256_add_epi32_def lanes8_map2[OF assms(1,2)] using assms(3) by (simp add: in32_def)

lemma lanes8_srai: "in32 F \<Longrightarrow> mm256_srai_epi32 (lanes8 F) n = lanes8 (\<lambda>j. F j div 2 ^ n)"
  by (simp only: mm256_srai_epi32_def i32s_lanes8) (simp add: lanes8_def)

lemma lanes8_clamp:
  assumes "in32 F" shows "avx2_clamp (lanes8 F) = lanes8 (\<lambda>j. clamp_int 0 255 (F j))"
proof -
  have k: "in32 (\<lambda>_. 0)" "in32 (\<lambda>_. 255)" "in32 (\<lambda>j. max (F j) 0)" using assms by (auto simp: in32_def in_range_def)
  show ?thesis
    unfolding avx2_clamp_def zero_lanes8 set1_lanes8 mm256_max_epi32_def mm256_min_epi32_def lanes8_map2[OF assms k(1)] lanes8_map2[OF k(3,2)]
    by (simp add: clamp_int_def min_max_distrib1 max.commute min.commute)
qed

lemma byte_lane: "x < 256 \<Longrightarrow> le_bytes 4 (of_signed 32 (int x)) = [x, 0, 0, 0]"
  by (simp add: of_signed_def le_bytes_4)

abbreviation upto32 :: "nat list" where
  "upto32 \<equiv> [0, 1, 2, 3, 4, 5, 6, 7, 8, 9, 10, 11, 12, 13, 14, 15, 16, 17, 18, 19, 20, 21, 22, 23, 24, 25, 26, 27, 28, 29, 30, 31]"

lemma upto32: "length xs = 32 \<Longrightarrow> xs = map ((!) xs) upto32"
proof -
  assume "length xs = 32"
  moreover have "[0..<32] = upto32" by code_simp
  ultimately show ?thesis using map_nth[of xs] by simp
qed

lemma zeros16: "mm_setzero_si128 = [0, 0, 0, 0, 0, 0, 0, 0, 0, 0, 0, 0, 0, 0, 0, 0]"
  by (simp add: mm_setzero_si128_def replicate_numeral_Cons)

lemma unpack_bytes:
  "mm_unpacklo_epi32 [x0, x1, x2, x3, 0, 0, 0, 0, 0, 0, 0, 0, 0, 0, 0, 0] [x4, x5, x6, x7, 0, 0, 0, 0, 0, 0, 0, 0, 0, 0, 0, 0] =
     [x0, x1, x2, x3, x4, x5, x6, x7, 0, 0, 0, 0, 0, 0, 0, 0]"
  "mm_unpacklo_epi8 [x0, x1, x2, x3, x4, x5, x6, x7, 0, 0, 0, 0, 0, 0, 0, 0] mm_setzero_si128 =
     [x0, 0, x1, 0, x2, 0, x3, 0, x4, 0, x5, 0, x6, 0, x7, 0]"
  "mm_unpacklo_epi16 [x0, 0, x1, 0, x2, 0, x3, 0, x4, 0, x5, 0, x6, 0, x7, 0] mm_setzero_si128 =
     [x0, 0, 0, 0, x1, 0, 0, 0, x2, 0, 0, 0, x3, 0, 0, 0]"
  "mm_unpackhi_epi16 [x0, 0, x1, 0, x2, 0, x3, 0, x4, 0, x5, 0, x6, 0, x7, 0] mm_setzero_si128 =
     [x4, 0, 0, 0, x5, 0, 0, 0, x6, 0, 0, 0, x7, 0, 0, 0]"
  by (simp_all add: zeros16 mm_unpacklo_epi32_def mm_unpacklo_epi8_def mm_unpacklo_epi16_def mm_unpackhi_epi16_def)

lemma halves:
  "mm256_castsi256_si128 (map p upto32) = map p [0, 1, 2, 3, 4, 5, 6, 7, 8, 9, 10, 11, 12, 13, 14, 15]"
  "mm256_extracti128_si256 (map p upto32) 1 = map (\<lambda>i. p (i + 16)) [0, 1, 2, 3, 4, 5, 6, 7, 8, 9, 10, 11, 12, 13, 14, 15]"
  by (simp_all add: mm256_castsi256_si128_def mm256_extracti128_si256_def)

lemma shuffles:
  fixes q :: "nat \<Rightarrow> nat"
  defines "r \<equiv> map q [0, 1, 2, 3, 4, 5, 6, 7, 8, 9, 10, 11, 12, 13, 14, 15]"
  shows "mm_shuffle_epi8 r shuffle_b = [q 0, q 4, q 8, q 12, 0, 0, 0, 0, 0, 0, 0, 0, 0, 0, 0, 0]"
    "mm_shuffle_epi8 r shuffle_g = [q 1, q 5, q 9, q 13, 0, 0, 0, 0, 0, 0, 0, 0, 0, 0, 0, 0]"
    "mm_shuffle_epi8 r shuffle_r = [q 2, q 6, q 10, q 14, 0, 0, 0, 0, 0, 0, 0, 0, 0, 0, 0, 0]"
  by (simp_all add: r_def mm_shuffle_epi8_def shuffle_b_def shuffle_g_def shuffle_r_def)

lemma lanes8_bytes:
  assumes "x0 < 256" "x1 < 256" "x2 < 256" "x3 < 256" "x4 < 256" "x5 < 256" "x6 < 256" "x7 < 256"
  shows "mm256_set_m128i [x4, 0, 0, 0, x5, 0, 0, 0, x6, 0, 0, 0, x7, 0, 0, 0] [x0, 0, 0, 0, x1, 0, 0, 0, x2, 0, 0, 0, x3, 0, 0, 0] =
    of_i32s [int x0, int x1, int x2, int x3, int x4, int x5, int x6, int x7]"
  using assms by (simp add: mm256_set_m128i_def byte_lane)

lemma avx2_channels:
  assumes "\<And>i. p i < 256"
  shows "avx2_channel shuffle_b (map p upto32) = lanes8 (\<lambda>j. int (p (4 * j)))"
    "avx2_channel shuffle_g (map p upto32) = lanes8 (\<lambda>j. int (p (4 * j + 1)))"
    "avx2_channel shuffle_r (map p upto32) = lanes8 (\<lambda>j. int (p (4 * j + 2)))"
  unfolding avx2_channel_def Let_def halves shuffles unpack_bytes lanes8_bytes[OF assms assms assms assms assms assms assms assms] lanes8_def
  by (simp_all add: numeral_2_eq_2)

section \<open>The weighted sums stay in range\<close>

definition small_coefficients :: "int \<times> int \<times> int \<Rightarrow> bool" where
  "small_coefficients k \<longleftrightarrow> (case k of (kr, kg, kb) \<Rightarrow> \<bar>kr\<bar> \<le> 65536 \<and> \<bar>kg\<bar> \<le> 65536 \<and> \<bar>kb\<bar> \<le> 65536)"

lemma coefficients_small [simp]:
  "small_coefficients (y_coefficients_fixed m)" "small_coefficients (u_coefficients_fixed m)" "small_coefficients (v_coefficients_fixed m)"
  by (cases m; simp add: small_coefficients_def)+

definition byte_sample :: "bgra_sample \<Rightarrow> bool" where
  "byte_sample s \<longleftrightarrow> 0 \<le> smp_r s \<and> smp_r s \<le> 255 \<and> 0 \<le> smp_g s \<and> smp_g s \<le> 255 \<and> 0 \<le> smp_b s \<and> smp_b s \<le> 255"

lemma product_bound: "\<bar>k\<bar> \<le> 65536 \<Longrightarrow> 0 \<le> x \<Longrightarrow> x \<le> 255 \<Longrightarrow> \<bar>k * x\<bar> \<le> 16711680" for k x :: int
  using mult_mono[of "\<bar>k\<bar>" 65536 x 255] by (simp add: abs_mult)

text \<open>Every intermediate value of the fixed-point arithmetic is far inside \<open>i32\<close>.\<close>

lemma no_i32_overflow:
  assumes "small_coefficients (kr, kg, kb)" "byte_sample s"
  shows "\<bar>kr * smp_r s\<bar> \<le> 16711680" "\<bar>kr * smp_r s + kg * smp_g s\<bar> \<le> 33423360" "\<bar>kr * smp_r s + kg * smp_g s + kb * smp_b s\<bar> \<le> 50135040"
    "\<bar>kg * smp_g s\<bar> \<le> 16711680" "\<bar>kb * smp_b s\<bar> \<le> 16711680" "\<bar>weighted (kr, kg, kb) s\<bar> \<le> 50167808"
proof -
  have p: "\<bar>kr * smp_r s\<bar> \<le> 16711680" "\<bar>kg * smp_g s\<bar> \<le> 16711680" "\<bar>kb * smp_b s\<bar> \<le> 16711680"
    using assms by (auto simp: small_coefficients_def byte_sample_def intro: product_bound)
  then show "\<bar>kr * smp_r s\<bar> \<le> 16711680" "\<bar>kg * smp_g s\<bar> \<le> 16711680" "\<bar>kb * smp_b s\<bar> \<le> 16711680" by simp_all
  from p show "\<bar>kr * smp_r s + kg * smp_g s\<bar> \<le> 33423360" "\<bar>kr * smp_r s + kg * smp_g s + kb * smp_b s\<bar> \<le> 50135040"
    "\<bar>weighted (kr, kg, kb) s\<bar> \<le> 50167808"
    by (simp_all add: weighted_def)
qed

lemma in32I: "(\<And>j. \<bar>F j\<bar> \<le> 2000000000) \<Longrightarrow> in32 F"
proof -
  assume a: "\<And>j. \<bar>F j\<bar> \<le> 2000000000"
  have "in_range 32 (F j)" for j using a[of j] by (simp add: in_range_def abs_le_iff)
  then show ?thesis by (simp add: in32_def)
qed

lemma weighted_shift_bound:
  assumes "small_coefficients k" "byte_sample s" shows "- 1000 \<le> weighted k s div 2 ^ 16" "weighted k s div 2 ^ 16 \<le> 1000"
proof -
  have "\<bar>weighted k s\<bar> \<le> 50167808" using no_i32_overflow(6) assms by (cases k) auto
  then have "- 65536000 \<le> weighted k s" "weighted k s \<le> 65536000" by auto
  then show "- 1000 \<le> weighted k s div 2 ^ 16" "weighted k s div 2 ^ 16 \<le> 1000"
    using zdiv_mono1[of "- 65536000" "weighted k s" 65536] zdiv_mono1[of "weighted k s" 65536000 65536] by simp_all
qed

lemma avx2_weighted_lanes:
  assumes k: "small_coefficients k" and s: "\<And>j. byte_sample (s j)"
  shows "avx2_weighted k (lanes8 (\<lambda>j. smp_r (s j))) (lanes8 (\<lambda>j. smp_g (s j))) (lanes8 (\<lambda>j. smp_b (s j))) = lanes8 (\<lambda>j. weighted k (s j) div 2 ^ 16)"
    "in32 (\<lambda>j. weighted k (s j) div 2 ^ 16)" "in32 (\<lambda>j. weighted k (s j) div 2 ^ 16 + 128)"
proof -
  obtain kr kg kb where k': "k = (kr, kg, kb)" by (cases k)
  note b = no_i32_overflow[OF k[unfolded k'] s]
  have ks: "\<bar>kr\<bar> \<le> 65536" "\<bar>kg\<bar> \<le> 65536" "\<bar>kb\<bar> \<le> 65536" using k by (auto simp: small_coefficients_def k')
  have sb: "\<bar>smp_r (s j)\<bar> \<le> 255" "\<bar>smp_g (s j)\<bar> \<le> 255" "\<bar>smp_b (s j)\<bar> \<le> 255" for j using s[of j] by (auto simp: byte_sample_def)
  have c: "in32 (\<lambda>j. smp_r (s j))" "in32 (\<lambda>j. smp_g (s j))" "in32 (\<lambda>j. smp_b (s j))" "in32 (\<lambda>_. kr)" "in32 (\<lambda>_. kg)" "in32 (\<lambda>_. kb)" "in32 (\<lambda>_. 32768)"
    by (rule in32I, use sb ks in \<open>simp add: order_trans[OF sb(1)] order_trans[OF sb(2)] order_trans[OF sb(3)]\<close>)+
  have m: "in32 (\<lambda>j. smp_r (s j) * kr)" "in32 (\<lambda>j. smp_g (s j) * kg)" "in32 (\<lambda>j. smp_b (s j) * kb)"
    "in32 (\<lambda>j. smp_r (s j) * kr + smp_g (s j) * kg)" "in32 (\<lambda>j. smp_r (s j) * kr + smp_g (s j) * kg + smp_b (s j) * kb)"
    "in32 (\<lambda>j. smp_r (s j) * kr + smp_g (s j) * kg + smp_b (s j) * kb + 32768)"
    unfolding mult.commute[of _ kr] mult.commute[of _ kg] mult.commute[of _ kb]
    by (rule in32I, rule order_trans[OF b(1)] order_trans[OF b(2)] order_trans[OF b(3)] order_trans[OF b(4)] order_trans[OF b(5)]
        order_trans[OF b(6)[unfolded weighted_def prod.case]], simp)+
  have w: "smp_r (s j) * kr + smp_g (s j) * kg + smp_b (s j) * kb + 32768 = weighted k (s j)" for j by (simp add: weighted_def k' mult.commute)
  show "avx2_weighted k (lanes8 (\<lambda>j. smp_r (s j))) (lanes8 (\<lambda>j. smp_g (s j))) (lanes8 (\<lambda>j. smp_b (s j))) = lanes8 (\<lambda>j. weighted k (s j) div 2 ^ 16)"
    unfolding avx2_weighted_def k' prod.case Let_def set1_lanes8 lanes8_mullo[OF c(1,4) m(1)] lanes8_mullo[OF c(2,5) m(2)] lanes8_mullo[OF c(3,6) m(3)]
      lanes8_add[OF m(1,2,4)] lanes8_add[OF m(4,3,5)] lanes8_add[OF m(5) c(7) m(6)] w[unfolded k']
    using m(6) unfolding w[unfolded k'] by (rule lanes8_srai)
  have "\<bar>weighted k (s j) div 2 ^ 16\<bar> \<le> 1000" for j
    using weighted_shift_bound[OF k s, of j] unfolding abs_le_iff by linarith
  then have "\<bar>weighted k (s j) div 2 ^ 16\<bar> \<le> 2000000000" "\<bar>weighted k (s j) div 2 ^ 16 + 128\<bar> \<le> 2000000000" for j
    by (smt (verit, best))+
  then show "in32 (\<lambda>j. weighted k (s j) div 2 ^ 16)" "in32 (\<lambda>j. weighted k (s j) div 2 ^ 16 + 128)"
    by (blast intro: in32I)+
qed

section \<open>The AVX2 block\<close>

lemma avx2_pack_lanes:
  assumes "\<And>j. 0 \<le> F j \<and> F j \<le> 255"
  shows "avx2_pack (lanes8 F) = map (\<lambda>j. nat (F j)) [0, 1, 2, 3, 0, 1, 2, 3]"
proof -
  have "in_range 16 (F j)" "\<bar>F j\<bar> \<le> 2000000000" for j using assms[of j] by (auto simp: in_range_def abs_le_iff)
  then have r: "in32 F" "\<And>j. in_range 16 (F j)" by (auto intro: in32I)
  have s: "saturate16 (F j) = F j" "clamp_int 0 255 (F j) = F j" for j using assms[of j] by (simp_all add: clamp_int_def)
  let ?h = "[F 0, F 1, F 2, F 3, F 0, F 1, F 2, F 3, F 4, F 5, F 6, F 7, F 4, F 5, F 6, F 7]"
  have "mm256_packs_epi32 (lanes8 F) (lanes8 F) = of_i16s ?h"
    by (simp add: mm256_packs_epi32_def i32s_lanes8[OF r(1)] s)
  moreover have "i16s (of_i16s ?h) = ?h" using r(2) by (intro i16s_of) simp
  ultimately have "mm256_packus_epi16 (mm256_packs_epi32 (lanes8 F) (lanes8 F)) (mm256_packs_epi32 (lanes8 F) (lanes8 F)) =
    map (\<lambda>j. nat (F j)) [0, 1, 2, 3, 0, 1, 2, 3, 0, 1, 2, 3, 0, 1, 2, 3, 4, 5, 6, 7, 4, 5, 6, 7, 4, 5, 6, 7, 4, 5, 6, 7]"
    by (simp add: mm256_packus_epi16_def s)
  then show ?thesis by (simp add: avx2_pack_def mm256_castsi256_si128_def mm_shuffle_epi8_def shuffle_mask_def)
qed

definition sample_at :: "nat list \<Rightarrow> nat \<Rightarrow> bgra_sample" where
  "sample_at bs i = \<lparr>smp_r = int (bs ! (4 * i + 2)), smp_g = int (bs ! (4 * i + 1)), smp_b = int (bs ! (4 * i))\<rparr>"

text \<open>The full-range conversion of a sample.\<close>

definition full_y :: "color_matrix \<Rightarrow> bgra_sample \<Rightarrow> nat" where
  "full_y m s = nat (clamp_int 0 255 (weighted (y_coefficients_fixed m) s div 2 ^ 16))"

definition full_u :: "color_matrix \<Rightarrow> bgra_sample \<Rightarrow> nat" where
  "full_u m s = nat (clamp_int 0 255 (weighted (u_coefficients_fixed m) s div 2 ^ 16 + 128))"

definition full_v :: "color_matrix \<Rightarrow> bgra_sample \<Rightarrow> nat" where
  "full_v m s = nat (clamp_int 0 255 (weighted (v_coefficients_fixed m) s div 2 ^ 16 + 128))"

text \<open>What the AVX2 loop stores for eight pixels: the values of the first four, twice.\<close>

lemma avx2_block_value:
  assumes "length bs = 32" "list_all (\<lambda>b. b < 256) bs"
  shows "avx2_block m bs = (map (\<lambda>j. full_y m (sample_at bs j)) [0, 1, 2, 3, 0, 1, 2, 3], map (\<lambda>j. full_u m (sample_at bs j)) [0, 1, 2, 3, 0, 1, 2, 3],
    map (\<lambda>j. full_v m (sample_at bs j)) [0, 1, 2, 3, 0, 1, 2, 3])"
proof -
  define p where "p i = (if i < 32 then bs ! i else 0)" for i
  define s where "s j = \<lparr>smp_r = int (p (4 * j + 2)), smp_g = int (p (4 * j + 1)), smp_b = int (p (4 * j))\<rparr>" for j
  have p: "p i < 256" for i using assms by (auto simp: p_def list_all_length)
  have bs: "bs = map p upto32" using upto32[OF assms(1)] by (simp add: p_def)
  have c: "avx2_channel shuffle_b bs = lanes8 (\<lambda>j. smp_b (s j))" "avx2_channel shuffle_g bs = lanes8 (\<lambda>j. smp_g (s j))" "avx2_channel shuffle_r bs = lanes8 (\<lambda>j. smp_r (s j))"
    unfolding bs avx2_channels[of p, OF p] s_def by simp_all
  have sb: "byte_sample (s j)" for j using p[of "4 * j"] p[of "4 * j + 1"] p[of "4 * j + 2"] by (simp add: s_def byte_sample_def)
  note w = avx2_weighted_lanes[of _ s, OF _ sb]
  have k: "in32 (\<lambda>_. 128)" by (rule in32I) simp
  have cl: "0 \<le> clamp_int 0 255 x \<and> clamp_int 0 255 x \<le> 255" for x by (simp add: clamp_int_def)
  have eq: "s j = sample_at bs j" if "j < 4" for j using that by (simp add: s_def sample_at_def p_def)
  show ?thesis
    unfolding avx2_block_def Let_def c w(1)[OF coefficients_small(1)] w(1)[OF coefficients_small(2)] w(1)[OF coefficients_small(3)] set1_lanes8
      lanes8_add[OF w(2)[OF coefficients_small(2)] k w(3)[OF coefficients_small(2)]] lanes8_add[OF w(2)[OF coefficients_small(3)] k w(3)[OF coefficients_small(3)]]
      lanes8_clamp[OF w(2)[OF coefficients_small(1)]] lanes8_clamp[OF w(3)[OF coefficients_small(2)]] lanes8_clamp[OF w(3)[OF coefficients_small(3)]]
      avx2_pack_lanes[OF cl]
    by (simp add: eq full_y_def full_u_def full_v_def)
qed

section \<open>The NEON block\<close>

lemma map2_replicate: "length xs = n \<Longrightarrow> map2 h (map F xs) (replicate n k) = map (\<lambda>x. h (F x) k) xs"
  by (induction xs arbitrary: n) auto

lemma in_range_abs: "\<bar>i\<bar> \<le> 2000000000 \<Longrightarrow> in_range 32 i"
  by (auto simp: in_range_def abs_le_iff)

lemma neon_weighted_lanes:
  assumes k: "small_coefficients k" and s: "list_all byte_sample ss" "length ss = 4"
  shows "neon_weighted k (map smp_r ss) (map smp_g ss) (map smp_b ss) = map (\<lambda>s. weighted k s div 2 ^ 16) ss"
proof -
  obtain kr kg kb where k': "k = (kr, kg, kb)" by (cases k)
  have "wrap 32 (wrap 32 (wrap 32 (wrap 32 (smp_r s * kr) + wrap 32 (smp_g s * kg)) + wrap 32 (smp_b s * kb)) + 32768) = weighted k s" if "s \<in> set ss" for s
  proof -
    have sb: "byte_sample s" using s(1) that by (simp add: list_all_iff)
    note b = no_i32_overflow[OF k[unfolded k'] sb]
    have "in_range 32 (kr * smp_r s)" "in_range 32 (kg * smp_g s)" "in_range 32 (kb * smp_b s)" "in_range 32 (kr * smp_r s + kg * smp_g s)"
      "in_range 32 (kr * smp_r s + kg * smp_g s + kb * smp_b s)" "in_range 32 (weighted k s)"
      by (rule in_range_abs, rule order_trans[OF b(1)] order_trans[OF b(2)] order_trans[OF b(3)] order_trans[OF b(4)] order_trans[OF b(5)] order_trans[OF b(6)[folded k']], simp)+
    then show ?thesis by (simp add: mult.commute[of _ kr] mult.commute[of _ kg] mult.commute[of _ kb]) (simp add: weighted_def k')
  qed
  then show ?thesis
    unfolding neon_weighted_def k' prod.case Let_def vmulq_s32_def vmlaq_s32_def vaddq_s32_def vdupq_n_s32_def vshrq_n_s32_def
      map2_replicate[OF s(2)] map2_lanes
    by simp
qed

lemma neon_clamp_lanes: "length xs = 4 \<Longrightarrow> neon_clamp (map F xs) = map (\<lambda>x. clamp_int 0 255 (F x)) xs"
  by (simp add: neon_clamp_def vmaxq_s32_def vminq_s32_def vdupq_n_s32_def map2_replicate clamp_int_def min_max_distrib1 max.commute min.commute)

lemma neon_offset_lanes:
  assumes "small_coefficients k" "list_all byte_sample ss" "length ss = 4"
  shows "vaddq_s32 (map (\<lambda>s. weighted k s div 2 ^ 16) ss) (vdupq_n_s32 128) = map (\<lambda>s. weighted k s div 2 ^ 16 + 128) ss"
proof -
  have "wrap 32 (weighted k s div 2 ^ 16 + 128) = weighted k s div 2 ^ 16 + 128" if "s \<in> set ss" for s
  proof -
    have "byte_sample s" using assms(2) that by (simp add: list_all_iff)
    then have "in_range 32 (weighted k s div 2 ^ 16 + 128)" using weighted_shift_bound[OF assms(1)] unfolding in_range_def by fastforce
    then show ?thesis by simp
  qed
  then show ?thesis using assms(3) by (simp add: vaddq_s32_def vdupq_n_s32_def map2_replicate)
qed

lemma neon_pack_lanes:
  "neon_pack (map (\<lambda>x. clamp_int 0 255 (F x)) xs) (map (\<lambda>x. clamp_int 0 255 (F x)) ys) = map (\<lambda>x. nat (clamp_int 0 255 (F x))) (xs @ ys)"
proof -
  have "in_range 16 (clamp_int 0 255 i)" "clamp_int 0 255 (clamp_int 0 255 i) = clamp_int 0 255 i" for i
    by (auto simp: in_range_def clamp_int_def)
  then show ?thesis by (simp add: neon_pack_def vqmovun_s16_def vcombine_s16_def vmovn_s32_def)
qed

lemma neon_block_value:
  assumes "length bs = 32" "list_all (\<lambda>b. b < 256) bs"
  shows "neon_block m bs = (map (\<lambda>j. full_y m (sample_at bs j)) upto8, map (\<lambda>j. full_u m (sample_at bs j)) upto8, map (\<lambda>j. full_v m (sample_at bs j)) upto8)"
proof -
  define lo hi where "lo = map (sample_at bs) [0, 1, 2, 3]" and "hi = map (sample_at bs) [4, 5, 6, 7]"
  have u: "[0..<8] = upto8" by code_simp
  have b: "bs ! i < 256" if "i < 32" for i using assms that by (simp add: list_all_length)
  have t: "to_signed 32 (bs ! i) = int (bs ! i)" if "i < 32" for i using b[OF that] by (simp add: to_signed_def in_range_def)
  have "byte_sample (sample_at bs j)" if "j < 8" for j
    using that b[of "4 * j"] b[of "4 * j + 1"] b[of "4 * j + 2"] by (simp add: sample_at_def byte_sample_def)
  then have len: "length lo = 4" "length hi = 4" and sb: "list_all byte_sample lo" "list_all byte_sample hi"
    by (simp_all add: lo_def hi_def)
  have c: "vreinterpretq_s32_u32 (vmovl (vget_low (vmovl (map (\<lambda>i. bs ! (4 * i + 2)) upto8)))) = map smp_r lo"
    "vreinterpretq_s32_u32 (vmovl (vget_high (vmovl (map (\<lambda>i. bs ! (4 * i + 2)) upto8)))) = map smp_r hi"
    "vreinterpretq_s32_u32 (vmovl (vget_low (vmovl (map (\<lambda>i. bs ! (4 * i + 1)) upto8)))) = map smp_g lo"
    "vreinterpretq_s32_u32 (vmovl (vget_high (vmovl (map (\<lambda>i. bs ! (4 * i + 1)) upto8)))) = map smp_g hi"
    "vreinterpretq_s32_u32 (vmovl (vget_low (vmovl (map (\<lambda>i. bs ! (4 * i + 0)) upto8)))) = map smp_b lo"
    "vreinterpretq_s32_u32 (vmovl (vget_high (vmovl (map (\<lambda>i. bs ! (4 * i + 0)) upto8)))) = map smp_b hi"
    by (simp_all add: vreinterpretq_s32_u32_def vmovl_def vget_low_def vget_high_def lo_def hi_def sample_at_def t)
  have lh: "map F lo @ map F hi = map (\<lambda>j. F (sample_at bs j)) upto8" for F :: "bgra_sample \<Rightarrow> nat" by (simp add: lo_def hi_def)
  show ?thesis
    unfolding neon_block_def vld4_u8_def Let_def prod.case u c neon_weighted_lanes[OF coefficients_small(1) sb(1) len(1)] neon_weighted_lanes[OF coefficients_small(1) sb(2) len(2)]
      neon_weighted_lanes[OF coefficients_small(2) sb(1) len(1)] neon_weighted_lanes[OF coefficients_small(2) sb(2) len(2)]
      neon_weighted_lanes[OF coefficients_small(3) sb(1) len(1)] neon_weighted_lanes[OF coefficients_small(3) sb(2) len(2)]
      neon_offset_lanes[OF coefficients_small(2) sb(1) len(1)] neon_offset_lanes[OF coefficients_small(2) sb(2) len(2)]
      neon_offset_lanes[OF coefficients_small(3) sb(1) len(1)] neon_offset_lanes[OF coefficients_small(3) sb(2) len(2)]
      neon_clamp_lanes[OF len(1)] neon_clamp_lanes[OF len(2)] neon_pack_lanes map_append lh full_y_def full_u_def full_v_def ..
qed

section \<open>The loops fill the planes\<close>

lemma for_each_append: "for_each f (is @ js) s = (case for_each f is s of None \<Rightarrow> None | Some s' \<Rightarrow> for_each f js s')"
  by (induction "is" arbitrary: s) (simp_all split: option.split)

lemma length_concat_blocks: "(\<And>i. a \<le> i \<Longrightarrow> i < b \<Longrightarrow> length (X i) = c) \<Longrightarrow> length (concat (map X [a..<b])) = (b - a) * c"
  by (induction b) (auto simp: Suc_diff_le)

lemma store_next:
  assumes "length p = n" "length m = k" "off = n + k" "length src = c"
  shows "store off src (p @ m @ r) = (if c \<le> length r then Some (p @ (m @ src) @ drop c r) else None)"
  using assms by (simp add: store_def)

text \<open>A plane filled from block \<open>a\<close> to block \<open>b\<close>.\<close>

definition filled :: "nat \<Rightarrow> nat \<Rightarrow> nat \<Rightarrow> (nat \<Rightarrow> nat list) \<Rightarrow> nat list \<Rightarrow> nat list" where
  "filled c a b X p = take (a * c) p @ concat (map X [a..<b]) @ drop (b * c) p"

lemma filled_step:
  assumes "\<And>i. a \<le> i \<Longrightarrow> i < Suc b \<Longrightarrow> length (X i) = c" "a \<le> b" "Suc b * c \<le> length p"
  shows "store (b * c) (X b) (filled c a b X p) = Some (filled c a (Suc b) X p)"
proof -
  have "length (concat (map X [a..<b])) = (b - a) * c" using assms(1) by (intro length_concat_blocks) simp
  moreover have "b * c = a * c + (b - a) * c" using assms(2) by (simp flip: add_mult_distrib)
  moreover have "a * c \<le> length p" using assms(2,3) by (meson le_SucI mult_le_mono1 order_trans)
  ultimately have "store (b * c) (X b) (filled c a b X p) =
    (if c \<le> length (drop (b * c) p) then Some (take (a * c) p @ (concat (map X [a..<b]) @ X b) @ drop c (drop (b * c) p)) else None)"
    using assms(1)[of b] assms(2) unfolding filled_def by (intro store_next) (simp_all only: length_take min_absorb2 refl)
  then show ?thesis using assms(2,3) by (simp add: filled_def add.commute)
qed

definition fill3 :: "nat \<Rightarrow> nat \<Rightarrow> nat \<Rightarrow> (nat \<Rightarrow> nat list) \<Rightarrow> (nat \<Rightarrow> nat list) \<Rightarrow> (nat \<Rightarrow> nat list) \<Rightarrow> yuv444_frame \<Rightarrow> yuv444_frame" where
  "fill3 c a b Y U V f = f\<lparr>f_y := filled c a b Y (f_y f), f_u := filled c a b U (f_u f), f_v := filled c a b V (f_v f)\<rparr>"

lemma for_each_fill3:
  assumes step: "\<And>i g. a \<le> i \<Longrightarrow> i < b \<Longrightarrow> step i g = store3 (i * c) (Y i, U i, V i) g"
    and len: "\<And>i. a \<le> i \<Longrightarrow> i < b \<Longrightarrow> length (Y i) = c \<and> length (U i) = c \<and> length (V i) = c"
    and fits: "a \<le> b" "b * c \<le> length (f_y f)" "b * c \<le> length (f_u f)" "b * c \<le> length (f_v f)"
  shows "for_each step [a..<b] f = Some (fill3 c a b Y U V f)"
  using assms
proof (induction b)
  case 0
  then show ?case by (simp add: fill3_def filled_def)
next
  case (Suc b)
  show ?case
  proof (cases "a \<le> b")
    case True
    have "for_each step [a..<b] f = Some (fill3 c a b Y U V f)" using Suc.prems True by (intro Suc.IH) auto
    moreover have "step b (fill3 c a b Y U V f) = store3 (b * c) (Y b, U b, V b) (fill3 c a b Y U V f)" using Suc.prems(1) True by simp
    moreover have "store3 (b * c) (Y b, U b, V b) (fill3 c a b Y U V f) = Some (fill3 c a (Suc b) Y U V f)"
      using Suc.prems True filled_step[of a b Y c "f_y f"] filled_step[of a b U c "f_u f"] filled_step[of a b V c "f_v f"]
      by (simp add: store3_def fill3_def)
    ultimately show ?thesis using True by (simp add: for_each_append)
  next
    case False
    with Suc.prems have "a = Suc b" by simp
    then show ?thesis by (simp add: fill3_def filled_def)
  qed
qed

section \<open>Whole frames\<close>

definition frame_of :: "nat \<Rightarrow> nat \<Rightarrow> (nat \<Rightarrow> nat \<times> nat \<times> nat) \<Rightarrow> yuv444_frame" where
  "frame_of w h c = \<lparr>f_y = map (\<lambda>i. fst (c i)) [0..<w * h], f_u = map (\<lambda>i. fst (snd (c i))) [0..<w * h],
     f_v = map (\<lambda>i. snd (snd (c i))) [0..<w * h], f_width = w, f_height = h\<rparr>"

lemma concat_singletons: "concat (map (\<lambda>i. [g i]) is) = map g is"
  by (induction "is") simp_all

lemma concat_blocks8: "concat (map (\<lambda>q. map (G q) upto8) [0..<k]) = map (\<lambda>i. G (i div 8) (i mod 8)) [0..<k * 8]"
proof (induction k)
  case (Suc k)
  have "[k * 8..<Suc k * 8] = map (\<lambda>j. j + k * 8) [0..<8]" by (simp only: map_add_upt mult_Suc)
  moreover have "[0..<8] = upto8" by code_simp
  ultimately have u: "[k * 8..<Suc k * 8] = map (\<lambda>j. j + k * 8) upto8" by simp
  have "[0..<Suc k * 8] = [0..<k * 8] @ [k * 8..<Suc k * 8]" by (metis add_leE le0 mult_Suc upt_add_eq_append add.commute)
  then have "map (\<lambda>i. G (i div 8) (i mod 8)) [0..<Suc k * 8] = map (\<lambda>i. G (i div 8) (i mod 8)) [0..<k * 8] @ map (G k) upto8"
    by (simp only: u map_append map_map comp_def) simp
  with Suc show ?case by simp
qed simp

lemma filled_simd:
  assumes "length p = n"
  shows "filled 1 (n div 8 * 8) n (\<lambda>i. [R i]) (filled 8 0 (n div 8) (\<lambda>q. map (G q) upto8) p) =
    map (\<lambda>i. if i < n div 8 * 8 then G (i div 8) (i mod 8) else R i) [0..<n]"
proof -
  let ?k = "n div 8 * 8"
  have k: "?k \<le> n" by simp
  have "filled 8 0 (n div 8) (\<lambda>q. map (G q) upto8) p = map (\<lambda>i. G (i div 8) (i mod 8)) [0..<?k] @ drop ?k p"
    by (simp only: filled_def concat_blocks8) simp
  then have "filled 1 ?k n (\<lambda>i. [R i]) (filled 8 0 (n div 8) (\<lambda>q. map (G q) upto8) p) = map (\<lambda>i. G (i div 8) (i mod 8)) [0..<?k] @ map R [?k..<n]"
    using assms k by (simp add: filled_def concat_singletons)
  moreover have "[0..<n] = [0..<?k] @ [?k..<n]" using k by (metis le0 le_add_diff_inverse upt_add_eq_append)
  ultimately show ?thesis by simp
qed

lemma length_frame444_new [simp]: "length (f_y (frame444_new w h)) = w * h" "length (f_u (frame444_new w h)) = w * h" "length (f_v (frame444_new w h)) = w * h"
  "frame_pixel_count (frame444_new w h) = w * h"
  by (simp_all add: frame444_new_def frame_pixel_count_def)

lemma from_bgra_slice_at: "length bgra = n * 4 \<Longrightarrow> i < n \<Longrightarrow> from_bgra_slice bgra i = Some (sample_at bgra i)"
  by (simp add: from_bgra_slice_def byte_at_def sample_at_def mult.commute)

lemma fill3_sel [simp]:
  "f_y (fill3 c a b Y U V f) = filled c a b Y (f_y f)" "f_u (fill3 c a b Y U V f) = filled c a b U (f_u f)" "f_v (fill3 c a b Y U V f) = filled c a b V (f_v f)"
  "f_width (fill3 c a b Y U V f) = f_width f" "f_height (fill3 c a b Y U V f) = f_height f" "yuv444_frame.more (fill3 c a b Y U V f) = yuv444_frame.more f"
  by (simp_all add: fill3_def)

lemma scalar_frame:
  assumes "length bgra = w * h * 4"
  shows "bgra_to_yuv444_scalar bgra m (frame444_new w h) = Some (frame_of w h (\<lambda>i. convert_bgra_sample_to_yuv (sample_at bgra i) m))"
proof -
  let ?c = "\<lambda>i. convert_bgra_sample_to_yuv (sample_at bgra i) m"
  have "for_each (scalar_step bgra m) [0..<w * h] (frame444_new w h) =
    Some (fill3 1 0 (w * h) (\<lambda>i. [fst (?c i)]) (\<lambda>i. [fst (snd (?c i))]) (\<lambda>i. [snd (snd (?c i))]) (frame444_new w h))"
    using from_bgra_slice_at[OF assms] by (intro for_each_fill3) (simp_all add: scalar_step_def split: prod.split)
  then show ?thesis
    by (simp add: bgra_to_yuv444_scalar_def fill3_def filled_def concat_singletons frame_of_def) (simp add: frame444_new_def)
qed

definition full_yuv :: "color_matrix \<Rightarrow> bgra_sample \<Rightarrow> nat \<times> nat \<times> nat" where
  "full_yuv m s = (full_y m s, full_u m s, full_v m s)"

lemma full_yuv_convert: "\<not> matrix_is_limited_range m \<Longrightarrow> convert_bgra_sample_to_yuv s m = full_yuv m s"
  by (simp add: convert_bgra_sample_to_yuv_def full_yuv_def full_y_def full_u_def full_v_def)

text \<open>A vector loop whose block stores, for pixel \<open>j\<close> of block \<open>q\<close>, the conversion of pixel \<open>src j\<close> of it.\<close>

lemma simd_frame:
  assumes len: "length bgra = w * h * 4" and bytes: "list_all (\<lambda>b. b < 256) bgra"
    and block: "\<And>bs. length bs = 32 \<Longrightarrow> list_all (\<lambda>b. b < 256) bs \<Longrightarrow>
      block m bs = (map (\<lambda>j. full_y m (sample_at bs (src j))) upto8, map (\<lambda>j. full_u m (sample_at bs (src j))) upto8,
        map (\<lambda>j. full_v m (sample_at bs (src j))) upto8)"
    and step: "\<And>i f. step i f = (case load 32 (i * 8 * 4) bgra of None \<Rightarrow> None | Some bs \<Rightarrow> store3 (i * 8) (block m bs) f)"
    and src: "\<And>j. j < 8 \<Longrightarrow> src j < 8"
  shows "(case for_each step [0..<w * h div 8] (frame444_new w h) of None \<Rightarrow> None
      | Some f \<Rightarrow> for_each (remainder_step bgra m) [w * h div 8 * 8..<w * h] f) =
    Some (frame_of w h (\<lambda>i. full_yuv m (sample_at bgra (if i < w * h div 8 * 8 then 8 * (i div 8) + src (i mod 8) else i))))"
proof -
  let ?n = "w * h" and ?f = "frame444_new w h"
  let ?B = "\<lambda>c q. map (\<lambda>j. c m (sample_at bgra (8 * q + src j))) upto8"
  have at8: "sample_at (take 32 (drop (q * 8 * 4) bgra)) j = sample_at bgra (8 * q + j)" if "q < ?n div 8" "j < 8" for q j
    using that len by (simp add: sample_at_def algebra_simps)
  have st: "step q g = store3 (q * 8) (?B full_y q, ?B full_u q, ?B full_v q) g" if q: "q < ?n div 8" for q g
  proof -
    have fits: "q * 8 * 4 + 32 \<le> length bgra" using q len by simp
    let ?bs = "take 32 (drop (q * 8 * 4) bgra)"
    have "list_all (\<lambda>b. b < 256) ?bs" using bytes by (auto simp: list_all_iff dest: in_set_takeD in_set_dropD)
    note b = block[OF _ this]
    have "map (\<lambda>j. c m (sample_at ?bs (src j))) upto8 = ?B c q" for c :: "color_matrix \<Rightarrow> bgra_sample \<Rightarrow> nat"
    proof (rule map_cong[OF refl])
      fix j assume "j \<in> set upto8"
      then have "j < 8" by auto
      then show "c m (sample_at ?bs (src j)) = c m (sample_at bgra (8 * q + src j))" using at8[OF q src] by simp
    qed
    then have "block m ?bs = (?B full_y q, ?B full_u q, ?B full_v q)" using b fits by simp
    with fits show ?thesis by (simp add: step load_def)
  qed
  have s1: "for_each step [0..<?n div 8] ?f = Some (fill3 8 0 (?n div 8) (?B full_y) (?B full_u) (?B full_v) ?f)"
    by (rule for_each_fill3, rule st) simp_all
  have s2: "for_each (remainder_step bgra m) [?n div 8 * 8..<?n] g =
      Some (fill3 1 (?n div 8 * 8) ?n (\<lambda>i. [full_y m (sample_at bgra i)]) (\<lambda>i. [full_u m (sample_at bgra i)]) (\<lambda>i. [full_v m (sample_at bgra i)]) g)"
    if "length (f_y g) = ?n" "length (f_u g) = ?n" "length (f_v g) = ?n" for g
    using that from_bgra_slice_at[OF len] by (intro for_each_fill3) (simp_all add: remainder_step_def full_y_def full_u_def full_v_def)
  let ?g = "fill3 8 0 (?n div 8) (?B full_y) (?B full_u) (?B full_v) ?f"
  have lg: "length (f_y ?g) = ?n" "length (f_u ?g) = ?n" "length (f_v ?g) = ?n"
    by (simp_all only: fill3_sel filled_def concat_blocks8) simp_all
  have eq: "map (\<lambda>i. if i < ?n div 8 * 8 then c m (sample_at bgra (8 * (i div 8) + src (i mod 8))) else c m (sample_at bgra i)) [0..<?n] =
    map (\<lambda>i. c m (sample_at bgra (if i < ?n div 8 * 8 then 8 * (i div 8) + src (i mod 8) else i))) [0..<?n]" for c :: "color_matrix \<Rightarrow> bgra_sample \<Rightarrow> nat"
    by (intro map_cong refl) simp
  have "fill3 1 (?n div 8 * 8) ?n (\<lambda>i. [full_y m (sample_at bgra i)]) (\<lambda>i. [full_u m (sample_at bgra i)]) (\<lambda>i. [full_v m (sample_at bgra i)]) ?g =
    frame_of w h (\<lambda>i. full_yuv m (sample_at bgra (if i < ?n div 8 * 8 then 8 * (i div 8) + src (i mod 8) else i)))"
  proof -
    note plane = filled_simd[where n = ?n and R = "\<lambda>i. c m (sample_at bgra i)" and G = "\<lambda>q j. c m (sample_at bgra (8 * q + src j))" for c :: "color_matrix \<Rightarrow> bgra_sample \<Rightarrow> nat",
      unfolded eq]
    show ?thesis
      by (rule yuv444_frame.equality; unfold frame_of_def full_yuv_def fill3_sel yuv444_frame.simps fst_conv snd_conv plane[OF length_frame444_new(1)]
        plane[OF length_frame444_new(2)] plane[OF length_frame444_new(3)]; simp add: frame444_new_def)
  qed
  with s1 s2[OF lg] show ?thesis by (simp only: option.case)
qed

lemma neon_frame:
  assumes "length bgra = w * h * 4" "list_all (\<lambda>b. b < 256) bgra"
  shows "bgra_to_yuv444_neon bgra m (frame444_new w h) = Some (frame_of w h (\<lambda>i. full_yuv m (sample_at bgra i)))"
proof -
  have "8 * (i div 8) + i mod 8 = i" for i :: nat by simp
  then show ?thesis
    using simd_frame[OF assms neon_block_value, where step = "neon_step bgra m" and m = m]
    by (simp add: bgra_to_yuv444_neon_def neon_step_def Let_def cong: if_cong)
qed

lemma avx2_frame:
  assumes "length bgra = w * h * 4" "list_all (\<lambda>b. b < 256) bgra"
  shows "bgra_to_yuv444_avx2_impl bgra m (frame444_new w h) =
    Some (frame_of w h (\<lambda>i. full_yuv m (sample_at bgra (if i < w * h div 8 * 8 then 8 * (i div 8) + i mod 8 mod 4 else i))))"
proof -
  have "map F [0, 1, 2, 3, 0, 1, 2, 3] = map (\<lambda>j. F (j mod 4)) upto8" for F :: "nat \<Rightarrow> nat" by simp
  then show ?thesis
    using simd_frame[OF assms, of avx2_block m "\<lambda>j. j mod 4" "avx2_step bgra m"] avx2_block_value
    by (simp only: bgra_to_yuv444_avx2_impl_def avx2_step_def Let_def length_frame444_new)
qed

text \<open>On every processor the conversion of a buffer of the right size succeeds, and its samples are bytes.\<close>

lemma full_yuv_bytes: "fst (full_yuv m s) < 256" "fst (snd (full_yuv m s)) < 256" "snd (snd (full_yuv m s)) < 256"
  by (simp_all add: full_yuv_def full_y_def full_u_def full_v_def clamp_int_def)

lemma clamp_byte: "0 \<le> lo \<Longrightarrow> lo < 256 \<Longrightarrow> hi < 256 \<Longrightarrow> nat (clamp_int lo hi i) < 256"
  by (auto simp: clamp_int_def)

lemma convert_bytes:
  "fst (convert_bgra_sample_to_yuv s m) < 256" "fst (snd (convert_bgra_sample_to_yuv s m)) < 256" "snd (snd (convert_bgra_sample_to_yuv s m)) < 256"
  by (simp_all add: convert_bgra_sample_to_yuv_def clamp_byte Let_def)

lemma conversion_total:
  assumes "length bgra = w * h * 4" "list_all (\<lambda>b. b < 256) bgra"
  shows "\<exists>c. bgra_to_yuv444 unit bgra w h m = Some (frame_of w h c) \<and> (\<forall>i. fst (c i) < 256 \<and> fst (snd (c i)) < 256 \<and> snd (snd (c i)) < 256)"
proof (cases "matrix_is_limited_range m \<or> unit = No_simd")
  case True
  then show ?thesis using scalar_frame[OF assms(1)] assms(1) convert_bytes by (auto simp: bgra_to_yuv444_def Let_def)
next
  case False
  then show ?thesis using neon_frame[OF assms] avx2_frame[OF assms] assms(1) full_yuv_bytes
    by (cases unit) (auto simp: bgra_to_yuv444_def Let_def)
qed

text \<open>
  The NEON conversion to YUV gives exactly the frame of the scalar conversion, whatever the colour matrix and the
  size of the frame, and the scalar conversion of a buffer of the right size is the conversion of every pixel.
\<close>

theorem neon_conversion_equivalent:
  assumes "list_all (\<lambda>b. b < 256) bgra"
  shows "bgra_to_yuv444 Neon bgra w h m = bgra_to_yuv444 No_simd bgra w h m \<and>
    bgra_to_yuv444 No_simd bgra w h m =
      (if length bgra = w * h * 4 then Some (frame_of w h (\<lambda>i. convert_bgra_sample_to_yuv (sample_at bgra i) m)) else None)"
proof (cases "length bgra = w * h * 4")
  case True
  show ?thesis using True scalar_frame[OF True] neon_frame[OF True assms] by (simp add: bgra_to_yuv444_def full_yuv_convert Let_def)
qed (simp add: bgra_to_yuv444_def)

theorem neon_conversion_equivalent_witness:
  "bgra_to_yuv444 Neon (replicate 36 255) 9 1 BT601 =
     Some (frame_of 9 1 (\<lambda>i. convert_bgra_sample_to_yuv (sample_at (replicate 36 255) i) BT601))"
  using neon_conversion_equivalent[of "replicate 36 255" 9 1 BT601] by (simp add: list_all_iff)

text \<open>
  C25.  The AVX2 conversion gives another frame.  In every run of eight pixels it stores the values of the first four twice and
  those of the last four nowhere; only the pixels after the last full run are converted each for itself.  It applies to the two full-range
  matrices; the limited-range matrix takes the scalar path.
\<close>

theorem avx2_conversion_exact:
  assumes "list_all (\<lambda>b. b < 256) bgra" "length bgra = w * h * 4"
  shows "bgra_to_yuv444 Avx2 bgra w h m =
    Some (frame_of w h (\<lambda>i. convert_bgra_sample_to_yuv
      (sample_at bgra (if m \<noteq> OpenH264 \<and> i < w * h div 8 * 8 then 8 * (i div 8) + i mod 4 else i)) m))"
proof (cases "matrix_is_limited_range m")
  case False
  have "i mod 8 mod 4 = i mod 4" for i :: nat by (simp add: mod_mod_cancel)
  then show ?thesis using False assms(2) avx2_frame[OF assms(2,1), of m] by (simp add: bgra_to_yuv444_def full_yuv_convert matrix_is_limited_range_def cong: if_cong)
qed (simp add: bgra_to_yuv444_def scalar_frame[OF assms(2)] assms(2) matrix_is_limited_range_def)

text \<open>A black pixel followed by seven white ones: pixel four is converted to black.\<close>

theorem avx2_conversion_exact_witness:
  "map_option (\<lambda>f. f_y f ! 4) (bgra_to_yuv444 Avx2 (replicate 4 0 @ replicate 28 255) 8 1 BT709) = Some 0 \<and>
   map_option (\<lambda>f. f_y f ! 4) (bgra_to_yuv444 No_simd (replicate 4 0 @ replicate 28 255) 8 1 BT709) = Some 255"
proof -
  let ?b = "replicate 4 0 @ replicate 28 (255 :: nat)"
  have b: "list_all (\<lambda>b. b < 256) ?b" "length ?b = 8 * 1 * 4" by (simp_all add: list_all_iff)
  have "sample_at ?b 0 = \<lparr>smp_r = 0, smp_g = 0, smp_b = 0\<rparr>" "sample_at ?b 4 = \<lparr>smp_r = 255, smp_g = 255, smp_b = 255\<rparr>"
    by (simp_all add: sample_at_def nth_append)
  moreover have "fst (convert_bgra_sample_to_yuv \<lparr>smp_r = 0, smp_g = 0, smp_b = 0\<rparr> BT709) = 0"
    "fst (convert_bgra_sample_to_yuv \<lparr>smp_r = 255, smp_g = 255, smp_b = 255\<rparr> BT709) = 255"
    by (simp_all add: convert_bgra_sample_to_yuv_def matrix_is_limited_range_def weighted_def clamp_int_def)
  moreover have "bgra_to_yuv444 No_simd ?b 8 1 BT709 = Some (frame_of 8 1 (\<lambda>i. convert_bgra_sample_to_yuv (sample_at ?b i) BT709))"
    using scalar_frame[OF b(2)] b(2) by (simp add: bgra_to_yuv444_def Let_def)
  ultimately show ?thesis using avx2_conversion_exact[OF b, of BT709] by (simp add: frame_of_def)
qed

section \<open>The limited-range matrix\<close>

lemma openh264_values:
  assumes "byte_sample s"
  shows "convert_bgra_sample_to_yuv s OpenH264 =
    (nat ((66 * smp_r s + 129 * smp_g s + 25 * smp_b s + 128) div 256 + 16),
     nat ((- 38 * smp_r s - 74 * smp_g s + 112 * smp_b s + 128) div 256 + 128),
     nat ((112 * smp_r s - 94 * smp_g s - 18 * smp_b s + 128) div 256 + 128))"
proof -
  have d: "(256 * x) div 2 ^ 16 = x div 256" for x :: int using zdiv_zmult2_eq[of 256 "256 * x" 256] by simp
  have w: "weighted (y_coefficients_fixed OpenH264) s = 256 * (66 * smp_r s + 129 * smp_g s + 25 * smp_b s + 128)"
    "weighted (u_coefficients_fixed OpenH264) s = 256 * (- 38 * smp_r s - 74 * smp_g s + 112 * smp_b s + 128)"
    "weighted (v_coefficients_fixed OpenH264) s = 256 * (112 * smp_r s - 94 * smp_g s - 18 * smp_b s + 128)"
    by (simp_all add: weighted_def)
  note b = assms[unfolded byte_sample_def]
  have "0 \<le> (66 * smp_r s + 129 * smp_g s + 25 * smp_b s + 128) div 256" "(66 * smp_r s + 129 * smp_g s + 25 * smp_b s + 128) div 256 < 220"
    "- 112 \<le> (- 38 * smp_r s - 74 * smp_g s + 112 * smp_b s + 128) div 256" "(- 38 * smp_r s - 74 * smp_g s + 112 * smp_b s + 128) div 256 \<le> 112"
    "- 112 \<le> (112 * smp_r s - 94 * smp_g s - 18 * smp_b s + 128) div 256" "(112 * smp_r s - 94 * smp_g s - 18 * smp_b s + 128) div 256 \<le> 112"
    using b by linarith+
  then show ?thesis
    unfolding convert_bgra_sample_to_yuv_def Let_def w d by (simp add: matrix_is_limited_range_def clamp_int_def)
qed

end
