(* ===== verification/Wrdp_Color_Space.thy ===== *)
theory Wrdp_Color_Space
  imports Wrdp_Color
begin

text \<open>
  Colour metadata of the H.264 stream (\<open>src/src/rdp/channels/graphics/egfx/color/space.rs\<close>), and whether the conversion keeps to the range that is announced.
\<close>

datatype color_range = Limited | Full

definition vui_flag :: "color_range \<Rightarrow> nat" where "vui_flag r = (if r = Full then 1 else 0)"
definition y_range :: "color_range \<Rightarrow> nat \<times> nat" where "y_range r = (if r = Full then (0, 255) else (16, 235))"
definition uv_range :: "color_range \<Rightarrow> nat \<times> nat" where "uv_range r = (if r = Full then (0, 255) else (16, 240))"

datatype colour_primaries = CP_BT709 | CP_Unspecified | CP_BT601PAL | CP_BT601NTSC | CP_BT2020

fun primaries_code :: "colour_primaries \<Rightarrow> nat" where
  "primaries_code CP_BT709 = 1" | "primaries_code CP_Unspecified = 2" | "primaries_code CP_BT601PAL = 5"
| "primaries_code CP_BT601NTSC = 6" | "primaries_code CP_BT2020 = 9"

datatype transfer_characteristics = TC_BT709 | TC_Unspecified | TC_BT601 | TC_SRGB | TC_BT2020_10 | TC_BT2020_12

fun transfer_code :: "transfer_characteristics \<Rightarrow> nat" where
  "transfer_code TC_BT709 = 1" | "transfer_code TC_Unspecified = 2" | "transfer_code TC_BT601 = 6"
| "transfer_code TC_SRGB = 13" | "transfer_code TC_BT2020_10 = 14" | "transfer_code TC_BT2020_12 = 15"

datatype matrix_coefficients = MC_BT709 | MC_Unspecified | MC_BT601 | MC_BT2020NCL

fun matrix_code :: "matrix_coefficients \<Rightarrow> nat" where
  "matrix_code MC_BT709 = 1" | "matrix_code MC_Unspecified = 2" | "matrix_code MC_BT601 = 6" | "matrix_code MC_BT2020NCL = 9"

record color_space_config =
  cs_matrix :: color_matrix
  cs_range :: color_range
  cs_primaries :: colour_primaries
  cs_transfer :: transfer_characteristics
  cs_matrix_coeff :: matrix_coefficients

definition OPENH264_COMPATIBLE :: color_space_config where
  "OPENH264_COMPATIBLE = \<lparr>cs_matrix = OpenH264, cs_range = Limited, cs_primaries = CP_BT601NTSC, cs_transfer = TC_BT601, cs_matrix_coeff = MC_BT601\<rparr>"
definition BT601_LIMITED :: color_space_config where
  "BT601_LIMITED = \<lparr>cs_matrix = BT601, cs_range = Limited, cs_primaries = CP_BT601NTSC, cs_transfer = TC_BT601, cs_matrix_coeff = MC_BT601\<rparr>"
definition BT709_LIMITED :: color_space_config where
  "BT709_LIMITED = \<lparr>cs_matrix = BT709, cs_range = Limited, cs_primaries = CP_BT709, cs_transfer = TC_BT709, cs_matrix_coeff = MC_BT709\<rparr>"
definition BT709_FULL :: color_space_config where
  "BT709_FULL = \<lparr>cs_matrix = BT709, cs_range = Full, cs_primaries = CP_BT709, cs_transfer = TC_BT709, cs_matrix_coeff = MC_BT709\<rparr>"
definition SRGB_FULL :: color_space_config where
  "SRGB_FULL = \<lparr>cs_matrix = BT709, cs_range = Full, cs_primaries = CP_BT709, cs_transfer = TC_SRGB, cs_matrix_coeff = MC_BT709\<rparr>"

lemmas color_space_defs = OPENH264_COMPATIBLE_def BT601_LIMITED_def BT709_LIMITED_def BT709_FULL_def SRGB_FULL_def

definition space_auto_select :: "nat \<Rightarrow> nat \<Rightarrow> bool \<Rightarrow> color_space_config" where
  "space_auto_select width height openh264_compat =
     (if openh264_compat then OPENH264_COMPATIBLE
      else if width \<ge> 1280 \<and> height \<ge> 720 then BT709_LIMITED
      else BT601_LIMITED)"

definition from_resolution :: "nat \<Rightarrow> nat \<Rightarrow> color_space_config" where
  "from_resolution width height = space_auto_select width height False"

text \<open>\<open>to_ascii_lowercase\<close>.\<close>

definition ascii_lowercase :: "string \<Rightarrow> string" where
  "ascii_lowercase = map (\<lambda>c. if 65 \<le> code c \<and> code c \<le> 90 then char_of (code c + 32) else c)"

definition from_config :: "string \<Rightarrow> string \<Rightarrow> nat \<Rightarrow> nat \<Rightarrow> color_space_config" where
  "from_config space rng width height =
     (let s = ascii_lowercase space;
          selected = (if s = ''bt709'' then BT709_LIMITED
                      else if s = ''bt601'' then BT601_LIMITED
                      else if s = ''srgb'' then SRGB_FULL
                      else if s = ''openh264'' then OPENH264_COMPATIBLE
                      else space_auto_select width height True)
      in if ascii_lowercase rng = ''full'' then selected\<lparr>cs_range := Full\<rparr>
         else if ascii_lowercase rng = ''limited'' then selected\<lparr>cs_range := Limited\<rparr>
         else selected)"

definition vui_full_range_flag :: "color_space_config \<Rightarrow> nat" where "vui_full_range_flag c = vui_flag (cs_range c)"
definition vui_colour_primaries :: "color_space_config \<Rightarrow> nat" where "vui_colour_primaries c = primaries_code (cs_primaries c)"
definition vui_transfer_characteristics :: "color_space_config \<Rightarrow> nat" where "vui_transfer_characteristics c = transfer_code (cs_transfer c)"
definition vui_matrix_coefficients :: "color_space_config \<Rightarrow> nat" where "vui_matrix_coefficients c = matrix_code (cs_matrix_coeff c)"
definition space_is_limited_range :: "color_space_config \<Rightarrow> bool" where "space_is_limited_range c \<longleftrightarrow> cs_range c = Limited"

definition description :: "color_space_config \<Rightarrow> string" where
  "description c =
     (case cs_matrix c of BT601 \<Rightarrow> ''BT.601'' | BT709 \<Rightarrow> ''BT.709'' | OpenH264 \<Rightarrow> ''OpenH264'') @ '' '' @
     (if space_is_limited_range c then ''limited'' else ''full'')"

section \<open>The announced range\<close>

definition in_announced_range :: "color_space_config \<Rightarrow> bgra_sample \<Rightarrow> bool" where
  "in_announced_range c s =
     (case convert_bgra_sample_to_yuv s (cs_matrix c) of (y, u, v) \<Rightarrow>
        fst (y_range (cs_range c)) \<le> y \<and> y \<le> snd (y_range (cs_range c)) \<and>
        fst (uv_range (cs_range c)) \<le> u \<and> u \<le> snd (uv_range (cs_range c)) \<and>
        fst (uv_range (cs_range c)) \<le> v \<and> v \<le> snd (uv_range (cs_range c)))"

lemma clamped_bytes:
  "16 \<le> nat (clamp_int 16 235 i)" "nat (clamp_int 16 235 i) \<le> 235" "16 \<le> nat (clamp_int 16 240 i)" "nat (clamp_int 16 240 i) \<le> 240"
  "nat (clamp_int 16 235 i) \<le> 255" "nat (clamp_int 16 240 i) \<le> 255" "nat (clamp_int 0 255 i) \<le> 255"
  by (simp_all add: clamp_int_def nat_le_iff le_nat_iff)

lemmas range_defs = in_announced_range_def convert_bgra_sample_to_yuv_def y_range_def uv_range_def Let_def matrix_is_limited_range_def

lemma convert_full_range: "cs_range c = Full \<Longrightarrow> in_announced_range c s"
  by (simp add: range_defs clamped_bytes)

lemma convert_openh264_range: "cs_matrix c = OpenH264 \<Longrightarrow> in_announced_range c s"
  by (cases "cs_range c") (simp_all add: range_defs clamped_bytes del: nat_le_iff)

text \<open>
  A stream keeps to the range its metadata announces, for every pixel, exactly if the metadata announce full range or the
  conversion is the limited one.  The configurations for limited BT.601 and BT.709, which are chosen automatically by resolution and by name, announce
  limited range and convert at full range: white has luma 255 where 235 is the maximum.
\<close>

theorem announced_range_exact:
  "(\<forall>s. byte_sample s \<longrightarrow> in_announced_range c s) \<longleftrightarrow> cs_range c = Full \<or> cs_matrix c = OpenH264"
proof (cases "cs_range c = Full \<or> cs_matrix c = OpenH264")
  case True
  then show ?thesis using convert_full_range convert_openh264_range by blast
next
  case False
  let ?white = "\<lparr>smp_r = 255, smp_g = 255, smp_b = 255\<rparr>"
  have "\<not> in_announced_range c ?white" using False
    by (cases "cs_matrix c"; cases "cs_range c")
      (simp_all add: range_defs weighted_def clamp_int_def)
  moreover have "byte_sample ?white" by (simp add: byte_sample_def)
  ultimately show ?thesis using False by blast
qed

theorem announced_range_exact_witness:
  "in_announced_range OPENH264_COMPATIBLE \<lparr>smp_r = 255, smp_g = 0, smp_b = 255\<rparr> \<and> \<not> (\<forall>s. byte_sample s \<longrightarrow> in_announced_range (from_resolution 1920 1080) s)"
  using announced_range_exact[of OPENH264_COMPATIBLE] announced_range_exact[of "from_resolution 1920 1080"]
  by (simp add: from_resolution_def space_auto_select_def color_space_defs byte_sample_def)

end
