(* ===== verification/Wrdp_Chroma.thy ===== *)
theory Wrdp_Chroma
  imports Wrdp_Color
begin

text \<open>
  Chroma subsampling (\<open>subsample_chroma_420\<close> of \<open>src/src/rdp/channels/graphics/egfx/color/convert.rs\<close>) in its three forms, and that they compute the same plane.
\<close>

section \<open>Chroma subsampling\<close>

text \<open>The rounded average of four bytes, read at checked indices.\<close>

definition box_average :: "nat list \<Rightarrow> nat \<Rightarrow> nat \<Rightarrow> nat \<Rightarrow> nat \<Rightarrow> nat option" where
  "box_average c i00 i01 i10 i11 =
     (case (byte_at c i00, byte_at c i01, byte_at c i10, byte_at c i11) of
        (Some a, Some b, Some d, Some e) \<Rightarrow> Some ((a + b + d + e + 2) div 4 mod 256)
      | _ \<Rightarrow> None)"

definition subsample_row :: "nat list \<Rightarrow> nat \<Rightarrow> nat \<Rightarrow> nat list \<Rightarrow> nat list option" where
  "subsample_row c width y out =
     for_each (\<lambda>x out. case box_average c (y * width + x) (y * width + (x + 1)) ((y + 1) * width + x) ((y + 1) * width + (x + 1)) of
                         None \<Rightarrow> None | Some avg \<Rightarrow> Some (out @ [avg]))
       (map (\<lambda>i. 2 * i) [0..<width div 2]) out"

definition subsample_chroma_420_scalar :: "nat list \<Rightarrow> nat \<Rightarrow> nat \<Rightarrow> nat list option" where
  "subsample_chroma_420_scalar c width height = for_each (subsample_row c width) (map (\<lambda>i. 2 * i) [0..<height div 2]) []"

definition subsample_remainder :: "nat list \<Rightarrow> nat \<Rightarrow> nat \<Rightarrow> nat \<Rightarrow> nat \<Rightarrow> nat list \<Rightarrow> nat list option" where
  "subsample_remainder c row0 row1 out_row out_x out =
     (let in_x = out_x * 2 in
      case box_average c (row0 + in_x) (row0 + in_x + 1) (row1 + in_x) (row1 + in_x + 1) of
        None \<Rightarrow> None | Some avg \<Rightarrow> store (out_row + out_x) [avg] out)"

definition avx2_subsample_block :: "nat list \<Rightarrow> nat list \<Rightarrow> nat list" where
  "avx2_subsample_block r0 r1 =
     (let zero = mm256_setzero_si256;
          r0_lo = mm256_unpacklo_epi8 r0 zero; r0_hi = mm256_unpackhi_epi8 r0 zero;
          r1_lo = mm256_unpacklo_epi8 r1 zero; r1_hi = mm256_unpackhi_epi8 r1 zero;
          v_lo = mm256_add_epi16 r0_lo r1_lo; v_hi = mm256_add_epi16 r0_hi r1_hi;
          h_lo = mm256_hadd_epi16 v_lo v_hi;
          sum = mm256_add_epi16 h_lo (mm256_set1_epi16 2);
          avg = mm256_srli_epi16 sum 2;
          result = mm256_packus_epi16 avg avg;
          permuted = mm256_permute4x64_epi64 result 216
      in mm256_castsi256_si128 permuted)"

definition neon_subsample_block :: "nat list \<Rightarrow> nat list \<Rightarrow> nat list" where
  "neon_subsample_block r0 r1 =
     (let v_lo = vaddq_u16 (vmovl (vget_low r0)) (vmovl (vget_low r1));
          v_hi = vaddq_u16 (vmovl (vget_high r0)) (vmovl (vget_high r1));
          h_sum = vpaddq_u16 v_lo v_hi;
          sum = vaddq_u16 h_sum (vdupq_n_u16 2);
          avg = vshrq_n_u16 sum 2
      in vmovn_u16 avg)"

text \<open>The two vector forms differ in how many outputs one step makes (16 and 8) and in the step.\<close>

definition subsample_chunk :: "nat \<Rightarrow> (nat list \<Rightarrow> nat list \<Rightarrow> nat list) \<Rightarrow> nat list \<Rightarrow> nat \<Rightarrow> nat \<Rightarrow> nat \<Rightarrow> nat \<Rightarrow> nat list \<Rightarrow> nat list option" where
  "subsample_chunk n block c row0 row1 out_row chunk out =
     (let in_x = chunk * (2 * n); out_x = chunk * n in
      case (load (2 * n) (row0 + in_x) c, load (2 * n) (row1 + in_x) c) of
        (Some r0, Some r1) \<Rightarrow> store (out_row + out_x) (block r0 r1) out
      | _ \<Rightarrow> None)"

definition subsample_simd_row :: "nat \<Rightarrow> (nat list \<Rightarrow> nat list \<Rightarrow> nat list) \<Rightarrow> nat list \<Rightarrow> nat \<Rightarrow> nat \<Rightarrow> nat list \<Rightarrow> nat list option" where
  "subsample_simd_row n block c width out_y out =
     (let out_width = width div 2; simd_width = out_width div n;
          in_y = out_y * 2; row0 = in_y * width; row1 = (in_y + 1) * width; out_row = out_y * out_width
      in case for_each (subsample_chunk n block c row0 row1 out_row) [0..<simd_width] out of
           None \<Rightarrow> None
         | Some out' \<Rightarrow> for_each (subsample_remainder c row0 row1 out_row) [simd_width * n..<out_width] out')"

definition subsample_simd :: "nat \<Rightarrow> (nat list \<Rightarrow> nat list \<Rightarrow> nat list) \<Rightarrow> nat list \<Rightarrow> nat \<Rightarrow> nat \<Rightarrow> nat list option" where
  "subsample_simd n block c width height =
     for_each (subsample_simd_row n block c width) [0..<height div 2] (replicate ((width div 2) * (height div 2)) 0)"

definition subsample_chroma_420_avx2 :: "nat list \<Rightarrow> nat \<Rightarrow> nat \<Rightarrow> nat list option" where
  "subsample_chroma_420_avx2 = subsample_simd 16 avx2_subsample_block"

definition subsample_chroma_420_neon :: "nat list \<Rightarrow> nat \<Rightarrow> nat \<Rightarrow> nat list option" where
  "subsample_chroma_420_neon = subsample_simd 8 neon_subsample_block"

definition subsample_chroma_420 :: "vector_unit \<Rightarrow> nat list \<Rightarrow> nat \<Rightarrow> nat \<Rightarrow> nat list option" where
  "subsample_chroma_420 unit c width height =
     (if width mod 2 \<noteq> 0 \<or> height mod 2 \<noteq> 0 \<or> length c \<noteq> width * height then None
      else case unit of
             Avx2 \<Rightarrow> subsample_chroma_420_avx2 c width height
           | Neon \<Rightarrow> subsample_chroma_420_neon c width height
           | No_simd \<Rightarrow> subsample_chroma_420_scalar c width height)"

section \<open>The subsampling blocks\<close>

abbreviation upto16 :: "nat list" where "upto16 \<equiv> [0, 1, 2, 3, 4, 5, 6, 7, 8, 9, 10, 11, 12, 13, 14, 15]"

definition box4 :: "nat list \<Rightarrow> nat list \<Rightarrow> nat \<Rightarrow> nat" where
  "box4 r0 r1 j = (r0 ! (2 * j) + r0 ! (2 * j + 1) + r1 ! (2 * j) + r1 ! (2 * j + 1) + 2) div 4"

text \<open>Sixteen non-negative 16-bit lanes.\<close>

definition lanes16 :: "nat list \<Rightarrow> nat list" where "lanes16 xs = units_le xs"

definition small16 :: "nat list \<Rightarrow> bool" where "small16 xs \<longleftrightarrow> list_all (\<lambda>x. x < 0x8000) xs"

lemma le_units_lanes16: "small16 xs \<Longrightarrow> le_units (lanes16 xs) = xs"
  unfolding lanes16_def by (rule le_units_le) (auto simp: small16_def list_all_iff)

lemma i16s_lanes16: "small16 xs \<Longrightarrow> i16s (lanes16 xs) = map int xs"
  by (simp add: i16s_def le_units_lanes16) (auto simp: small16_def list_all_iff to_signed_def in_range_def)

lemma of_i16s_lanes16: "small16 xs \<Longrightarrow> of_i16s (map int xs) = lanes16 xs"
proof -
  assume s: "small16 xs"
  have "of_signed 16 (int x) = x" if "x < 0x8000" for x using that by (simp add: of_signed_def)
  with s have "map (of_signed 16 \<circ> int) xs = xs" by (intro map_idI) (simp add: small16_def list_all_iff)
  then show ?thesis by (simp add: of_i16s_def lanes16_def)
qed

lemma add_lanes16:
  assumes "small16 xs" "small16 ys" "small16 (map2 (+) xs ys)"
  shows "mm256_add_epi16 (lanes16 xs) (lanes16 ys) = lanes16 (map2 (+) xs ys)"
proof -
  have "map2 (\<lambda>x y. wrap 16 (x + y)) (map int xs) (map int ys) = map int (map2 (+) xs ys)"
    using assms(3) by (auto simp: zip_map_map small16_def list_all_iff in_range_def)
  then show ?thesis unfolding mm256_add_epi16_def i16s_lanes16[OF assms(1)] i16s_lanes16[OF assms(2)] using of_i16s_lanes16[OF assms(3)] by simp
qed

lemma srli_lanes16: "small16 xs \<Longrightarrow> mm256_srli_epi16 (lanes16 xs) 2 = lanes16 (map (\<lambda>x. x div 4) xs)"
  by (simp add: mm256_srli_epi16_def le_units_lanes16) (simp add: lanes16_def)

abbreviation lo_lanes :: "nat list" where "lo_lanes \<equiv> [0, 1, 2, 3, 4, 5, 6, 7, 16, 17, 18, 19, 20, 21, 22, 23]"
abbreviation hi_lanes :: "nat list" where "hi_lanes \<equiv> [8, 9, 10, 11, 12, 13, 14, 15, 24, 25, 26, 27, 28, 29, 30, 31]"

lemma unpack_lanes16:
  assumes "\<And>i. p i < 256"
  shows "mm256_unpacklo_epi8 (map p upto32) mm256_setzero_si256 = lanes16 (map p lo_lanes)"
    "mm256_unpackhi_epi8 (map p upto32) mm256_setzero_si256 = lanes16 (map p hi_lanes)"
proof -
  have b: "le_bytes 2 (p i) = [p i, 0]" for i using assms by (simp add: le_bytes_2)
  have z: "take 16 mm256_setzero_si256 = mm_setzero_si128" "drop 16 mm256_setzero_si256 = mm_setzero_si128"
    by (simp_all add: mm256_setzero_si256_def mm_setzero_si128_def)
  have h: "take 16 (map p upto32) = map p [0, 1, 2, 3, 4, 5, 6, 7, 8, 9, 10, 11, 12, 13, 14, 15]"
    "drop 16 (map p upto32) = map p [16, 17, 18, 19, 20, 21, 22, 23, 24, 25, 26, 27, 28, 29, 30, 31]" by simp_all
  show "mm256_unpacklo_epi8 (map p upto32) mm256_setzero_si256 = lanes16 (map p lo_lanes)"
    unfolding mm256_unpacklo_epi8_def z h by (simp add: zeros16 mm_unpacklo_epi8_def lanes16_def b)
  show "mm256_unpackhi_epi8 (map p upto32) mm256_setzero_si256 = lanes16 (map p hi_lanes)"
    unfolding mm256_unpackhi_epi8_def z h by (simp add: zeros16 mm_unpackhi_epi8_def lanes16_def b)
qed

lemma avx2_subsample_block_value:
  assumes "length r0 = 32" "length r1 = 32" "list_all (\<lambda>b. b < 256) r0" "list_all (\<lambda>b. b < 256) r1"
  shows "avx2_subsample_block r0 r1 = map (box4 r0 r1) [0, 1, 2, 3, 4, 5, 6, 7, 8, 9, 10, 11, 12, 13, 14, 15]"
proof -
  define p q where "p i = (if i < 32 then r0 ! i else 0)" and "q i = (if i < 32 then r1 ! i else 0)" for i
  have b: "p i < 256" "q i < 256" for i using assms by (auto simp: p_def q_def list_all_length)
  have r: "r0 = map p upto32" "r1 = map q upto32" using upto32[OF assms(1)] upto32[OF assms(2)] by (simp_all add: p_def q_def)
  define s where "s i = p i + q i" for i
  have s: "s i < 511" for i using b[of i] by (simp add: s_def)
  define t where "t i = s (2 * i) + s (2 * i + 1)" for i
  have t: "t i < 1021" for i using s[of "2 * i"] s[of "2 * i + 1"] by (simp add: t_def)
  have sm: "small16 (map F xs)" if "\<And>i. F i < 2000" for F xs
  proof -
    have "F i < 32768" for i using that[of i] by simp
    then show ?thesis by (simp add: small16_def list_all_iff)
  qed
  have avg: "(t i + 2) div 4 < 256" for i using t[of i] by (intro less_mult_imp_div_less) simp
  have lt: "p i < 2000" "q i < 2000" "s i < 2000" "t i < 2000" "t i + 2 < 2000" "(t i + 2) div 4 < 2000" for i
    using b[of i] s[of i] t[of i] avg[of i] by simp_all
  have pq: "small16 (map p xs)" "small16 (map q xs)" "small16 (map s xs)" "small16 (map t xs)" "small16 (map (\<lambda>i. t i + 2) xs)" "small16 (map (\<lambda>i. (t i + 2) div 4) xs)" for xs
    by (rule sm, rule lt)+
  have v: "map2 (+) (map p xs) (map q xs) = map s xs" for xs by (simp add: map2_lanes s_def)
  have a1: "mm256_add_epi16 (lanes16 (map p xs)) (lanes16 (map q xs)) = lanes16 (map s xs)" for xs
    using add_lanes16[of "map p xs" "map q xs"] pq by (simp add: v)
  have w: "wrap 16 (int (s i) + int (s j)) = int (s i + s j)" for i j using s[of i] s[of j] by (simp add: in_range_def)
  have "mm256_hadd_epi16 (lanes16 (map s lo_lanes)) (lanes16 (map s hi_lanes)) = of_i16s (map int (map t upto16))"
    unfolding mm256_hadd_epi16_def Let_def i16s_lanes16[OF pq(3)] by (simp add: w t_def)
  then have h: "mm256_hadd_epi16 (lanes16 (map s lo_lanes)) (lanes16 (map s hi_lanes)) = lanes16 (map t upto16)" by (simp only: of_i16s_lanes16[OF pq(4)])
  have two: "mm256_set1_epi16 2 = lanes16 (map (\<lambda>_. 2) upto16)"
    by (simp add: mm256_set1_epi16_def of_i16s_def lanes16_def replicate_numeral_Cons of_signed_def)
  have s2: "small16 (map (\<lambda>_. 2) xs)" for xs by (simp add: small16_def list_all_iff)
  have sum: "mm256_add_epi16 (lanes16 (map t upto16)) (mm256_set1_epi16 2) = lanes16 (map (\<lambda>i. t i + 2) upto16)"
    unfolding two using add_lanes16[OF pq(4) s2, of upto16 upto16] pq(5)[of upto16] by (simp only: map2_lanes)
  have av: "mm256_srli_epi16 (lanes16 (map (\<lambda>i. t i + 2) upto16)) 2 = lanes16 (map (\<lambda>i. (t i + 2) div 4) upto16)"
    using srli_lanes16[OF pq(5)] by (simp only: map_map comp_def)
  let ?a = "\<lambda>i. (t i + 2) div 4"
  have "saturate_u8 (int (?a i)) = ?a i" for i using avg[of i] by (simp add: clamp_int_def)
  then have pk: "mm256_packus_epi16 (lanes16 (map ?a upto16)) (lanes16 (map ?a upto16)) =
    map ?a [0, 1, 2, 3, 4, 5, 6, 7, 0, 1, 2, 3, 4, 5, 6, 7, 8, 9, 10, 11, 12, 13, 14, 15, 8, 9, 10, 11, 12, 13, 14, 15]"
    unfolding mm256_packus_epi16_def Let_def i16s_lanes16[OF pq(6)] by simp
  have pm: "mm256_castsi256_si128 (mm256_permute4x64_epi64 (map F [0, 1, 2, 3, 4, 5, 6, 7, 0, 1, 2, 3, 4, 5, 6, 7, 8, 9, 10, 11, 12, 13, 14, 15, 8, 9, 10, 11, 12, 13, 14, 15]) 216) = map F upto16"
    for F :: "nat \<Rightarrow> nat" by (simp add: mm256_castsi256_si128_def mm256_permute4x64_epi64_def)
  have "avx2_subsample_block r0 r1 = map ?a upto16"
    unfolding avx2_subsample_block_def Let_def r unpack_lanes16[OF b(1)] unpack_lanes16[OF b(2)] a1 h sum av pk pm ..
  moreover have "?a i = box4 r0 r1 i" if "i < 16" for i using that by (simp add: t_def s_def p_def q_def box4_def ac_simps)
  ultimately show ?thesis by simp
qed

lemma neon_subsample_block_value:
  assumes "length r0 = 16" "length r1 = 16" "list_all (\<lambda>b. b < 256) r0" "list_all (\<lambda>b. b < 256) r1"
  shows "neon_subsample_block r0 r1 = map (box4 r0 r1) upto8"
proof -
  have u: "[0..<16] = upto16" by code_simp
  define p q where "p i = (if i < 16 then r0 ! i else 0)" and "q i = (if i < 16 then r1 ! i else 0)" for i
  have r: "r0 = map p upto16" "r1 = map q upto16" using map_nth[of r0] map_nth[of r1] assms(1,2) u by (simp_all add: p_def q_def)
  define s where "s i = p i + q i" for i
  have pq: "p i < 256" "q i < 256" for i using assms by (auto simp: p_def q_def list_all_length)
  have s: "s i < 511" for i using pq[of i] by (simp add: s_def)
  have m: "(p i + q i) mod 65536 = s i" "(s i + s j) mod 65536 = s i + s j" "(s i + s j + 2) mod 65536 = s i + s j + 2"
    "(s i + s j + 2) div 4 mod 256 = (s i + s j + 2) div 4" for i j
  proof -
    have b: "s i < 65536" "s i + s j < 65536" "s i + s j + 2 < 65536" "s i + s j + 2 < 256 * 4" using s[of i] s[of j] by linarith+
    show "(p i + q i) mod 65536 = s i" "(s i + s j) mod 65536 = s i + s j" "(s i + s j + 2) mod 65536 = s i + s j + 2"
      using b(1-3) by (simp_all add: s_def)
    show "(s i + s j + 2) div 4 mod 256 = (s i + s j + 2) div 4" by (rule mod_less, rule less_mult_imp_div_less, rule b(4))
  qed
  have lo: "vaddq_u16 (vmovl (vget_low r0)) (vmovl (vget_low r1)) = map s [0, 1, 2, 3, 4, 5, 6, 7]"
    and hi: "vaddq_u16 (vmovl (vget_high r0)) (vmovl (vget_high r1)) = map s [8, 9, 10, 11, 12, 13, 14, 15]"
    unfolding r by (simp_all add: vaddq_u16_def vmovl_def vget_low_def vget_high_def m)
  have n: "neon_subsample_block r0 r1 = map (\<lambda>j. (s (2 * j) + s (2 * j + 1) + 2) div 4) upto8"
    unfolding neon_subsample_block_def Let_def lo hi
    by (simp add: vpaddq_u16_def vaddq_u16_def vdupq_n_u16_def vshrq_n_u16_def vmovn_u16_def replicate_numeral_Cons m del: add_2_eq_Suc add_2_eq_Suc')
  have e: "(s (2 * j) + s (2 * j + 1) + 2) div 4 = box4 r0 r1 j" if "j < 8" for j using that by (simp add: s_def p_def q_def box4_def ac_simps)
  show ?thesis unfolding n by (rule map_cong[OF refl], rule e) auto
qed

section \<open>Whole planes\<close>

definition subsampled :: "nat list \<Rightarrow> nat \<Rightarrow> nat \<Rightarrow> nat \<Rightarrow> nat" where
  "subsampled c width oy ox =
     (c ! (2 * oy * width + 2 * ox) + c ! (2 * oy * width + 2 * ox + 1) + c ! ((2 * oy + 1) * width + 2 * ox) + c ! ((2 * oy + 1) * width + 2 * ox + 1) + 2) div 4"

lemma for_each_stores:
  assumes step: "\<And>i out. a \<le> i \<Longrightarrow> i < b \<Longrightarrow> step i out = store (base + i * c) (X i) out"
    and len: "\<And>i. a \<le> i \<Longrightarrow> i < b \<Longrightarrow> length (X i) = c" and p: "length p = base + a * c" and q: "(b - a) * c \<le> length q" and ab: "a \<le> b"
  shows "for_each step [a..<b] (p @ q) = Some (p @ concat (map X [a..<b]) @ drop ((b - a) * c) q)"
  using assms
proof (induction b)
  case (Suc b)
  show ?case
  proof (cases "a \<le> b")
    case True
    have q: "Suc (b - a) * c \<le> length q" using Suc.prems(4) True by (simp add: Suc_diff_le)
    have "for_each step [a..<b] (p @ q) = Some (p @ concat (map X [a..<b]) @ drop ((b - a) * c) q)"
      using Suc.prems True q by (intro Suc.IH) auto
    moreover have "length (concat (map X [a..<b])) = (b - a) * c" using Suc.prems(2) by (intro length_concat_blocks) simp
    moreover have "base + b * c = length p + (b - a) * c" using Suc.prems(3) True by (simp flip: add_mult_distrib)
    ultimately show ?thesis
      using True q Suc.prems(1)[of b] Suc.prems(2)[of b] store_next[of p "length p" "concat (map X [a..<b])" "(b - a) * c" "base + b * c" "X b" c "drop ((b - a) * c) q"]
      by (simp add: for_each_append Suc_diff_le add.commute)
  next
    case False
    with Suc.prems have "a = Suc b" by simp
    then show ?thesis by simp
  qed
qed simp

lemma box_average_at:
  "i00 < length c \<Longrightarrow> i01 < length c \<Longrightarrow> i10 < length c \<Longrightarrow> i11 < length c \<Longrightarrow> list_all (\<lambda>b. b < 256) c \<Longrightarrow>
   box_average c i00 i01 i10 i11 = Some ((c ! i00 + c ! i01 + c ! i10 + c ! i11 + 2) div 4)"
proof -
  assume i: "i00 < length c" "i01 < length c" "i10 < length c" "i11 < length c" and b: "list_all (\<lambda>b. b < 256) c"
  have "c ! i00 < 256" "c ! i01 < 256" "c ! i10 < 256" "c ! i11 < 256" using i b by (simp_all add: list_all_length)
  then have "c ! i00 + c ! i01 + c ! i10 + c ! i11 + 2 < 256 * 4" by simp
  then have "(c ! i00 + c ! i01 + c ! i10 + c ! i11 + 2) div 4 < 256" by (rule less_mult_imp_div_less)
  then show ?thesis using i by (simp add: box_average_def byte_at_def)
qed

lemma plane_index: "oy < height div 2 \<Longrightarrow> ox < width div 2 \<Longrightarrow> (2 * oy + 1) * width + 2 * ox + 1 < width * height" for oy ox width height :: nat
proof -
  assume "oy < height div 2" "ox < width div 2"
  then have "2 * oy + 2 \<le> height" "2 * ox + 1 < width" by auto
  then have "(2 * oy + 1) * width + (2 * ox + 1) < (2 * oy + 2) * width" by simp
  also have "\<dots> \<le> height * width" using \<open>2 * oy + 2 \<le> height\<close> by (rule mult_le_mono1)
  finally show ?thesis by (simp add: mult.commute)
qed

lemma subsampled_box:
  assumes "length c = width * height" "list_all (\<lambda>b. b < 256) c" "oy < height div 2" "ox < width div 2"
  shows "box_average c (2 * oy * width + 2 * ox) (2 * oy * width + 2 * ox + 1) ((2 * oy + 1) * width + 2 * ox) ((2 * oy + 1) * width + 2 * ox + 1) =
    Some (subsampled c width oy ox)"
proof -
  have "(2 * oy + 1) * width + 2 * ox + 1 < length c" using plane_index[OF assms(3,4)] assms(1) by simp
  moreover have "2 * oy * width \<le> (2 * oy + 1) * width" by simp
  ultimately show ?thesis unfolding subsampled_def using assms(2) by (intro box_average_at) simp_all
qed

lemma for_each_snoc: "(\<And>i out. i \<in> set is \<Longrightarrow> step i out = Some (out @ X i)) \<Longrightarrow> for_each step is out = Some (out @ concat (map X is))"
  by (induction "is" arbitrary: out) auto

definition subsampled_row :: "nat list \<Rightarrow> nat \<Rightarrow> nat \<Rightarrow> nat list" where
  "subsampled_row c width oy = map (subsampled c width oy) [0..<width div 2]"

definition subsampled_plane :: "nat list \<Rightarrow> nat \<Rightarrow> nat \<Rightarrow> nat list" where
  "subsampled_plane c width height = concat (map (subsampled_row c width) [0..<height div 2])"

lemma subsample_scalar_plane:
  assumes "length c = width * height" "list_all (\<lambda>b. b < 256) c"
  shows "subsample_chroma_420_scalar c width height = Some (subsampled_plane c width height)"
proof -
  have row: "subsample_row c width (2 * oy) out = Some (out @ subsampled_row c width oy)" if oy: "oy < height div 2" for oy out
  proof -
    have "subsample_row c width (2 * oy) out = Some (out @ concat (map (\<lambda>x. [subsampled c width oy (x div 2)]) (map (\<lambda>i. 2 * i) [0..<width div 2])))"
      unfolding subsample_row_def using subsampled_box[OF assms oy] by (intro for_each_snoc) (auto simp: ac_simps)
    then show ?thesis by (simp add: concat_singletons subsampled_row_def comp_def)
  qed
  have "for_each (subsample_row c width) (map (\<lambda>i. 2 * i) [0..<height div 2]) [] =
    Some ([] @ concat (map (\<lambda>y. subsampled_row c width (y div 2)) (map (\<lambda>i. 2 * i) [0..<height div 2])))"
    by (rule for_each_snoc) (auto simp: row)
  then show ?thesis by (simp add: subsample_chroma_420_scalar_def subsampled_plane_def comp_def)
qed

lemma concat_blocks: "concat (map (\<lambda>i. map (\<lambda>j. g (i * n + j)) [0..<n]) [0..<k]) = map g [0..<k * n]"
proof (induction k)
  case (Suc k)
  have "map (\<lambda>j. g (k * n + j)) [0..<n] = map g (map (\<lambda>j. j + k * n) [0..<n])" by (simp add: add.commute)
  then have "map (\<lambda>j. g (k * n + j)) [0..<n] = map g [k * n..<n + k * n]" by (simp only: map_add_upt)
  moreover have "[0..<n + k * n] = [0..<k * n] @ [k * n..<n + k * n]" by (metis add.commute le0 upt_add_eq_append)
  ultimately show ?case using Suc by simp
qed simp

lemma subsample_simd_row_value:
  assumes c: "length c = width * height" "list_all (\<lambda>b. b < 256) c" and n: "0 < n" and oy: "oy < height div 2"
    and block: "\<And>r0 r1. length r0 = 2 * n \<Longrightarrow> length r1 = 2 * n \<Longrightarrow> list_all (\<lambda>b. b < 256) r0 \<Longrightarrow> list_all (\<lambda>b. b < 256) r1 \<Longrightarrow>
      block r0 r1 = map (box4 r0 r1) [0..<n]"
    and p: "length p = oy * (width div 2)" and q: "width div 2 \<le> length q"
  shows "subsample_simd_row n block c width oy (p @ q) = Some (p @ subsampled_row c width oy @ drop (width div 2) q)"
proof -
  let ?ow = "width div 2" let ?k = "?ow div n" let ?row = "oy * 2 * width" and ?row1 = "(oy * 2 + 1) * width"
  let ?X = "\<lambda>i. map (\<lambda>j. subsampled c width oy (i * n + j)) [0..<n]"
  have k: "?k * n \<le> ?ow" by simp
  have chunk: "subsample_chunk n block c ?row ?row1 (oy * ?ow) i out = store (oy * ?ow + i * n) (?X i) out" if i: "i < ?k" for i out
  proof -
    have "i * n + n = (i + 1) * n" by simp
    also have "\<dots> \<le> ?k * n" using i by (intro mult_le_mono1) simp
    also have "\<dots> \<le> ?ow" by (rule k)
    finally have "i * n + n \<le> ?ow" .
    then have last: "i * n + (n - 1) < ?ow" using n by linarith
    have "(2 * oy + 1) * width + 2 * (i * n + (n - 1)) + 1 < width * height" by (rule plane_index[OF oy last])
    then have f: "?row1 + i * (2 * n) + 2 * n \<le> length c" using n c(1) by (cases n) (simp_all add: algebra_simps)
    let ?r0 = "take (2 * n) (drop (?row + i * (2 * n)) c)" and ?r1 = "take (2 * n) (drop (?row1 + i * (2 * n)) c)"
    have "list_all (\<lambda>b. b < 256) ?r0" "list_all (\<lambda>b. b < 256) ?r1" using c(2) by (auto simp: list_all_iff dest: in_set_takeD in_set_dropD)
    moreover have lens: "length ?r0 = 2 * n" "length ?r1 = 2 * n" using f by simp_all
    ultimately have "block ?r0 ?r1 = map (box4 ?r0 ?r1) [0..<n]" by (intro block)
    also have "\<dots> = ?X i"
    proof (rule map_cong[OF refl])
      fix j assume "j \<in> set [0..<n]"
      then have "j < n" by simp
      then show "box4 ?r0 ?r1 j = subsampled c width oy (i * n + j)" using f by (simp add: box4_def subsampled_def algebra_simps)
    qed
    finally show ?thesis using f by (simp add: subsample_chunk_def load_def Let_def)
  qed
  have rem: "subsample_remainder c ?row ?row1 (oy * ?ow) i out = store (oy * ?ow + i * 1) [subsampled c width oy i] out" if i: "i < ?ow" for i out
    using subsampled_box[OF c oy i] by (simp add: subsample_remainder_def mult.commute[of _ 2] mult.assoc Let_def)
  have s1: "for_each (subsample_chunk n block c ?row ?row1 (oy * ?ow)) [0..<?k] (p @ q) = Some (p @ concat (map ?X [0..<?k]) @ drop (?k * n) q)"
    using for_each_stores[of 0 ?k _ "oy * ?ow" n ?X p q, OF chunk] p q k by simp
  have cc: "concat (map ?X [0..<?k]) = map (subsampled c width oy) [0..<?k * n]" by (rule concat_blocks)
  let ?p = "p @ map (subsampled c width oy) [0..<?k * n]"
  have s2: "for_each (subsample_remainder c ?row ?row1 (oy * ?ow)) [?k * n..<?ow] (?p @ drop (?k * n) q) =
      Some (?p @ map (subsampled c width oy) [?k * n..<?ow] @ drop ?ow q)"
    using for_each_stores[of "?k * n" ?ow _ "oy * ?ow" 1 "\<lambda>i. [subsampled c width oy i]" ?p "drop (?k * n) q", OF rem] p q k
    by (simp add: concat_singletons)
  have "[0..<?ow] = [0..<?k * n] @ [?k * n..<?ow]" using k by (metis le0 le_add_diff_inverse upt_add_eq_append)
  then have "subsampled_row c width oy = map (subsampled c width oy) [0..<?k * n] @ map (subsampled c width oy) [?k * n..<?ow]"
    by (simp add: subsampled_row_def)
  with s1 s2 show ?thesis unfolding subsample_simd_row_def Let_def cc by simp
qed

lemma subsample_simd_plane:
  assumes c: "length c = width * height" "list_all (\<lambda>b. b < 256) c" and n: "0 < n"
    and block: "\<And>r0 r1. length r0 = 2 * n \<Longrightarrow> length r1 = 2 * n \<Longrightarrow> list_all (\<lambda>b. b < 256) r0 \<Longrightarrow> list_all (\<lambda>b. b < 256) r1 \<Longrightarrow>
      block r0 r1 = map (box4 r0 r1) [0..<n]"
  shows "subsample_simd n block c width height = Some (subsampled_plane c width height)"
proof -
  let ?ow = "width div 2" and ?oh = "height div 2"
  let ?z = "replicate (?ow * ?oh) 0"
  have "for_each (subsample_simd_row n block c width) [0..<k] ?z = Some (concat (map (subsampled_row c width) [0..<k]) @ drop (k * ?ow) ?z)" if "k \<le> ?oh" for k
    using that
  proof (induction k)
    case (Suc k)
    have len: "length (concat (map (subsampled_row c width) [0..<k])) = k * ?ow"
      using length_concat_blocks[of 0 k "subsampled_row c width" ?ow] by (simp add: subsampled_row_def)
    have "?ow + k * ?ow \<le> ?oh * ?ow" using mult_le_mono1[OF Suc.prems, of ?ow] by simp
    then have "?ow \<le> length (drop (k * ?ow) ?z)" by (simp add: mult.commute[of ?ow ?oh])
    then have "subsample_simd_row n block c width k (concat (map (subsampled_row c width) [0..<k]) @ drop (k * ?ow) ?z) =
      Some (concat (map (subsampled_row c width) [0..<k]) @ subsampled_row c width k @ drop ?ow (drop (k * ?ow) ?z))"
      using Suc.prems len by (intro subsample_simd_row_value[OF c n _ block]) simp_all
    with Suc show ?case by (simp add: for_each_append add.commute)
  qed simp
  from this[of ?oh] show ?thesis by (simp add: subsample_simd_def subsampled_plane_def mult.commute)
qed

lemma upto_literals: "[0..<16] = upto16" "[0..<8] = upto8"
  by code_simp+

lemma subsample_plane_value:
  assumes "list_all (\<lambda>b. b < 256) c"
  shows "subsample_chroma_420 unit c width height =
    (if width mod 2 \<noteq> 0 \<or> height mod 2 \<noteq> 0 \<or> length c \<noteq> width * height then None else Some (subsampled_plane c width height))"
proof (cases "length c = width * height")
  case True
  have "subsample_chroma_420_avx2 c width height = Some (subsampled_plane c width height)"
    unfolding subsample_chroma_420_avx2_def
    by (rule subsample_simd_plane[OF True assms]) (simp_all add: upto_literals avx2_subsample_block_value)
  moreover have "subsample_chroma_420_neon c width height = Some (subsampled_plane c width height)"
    unfolding subsample_chroma_420_neon_def
    by (rule subsample_simd_plane[OF True assms]) (simp_all add: upto_literals neon_subsample_block_value)
  ultimately show ?thesis using subsample_scalar_plane[OF True assms]
    by (cases unit) (simp_all add: subsample_chroma_420_def)
qed (simp add: subsample_chroma_420_def)

text \<open>
  C26.  Chroma subsampling computes the rounded average of every two by two block, and the AVX2 and NEON forms give
  exactly what the scalar form gives: on every processor the result is the reference plane, for odd dimensions or a wrong size
  the assertion fails, and no vector access leaves its slice.
\<close>

theorem subsampling_equivalent:
  assumes "list_all (\<lambda>b. b < 256) c"
  shows "subsample_chroma_420 unit c width height =
    (if width mod 2 \<noteq> 0 \<or> height mod 2 \<noteq> 0 \<or> length c \<noteq> width * height then None else Some (subsampled_plane c width height))"
  using assms by (rule subsample_plane_value)

theorem subsampling_equivalent_witness:
  "subsample_chroma_420 Avx2 [10, 20, 30, 41] 2 2 = Some [25] \<and> subsample_chroma_420 Neon [10, 20, 30, 41] 2 2 = Some [25]"
  using subsampling_equivalent[of "[10, 20, 30, 41]" Avx2 2 2] subsampling_equivalent[of "[10, 20, 30, 41]" Neon 2 2]
  by (simp add: subsampled_plane_def subsampled_row_def subsampled_def)

end
