(* ===== verification/Wrdp_Avc444_Packing.thy ===== *)
theory Wrdp_Avc444_Packing
  imports Wrdp_Chroma
begin

text \<open>
  Packing YUV 4:4:4 into two YUV 4:2:0 views for AVC444 (\<open>src/src/rdp/channels/graphics/egfx/color/yuv444_packing.rs\<close>), and what a client can
  take back out of them.

  A panic, from an assertion or a slice out of range, is \<open>None\<close>.  The diagnostics for frames of 1280 by 800 pixels only write to the log and are left
  out, as is \<open>to_bgra\<close>, which is arithmetic on 32-bit floats.
\<close>

section \<open>YUV 4:2:0 frames\<close>

record yuv420_frame =
  g_y :: "nat list"
  g_u :: "nat list"
  g_v :: "nat list"
  g_width :: nat
  g_height :: nat

definition chroma_dimensions_420 :: "nat \<Rightarrow> nat \<Rightarrow> nat \<times> nat" where
  "chroma_dimensions_420 width height = (width div 2, height div 2)"

definition chroma_index_420 :: "nat \<Rightarrow> nat \<Rightarrow> nat \<Rightarrow> nat" where
  "chroma_index_420 x y chroma_width = y * chroma_width + x"

definition frame420_new :: "nat \<Rightarrow> nat \<Rightarrow> yuv420_frame" where
  "frame420_new width height =
     (let (chroma_width, chroma_height) = chroma_dimensions_420 width height; uv_size = chroma_width * chroma_height
      in \<lparr>g_y = replicate (width * height) 0, g_u = replicate uv_size 128, g_v = replicate uv_size 128, g_width = width, g_height = height\<rparr>)"

definition total_size :: "yuv420_frame \<Rightarrow> nat" where
  "total_size f = length (g_y f) + length (g_u f) + length (g_v f)"

definition frame420_dimensions :: "yuv420_frame \<Rightarrow> nat \<times> nat" where
  "frame420_dimensions f = (g_width f, g_height f)"

definition strides :: "yuv420_frame \<Rightarrow> nat \<times> nat \<times> nat" where
  "strides f = (let (uv, _) = chroma_dimensions_420 (g_width f) (g_height f) in (g_width f, uv, uv))"

definition to_i420_planes :: "yuv420_frame \<Rightarrow> nat list \<times> nat list \<times> nat list \<times> nat \<times> nat" where
  "to_i420_planes f = (let (uv_stride, _) = chroma_dimensions_420 (g_width f) (g_height f) in (g_y f, g_u f, g_v f, g_width f, uv_stride))"

definition validate_for_encoding :: "yuv420_frame \<Rightarrow> (string, unit) result" where
  "validate_for_encoding f =
     (if g_width f mod 2 \<noteq> 0 then Err (''Width '' @ show_nat (g_width f) @ '' must be even for YUV420'')
      else if g_height f mod 2 \<noteq> 0 then Err (''Height '' @ show_nat (g_height f) @ '' must be even for YUV420'')
      else let expected_y = g_width f * g_height f in
      if length (g_y f) \<noteq> expected_y
      then Err (''Y plane size '' @ show_nat (length (g_y f)) @ '' doesn't match expected '' @ show_nat expected_y)
      else let (chroma_width, chroma_height) = chroma_dimensions_420 (g_width f) (g_height f); expected_uv = chroma_width * chroma_height in
      if length (g_u f) \<noteq> expected_uv
      then Err (''U plane size '' @ show_nat (length (g_u f)) @ '' doesn't match expected '' @ show_nat expected_uv)
      else if length (g_v f) \<noteq> expected_uv
      then Err (''V plane size '' @ show_nat (length (g_v f)) @ '' doesn't match expected '' @ show_nat expected_uv)
      else Ok ())"

definition validate_dimensions :: "nat \<Rightarrow> nat \<Rightarrow> bool" where
  "validate_dimensions width height \<longleftrightarrow> width mod 2 = 0 \<and> height mod 2 = 0 \<and> width > 0 \<and> height > 0"

section \<open>The main view\<close>

definition pack_main_view :: "vector_unit \<Rightarrow> yuv444_frame \<Rightarrow> yuv420_frame option" where
  "pack_main_view unit f =
     (case (subsample_chroma_420 unit (f_u f) (f_width f) (f_height f), subsample_chroma_420 unit (f_v f) (f_width f) (f_height f)) of
        (Some u, Some v) \<Rightarrow> Some \<lparr>g_y = f_y f, g_u = u, g_v = v, g_width = f_width f, g_height = f_height f\<rparr>
      | _ \<Rightarrow> None)"

section \<open>The auxiliary view\<close>

text \<open>The loop over the rows of the auxiliary luma, with the counters of the rows taken from U and from V.\<close>

record aux_state =
  aux_y :: "nat list"
  u_row_counter :: nat
  v_row_counter :: nat

definition copy_row :: "nat \<Rightarrow> nat list \<Rightarrow> nat \<Rightarrow> nat \<Rightarrow> nat list \<Rightarrow> nat list option" where
  "copy_row width src source_row aux_row dst =
     (case load width (source_row * width) src of None \<Rightarrow> None | Some row \<Rightarrow> store (aux_row * width) row dst)"

definition aux_row_step :: "yuv444_frame \<Rightarrow> nat \<Rightarrow> aux_state \<Rightarrow> aux_state option" where
  "aux_row_step f aux_row s =
     (if aux_row mod 16 < 8
      then let source_row = 2 * u_row_counter s + 1; s' = s\<lparr>u_row_counter := u_row_counter s + 1\<rparr> in
           if source_row \<ge> f_height f then Some s'
           else map_option (\<lambda>y. s'\<lparr>aux_y := y\<rparr>) (copy_row (f_width f) (f_u f) source_row aux_row (aux_y s))
      else let source_row = 2 * v_row_counter s + 1; s' = s\<lparr>v_row_counter := v_row_counter s + 1\<rparr> in
           if source_row \<ge> f_height f then Some s'
           else map_option (\<lambda>y. s'\<lparr>aux_y := y\<rparr>) (copy_row (f_width f) (f_v f) source_row aux_row (aux_y s)))"

definition padded_height :: "nat \<Rightarrow> nat" where
  "padded_height height = (height + 15) div 16 * 16"

definition aux_luma :: "yuv444_frame \<Rightarrow> nat list option" where
  "aux_luma f =
     map_option (\<lambda>s. take (f_height f * f_width f) (aux_y s))
       (for_each (aux_row_step f) [0..<padded_height (f_height f)]
         \<lparr>aux_y = replicate (padded_height (f_height f) * f_width f) 128, u_row_counter = 0, v_row_counter = 0\<rparr>)"

definition aux_chroma_sample :: "yuv444_frame \<Rightarrow> nat \<Rightarrow> nat \<Rightarrow> nat list \<times> nat list \<Rightarrow> (nat list \<times> nat list) option" where
  "aux_chroma_sample f cy cx = (\<lambda>(aux_u, aux_v).
     let width = f_width f; (chroma_width, _) = chroma_dimensions_420 width (f_height f);
         y = cy * 2; x = cx * 2 + 1; idx = y * width + x;
         out_idx = chroma_index_420 cx cy chroma_width
     in case (byte_at (f_u f) idx, byte_at (f_v f) idx) of
          (Some u, Some v) \<Rightarrow>
            (case (store out_idx [u] aux_u, store out_idx [v] aux_v) of (Some u', Some v') \<Rightarrow> Some (u', v') | _ \<Rightarrow> None)
        | _ \<Rightarrow> None)"

definition aux_chroma :: "yuv444_frame \<Rightarrow> (nat list \<times> nat list) option" where
  "aux_chroma f =
     (let (chroma_width, chroma_height) = chroma_dimensions_420 (f_width f) (f_height f);
          neutral = replicate (chroma_width * chroma_height) 128
      in for_each (\<lambda>cy. for_each (aux_chroma_sample f cy) [0..<chroma_width]) [0..<chroma_height] (neutral, neutral))"

definition pack_auxiliary_view :: "yuv444_frame \<Rightarrow> yuv420_frame option" where
  "pack_auxiliary_view f =
     (case aux_luma f of
        None \<Rightarrow> None
      | Some y \<Rightarrow>
          (case aux_chroma f of
             None \<Rightarrow> None
           | Some (u, v) \<Rightarrow> Some \<lparr>g_y = y, g_u = u, g_v = v, g_width = f_width f, g_height = f_height f\<rparr>))"

definition pack_dual_views :: "vector_unit \<Rightarrow> yuv444_frame \<Rightarrow> (yuv420_frame \<times> yuv420_frame) option" where
  "pack_dual_views unit f =
     (case pack_main_view unit f of
        None \<Rightarrow> None
      | Some main_view \<Rightarrow> (case pack_auxiliary_view f of None \<Rightarrow> None | Some aux_view \<Rightarrow> Some (main_view, aux_view)))"

section \<open>What the views hold\<close>

definition plane_row :: "nat \<Rightarrow> nat \<Rightarrow> nat list \<Rightarrow> nat list" where
  "plane_row w y p = take w (drop (y * w) p)"

definition wf_frame444 :: "yuv444_frame \<Rightarrow> bool" where
  "wf_frame444 f \<longleftrightarrow> length (f_y f) = f_width f * f_height f \<and> length (f_u f) = f_width f * f_height f \<and> length (f_v f) = f_width f * f_height f"

lemma row_fits: "y < h \<Longrightarrow> y * w + w \<le> w * h" for y h w :: nat
  using mult_le_mono1[of "Suc y" h w] by (simp add: mult.commute add.commute)

definition aux_row_value :: "yuv444_frame \<Rightarrow> nat \<Rightarrow> nat list" where
  "aux_row_value f r =
     (let k = 8 * (r div 16) + r mod 8; source_row = 2 * k + 1 in
      if source_row \<ge> f_height f then replicate (f_width f) 128
      else plane_row (f_width f) source_row (if r mod 16 < 8 then f_u f else f_v f))"

lemma length_plane_row: "y < h \<Longrightarrow> length p = w * h \<Longrightarrow> length (plane_row w y p) = w"
  using row_fits[of y h w] by (simp add: plane_row_def)

lemma length_aux_row_value: "wf_frame444 f \<Longrightarrow> length (aux_row_value f r) = f_width f"
  using length_plane_row[of _ "f_height f" _ "f_width f"] by (simp add: aux_row_value_def wf_frame444_def Let_def)

definition u_count :: "nat \<Rightarrow> nat" where "u_count k = 8 * (k div 16) + min 8 (k mod 16)"
definition v_count :: "nat \<Rightarrow> nat" where "v_count k = 8 * (k div 16) + (k mod 16 - 8)"

lemma counts_Suc:
  "k mod 16 < 8 \<Longrightarrow> u_count (Suc k) = u_count k + 1 \<and> v_count (Suc k) = v_count k"
  "\<not> k mod 16 < 8 \<Longrightarrow> u_count (Suc k) = u_count k \<and> v_count (Suc k) = v_count k + 1"
  by (auto simp: u_count_def v_count_def mod_Suc div_Suc)

lemma counts_row:
  "k mod 16 < 8 \<Longrightarrow> u_count k = 8 * (k div 16) + k mod 8"
  "\<not> k mod 16 < 8 \<Longrightarrow> v_count k = 8 * (k div 16) + k mod 8"
proof -
  have m: "k mod 8 = (k mod 16) mod 8" using mod_mod_cancel[of 8 16 k] by simp
  have r: "r < 8 \<Longrightarrow> r mod 8 = r" "\<not> r < 8 \<Longrightarrow> r < 16 \<Longrightarrow> r mod 8 = r - 8" for r :: nat by (simp_all add: le_mod_geq)
  have "k mod 16 < 8 \<Longrightarrow> k mod 8 = k mod 16" "\<not> k mod 16 < 8 \<Longrightarrow> k mod 8 = k mod 16 - 8"
    unfolding m by (rule r(1), assumption) (rule r(2), simp_all)
  then show "k mod 16 < 8 \<Longrightarrow> u_count k = 8 * (k div 16) + k mod 8" "\<not> k mod 16 < 8 \<Longrightarrow> v_count k = 8 * (k div 16) + k mod 8"
    by (simp_all add: u_count_def v_count_def)
qed

definition aux_after :: "yuv444_frame \<Rightarrow> nat \<Rightarrow> nat \<Rightarrow> aux_state" where
  "aux_after f n k = \<lparr>aux_y = concat (map (aux_row_value f) [0..<k]) @ replicate ((n - k) * f_width f) 128, u_row_counter = u_count k, v_row_counter = v_count k\<rparr>"

lemma copy_row_next:
  assumes "length p = r * w" "w \<le> length q" "length src = w * h" "y < h"
  shows "copy_row w src y r (p @ q) = Some (p @ plane_row w y src @ drop w q)"
proof -
  have "load w (y * w) src = Some (plane_row w y src)" using row_fits[OF assms(4), of w] assms(3) by (simp add: load_def plane_row_def)
  then show ?thesis using assms length_plane_row[OF assms(4,3)] by (simp add: copy_row_def store_def)
qed

lemma aux_row_step_next:
  assumes f: "wf_frame444 f" and k: "k < n"
  shows "aux_row_step f k (aux_after f n k) = Some (aux_after f n (Suc k))"
proof -
  let ?w = "f_width f" let ?p = "concat (map (aux_row_value f) [0..<k])" let ?q = "replicate ((n - k) * ?w) (128 :: nat)"
  have p: "length ?p = k * ?w" using length_concat_blocks[of 0 k "aux_row_value f" ?w] length_aux_row_value[OF f] by simp
  have nk: "(n - k) * ?w = ?w + (n - Suc k) * ?w" using k by (metis Suc_diff_Suc mult_Suc)
  have q: "?w \<le> length ?q" "drop ?w ?q = replicate ((n - Suc k) * ?w) 128" by (simp_all add: nk)
  have q0: "?q = replicate ?w 128 @ replicate ((n - Suc k) * ?w) 128" by (simp add: nk replicate_add)
  show ?thesis
  proof (cases "k mod 16 < 8")
    case True
    then show ?thesis
      using counts_Suc(1)[OF True] counts_row(1)[OF True] q0 f copy_row_next[OF p q(1), of "f_u f" "f_height f" "2 * u_count k + 1"] q(2)
      by (simp add: aux_row_step_def aux_after_def aux_row_value_def wf_frame444_def Let_def)
  next
    case False
    then show ?thesis
      using counts_Suc(2)[OF False] counts_row(2)[OF False] q0 f copy_row_next[OF p q(1), of "f_v f" "f_height f" "2 * v_count k + 1"] q(2)
      by (simp add: aux_row_step_def aux_after_def aux_row_value_def wf_frame444_def Let_def)
  qed
qed

lemma aux_luma_value:
  assumes "wf_frame444 f" shows "aux_luma f = Some (concat (map (aux_row_value f) [0..<f_height f]))"
proof -
  let ?n = "padded_height (f_height f)" let ?w = "f_width f" let ?h = "f_height f"
  have "for_each (aux_row_step f) [0..<k] (aux_after f ?n 0) = Some (aux_after f ?n k)" if "k \<le> ?n" for k
    using that by (induction k) (simp_all add: for_each_append aux_row_step_next[OF assms])
  from this[of ?n] have "for_each (aux_row_step f) [0..<?n] (aux_after f ?n 0) = Some (aux_after f ?n ?n)" by simp
  moreover have "aux_after f ?n 0 = \<lparr>aux_y = replicate (?n * ?w) 128, u_row_counter = 0, v_row_counter = 0\<rparr>" by (simp add: aux_after_def u_count_def v_count_def)
  moreover have "take (?h * ?w) (concat (map (aux_row_value f) [0..<?n])) = concat (map (aux_row_value f) [0..<?h])"
  proof -
    have "?h \<le> ?n" by (simp add: padded_height_def)
    then have "[0..<?n] = [0..<?h] @ [?h..<?n]" by (metis le0 le_add_diff_inverse upt_add_eq_append)
    moreover have "length (concat (map (aux_row_value f) [0..<?h])) = ?h * ?w"
      using length_concat_blocks[of 0 ?h "aux_row_value f" ?w] length_aux_row_value[OF assms] by simp
    ultimately show ?thesis by simp
  qed
  ultimately show ?thesis by (simp add: aux_luma_def) (simp add: aux_after_def)
qed

lemma for_each_pair:
  assumes "for_each stepA is a = Some a'" "for_each stepB is b = Some b'"
    and "\<And>i a b. step i (a, b) = (case (stepA i a, stepB i b) of (Some a', Some b') \<Rightarrow> Some (a', b') | _ \<Rightarrow> None)"
  shows "for_each step is (a, b) = Some (a', b')"
  using assms(1,2) by (induction "is" arbitrary: a b) (auto simp: assms(3) split: option.splits)

definition odd_samples_row :: "nat list \<Rightarrow> nat \<Rightarrow> nat \<Rightarrow> nat list" where
  "odd_samples_row p w cy = map (\<lambda>cx. p ! (cy * 2 * w + (cx * 2 + 1))) [0..<w div 2]"

definition odd_samples :: "nat list \<Rightarrow> nat \<Rightarrow> nat \<Rightarrow> nat list" where
  "odd_samples p w h = concat (map (odd_samples_row p w) [0..<h div 2])"

definition plane_sample_step :: "nat list \<Rightarrow> nat \<Rightarrow> nat \<Rightarrow> nat \<Rightarrow> nat list \<Rightarrow> nat list option" where
  "plane_sample_step p w cy cx out =
     (case byte_at p (cy * 2 * w + (cx * 2 + 1)) of None \<Rightarrow> None | Some b \<Rightarrow> store (cy * (w div 2) + cx) [b] out)"

lemma odd_samples_row_stores:
  assumes p: "length p = w * h" and cy: "cy < h div 2" and a: "length a = cy * (w div 2)" and q: "w div 2 \<le> length q"
  shows "for_each (plane_sample_step p w cy) [0..<w div 2] (a @ q) = Some (a @ odd_samples_row p w cy @ drop (w div 2) q)"
proof -
  have "plane_sample_step p w cy cx out = store (cy * (w div 2) + cx * 1) [p ! (cy * 2 * w + (cx * 2 + 1))] out" if cx: "cx < w div 2" for cx out
  proof -
    have "cy * 2 * w + (cx * 2 + 1) < w * h" using plane_index[OF cy cx] by (simp add: algebra_simps)
    then show ?thesis using p by (simp add: plane_sample_step_def byte_at_def)
  qed
  then show ?thesis
    using for_each_stores[of 0 "w div 2" "plane_sample_step p w cy" "cy * (w div 2)" 1 "\<lambda>cx. [p ! (cy * 2 * w + (cx * 2 + 1))]" a q] a q
    by (simp add: concat_singletons odd_samples_row_def)
qed

lemma odd_samples_stores:
  assumes p: "length p = w * h"
  shows "for_each (\<lambda>cy. for_each (plane_sample_step p w cy) [0..<w div 2]) [0..<h div 2] (replicate (w div 2 * (h div 2)) 128) = Some (odd_samples p w h)"
proof -
  let ?ow = "w div 2" and ?oh = "h div 2" let ?z = "replicate (?ow * ?oh) (128 :: nat)"
  have "for_each (\<lambda>cy. for_each (plane_sample_step p w cy) [0..<?ow]) [0..<k] ?z = Some (concat (map (odd_samples_row p w) [0..<k]) @ drop (k * ?ow) ?z)" if "k \<le> ?oh" for k
    using that
  proof (induction k)
    case (Suc k)
    have len: "length (concat (map (odd_samples_row p w) [0..<k])) = k * ?ow"
      using length_concat_blocks[of 0 k "odd_samples_row p w" ?ow] by (simp add: odd_samples_row_def)
    have "?ow + k * ?ow \<le> ?oh * ?ow" using mult_le_mono1[OF Suc.prems, of ?ow] by simp
    then have "?ow \<le> length (drop (k * ?ow) ?z)" by (simp add: mult.commute[of ?ow ?oh])
    then have "for_each (plane_sample_step p w k) [0..<?ow] (concat (map (odd_samples_row p w) [0..<k]) @ drop (k * ?ow) ?z) =
      Some (concat (map (odd_samples_row p w) [0..<k]) @ odd_samples_row p w k @ drop ?ow (drop (k * ?ow) ?z))"
      using Suc.prems len by (intro odd_samples_row_stores[OF p]) simp_all
    with Suc show ?case by (simp add: for_each_append add.commute)
  qed simp
  from this[of ?oh] show ?thesis by (simp add: odd_samples_def mult.commute)
qed

lemma aux_chroma_value:
  assumes "wf_frame444 f"
  shows "aux_chroma f = Some (odd_samples (f_u f) (f_width f) (f_height f), odd_samples (f_v f) (f_width f) (f_height f))"
proof -
  let ?w = "f_width f" and ?h = "f_height f"
  have inner: "aux_chroma_sample f cy cx (a, b) =
      (case (plane_sample_step (f_u f) ?w cy cx a, plane_sample_step (f_v f) ?w cy cx b) of (Some a', Some b') \<Rightarrow> Some (a', b') | _ \<Rightarrow> None)" for cy cx a b
    by (simp add: aux_chroma_sample_def plane_sample_step_def chroma_dimensions_420_def chroma_index_420_def split: option.split)
  have row: "for_each (aux_chroma_sample f cy) is (a, b) = (case (for_each (plane_sample_step (f_u f) ?w cy) is a, for_each (plane_sample_step (f_v f) ?w cy) is b) of
      (Some a', Some b') \<Rightarrow> Some (a', b') | _ \<Rightarrow> None)" for cy "is" a b
    by (induction "is" arbitrary: a b) (auto simp: inner split: option.split)
  have "for_each (\<lambda>cy. for_each (aux_chroma_sample f cy) [0..<?w div 2]) [0..<?h div 2] (replicate (?w div 2 * (?h div 2)) 128, replicate (?w div 2 * (?h div 2)) 128) =
      Some (odd_samples (f_u f) ?w ?h, odd_samples (f_v f) ?w ?h)"
  proof (rule for_each_pair)
    show "for_each (\<lambda>cy. for_each (plane_sample_step (f_u f) ?w cy) [0..<?w div 2]) [0..<?h div 2] (replicate (?w div 2 * (?h div 2)) 128) = Some (odd_samples (f_u f) ?w ?h)"
      "for_each (\<lambda>cy. for_each (plane_sample_step (f_v f) ?w cy) [0..<?w div 2]) [0..<?h div 2] (replicate (?w div 2 * (?h div 2)) 128) = Some (odd_samples (f_v f) ?w ?h)"
      using assms by (auto simp: wf_frame444_def intro: odd_samples_stores)
  qed (rule row)
  then show ?thesis by (simp add: aux_chroma_def chroma_dimensions_420_def)
qed

lemma nth_concat_rows:
  assumes "\<And>i. i < n \<Longrightarrow> length (X i) = w" "i < n" "j < w"
  shows "concat (map X [0..<n]) ! (i * w + j) = X i ! j"
proof -
  have "[0..<n] = [0..<i] @ i # [Suc i..<n]" using assms(2) by (metis le0 le_add_diff_inverse less_imp_le upt_add_eq_append upt_conv_Cons)
  moreover have "length (concat (map X [0..<i])) = i * w" using length_concat_blocks[of 0 i X w] assms(1,2) by simp
  ultimately show ?thesis using assms by (simp add: nth_append)
qed

section \<open>What a client takes back out\<close>

text \<open>
  The rows of the auxiliary luma that hold the odd rows of U; those of V are eight rows below.  A client reads the chroma sample at an odd row there, and the one at an odd
  column of an even row in the auxiliary chroma.
\<close>

definition u_aux_row :: "nat \<Rightarrow> nat" where
  "u_aux_row k = 16 * (k div 8) + k mod 8"

definition client_chroma :: "nat \<Rightarrow> nat list \<Rightarrow> nat list \<Rightarrow> nat \<Rightarrow> nat \<Rightarrow> nat \<Rightarrow> nat" where
  "client_chroma below luma chroma w x y =
     (if y mod 2 = 1 then luma ! ((u_aux_row (y div 2) + below) * w + x) else chroma ! (y div 2 * (w div 2) + x div 2))"

lemma u_aux_row_value:
  "u_aux_row k div 16 = k div 8" "u_aux_row k mod 16 = k mod 8" "u_aux_row k mod 8 = k mod 8"
  "(u_aux_row k + 8) div 16 = k div 8" "(u_aux_row k + 8) mod 16 = k mod 8 + 8" "(u_aux_row k + 8) mod 8 = k mod 8"
proof -
  have r: "k mod 8 < 16" "k mod 8 + 8 < 16" by (simp_all add: order_less_trans[of _ 8])
  show "u_aux_row k div 16 = k div 8" "u_aux_row k mod 16 = k mod 8" using r(1) by (simp_all add: u_aux_row_def)
  have e: "u_aux_row k + 8 = 16 * (k div 8) + (k mod 8 + 8)" by (simp add: u_aux_row_def)
  show "(u_aux_row k + 8) div 16 = k div 8" "(u_aux_row k + 8) mod 16 = k mod 8 + 8" unfolding e using r(2) by simp_all
  have "u_aux_row k = 8 * (2 * (k div 8)) + k mod 8" by (simp add: u_aux_row_def)
  then show "u_aux_row k mod 8 = k mod 8" by (simp only: mod_mult_self4 mod_mod_trivial)
  then show "(u_aux_row k + 8) mod 8 = k mod 8" by simp
qed

lemma aux_row_value_uv:
  assumes "2 * k + 1 < f_height f"
  shows "aux_row_value f (u_aux_row k) = plane_row (f_width f) (2 * k + 1) (f_u f)"
    "aux_row_value f (u_aux_row k + 8) = plane_row (f_width f) (2 * k + 1) (f_v f)"
proof -
  have "8 * (k div 8) + k mod 8 = k" "k mod 8 < 8" by simp_all
  then show "aux_row_value f (u_aux_row k) = plane_row (f_width f) (2 * k + 1) (f_u f)"
    "aux_row_value f (u_aux_row k + 8) = plane_row (f_width f) (2 * k + 1) (f_v f)"
    using assms by (simp_all add: aux_row_value_def u_aux_row_value Let_def)
qed

lemma u_aux_row_bound: "2 * k + 1 < h \<Longrightarrow> u_aux_row k < h"
proof -
  assume "2 * k + 1 < h"
  moreover have "k = 8 * (k div 8) + k mod 8" by simp
  ultimately show ?thesis unfolding u_aux_row_def by linarith
qed

lemma v_aux_row_bound:
  "h mod 16 = 0 \<Longrightarrow> 2 * k + 1 < h \<Longrightarrow> u_aux_row k + 8 < h"
  "h mod 2 = 0 \<Longrightarrow> h mod 16 \<noteq> 0 \<Longrightarrow> h \<le> u_aux_row (h div 2 - 1) + 8"
proof -
  assume h: "h mod 16 = 0" "2 * k + 1 < h"
  then obtain m where m: "h = 16 * m" by auto
  then have "k div 8 < m" using h(2) by (simp add: less_mult_imp_div_less)
  then have "16 * (k div 8) + 16 \<le> h" using m by simp
  moreover have "k mod 8 < 8" by simp
  ultimately show "u_aux_row k + 8 < h" unfolding u_aux_row_def by linarith
next
  assume h: "h mod 2 = 0" "h mod 16 \<noteq> 0"
  define q r where "q = h div 16" and "r = h mod 16"
  have hr: "h = 16 * q + r" "r < 16" "0 < r" "r mod 2 = 0" using h by (simp_all add: q_def r_def mod_mod_cancel)
  then obtain s where s: "r = 2 * s" by auto
  have "h div 2 - 1 = 8 * q + (s - 1)" "s - 1 < 8" using hr s by simp_all
  then have "u_aux_row (h div 2 - 1) = 16 * q + (s - 1)" by (simp add: u_aux_row_def)
  then show "h \<le> u_aux_row (h div 2 - 1) + 8" using hr s by simp
qed

lemma plane_row_nth: "x < w \<Longrightarrow> y < h \<Longrightarrow> length p = w * h \<Longrightarrow> plane_row w y p ! x = p ! (y * w + x)"
  using row_fits[of y h w] by (simp add: plane_row_def)

lemma aux_luma_row:
  assumes "wf_frame444 f" "r < f_height f" "x < f_width f"
  shows "concat (map (aux_row_value f) [0..<f_height f]) ! (r * f_width f + x) = aux_row_value f r ! x"
  using assms length_aux_row_value[OF assms(1)] by (intro nth_concat_rows) simp_all

lemma odd_samples_nth:
  assumes "cy < h div 2" "cx < w div 2" shows "odd_samples p w h ! (cy * (w div 2) + cx) = p ! (cy * 2 * w + (cx * 2 + 1))"
  using nth_concat_rows[of "h div 2" "odd_samples_row p w" "w div 2" cy cx] assms by (simp add: odd_samples_def odd_samples_row_def)

lemma client_reads:
  assumes p: "length p = w * h" and even: "w mod 2 = 0" "h mod 2 = 0" and xy: "x < w" "y < h" "x mod 2 = 1 \<or> y mod 2 = 1"
    and luma: "\<And>k. 2 * k + 1 < h \<Longrightarrow> luma ! ((u_aux_row k + below) * w + x) = plane_row w (2 * k + 1) p ! x"
  shows "client_chroma below luma (odd_samples p w h) w x y = p ! (y * w + x)"
proof (cases "y mod 2 = 1")
  case True
  then have "2 * (y div 2) + 1 = y" by presburger
  then show ?thesis using True luma[of "y div 2"] xy plane_row_nth[OF xy(1,2) p] by (simp add: client_chroma_def)
next
  case False
  with xy have "y div 2 * 2 = y" "x div 2 * 2 + 1 = x" "y div 2 < h div 2" "x div 2 < w div 2" using even by presburger+
  then show ?thesis using False odd_samples_nth[of "y div 2" h "x div 2" w p] by (simp add: client_chroma_def)
qed

lemma length_subsampled_plane: "length (subsampled_plane c w h) = w div 2 * (h div 2)"
  using length_concat_blocks[of 0 "h div 2" "subsampled_row c w" "w div 2"] by (simp add: subsampled_plane_def subsampled_row_def)

lemma length_odd_samples: "length (odd_samples p w h) = w div 2 * (h div 2)"
  using length_concat_blocks[of 0 "h div 2" "odd_samples_row p w" "w div 2"] by (simp add: odd_samples_def odd_samples_row_def)

lemma pack_dual_views_value:
  assumes f: "wf_frame444 f" and bytes: "list_all (\<lambda>b. b < 256) (f_u f)" "list_all (\<lambda>b. b < 256) (f_v f)"
    and even: "f_width f mod 2 = 0" "f_height f mod 2 = 0"
  shows "pack_dual_views unit f =
    Some (\<lparr>g_y = f_y f, g_u = subsampled_plane (f_u f) (f_width f) (f_height f), g_v = subsampled_plane (f_v f) (f_width f) (f_height f), g_width = f_width f, g_height = f_height f\<rparr>,
          \<lparr>g_y = concat (map (aux_row_value f) [0..<f_height f]), g_u = odd_samples (f_u f) (f_width f) (f_height f), g_v = odd_samples (f_v f) (f_width f) (f_height f),
            g_width = f_width f, g_height = f_height f\<rparr>)"
  using subsample_plane_value[OF bytes(1), of unit "f_width f" "f_height f"] subsample_plane_value[OF bytes(2), of unit "f_width f" "f_height f"] even f
  by (simp add: wf_frame444_def pack_dual_views_def pack_main_view_def pack_auxiliary_view_def aux_luma_value[OF f] aux_chroma_value[OF f])

text \<open>
  C24.  What the two views carry of a frame.  For even dimensions packing succeeds, both views are valid for the encoder, the main view has the luma unchanged and,
  for each block of two by two pixels, the rounded average of the chroma (so that the samples at even rows and columns are not carried exactly), and a client that reads the auxiliary view finds every U sample at an odd row or column unchanged; so it does every V sample if the height
  is a multiple of 16.  Otherwise the last odd row of V is packed into the padding that is cut off: its place is past the end of the plane (at 1080 rows, four rows of V are lost).
\<close>

theorem avc444_views_carry_chroma:
  assumes f: "wf_frame444 f" and bytes: "list_all (\<lambda>b. b < 256) (f_u f)" "list_all (\<lambda>b. b < 256) (f_v f)"
    and even: "f_width f mod 2 = 0" "f_height f mod 2 = 0"
  shows "\<exists>main aux. pack_dual_views unit f = Some (main, aux) \<and> validate_for_encoding main = Ok () \<and> validate_for_encoding aux = Ok () \<and>
    g_y main = f_y f \<and> g_u main = subsampled_plane (f_u f) (f_width f) (f_height f) \<and> g_v main = subsampled_plane (f_v f) (f_width f) (f_height f) \<and>
    (\<forall>x < f_width f. \<forall>y < f_height f. x mod 2 = 1 \<or> y mod 2 = 1 \<longrightarrow>
      client_chroma 0 (g_y aux) (g_u aux) (f_width f) x y = f_u f ! (y * f_width f + x) \<and>
      (f_height f mod 16 = 0 \<longrightarrow> client_chroma 8 (g_y aux) (g_v aux) (f_width f) x y = f_v f ! (y * f_width f + x))) \<and>
    (f_height f mod 16 \<noteq> 0 \<longrightarrow> length (g_y aux) \<le> (u_aux_row (f_height f div 2 - 1) + 8) * f_width f)"
proof -
  let ?w = "f_width f" and ?h = "f_height f" let ?luma = "concat (map (aux_row_value f) [0..<?h])"
  let ?main = "\<lparr>g_y = f_y f, g_u = subsampled_plane (f_u f) ?w ?h, g_v = subsampled_plane (f_v f) ?w ?h, g_width = ?w, g_height = ?h\<rparr>"
  let ?aux = "\<lparr>g_y = ?luma, g_u = odd_samples (f_u f) ?w ?h, g_v = odd_samples (f_v f) ?w ?h, g_width = ?w, g_height = ?h\<rparr>"
  have len: "length (f_y f) = ?w * ?h" "length (f_u f) = ?w * ?h" "length (f_v f) = ?w * ?h" using f by (simp_all add: wf_frame444_def)
  have luma_len: "length ?luma = ?w * ?h"
    using length_concat_blocks[of 0 ?h "aux_row_value f" ?w] length_aux_row_value[OF f] by (simp add: mult.commute)
  have "pack_dual_views unit f = Some (?main, ?aux)" by (rule pack_dual_views_value[OF assms])
  moreover have "validate_for_encoding ?main = Ok ()" "validate_for_encoding ?aux = Ok ()"
    using even len luma_len by (simp_all add: validate_for_encoding_def chroma_dimensions_420_def length_subsampled_plane length_odd_samples)
  moreover have "client_chroma 0 ?luma (odd_samples (f_u f) ?w ?h) ?w x y = f_u f ! (y * ?w + x)"
    if "x < ?w" "y < ?h" "x mod 2 = 1 \<or> y mod 2 = 1" for x y
    using client_reads[OF len(2) even that, of ?luma 0] aux_luma_row[OF f u_aux_row_bound that(1)] aux_row_value_uv(1)[of _ f] by simp
  moreover have "client_chroma 8 ?luma (odd_samples (f_v f) ?w ?h) ?w x y = f_v f ! (y * ?w + x)"
    if "x < ?w" "y < ?h" "x mod 2 = 1 \<or> y mod 2 = 1" "?h mod 16 = 0" for x y
    using client_reads[OF len(3) even that(1-3), of ?luma 8] aux_luma_row[OF f v_aux_row_bound(1)[OF that(4)] that(1)] aux_row_value_uv(2)[of _ f] by simp
  moreover have "length ?luma \<le> (u_aux_row (?h div 2 - 1) + 8) * ?w" if "?h mod 16 \<noteq> 0"
    using mult_le_mono1[OF v_aux_row_bound(2)[OF even(2) that], of ?w] luma_len by (simp add: mult.commute)
  ultimately show ?thesis by (intro exI[of _ ?main] exI[of _ ?aux]) simp
qed

theorem avc444_views_carry_chroma_witness:
  "\<exists>main aux. pack_dual_views Avx2 \<lparr>f_y = [9, 9, 9, 9], f_u = [1, 2, 3, 4], f_v = [5, 6, 7, 8], f_width = 2, f_height = 2\<rparr> = Some (main, aux) \<and>
     client_chroma 0 (g_y aux) (g_u aux) 2 1 0 = 2 \<and> length (g_y aux) \<le> (u_aux_row 0 + 8) * 2"
proof -
  let ?f = "\<lparr>f_y = [9, 9, 9, 9], f_u = [1, 2, 3, 4], f_v = [5, 6, 7, 8], f_width = 2, f_height = 2\<rparr>"
  have "wf_frame444 ?f" by (simp add: wf_frame444_def)
  from avc444_views_carry_chroma[OF this, of Avx2] obtain main aux where r: "pack_dual_views Avx2 ?f = Some (main, aux)"
    "\<forall>x < 2. \<forall>y < 2. x mod 2 = 1 \<or> y mod 2 = 1 \<longrightarrow> client_chroma 0 (g_y aux) (g_u aux) 2 x y = [1, 2, 3, 4] ! (y * 2 + x)"
    "length (g_y aux) \<le> (u_aux_row 0 + 8) * 2" by auto
  have "client_chroma 0 (g_y aux) (g_u aux) 2 1 0 = 2" using r(2)[rule_format, of 1 0] by simp
  with r show ?thesis by blast
qed

end
