(* ===== verification/Wrdp_Float32.thy ===== *)
theory Wrdp_Float32
  imports Wrdp_Float
begin

text \<open>
  Rust's \<open>f32\<close> with the infinities and NaN: the operations of double precision with results
  rounded to 24 bits.
\<close>

section \<open>Single precision\<close>

text \<open>Values of type \<open>f32\<close> share the constructors of \<open>f64\<close>; results are rounded to 24 bits.\<close>

type_synonym f32 = f64

definition f32_make :: "rat \<Rightarrow> f32" where
  "f32_make x = (let r = f32_round x in if r \<ge> 2 ^ 128 then PosInf else if r \<le> - (2 ^ 128) then NegInf else Fin r)"

definition f32_nat :: "nat \<Rightarrow> f32" where "f32_nat n = f32_make (of_nat n)"

definition f32_times :: "f32 \<Rightarrow> f32 \<Rightarrow> f32" where
  "f32_times a b = (case (a, b) of (Fin x, Fin y) \<Rightarrow> f32_make (x * y) | _ \<Rightarrow> fmul a b)"

definition f32_over :: "f32 \<Rightarrow> f32 \<Rightarrow> f32" where
  "f32_over a b = (case (a, b) of (Fin x, Fin y) \<Rightarrow> if y = 0 then inf_of_sign x else f32_make (x / y) | _ \<Rightarrow> fdiv a b)"

fun fceil :: "f64 \<Rightarrow> f64" where
  "fceil (Fin x) = Fin (of_int \<lceil>x\<rceil>)" | "fceil a = a"

definition f32_plus :: "f32 \<Rightarrow> f32 \<Rightarrow> f32" where
  "f32_plus a b = (case (a, b) of (Fin x, Fin y) \<Rightarrow> f32_make (x + y) | _ \<Rightarrow> fadd a b)"

section \<open>Exact integers in single precision\<close>

lemma f32_nat_exact: assumes "n < 2 ^ 24" shows "f32_nat n = Fin (of_nat n)"
proof -
  have i: "\<bar>int n\<bar> < 2 ^ 24" using assms by simp
  have "f32_round (of_int (int n)) = of_int (int n)" unfolding f32_round_def using fl_round_int[OF i, of "- 149"] by simp
  moreover have "(of_nat n :: rat) < 2 ^ 24" using assms by (metis of_nat_less_iff of_nat_numeral of_nat_power)
  moreover have "(2 :: rat) ^ 24 < 2 ^ 128" by (rule power_strict_increasing) simp_all
  ultimately show ?thesis by (simp add: f32_nat_def f32_make_def Let_def)
qed

lemma f32_nat_frame: "f32_nat 16777216 = Fin 16777216"
proof -
  have "bitlen 16777216 = 25" by code_simp
  then have "ilog2 16777216 = 24" using ilog2_int[of 16777216] by simp
  moreover have "round_even (8388608 :: rat) = 8388608" using round_even_int[of 8388608] by simp
  ultimately show ?thesis by (simp add: f32_nat_def f32_make_def f32_round_def fl_round_def)
qed

end
