(* ===== verification/Wrdp_H264_Level.thy ===== *)
theory Wrdp_H264_Level
  imports Wrdp_Float32
begin

text \<open>
  The level of an H.264 stream (\<open>h264/level.rs\<close>): the limits of each level on the macroblocks
  of a frame and of a second, the choice of a level for a picture size and frame rate, and
  the check of a rate against a level.  Rates are \<open>f32\<close> values with the infinities and NaN.
\<close>

section \<open>Levels\<close>

datatype h264_level = L3_0 | L3_1 | L3_2 | L4_0 | L4_1 | L4_2 | L5_0 | L5_1 | L5_2

text \<open>The discriminants, by which the derived order compares.\<close>

fun to_openh264_level_idc :: "h264_level \<Rightarrow> nat" where
  "to_openh264_level_idc L3_0 = 30" | "to_openh264_level_idc L3_1 = 31" | "to_openh264_level_idc L3_2 = 32"
| "to_openh264_level_idc L4_0 = 40" | "to_openh264_level_idc L4_1 = 41" | "to_openh264_level_idc L4_2 = 42"
| "to_openh264_level_idc L5_0 = 50" | "to_openh264_level_idc L5_1 = 51" | "to_openh264_level_idc L5_2 = 52"

lemma level_idc_inj: "to_openh264_level_idc a = to_openh264_level_idc b \<Longrightarrow> a = b"
  by (cases a; cases b) simp_all

instantiation h264_level :: linorder
begin

definition less_eq_h264_level :: "h264_level \<Rightarrow> h264_level \<Rightarrow> bool" where
  "less_eq_h264_level a b \<longleftrightarrow> to_openh264_level_idc a \<le> to_openh264_level_idc b"

definition less_h264_level :: "h264_level \<Rightarrow> h264_level \<Rightarrow> bool" where
  "less_h264_level a b \<longleftrightarrow> to_openh264_level_idc a < to_openh264_level_idc b"

instance
  by standard (auto simp: less_eq_h264_level_def less_h264_level_def dest: level_idc_inj)

end

record limits =
  frame_limit :: nat
  rate_limit :: nat

fun level_limits :: "h264_level \<Rightarrow> limits" where
  "level_limits L3_0 = \<lparr>frame_limit = 1620, rate_limit = 40500\<rparr>"
| "level_limits L3_1 = \<lparr>frame_limit = 3600, rate_limit = 108000\<rparr>"
| "level_limits L3_2 = \<lparr>frame_limit = 5120, rate_limit = 216000\<rparr>"
| "level_limits L4_0 = \<lparr>frame_limit = 8192, rate_limit = 245760\<rparr>"
| "level_limits L4_1 = \<lparr>frame_limit = 8192, rate_limit = 245760\<rparr>"
| "level_limits L4_2 = \<lparr>frame_limit = 8704, rate_limit = 522240\<rparr>"
| "level_limits L5_0 = \<lparr>frame_limit = 22080, rate_limit = 589824\<rparr>"
| "level_limits L5_1 = \<lparr>frame_limit = 36864, rate_limit = 983040\<rparr>"
| "level_limits L5_2 = \<lparr>frame_limit = 36864, rate_limit = 2073600\<rparr>"

definition macroblocks :: "nat \<Rightarrow> nat \<Rightarrow> nat" where
  "macroblocks width height = div_ceil width 16 * div_ceil height 16"

definition levels :: "h264_level list" where
  "levels = [L3_0, L3_1, L3_2, L4_0, L4_1, L4_2, L5_0, L5_1, L5_2]"

definition for_config :: "nat \<Rightarrow> nat \<Rightarrow> f32 \<Rightarrow> h264_level" where
  "for_config width height fps =
     (let frame = macroblocks width height;
          rate = f32_times (f32_nat frame) (fmax fps (Fin 0))
      in case find (\<lambda>l. frame \<le> frame_limit (level_limits l) \<and> fle rate (f32_nat (rate_limit (level_limits l)))) levels of
           None \<Rightarrow> L5_2 | Some l \<Rightarrow> l)"

fun as_str :: "h264_level \<Rightarrow> string" where
  "as_str L3_0 = ''3.0''" | "as_str L3_1 = ''3.1''" | "as_str L3_2 = ''3.2''"
| "as_str L4_0 = ''4.0''" | "as_str L4_1 = ''4.1''" | "as_str L4_2 = ''4.2''"
| "as_str L5_0 = ''5.0''" | "as_str L5_1 = ''5.1''" | "as_str L5_2 = ''5.2''"

section \<open>Constraints\<close>

record level_constraints =
  lc_width :: nat
  lc_height :: nat
  lc_macroblocks :: nat

definition constraints_new :: "nat \<Rightarrow> nat \<Rightarrow> level_constraints" where
  "constraints_new width height = \<lparr>lc_width = width, lc_height = height, lc_macroblocks = macroblocks width height\<rparr>"

datatype constraint_violation =
    Frame_size_exceeded nat nat h264_level
  | Macroblocks_per_second_exceeded nat nat h264_level "nat \<times> nat" f32

definition max_fps_for_level :: "level_constraints \<Rightarrow> h264_level \<Rightarrow> f32" where
  "max_fps_for_level c level = f32_over (f32_nat (rate_limit (level_limits level))) (f32_nat (max (lc_macroblocks c) 1))"

definition recommend_level :: "level_constraints \<Rightarrow> f32 \<Rightarrow> h264_level" where
  "recommend_level c fps = for_config (lc_width c) (lc_height c) fps"

definition level_validate :: "level_constraints \<Rightarrow> f32 \<Rightarrow> h264_level \<Rightarrow> (constraint_violation, unit) result" where
  "level_validate c fps level =
     (let limits = level_limits level in
      if lc_macroblocks c > frame_limit limits
      then Err (Frame_size_exceeded (lc_macroblocks c) (frame_limit limits) level)
      else let required = nat (f64_as 0 (2 ^ 32 - 1) (fceil (f32_times (f32_nat (lc_macroblocks c)) (fmax fps (Fin 0))))) in
           if required > rate_limit limits
           then Err (Macroblocks_per_second_exceeded required (rate_limit limits) level (lc_width c, lc_height c) fps)
           else Ok ())"

definition adjust_fps_for_level :: "level_constraints \<Rightarrow> f32 \<Rightarrow> h264_level \<Rightarrow> f32" where
  "adjust_fps_for_level c target level = fmin target (max_fps_for_level c level)"

section \<open>Exact limits\<close>

lemma f32_nat_limit: "f32_nat (rate_limit (level_limits l)) = Fin (of_nat (rate_limit (level_limits l)))"
  by (rule f32_nat_exact) (cases l, simp_all)

lemma macroblocks_bound:
  assumes "width < 65536" "height < 65536" shows "macroblocks width height \<le> 16777216"
proof -
  have "div_ceil width 16 \<le> 4096" "div_ceil height 16 \<le> 4096" using assms by (auto simp: div_ceil_def)
  then have "div_ceil width 16 * div_ceil height 16 \<le> 4096 * 4096" by (rule mult_le_mono)
  then show ?thesis by (simp add: macroblocks_def)
qed

lemma f32_nat_macroblocks:
  assumes "width < 65536" "height < 65536"
  shows "f32_nat (macroblocks width height) = Fin (of_nat (macroblocks width height))"
  using macroblocks_bound[OF assms] f32_nat_frame f32_nat_exact[of "macroblocks width height"] by fastforce

section \<open>The choice of a level\<close>

lemma rate_check: "r \<noteq> NaN \<Longrightarrow> k < 2 ^ 32 - 1 \<Longrightarrow> fle r (Fin (of_nat k)) \<longleftrightarrow> nat (f64_as 0 (2 ^ 32 - 1) (fceil r)) \<le> k"
proof (cases r)
  case (Fin x)
  assume "k < 2 ^ 32 - 1"
  moreover have "x \<le> of_nat k \<longleftrightarrow> \<lceil>x\<rceil> \<le> int k" by (metis ceiling_le_iff of_int_of_nat_eq)
  ultimately show ?thesis using Fin by (auto simp: nat_le_iff)
qed simp_all

lemma f32_make_not_NaN [simp]: "f32_make x \<noteq> NaN"
  by (simp add: f32_make_def Let_def)

lemma rate_not_NaN:
  "m > 0 \<or> fps \<noteq> PosInf \<Longrightarrow> f32_times (Fin (of_nat m)) (fmax fps (Fin 0)) \<noteq> NaN"
  by (cases fps) (auto simp: f32_times_def fmax_def inf_of_sign_def)

lemma level_validate_iff:
  assumes "width < 65536" "height < 65536" "macroblocks width height > 0 \<or> fps \<noteq> PosInf"
  shows "level_validate (constraints_new width height) fps l = Ok () \<longleftrightarrow>
     macroblocks width height \<le> frame_limit (level_limits l) \<and>
     fle (f32_times (f32_nat (macroblocks width height)) (fmax fps (Fin 0))) (f32_nat (rate_limit (level_limits l)))"
proof -
  have k: "rate_limit (level_limits l) < 2 ^ 32 - 1" by (cases l) simp_all
  have r: "f32_times (f32_nat (macroblocks width height)) (fmax fps (Fin 0)) \<noteq> NaN"
    unfolding f32_nat_macroblocks[OF assms(1,2)] by (rule rate_not_NaN) (rule assms(3))
  show ?thesis using rate_check[OF r k]
    by (simp add: level_validate_def constraints_new_def Let_def f32_nat_limit not_less)
qed

lemma limits_mono: "l \<le> l' \<Longrightarrow> frame_limit (level_limits l) \<le> frame_limit (level_limits l')"
  "l \<le> l' \<Longrightarrow> rate_limit (level_limits l) \<le> rate_limit (level_limits l')"
  by (cases l; cases l'; simp add: less_eq_h264_level_def)+

lemma level_validate_mono:
  assumes "l \<le> l'" "level_validate c fps l = Ok ()" shows "level_validate c fps l' = Ok ()"
  using assms limits_mono[OF assms(1)] by (auto simp: level_validate_def Let_def split: if_splits)

lemma find_levels:
  assumes "find P levels = Some l" shows "P l" and "P l' \<Longrightarrow> l \<le> l'"
proof -
  show "P l" using assms by (auto simp: find_Some_iff)
  show "P l' \<Longrightarrow> l \<le> l'"
    using assms by (cases l') (auto simp: levels_def less_eq_h264_level_def split: if_splits)
qed

lemma find_levels_none: "find P levels = None \<Longrightarrow> \<not> P l"
  by (cases l) (auto simp: levels_def split: if_splits)

text \<open>
  The level recommended for a picture size and a frame rate is the lowest that \<open>validate\<close> accepts, and
  \<open>validate\<close> accepts exactly the levels from it upwards; where it accepts none, the recommendation is the highest
  level.  Rates may be infinite or NaN; an infinite rate is excluded for an empty picture, where \<open>0 * inf\<close> is NaN.\<close>

theorem recommended_level_exact:
  assumes "width < 65536" "height < 65536" "macroblocks width height > 0 \<or> fps \<noteq> PosInf"
  shows "let c = constraints_new width height; l = recommend_level c fps in
    if (\<exists>l'. level_validate c fps l' = Ok ()) then \<forall>l'. level_validate c fps l' = Ok () \<longleftrightarrow> l \<le> l' else l = L5_2"
proof -
  define c where "c = constraints_new width height"
  let ?ok = "\<lambda>l. level_validate c fps l = Ok ()"
  have r: "recommend_level c fps = (case find ?ok levels of None \<Rightarrow> L5_2 | Some l \<Rightarrow> l)"
    unfolding c_def level_validate_iff[OF assms]
    by (simp add: recommend_level_def for_config_def constraints_new_def Let_def)
  show ?thesis
  proof (cases "find ?ok levels")
    case None
    then show ?thesis using r find_levels_none[OF None] by (simp add: c_def[symmetric])
  next
    case (Some l)
    have "\<forall>l'. ?ok l' \<longleftrightarrow> l \<le> l'"
      using find_levels[OF Some] level_validate_mono[of l _ c fps] by blast
    then show ?thesis using r Some unfolding c_def[symmetric] Let_def by auto
  qed
qed

lemma f32_round_720: "f32_round (245760 / 3600) = 8947849 / 131072" "f32_round (3600 * (8947849 / 131072)) = 15728641 / 64"
  by code_simp+

theorem recommended_level_exact_witness:
  "recommend_level (constraints_new 1280 720) (Fin 30) = L3_1 \<and>
   level_validate (constraints_new 1280 720) (Fin 30) L4_2 = Ok () \<and> level_validate (constraints_new 1280 720) (Fin 30) L3_0 \<noteq> Ok ()"
proof -
  have m: "macroblocks 1280 720 = 3600" by (simp add: macroblocks_def div_ceil_def)
  have r: "f32_times (f32_nat 3600) (fmax (Fin 30) (Fin 0)) = Fin 108000"
    using f32_nat_exact[of 3600] f32_nat_exact[of 108000] by (simp add: f32_times_def fmax_def f32_nat_def)
  have ok: "level_validate (constraints_new 1280 720) (Fin 30) l = Ok () \<longleftrightarrow> 3600 \<le> frame_limit (level_limits l) \<and> 108000 \<le> rate_limit (level_limits l)" for l
    using level_validate_iff[of 1280 720 "Fin 30" l] m r f32_nat_limit[of l] by simp
  have ex: "\<exists>l'. level_validate (constraints_new 1280 720) (Fin 30) l' = Ok ()" using ok[of L3_1] by auto
  have "\<forall>l'. level_validate (constraints_new 1280 720) (Fin 30) l' = Ok () \<longleftrightarrow> recommend_level (constraints_new 1280 720) (Fin 30) \<le> l'"
    using recommended_level_exact[of 1280 720 "Fin 30"] unfolding Let_def if_P[OF ex] by simp
  then have "recommend_level (constraints_new 1280 720) (Fin 30) \<le> L3_1" "\<not> recommend_level (constraints_new 1280 720) (Fin 30) \<le> L3_0"
    using ok[of L3_1] ok[of L3_0] by auto
  then have "recommend_level (constraints_new 1280 720) (Fin 30) = L3_1"
    by (cases "recommend_level (constraints_new 1280 720) (Fin 30)") (simp_all add: less_eq_h264_level_def)
  then show ?thesis using ok[of L4_2] ok[of L3_0] by simp
qed

text \<open>
  A rate lowered by \<open>adjust_fps_for_level\<close> to what a level allows is refused by \<open>validate\<close> for the same level where
  the division rounds up: 1280x720 at level 4.0.\<close>

lemma adjusted_rate_refused:
  "level_validate (constraints_new 1280 720) (adjust_fps_for_level (constraints_new 1280 720) (Fin 120) L4_0) L4_0 =
     Err (Macroblocks_per_second_exceeded 245761 245760 L4_0 (1280, 720) (Fin (8947849 / 131072)))"
proof -
  have m: "macroblocks 1280 720 = 3600" by (simp add: macroblocks_def div_ceil_def)
  have n: "f32_nat 3600 = Fin 3600" "f32_nat 245760 = Fin 245760" using f32_nat_exact[of 3600] f32_nat_exact[of 245760] by simp_all
  have d: "f32_over (Fin 245760) (Fin 3600) = Fin (8947849 / 131072)"
    using f32_round_720 by (simp add: f32_over_def f32_make_def)
  have t: "f32_times (Fin 3600) (Fin (8947849 / 131072)) = Fin (15728641 / 64)"
    using f32_round_720 by (simp add: f32_times_def f32_make_def)
  have a: "adjust_fps_for_level (constraints_new 1280 720) (Fin 120) L4_0 = Fin (8947849 / 131072)"
    by (simp add: adjust_fps_for_level_def max_fps_for_level_def constraints_new_def m n d fmin_def)
  have "\<lceil>15728641 / 64 :: rat\<rceil> = 245761" by (simp add: ceiling_eq_iff)
  then show ?thesis unfolding a by (simp add: level_validate_def constraints_new_def m n t fmax_def)
qed

end
