(* ===== verification/Wrdp_H264_Encoder.thy ===== *)
theory Wrdp_H264_Encoder
  imports Wrdp_H264_Level Wrdp_Color_Space
begin

text \<open>
  The AVC420 encoder (\<open>h264/encoder.rs\<close>): the configuration and its presets, the splitting
  of an Annex B byte stream into its units, the parameter sets of a key frame, and the
  encoder's handling of a frame.  The encoding library is the argument \<open>api\<close>: how it
  encodes a picture and how it is asked for an intra frame.
\<close>

section \<open>Configuration\<close>

datatype encoder_error =
    Init_failed string
  | Encode_failed string
  | Invalid_dimensions nat nat
  | Feature_disabled

record encoder_config =
  bitrate_kbps :: nat
  max_fps :: f32
  enable_skip_frame :: bool
  ec_width :: "nat option"
  ec_height :: "nat option"
  ec_color_space :: "color_space_config option"
  qp_min :: nat
  qp_max :: nat
  encoder_threads :: nat

definition encoder_default :: encoder_config where
  "encoder_default = \<lparr>bitrate_kbps = 5000, max_fps = Fin 30, enable_skip_frame = True, ec_width = None, ec_height = None,
     ec_color_space = None, qp_min = 0, qp_max = 51, encoder_threads = 0\<rparr>"

definition for_resolution :: "nat \<Rightarrow> nat \<Rightarrow> encoder_config" where
  "for_resolution width height = encoder_default\<lparr>ec_width := Some width, ec_height := Some height\<rparr>"

definition high_quality :: encoder_config where
  "high_quality = encoder_default\<lparr>bitrate_kbps := 10000, enable_skip_frame := False, qp_min := 10, qp_max := 25\<rparr>"

definition high_performance :: encoder_config where
  "high_performance = encoder_default\<lparr>bitrate_kbps := 8000, max_fps := Fin 60\<rparr>"

definition encoder_low_bandwidth :: encoder_config where
  "encoder_low_bandwidth = encoder_default\<lparr>bitrate_kbps := 1000, max_fps := Fin 15, qp_min := 20, qp_max := 45\<rparr>"

definition with_color_space :: "color_space_config \<Rightarrow> encoder_config \<Rightarrow> encoder_config" where
  "with_color_space value c = c\<lparr>ec_color_space := Some value\<rparr>"

definition align_to_16 :: "nat \<Rightarrow> nat" where
  "align_to_16 value = div_ceil value 16 * 16"

section \<open>The encoding library\<close>

text \<open>An encoded picture: whether its type is IDR or I, and its bytes.\<close>

record bitstream =
  bs_keyframe :: bool
  bs_data :: "nat list"

record ('e, 'f) h264_api =
  encode_at :: "'e \<Rightarrow> 'f \<Rightarrow> nat \<Rightarrow> (string, bitstream) result \<times> 'e"
  force_intra_frame :: "'e \<Rightarrow> 'e"

text \<open>The settings passed to the library's builder.\<close>

datatype vui_config = Vui_bt709_full | Vui_bt709 | Vui_bt601

record native_config =
  n_bitrate_bps :: nat
  n_max_frame_rate :: f32
  n_num_threads :: "nat option"
  n_skip_frames :: bool
  n_qp :: "(nat \<times> nat) option"
  n_level :: "h264_level option"
  n_vui :: "vui_config option"

definition config_level :: "encoder_config \<Rightarrow> h264_level option" where
  "config_level config =
     (case (ec_width config, ec_height config) of
        (Some w, Some h) \<Rightarrow> Some (for_config w h (max_fps config))
      | _ \<Rightarrow> None)"

section \<open>Annex B\<close>

definition starts_with :: "nat list \<Rightarrow> nat \<Rightarrow> nat list \<Rightarrow> bool" where
  "starts_with data i p \<longleftrightarrow> take (length p) (drop i data) = p"

function annex_starts :: "nat list \<Rightarrow> nat \<Rightarrow> (nat \<times> nat) list" where
  "annex_starts data i =
     (if i + 3 \<le> length data
      then if starts_with data i [0, 0, 0, 1] then (i, 4) # annex_starts data (i + 4)
           else if starts_with data i [0, 0, 1] then (i, 3) # annex_starts data (i + 3)
           else annex_starts data (i + 1)
      else [])"
  by pat_completeness auto
termination by (relation "measure (\<lambda>(data, i). length data - i)") auto

function starts_get_loop :: "nat list \<Rightarrow> nat \<Rightarrow> nat \<Rightarrow> nat \<Rightarrow> nat option" where
  "starts_get_loop data wanted count i =
     (if i + 3 \<le> length data
      then if starts_with data i [0, 0, 1] \<or> starts_with data i [0, 0, 0, 1]
           then if count = wanted then Some i else starts_get_loop data wanted (count + 1) (i + 3)
           else starts_get_loop data wanted count (i + 1)
      else None)"
  by pat_completeness auto
termination by (relation "measure (\<lambda>(data, wanted, count, i). length data - i)") auto

declare annex_starts.simps [simp del] starts_get_loop.simps [simp del]

definition starts_get :: "nat list \<Rightarrow> nat \<Rightarrow> nat option" where
  "starts_get data wanted = starts_get_loop data wanted 0 0"

definition slice :: "nat list \<Rightarrow> nat \<Rightarrow> nat \<Rightarrow> nat list" where
  "slice data i j = take (j - i) (drop i data)"

definition annex_b :: "nat list \<Rightarrow> (nat list \<times> nat) list" where
  "annex_b data =
     List.map_filter
       (\<lambda>(index, start, prefix).
          let stop = (case starts_get data (index + 1) of Some e \<Rightarrow> e | None \<Rightarrow> length data);
              payload = start + prefix
          in if payload < stop then Some (slice data start stop, data ! payload mod 32) else None)
       (List.enumerate 0 (annex_starts data 0))"

definition parameter_sets :: "nat list \<Rightarrow> nat list" where
  "parameter_sets data = concat (map fst (filter (\<lambda>(_, kind). kind = 7 \<or> kind = 8) (annex_b data)))"

section \<open>The encoder\<close>

record h264_frame =
  hf_data :: "nat list"
  hf_is_keyframe :: bool
  hf_timestamp_ms :: nat
  hf_size :: nat

record 'e avc420_encoder =
  v_encoder :: 'e
  v_config :: encoder_config
  v_frames :: nat
  v_parameter_sets :: "nat list"

text \<open>\<open>loaded\<close> is the outcome of loading the library and \<open>init\<close> its construction of an encoder.\<close>

definition avc420_native :: "encoder_config \<Rightarrow> native_config" where
  "avc420_native config = \<lparr>n_bitrate_bps = bitrate_kbps config * 1000 mod 2 ^ 32, n_max_frame_rate = max_fps config,
     n_num_threads = Some (encoder_threads config), n_skip_frames = enable_skip_frame config,
     n_qp = Some (qp_min config, qp_max config), n_level = config_level config, n_vui = None\<rparr>"

definition avc420_new :: "(encoder_error, unit) result \<Rightarrow> (native_config \<Rightarrow> (string, 'e) result) \<Rightarrow> encoder_config
    \<Rightarrow> (encoder_error, 'e avc420_encoder) result" where
  "avc420_new loaded init config =
     (case loaded of
        Err e \<Rightarrow> Err e
      | Ok _ \<Rightarrow>
          (case init (avc420_native config) of
             Err e \<Rightarrow> Err (Init_failed e)
           | Ok enc \<Rightarrow> Ok \<lparr>v_encoder = enc, v_config = config, v_frames = 0, v_parameter_sets = []\<rparr>))"

text \<open>A key frame replaces the parameter sets; they are put before every other frame.\<close>

definition avc420_frame :: "nat list \<Rightarrow> bool \<Rightarrow> nat list \<Rightarrow> nat list \<times> nat list" where
  "avc420_frame sets keyframe data =
     (if keyframe then (data, parameter_sets data)
      else if sets \<noteq> [] then (sets @ data, sets)
      else (data, sets))"

text \<open>\<open>yuv\<close> is the library's conversion of the BGRA bytes of a picture.\<close>

definition avc420_encode_bgra :: "('e, 'f) h264_api \<Rightarrow> (nat list \<Rightarrow> nat \<Rightarrow> nat \<Rightarrow> 'f) \<Rightarrow> nat list \<Rightarrow> nat \<Rightarrow> nat \<Rightarrow> nat
    \<Rightarrow> 'e avc420_encoder \<Rightarrow> (encoder_error, h264_frame option) result \<times> 'e avc420_encoder" where
  "avc420_encode_bgra api yuv bgra width height timestamp_ms s =
     (if width = 0 \<or> height = 0 \<or> width mod 2 \<noteq> 0 \<or> height mod 2 \<noteq> 0
      then (Err (Invalid_dimensions width height), s)
      else let required = width * height * 4 in
      if length bgra < required then (Err (Encode_failed ''BGRA input is shorter than its dimensions''), s)
      else let (r, enc) = encode_at api (v_encoder s) (yuv (take required bgra) width height) timestamp_ms;
               s = s\<lparr>v_encoder := enc\<rparr>
      in case r of
           Err e \<Rightarrow> (Err (Encode_failed e), s)
         | Ok encoded \<Rightarrow>
             if bs_data encoded = [] then (Ok None, s)
             else let (data, sets) = avc420_frame (v_parameter_sets s) (bs_keyframe encoded) (bs_data encoded)
                  in (Ok (Some \<lparr>hf_data = data, hf_is_keyframe = bs_keyframe encoded, hf_timestamp_ms = timestamp_ms,
                                hf_size = length data\<rparr>),
                      s\<lparr>v_parameter_sets := sets, v_frames := v_frames s + 1\<rparr>))"

definition avc420_force_keyframe :: "('e, 'f) h264_api \<Rightarrow> 'e avc420_encoder \<Rightarrow> 'e avc420_encoder" where
  "avc420_force_keyframe api s = s\<lparr>v_encoder := force_intra_frame api (v_encoder s)\<rparr>"

definition avc420_stats :: "'e avc420_encoder \<Rightarrow> nat \<times> nat" where
  "avc420_stats s = (v_frames s, bitrate_kbps (v_config s))"

section \<open>Units of a byte stream\<close>

text \<open>
  A conforming unit has no three bytes 0, 0, 0 or 0, 0, 1 in a row and does not end with 0
  (emulation prevention and \<open>rbsp_trailing_bits\<close>).  A stream is a sequence of units, each
  after a start code of three or four bytes.
\<close>

fun clean :: "nat list \<Rightarrow> bool" where
  "clean [] = True"
| "clean (x # xs) \<longleftrightarrow> take 3 (x # xs) \<noteq> [0, 0, 0] \<and> take 3 (x # xs) \<noteq> [0, 0, 1] \<and> (xs = [] \<longrightarrow> x \<noteq> 0) \<and> clean xs"

type_synonym nal_unit = "bool \<times> nat list"

definition start_code :: "bool \<Rightarrow> nat list" where
  "start_code four = (if four then [0, 0, 0, 1] else [0, 0, 1])"

definition unit_bytes :: "nal_unit \<Rightarrow> nat list" where
  "unit_bytes u = start_code (fst u) @ snd u"

definition byte_stream :: "nal_unit list \<Rightarrow> nat list" where
  "byte_stream us = concat (map unit_bytes us)"

definition conforming :: "nal_unit \<Rightarrow> bool" where
  "conforming u \<longleftrightarrow> snd u \<noteq> [] \<and> clean (snd u)"

definition is_parameter_set :: "nal_unit \<Rightarrow> bool" where
  "is_parameter_set u \<longleftrightarrow> hd (snd u) mod 32 = 7 \<or> hd (snd u) mod 32 = 8"

lemma starts_with_append: "starts_with (pre @ r) (length pre) p \<longleftrightarrow> take (length p) r = p"
  by (simp add: starts_with_def)

lemma clean_no_code:
  assumes "clean b" "b \<noteq> []" shows "take 3 (b @ r) \<noteq> [0, 0, 1]" "take 4 (b @ r) \<noteq> [0, 0, 0, 1]"
proof -
  obtain x b1 where b: "b = x # b1" using assms(2) by (cases b) auto
  have "take 3 (b @ r) \<noteq> [0, 0, 1] \<and> take 4 (b @ r) \<noteq> [0, 0, 0, 1]"
  proof (cases b1)
    case Nil then show ?thesis using assms b by auto
  next
    case (Cons y b2) then show ?thesis using assms b by (cases b2) (auto simp: numeral_eq_Suc)
  qed
  then show "take 3 (b @ r) \<noteq> [0, 0, 1]" "take 4 (b @ r) \<noteq> [0, 0, 0, 1]" by simp_all
qed

lemma annex_starts_end: "length data < i + 3 \<Longrightarrow> annex_starts data i = []"
  by (simp add: annex_starts.simps)

lemma starts_get_loop_end: "length data < i + 3 \<Longrightarrow> starts_get_loop data wanted count i = None"
  by (simp add: starts_get_loop.simps)

lemma annex_starts_skip:
  "clean b \<Longrightarrow> annex_starts (pre @ b @ r) (length pre) = annex_starts (pre @ b @ r) (length pre + length b)"
proof (induction b arbitrary: pre)
  case (Cons x b)
  have "\<not> starts_with (pre @ (x # b) @ r) (length pre) [0, 0, 0, 1]" "\<not> starts_with (pre @ (x # b) @ r) (length pre) [0, 0, 1]"
    using clean_no_code[OF Cons.prems, of r] by (simp_all add: starts_with_append numeral_eq_Suc)
  then have "annex_starts (pre @ (x # b) @ r) (length pre) =
    (if length pre + 3 \<le> length (pre @ (x # b) @ r) then annex_starts (pre @ (x # b) @ r) (length pre + 1) else [])"
    by (simp add: annex_starts.simps[of _ "length pre"])
  also have "\<dots> = annex_starts (pre @ (x # b) @ r) (length pre + 1)"
    using annex_starts_end[of "pre @ (x # b) @ r" "length pre + 1"] by auto
  also have "\<dots> = annex_starts (pre @ (x # b) @ r) (length pre + length (x # b))"
    using Cons.IH[of "pre @ [x]"] Cons.prems by simp
  finally show ?case .
qed simp

lemma annex_starts_unit:
  assumes "conforming u"
  shows "annex_starts (pre @ unit_bytes u @ r) (length pre) =
    (length pre, length (start_code (fst u))) # annex_starts (pre @ unit_bytes u @ r) (length pre + length (unit_bytes u))"
proof -
  have "annex_starts (pre @ unit_bytes u @ r) (length pre) =
    (length pre, length (start_code (fst u))) # annex_starts (pre @ unit_bytes u @ r) (length (pre @ start_code (fst u)))"
    using starts_with_append[of pre "unit_bytes u @ r"] annex_starts.simps[of "pre @ unit_bytes u @ r" "length pre"]
    by (simp add: unit_bytes_def start_code_def numeral_eq_Suc split: if_splits)
  also have "annex_starts (pre @ unit_bytes u @ r) (length (pre @ start_code (fst u))) =
      annex_starts (pre @ unit_bytes u @ r) (length pre + length (unit_bytes u))"
    using annex_starts_skip[of "snd u" "pre @ start_code (fst u)" r] assms
    by (simp add: unit_bytes_def conforming_def add.assoc)
  finally show ?thesis .
qed

fun unit_starts :: "nat \<Rightarrow> nal_unit list \<Rightarrow> (nat \<times> nat) list" where
  "unit_starts off [] = []"
| "unit_starts off (u # us) = (off, length (start_code (fst u))) # unit_starts (off + length (unit_bytes u)) us"

lemma annex_starts_stream:
  "\<forall>u \<in> set us. conforming u \<Longrightarrow> annex_starts (pre @ byte_stream us) (length pre) = unit_starts (length pre) us"
proof (induction us arbitrary: pre)
  case Nil show ?case by (simp add: byte_stream_def annex_starts.simps)
next
  case (Cons u us)
  then show ?case using annex_starts_unit[of u pre "byte_stream us"] Cons.IH[of "pre @ unit_bytes u"]
    by (simp add: byte_stream_def)
qed

lemma starts_with_1: "starts_with data i [0, 0, 0, 1] \<Longrightarrow> \<not> starts_with data (i + 3) [0, 0, 1] \<and> \<not> starts_with data (i + 3) [0, 0, 0, 1]"
proof -
  assume s: "starts_with data i [0, 0, 0, 1]"
  have "drop (i + 3) data = drop 3 (drop i data)" by (simp add: add.commute)
  also have "drop i data = take 4 (drop i data) @ drop 4 (drop i data)" by (rule append_take_drop_id[symmetric])
  also have "take 4 (drop i data) = [0, 0, 0, 1]" using s by (simp add: starts_with_def numeral_eq_Suc)
  finally show ?thesis by (simp add: starts_with_def numeral_eq_Suc)
qed

lemma nth_opt_Cons_diff: "count < wanted \<Longrightarrow> nth_opt (x # xs) (wanted - count) = nth_opt xs (wanted - Suc count)"
  by (simp add: nth_opt_def nth_Cons' Suc_diff_Suc) linarith

lemma nth_opt_Cons_0: "nth_opt (x # xs) 0 = Some x"
  by (simp add: nth_opt_def)

lemma starts_get_loop_nth:
  "count \<le> wanted \<Longrightarrow> starts_get_loop data wanted count i = nth_opt (map fst (annex_starts data i)) (wanted - count)"
proof (induction data i arbitrary: count rule: annex_starts.induct)
  case (1 data i)
  show ?case
  proof (cases "i + 3 \<le> length data")
    case False then show ?thesis by (simp add: annex_starts.simps starts_get_loop.simps nth_opt_def)
  next
    case True
    consider (four) "starts_with data i [0, 0, 0, 1]"
      | (three) "\<not> starts_with data i [0, 0, 0, 1]" "starts_with data i [0, 0, 1]"
      | (none) "\<not> starts_with data i [0, 0, 0, 1]" "\<not> starts_with data i [0, 0, 1]" by blast
    then show ?thesis
    proof cases
      case four
      have skip: "starts_get_loop data wanted k (i + 3) = starts_get_loop data wanted k (i + 4)" for k
        using starts_with_1[OF four] starts_get_loop.simps[of data wanted k "i + 3"] starts_get_loop_end[of data "i + 4" wanted k]
        by (cases "i + 6 \<le> length data") (simp_all add: ac_simps)
      show ?thesis
        using four True 1(1)[of "count + 1"] 1(4) skip annex_starts.simps[of data i] starts_get_loop.simps[of data wanted count i]
        by (cases "count = wanted") (simp_all add: nth_opt_Cons_0 nth_opt_Cons_diff)
    next
      case three
      then show ?thesis
        using True 1(2)[of "count + 1"] 1(4) annex_starts.simps[of data i] starts_get_loop.simps[of data wanted count i]
        by (cases "count = wanted") (simp_all add: nth_opt_Cons_0 nth_opt_Cons_diff)
    next
      case none
      then show ?thesis
        using True 1(3)[of count] 1(4) annex_starts.simps[of data i] starts_get_loop.simps[of data wanted count i] by simp
    qed
  qed
qed

lemma starts_get_nth: "starts_get data wanted = nth_opt (map fst (annex_starts data 0)) wanted"
  using starts_get_loop_nth[of 0 wanted data 0] by (simp add: starts_get_def)

definition unit_at :: "nat list \<Rightarrow> nat \<times> nat \<times> nat \<Rightarrow> (nat list \<times> nat) option" where
  "unit_at data = (\<lambda>(index, start, prefix).
     let stop = (case starts_get data (index + 1) of Some e \<Rightarrow> e | None \<Rightarrow> length data); payload = start + prefix
     in if payload < stop then Some (slice data start stop, data ! payload mod 32) else None)"

lemma unit_at_unit:
  assumes u: "conforming u" and d: "data = pre @ unit_bytes u @ r"
    and s: "(case starts_get data (n + 1) of Some e \<Rightarrow> e | None \<Rightarrow> length data) = length pre + length (unit_bytes u)"
  shows "unit_at data (n, length pre, length (start_code (fst u))) = Some (unit_bytes u, hd (snd u) mod 32)"
proof -
  have "slice data (length pre) (length pre + length (unit_bytes u)) = unit_bytes u" by (simp add: d slice_def)
  moreover have "data ! (length pre + length (start_code (fst u))) = hd (snd u)"
    using u by (simp add: d unit_bytes_def nth_append conforming_def hd_conv_nth)
  moreover have "length (start_code (fst u)) < length (unit_bytes u)" using u by (simp add: unit_bytes_def conforming_def)
  ultimately show ?thesis using s by (simp add: unit_at_def Let_def)
qed

lemma units_of_stream:
  assumes "\<forall>u \<in> set us. conforming u" "data = pre @ byte_stream us"
    "\<forall>k. starts_get data (n + k) = nth_opt (map fst (unit_starts (length pre) us)) k"
  shows "List.map_filter (unit_at data) (List.enumerate n (unit_starts (length pre) us)) =
    map (\<lambda>u. (unit_bytes u, hd (snd u) mod 32)) us"
  using assms
proof (induction us arbitrary: pre n)
  case (Cons u us)
  have g: "starts_get data (Suc n + k) = nth_opt (map fst (unit_starts (length (pre @ unit_bytes u)) us)) k" for k
    using Cons.prems(3)[rule_format, of "Suc k"] by (simp add: nth_opt_def)
  have "starts_get data (n + 1) = nth_opt (map fst (unit_starts (length (pre @ unit_bytes u)) us)) 0" using g[of 0] by simp
  then have "(case starts_get data (n + 1) of Some e \<Rightarrow> e | None \<Rightarrow> length data) = length pre + length (unit_bytes u)"
    using Cons.prems(2) by (cases us) (simp_all add: nth_opt_def byte_stream_def)
  then have "unit_at data (n, length pre, length (start_code (fst u))) = Some (unit_bytes u, hd (snd u) mod 32)"
    using Cons.prems(1,2) by (intro unit_at_unit[of _ _ _ "byte_stream us"]) (simp_all add: byte_stream_def)
  then show ?case using Cons.IH[of "pre @ unit_bytes u" "Suc n"] Cons.prems(1,2) g
    by (simp add: List.map_filter_simps byte_stream_def)
qed (simp add: List.map_filter_simps)

lemma annex_b_stream:
  assumes "\<forall>u \<in> set us. conforming u" shows "annex_b (byte_stream us) = map (\<lambda>u. (unit_bytes u, hd (snd u) mod 32)) us"
proof -
  have "annex_starts (byte_stream us) 0 = unit_starts 0 us" using annex_starts_stream[OF assms, of "[]"] by simp
  then show ?thesis using units_of_stream[OF assms, of "byte_stream us" "[]" 0]
    by (simp add: annex_b_def unit_at_def starts_get_nth)
qed

lemma parameter_sets_stream:
  assumes "\<forall>u \<in> set us. conforming u"
  shows "parameter_sets (byte_stream us) = byte_stream (filter is_parameter_set us)"
  unfolding parameter_sets_def annex_b_stream[OF assms]
  by (simp add: byte_stream_def is_parameter_set_def[abs_def] filter_map comp_def)

section \<open>Parameter sets before every frame\<close>

text \<open>
  Both encoders keep the parameter sets of the last key frame and put them before the frames that follow.  The
  interface is one step on a frame's bytes; over the frames of a stream the delivered units are those of
  \<open>with_sets\<close>.
\<close>

fun with_sets :: "nal_unit list \<Rightarrow> (bool \<times> nal_unit list) list \<Rightarrow> nal_unit list list" where
  "with_sets sets [] = []"
| "with_sets sets ((True, us) # fs) = us # with_sets (filter is_parameter_set us) fs"
| "with_sets sets ((False, us) # fs) = (sets @ us) # with_sets sets fs"

fun frame_run :: "('c \<Rightarrow> bool \<Rightarrow> nat list \<Rightarrow> nat list \<times> 'c) \<Rightarrow> 'c \<Rightarrow> (bool \<times> nat list) list \<Rightarrow> nat list list" where
  "frame_run step c [] = []"
| "frame_run step c ((key, data) # fs) = (let (out, c') = step c key data in out # frame_run step c' fs)"

definition coded_frame :: "bool \<times> nal_unit list \<Rightarrow> bool" where
  "coded_frame f \<longleftrightarrow> (\<forall>u \<in> set (snd f). conforming u) \<and> (fst f \<longrightarrow> (\<exists>u \<in> set (snd f). is_parameter_set u))"

lemma byte_stream_append [simp]: "byte_stream (us @ vs) = byte_stream us @ byte_stream vs"
  by (simp add: byte_stream_def)

lemma byte_stream_empty_iff [simp]: "byte_stream us = [] \<longleftrightarrow> us = []"
  by (cases us) (auto simp: byte_stream_def unit_bytes_def start_code_def)

locale parameter_cache =
  fixes step :: "'c \<Rightarrow> bool \<Rightarrow> nat list \<Rightarrow> nat list \<times> 'c"
    and holds :: "'c \<Rightarrow> nat list"
  assumes key_frame: "coded_frame (True, us) \<Longrightarrow> fst (step c True (byte_stream us)) = byte_stream us \<and>
      holds (snd (step c True (byte_stream us))) = byte_stream (filter is_parameter_set us)"
    and delta_frame: "fst (step c False data) = holds c @ data \<and> holds (snd (step c False data)) = holds c"
begin

lemma delivered:
  "\<forall>f \<in> set fs. coded_frame f \<Longrightarrow> holds c = byte_stream sets \<Longrightarrow>
     frame_run step c (map (\<lambda>(key, us). (key, byte_stream us)) fs) = map byte_stream (with_sets sets fs)"
proof (induction fs arbitrary: c sets)
  case (Cons f fs)
  obtain key us where f: "f = (key, us)" by (cases f)
  show ?case
  proof (cases key)
    case True
    then have "coded_frame (True, us)" using Cons.prems f by simp
    from key_frame[OF this, of c] show ?thesis using True f Cons.IH[of "snd (step c True (byte_stream us))" "filter is_parameter_set us"] Cons.prems(1)
      by (simp add: case_prod_beta Let_def)
  next
    case False
    then show ?thesis using f delta_frame[of c "byte_stream us"] Cons.IH[of "snd (step c False (byte_stream us))" sets] Cons.prems
      by (simp add: case_prod_beta Let_def)
  qed
qed simp

end

interpretation avc420: parameter_cache avc420_frame id
  by unfold_locales (auto simp: avc420_frame_def coded_frame_def parameter_sets_stream)

section \<open>The stream of an AVC420 encoder\<close>

type_synonym picture = "nat list \<times> nat \<times> nat \<times> nat"

definition valid_picture :: "picture \<Rightarrow> bool" where
  "valid_picture = (\<lambda>(bgra, width, height, _). width > 0 \<and> height > 0 \<and> even width \<and> even height \<and> width * height * 4 \<le> length bgra)"

fun avc420_run :: "('e, 'f) h264_api \<Rightarrow> (nat list \<Rightarrow> nat \<Rightarrow> nat \<Rightarrow> 'f) \<Rightarrow> picture list \<Rightarrow> 'e avc420_encoder
    \<Rightarrow> (encoder_error, h264_frame option) result list" where
  "avc420_run api yuv [] s = []"
| "avc420_run api yuv ((bgra, width, height, ts) # ps) s =
     (let (r, s') = avc420_encode_bgra api yuv bgra width height ts s in r # avc420_run api yuv ps s')"

text \<open>The library codes each picture as a sequence of conforming units, with parameter sets in every key frame.\<close>

fun codes :: "('e, 'f) h264_api \<Rightarrow> (nat list \<Rightarrow> nat \<Rightarrow> nat \<Rightarrow> 'f) \<Rightarrow> 'e \<Rightarrow> picture list \<Rightarrow> (bool \<times> nal_unit list) list \<Rightarrow> bool" where
  "codes api yuv e [] fs \<longleftrightarrow> fs = []"
| "codes api yuv e ((bgra, width, height, ts) # ps) fs \<longleftrightarrow>
     (case fs of [] \<Rightarrow> False
      | f # fs' \<Rightarrow>
          let (r, e') = encode_at api e (yuv (take (width * height * 4) bgra) width height) ts
          in r = Ok \<lparr>bs_keyframe = fst f, bs_data = byte_stream (snd f)\<rparr> \<and> snd f \<noteq> [] \<and> coded_frame f \<and> codes api yuv e' ps fs')"

definition delivered_data :: "(encoder_error, h264_frame option) result \<Rightarrow> nat list option" where
  "delivered_data r = (case r of Ok (Some f) \<Rightarrow> Some (hf_data f) | _ \<Rightarrow> None)"

lemma avc420_run_frames:
  "\<forall>p \<in> set ps. valid_picture p \<Longrightarrow> codes api yuv (v_encoder s) ps fs \<Longrightarrow>
     map delivered_data (avc420_run api yuv ps s) =
     map Some (frame_run avc420_frame (v_parameter_sets s) (map (\<lambda>(key, us). (key, byte_stream us)) fs)) \<and> (\<forall>f \<in> set fs. coded_frame f)"
proof (induction ps arbitrary: s fs)
  case (Cons p ps)
  obtain bgra width height ts where p: "p = (bgra, width, height, ts)" by (cases p)
  obtain key us fs' where fs: "fs = (key, us) # fs'" using Cons.prems(2) p by (cases fs) auto
  obtain e' where e: "encode_at api (v_encoder s) (yuv (take (width * height * 4) bgra) width height) ts =
      (Ok \<lparr>bs_keyframe = key, bs_data = byte_stream us\<rparr>, e')" and us: "us \<noteq> []" "coded_frame (key, us)" "codes api yuv e' ps fs'"
    using Cons.prems(2) p fs by (auto simp: Let_def split: prod.splits)
  define out where "out = avc420_frame (v_parameter_sets s) key (byte_stream us)"
  have "avc420_encode_bgra api yuv bgra width height ts s =
    (Ok (Some \<lparr>hf_data = fst out, hf_is_keyframe = key, hf_timestamp_ms = ts, hf_size = length (fst out)\<rparr>),
     s\<lparr>v_encoder := e', v_parameter_sets := snd out, v_frames := v_frames s + 1\<rparr>)"
    using Cons.prems(1) p e us(1) by (auto simp: avc420_encode_bgra_def valid_picture_def Let_def out_def case_prod_beta even_iff_mod_2_eq_zero)
  then show ?case
    using Cons.IH[of "s\<lparr>v_encoder := e', v_parameter_sets := snd out, v_frames := v_frames s + 1\<rparr>" fs'] Cons.prems(1) us p fs
    by (simp add: delivered_data_def out_def[symmetric] case_prod_beta Let_def)
qed simp

text \<open>
  The frames that a new AVC420 encoder delivers for any pictures are, unit by unit, those of the library, with
  the parameter sets of the last key frame before every other frame, so that each frame can be decoded after any
  earlier key frame; no picture is refused.\<close>

theorem avc420_delivers_parameter_sets:
  assumes "avc420_new loaded init config = Ok s" "\<forall>p \<in> set ps. valid_picture p" "codes api yuv (v_encoder s) ps fs"
  shows "map delivered_data (avc420_run api yuv ps s) = map (Some \<circ> byte_stream) (with_sets [] fs)"
proof -
  have "v_parameter_sets s = []" using assms(1) by (auto simp: avc420_new_def split: sum.splits)
  then show ?thesis using avc420_run_frames[OF assms(2,3)] avc420.delivered[of fs "v_parameter_sets s" "[]"]
    by (simp add: byte_stream_def)
qed

text \<open>A library whose state counts the pictures: the first is a key frame, the second is not.\<close>

definition sample_units :: "nat \<Rightarrow> nal_unit list" where
  "sample_units n = (if n = 0 then [(True, [103, 66]), (False, [104, 9]), (False, [101, 1])] else [(True, [65, n])])"

definition sample_api :: "(nat, nat list) h264_api" where
  "sample_api = \<lparr>encode_at = (\<lambda>n _ _. (Ok \<lparr>bs_keyframe = (n = 0), bs_data = byte_stream (sample_units n)\<rparr>, n + 1)), force_intra_frame = (\<lambda>_. 0)\<rparr>"

theorem avc420_delivers_parameter_sets_witness:
  "map delivered_data (avc420_run sample_api (\<lambda>b _ _. b) [(replicate 16 0, 2, 2, 0), (replicate 16 0, 2, 2, 40)]
     \<lparr>v_encoder = 0, v_config = encoder_default, v_frames = 0, v_parameter_sets = []\<rparr>) =
   [Some [0, 0, 0, 1, 103, 66, 0, 0, 1, 104, 9, 0, 0, 1, 101, 1], Some [0, 0, 0, 1, 103, 66, 0, 0, 1, 104, 9, 0, 0, 0, 1, 65, 1]]"
proof -
  have n: "avc420_new (Ok ()) (\<lambda>_. Ok 0) encoder_default = Ok \<lparr>v_encoder = 0, v_config = encoder_default, v_frames = 0, v_parameter_sets = []\<rparr>"
    by (simp add: avc420_new_def)
  have v: "\<forall>p \<in> set [(replicate 16 0, 2, 2, 0), (replicate 16 0, 2, 2, 40)]. valid_picture p" by (simp add: valid_picture_def)
  have c: "codes sample_api (\<lambda>b _ _. b) (v_encoder \<lparr>v_encoder = 0, v_config = encoder_default, v_frames = 0, v_parameter_sets = []\<rparr>) [(replicate 16 0, 2, 2, 0), (replicate 16 0, 2, 2, 40)]
      [(True, sample_units 0), (False, sample_units 1)]"
    by (simp add: sample_api_def sample_units_def coded_frame_def conforming_def is_parameter_set_def)
  have "map delivered_data (avc420_run sample_api (\<lambda>b _ _. b) [(replicate 16 0, 2, 2, 0), (replicate 16 0, 2, 2, 40)]
     \<lparr>v_encoder = 0, v_config = encoder_default, v_frames = 0, v_parameter_sets = []\<rparr>) =
     map (Some \<circ> byte_stream) (with_sets [] [(True, sample_units 0), (False, sample_units 1)])"
    by (rule avc420_delivers_parameter_sets[OF n v c])
  then show ?thesis by (simp add: sample_units_def is_parameter_set_def byte_stream_def unit_bytes_def start_code_def)
qed

end
