(* ===== verification/Wrdp_Avc444_Encoder.thy ===== *)
theory Wrdp_Avc444_Encoder
  imports Wrdp_H264_Encoder Wrdp_Avc444_Packing
begin

text \<open>
  The AVC444 encoder (\<open>h264/avc444/encoder.rs\<close>): two 4:2:0 views of a frame coded by one
  H.264 encoder, the policy that omits the auxiliary view, forced intra frames on a client's
  request and at intervals, and the parameter sets of the main stream.  Times are in
  nanoseconds; \<open>None\<close> as the result of a call is a panic.  The time spent is not measured.
\<close>

section \<open>When the auxiliary view is sent\<close>

definition MIN_AUX_INTERVAL :: nat where "MIN_AUX_INTERVAL = 10"

datatype aux_stream_precheck =
    Send_forced | Send_omission_disabled | Send_first_frame | Send_max_interval | Skip_rate_limited | Compare_content_hash

definition precheck_aux_stream_policy :: "bool \<Rightarrow> bool \<Rightarrow> bool \<Rightarrow> nat \<Rightarrow> nat \<Rightarrow> aux_stream_precheck" where
  "precheck_aux_stream_policy force_aux omission_enabled has_previous_aux frames_since_aux max_aux_interval =
     (if force_aux then Send_forced
      else if \<not> omission_enabled then Send_omission_disabled
      else if \<not> has_previous_aux then Send_first_frame
      else if frames_since_aux \<ge> max_aux_interval then Send_max_interval
      else if frames_since_aux < MIN_AUX_INTERVAL then Skip_rate_limited
      else Compare_content_hash)"

text \<open>FNV-1a over the three planes.\<close>

definition fnv_step :: "nat \<Rightarrow> u64 \<Rightarrow> u64" where
  "fnv_step byte hash = xor hash (word_of_nat byte) * 0x100000001b3"

definition hash_yuv420 :: "yuv420_frame \<Rightarrow> u64" where
  "hash_yuv420 f = fold fnv_step (g_y f @ g_u f @ g_v f) 0xcbf29ce484222325"

section \<open>State\<close>

record 'e avc444_encoder =
  a_encoder :: 'e
  a_config :: encoder_config
  a_color_space :: color_space_config
  a_color_matrix :: color_matrix
  frame_count :: nat
  bytes_encoded :: nat
  cached_sps_pps :: "nat list option"
  current_level :: "h264_level option"
  force_all_keyframes :: bool
  last_aux_hash :: "u64 option"
  frames_since_aux :: nat
  max_aux_interval :: nat
  force_aux_idr_on_return :: bool
  enable_aux_omission :: bool
  last_idr_time :: instant
  periodic_idr_interval_secs :: nat
  force_next_idr :: bool
  force_aux_on_next_frame :: bool

definition avc444_color_space :: "encoder_config \<Rightarrow> color_space_config" where
  "avc444_color_space config =
     (case ec_color_space config of
        Some c \<Rightarrow> c
      | None \<Rightarrow>
          (case (ec_width config, ec_height config) of
             (Some w, Some h) \<Rightarrow> if w \<ge> 1280 \<and> h \<ge> 720 then BT709_FULL else BT601_LIMITED
           | _ \<Rightarrow> BT709_FULL))"

definition avc444_vui :: "color_space_config \<Rightarrow> vui_config" where
  "avc444_vui c =
     (case (cs_matrix c, cs_range c) of
        (BT709, Full) \<Rightarrow> Vui_bt709_full
      | (BT709, Limited) \<Rightarrow> Vui_bt709
      | (BT601, _) \<Rightarrow> Vui_bt601
      | (OpenH264, _) \<Rightarrow> Vui_bt601)"

definition avc444_native :: "encoder_config \<Rightarrow> native_config" where
  "avc444_native config = \<lparr>n_bitrate_bps = bitrate_kbps config * 1000 mod 2 ^ 32, n_max_frame_rate = max_fps config,
     n_num_threads = None, n_skip_frames = enable_skip_frame config, n_qp = None, n_level = config_level config,
     n_vui = Some (avc444_vui (avc444_color_space config))\<rparr>"

definition avc444_new :: "(encoder_error, unit) result \<Rightarrow> (native_config \<Rightarrow> (string, 'e) result) \<Rightarrow> instant \<Rightarrow> encoder_config
    \<Rightarrow> (encoder_error, 'e avc444_encoder) result" where
  "avc444_new loaded init now config =
     (case loaded of
        Err e \<Rightarrow> Err e
      | Ok _ \<Rightarrow>
          (case init (avc444_native config) of
             Err e \<Rightarrow> Err (Init_failed (''AVC444 single encoder init failed: '' @ e))
           | Ok enc \<Rightarrow> Ok \<lparr>a_encoder = enc, a_config = config, a_color_space = avc444_color_space config,
               a_color_matrix = cs_matrix (avc444_color_space config), frame_count = 0, bytes_encoded = 0,
               cached_sps_pps = None, current_level = config_level config, force_all_keyframes = False,
               last_aux_hash = None, frames_since_aux = 0, max_aux_interval = 30, force_aux_idr_on_return = False,
               enable_aux_omission = False, last_idr_time = now, periodic_idr_interval_secs = 5,
               force_next_idr = False, force_aux_on_next_frame = False\<rparr>))"

definition with_color_matrix :: "color_matrix \<Rightarrow> 'e avc444_encoder \<Rightarrow> 'e avc444_encoder" where
  "with_color_matrix matrix s = s\<lparr>a_color_matrix := matrix\<rparr>"

definition configure_aux_omission :: "bool \<Rightarrow> nat \<Rightarrow> bool \<Rightarrow> 'e avc444_encoder \<Rightarrow> 'e avc444_encoder" where
  "configure_aux_omission enable max_interval force_idr_on_return s =
     s\<lparr>enable_aux_omission := enable, max_aux_interval := max 1 (min 120 max_interval),
       force_aux_idr_on_return := force_idr_on_return\<rparr>"

definition configure_periodic_idr :: "instant \<Rightarrow> nat \<Rightarrow> 'e avc444_encoder \<Rightarrow> 'e avc444_encoder" where
  "configure_periodic_idr now interval_secs s = s\<lparr>periodic_idr_interval_secs := interval_secs, last_idr_time := now\<rparr>"

definition request_idr :: "'e avc444_encoder \<Rightarrow> 'e avc444_encoder" where
  "request_idr s = s\<lparr>force_next_idr := True\<rparr>"

definition is_periodic_idr_due :: "instant \<Rightarrow> 'e avc444_encoder \<Rightarrow> bool" where
  "is_periodic_idr_due now s \<longleftrightarrow>
     (if force_next_idr s then True
      else if periodic_idr_interval_secs s > 0 then elapsed now (last_idr_time s) \<ge> from_secs (periodic_idr_interval_secs s)
      else False)"

definition should_force_idr :: "instant \<Rightarrow> 'e avc444_encoder \<Rightarrow> bool \<times> 'e avc444_encoder" where
  "should_force_idr now s =
     (if force_next_idr s
      then (True, s\<lparr>force_next_idr := False, force_aux_on_next_frame := True, last_idr_time := now\<rparr>)
      else if periodic_idr_interval_secs s > 0 \<and> elapsed now (last_idr_time s) \<ge> from_secs (periodic_idr_interval_secs s)
      then (True, s\<lparr>last_idr_time := now, force_aux_on_next_frame := True\<rparr>)
      else (False, s))"

definition avc444_force_intra :: "('e, yuv420_frame) h264_api \<Rightarrow> 'e avc444_encoder \<Rightarrow> 'e avc444_encoder" where
  "avc444_force_intra api s = s\<lparr>a_encoder := force_intra_frame api (a_encoder s)\<rparr>"

definition should_send_aux :: "yuv420_frame \<Rightarrow> 'e avc444_encoder \<Rightarrow> bool \<times> 'e avc444_encoder" where
  "should_send_aux aux_frame s =
     (case precheck_aux_stream_policy (force_aux_on_next_frame s) (enable_aux_omission s) (last_aux_hash s \<noteq> None)
             (frames_since_aux s) (max_aux_interval s) of
        Send_forced \<Rightarrow> (True, s\<lparr>force_aux_on_next_frame := False\<rparr>)
      | Send_omission_disabled \<Rightarrow> (True, s)
      | Send_first_frame \<Rightarrow> (True, s)
      | Send_max_interval \<Rightarrow> (True, s)
      | Skip_rate_limited \<Rightarrow> (False, s)
      | Compare_content_hash \<Rightarrow>
          (case last_aux_hash s of None \<Rightarrow> False | Some previous_hash \<Rightarrow> hash_yuv420 aux_frame \<noteq> previous_hash, s))"

section \<open>Parameter sets of the main stream\<close>

text \<open>The search for the next start code, from index \<open>j\<close>.\<close>

function next_start :: "nat list \<Rightarrow> nat \<Rightarrow> nat" where
  "next_start data j =
     (if j + 2 < length data
      then if starts_with data j [0, 0, 1] \<or> j + 3 < length data \<and> starts_with data j [0, 0, 0, 1] then j
           else next_start data (j + 1)
      else length data)"
  by pat_completeness auto
termination by (relation "measure (\<lambda>(data, j). length data - j)") auto

declare next_start.simps [simp del]

lemma next_start_ge: "j \<le> length data \<Longrightarrow> j \<le> next_start data j"
proof (induction data j rule: next_start.induct)
  case (1 data j)
  then show ?case by (subst next_start.simps) auto
qed

function extract_loop :: "nat list \<Rightarrow> nat \<Rightarrow> nat list \<Rightarrow> nat list" where
  "extract_loop data i sps_pps =
     (if i < length data
      then let start_code_len = (if i + 4 \<le> length data \<and> starts_with data i [0, 0, 0, 1] then Some 4
                                 else if i + 3 \<le> length data \<and> starts_with data i [0, 0, 1] then Some 3
                                 else None)
           in case start_code_len of
                None \<Rightarrow> extract_loop data (i + 1) sps_pps
              | Some k \<Rightarrow>
                  let nal_start = i + k in
                  if nal_start \<ge> length data then sps_pps
                  else let nal_type = data ! nal_start mod 32;
                           nal_end = next_start data (nal_start + 1);
                           sps_pps' = (if nal_type = 7 \<or> nal_type = 8 then sps_pps @ slice data i nal_end else sps_pps)
                       in if nal_end = length data then sps_pps' else extract_loop data nal_end sps_pps'
      else sps_pps)"
  by pat_completeness auto
termination
proof (relation "measure (\<lambda>(data, i, _). length data - i)", goal_cases)
  case (3 data i sps_pps x k nal_start nal_type nal_end sets)
  have "nal_start + 1 \<le> nal_end" using 3(5,7) next_start_ge[of "nal_start + 1" data] by simp
  then show ?case using 3(1,4) by simp
qed auto

declare extract_loop.simps [simp del]

definition extract_sps_pps :: "nat list \<Rightarrow> nat list option" where
  "extract_sps_pps data = (let sps_pps = extract_loop data 0 [] in if sps_pps = [] then None else Some sps_pps)"

definition handle_sps_pps :: "nat list option \<Rightarrow> bool \<Rightarrow> nat list \<Rightarrow> nat list \<times> nat list option" where
  "handle_sps_pps cached is_keyframe data =
     (if is_keyframe
      then (data, case extract_sps_pps data of Some sps_pps \<Rightarrow> Some sps_pps | None \<Rightarrow> cached)
      else case cached of Some sps_pps \<Rightarrow> (sps_pps @ data, cached) | None \<Rightarrow> (data, cached))"

section \<open>Encoding a frame\<close>

record avc444_frame =
  stream1_data :: "nat list"
  stream2_data :: "nat list option"
  af_is_keyframe :: bool
  af_timestamp_ms :: nat
  af_total_size :: nat

text \<open>The auxiliary view: coded with the same encoder, as an intra frame next to a main key frame or after an omission.\<close>

definition force_aux_intra :: "('e, yuv420_frame) h264_api \<Rightarrow> bool \<Rightarrow> 'e avc444_encoder \<Rightarrow> 'e avc444_encoder" where
  "force_aux_intra api main_is_keyframe s =
     (if main_is_keyframe then avc444_force_intra api s
      else if force_aux_idr_on_return s \<and> frames_since_aux s > 0 then avc444_force_intra api s
      else s)"

definition omit_aux :: "'e avc444_encoder \<Rightarrow> 'e avc444_encoder" where
  "omit_aux s = s\<lparr>frames_since_aux := (frames_since_aux s + 1) mod 2 ^ 32\<rparr>"

definition encode_aux :: "('e, yuv420_frame) h264_api \<Rightarrow> yuv420_frame \<Rightarrow> bool \<Rightarrow> nat \<Rightarrow> 'e avc444_encoder
    \<Rightarrow> (encoder_error, nat list option) result \<times> 'e avc444_encoder" where
  "encode_aux api aux_yuv420 main_is_keyframe timestamp_ms s =
     (case should_send_aux aux_yuv420 s of
        (False, s) \<Rightarrow> (Ok None, omit_aux s)
      | (True, s) \<Rightarrow>
          let s = force_aux_intra api main_is_keyframe s;
              (r, enc) = encode_at api (a_encoder s) aux_yuv420 timestamp_ms;
              s = s\<lparr>a_encoder := enc\<rparr>
          in case r of
               Err e \<Rightarrow> (Err (Encode_failed (''Aux subframe encoding failed: '' @ e)), s)
             | Ok aux_encoded \<Rightarrow>
                 if bs_data aux_encoded = [] then (Ok None, omit_aux s)
                 else (Ok (Some (bs_data aux_encoded)),
                       s\<lparr>last_aux_hash := Some (hash_yuv420 aux_yuv420), frames_since_aux := 0\<rparr>))"

text \<open>The frame that is delivered, once both views are coded.\<close>

definition finish_frame :: "nat list \<Rightarrow> bool \<Rightarrow> nat list option \<Rightarrow> nat \<Rightarrow> 'e avc444_encoder
    \<Rightarrow> avc444_frame option \<times> 'e avc444_encoder" where
  "finish_frame stream1 main_is_keyframe stream2 timestamp_ms s =
     (if stream1 = [] then (None, s)
      else let (data, cached) = handle_sps_pps (cached_sps_pps s) main_is_keyframe stream1;
               total = length data + (case stream2 of None \<Rightarrow> 0 | Some d \<Rightarrow> length d)
           in (Some \<lparr>stream1_data = data, stream2_data = stream2, af_is_keyframe = main_is_keyframe,
                     af_timestamp_ms = timestamp_ms, af_total_size = total\<rparr>,
               s\<lparr>cached_sps_pps := cached, frame_count := frame_count s + 1, bytes_encoded := bytes_encoded s + total\<rparr>))"

definition force_main_intra :: "('e, yuv420_frame) h264_api \<Rightarrow> instant \<Rightarrow> 'e avc444_encoder \<Rightarrow> 'e avc444_encoder" where
  "force_main_intra api now s =
     (let (force, s) = should_force_idr now s;
          s = (if force then avc444_force_intra api s else s)
      in if force_all_keyframes s then avc444_force_intra api s else s)"

definition encode_views :: "('e, yuv420_frame) h264_api \<Rightarrow> yuv420_frame \<Rightarrow> yuv420_frame \<Rightarrow> nat \<Rightarrow> instant \<Rightarrow> 'e avc444_encoder
    \<Rightarrow> (encoder_error, avc444_frame option) result \<times> 'e avc444_encoder" where
  "encode_views api main_yuv420 aux_yuv420 timestamp_ms now s =
     (let s = force_main_intra api now s;
          (r, enc) = encode_at api (a_encoder s) main_yuv420 timestamp_ms;
          s = s\<lparr>a_encoder := enc\<rparr>
      in case r of
           Err e \<Rightarrow> (Err (Encode_failed (''Main subframe encoding failed: '' @ e)), s)
         | Ok main_encoded \<Rightarrow>
             (case encode_aux api aux_yuv420 (bs_keyframe main_encoded) timestamp_ms s of
                (Err e, s) \<Rightarrow> (Err e, s)
              | (Ok stream2, s) \<Rightarrow>
                  (case finish_frame (bs_data main_encoded) (bs_keyframe main_encoded) stream2 timestamp_ms s of
                     (f, s) \<Rightarrow> (Ok f, s))))"

definition picture_views :: "vector_unit \<Rightarrow> nat list \<Rightarrow> nat \<Rightarrow> nat \<Rightarrow> color_matrix \<Rightarrow> (yuv420_frame \<times> yuv420_frame) option" where
  "picture_views unit bgra_data width height matrix =
     (case bgra_to_yuv444 unit bgra_data width height matrix of None \<Rightarrow> None | Some yuv444 \<Rightarrow> pack_dual_views unit yuv444)"

definition avc444_encode_bgra :: "('e, yuv420_frame) h264_api \<Rightarrow> vector_unit \<Rightarrow> nat list \<Rightarrow> nat \<Rightarrow> nat \<Rightarrow> nat \<Rightarrow> instant
    \<Rightarrow> 'e avc444_encoder \<Rightarrow> ((encoder_error, avc444_frame option) result \<times> 'e avc444_encoder) option" where
  "avc444_encode_bgra api unit bgra_data width height timestamp_ms now s =
     (if width = 0 \<or> height = 0 \<or> width mod 2 \<noteq> 0 \<or> height mod 2 \<noteq> 0
      then Some (Err (Invalid_dimensions width height), s)
      else let expected_size = width * height * 4 mod 2 ^ 32 in
      if length bgra_data < expected_size
      then Some (Err (Encode_failed (''BGRA buffer too small: '' @ show_nat (length bgra_data) @ '' < '' @ show_nat expected_size)), s)
      else case picture_views unit bgra_data width height (a_color_matrix s) of
             None \<Rightarrow> None
           | Some (main_yuv420, aux_yuv420) \<Rightarrow> Some (encode_views api main_yuv420 aux_yuv420 timestamp_ms now s))"

definition avc444_force_keyframe :: "('e, yuv420_frame) h264_api \<Rightarrow> 'e avc444_encoder \<Rightarrow> 'e avc444_encoder" where
  "avc444_force_keyframe api s = avc444_force_intra api s"

section \<open>Outcomes\<close>

lemma picture_views_total:
  assumes "length bgra = width * height * 4" "list_all (\<lambda>b. b < 256) bgra" "even width" "even height"
  shows "\<exists>main aux. picture_views unit bgra width height m = Some (main, aux)"
proof -
  obtain c where c: "bgra_to_yuv444 unit bgra width height m = Some (frame_of width height c)"
    "\<forall>i. fst (c i) < 256 \<and> fst (snd (c i)) < 256 \<and> snd (snd (c i)) < 256"
    using conversion_total[OF assms(1,2)] by blast
  let ?f = "frame_of width height c"
  have "wf_frame444 ?f" "list_all (\<lambda>b. b < 256) (f_u ?f)" "list_all (\<lambda>b. b < 256) (f_v ?f)"
    "f_width ?f mod 2 = 0" "f_height ?f mod 2 = 0"
    using c(2) assms(3,4) by (auto simp: frame_of_def wf_frame444_def list_all_iff even_iff_mod_2_eq_zero)
  from pack_dual_views_value[OF this, of unit] c(1) show ?thesis by (simp add: picture_views_def)
qed

lemma picture_views_wrong_size:
  "length bgra \<noteq> width * height * 4 \<Longrightarrow> picture_views unit bgra width height m = None"
  by (simp add: picture_views_def bgra_to_yuv444_def)

text \<open>
  A picture of odd or zero dimensions and one whose buffer is too short are errors that leave the encoder as it was; a
  buffer of exactly the right size is always coded, whatever the processor; a buffer that is longer than the picture, which
  the check lets through, panics in the conversion.\<close>

theorem avc444_outcomes:
  assumes "list_all (\<lambda>b. b < 256) bgra" "width * height * 4 < 2 ^ 32"
  shows "(if width = 0 \<or> height = 0 \<or> odd width \<or> odd height
            then avc444_encode_bgra api unit bgra width height ts now s = Some (Err (Invalid_dimensions width height), s)
          else if length bgra < width * height * 4
            then \<exists>e. avc444_encode_bgra api unit bgra width height ts now s = Some (Err (Encode_failed e), s)
          else if length bgra = width * height * 4
            then \<exists>main aux. picture_views unit bgra width height (a_color_matrix s) = Some (main, aux) \<and>
                   avc444_encode_bgra api unit bgra width height ts now s = Some (encode_views api main aux ts now s)
          else avc444_encode_bgra api unit bgra width height ts now s = None)"
proof -
  have o: "odd n \<longleftrightarrow> n mod 2 \<noteq> 0" for n :: nat by (simp add: odd_iff_mod_2_eq_one)
  have m: "width * height * 4 mod 2 ^ 32 = width * height * 4" using assms(2) by simp
  show ?thesis
    using picture_views_total[of bgra width height unit "a_color_matrix s"] picture_views_wrong_size[of bgra width height unit "a_color_matrix s"] assms(1)
    unfolding o avc444_encode_bgra_def Let_def m by auto
qed

text \<open>A library that codes every picture as one byte, an intra frame when it was asked for one, and a new encoder on it.\<close>

definition byte_api :: "(bool, yuv420_frame) h264_api" where
  "byte_api = \<lparr>encode_at = (\<lambda>intra _ _. (Ok \<lparr>bs_keyframe = intra, bs_data = [7]\<rparr>, False)), force_intra_frame = (\<lambda>_. True)\<rparr>"

definition byte_encoder :: "bool avc444_encoder" where
  "byte_encoder = projr (avc444_new (Ok ()) (\<lambda>_. Ok True) 0 encoder_default)"


theorem avc444_outcomes_witness:
  "avc444_encode_bgra byte_api No_simd (replicate 20 0) 2 2 0 0 byte_encoder = None \<and>
   avc444_encode_bgra byte_api No_simd (replicate 20 0) 3 2 0 0 byte_encoder = Some (Err (Invalid_dimensions 3 2), byte_encoder) \<and>
   (\<exists>r. avc444_encode_bgra byte_api No_simd (replicate 16 0) 2 2 0 0 byte_encoder = Some r)"
  using avc444_outcomes[of "replicate 20 0" 2 2 byte_api No_simd 0 0 byte_encoder] avc444_outcomes[of "replicate 20 0" 3 2 byte_api No_simd 0 0 byte_encoder]
    avc444_outcomes[of "replicate 16 0" 2 2 byte_api No_simd 0 0 byte_encoder] by (auto simp: list_all_iff)

section \<open>Parameter sets\<close>

lemma next_start_skip:
  "clean b \<Longrightarrow> r = [] \<or> take 3 r = [0, 0, 1] \<or> take 4 r = [0, 0, 0, 1] \<Longrightarrow>
     next_start (pre @ b @ r) (length pre) = length pre + length b"
proof (induction b arbitrary: pre)
  case Nil
  then show ?case
    using starts_with_append[of pre r "[0, 0, 1]"] starts_with_append[of pre r "[0, 0, 0, 1]"]
      arg_cong[of "take 3 r" "[0, 0, 1]" length] arg_cong[of "take 4 r" "[0, 0, 0, 1]" length]
    by (subst next_start.simps) (auto simp: numeral_eq_Suc)
next
  case (Cons x b)
  have "\<not> starts_with (pre @ (x # b) @ r) (length pre) [0, 0, 0, 1]" "\<not> starts_with (pre @ (x # b) @ r) (length pre) [0, 0, 1]"
    using clean_no_code[OF Cons.prems(1), of r] by (simp_all add: starts_with_append numeral_eq_Suc)
  then have "next_start (pre @ (x # b) @ r) (length pre) =
    (if length pre + 2 < length (pre @ (x # b) @ r) then next_start (pre @ (x # b) @ r) (length pre + 1) else length (pre @ (x # b) @ r))"
    by (subst next_start.simps) simp
  moreover have "next_start (pre @ (x # b) @ r) (length pre + 1) = length pre + length (x # b)"
    using Cons.IH[of "pre @ [x]"] Cons.prems by simp
  moreover have "r = [] \<or> length r \<ge> 3"
    using Cons.prems(2) arg_cong[of "take 3 r" "[0, 0, 1]" length] arg_cong[of "take 4 r" "[0, 0, 0, 1]" length] by auto
  ultimately show ?case by auto
qed

lemma byte_stream_code: "us = [] \<or> take 3 (byte_stream us) = [0, 0, 1] \<or> take 4 (byte_stream us) = [0, 0, 0, 1]"
  by (cases us) (auto simp: byte_stream_def unit_bytes_def start_code_def numeral_eq_Suc)

lemma extract_loop_end: "length data \<le> i \<Longrightarrow> extract_loop data i acc = acc"
  by (simp add: extract_loop.simps)

lemma extract_loop_unit:
  assumes u: "conforming u"
  shows "extract_loop (pre @ unit_bytes u @ byte_stream us) (length pre) acc =
    extract_loop (pre @ unit_bytes u @ byte_stream us) (length (pre @ unit_bytes u)) (acc @ (if is_parameter_set u then unit_bytes u else []))"
proof -
  obtain x nal where n: "snd u = x # nal" "clean nal" using u by (cases "snd u") (auto simp: conforming_def)
  let ?d = "pre @ unit_bytes u @ byte_stream us" and ?k = "length (start_code (fst u))"
  have d: "?d = (pre @ start_code (fst u) @ [x]) @ nal @ byte_stream us" by (simp add: unit_bytes_def n)
  have e: "next_start ?d (length pre + ?k + 1) = length (pre @ unit_bytes u)"
    using next_start_skip[OF n(2), of "byte_stream us" "pre @ start_code (fst u) @ [x]"] byte_stream_code[of us]
    unfolding d by (auto simp: unit_bytes_def n)
  have s: "starts_with ?d (length pre) (start_code (fst u))" "\<not> fst u \<Longrightarrow> \<not> starts_with ?d (length pre) [0, 0, 0, 1]"
    by (simp_all add: starts_with_append unit_bytes_def start_code_def numeral_eq_Suc)
  have x: "?d ! (length pre + ?k) = x" by (simp add: unit_bytes_def n nth_append)
  have sl: "slice ?d (length pre) (length (pre @ unit_bytes u)) = unit_bytes u" by (simp add: slice_def)
  have len: "length pre + ?k < length ?d" by (simp add: unit_bytes_def n)
  have c: "(if length pre + 4 \<le> length ?d \<and> starts_with ?d (length pre) [0, 0, 0, 1] then Some 4
      else if length pre + 3 \<le> length ?d \<and> starts_with ?d (length pre) [0, 0, 1] then Some 3 else None) = Some ?k"
    using s len by (cases "fst u") (auto simp: start_code_def)
  have "extract_loop ?d (length pre) acc =
      (let acc' = acc @ (if is_parameter_set u then unit_bytes u else []) in
       if length (pre @ unit_bytes u) = length ?d then acc' else extract_loop ?d (length (pre @ unit_bytes u)) acc')"
    using len unfolding extract_loop.simps[of ?d "length pre" acc] c Let_def option.case x e sl
    by (cases us) (auto simp: is_parameter_set_def n byte_stream_def)
  also have "\<dots> = extract_loop ?d (length (pre @ unit_bytes u)) (acc @ (if is_parameter_set u then unit_bytes u else []))"
    using extract_loop_end[of ?d "length (pre @ unit_bytes u)"] by (simp add: Let_def)
  finally show ?thesis .
qed

lemma extract_loop_stream:
  "\<forall>u \<in> set us. conforming u \<Longrightarrow>
     extract_loop (pre @ byte_stream us) (length pre) acc = acc @ byte_stream (filter is_parameter_set us)"
proof (induction us arbitrary: pre acc)
  case Nil show ?case by (simp add: byte_stream_def extract_loop.simps)
next
  case (Cons u us)
  have "byte_stream (u # us) = unit_bytes u @ byte_stream us" by (simp add: byte_stream_def)
  then show ?case using extract_loop_unit[of u pre us acc] Cons.IH[of "pre @ unit_bytes u"] Cons.prems
    by (simp add: byte_stream_def)
qed

lemma extract_sps_pps_stream:
  "\<forall>u \<in> set us. conforming u \<Longrightarrow> extract_sps_pps (byte_stream us) =
     (let sets = byte_stream (filter is_parameter_set us) in if sets = [] then None else Some sets)"
  using extract_loop_stream[of us "[]" "[]"] by (simp add: extract_sps_pps_def)

interpretation avc444: parameter_cache handle_sps_pps "\<lambda>c. case c of None \<Rightarrow> [] | Some sets \<Rightarrow> sets"
proof
  fix us and c :: "nat list option"
  assume "coded_frame (True, us)"
  then show "fst (handle_sps_pps c True (byte_stream us)) = byte_stream us \<and>
      (case snd (handle_sps_pps c True (byte_stream us)) of None \<Rightarrow> [] | Some sets \<Rightarrow> sets) = byte_stream (filter is_parameter_set us)"
    by (auto simp: handle_sps_pps_def coded_frame_def extract_sps_pps_stream Let_def filter_empty_conv)
qed (auto simp: handle_sps_pps_def split: option.splits)

text \<open>
  On a stream of conforming units the two searches for parameter sets agree and find exactly the parameter sets, with
  their start codes; and the main stream of the AVC444 encoder has the parameter sets of the last key frame before every
  frame that is not one.\<close>

theorem parameter_sets_equivalent:
  assumes "\<forall>u \<in> set us. conforming u" "\<forall>f \<in> set fs. coded_frame f"
  shows "parameter_sets (byte_stream us) = byte_stream (filter is_parameter_set us) \<and>
    extract_sps_pps (byte_stream us) = (if parameter_sets (byte_stream us) = [] then None else Some (parameter_sets (byte_stream us))) \<and>
    frame_run handle_sps_pps None (map (\<lambda>(key, us). (key, byte_stream us)) fs) = map byte_stream (with_sets [] fs)"
  using avc444.delivered[OF assms(2), of None "[]"] parameter_sets_stream[OF assms(1)] extract_sps_pps_stream[OF assms(1)]
  by (simp add: Let_def byte_stream_def)

theorem parameter_sets_equivalent_witness:
  "parameter_sets [0, 0, 0, 1, 103, 66, 0, 0, 1, 104, 9, 0, 0, 1, 101, 1] = [0, 0, 0, 1, 103, 66, 0, 0, 1, 104, 9] \<and>
   extract_sps_pps [0, 0, 0, 1, 103, 66, 0, 0, 1, 104, 9, 0, 0, 1, 101, 1] = Some [0, 0, 0, 1, 103, 66, 0, 0, 1, 104, 9] \<and>
   frame_run handle_sps_pps None [(True, [0, 0, 1, 103, 66]), (False, [0, 0, 1, 65])] = [[0, 0, 1, 103, 66], [0, 0, 1, 103, 66, 0, 0, 1, 65]]"
proof -
  let ?us = "[(True, [103, 66]), (False, [104, 9]), (False, [101, 1])] :: nal_unit list"
  let ?fs = "[(True, [(False, [103, 66])]), (False, [(False, [65])])] :: (bool \<times> nal_unit list) list"
  have "\<forall>u \<in> set ?us. conforming u" "\<forall>f \<in> set ?fs. coded_frame f"
    by (simp_all add: conforming_def coded_frame_def is_parameter_set_def)
  from parameter_sets_equivalent[OF this] show ?thesis
    by (simp add: byte_stream_def unit_bytes_def start_code_def is_parameter_set_def)
qed

section \<open>Omitting the auxiliary view\<close>

text \<open>Calls of the encoder, and what the client holds: the last auxiliary view delivered to it and how many frames came since.\<close>

datatype avc444_call =
    Encode "nat list" nat nat nat instant
  | Request_idr
  | Configure_aux_omission bool nat bool
  | Configure_periodic_idr instant nat
  | Force_keyframe

type_synonym client_view = "(yuv420_frame \<times> nat) option"

definition client_receives :: "(encoder_error, avc444_frame option) result \<Rightarrow> yuv420_frame \<Rightarrow> client_view \<Rightarrow> client_view" where
  "client_receives r aux client =
     (case r of
        Ok (Some f) \<Rightarrow>
          (case stream2_data f of
             Some _ \<Rightarrow> Some (aux, 0)
           | None \<Rightarrow> map_option (\<lambda>(c, n). (c, n + 1)) client)
      | _ \<Rightarrow> client)"

fun avc444_call_step :: "('e, yuv420_frame) h264_api \<Rightarrow> vector_unit \<Rightarrow> avc444_call \<Rightarrow> 'e avc444_encoder \<times> client_view
    \<Rightarrow> ('e avc444_encoder \<times> client_view) option" where
  "avc444_call_step api unit (Encode bgra width height ts now) (s, client) =
     (case avc444_encode_bgra api unit bgra width height ts now s of
        None \<Rightarrow> None
      | Some (r, s') \<Rightarrow>
          Some (s', case picture_views unit bgra width height (a_color_matrix s) of
                      Some (_, aux) \<Rightarrow> client_receives r aux client
                    | None \<Rightarrow> client))"
| "avc444_call_step api unit Request_idr (s, client) = Some (request_idr s, client)"
| "avc444_call_step api unit (Configure_aux_omission e m f) (s, client) = Some (configure_aux_omission e m f s, client)"
| "avc444_call_step api unit (Configure_periodic_idr now secs) (s, client) = Some (configure_periodic_idr now secs s, client)"
| "avc444_call_step api unit Force_keyframe (s, client) = Some (avc444_force_keyframe api s, client)"

fun avc444_calls :: "('e, yuv420_frame) h264_api \<Rightarrow> vector_unit \<Rightarrow> avc444_call list \<Rightarrow> 'e avc444_encoder \<times> client_view
    \<Rightarrow> ('e avc444_encoder \<times> client_view) option" where
  "avc444_calls api unit [] st = Some st"
| "avc444_calls api unit (c # cs) st =
     (case avc444_call_step api unit c st of None \<Rightarrow> None | Some st' \<Rightarrow> avc444_calls api unit cs st')"




lemma should_send_aux_iff:
  "fst (should_send_aux v s) \<longleftrightarrow> force_aux_on_next_frame s \<or> \<not> enable_aux_omission s \<or> last_aux_hash s = None \<or>
     max_aux_interval s \<le> frames_since_aux s \<or> (10 \<le> frames_since_aux s \<and> last_aux_hash s \<noteq> Some (hash_yuv420 v))"
  by (auto simp: should_send_aux_def precheck_aux_stream_policy_def MIN_AUX_INTERVAL_def split: option.splits)













lemma encode_bgra_views:
  assumes "avc444_encode_bgra api unit bgra width height ts now s = Some (Ok f, s')"
  obtains main aux where "picture_views unit bgra width height (a_color_matrix s) = Some (main, aux)"
    "encode_views api main aux ts now s = (Ok f, s')"
  using assms by (auto simp: avc444_encode_bgra_def Let_def split: if_splits option.splits)


definition same_picture :: "nat list" where "same_picture = replicate 16 0"

lemma same_picture_views: "\<exists>main aux. \<forall>m. m = BT709 \<longrightarrow> picture_views No_simd same_picture 2 2 m = Some (main, aux)"
  using picture_views_total[of same_picture 2 2 No_simd BT709] by (auto simp: same_picture_def list_all_iff)

lemma byte_encoder_sel [simp]:
  "a_encoder byte_encoder = True" "a_color_matrix byte_encoder = BT709" "cached_sps_pps byte_encoder = None" "force_all_keyframes byte_encoder = False"
  "last_aux_hash byte_encoder = None" "frames_since_aux byte_encoder = 0" "last_idr_time byte_encoder = 0" "periodic_idr_interval_secs byte_encoder = 5"
  "force_next_idr byte_encoder = False" "force_aux_on_next_frame byte_encoder = False"
  by (simp_all add: byte_encoder_def avc444_new_def encoder_default_def avc444_color_space_def BT709_FULL_def)

lemmas encode_defs = avc444_encode_bgra_def encode_views_def encode_aux_def finish_frame_def force_main_intra_def should_force_idr_def
  avc444_force_intra_def force_aux_intra_def should_send_aux_def precheck_aux_stream_policy_def omit_aux_def handle_sps_pps_def
  configure_aux_omission_def MIN_AUX_INTERVAL_def client_receives_def

lemma extract_sps_pps_byte [simp]: "extract_sps_pps [7] = None"
  by (simp add: extract_sps_pps_def extract_loop.simps starts_with_def)


text \<open>
  A skipped main picture breaks this: its auxiliary view was coded and recorded but the frame is not delivered, so that the next
  frame omits its auxiliary view for a client that has none.\<close>

definition skipping_api :: "(nat, yuv420_frame) h264_api" where
  "skipping_api = \<lparr>encode_at = (\<lambda>n _ _. (Ok \<lparr>bs_keyframe = False, bs_data = (if n = 0 then [] else [7])\<rparr>, n + 1)), force_intra_frame = id\<rparr>"

lemma skipped_main_loses_aux:
  assumes "avc444_new (Ok ()) (\<lambda>_. Ok 0) 0 encoder_default = Ok s0"
  shows "\<exists>s f s'. avc444_calls skipping_api No_simd [Configure_aux_omission True 30 False, Encode same_picture 2 2 0 0] (s0, None) = Some (s, None) \<and>
     avc444_encode_bgra skipping_api No_simd same_picture 2 2 40 1 s = Some (Ok (Some f), s') \<and> stream2_data f = None"
proof -
  obtain main aux where v: "picture_views No_simd same_picture 2 2 BT709 = Some (main, aux)" using same_picture_views by blast
  have s0: "a_encoder s0 = 0" "a_color_matrix s0 = BT709" "cached_sps_pps s0 = None" "force_all_keyframes s0 = False" "last_aux_hash s0 = None"
    "frames_since_aux s0 = 0" "last_idr_time s0 = 0" "periodic_idr_interval_secs s0 = 5" "force_next_idr s0 = False" "force_aux_on_next_frame s0 = False"
    using assms by (auto simp: avc444_new_def encoder_default_def avc444_color_space_def BT709_FULL_def)
  have len: "length same_picture = 16" by (simp add: same_picture_def)
  then show ?thesis using v s0 by (auto simp: encode_defs skipping_api_def)
qed

section \<open>Forced intra frames\<close>

text \<open>The library codes an intra frame when it was asked for one.\<close>

definition honours_intra :: "('e, 'f) h264_api \<Rightarrow> bool" where
  "honours_intra api \<longleftrightarrow> (\<forall>e f ts b. fst (encode_at api (force_intra_frame api e) f ts) = Ok b \<longrightarrow> bs_keyframe b)"

lemma force_main_intra_due:
  assumes "is_periodic_idr_due now s"
  shows "\<exists>e. a_encoder (force_main_intra api now s) = force_intra_frame api e" "force_aux_on_next_frame (force_main_intra api now s)"
    "force_next_idr (force_main_intra api now s) = False" "last_idr_time (force_main_intra api now s) = now"
    "periodic_idr_interval_secs (force_main_intra api now s) = periodic_idr_interval_secs s"
  using assms by (auto simp: is_periodic_idr_due_def force_main_intra_def should_force_idr_def avc444_force_intra_def Let_def)

lemma encode_aux_forced:
  assumes "force_aux_on_next_frame s" "encode_aux api aux True ts s = (Ok stream2, s')"
  shows "\<exists>e b. fst (encode_at api (force_intra_frame api e) aux ts) = Ok b \<and> stream2 = (if bs_data b = [] then None else Some (bs_data b))"
    "force_next_idr s' = force_next_idr s" "last_idr_time s' = last_idr_time s" "periodic_idr_interval_secs s' = periodic_idr_interval_secs s"
    "force_aux_on_next_frame s' = False"
proof -
  have "fst (should_send_aux aux s)" using assms(1) by (simp add: should_send_aux_iff)
  then obtain s0 where s0: "should_send_aux aux s = (True, s0)" by (cases "should_send_aux aux s") auto
  then have f: "force_next_idr s0 = force_next_idr s" "last_idr_time s0 = last_idr_time s"
      "periodic_idr_interval_secs s0 = periodic_idr_interval_secs s" "force_aux_on_next_frame s0 = False"
    using assms(1) by (auto simp: should_send_aux_def precheck_aux_stream_policy_def)
  obtain q e where q: "encode_at api (force_intra_frame api (a_encoder s0)) aux ts = (q, e)" by fastforce
  obtain b where b: "q = Ok b" "stream2 = (if bs_data b = [] then None else Some (bs_data b))"
    "force_next_idr s' = force_next_idr s0 \<and> last_idr_time s' = last_idr_time s0 \<and>
     periodic_idr_interval_secs s' = periodic_idr_interval_secs s0 \<and> force_aux_on_next_frame s' = force_aux_on_next_frame s0"
    using assms(2) s0 q
    by (cases q) (auto simp: encode_aux_def force_aux_intra_def avc444_force_intra_def omit_aux_def Let_def split: if_splits)
  show "\<exists>e b. fst (encode_at api (force_intra_frame api e) aux ts) = Ok b \<and> stream2 = (if bs_data b = [] then None else Some (bs_data b))"
    using q b(1,2) by (intro exI[of _ "a_encoder s0"] exI[of _ b]) simp
  show "force_next_idr s' = force_next_idr s" "last_idr_time s' = last_idr_time s" "periodic_idr_interval_secs s' = periodic_idr_interval_secs s"
    "force_aux_on_next_frame s' = False" using b(3) f by simp_all
qed

text \<open>
  C28.  When the client asked for a refresh or the interval has passed, the frame that is coded next is an intra frame in both
  views: the main view is a key frame, and the auxiliary view, however the omission policy stands, is coded as one and sent
  unless the library skips it.  The request is then used up.\<close>

theorem requested_refresh_covers_both_views:
  assumes h: "honours_intra api" and due: "is_periodic_idr_due now s"
    and e: "avc444_encode_bgra api unit bgra width height ts now s = Some (Ok (Some f), s')"
  shows "af_is_keyframe f \<and> \<not> is_periodic_idr_due now s' \<and> \<not> force_aux_on_next_frame s' \<and>
    (\<exists>main aux b e'. picture_views unit bgra width height (a_color_matrix s) = Some (main, aux) \<and>
       fst (encode_at api (force_intra_frame api e') aux ts) = Ok b \<and> bs_keyframe b \<and>
       stream2_data f = (if bs_data b = [] then None else Some (bs_data b)))"
proof -
  obtain main aux where v: "picture_views unit bgra width height (a_color_matrix s) = Some (main, aux)"
    "encode_views api main aux ts now s = (Ok (Some f), s')" using encode_bgra_views[OF e] .
  define s1 where "s1 = force_main_intra api now s"
  note due1 = force_main_intra_due[OF due, of api, folded s1_def]
  obtain e1 where e1: "a_encoder s1 = force_intra_frame api e1" using due1(1) by blast
  obtain q e2 where q: "encode_at api (a_encoder s1) main ts = (q, e2)" by fastforce
  obtain b where b: "q = Ok b" using v(2) q by (cases q) (auto simp: encode_views_def s1_def[symmetric])
  have key: "bs_keyframe b" using h q b e1 unfolding honours_intra_def by (metis fst_conv)
  obtain d s2 where d: "encode_aux api aux True ts (s1\<lparr>a_encoder := e2\<rparr>) = (d, s2)" by fastforce
  obtain stream2 where st: "d = Ok stream2" using v(2) q b key d by (cases d) (auto simp: encode_views_def s1_def[symmetric])
  have f: "af_is_keyframe f" "stream2_data f = stream2" "force_next_idr s' = force_next_idr s2" "last_idr_time s' = last_idr_time s2"
    "periodic_idr_interval_secs s' = periodic_idr_interval_secs s2" "force_aux_on_next_frame s' = force_aux_on_next_frame s2"
    using v(2) q b key d st by (auto simp: encode_views_def s1_def[symmetric] finish_frame_def Let_def split: if_splits prod.splits)
  have fa: "force_aux_on_next_frame (s1\<lparr>a_encoder := e2\<rparr>)" using due1(2) by simp
  note aux1 = encode_aux_forced[OF fa d[unfolded st]]
  obtain e' b' where b': "fst (encode_at api (force_intra_frame api e') aux ts) = Ok b'" "stream2 = (if bs_data b' = [] then None else Some (bs_data b'))"
    using aux1(1) by blast
  have "bs_keyframe b'" using h b'(1) unfolding honours_intra_def by blast
  moreover have "\<not> is_periodic_idr_due now s'" using f aux1(2-4) due1(3-5) by (simp add: is_periodic_idr_due_def)
  ultimately show ?thesis using f aux1(5) v(1) b' by auto
qed

theorem requested_refresh_covers_both_views_witness:
  "\<exists>f s'. avc444_encode_bgra byte_api No_simd same_picture 2 2 0 0 (request_idr byte_encoder) = Some (Ok (Some f), s') \<and>
     af_is_keyframe f \<and> stream2_data f = Some [7]"
proof -
  obtain main aux where v: "picture_views No_simd same_picture 2 2 BT709 = Some (main, aux)" using same_picture_views by blast
  have len: "length same_picture = 16" by (simp add: same_picture_def)
  obtain f s' where f: "avc444_encode_bgra byte_api No_simd same_picture 2 2 0 0 (request_idr byte_encoder) = Some (Ok (Some f), s')"
    using v len by (auto simp: encode_defs byte_api_def request_idr_def)
  have h: "honours_intra byte_api" and n: "is_periodic_idr_due 0 (request_idr byte_encoder)"
    by (simp_all add: honours_intra_def byte_api_def is_periodic_idr_due_def request_idr_def)
  have "fst (encode_at byte_api e' a 0) = Ok b \<Longrightarrow> bs_data b = [7]" for e' a b by (auto simp: byte_api_def)
  with requested_refresh_covers_both_views[OF h n f] f show ?thesis by (metis list.discI)
qed

end
