(* ===== verification/Wrdp_Supervision.thy ===== *)
theory Wrdp_Supervision
  imports Wrdp_Prelude
begin

text \<open>
  Session supervision (\<open>rdp/session/supervision\<close>): the health of the four aspects of a session, the
  events that change it, the status computed from it, and the supervisor's loop.
\<close>

section \<open>Status\<close>

datatype session_aspect_id = Session_aspect | Graphics_aspect | Input_aspect | Clipboard_aspect

datatype aspect_health = Healthy | Degraded string | Failed string | Not_applicable

definition health_is_healthy :: "aspect_health \<Rightarrow> bool" where
  "health_is_healthy h \<longleftrightarrow> h = Healthy \<or> h = Not_applicable"

definition health_is_failed :: "aspect_health \<Rightarrow> bool" where
  "health_is_failed h \<longleftrightarrow> (case h of Failed _ \<Rightarrow> True | _ \<Rightarrow> False)"

datatype overall_status = Overall_healthy | Overall_degraded | Overall_invalid | Overall_recovering

record health_status =
  st_graphics :: aspect_health
  st_input :: aspect_health
  st_clipboard :: aspect_health
  st_session :: aspect_health
  st_overall :: overall_status

definition status_default :: health_status where
  "status_default = \<lparr>st_graphics = Healthy, st_input = Healthy, st_clipboard = Healthy, st_session = Healthy, st_overall = Overall_healthy\<rparr>"

section \<open>Events\<close>

datatype graphics_stream_state = Streaming | Paused | Stream_error

datatype session_status_event =
    Aspect_health_changed session_aspect_id aspect_health
  | Session_closed string
  | Session_invalidated string
  | Graphics_stream_state_changed graphics_stream_state
  | Video_frame_stalled nat
  | Video_frame_never_started nat
  | Video_frame_resumed
  | Input_failed string bool
  | Input_recovered
  | Clipboard_failed string
  | Clipboard_recovered
  | Compositor_lost string
  | Eis_stream_ended string
  | Subsystem_not_available string

fun apply_aspect_health :: "session_aspect_id \<Rightarrow> aspect_health \<Rightarrow> health_status \<Rightarrow> health_status" where
  "apply_aspect_health Session_aspect h s = s\<lparr>st_session := h\<rparr>"
| "apply_aspect_health Graphics_aspect h s = s\<lparr>st_graphics := h\<rparr>"
| "apply_aspect_health Input_aspect h s = s\<lparr>st_input := h\<rparr>"
| "apply_aspect_health Clipboard_aspect h s = s\<lparr>st_clipboard := h\<rparr>"

fun apply_graphics_stream_state :: "graphics_stream_state \<Rightarrow> health_status \<Rightarrow> health_status" where
  "apply_graphics_stream_state Streaming s = s\<lparr>st_graphics := Healthy\<rparr>"
| "apply_graphics_stream_state Paused s = s\<lparr>st_graphics := Degraded ''PipeWire stream paused''\<rparr>"
| "apply_graphics_stream_state Stream_error s = s\<lparr>st_graphics := Failed ''PipeWire stream error''\<rparr>"

definition mark_subsystem_not_available :: "string \<Rightarrow> health_status \<Rightarrow> health_status" where
  "mark_subsystem_not_available subsystem s =
     (if subsystem = ''clipboard'' then s\<lparr>st_clipboard := Not_applicable\<rparr>
      else if subsystem = ''input'' then s\<lparr>st_input := Not_applicable\<rparr>
      else s)"

definition recompute_overall :: "health_status \<Rightarrow> health_status" where
  "recompute_overall s =
     (if health_is_failed (st_session s) then s\<lparr>st_overall := Overall_invalid\<rparr>
      else if health_is_failed (st_graphics s) \<or> health_is_failed (st_input s) then s\<lparr>st_overall := Overall_invalid\<rparr>
      else if \<not> health_is_healthy (st_graphics s) \<or> \<not> health_is_healthy (st_input s) \<or> \<not> health_is_healthy (st_clipboard s)
        \<or> \<not> health_is_healthy (st_session s)
      then s\<lparr>st_overall := Overall_degraded\<rparr>
      else s\<lparr>st_overall := Overall_healthy\<rparr>)"

fun event_effect :: "session_status_event \<Rightarrow> health_status \<Rightarrow> health_status" where
  "event_effect (Aspect_health_changed aspect health) s = apply_aspect_health aspect health s"
| "event_effect (Session_closed reason) s =
     s\<lparr>st_session := Failed reason, st_input := Failed ''session closed'', st_clipboard := Failed ''session closed''\<rparr>"
| "event_effect (Session_invalidated reason) s =
     s\<lparr>st_session := Failed reason, st_input := Failed ''session invalidated'', st_clipboard := Failed ''session invalidated''\<rparr>"
| "event_effect (Graphics_stream_state_changed state) s = apply_graphics_stream_state state s"
| "event_effect (Video_frame_stalled ms) s = s\<lparr>st_graphics := Degraded (''no frames for '' @ show_nat ms @ ''ms'')\<rparr>"
| "event_effect (Video_frame_never_started ms) s =
     s\<lparr>st_graphics := Failed (''capture never delivered frames ('' @ show_nat ms @ ''ms)'')\<rparr>"
| "event_effect Video_frame_resumed s =
     (if \<not> health_is_healthy (st_graphics s) then s\<lparr>st_graphics := Healthy\<rparr> else s)"
| "event_effect (Input_failed reason permanent) s =
     (if permanent then s\<lparr>st_input := Failed reason\<rparr> else s\<lparr>st_input := Degraded reason\<rparr>)"
| "event_effect Input_recovered s = (if \<not> health_is_healthy (st_input s) then s\<lparr>st_input := Healthy\<rparr> else s)"
| "event_effect (Clipboard_failed reason) s = s\<lparr>st_clipboard := Failed reason\<rparr>"
| "event_effect Clipboard_recovered s = (if \<not> health_is_healthy (st_clipboard s) then s\<lparr>st_clipboard := Healthy\<rparr> else s)"
| "event_effect (Compositor_lost bus_name) s =
     s\<lparr>st_session := Failed (''compositor lost: '' @ bus_name), st_input := Failed ''compositor lost'',
       st_graphics := Degraded ''compositor may have restarted''\<rparr>"
| "event_effect (Eis_stream_ended reason) s = s\<lparr>st_input := Failed reason\<rparr>"
| "event_effect (Subsystem_not_available subsystem) s = mark_subsystem_not_available subsystem s"

definition apply_event :: "session_status_event \<Rightarrow> health_status \<Rightarrow> (overall_status \<times> overall_status) \<times> health_status" where
  "apply_event event s = (let s' = recompute_overall (event_effect event s) in ((st_overall s, st_overall s'), s'))"

section \<open>The supervisor\<close>

text \<open>
  What the loop's \<open>select!\<close> receives, in the order in which it is chosen.  When every reporter is gone the receiving branch no
  longer matches and the loop waits for the shutdown.
\<close>

datatype supervisor_input = Reported session_status_event | Reporters_dropped | Shutdown

definition supervisor_handle_event :: "session_status_event \<Rightarrow> health_status \<Rightarrow> health_status" where
  "supervisor_handle_event event s = snd (apply_event event s)"

fun supervisor_run :: "supervisor_input list \<Rightarrow> health_status \<Rightarrow> health_status \<times> bool" where
  "supervisor_run [] s = (s, False)"
| "supervisor_run (Reported event # is) s = supervisor_run is (supervisor_handle_event event s)"
| "supervisor_run (Reporters_dropped # is) s = supervisor_run is s"
| "supervisor_run (Shutdown # is) s = (s, True)"

definition is_session_valid :: "health_status \<Rightarrow> bool" where
  "is_session_valid s \<longleftrightarrow> st_overall s \<noteq> Overall_invalid"

section \<open>The status is the aggregate of the aspects\<close>

definition aggregate :: "aspect_health \<Rightarrow> aspect_health \<Rightarrow> aspect_health \<Rightarrow> aspect_health \<Rightarrow> overall_status" where
  "aggregate graphics input clipboard session =
     (if \<exists>r. Failed r \<in> {graphics, input, session} then Overall_invalid
      else if {graphics, input, clipboard, session} \<subseteq> {Healthy, Not_applicable} then Overall_healthy
      else Overall_degraded)"

definition well_formed_status :: "health_status \<Rightarrow> bool" where
  "well_formed_status s \<longleftrightarrow> st_overall s = aggregate (st_graphics s) (st_input s) (st_clipboard s) (st_session s)"

lemma failed_iff: "health_is_failed h \<longleftrightarrow> (\<exists>r. h = Failed r)"
  by (simp add: health_is_failed_def split: aspect_health.split)

lemma recompute_fields [simp]:
  "st_graphics (recompute_overall s) = st_graphics s" "st_input (recompute_overall s) = st_input s"
  "st_clipboard (recompute_overall s) = st_clipboard s" "st_session (recompute_overall s) = st_session s"
  by (simp_all add: recompute_overall_def)

lemma recompute_well_formed: "well_formed_status (recompute_overall s)"
  unfolding well_formed_status_def recompute_fields
  by (auto simp: aggregate_def recompute_overall_def failed_iff health_is_healthy_def; metis)

lemma supervisor_run_induct:
  assumes "P s" "\<And>e s. P s \<Longrightarrow> Reported e \<in> set is \<Longrightarrow> P (supervisor_handle_event e s)"
  shows "P (fst (supervisor_run is s))"
  using assms by (induction "is" s rule: supervisor_run.induct) auto

section \<open>The status is the last word on every aspect\<close>

text \<open>
  A specification of the status that knows no health records, only the history of the events: what an event says of an aspect, if
  anything, and the last word that was said of it.
\<close>

datatype severity = Fine | Impaired | Broken

fun severity_of :: "aspect_health \<Rightarrow> severity" where
  "severity_of Healthy = Fine" | "severity_of Not_applicable = Fine"
| "severity_of (Degraded _) = Impaired" | "severity_of (Failed _) = Broken"

definition loses_session :: "session_status_event \<Rightarrow> bool" where
  "loses_session e \<longleftrightarrow> (\<exists>r. e = Session_closed r \<or> e = Session_invalidated r \<or> e = Compositor_lost r)"

fun says_of :: "session_aspect_id \<Rightarrow> session_status_event \<Rightarrow> severity option" where
  "says_of a (Aspect_health_changed a' h) = (if a = a' then Some (severity_of h) else None)"
| "says_of a (Session_closed _) = (if a = Graphics_aspect then None else Some Broken)"
| "says_of a (Session_invalidated _) = (if a = Graphics_aspect then None else Some Broken)"
| "says_of a (Compositor_lost _) =
     (if a = Clipboard_aspect then None else if a = Graphics_aspect then Some Impaired else Some Broken)"
| "says_of a (Graphics_stream_state_changed st) =
     (if a = Graphics_aspect then Some (case st of Streaming \<Rightarrow> Fine | Paused \<Rightarrow> Impaired | Stream_error \<Rightarrow> Broken) else None)"
| "says_of a (Video_frame_stalled _) = (if a = Graphics_aspect then Some Impaired else None)"
| "says_of a (Video_frame_never_started _) = (if a = Graphics_aspect then Some Broken else None)"
| "says_of a Video_frame_resumed = (if a = Graphics_aspect then Some Fine else None)"
| "says_of a (Input_failed _ permanent) = (if a = Input_aspect then Some (if permanent then Broken else Impaired) else None)"
| "says_of a Input_recovered = (if a = Input_aspect then Some Fine else None)"
| "says_of a (Eis_stream_ended _) = (if a = Input_aspect then Some Broken else None)"
| "says_of a (Clipboard_failed _) = (if a = Clipboard_aspect then Some Broken else None)"
| "says_of a Clipboard_recovered = (if a = Clipboard_aspect then Some Fine else None)"
| "says_of a (Subsystem_not_available n) =
     (if n = ''clipboard'' \<and> a = Clipboard_aspect \<or> n = ''input'' \<and> a = Input_aspect then Some Fine else None)"

definition last_word :: "session_aspect_id \<Rightarrow> session_status_event list \<Rightarrow> severity" where
  "last_word a es = last (Fine # List.map_filter (says_of a) es)"

fun heard :: "supervisor_input list \<Rightarrow> session_status_event list" where
  "heard [] = []"
| "heard (Reported event # is) = event # heard is"
| "heard (Reporters_dropped # is) = heard is"
| "heard (Shutdown # is) = []"

fun st_aspect :: "session_aspect_id \<Rightarrow> health_status \<Rightarrow> aspect_health" where
  "st_aspect Session_aspect s = st_session s" | "st_aspect Graphics_aspect s = st_graphics s"
| "st_aspect Input_aspect s = st_input s" | "st_aspect Clipboard_aspect s = st_clipboard s"

lemma severity_simps:
  "severity_of h = Broken \<longleftrightarrow> health_is_failed h" "severity_of h = Fine \<longleftrightarrow> health_is_healthy h"
  by (cases h; simp add: health_is_failed_def health_is_healthy_def)+

lemma event_severity:
  "severity_of (st_aspect a (supervisor_handle_event e s)) =
     (case says_of a e of None \<Rightarrow> severity_of (st_aspect a s) | Some v \<Rightarrow> v)"
proof -
  have r: "st_aspect a (supervisor_handle_event e s) = st_aspect a (event_effect e s)"
    by (cases a) (simp_all add: supervisor_handle_event_def apply_event_def Let_def)
  have "severity_of (st_aspect a (event_effect e s)) = (case says_of a e of None \<Rightarrow> severity_of (st_aspect a s) | Some v \<Rightarrow> v)"
  proof (cases e)
    case (Aspect_health_changed a' h) then show ?thesis by (cases a; cases a') simp_all
  next
    case (Graphics_stream_state_changed g) then show ?thesis by (cases a; cases g) simp_all
  next
    case (Subsystem_not_available n) then show ?thesis by (cases a) (simp_all add: mark_subsystem_not_available_def)
  next
    case Video_frame_resumed then show ?thesis by (cases a) (simp_all add: severity_simps health_is_healthy_def)
  next
    case Input_recovered then show ?thesis by (cases a) (simp_all add: severity_simps health_is_healthy_def)
  next
    case Clipboard_recovered then show ?thesis by (cases a) (simp_all add: severity_simps health_is_healthy_def)
  qed (cases a; simp; fail)+
  with r show ?thesis by simp
qed

lemma run_severity:
  "severity_of (st_aspect a (fst (supervisor_run is s))) = last (severity_of (st_aspect a s) # List.map_filter (says_of a) (heard is))"
  by (induction "is" s rule: supervisor_run.induct) (simp_all add: event_severity List.map_filter_simps split: option.split)

text \<open>
  C29.  At every moment of a supervisor's life the overall status is decided by the last word on every aspect, that is by the last event
  received before the shutdown that bears on it, an aspect that nothing was said of being fine: the status is invalid exactly if the last word on the session, the
  graphics or the input was a failure, healthy exactly if every last word, on the clipboard too, was that the aspect is fine
  or not available, and degraded otherwise; it is never \<open>Recovering\<close>.\<close>

theorem status_is_the_last_word:
  "st_overall (fst (supervisor_run is status_default)) =
     (if last_word Session_aspect (heard is) = Broken \<or> last_word Graphics_aspect (heard is) = Broken \<or>
         last_word Input_aspect (heard is) = Broken then Overall_invalid
      else if last_word Session_aspect (heard is) = Fine \<and> last_word Graphics_aspect (heard is) = Fine \<and>
         last_word Input_aspect (heard is) = Fine \<and> last_word Clipboard_aspect (heard is) = Fine then Overall_healthy
      else Overall_degraded)"
proof -
  let ?s = "fst (supervisor_run is status_default)"
  have w: "well_formed_status ?s"
    by (rule supervisor_run_induct)
      (simp_all add: supervisor_handle_event_def apply_event_def recompute_well_formed Let_def,
       auto simp: well_formed_status_def status_default_def aggregate_def)
  have l: "last_word a (heard is) = severity_of (st_aspect a ?s)" for a
    unfolding run_severity last_word_def by (cases a) (simp_all add: status_default_def)
  show ?thesis
    using w unfolding l severity_simps well_formed_status_def aggregate_def failed_iff health_is_healthy_def
    by (simp add: eq_commute[of "Failed _"] ex_disj_distrib)
qed

lemma session_kept:
  assumes "\<And>h. e \<noteq> Aspect_health_changed Session_aspect h" "health_is_failed (st_session s)"
  shows "health_is_failed (st_session (supervisor_handle_event e s))"
proof -
  have "health_is_failed (st_session (event_effect e s))"
  proof (cases e)
    case (Aspect_health_changed a h) then show ?thesis using assms by (cases a) auto
  next
    case (Graphics_stream_state_changed g) then show ?thesis using assms by (cases g) auto
  qed (use assms in \<open>auto simp: mark_subsystem_not_available_def health_is_failed_def\<close>)
  then show ?thesis by (simp add: supervisor_handle_event_def apply_event_def Let_def)
qed

text \<open>
  Once the session was closed, invalidated or lost with its compositor, it is not valid to any subscriber, whatever aspects
  report afterwards (recovered input, clipboard or frames included), until a health change of the session itself is reported.\<close>

theorem lost_session_stays_invalid:
  assumes "loses_session e" "\<forall>h. Reported (Aspect_health_changed Session_aspect h) \<notin> set is"
  shows "\<not> is_session_valid (fst (supervisor_run (Reported e # is) s))"
proof -
  have handled: "well_formed_status (supervisor_handle_event e s)" for e s
    by (simp add: supervisor_handle_event_def apply_event_def Let_def recompute_well_formed)
  have "health_is_failed (st_session (supervisor_handle_event e s))"
    using assms(1) by (auto simp: loses_session_def supervisor_handle_event_def apply_event_def Let_def failed_iff)
  then have "health_is_failed (st_session (fst (supervisor_run is (supervisor_handle_event e s)))) \<and>
      well_formed_status (fst (supervisor_run is (supervisor_handle_event e s)))"
    using handled session_kept assms(2)
    by (intro supervisor_run_induct[of "\<lambda>s. health_is_failed (st_session s) \<and> well_formed_status s"]) (simp, metis)
  then show ?thesis by (auto simp: is_session_valid_def well_formed_status_def aggregate_def failed_iff)
qed

theorem lost_session_stays_invalid_witness:
  "\<not> is_session_valid (fst (supervisor_run [Reported (Session_closed ''gone''), Reported Input_recovered, Reported Clipboard_recovered] status_default))"
  by (rule lost_session_stays_invalid) (simp_all add: loses_session_def)

text \<open>
  The loop ends with the shutdown only: it goes on when every reporter is gone.\<close>

lemma run_ends_with_shutdown: "snd (supervisor_run is s) \<longleftrightarrow> Shutdown \<in> set is"
  by (induction "is" s rule: supervisor_run.induct) auto

end
