(* ===== verification/Wrdp_Adaptive_Fps.thy ===== *)
theory Wrdp_Adaptive_Fps
  imports Wrdp_Float32
begin

text \<open>
  The capture rate that follows the damage of the screen (\<open>performance/adaptive_fps.rs\<close>).  Times are
  in nanoseconds and given by the caller, one reading of the clock for each call; damage ratios are \<open>f32\<close> values, NaN included.
\<close>

section \<open>Configuration and state\<close>

record adaptive_fps_config =
  fc_enabled :: bool
  fc_min_fps :: nat
  fc_max_fps :: nat
  fc_history_size :: nat
  fc_high :: f32
  fc_medium :: f32
  fc_low :: f32
  fc_ramp_up_frames :: nat
  fc_ramp_down_frames :: nat

definition fps_config_default :: adaptive_fps_config where
  "fps_config_default = \<lparr>fc_enabled = True, fc_min_fps = 5, fc_max_fps = 30, fc_history_size = 10, fc_high = f32_make (30 / 100),
     fc_medium = f32_make (10 / 100), fc_low = f32_make (1 / 100), fc_ramp_up_frames = 2, fc_ramp_down_frames = 5\<rparr>"

datatype activity_level = Static | Low | Medium | High

text \<open>The derived order of the levels.\<close>

fun level_rank :: "activity_level \<Rightarrow> nat" where
  "level_rank Static = 0" | "level_rank Low = 1" | "level_rank Medium = 2" | "level_rank High = 3"

fun fps_multiplier :: "activity_level \<Rightarrow> f32" where
  "fps_multiplier Static = Fin 0"
| "fps_multiplier Low = Fin (1 / 2)"
| "fps_multiplier Medium = f32_make (67 / 100)"
| "fps_multiplier High = Fin 1"

record adaptive_fps_stats =
  frames_processed :: nat
  frames_skipped :: nat
  time_at_static :: duration
  time_at_low :: duration
  time_at_medium :: duration
  time_at_high :: duration
  last_level_change :: "instant option"

definition stats_default :: adaptive_fps_stats where
  "stats_default = \<lparr>frames_processed = 0, frames_skipped = 0, time_at_static = 0, time_at_low = 0, time_at_medium = 0,
     time_at_high = 0, last_level_change = None\<rparr>"

record adaptive_fps_controller =
  fps_config :: adaptive_fps_config
  current_fps :: nat
  activity :: activity_level
  samples :: "f32 list"
  candidate :: activity_level
  candidate_frames :: nat
  last_capture :: instant
  last_update :: instant
  fps_stats :: adaptive_fps_stats

definition controller_new :: "instant \<Rightarrow> adaptive_fps_config \<Rightarrow> adaptive_fps_controller" where
  "controller_new now config =
     (let min_fps = max (fc_min_fps config) 1;
          max_fps = max (fc_max_fps config) min_fps;
          config = config\<lparr>fc_min_fps := min_fps, fc_max_fps := max_fps, fc_history_size := max (fc_history_size config) 1\<rparr>
      in \<lparr>fps_config = config, current_fps = max_fps, activity = High, samples = [], candidate = High, candidate_frames = 0,
          last_capture = now, last_update = now, fps_stats = stats_default\<rparr>)"

section \<open>Operations\<close>

definition fps_classify :: "adaptive_fps_config \<Rightarrow> f32 \<Rightarrow> activity_level" where
  "fps_classify c mean =
     (if fle (fc_high c) mean then High
      else if fle (fc_medium c) mean then Medium
      else if fle (fc_low c) mean then Low
      else Static)"

definition target_fps :: "adaptive_fps_config \<Rightarrow> activity_level \<Rightarrow> nat" where
  "target_fps c level =
     (if level = Static then fc_min_fps c
      else max (fc_min_fps c) (min (fc_max_fps c)
             (nat (f64_as 0 (2 ^ 32 - 1) (fround (f32_times (f32_nat (fc_max_fps c)) (fps_multiplier level)))))))"

definition add_elapsed :: "instant \<Rightarrow> adaptive_fps_controller \<Rightarrow> adaptive_fps_controller" where
  "add_elapsed now s =
     (let d = now - last_update s; st = fps_stats s in
      s\<lparr>fps_stats := (case activity s of
           Static \<Rightarrow> st\<lparr>time_at_static := time_at_static st + d\<rparr>
         | Low \<Rightarrow> st\<lparr>time_at_low := time_at_low st + d\<rparr>
         | Medium \<Rightarrow> st\<lparr>time_at_medium := time_at_medium st + d\<rparr>
         | High \<Rightarrow> st\<lparr>time_at_high := time_at_high st + d\<rparr>),
        last_update := now\<rparr>)"

definition push_sample :: "nat \<Rightarrow> f32 \<Rightarrow> f32 list \<Rightarrow> f32 list" where
  "push_sample limit x xs = (let ys = xs @ [x] in drop (length ys - limit) ys)"

definition sample_mean :: "f32 list \<Rightarrow> f32" where
  "sample_mean xs = f32_over (foldl f32_plus (Fin 0) xs) (f32_nat (length xs))"

text \<open>The change of level: the target has to be the candidate for a number of frames.\<close>

definition change_level :: "instant \<Rightarrow> activity_level \<Rightarrow> adaptive_fps_controller \<Rightarrow> adaptive_fps_controller" where
  "change_level now target s =
     (let s = (if target = candidate s then s\<lparr>candidate_frames := candidate_frames s + 1\<rparr>
               else s\<lparr>candidate := target, candidate_frames := 1\<rparr>);
          needed = max (if level_rank (activity s) < level_rank target then fc_ramp_up_frames (fps_config s)
                        else fc_ramp_down_frames (fps_config s)) 1
      in if target \<noteq> activity s \<and> candidate_frames s \<ge> needed
         then s\<lparr>activity := target, fps_stats := (fps_stats s)\<lparr>last_level_change := Some now\<rparr>, candidate_frames := 0\<rparr>
         else s)"

definition update :: "instant \<Rightarrow> f32 \<Rightarrow> adaptive_fps_controller \<Rightarrow> adaptive_fps_controller" where
  "update now damage_ratio s =
     (if \<not> fc_enabled (fps_config s) then s
      else let s = add_elapsed now s;
               s = s\<lparr>samples := push_sample (fc_history_size (fps_config s)) (fclamp damage_ratio (Fin 0) (Fin 1)) (samples s)\<rparr>;
               s = change_level now (fps_classify (fps_config s) (sample_mean (samples s))) s;
               st = fps_stats s
           in s\<lparr>current_fps := target_fps (fps_config s) (activity s), fps_stats := st\<lparr>frames_processed := frames_processed st + 1\<rparr>\<rparr>)"

text \<open>\<open>Duration::from_secs_f64\<close> rounds to nanoseconds.\<close>

definition duration_from_secs_f64 :: "f64 \<Rightarrow> duration" where
  "duration_from_secs_f64 x = (case x of Fin q \<Rightarrow> nat (round_even (q * 1000000000)) | _ \<Rightarrow> 0)"

definition capture_interval :: "nat \<Rightarrow> duration" where
  "capture_interval fps = duration_from_secs_f64 (fdiv (Fin 1) (f64_int (int fps)))"

definition effective_fps :: "adaptive_fps_controller \<Rightarrow> nat" where
  "effective_fps s = max (if fc_enabled (fps_config s) then current_fps s else fc_max_fps (fps_config s)) 1"

definition should_capture_frame :: "instant \<Rightarrow> adaptive_fps_controller \<Rightarrow> bool \<times> adaptive_fps_controller" where
  "should_capture_frame now s =
     (if now - last_capture s \<ge> capture_interval (effective_fps s)
      then (True, s\<lparr>last_capture := now\<rparr>)
      else (False, s\<lparr>fps_stats := (fps_stats s)\<lparr>frames_skipped := frames_skipped (fps_stats s) + 1\<rparr>\<rparr>))"

definition fps_reset_stats :: "instant \<Rightarrow> adaptive_fps_controller \<Rightarrow> adaptive_fps_controller" where
  "fps_reset_stats now s = s\<lparr>fps_stats := stats_default, last_update := now\<rparr>"

definition fps_set_enabled :: "bool \<Rightarrow> adaptive_fps_controller \<Rightarrow> adaptive_fps_controller" where
  "fps_set_enabled enabled s =
     (let s = s\<lparr>fps_config := (fps_config s)\<lparr>fc_enabled := enabled\<rparr>\<rparr>
      in if \<not> enabled then s\<lparr>current_fps := fc_max_fps (fps_config s)\<rparr> else s)"

section \<open>Bounds\<close>

datatype fps_call = Update instant f32 | Should_capture instant | Reset_stats instant | Set_enabled bool

fun fps_step :: "fps_call \<Rightarrow> adaptive_fps_controller \<Rightarrow> adaptive_fps_controller" where
  "fps_step (Update now d) s = update now d s"
| "fps_step (Should_capture now) s = snd (should_capture_frame now s)"
| "fps_step (Reset_stats now) s = fps_reset_stats now s"
| "fps_step (Set_enabled b) s = fps_set_enabled b s"

definition fps_bounded :: "adaptive_fps_controller \<Rightarrow> bool" where
  "fps_bounded s \<longleftrightarrow> 1 \<le> fc_min_fps (fps_config s) \<and> fc_min_fps (fps_config s) \<le> current_fps s \<and> current_fps s \<le> fc_max_fps (fps_config s) \<and>
     1 \<le> fc_history_size (fps_config s) \<and> length (samples s) \<le> fc_history_size (fps_config s)"

lemma change_level_fields [simp]:
  "fps_config (change_level now t s) = fps_config s" "samples (change_level now t s) = samples s" "current_fps (change_level now t s) = current_fps s"
  by (simp_all add: change_level_def Let_def)

lemma add_elapsed_fields [simp]:
  "fps_config (add_elapsed now s) = fps_config s" "samples (add_elapsed now s) = samples s" "current_fps (add_elapsed now s) = current_fps s"
  "activity (add_elapsed now s) = activity s" "candidate (add_elapsed now s) = candidate s" "candidate_frames (add_elapsed now s) = candidate_frames s"
  by (simp_all add: add_elapsed_def Let_def)

lemma length_push_sample: "length (push_sample n x xs) \<le> n"
  by (simp add: push_sample_def Let_def)

lemma target_fps_bounds:
  "fc_min_fps c \<le> fc_max_fps c \<Longrightarrow> fc_min_fps c \<le> target_fps c l \<and> target_fps c l \<le> fc_max_fps c"
  by (simp add: target_fps_def)

lemma fps_step_bounded: "fps_bounded s \<Longrightarrow> fps_bounded (fps_step c s)"
proof (cases c)
  case (Update now d)
  assume "fps_bounded s"
  then show ?thesis using Update target_fps_bounds[of "fps_config s"] length_push_sample
    by (auto simp: fps_bounded_def update_def Let_def)
qed (auto simp: fps_bounded_def should_capture_frame_def fps_reset_stats_def fps_set_enabled_def Let_def)

text \<open>
  The answers that a run of calls gets to its requests for a frame: when, at which rate, and whether a frame was granted.  They keep the
  interval if each is granted exactly when the interval of its rate has passed since the last one that was granted.
\<close>

fun answers :: "fps_call list \<Rightarrow> adaptive_fps_controller \<Rightarrow> (instant \<times> nat \<times> bool) list" where
  "answers [] s = []"
| "answers (Should_capture now # cs) s = (now, effective_fps s, fst (should_capture_frame now s)) # answers cs (fps_step (Should_capture now) s)"
| "answers (c # cs) s = answers cs (fps_step c s)"

fun keep_interval :: "instant \<Rightarrow> (instant \<times> nat \<times> bool) list \<Rightarrow> bool" where
  "keep_interval previous [] = True"
| "keep_interval previous ((now, rate, granted) # as) =
     ((granted \<longleftrightarrow> capture_interval rate \<le> now - previous) \<and> keep_interval (if granted then now else previous) as)"

lemma other_calls_keep_capture_time:
  "last_capture (update now d s) = last_capture s" "last_capture (fps_set_enabled b s) = last_capture s"
  "last_capture (fps_reset_stats now s) = last_capture s"
  by (simp_all add: update_def change_level_def add_elapsed_def fps_set_enabled_def fps_reset_stats_def Let_def)

lemma answers_keep_interval: "keep_interval (last_capture s) (answers cs s)"
proof (induction cs s rule: answers.induct)
  case (2 now cs s)
  then show ?case by (simp add: should_capture_frame_def split: if_splits)
qed (simp_all add: other_calls_keep_capture_time)

lemma fps_step_limits:
  "fc_min_fps (fps_config (fps_step c s)) = fc_min_fps (fps_config s) \<and> fc_max_fps (fps_config (fps_step c s)) = fc_max_fps (fps_config s) \<and>
   fc_history_size (fps_config (fps_step c s)) = fc_history_size (fps_config s)"
  by (cases c) (simp_all add: update_def should_capture_frame_def fps_reset_stats_def fps_set_enabled_def Let_def)

lemma fps_run_bounded:
  "fps_bounded s \<Longrightarrow> fps_bounded (fold fps_step cs s) \<and> fc_min_fps (fps_config (fold fps_step cs s)) = fc_min_fps (fps_config s) \<and>
     fc_max_fps (fps_config (fold fps_step cs s)) = fc_max_fps (fps_config s) \<and>
     fc_history_size (fps_config (fold fps_step cs s)) = fc_history_size (fps_config s)"
  by (induction cs arbitrary: s) (simp_all add: fps_step_bounded fps_step_limits)

lemma answered_rates:
  "fps_bounded s \<Longrightarrow> list_all (\<lambda>(_, rate, _). fc_min_fps (fps_config s) \<le> rate \<and> rate \<le> fc_max_fps (fps_config s)) (answers cs s)"
  by (induction cs s rule: answers.induct)
    (use fps_step_bounded fps_step_limits in \<open>auto simp: effective_fps_def fps_bounded_def simp del: fps_step.simps\<close>)

text \<open>
  C30.  For any configuration and after any calls, with any damage ratios (infinite and NaN included): the capture rate is at least 1
  and between the minimum and the maximum of the configuration as the constructor repaired it, the history is bounded; every request for a frame is
  answered at a rate between these two; and over the whole run a frame is granted exactly when the interval of that rate has passed
  since the last frame granted, or since the start.\<close>

theorem capture_rate_bounded:
  "let s0 = controller_new now0 config; s = fold fps_step calls s0; low = max (fc_min_fps config) 1; high = max (fc_max_fps config) low in
     low \<le> current_fps s \<and> current_fps s \<le> high \<and>
     length (samples s) \<le> max (fc_history_size config) 1 \<and>
     list_all (\<lambda>(_, rate, _). low \<le> rate \<and> rate \<le> high) (answers calls s0) \<and>
     keep_interval now0 (answers calls s0)"
proof -
  define s0 where "s0 = controller_new now0 config"
  have b: "fps_bounded s0" by (auto simp: s0_def fps_bounded_def controller_new_def Let_def)
  have l: "last_capture s0 = now0" "fc_min_fps (fps_config s0) = max (fc_min_fps config) 1"
    "fc_max_fps (fps_config s0) = max (fc_max_fps config) (max (fc_min_fps config) 1)" "fc_history_size (fps_config s0) = max (fc_history_size config) 1"
    by (simp_all add: s0_def controller_new_def Let_def)
  show ?thesis
    using fps_run_bounded[OF b, of calls] answered_rates[OF b, of calls] answers_keep_interval[of s0 calls]
    unfolding s0_def[symmetric] Let_def fps_bounded_def l by auto
qed

section \<open>Settling\<close>

definition updates :: "(instant \<times> f32) list \<Rightarrow> adaptive_fps_controller \<Rightarrow> adaptive_fps_controller" where
  "updates us s = fold (\<lambda>(now, d). update now d) us s"

lemma update_config [simp]: "fps_config (update now d s) = fps_config s"
  by (simp add: update_def Let_def)

lemma updates_simps [simp]: "updates [] s = s" "updates ((now, d) # us) s = updates us (update now d s)"
  by (simp_all add: updates_def)

lemma updates_append: "updates (us @ vs) s = updates vs (updates us s)"
  by (simp add: updates_def)

lemma updates_config [simp]: "fps_config (updates us s) = fps_config s"
  by (induction us arbitrary: s) auto

text \<open>The frames that the target has to be the candidate for.\<close>

definition needed_frames :: "adaptive_fps_config \<Rightarrow> activity_level \<Rightarrow> nat" where
  "needed_frames c target = max (if target = High then fc_ramp_up_frames c else fc_ramp_down_frames c) 1"

lemma update_settles:
  assumes "fc_enabled (fps_config s)" "t = Static \<or> t = High"
    and "fps_classify (fps_config s) (sample_mean (samples (update now d s))) = t"
  shows "activity s = t \<or> (k = 0 \<or> candidate s = t \<and> k \<le> candidate_frames s) \<Longrightarrow>
      activity (update now d s) = t \<or> candidate (update now d s) = t \<and> Suc k \<le> candidate_frames (update now d s) \<and> Suc k < needed_frames (fps_config s) t"
    "current_fps (update now d s) = target_fps (fps_config s) (activity (update now d s))"
proof -
  define s1 where "s1 = (add_elapsed now s)\<lparr>samples := push_sample (fc_history_size (fps_config s)) (fclamp d (Fin 0) (Fin 1)) (samples s)\<rparr>"
  have u: "update now d s = (let s = change_level now t s1; st = fps_stats s
      in s\<lparr>current_fps := target_fps (fps_config s) (activity s), fps_stats := st\<lparr>frames_processed := frames_processed st + 1\<rparr>\<rparr>)"
    using assms(1,3) by (simp add: update_def s1_def Let_def)
  have f: "activity s1 = activity s" "candidate s1 = candidate s" "candidate_frames s1 = candidate_frames s" "fps_config s1 = fps_config s"
    by (simp_all add: s1_def)
  have r: "level_rank (activity s) < level_rank t \<longleftrightarrow> t = High" if "activity s \<noteq> t" using that assms(2) by (cases "activity s") auto
  show "current_fps (update now d s) = target_fps (fps_config s) (activity (update now d s))" unfolding u by (simp add: Let_def f)
  assume "activity s = t \<or> (k = 0 \<or> candidate s = t \<and> k \<le> candidate_frames s)"
  then show "activity (update now d s) = t \<or> candidate (update now d s) = t \<and> Suc k \<le> candidate_frames (update now d s) \<and> Suc k < needed_frames (fps_config s) t"
    unfolding u using r by (cases "activity s = t") (auto simp: change_level_def Let_def f needed_frames_def)
qed

lemma updates_settle:
  assumes "fc_enabled (fps_config s)" "t = Static \<or> t = High"
    and "\<And>vs now d ws. us = vs @ (now, d) # ws \<Longrightarrow> fps_classify (fps_config s) (sample_mean (samples (updates (vs @ [(now, d)]) s))) = t"
    and "us \<noteq> []"
  shows "(activity (updates us s) = t \<or> candidate (updates us s) = t \<and> length us \<le> candidate_frames (updates us s) \<and> length us < needed_frames (fps_config s) t) \<and>
    current_fps (updates us s) = target_fps (fps_config s) (activity (updates us s))"
  using assms(3,4)
proof (induction us rule: rev_induct)
  case (snoc u us)
  obtain now d where [simp]: "u = (now, d)" by (cases u)
  let ?s = "updates us s"
  have e: "fc_enabled (fps_config ?s)" using assms(1) by simp
  have c: "fps_classify (fps_config ?s) (sample_mean (samples (update now d ?s))) = t"
    using snoc.prems(1)[of us now d "[]"] by (simp add: updates_append)
  have ih: "activity ?s = t \<or> (length us = 0 \<or> candidate ?s = t \<and> length us \<le> candidate_frames ?s)"
    using snoc.IH snoc.prems(1) by (cases "us = []") fastforce+
  show ?case using update_settles(1)[OF e assms(2) c ih] update_settles(2)[OF e assms(2) c] by (simp add: updates_append)
qed simp

lemma samples_update:
  assumes "fc_enabled (fps_config s)"
  shows "samples (update now d s) = push_sample (fc_history_size (fps_config s)) (fclamp d (Fin 0) (Fin 1)) (samples s)"
  using assms by (simp add: update_def Let_def)

lemma samples_updates:
  assumes "fc_enabled (fps_config s)" "length (samples s) \<le> fc_history_size (fps_config s)" "\<forall>u \<in> set us. fclamp (snd u) (Fin 0) (Fin 1) = v"
  shows "samples (updates us s) = drop (length (samples s) + length us - fc_history_size (fps_config s)) (samples s @ replicate (length us) v)"
  using assms(3)
proof (induction us rule: rev_induct)
  case (snoc u us)
  obtain now d where u: "u = (now, d)" by (cases u)
  let ?h = "fc_history_size (fps_config s)" and ?n = "length (samples s) + length us"
  have "samples (updates (us @ [u]) s) = push_sample ?h v (drop (?n - ?h) (samples s @ replicate (length us) v))"
    using snoc u assms(1) by (simp add: updates_append samples_update)
  also have "\<dots> = drop (Suc ?n - ?h) (samples s @ replicate (length us) v @ [v])"
    by (simp add: push_sample_def Let_def) (cases "?n < ?h"; simp add: Suc_diff_le)
  finally show ?case by (simp add: replicate_append_same)
qed (use assms(2) in simp)

lemma samples_flushed:
  assumes "fc_enabled (fps_config s)" "length (samples s) \<le> fc_history_size (fps_config s)" "\<forall>u \<in> set us. fclamp (snd u) (Fin 0) (Fin 1) = v"
    "fc_history_size (fps_config s) \<le> length us"
  shows "samples (updates us s) = replicate (fc_history_size (fps_config s)) v"
proof -
  let ?h = "fc_history_size (fps_config s)" and ?m = "length (samples s)"
  have "?m + length us - ?h = ?m + (length us - ?h)" using assms(4) by simp
  then show ?thesis using samples_updates[OF assms(1-3)] assms(4) by (simp add: drop_replicate)
qed

lemma f32_make_0 [simp]: "f32_make 0 = Fin 0" and f32_make_1 [simp]: "f32_make 1 = Fin 1"
  using f32_nat_exact[of 0] f32_nat_exact[of 1] by (simp_all add: f32_nat_def)

lemma mean_zeros: "0 < h \<Longrightarrow> h < 2 ^ 24 \<Longrightarrow> sample_mean (replicate h (Fin 0)) = Fin 0"
proof -
  assume h: "0 < h" "h < 2 ^ 24"
  have "foldl f32_plus (Fin 0) (replicate n (Fin 0)) = Fin 0" for n by (induction n) (simp_all add: f32_plus_def)
  then show ?thesis using h by (simp add: sample_mean_def f32_nat_exact f32_over_def)
qed

lemma mean_ones: "0 < h \<Longrightarrow> h < 2 ^ 24 \<Longrightarrow> sample_mean (replicate h (Fin 1)) = Fin 1"
proof -
  assume h: "0 < h" "h < 2 ^ 24"
  have "foldl f32_plus (Fin 0) (replicate n (Fin 1)) = Fin (of_nat n)" if "n < 2 ^ 24" for n
    using that
  proof (induction n)
    case (Suc n)
    have "foldl f32_plus (Fin 0) (replicate (Suc n) (Fin 1)) = f32_plus (foldl f32_plus (Fin 0) (replicate n (Fin 1))) (Fin 1)"
      by (simp only: replicate_append_same[symmetric] replicate_Suc foldl_append foldl.simps)
    also have "\<dots> = f32_plus (Fin (of_nat n)) (Fin 1)" using Suc by simp
    also have "\<dots> = Fin (of_nat (Suc n))" using f32_nat_exact[of "Suc n"] Suc.prems by (simp add: f32_plus_def f32_nat_def add.commute)
    finally show ?case .
  qed simp
  then show ?thesis using h by (simp add: sample_mean_def f32_nat_exact f32_over_def)
qed

lemma updates_reach:
  assumes s: "fps_bounded s" "fc_enabled (fps_config s)" and t: "t = Static \<or> t = High"
    and v: "\<forall>u \<in> set us. fclamp (snd u) (Fin 0) (Fin 1) = v"
    and c: "fps_classify (fps_config s) (sample_mean (replicate (fc_history_size (fps_config s)) v)) = t"
    and n: "fc_history_size (fps_config s) + needed_frames (fps_config s) t \<le> length us"
  shows "activity (updates us s) = t \<and> current_fps (updates us s) = target_fps (fps_config s) t"
proof -
  let ?h = "fc_history_size (fps_config s)"
  define vs where "vs = take ?h us" define ws where "ws = drop ?h us"
  have us: "us = vs @ ws" "length vs = ?h" "needed_frames (fps_config s) t \<le> length ws"
    using n by (simp_all add: vs_def ws_def)
  have l: "length (samples s) \<le> ?h" using s(1) by (simp add: fps_bounded_def)
  have fl: "samples (updates (vs @ xs) s) = replicate ?h v" if "set xs \<subseteq> set ws" for xs
    using samples_flushed[OF s(2) l, of "vs @ xs" v] v us that by auto
  have "fps_classify (fps_config (updates vs s)) (sample_mean (samples (updates (xs @ [(now, d)]) (updates vs s)))) = t"
    if "ws = xs @ (now, d) # ys" for xs now d ys
  proof -
    have "set (xs @ [(now, d)]) \<subseteq> set ws" using that by auto
    from fl[OF this] show ?thesis using c updates_append[of vs "xs @ [(now, d)]" s] by simp
  qed
  moreover have "ws \<noteq> []" using us(3) by (auto simp: needed_frames_def)
  ultimately have "(activity (updates ws (updates vs s)) = t \<or> length ws < needed_frames (fps_config s) t) \<and>
      current_fps (updates ws (updates vs s)) = target_fps (fps_config s) (activity (updates ws (updates vs s)))"
    using updates_settle[of "updates vs s" t ws] s(2) t by auto
  then show ?thesis using us updates_append[of vs ws s] by auto
qed

text \<open>
  C31.  The rate settles.  From every state that calls of an enabled controller reach, as many frames without damage as the history
  has samples and the ramp needs bring it to the static level and the minimum rate, and as many frames of full damage bring it to the highest level
  and the maximum rate, for any configuration with positive thresholds of at most 1 (and sizes that \<open>f32\<close> represents exactly).\<close>

theorem capture_rate_settles:
  assumes "s = fold fps_step calls (controller_new now0 config)" "fc_enabled (fps_config s)"
    "flt (Fin 0) (fc_low (fps_config s))" "flt (Fin 0) (fc_medium (fps_config s))" "flt (Fin 0) (fc_high (fps_config s))" "fle (fc_high (fps_config s)) (Fin 1)"
    "fc_history_size (fps_config s) < 2 ^ 24" "fc_max_fps (fps_config s) < 2 ^ 24"
    "fc_history_size (fps_config s) + max (max (fc_ramp_up_frames (fps_config s)) (fc_ramp_down_frames (fps_config s))) 1 \<le> length us"
  shows "((\<forall>u \<in> set us. fle (snd u) (Fin 0)) \<longrightarrow> activity (updates us s) = Static \<and> current_fps (updates us s) = fc_min_fps (fps_config s)) \<and>
    ((\<forall>u \<in> set us. fle (Fin 1) (snd u)) \<longrightarrow> activity (updates us s) = High \<and> current_fps (updates us s) = fc_max_fps (fps_config s))"
proof -
  have "fps_bounded (fold fps_step cs s)" if "fps_bounded s" for cs s
    using that by (induction cs arbitrary: s) (simp_all add: fps_step_bounded)
  then have b: "fps_bounded s" unfolding assms(1) by (simp add: fps_bounded_def controller_new_def Let_def)
  have h: "0 < fc_history_size (fps_config s)" using b by (simp add: fps_bounded_def)
  have n: "fc_history_size (fps_config s) + needed_frames (fps_config s) t \<le> length us" for t
    using assms(9) by (auto simp: needed_frames_def)
  have z: "fps_classify (fps_config s) (sample_mean (replicate (fc_history_size (fps_config s)) (Fin 0))) = Static"
    unfolding mean_zeros[OF h assms(7)] using assms(3-5) by (auto simp: fps_classify_def flt_def)
  have o: "fps_classify (fps_config s) (sample_mean (replicate (fc_history_size (fps_config s)) (Fin 1))) = High"
    unfolding mean_ones[OF h assms(7)] using assms(6) by (auto simp: fps_classify_def)
  have low: "fclamp d (Fin 0) (Fin 1) = Fin 0" if "fle d (Fin 0)" for d using that by (cases d) (auto simp: fclamp_def flt_def)
  have high: "fclamp d (Fin 0) (Fin 1) = Fin 1" if "fle (Fin 1) d" for d using that by (cases d) (auto simp: fclamp_def flt_def)
  have m: "target_fps (fps_config s) High = fc_max_fps (fps_config s)"
  proof -
    have "fround (f32_times (f32_nat (fc_max_fps (fps_config s))) (Fin 1)) = Fin (of_nat (fc_max_fps (fps_config s)))"
      using f32_nat_exact[OF assms(8)] by (simp add: f32_times_def f32_nat_def floor_eq_iff)
    then show ?thesis using assms(8) b by (simp add: target_fps_def fps_bounded_def)
  qed
  show ?thesis
    using updates_reach[OF b assms(2) _ _ z n] updates_reach[OF b assms(2) _ _ o n] low high m by (auto simp: target_fps_def)
qed

lemma default_thresholds: "f32_make (3 / 10) = Fin (5033165 / 16777216)" "f32_make (1 / 10) = Fin (13421773 / 134217728)" "f32_make (1 / 100) = Fin (5368709 / 536870912)"
proof -
  have "f32_round (3 / 10) = 5033165 / 16777216" "f32_round (1 / 10) = 13421773 / 134217728" "f32_round (1 / 100) = 5368709 / 536870912" by code_simp+
  then show "f32_make (3 / 10) = Fin (5033165 / 16777216)" "f32_make (1 / 10) = Fin (13421773 / 134217728)" "f32_make (1 / 100) = Fin (5368709 / 536870912)"
    by (simp_all only: f32_make_def) simp_all
qed

theorem capture_rate_settles_witness:
  "current_fps (updates (replicate 15 (0, Fin 0)) (controller_new 0 fps_config_default)) = 5 \<and>
   current_fps (updates (replicate 15 (0, Fin 1)) (controller_new 0 fps_config_default)) = 30"
proof -
  have c: "fps_config (controller_new 0 fps_config_default) = fps_config_default"
    by (simp add: controller_new_def fps_config_default_def Let_def)
  have d: "fc_enabled fps_config_default" "fc_low fps_config_default = Fin (5368709 / 536870912)" "fc_medium fps_config_default = Fin (13421773 / 134217728)"
    "fc_high fps_config_default = Fin (5033165 / 16777216)" "fc_history_size fps_config_default = 10" "fc_max_fps fps_config_default = 30"
    "fc_min_fps fps_config_default = 5" "fc_ramp_up_frames fps_config_default = 2" "fc_ramp_down_frames fps_config_default = 5"
    using default_thresholds by (simp_all add: fps_config_default_def)
  have s: "controller_new 0 fps_config_default = fold fps_step [] (controller_new 0 fps_config_default)" by simp
  show ?thesis using capture_rate_settles[OF s, of "replicate 15 (0, Fin 0)"] capture_rate_settles[OF s, of "replicate 15 (0, Fin 1)"]
    unfolding c by (simp add: d flt_def)
qed

end
