(* ===== verification/Wrdp_Latency.thy ===== *)
theory Wrdp_Latency
  imports Wrdp_Float32
begin

text \<open>
  The encode scheduling policy (\<open>performance/latency_governor.rs\<close>): whether a frame is encoded now, by the damage
  gathered since the last encoded frame and by its age.
\<close>

section \<open>Modes\<close>

datatype latency_mode = Interactive | Balanced | Quality

record policy =
  threshold :: f32
  delay :: duration
  timeout :: duration
  adaptive :: bool

fun target_latency_ms :: "latency_mode \<Rightarrow> nat" where
  "target_latency_ms Interactive = 50" | "target_latency_ms Balanced = 100" | "target_latency_ms Quality = 300"

fun mode_description :: "latency_mode \<Rightarrow> string" where
  "mode_description Interactive = ''interactive''" | "mode_description Balanced = ''balanced''" | "mode_description Quality = ''quality''"

fun mode_policy :: "latency_mode \<Rightarrow> policy" where
  "mode_policy Interactive = \<lparr>threshold = Fin 0, delay = from_millis 16, timeout = from_millis 10, adaptive = False\<rparr>"
| "mode_policy Balanced = \<lparr>threshold = f32_make (2 / 100), delay = from_millis 33, timeout = from_millis 20, adaptive = True\<rparr>"
| "mode_policy Quality = \<lparr>threshold = f32_make (5 / 100), delay = from_millis 100, timeout = from_millis 50, adaptive = True\<rparr>"

definition mode_lowercase :: "string \<Rightarrow> string" where
  "mode_lowercase s = map (\<lambda>c. if 65 \<le> (of_char c :: nat) \<and> (of_char c :: nat) \<le> 90 then char_of ((of_char c :: nat) + 32) else c) s"

definition mode_from_str :: "string \<Rightarrow> (string, latency_mode) result" where
  "mode_from_str v =
     (let l = mode_lowercase v in
      if l \<in> {''interactive'', ''low'', ''fast''} then Ok Interactive
      else if l \<in> {''balanced'', ''default'', ''normal''} then Ok Balanced
      else if l \<in> {''quality'', ''high'', ''slow''} then Ok Quality
      else Err (''unknown latency mode: '' @ v))"

datatype encoding_decision = Encode_now | Encode_keepalive | Encode_batch | Encode_timeout | Skip | Wait_for_more

definition should_encode :: "encoding_decision \<Rightarrow> bool" where
  "should_encode d \<longleftrightarrow> d \<in> {Encode_now, Encode_keepalive, Encode_batch, Encode_timeout}"

section \<open>The governor\<close>

record latency_metrics =
  capture_to_encode_avg_ms :: f32
  encode_duration_avg_ms :: f32
  total_latency_avg_ms :: f32
  frames_encoded :: nat
  frames_skipped :: nat
  batches_encoded :: nat

definition metrics_default :: latency_metrics where
  "metrics_default = \<lparr>capture_to_encode_avg_ms = Fin 0, encode_duration_avg_ms = Fin 0, total_latency_avg_ms = Fin 0,
     frames_encoded = 0, frames_skipped = 0, batches_encoded = 0\<rparr>"

record latency_governor =
  lg_mode :: latency_mode
  lg_policy :: policy
  pending :: f32
  pending_since :: "instant option"
  pending_frames :: nat
  last_encode :: instant
  lg_metrics :: latency_metrics

definition governor_new :: "instant \<Rightarrow> latency_mode \<Rightarrow> latency_governor" where
  "governor_new now mode = \<lparr>lg_mode = mode, lg_policy = mode_policy mode, pending = Fin 0, pending_since = None, pending_frames = 0,
     last_encode = now, lg_metrics = metrics_default\<rparr>"

text \<open>\<open>f32::EPSILON\<close> is \<open>2\<close> to the power \<open>- 23\<close>.\<close>

definition reached :: "f32 \<Rightarrow> f32 \<Rightarrow> bool" where
  "reached value limit \<longleftrightarrow> fle limit (f32_plus value (Fin (1 / 8388608)))"

definition add_damage :: "instant \<Rightarrow> f32 \<Rightarrow> latency_governor \<Rightarrow> latency_governor" where
  "add_damage now damage s =
     (if flt (Fin 0) damage
      then s\<lparr>pending_since := (case pending_since s of None \<Rightarrow> Some now | Some t \<Rightarrow> Some t),
             pending := fmin (f32_plus (pending s) damage) (Fin 1), pending_frames := (pending_frames s + 1) mod 2 ^ 32\<rparr>
      else s)"

definition decide :: "instant \<Rightarrow> f32 \<Rightarrow> latency_governor \<Rightarrow> encoding_decision" where
  "decide now damage s =
     (let waited = (case pending_since s of None \<Rightarrow> 0 | Some t \<Rightarrow> now - t); p = lg_policy s in
      case lg_mode s of
        Interactive \<Rightarrow>
          if flt (Fin 0) damage then Encode_now
          else if now - last_encode s \<ge> delay p then Encode_keepalive
          else Skip
      | Balanced \<Rightarrow>
          if reached (pending s) (threshold p) then Encode_now
          else if flt (Fin 0) (pending s) \<and> waited \<ge> delay p then Encode_timeout
          else Skip
      | Quality \<Rightarrow>
          if reached (pending s) (threshold p) then Encode_batch
          else if flt (Fin 0) (pending s) \<and> waited \<ge> delay p then Encode_timeout
          else if flt (Fin 0) (pending s) then Wait_for_more
          else Skip)"

definition count_decision :: "encoding_decision \<Rightarrow> nat \<Rightarrow> latency_metrics \<Rightarrow> latency_metrics" where
  "count_decision choice frames m =
     (if should_encode choice
      then m\<lparr>frames_encoded := frames_encoded m + 1, batches_encoded := (if frames > 1 then batches_encoded m + 1 else batches_encoded m)\<rparr>
      else m\<lparr>frames_skipped := frames_skipped m + 1\<rparr>)"

definition should_encode_frame :: "instant \<Rightarrow> f32 \<Rightarrow> latency_governor \<Rightarrow> encoding_decision \<times> latency_governor" where
  "should_encode_frame now damage s =
     (let damage = fclamp damage (Fin 0) (Fin 1);
          s = add_damage now damage s;
          choice = decide now damage s;
          s = s\<lparr>lg_metrics := count_decision choice (pending_frames s) (lg_metrics s)\<rparr>
      in (choice,
          if should_encode choice then s\<lparr>pending := Fin 0, pending_since := None, pending_frames := 0, last_encode := now\<rparr> else s))"

definition ema :: "f32 \<Rightarrow> f32 \<Rightarrow> f32 \<Rightarrow> f32" where
  "ema old new weight =
     (if old = Fin 0 then new
      else f32_plus (f32_times old (f32_plus (Fin 1) (fneg weight))) (f32_times new weight))"

definition record_encode_timing :: "f32 \<Rightarrow> f32 \<Rightarrow> latency_governor \<Rightarrow> latency_governor" where
  "record_encode_timing capture encode s =
     (let m = lg_metrics s; w = f32_make (1 / 10) in
      s\<lparr>lg_metrics := m\<lparr>capture_to_encode_avg_ms := ema (capture_to_encode_avg_ms m) capture w,
          encode_duration_avg_ms := ema (encode_duration_avg_ms m) encode w,
          total_latency_avg_ms := ema (total_latency_avg_ms m) (f32_plus capture encode) w\<rparr>\<rparr>)"

definition set_mode :: "latency_mode \<Rightarrow> latency_governor \<Rightarrow> latency_governor" where
  "set_mode mode s = s\<lparr>lg_mode := mode, lg_policy := mode_policy mode, pending := Fin 0, pending_since := None, pending_frames := 0\<rparr>"

definition reset_metrics :: "latency_governor \<Rightarrow> latency_governor" where
  "reset_metrics s = s\<lparr>lg_metrics := metrics_default\<rparr>"

section \<open>Damage is not kept waiting\<close>

datatype governor_call = Frame instant f32 | Record_timing f32 f32 | Reset_metrics

fun governor_step :: "governor_call \<Rightarrow> latency_governor \<Rightarrow> latency_governor" where
  "governor_step (Frame now damage) s = snd (should_encode_frame now damage s)"
| "governor_step (Record_timing c e) s = record_encode_timing c e s"
| "governor_step Reset_metrics s = reset_metrics s"

text \<open>Every positive \<open>f32\<close> is at least the least subnormal number.\<close>

definition is_f32 :: "f32 \<Rightarrow> bool" where
  "is_f32 a \<longleftrightarrow> (\<forall>x. a = Fin x \<and> 0 < x \<longrightarrow> 2 powi (- 149) \<le> x)"

fun call_f32 :: "governor_call \<Rightarrow> bool" where
  "call_f32 (Frame now damage) = is_f32 damage" | "call_f32 _ = True"

lemma fl_round_ge: assumes "2 powi emin \<le> x" "1 \<le> p" shows "2 powi emin \<le> fl_round p emin x"
proof -
  have x: "0 < x" using assms(1) by (rule less_le_trans[rotated]) simp
  let ?e = "max (ilog2 \<bar>x\<bar> - (p - 1)) emin"
  have "0 < of_int (round_even (x / 2 powi ?e)) * (2 :: rat) powi ?e"
    using fl_round_pos[OF assms] x by (simp add: fl_round_def Let_def)
  then have "(0 :: rat) < of_int (round_even (x / 2 powi ?e))" by (rule zero_less_mult_pos2) simp
  then have "(1 :: rat) \<le> of_int (round_even (x / 2 powi ?e))" by simp
  moreover have "(2 :: rat) powi emin \<le> 2 powi ?e" by (rule power_int_increasing) auto
  ultimately have "1 * 2 powi emin \<le> of_int (round_even (x / 2 powi ?e)) * (2 :: rat) powi ?e" by (intro mult_mono) auto
  then show ?thesis using x by (simp add: fl_round_def Let_def)
qed

definition pending_value :: "f32 \<Rightarrow> bool" where
  "pending_value a \<longleftrightarrow> (\<exists>x. a = Fin x \<and> x \<le> 1 \<and> 2 powi (- 149) \<le> x)"

lemma tiny_pos: "(0 :: rat) < 2 powi (- 149)" by simp

lemma pending_value_pos: "pending_value a \<Longrightarrow> flt (Fin 0) a"
  using tiny_pos by (auto simp: pending_value_def flt_def)

lemma pending_sum:
  assumes "a = Fin 0 \<or> pending_value a" "pending_value b" shows "pending_value (fmin (f32_plus a b) (Fin 1))"
proof -
  obtain x y where xy: "a = Fin x" "b = Fin y" "0 \<le> x" "2 powi (- 149) \<le> y"
    using assms tiny_pos by (auto simp: pending_value_def)
  then have "2 powi (- 149) \<le> x + y" by simp
  then have "(2 :: rat) powi (- 149) \<le> f32_round (x + y)" unfolding f32_round_def by (rule fl_round_ge) simp
  moreover have "(2 :: rat) powi (- 149) \<le> 1" using power_int_increasing[of "- 149" 0 "2 :: rat"] by simp
  ultimately show ?thesis using xy tiny_pos
    by (auto simp: f32_plus_def f32_make_def Let_def fmin_def pending_value_def)
qed

lemma clamped_damage:
  assumes "is_f32 d" "flt (Fin 0) (fclamp d (Fin 0) (Fin 1))" shows "pending_value (fclamp d (Fin 0) (Fin 1))"
proof -
  have one: "(2 :: rat) powi (- 149) \<le> 1" using power_int_increasing[of "- 149" 0 "2 :: rat"] by simp
  show ?thesis using assms one by (cases d) (auto simp: fclamp_def flt_def pending_value_def is_f32_def split: if_splits)
qed

text \<open>A run of the governor with the time of the oldest damage that no frame was encoded for.\<close>

definition oldest_damage :: "governor_call \<Rightarrow> latency_governor \<Rightarrow> instant option \<Rightarrow> instant option" where
  "oldest_damage c s w =
     (case c of
        Frame now damage \<Rightarrow>
          if should_encode (fst (should_encode_frame now damage s)) then None
          else if w = None \<and> flt (Fin 0) (fclamp damage (Fin 0) (Fin 1)) then Some now else w
      | _ \<Rightarrow> w)"

fun governor_run :: "governor_call list \<Rightarrow> latency_governor \<times> instant option \<Rightarrow> latency_governor \<times> instant option" where
  "governor_run [] st = st"
| "governor_run (c # cs) (s, w) = governor_run cs (governor_step c s, oldest_damage c s w)"

definition governor_ok :: "latency_mode \<Rightarrow> latency_governor \<times> instant option \<Rightarrow> bool" where
  "governor_ok mode = (\<lambda>(s, w). lg_mode s = mode \<and> lg_policy s = mode_policy mode \<and> pending_since s = w \<and>
     (if w = None then pending s = Fin 0 else mode \<noteq> Interactive \<and> pending_value (pending s)))"

lemma frame_ok:
  assumes "governor_ok mode (s, w)" "is_f32 damage"
  shows "governor_ok mode (governor_step (Frame now damage) s, oldest_damage (Frame now damage) s w)"
    "w = Some t \<Longrightarrow> delay (mode_policy mode) \<le> now - t \<Longrightarrow> should_encode (fst (should_encode_frame now damage s))"
proof -
  let ?d = "fclamp damage (Fin 0) (Fin 1)" let ?s = "add_damage now ?d s"
  have ok: "governor_ok mode (?s, if w = None \<and> flt (Fin 0) ?d then Some now else w) \<or> mode = Interactive \<and> flt (Fin 0) ?d"
    using assms clamped_damage[OF assms(2)] pending_sum[of "pending s" ?d]
    by (auto simp: governor_ok_def add_damage_def split: option.splits if_splits)
  have i: "flt (Fin 0) ?d \<Longrightarrow> mode = Interactive \<Longrightarrow> should_encode (decide now ?d ?s)"
    using assms by (auto simp: governor_ok_def decide_def add_damage_def should_encode_def Let_def)
  have f: "lg_mode ?s = mode" "lg_policy ?s = mode_policy mode" using assms(1) by (simp_all add: governor_ok_def add_damage_def)
  show "governor_ok mode (governor_step (Frame now damage) s, oldest_damage (Frame now damage) s w)"
    using ok i f by (auto simp: should_encode_frame_def oldest_damage_def governor_ok_def Let_def)
  assume w: "w = Some t" "delay (mode_policy mode) \<le> now - t"
  then have "governor_ok mode (?s, Some t)" using ok assms(1) by (auto simp: governor_ok_def)
  then have "flt (Fin 0) (pending ?s)" "pending_since ?s = Some t" "mode \<noteq> Interactive" "lg_mode ?s = mode" "lg_policy ?s = mode_policy mode"
    by (auto simp: governor_ok_def pending_value_pos)
  then have "should_encode (decide now ?d ?s)" using w(2) by (cases mode) (auto simp: decide_def should_encode_def Let_def)
  then show "should_encode (fst (should_encode_frame now damage s))" by (simp add: should_encode_frame_def Let_def)
qed

lemma governor_run_ok: "governor_ok mode st \<Longrightarrow> \<forall>c \<in> set cs. call_f32 c \<Longrightarrow> governor_ok mode (governor_run cs st)"
proof (induction cs st rule: governor_run.induct)
  case (2 c cs s w)
  have "governor_ok mode (governor_step c s, oldest_damage c s w)"
  proof (cases c)
    case (Frame now damage)
    then show ?thesis using frame_ok(1)[of mode s w damage now] 2(2,3) by simp
  qed (use 2(2) in \<open>auto simp: governor_ok_def record_encode_timing_def reset_metrics_def oldest_damage_def Let_def\<close>)
  then show ?case using 2 by simp
qed simp

text \<open>
  C32.  Damage never waits longer than the mode's delay.  When damage was reported at a time and no frame has been encoded since, a
  frame that comes at least the delay later (33 ms for balanced, 100 ms for quality) is encoded, whatever came between; in the interactive
  mode no damage is left waiting at all.\<close>

theorem damage_is_encoded_in_time:
  assumes "\<forall>c \<in> set calls. call_f32 c" "is_f32 damage" "governor_run calls (governor_new now0 mode, None) = (s, Some t)"
    "delay (mode_policy mode) \<le> now - t"
  shows "mode \<noteq> Interactive \<and> should_encode (fst (should_encode_frame now damage s))"
proof -
  have "governor_ok mode (governor_new now0 mode, None)" by (simp add: governor_ok_def governor_new_def)
  from governor_run_ok[OF this assms(1)] assms(3) have ok: "governor_ok mode (s, Some t)" by simp
  then show ?thesis using frame_ok(2)[OF ok assms(2) refl assms(4)] by (simp add: governor_ok_def)
qed

lemma f32_values:
  "f32_round (1 / 128) = 1 / 128" "f32_round (65537 / 8388608) = 65537 / 8388608" "f32_round (1 / 50) = 5368709 / 268435456"
  by code_simp+

lemma f32_make_values:
  "f32_make (1 / 128) = Fin (1 / 128)" "f32_make (65537 / 8388608) = Fin (65537 / 8388608)" "f32_make (1 / 50) = Fin (5368709 / 268435456)"
  unfolding f32_make_def f32_values by simp_all

theorem damage_is_encoded_in_time_witness:
  "should_encode (fst (should_encode_frame 40000000 (Fin 0)
     (fst (governor_run [Frame 0 (Fin (1 / 128))] (governor_new 0 Balanced, None)))))"
proof -
  have "(2 :: rat) powi (- 149) \<le> 2 powi (- 7)" by (rule power_int_increasing) simp_all
  also have "(2 :: rat) powi (- 7) = 1 / 128" by (simp add: power_int_minus)
  finally have t: "(2 :: rat) powi (- 149) \<le> 1 / 128" .
  have c: "\<forall>c \<in> set [Frame 0 (Fin (1 / 128))]. call_f32 c" "is_f32 (Fin 0)" using t by (auto simp: is_f32_def)
  have "governor_run [Frame 0 (Fin (1 / 128))] (governor_new 0 Balanced, None) =
      (fst (governor_run [Frame 0 (Fin (1 / 128))] (governor_new 0 Balanced, None)), Some 0)"
    by (simp add: oldest_damage_def should_encode_frame_def add_damage_def decide_def governor_new_def fclamp_def flt_def f32_plus_def
        f32_make_values fmin_def reached_def should_encode_def Let_def)
  from damage_is_encoded_in_time[OF c this, of 40000000] show ?thesis by simp
qed

end
