(* ===== verification/Wrdp_Pixel_Formats.thy ===== *)
theory Wrdp_Pixel_Formats
  imports Wrdp_Chroma
begin

text \<open>
  Pixel formats of captured frames and their conversion to BGRA, which the program has twice: in place between strided buffers
  (\<open>src/src/desktop/pipewire/format.rs\<close>) and into fresh buffers (\<open>src/src/desktop/pipewire/yuv.rs\<close>), with the sizes of
  \<open>src/src/desktop/pipewire/ffi.rs\<close>.

  A panic (an index outside a slice, a failed assertion) is \<open>None\<close>.  Products of \<open>u32\<close> values wrap as in a release build; the \<open>i32\<close> arithmetic on samples
  stays within the range and is that of the integers.
\<close>

section \<open>Formats\<close>

datatype pixel_format = BGRA | BGRx | RGBA | RGBx | RGB | BGR | GRAY8 | NV12 | YUY2 | I420

text \<open>The formats of the media library that the program names, and any other.\<close>

datatype video_format =
    V_BGRA | V_BGRx | V_RGBA | V_RGBx | V_RGB | V_BGR | V_GRAY8 | V_NV12 | V_YUY2 | V_I420 | V_other nat

fun from_spa :: "video_format \<Rightarrow> pixel_format option" where
  "from_spa V_BGRA = Some BGRA" | "from_spa V_BGRx = Some BGRx" | "from_spa V_RGBA = Some RGBA" | "from_spa V_RGBx = Some RGBx"
| "from_spa V_RGB = Some RGB" | "from_spa V_BGR = Some BGR" | "from_spa V_GRAY8 = Some GRAY8" | "from_spa V_NV12 = Some NV12"
| "from_spa V_YUY2 = Some YUY2" | "from_spa V_I420 = Some I420" | "from_spa (V_other _) = None"

fun to_spa :: "pixel_format \<Rightarrow> video_format" where
  "to_spa BGRA = V_BGRA" | "to_spa BGRx = V_BGRx" | "to_spa RGBA = V_RGBA" | "to_spa RGBx = V_RGBx" | "to_spa RGB = V_RGB"
| "to_spa BGR = V_BGR" | "to_spa GRAY8 = V_GRAY8" | "to_spa NV12 = V_NV12" | "to_spa YUY2 = V_YUY2" | "to_spa I420 = V_I420"

fun bytes_per_pixel :: "pixel_format \<Rightarrow> nat" where
  "bytes_per_pixel BGRA = 4" | "bytes_per_pixel BGRx = 4" | "bytes_per_pixel RGBA = 4" | "bytes_per_pixel RGBx = 4"
| "bytes_per_pixel RGB = 3" | "bytes_per_pixel BGR = 3"
| "bytes_per_pixel GRAY8 = 1"
| "bytes_per_pixel NV12 = 1" | "bytes_per_pixel I420 = 1"
| "bytes_per_pixel YUY2 = 2"

text \<open>The name that \<open>Debug\<close> prints.\<close>

fun format_name :: "pixel_format \<Rightarrow> string" where
  "format_name BGRA = ''BGRA''" | "format_name BGRx = ''BGRx''" | "format_name RGBA = ''RGBA''" | "format_name RGBx = ''RGBx''"
| "format_name RGB = ''RGB''" | "format_name BGR = ''BGR''" | "format_name GRAY8 = ''GRAY8''" | "format_name NV12 = ''NV12''"
| "format_name YUY2 = ''YUY2''" | "format_name I420 = ''I420''"

section \<open>Sizes of buffers\<close>

definition u32_add :: "nat \<Rightarrow> nat \<Rightarrow> nat" where "u32_add a b = (a + b) mod 2 ^ 32"

definition u32_mul :: "nat \<Rightarrow> nat \<Rightarrow> nat" where "u32_mul a b = (a * b) mod 2 ^ 32"

definition DRM_FORMAT_INVALID :: nat where "DRM_FORMAT_INVALID = 0"
definition DRM_FORMAT_XRGB8888 :: nat where "DRM_FORMAT_XRGB8888 = 0x34325258"
definition DRM_FORMAT_ARGB8888 :: nat where "DRM_FORMAT_ARGB8888 = 0x34325241"
definition DRM_FORMAT_XBGR8888 :: nat where "DRM_FORMAT_XBGR8888 = 0x34324258"
definition DRM_FORMAT_ABGR8888 :: nat where "DRM_FORMAT_ABGR8888 = 0x34324241"

fun spa_video_format_to_drm_fourcc :: "video_format \<Rightarrow> nat" where
  "spa_video_format_to_drm_fourcc V_BGRx = DRM_FORMAT_XRGB8888"
| "spa_video_format_to_drm_fourcc V_BGRA = DRM_FORMAT_ARGB8888"
| "spa_video_format_to_drm_fourcc V_RGBx = DRM_FORMAT_XBGR8888"
| "spa_video_format_to_drm_fourcc V_RGBA = DRM_FORMAT_ABGR8888"
| "spa_video_format_to_drm_fourcc _ = DRM_FORMAT_INVALID"

definition drm_fourcc_to_spa_video_format :: "nat \<Rightarrow> video_format option" where
  "drm_fourcc_to_spa_video_format fourcc =
     (if fourcc = DRM_FORMAT_XRGB8888 then Some V_BGRx
      else if fourcc = DRM_FORMAT_ARGB8888 then Some V_BGRA
      else if fourcc = DRM_FORMAT_XBGR8888 then Some V_RGBx
      else if fourcc = DRM_FORMAT_ABGR8888 then Some V_RGBA
      else None)"

fun get_bytes_per_pixel :: "video_format \<Rightarrow> nat" where
  "get_bytes_per_pixel V_BGRx = 4" | "get_bytes_per_pixel V_BGRA = 4" | "get_bytes_per_pixel V_RGBx = 4" | "get_bytes_per_pixel V_RGBA = 4"
| "get_bytes_per_pixel V_RGB = 3" | "get_bytes_per_pixel V_BGR = 3"
| "get_bytes_per_pixel V_GRAY8 = 1"
| "get_bytes_per_pixel V_NV12 = 1" | "get_bytes_per_pixel V_I420 = 1"
| "get_bytes_per_pixel V_YUY2 = 2"
| "get_bytes_per_pixel (V_other _) = 4"

definition calculate_stride :: "nat \<Rightarrow> video_format \<Rightarrow> nat" where
  "calculate_stride width format =
     (let bpp = get_bytes_per_pixel format in u32_mul (u32_add (u32_mul width bpp) 15 div 16) 16)"

definition calculate_buffer_size :: "nat \<Rightarrow> nat \<Rightarrow> video_format \<Rightarrow> nat" where
  "calculate_buffer_size width height format =
     (let stride = calculate_stride width format in
      if format = V_NV12 \<or> format = V_I420 then stride * height * 3 div 2 else stride * height)"

section \<open>One sample\<close>

definition clamp_i32 :: "int \<Rightarrow> int \<Rightarrow> int \<Rightarrow> int" where
  "clamp_i32 val lo hi = (if val < lo then lo else if val > hi then hi else val)"

text \<open>The matrix of \<open>format.rs\<close>, red, green and blue, and that of \<open>yuv.rs\<close>.\<close>

definition yuv_to_rgb :: "int \<Rightarrow> int \<Rightarrow> int \<Rightarrow> nat \<times> nat \<times> nat" where
  "yuv_to_rgb y u v =
     (let c = y - 16; d = u - 128; e = v - 128;
          r = (298 * c + 409 * e + 128) div 2 ^ 8;
          g = (298 * c - 100 * d - 208 * e + 128) div 2 ^ 8;
          b = (298 * c + 516 * d + 128) div 2 ^ 8
      in (nat (clamp_i32 r 0 255), nat (clamp_i32 g 0 255), nat (clamp_i32 b 0 255)))"

definition Y_SCALE :: int where "Y_SCALE = 298"
definition V_TO_R :: int where "V_TO_R = 409"
definition U_TO_G :: int where "U_TO_G = 100"
definition V_TO_G :: int where "V_TO_G = 208"
definition U_TO_B :: int where "U_TO_B = 516"

definition yuv_pixel_to_rgb :: "int \<Rightarrow> int \<Rightarrow> int \<Rightarrow> nat \<times> nat \<times> nat" where
  "yuv_pixel_to_rgb y u v =
     (let y = y - 16; u = u - 128; v = v - 128;
          r = (Y_SCALE * y + V_TO_R * v + 128) div 2 ^ 8;
          g = (Y_SCALE * y - U_TO_G * u - V_TO_G * v + 128) div 2 ^ 8;
          b = (Y_SCALE * y + U_TO_B * u + 128) div 2 ^ 8
      in (nat (clamp_int 0 255 r), nat (clamp_int 0 255 g), nat (clamp_int 0 255 b)))"

text \<open>A pixel written from samples that may lie outside their slices.\<close>

definition put_yuv :: "(int \<Rightarrow> int \<Rightarrow> int \<Rightarrow> nat \<times> nat \<times> nat) \<Rightarrow> nat option \<Rightarrow> nat option \<Rightarrow> nat option \<Rightarrow> nat \<Rightarrow> nat list \<Rightarrow> nat list option" where
  "put_yuv matrix y u v idx dst =
     (case (y, u, v) of
        (Some y, Some u, Some v) \<Rightarrow> (case matrix (int y) (int u) (int v) of (r, g, b) \<Rightarrow> store idx [b, g, r, 255] dst)
      | _ \<Rightarrow> None)"

section \<open>Conversion between strided buffers\<close>

text \<open>The rows of both buffers start at multiples of their strides.  A body gets the source from its row on and the offset of its row in the destination.\<close>

definition convert_rows :: "(nat list \<Rightarrow> nat \<Rightarrow> nat list \<Rightarrow> nat list option) \<Rightarrow> nat list \<Rightarrow> nat list \<Rightarrow> nat \<Rightarrow> nat \<Rightarrow> nat \<Rightarrow> nat list option" where
  "convert_rows body src dst height src_stride dst_stride =
     for_each (\<lambda>y dst.
       let s = u32_mul y src_stride; d = u32_mul y dst_stride in
       if s \<le> length src \<and> d \<le> length dst then body (drop s src) d dst else None) [0..<height] dst"

definition rgb_row :: "nat \<Rightarrow> nat list \<Rightarrow> nat \<Rightarrow> nat list \<Rightarrow> nat list option" where
  "rgb_row width src_row row dst =
     for_each (\<lambda>x dst.
       case (byte_at src_row (x * 3 + 2), byte_at src_row (x * 3 + 1), byte_at src_row (x * 3)) of
         (Some b, Some g, Some r) \<Rightarrow> store (row + x * 4) [b, g, r, 255] dst
       | _ \<Rightarrow> None) [0..<width] dst"

definition rgba_row :: "nat \<Rightarrow> nat list \<Rightarrow> nat \<Rightarrow> nat list \<Rightarrow> nat list option" where
  "rgba_row width src_row row dst =
     for_each (\<lambda>x dst.
       case (byte_at src_row (x * 4 + 2), byte_at src_row (x * 4 + 1), byte_at src_row (x * 4), byte_at src_row (x * 4 + 3)) of
         (Some b, Some g, Some r, Some a) \<Rightarrow> store (row + x * 4) [b, g, r, a] dst
       | _ \<Rightarrow> None) [0..<width] dst"

definition bgr_row :: "nat \<Rightarrow> nat list \<Rightarrow> nat \<Rightarrow> nat list \<Rightarrow> nat list option" where
  "bgr_row width src_row row dst =
     for_each (\<lambda>x dst.
       case (byte_at src_row (x * 3), byte_at src_row (x * 3 + 1), byte_at src_row (x * 3 + 2)) of
         (Some b, Some g, Some r) \<Rightarrow> store (row + x * 4) [b, g, r, 255] dst
       | _ \<Rightarrow> None) [0..<width] dst"

definition yuy2_row :: "nat \<Rightarrow> nat list \<Rightarrow> nat \<Rightarrow> nat list \<Rightarrow> nat list option" where
  "yuy2_row width src_row row dst =
     for_each (\<lambda>x dst.
       let src_idx = x * 2;
           y0 = byte_at src_row src_idx;
           u = byte_at src_row (src_idx + 1);
           y1 = byte_at src_row (src_idx + 2);
           v = byte_at src_row (src_idx + 3)
       in if y1 = None then None
          else case put_yuv yuv_to_rgb y0 u v (row + x * 4) dst of
                 None \<Rightarrow> None
               | Some dst \<Rightarrow> if x + 1 < width then put_yuv yuv_to_rgb y1 u v (row + (x + 1) * 4) dst else Some dst)
       (map (\<lambda>i. 2 * i) [0..<(width + 1) div 2]) dst"

definition convert_rgb_to_bgra :: "nat list \<Rightarrow> nat list \<Rightarrow> nat \<Rightarrow> nat \<Rightarrow> nat \<Rightarrow> nat \<Rightarrow> nat list option" where
  "convert_rgb_to_bgra src dst width height = convert_rows (rgb_row width) src dst height"

definition convert_rgba_to_bgra :: "nat list \<Rightarrow> nat list \<Rightarrow> nat \<Rightarrow> nat \<Rightarrow> nat \<Rightarrow> nat \<Rightarrow> nat list option" where
  "convert_rgba_to_bgra src dst width height = convert_rows (rgba_row width) src dst height"

definition convert_bgr_to_bgra :: "nat list \<Rightarrow> nat list \<Rightarrow> nat \<Rightarrow> nat \<Rightarrow> nat \<Rightarrow> nat \<Rightarrow> nat list option" where
  "convert_bgr_to_bgra src dst width height = convert_rows (bgr_row width) src dst height"

definition convert_yuy2_to_bgra :: "nat list \<Rightarrow> nat list \<Rightarrow> nat \<Rightarrow> nat \<Rightarrow> nat \<Rightarrow> nat \<Rightarrow> nat list option" where
  "convert_yuy2_to_bgra src dst width height = convert_rows (yuy2_row width) src dst height"

definition convert_nv12_to_bgra :: "nat list \<Rightarrow> nat list \<Rightarrow> nat \<Rightarrow> nat \<Rightarrow> nat list option" where
  "convert_nv12_to_bgra src dst width height =
     (let size = u32_mul width height in
      if size > length src then None
      else let y_plane = take size src; uv_plane = drop size src in
        for_each (\<lambda>y. for_each (\<lambda>x dst.
          let y_val = byte_at y_plane (u32_add (u32_mul y width) x);
              uv_x = x div 2; uv_y = y div 2;
              uv_idx = u32_add (u32_mul uv_y width) (u32_mul uv_x 2);
              u_val = byte_at uv_plane uv_idx;
              v_val = byte_at uv_plane (uv_idx + 1)
          in put_yuv yuv_to_rgb y_val u_val v_val (u32_mul (u32_add (u32_mul y width) x) 4) dst) [0..<width]) [0..<height] dst)"

definition convert_i420_to_bgra :: "nat list \<Rightarrow> nat list \<Rightarrow> nat \<Rightarrow> nat \<Rightarrow> nat list option" where
  "convert_i420_to_bgra src dst width height =
     (let y_plane_size = u32_mul width height; uv_plane_size = y_plane_size div 4 in
      if y_plane_size + uv_plane_size > length src then None
      else let y_plane = take y_plane_size src;
               u_plane = take uv_plane_size (drop y_plane_size src);
               v_plane = drop (y_plane_size + uv_plane_size) src in
        for_each (\<lambda>y. for_each (\<lambda>x dst.
          let y_val = byte_at y_plane (u32_add (u32_mul y width) x);
              uv_x = x div 2; uv_y = y div 2;
              uv_idx = u32_add (u32_mul uv_y width div 2) uv_x;
              u_val = byte_at u_plane uv_idx;
              v_val = byte_at v_plane uv_idx
          in put_yuv yuv_to_rgb y_val u_val v_val (u32_mul (u32_add (u32_mul y width) x) 4) dst) [0..<width]) [0..<height] dst)"

text \<open>The copy without conversion: in one piece, or row by row where the stride leaves padding.\<close>

definition copy_rows :: "nat list \<Rightarrow> nat list \<Rightarrow> nat \<Rightarrow> nat \<Rightarrow> nat \<Rightarrow> nat \<Rightarrow> nat list option" where
  "copy_rows src dst row_bytes height src_stride dst_stride =
     for_each (\<lambda>y dst.
       case load row_bytes (u32_mul y src_stride) src of
         None \<Rightarrow> None
       | Some bytes \<Rightarrow> store (u32_mul y dst_stride) bytes dst) [0..<height] dst"

text \<open>An unsupported pair is an error and leaves the destination as it was.\<close>

definition convert_format ::
  "nat list \<Rightarrow> nat list \<Rightarrow> pixel_format \<Rightarrow> pixel_format \<Rightarrow> nat \<Rightarrow> nat \<Rightarrow> nat \<Rightarrow> nat \<Rightarrow> (string, nat list) result option" where
  "convert_format src dst src_format dst_format width height src_stride dst_stride =
     (if src_format = dst_format \<and> src_stride = dst_stride then
        let row_bytes = u32_mul width (bytes_per_pixel src_format) in
        map_option Ok (if row_bytes = src_stride then store 0 src dst else copy_rows src dst row_bytes height src_stride dst_stride)
      else if dst_format = BGRA \<and> src_format = RGB then map_option Ok (convert_rgb_to_bgra src dst width height src_stride dst_stride)
      else if dst_format = BGRA \<and> src_format = RGBA then map_option Ok (convert_rgba_to_bgra src dst width height src_stride dst_stride)
      else if dst_format = BGRA \<and> src_format = BGR then map_option Ok (convert_bgr_to_bgra src dst width height src_stride dst_stride)
      else if dst_format = BGRA \<and> src_format = NV12 then map_option Ok (convert_nv12_to_bgra src dst width height)
      else if dst_format = BGRA \<and> src_format = YUY2 then map_option Ok (convert_yuy2_to_bgra src dst width height src_stride dst_stride)
      else if dst_format = BGRA \<and> src_format = I420 then map_option Ok (convert_i420_to_bgra src dst width height)
      else Some (Err (''pixel format conversion: Unsupported conversion: '' @ format_name src_format @ '' -> '' @ format_name dst_format)))"

section \<open>Conversion into fresh buffers\<close>

definition nv12_to_bgra :: "nat list \<Rightarrow> nat \<Rightarrow> nat \<Rightarrow> nat list option" where
  "nv12_to_bgra src w h =
     (let y_plane_size = w * h; uv_plane_size = w * h div 2 in
      if length src < y_plane_size + uv_plane_size then None
      else let y_plane = take y_plane_size src;
               uv_plane = take uv_plane_size (drop y_plane_size src) in
        for_each (\<lambda>y. for_each (\<lambda>x dst.
          let y_idx = y * w + x;
              uv_idx = y div 2 * w + x div 2 * 2
          in put_yuv yuv_pixel_to_rgb (byte_at y_plane y_idx) (byte_at uv_plane uv_idx) (byte_at uv_plane (uv_idx + 1)) (y_idx * 4) dst)
          [0..<w]) [0..<h] (replicate (w * h * 4) 0))"

definition i420_to_bgra :: "nat list \<Rightarrow> nat \<Rightarrow> nat \<Rightarrow> nat list option" where
  "i420_to_bgra src w h =
     (let y_plane_size = w * h; uv_plane_size = w div 2 * (h div 2) in
      if length src < y_plane_size + uv_plane_size * 2 then None
      else let y_plane = take y_plane_size src;
               u_plane = take uv_plane_size (drop y_plane_size src);
               v_plane = take uv_plane_size (drop (y_plane_size + uv_plane_size) src) in
        for_each (\<lambda>y. for_each (\<lambda>x dst.
          let y_idx = y * w + x;
              uv_idx = y div 2 * (w div 2) + x div 2
          in put_yuv yuv_pixel_to_rgb (byte_at y_plane y_idx) (byte_at u_plane uv_idx) (byte_at v_plane uv_idx) (y_idx * 4) dst)
          [0..<w]) [0..<h] (replicate (w * h * 4) 0))"

definition yuy2_to_bgra :: "nat list \<Rightarrow> nat \<Rightarrow> nat \<Rightarrow> nat list option" where
  "yuy2_to_bgra src w h =
     (if w mod 2 \<noteq> 0 \<or> length src < w * h * 2 then None
      else for_each (\<lambda>y. for_each (\<lambda>x dst.
        let src_idx = (y * w + x) * 2;
            y0 = byte_at src src_idx;
            u = byte_at src (src_idx + 1);
            y1 = byte_at src (src_idx + 2);
            v = byte_at src (src_idx + 3)
        in if y1 = None then None
           else case put_yuv yuv_pixel_to_rgb y0 u v ((y * w + x) * 4) dst of
                  None \<Rightarrow> None
                | Some dst \<Rightarrow> put_yuv yuv_pixel_to_rgb y1 u v ((y * w + x + 1) * 4) dst)
        (map (\<lambda>i. 2 * i) [0..<(w + 1) div 2])) [0..<h] (replicate (w * h * 4) 0))"

record yuv_converter =
  output_buffer :: "nat list"

definition yuv_converter_new :: yuv_converter where
  "yuv_converter_new = \<lparr>output_buffer = []\<rparr>"

definition needs_conversion :: "pixel_format \<Rightarrow> bool" where
  "needs_conversion format \<longleftrightarrow> format = NV12 \<or> format = I420 \<or> format = YUY2"

definition output_size :: "nat \<Rightarrow> nat \<Rightarrow> nat" where
  "output_size width height = width * height * 4"

text \<open>The converted picture, none for formats that need no conversion, and the converter that keeps it.\<close>

definition convert_to_bgra :: "nat list \<Rightarrow> nat \<Rightarrow> nat \<Rightarrow> pixel_format \<Rightarrow> yuv_converter \<Rightarrow> (nat list option \<times> yuv_converter) option" where
  "convert_to_bgra src width height format c =
     (if format = NV12 then map_option (\<lambda>r. (Some r, c\<lparr>output_buffer := r\<rparr>)) (nv12_to_bgra src width height)
      else if format = I420 then map_option (\<lambda>r. (Some r, c\<lparr>output_buffer := r\<rparr>)) (i420_to_bgra src width height)
      else if format = YUY2 then map_option (\<lambda>r. (Some r, c\<lparr>output_buffer := r\<rparr>)) (yuy2_to_bgra src width height)
      else Some (None, c))"

section \<open>Loops over a grid of pixels\<close>

lemma for_each_map: "for_each f (map g is) = for_each (\<lambda>i. f (g i)) is"
proof
  fix s show "for_each f (map g is) s = for_each (\<lambda>i. f (g i)) is s"
    by (induction "is" arbitrary: s) (simp_all split: option.split)
qed

lemma for_each_cong: "(\<And>i s. i \<in> set is \<Longrightarrow> f i s = g i s) \<Longrightarrow> for_each f is s = for_each g is s"
  by (induction "is" arbitrary: s) (auto split: option.split)

lemma for_each_length:
  assumes "\<And>i s s'. f i s = Some s' \<Longrightarrow> length s' = length s" "for_each f is s = Some s'"
  shows "length s' = length s"
  using assms(2)
proof (induction "is" arbitrary: s)
  case (Cons i "is")
  then obtain t where "f i s = Some t" "for_each f is t = Some s'" by (auto split: option.splits)
  then show ?case using Cons.IH assms(1) by metis
qed simp

lemma for_each_cong_length:
  assumes "\<And>i s. i \<in> set is \<Longrightarrow> length s = n \<Longrightarrow> f i s = g i s" "\<And>i s s'. g i s = Some s' \<Longrightarrow> length s' = length s" "length s = n"
  shows "for_each f is s = for_each g is s"
  using assms(1,3) by (induction "is" arbitrary: s) (auto split: option.split dest!: assms(2))

lemma store_length: "store i a xs = Some ys \<Longrightarrow> length ys = length xs"
  by (auto simp: store_def split: if_splits)

lemma upt_rows: "[0..<Suc h * w] = [0..<h * w] @ map (\<lambda>x. h * w + x) [0..<w]"
  using upt_add_eq_append[of 0 "h * w" w] map_add_upt[of "h * w" w] by (simp add: add.commute)

lemma for_each_grid: "for_each (\<lambda>y. for_each (step y) [0..<w]) [0..<h] s = for_each (\<lambda>i. step (i div w) (i mod w)) [0..<h * w] s"
proof (induction h arbitrary: s)
  case (Suc h)
  have "for_each (step h) [0..<w] t = for_each (\<lambda>x. step ((h * w + x) div w) ((h * w + x) mod w)) [0..<w] t" for t
    by (rule for_each_cong) simp
  then show ?case by (simp add: upt_rows for_each_append Suc.IH for_each_map del: mult_Suc split: option.split)
qed simp

lemma grid_stores:
  assumes "\<And>y x out. y < h \<Longrightarrow> x < w \<Longrightarrow> step y x out = store ((y * w + x) * c) (X (y * w + x)) out"
    and "\<And>i. i < h * w \<Longrightarrow> length (X i) = c" and "length dst = h * w * c"
  shows "for_each (\<lambda>y. for_each (step y) [0..<w]) [0..<h] dst = Some (concat (map X [0..<h * w]))"
proof -
  have "step (i div w) (i mod w) out = store (0 + i * c) (X i) out" if "i < h * w" for i out
  proof -
    have "0 < w" using that by (cases w) auto
    then show ?thesis using assms(1)[of "i div w" "i mod w" out] that by (simp add: less_mult_imp_div_less)
  qed
  then show ?thesis
    using for_each_stores[of 0 "h * w" "\<lambda>i. step (i div w) (i mod w)" 0 c X "[]" dst] assms(2,3) by (simp add: for_each_grid)
qed

lemma store_store: "(case store i a xs of None \<Rightarrow> None | Some xs \<Rightarrow> store (i + length a) b xs) = store i (a @ b) xs"
  by (simp add: store_def ac_simps)

lemma concat_grid: "concat (map (\<lambda>y. concat (map (F y) [0..<w])) [0..<h]) = concat (map (\<lambda>i. F (i div w) (i mod w)) [0..<h * w])"
proof (induction h)
  case (Suc h)
  have "map (F h) [0..<w] = map (\<lambda>x. F ((h * w + x) div w) ((h * w + x) mod w)) [0..<w]" by (intro map_cong) auto
  with Suc show ?case by (simp only: upt_rows map_append map_map concat_append comp_def upt_Suc_append list.map concat.simps append_Nil2 le0 upt_Suc if_True)
qed simp

section \<open>The pictures\<close>

definition bgra_pixel :: "nat \<times> nat \<times> nat \<Rightarrow> nat list" where
  "bgra_pixel yuv = (case yuv of (y, u, v) \<Rightarrow> case yuv_to_rgb (int y) (int u) (int v) of (r, g, b) \<Rightarrow> [b, g, r, 255])"

text \<open>The samples of the pixel in row \<open>y\<close> and column \<open>x\<close>: two columns, and in the planar formats two rows, share their chroma.\<close>

definition yuv_at :: "pixel_format \<Rightarrow> nat list \<Rightarrow> nat \<Rightarrow> nat \<Rightarrow> nat \<Rightarrow> nat \<Rightarrow> nat \<times> nat \<times> nat" where
  "yuv_at format src w h y x =
     (if format = NV12 then
        (src ! (y * w + x), src ! (w * h + (y div 2 * w + x div 2 * 2)), src ! (w * h + (y div 2 * w + x div 2 * 2 + 1)))
      else if format = I420 then
        (src ! (y * w + x), src ! (w * h + (y div 2 * (w div 2) + x div 2)), src ! (w * h + w div 2 * (h div 2) + (y div 2 * (w div 2) + x div 2)))
      else (src ! (2 * (y * w + x)), src ! (2 * (y * w + x div 2 * 2) + 1), src ! (2 * (y * w + x div 2 * 2) + 3)))"

lemma yuv_at_simps:
  "yuv_at NV12 src w h y x =
     (src ! (y * w + x), src ! (w * h + (y div 2 * w + x div 2 * 2)), src ! (w * h + (y div 2 * w + x div 2 * 2 + 1)))"
  "yuv_at I420 src w h y x =
     (src ! (y * w + x), src ! (w * h + (y div 2 * (w div 2) + x div 2)), src ! (w * h + w div 2 * (h div 2) + (y div 2 * (w div 2) + x div 2)))"
  "yuv_at YUY2 src w h y x = (src ! (2 * (y * w + x)), src ! (2 * (y * w + x div 2 * 2) + 1), src ! (2 * (y * w + x div 2 * 2) + 3))"
  by (simp_all add: yuv_at_def)

definition bgra_picture :: "pixel_format \<Rightarrow> nat list \<Rightarrow> nat \<Rightarrow> nat \<Rightarrow> nat list" where
  "bgra_picture format src w h = concat (map (\<lambda>y. concat (map (\<lambda>x. bgra_pixel (yuv_at format src w h y x)) [0..<w])) [0..<h])"

definition source_bytes :: "pixel_format \<Rightarrow> nat \<Rightarrow> nat \<Rightarrow> nat" where
  "source_bytes format w h = (if format = YUY2 then 2 * (w * h) else w * h + w * h div 2)"

lemma clamp_i32_int: "clamp_i32 val 0 255 = clamp_int 0 255 val"
  by (simp add: clamp_i32_def clamp_int_def)

lemma matrices_agree: "yuv_pixel_to_rgb = yuv_to_rgb"
  by (intro ext) (simp add: yuv_pixel_to_rgb_def yuv_to_rgb_def clamp_i32_int Y_SCALE_def V_TO_R_def U_TO_G_def V_TO_G_def U_TO_B_def)

lemma put_yuv_store: "put_yuv yuv_to_rgb (Some y) (Some u) (Some v) idx dst = store idx (bgra_pixel (y, u, v)) dst"
  by (simp add: put_yuv_def bgra_pixel_def split: prod.split)

lemma put_yuv_length: "put_yuv f y u v idx dst = Some r \<Longrightarrow> length r = length dst"
  by (auto simp: put_yuv_def store_length split: option.splits prod.splits)

lemma length_bgra_pixel [simp]: "length (bgra_pixel p) = 4"
  by (simp add: bgra_pixel_def split: prod.split)

lemma picture_flat: "bgra_picture format src w h = concat (map (\<lambda>i. bgra_pixel (yuv_at format src w h (i div w) (i mod w))) [0..<h * w])"
  unfolding bgra_picture_def by (rule concat_grid)

lemma u32_small: "a + b < 2 ^ 32 \<Longrightarrow> u32_add a b = a + b" "a * b < 2 ^ 32 \<Longrightarrow> u32_mul a b = a * b"
  by (simp_all add: u32_add_def u32_mul_def)

lemma grid_bound: "y < h \<Longrightarrow> x < w \<Longrightarrow> y * w + x < w * h" for x y w h :: nat
proof -
  assume "y < h" "x < w"
  then have "y * w + x < Suc y * w" by simp
  also have "\<dots> \<le> h * w" using \<open>y < h\<close> by (intro mult_le_mono1) simp
  finally show ?thesis by (simp add: mult.commute)
qed

lemma grid_u32:
  assumes "y < h" "x < w" "w * h * 4 < 2 ^ 32"
  shows "u32_mul w h = w * h" "u32_mul y w = y * w" "u32_add (y * w) x = y * w + x" "u32_mul (y * w + x) 4 = (y * w + x) * 4"
proof -
  have "(y * w + x) * 4 < w * h * 4" using grid_bound[OF assms(1,2)] by (intro mult_less_mono1) simp_all
  then have p: "(y * w + x) * 4 < 2 ^ 32" using assms(3) by (rule less_trans)
  then have "y * w + x < 2 ^ 32" by (rule le_less_trans[rotated]) simp
  moreover from this have "y * w < 2 ^ 32" by (rule add_lessD1)
  moreover have "w * h < 2 ^ 32" using assms(3) by (rule le_less_trans[rotated]) simp
  ultimately have "w * h < 2 ^ 32" "y * w < 2 ^ 32" "y * w + x < 2 ^ 32" "(y * w + x) * 4 < 2 ^ 32" using p by blast+
  then show "u32_mul w h = w * h" "u32_mul y w = y * w" "u32_add (y * w) x = y * w + x" "u32_mul (y * w + x) 4 = (y * w + x) * 4"
    by (simp_all only: u32_small)
qed

lemma chroma_bound:
  fixes x y w h :: nat
  assumes "y < h" "x < w" "even w" "even h"
  shows "y div 2 * w + x div 2 * 2 + 1 < w * h div 2" "y div 2 * (w div 2) + x div 2 < w div 2 * (h div 2)"
proof -
  obtain a b where ab: "w = 2 * a" "h = 2 * b" using assms(3,4) by (elim evenE)
  with assms(1,2) have "y div 2 < b" "x div 2 < a" by auto
  then have *: "y div 2 * a + x div 2 < a * b" by (rule grid_bound)
  then show "y div 2 * (w div 2) + x div 2 < w div 2 * (h div 2)" by (simp add: ab)
  show "y div 2 * w + x div 2 * 2 + 1 < w * h div 2" using * by (simp add: ab)
qed

lemma byte_at_take: "i < n \<Longrightarrow> n \<le> length src \<Longrightarrow> byte_at (take n src) i = Some (src ! i)"
  by (simp add: byte_at_def)

lemma byte_at_drop: "off + i < length src \<Longrightarrow> byte_at (drop off src) i = Some (src ! (off + i))"
  by (simp add: byte_at_def)

lemma byte_at_slice: "i < n \<Longrightarrow> off + n \<le> length src \<Longrightarrow> byte_at (take n (drop off src)) i = Some (src ! (off + i))"
  by (simp add: byte_at_def)

lemmas byte_at_window = byte_at_take byte_at_drop byte_at_slice

lemma pixels_stored:
  assumes "\<And>y x out. y < h \<Longrightarrow> x < w \<Longrightarrow> step y x out = store ((y * w + x) * 4) (bgra_pixel (yuv_at format src w h y x)) out"
    and "length dst = w * h * 4"
  shows "for_each (\<lambda>y. for_each (step y) [0..<w]) [0..<h] dst = Some (bgra_picture format src w h)"
  unfolding picture_flat using assms by (intro grid_stores[where c = 4]) (simp_all add: mult.commute)

lemma even_halves: "even w \<Longrightarrow> even h \<Longrightarrow> w * h div 4 = w div 2 * (h div 2)" "even w \<Longrightarrow> even h \<Longrightarrow> w * h div 2 = 2 * (w div 2 * (h div 2))" for w h :: nat
  by (auto elim!: evenE)

lemma nv12_fresh:
  assumes "even w" "even h" "source_bytes NV12 w h \<le> length src"
  shows "nv12_to_bgra src w h = Some (bgra_picture NV12 src w h)"
proof -
  let ?y = "take (w * h) src" let ?uv = "take (w * h div 2) (drop (w * h) src)"
  have size: "w * h + w * h div 2 \<le> length src" using assms(3) by (simp add: source_bytes_def)
  have "byte_at ?y (y * w + x) = Some (src ! (y * w + x))"
    "byte_at ?uv (y div 2 * w + x div 2 * 2) = Some (src ! (w * h + (y div 2 * w + x div 2 * 2)))"
    "byte_at ?uv (y div 2 * w + x div 2 * 2 + 1) = Some (src ! (w * h + (y div 2 * w + x div 2 * 2 + 1)))" if "y < h" "x < w" for x y
    using size grid_bound[OF that] chroma_bound(1)[OF that assms(1,2)] by (simp_all only: byte_at_window add_leD1 add_lessD1)
  then show ?thesis
    using size unfolding nv12_to_bgra_def Let_def matrices_agree
    by (simp only: not_less[symmetric] if_False) (intro pixels_stored, simp_all only: put_yuv_store yuv_at_simps length_replicate)
qed

lemma nv12_in_place:
  assumes "even w" "even h" "source_bytes NV12 w h \<le> length src" "w * h * 4 < 2 ^ 32" "length dst = w * h * 4"
  shows "convert_nv12_to_bgra src dst w h = Some (bgra_picture NV12 src w h)"
proof -
  let ?y = "take (w * h) src" let ?uv = "drop (w * h) src"
  have size: "w * h + w * h div 2 \<le> length src" using assms(3) by (simp add: source_bytes_def)
  then have fits: "\<not> w * h > length src" by simp
  have plane: "u32_mul w h = w * h" using assms(4) by (intro u32_small(2)) linarith
  have "byte_at ?y (y * w + x) = Some (src ! (y * w + x))"
    "byte_at ?uv (y div 2 * w + x div 2 * 2) = Some (src ! (w * h + (y div 2 * w + x div 2 * 2)))"
    "byte_at ?uv (y div 2 * w + x div 2 * 2 + 1) = Some (src ! (w * h + (y div 2 * w + x div 2 * 2 + 1)))"
    "u32_mul (y div 2) w = y div 2 * w" "u32_mul (x div 2) 2 = x div 2 * 2" "u32_add (y div 2 * w) (x div 2 * 2) = y div 2 * w + x div 2 * 2"
    if "y < h" "x < w" for x y
  proof -
    note b = grid_bound[OF that] chroma_bound(1)[OF that assms(1,2)]
    show "byte_at ?y (y * w + x) = Some (src ! (y * w + x))" using size b(1) by (intro byte_at_take) linarith+
    show "byte_at ?uv (y div 2 * w + x div 2 * 2) = Some (src ! (w * h + (y div 2 * w + x div 2 * 2)))"
      "byte_at ?uv (y div 2 * w + x div 2 * 2 + 1) = Some (src ! (w * h + (y div 2 * w + x div 2 * 2 + 1)))"
      using size b(2) by (intro byte_at_drop; linarith)+
    have "y div 2 * w + x div 2 * 2 < 2 ^ 32" using b(2) assms(4) by linarith
    then show "u32_mul (y div 2) w = y div 2 * w" "u32_mul (x div 2) 2 = x div 2 * 2" "u32_add (y div 2 * w) (x div 2 * 2) = y div 2 * w + x div 2 * 2"
      by (simp_all add: u32_small)
  qed
  note this grid_u32(2-)[OF _ _ assms(4)]
  then show ?thesis
    unfolding convert_nv12_to_bgra_def Let_def plane
    by (simp only: fits if_False) (intro pixels_stored, simp_all only: put_yuv_store yuv_at_simps assms(5))
qed

lemma i420_planes:
  assumes "even w" "even h" "source_bytes I420 w h \<le> length src"
  shows "w * h + w div 2 * (h div 2) * 2 \<le> length src"
  using assms even_halves(2)[OF assms(1,2)] by (simp add: source_bytes_def mult.commute)

lemma i420_fresh:
  assumes "even w" "even h" "source_bytes I420 w h \<le> length src"
  shows "i420_to_bgra src w h = Some (bgra_picture I420 src w h)"
proof -
  let ?n = "w div 2 * (h div 2)"
  let ?y = "take (w * h) src" let ?u = "take ?n (drop (w * h) src)" let ?v = "take ?n (drop (w * h + ?n) src)"
  have size: "w * h + ?n * 2 \<le> length src" by (rule i420_planes[OF assms])
  then have fits: "\<not> length src < w * h + ?n * 2" "w * h \<le> length src" "w * h + ?n \<le> length src" "w * h + ?n + ?n \<le> length src" by linarith+
  have "byte_at ?y (y * w + x) = Some (src ! (y * w + x))"
    "byte_at ?u (y div 2 * (w div 2) + x div 2) = Some (src ! (w * h + (y div 2 * (w div 2) + x div 2)))"
    "byte_at ?v (y div 2 * (w div 2) + x div 2) = Some (src ! (w * h + ?n + (y div 2 * (w div 2) + x div 2)))" if "y < h" "x < w" for x y
    using fits grid_bound[OF that] chroma_bound(2)[OF that assms(1,2)] by (simp_all only: byte_at_window)
  then show ?thesis
    unfolding i420_to_bgra_def Let_def matrices_agree
    by (simp only: fits(1) if_False) (intro pixels_stored, simp_all only: put_yuv_store yuv_at_simps length_replicate)
qed

lemma i420_in_place:
  assumes "even w" "even h" "source_bytes I420 w h \<le> length src" "w * h * 4 < 2 ^ 32" "length dst = w * h * 4"
  shows "convert_i420_to_bgra src dst w h = Some (bgra_picture I420 src w h)"
proof -
  let ?n = "w div 2 * (h div 2)"
  let ?y = "take (w * h) src" let ?u = "take ?n (drop (w * h) src)" let ?v = "drop (w * h + ?n) src"
  have size: "w * h + ?n * 2 \<le> length src" by (rule i420_planes[OF assms(1-3)])
  then have fits: "\<not> length src < w * h + ?n" "w * h \<le> length src" "w * h + ?n \<le> length src" by linarith+
  have plane: "u32_mul w h = w * h" "w * h div 4 = ?n" using assms(4) even_halves(1)[OF assms(1,2)] by (simp_all only: u32_small mult_less_cancel1)
  have "byte_at ?y (y * w + x) = Some (src ! (y * w + x))"
    "byte_at ?u (y div 2 * (w div 2) + x div 2) = Some (src ! (w * h + (y div 2 * (w div 2) + x div 2)))"
    "byte_at ?v (y div 2 * (w div 2) + x div 2) = Some (src ! (w * h + ?n + (y div 2 * (w div 2) + x div 2)))"
    "u32_mul (y div 2) w div 2 = y div 2 * (w div 2)" "u32_add (y div 2 * (w div 2)) (x div 2) = y div 2 * (w div 2) + x div 2"
    if "y < h" "x < w" for x y
  proof -
    note b = grid_bound[OF that] chroma_bound(2)[OF that assms(1,2)]
    show "byte_at ?y (y * w + x) = Some (src ! (y * w + x))"
      "byte_at ?u (y div 2 * (w div 2) + x div 2) = Some (src ! (w * h + (y div 2 * (w div 2) + x div 2)))"
      using fits b by (simp_all only: byte_at_window)
    show "byte_at ?v (y div 2 * (w div 2) + x div 2) = Some (src ! (w * h + ?n + (y div 2 * (w div 2) + x div 2)))"
      using size b(2) by (intro byte_at_drop) linarith
    have "y div 2 * w < 2 ^ 32" using chroma_bound(1)[OF that assms(1,2)] assms(4) by linarith
    then show "u32_mul (y div 2) w div 2 = y div 2 * (w div 2)" using assms(1) by (simp add: u32_small div_mult_swap)
    show "u32_add (y div 2 * (w div 2)) (x div 2) = y div 2 * (w div 2) + x div 2"
      using b(2) even_halves(1)[OF assms(1,2)] assms(4) by (intro u32_small(1)) linarith
  qed
  note this grid_u32(2-)[OF _ _ assms(4)]
  then show ?thesis
    unfolding convert_i420_to_bgra_def Let_def plane
    by (simp only: fits(1) if_False) (intro pixels_stored, simp_all only: put_yuv_store yuv_at_simps assms(5))
qed

lemma concat_pairs: "concat (map (\<lambda>i. F (2 * i) @ F (2 * i + 1)) [0..<n]) = concat (map F [0..<2 * n])"
  by (induction n) simp_all

lemma pairs_stored:
  assumes "even w" "\<And>y i out. y < h \<Longrightarrow> 2 * i + 1 < w \<Longrightarrow> step y (2 * i) out =
      store ((y * w + 2 * i) * 4) (bgra_pixel (yuv_at format src w h y (2 * i)) @ bgra_pixel (yuv_at format src w h y (2 * i + 1))) out"
    and "length dst = w * h * 4"
  shows "for_each (\<lambda>y. for_each (step y) (map (\<lambda>i. 2 * i) [0..<(w + 1) div 2])) [0..<h] dst = Some (bgra_picture format src w h)"
proof -
  obtain k where w: "w = 2 * k" using assms(1) by (elim evenE)
  let ?F = "\<lambda>i. bgra_pixel (yuv_at format src w h (i div w) (i mod w))"
  have pos: "(2 * (y * k + i)) div w = y \<and> (2 * (y * k + i)) mod w = 2 * i \<and> (2 * (y * k + i) + 1) div w = y \<and> (2 * (y * k + i) + 1) mod w = 2 * i + 1"
    if "i < k" for y i
  proof -
    have e: "2 * (y * k + i) = y * w + 2 * i" "2 * (y * k + i) + 1 = y * w + (2 * i + 1)" by (simp_all add: w algebra_simps)
    have "2 * i + 1 < w" using that by (simp add: w)
    moreover have "(y * w + j) div w = y" "(y * w + j) mod w = j" if "j < w" for j using that by simp_all
    ultimately show ?thesis unfolding e by (simp only: add_lessD1 simp_thms add.assoc)
  qed
  have "for_each (\<lambda>y. for_each (\<lambda>i. step y (2 * i)) [0..<k]) [0..<h] dst = Some (concat (map (\<lambda>i. ?F (2 * i) @ ?F (2 * i + 1)) [0..<h * k]))"
  proof (rule grid_stores[where c = 8])
    fix y i out assume "y < h" "i < k"
    then show "step y (2 * i) out = store ((y * k + i) * 8) (?F (2 * (y * k + i)) @ ?F (2 * (y * k + i) + 1)) out"
      using assms(2)[of y i out] pos[of i y] by (simp add: w algebra_simps)
  qed (use assms(3) in \<open>simp_all add: w\<close>)
  moreover have "2 * (h * k) = h * w" by (simp add: w)
  moreover have "(w + 1) div 2 = k" by (simp add: w)
  ultimately show ?thesis by (simp only: picture_flat concat_pairs[of ?F] for_each_map)
qed

lemma yuy2_put_pair:
  "(case put_yuv yuv_to_rgb (Some y0) (Some u) (Some v) idx dst of None \<Rightarrow> None | Some dst \<Rightarrow> put_yuv yuv_to_rgb (Some y1) (Some u) (Some v) (idx + 4) dst) =
   store idx (bgra_pixel (y0, u, v) @ bgra_pixel (y1, u, v)) dst"
  using store_store[of idx "bgra_pixel (y0, u, v)" "bgra_pixel (y1, u, v)" dst] by (simp only: put_yuv_store length_bgra_pixel)

lemma yuy2_samples:
  assumes "y < h" "2 * i + 1 < w" "2 * (w * h) \<le> length src"
  shows "(y * w + 2 * i) * 2 + 3 < length src"
proof -
  have "y * w + (2 * i + 1) < w * h" using assms(1,2) by (rule grid_bound)
  then show ?thesis using assms(3) by simp
qed

lemma yuy2_fresh:
  assumes "even w" "source_bytes YUY2 w h \<le> length src"
  shows "yuy2_to_bgra src w h = Some (bgra_picture YUY2 src w h)"
proof -
  have size: "2 * (w * h) \<le> length src" using assms(2) by (simp add: source_bytes_def)
  have fits: "\<not> (w mod 2 \<noteq> 0 \<or> length src < w * h * 2)" using assms(1) size by (simp add: even_iff_mod_2_eq_zero)
  have b: "byte_at src ((y * w + 2 * i) * 2 + k) = Some (src ! ((y * w + 2 * i) * 2 + k))"
    if "y < h" "2 * i + 1 < w" "k \<le> 3" for y i k
    using yuy2_samples[OF that(1,2) size] that(3) by (simp add: byte_at_def)
  show ?thesis
    unfolding yuy2_to_bgra_def Let_def matrices_agree if_not_P[OF fits]
  proof (rule pairs_stored[OF assms(1)])
    fix y i out assume yi: "y < h" "2 * i + 1 < w"
    have idx: "(y * w + 2 * i + 1) * 4 = (y * w + 2 * i) * 4 + 4" by simp
    have s: "yuv_at YUY2 src w h y (2 * i) = (src ! ((y * w + 2 * i) * 2 + 0), src ! ((y * w + 2 * i) * 2 + 1), src ! ((y * w + 2 * i) * 2 + 3))"
      "yuv_at YUY2 src w h y (2 * i + 1) = (src ! ((y * w + 2 * i) * 2 + 2), src ! ((y * w + 2 * i) * 2 + 1), src ! ((y * w + 2 * i) * 2 + 3))"
      by (simp_all add: yuv_at_simps algebra_simps)
    show "(if byte_at src ((y * w + 2 * i) * 2 + 2) = None then None
        else case put_yuv yuv_to_rgb (byte_at src ((y * w + 2 * i) * 2)) (byte_at src ((y * w + 2 * i) * 2 + 1)) (byte_at src ((y * w + 2 * i) * 2 + 3)) ((y * w + 2 * i) * 4) out of
             None \<Rightarrow> None
           | Some dst \<Rightarrow> put_yuv yuv_to_rgb (byte_at src ((y * w + 2 * i) * 2 + 2)) (byte_at src ((y * w + 2 * i) * 2 + 1)) (byte_at src ((y * w + 2 * i) * 2 + 3)) ((y * w + 2 * i + 1) * 4) dst) =
      store ((y * w + 2 * i) * 4) (bgra_pixel (yuv_at YUY2 src w h y (2 * i)) @ bgra_pixel (yuv_at YUY2 src w h y (2 * i + 1))) out"
      using b[OF yi, of 0] b[OF yi, of 1] b[OF yi, of 2] b[OF yi, of 3] unfolding s idx by (simp only: add_0_right option.distinct if_False yuy2_put_pair)
  qed simp
qed

lemma yuy2_in_place:
  assumes "even w" "source_bytes YUY2 w h \<le> length src" "w * h * 4 < 2 ^ 32" "length dst = w * h * 4"
  shows "convert_yuy2_to_bgra src dst w h (w * 2) (w * 4) = Some (bgra_picture YUY2 src w h)"
proof -
  let ?body = "\<lambda>y x dst.
       if byte_at (drop (y * w * 2) src) (x * 2 + 2) = None then None
       else case put_yuv yuv_to_rgb (byte_at (drop (y * w * 2) src) (x * 2)) (byte_at (drop (y * w * 2) src) (x * 2 + 1)) (byte_at (drop (y * w * 2) src) (x * 2 + 3)) (y * w * 4 + x * 4) dst of
           None \<Rightarrow> None
         | Some dst \<Rightarrow> if x + 1 < w then put_yuv yuv_to_rgb (byte_at (drop (y * w * 2) src) (x * 2 + 2)) (byte_at (drop (y * w * 2) src) (x * 2 + 1)) (byte_at (drop (y * w * 2) src) (x * 2 + 3)) (y * w * 4 + (x + 1) * 4) dst
             else Some dst"
  have size: "2 * (w * h) \<le> length src" using assms(2) by (simp add: source_bytes_def)
  have b: "byte_at (drop (y * w * 2) src) (2 * i * 2 + k) = Some (src ! ((y * w + 2 * i) * 2 + k))"
    if "y < h" "2 * i + 1 < w" "k \<le> 3" for y i k
    using yuy2_samples[OF that(1,2) size] that(3) byte_at_drop[of "y * w * 2" "2 * i * 2 + k" src] by (simp add: algebra_simps)
  have "for_each (\<lambda>y. for_each (?body y) (map (\<lambda>i. 2 * i) [0..<(w + 1) div 2])) [0..<h] dst = Some (bgra_picture YUY2 src w h)"
  proof (rule pairs_stored[OF assms(1) _ assms(4)])
    fix y i out assume yi: "y < h" "2 * i + 1 < w"
    have idx: "y * w * 4 + (2 * i + 1) * 4 = (y * w + 2 * i) * 4 + 4" "y * w * 4 + 2 * i * 4 = (y * w + 2 * i) * 4" by simp_all
    have s: "yuv_at YUY2 src w h y (2 * i) = (src ! ((y * w + 2 * i) * 2 + 0), src ! ((y * w + 2 * i) * 2 + 1), src ! ((y * w + 2 * i) * 2 + 3))"
      "yuv_at YUY2 src w h y (2 * i + 1) = (src ! ((y * w + 2 * i) * 2 + 2), src ! ((y * w + 2 * i) * 2 + 1), src ! ((y * w + 2 * i) * 2 + 3))"
      by (simp_all add: yuv_at_simps algebra_simps)
    show "?body y (2 * i) out =
      store ((y * w + 2 * i) * 4) (bgra_pixel (yuv_at YUY2 src w h y (2 * i)) @ bgra_pixel (yuv_at YUY2 src w h y (2 * i + 1))) out"
      using b[OF yi, of 0] b[OF yi, of 1] b[OF yi, of 2] b[OF yi, of 3] yi(2) unfolding s idx
      by (simp only: add_0_right option.distinct if_False if_True yuy2_put_pair)
  qed
  moreover have "for_each (\<lambda>y dst. let s = u32_mul y (w * 2); d = u32_mul y (w * 4) in
      if s \<le> length src \<and> d \<le> length dst then yuy2_row w (drop s src) d dst else None) [0..<h] dst =
    for_each (\<lambda>y. for_each (?body y) (map (\<lambda>i. 2 * i) [0..<(w + 1) div 2])) [0..<h] dst"
  proof (rule for_each_cong_length[where n = "length dst"])
    fix y :: nat and out :: "nat list" assume "y \<in> set [0..<h]" and len: "length out = length dst"
    then have y: "y < h" by simp
    then have "y * w \<le> w * h" by (simp add: mult.commute)
    then have "y * w * 4 < 2 ^ 32" "y * w * 2 < 2 ^ 32" "y * w * 2 \<le> length src" "y * w * 4 \<le> length out"
      using assms(3,4) size len by linarith+
    moreover from this have "u32_mul y (w * 2) = y * w * 2" "u32_mul y (w * 4) = y * w * 4" by (simp_all add: u32_small mult.assoc)
    ultimately show "(let s = u32_mul y (w * 2); d = u32_mul y (w * 4) in
      if s \<le> length src \<and> d \<le> length out then yuy2_row w (drop s src) d out else None) = for_each (?body y) (map (\<lambda>i. 2 * i) [0..<(w + 1) div 2]) out"
      by (simp only: yuy2_row_def Let_def simp_thms if_True)
  qed (auto dest!: for_each_length[rotated] put_yuv_length split: if_splits option.splits)
  ultimately show ?thesis by (simp only: convert_yuy2_to_bgra_def convert_rows_def)
qed

lemma length_bgra_picture: "length (bgra_picture format src w h) = w * h * 4"
  unfolding picture_flat using length_concat_blocks[of 0 "h * w" "\<lambda>i. bgra_pixel (yuv_at format src w h (i div w) (i mod w))" 4]
  by (simp add: mult.commute)

text \<open>
  C33.  The two conversions of captured YUV pictures are equivalent: for even sizes within 32-bit arithmetic and a source of the format's size, the
  conversion in place and the one into a fresh buffer both give the picture in which every pixel is the matrix applied to its own luma and the chroma that its
  block of the format shares, and the converter keeps that picture.
\<close>

theorem capture_conversions_equivalent:
  assumes "needs_conversion format" "even w" "even h" "w * h * 4 < 2 ^ 32" "source_bytes format w h \<le> length src" "length dst = output_size w h"
  shows "convert_format src dst format BGRA w h (w * bytes_per_pixel format) (w * 4) = Some (Ok (bgra_picture format src w h)) \<and>
     convert_to_bgra src w h format c = Some (Some (bgra_picture format src w h), \<lparr>output_buffer = bgra_picture format src w h\<rparr>)"
proof -
  have d: "length dst = w * h * 4" using assms(6) by (simp add: output_size_def)
  consider "format = NV12" | "format = I420" | "format = YUY2" using assms(1) by (auto simp: needs_conversion_def)
  then have "convert_format src dst format BGRA w h (w * bytes_per_pixel format) (w * 4) = Some (Ok (bgra_picture format src w h))"
  proof cases
    case 1
    then have "convert_nv12_to_bgra src dst w h = Some (bgra_picture format src w h)" using nv12_in_place[OF assms(2,3) _ assms(4) d] assms(5) by blast
    with 1 show ?thesis by (simp add: convert_format_def)
  next
    case 2
    then have "convert_i420_to_bgra src dst w h = Some (bgra_picture format src w h)" using i420_in_place[OF assms(2,3) _ assms(4) d] assms(5) by blast
    with 2 show ?thesis by (simp add: convert_format_def)
  next
    case 3
    then have "convert_yuy2_to_bgra src dst w h (w * 2) (w * 4) = Some (bgra_picture format src w h)" using yuy2_in_place[OF assms(2) _ assms(4) d] assms(5) by blast
    with 3 show ?thesis by (simp add: convert_format_def)
  qed
  moreover have "convert_to_bgra src w h format c = Some (Some (bgra_picture format src w h), \<lparr>output_buffer = bgra_picture format src w h\<rparr>)"
    using assms by (auto simp: needs_conversion_def convert_to_bgra_def nv12_fresh i420_fresh yuy2_fresh)
  ultimately show ?thesis ..
qed

theorem capture_conversions_equivalent_witness:
  "convert_format [16, 235, 81, 145, 90, 240] (replicate 16 0) NV12 BGRA 2 2 (2 * bytes_per_pixel NV12) (2 * 4) = Some (Ok (bgra_picture NV12 [16, 235, 81, 145, 90, 240] 2 2)) \<and>
   convert_to_bgra [16, 235, 81, 145, 90, 240] 2 2 NV12 yuv_converter_new =
     Some (Some (bgra_picture NV12 [16, 235, 81, 145, 90, 240] 2 2), \<lparr>output_buffer = bgra_picture NV12 [16, 235, 81, 145, 90, 240] 2 2\<rparr>) \<and>
   bgra_picture NV12 [16, 235, 81, 145, 90, 240] 2 2 = [0, 0, 179, 255, 178, 179, 255, 255, 0, 0, 255, 255, 74, 74, 255, 255]"
proof -
  have "needs_conversion NV12" "source_bytes NV12 2 2 \<le> length [16, 235, 81, 145, 90, 240 :: nat]" "length (replicate 16 (0 :: nat)) = output_size 2 2"
    by (simp_all add: needs_conversion_def source_bytes_def output_size_def)
  moreover have "bgra_picture NV12 [16, 235, 81, 145, 90, 240] 2 2 = [0, 0, 179, 255, 178, 179, 255, 255, 0, 0, 255, 255, 74, 74, 255, 255]" by code_simp
  ultimately show ?thesis
    using capture_conversions_equivalent[of NV12 2 2 "[16, 235, 81, 145, 90, 240]" "replicate 16 0"] by simp
qed

section \<open>Strided buffers\<close>

text \<open>The buffer \<open>r\<close> is \<open>dst\<close> with row \<open>y\<close> replaced by \<open>rows y\<close>, and its padding as it was.\<close>

definition rows_replaced :: "nat list \<Rightarrow> nat \<Rightarrow> nat \<Rightarrow> (nat \<Rightarrow> nat list) \<Rightarrow> nat list \<Rightarrow> bool" where
  "rows_replaced dst stride h rows r \<longleftrightarrow>
     length r = length dst \<and>
     (\<forall>y < h. take (length (rows y)) (drop (y * stride) r) = rows y) \<and>
     (\<forall>p < length dst. (\<forall>y < h. p < y * stride \<or> y * stride + length (rows y) \<le> p) \<longrightarrow> r ! p = dst ! p)"

lemma store_window:
  assumes "store i a xs = Some ys" "j + n \<le> i \<or> i + length a \<le> j"
  shows "take n (drop j ys) = take n (drop j xs)"
proof -
  have fits: "i + length a \<le> length xs" and ys: "ys = take i xs @ a @ drop (i + length a) xs" using assms(1) by (auto simp: store_def split: if_splits)
  show ?thesis using assms(2) fits by (auto simp: ys min_def drop_take)
qed

lemma store_written: "store i a xs = Some ys \<Longrightarrow> take (length a) (drop i ys) = a"
  by (auto simp: store_def split: if_splits)

lemma store_other: "store i a xs = Some ys \<Longrightarrow> p < i \<or> i + length a \<le> p \<Longrightarrow> p < length xs \<Longrightarrow> ys ! p = xs ! p"
  by (auto simp: store_def nth_append split: if_splits)

lemma rows_stored:
  assumes "\<And>y out. y < h \<Longrightarrow> length out = length dst \<Longrightarrow> step y out = store (y * stride) (rows y) out"
    and "\<And>y. y < h \<Longrightarrow> length (rows y) \<le> stride" and "\<And>y. y < h \<Longrightarrow> y * stride + length (rows y) \<le> length dst"
  shows "\<exists>r. for_each step [0..<h] dst = Some r \<and> rows_replaced dst stride h rows r"
  using assms
proof (induction h)
  case 0
  then show ?case by (simp add: rows_replaced_def)
next
  case (Suc h)
  then obtain r where r: "for_each step [0..<h] dst = Some r" "rows_replaced dst stride h rows r" by fastforce
  have len: "length r = length dst" using r(2) by (simp add: rows_replaced_def)
  have "step h r = store (h * stride) (rows h) r" using Suc.prems(1)[of h r] len by simp
  moreover have "h * stride + length (rows h) \<le> length r" using Suc.prems(3)[of h] len by simp
  ultimately obtain r' where r': "step h r = Some r'" "store (h * stride) (rows h) r = Some r'" by (auto simp: store_def)
  have before: "y * stride + length (rows y) \<le> h * stride" if "y < h" for y
  proof -
    have "y * stride + length (rows y) \<le> y * stride + stride" using Suc.prems(2)[of y] that by simp
    also have "\<dots> \<le> h * stride" using that mult_le_mono1[of "Suc y" h stride] by simp
    finally show ?thesis .
  qed
  have "take (length (rows y)) (drop (y * stride) r') = rows y" if "y < Suc h" for y
  proof (cases "y = h")
    case True
    then show ?thesis using store_written[OF r'(2)] by simp
  next
    case False
    then have "y < h" using that by simp
    then show ?thesis using store_window[OF r'(2)] before r(2) by (simp add: rows_replaced_def)
  qed
  moreover have "r' ! p = dst ! p" if "p < length dst" "\<forall>y < Suc h. p < y * stride \<or> y * stride + length (rows y) \<le> p" for p
    using store_other[OF r'(2), of p] that r(2) len by (auto simp: rows_replaced_def)
  ultimately have "rows_replaced dst stride (Suc h) rows r'" using store_length[OF r'(2)] len by (simp add: rows_replaced_def)
  then show ?case using r(1) r'(1) by (auto simp: for_each_append)
qed

lemma copy_rows_exact:
  assumes "h * stride < 2 ^ 32" "n \<le> stride" "\<And>y. y < h \<Longrightarrow> y * stride + n \<le> length src" "\<And>y. y < h \<Longrightarrow> y * stride + n \<le> length dst"
  shows "\<exists>r. copy_rows src dst n h stride stride = Some r \<and> rows_replaced dst stride h (\<lambda>y. take n (drop (y * stride) src)) r"
  unfolding copy_rows_def
proof (rule rows_stored)
  fix y and out :: "nat list" assume y: "y < h" "length out = length dst"
  have "y * stride < 2 ^ 32" using assms(1) y(1) by (meson le_less_trans less_imp_le mult_le_mono1)
  then show "(case load n (u32_mul y stride) src of None \<Rightarrow> None | Some bytes \<Rightarrow> store (u32_mul y stride) bytes out) = store (y * stride) (take n (drop (y * stride) src)) out"
    using assms(3)[OF y(1)] by (simp add: u32_small load_def)
next
  fix y assume y: "y < h"
  show "length (take n (drop (y * stride) src)) \<le> stride" "y * stride + length (take n (drop (y * stride) src)) \<le> length dst"
    using assms(2) assms(4)[OF y] by simp_all
qed

text \<open>The pixels of a row of a packed format.\<close>

definition packed_pixel :: "pixel_format \<Rightarrow> nat list \<Rightarrow> nat \<Rightarrow> nat list" where
  "packed_pixel format src i =
     (if format = RGB then [src ! (i + 2), src ! (i + 1), src ! i, 255]
      else if format = BGR then [src ! i, src ! (i + 1), src ! (i + 2), 255]
      else [src ! (i + 2), src ! (i + 1), src ! i, src ! (i + 3)])"

definition packed_row :: "pixel_format \<Rightarrow> nat list \<Rightarrow> nat \<Rightarrow> nat \<Rightarrow> nat list" where
  "packed_row format src w off = concat (map (\<lambda>x. packed_pixel format src (off + x * bytes_per_pixel format)) [0..<w])"

lemma length_packed_row: "length (packed_row format src w off) = w * 4"
  unfolding packed_row_def using length_concat_blocks[of 0 w "\<lambda>x. packed_pixel format src (off + x * bytes_per_pixel format)" 4]
  by (simp add: packed_pixel_def)

lemma row_stored:
  assumes "\<And>x out. x < w \<Longrightarrow> step x out = store (row + x * 4) (X x) out" "\<And>x. x < w \<Longrightarrow> length (X x) = 4" "row + w * 4 \<le> length out"
  shows "for_each step [0..<w] out = store row (concat (map X [0..<w])) out"
proof -
  have "length (concat (map X [0..<w])) = w * 4" using length_concat_blocks[of 0 w X 4] assms(2) by simp
  then show ?thesis
    using for_each_stores[of 0 w step row 4 X "take row out" "drop row out"] assms by (simp add: store_def add.commute)
qed

definition row_body :: "pixel_format \<Rightarrow> nat \<Rightarrow> nat list \<Rightarrow> nat \<Rightarrow> nat list \<Rightarrow> nat list option" where
  "row_body format = (if format = RGB then rgb_row else if format = BGR then bgr_row else rgba_row)"

lemma row_body_simps: "row_body RGB = rgb_row" "row_body BGR = bgr_row" "row_body RGBA = rgba_row"
  by (simp_all add: row_body_def)

lemma packed_row_stored:
  assumes "format \<in> {RGB, BGR, RGBA}" "off + w * bytes_per_pixel format \<le> length src" "row + w * 4 \<le> length out"
  shows "row_body format w (drop off src) row out = store row (packed_row format src w off) out"
proof -
  have s: "byte_at (drop off src) (x * bytes_per_pixel format + k) = Some (src ! (off + x * bytes_per_pixel format + k))"
    if "x < w" "k < bytes_per_pixel format" for x k
  proof -
    have "x * bytes_per_pixel format + bytes_per_pixel format \<le> w * bytes_per_pixel format"
      using mult_le_mono1[of "Suc x" w "bytes_per_pixel format"] that(1) by simp
    then have "off + (x * bytes_per_pixel format + k) < length src" using assms(2) that(2) by linarith
    then show ?thesis using byte_at_drop by (simp add: add.assoc)
  qed
  consider "format = RGB" | "format = BGR" | "format = RGBA" using assms(1) by blast
  then show ?thesis
  proof cases
    case 1
    have "byte_at (drop off src) (x * 3) = Some (src ! (off + x * 3))" "byte_at (drop off src) (x * 3 + 1) = Some (src ! (off + x * 3 + 1))"
      "byte_at (drop off src) (x * 3 + 2) = Some (src ! (off + x * 3 + 2))" if "x < w" for x
      using s[OF that, of 0] s[OF that, of 1] s[OF that, of 2] 1 by simp_all
    with 1 show ?thesis
      unfolding packed_row_def by (simp only: row_body_simps rgb_row_def) (rule row_stored, simp_all add: packed_pixel_def assms(3))
  next
    case 2
    have "byte_at (drop off src) (x * 3) = Some (src ! (off + x * 3))" "byte_at (drop off src) (x * 3 + 1) = Some (src ! (off + x * 3 + 1))"
      "byte_at (drop off src) (x * 3 + 2) = Some (src ! (off + x * 3 + 2))" if "x < w" for x
      using s[OF that, of 0] s[OF that, of 1] s[OF that, of 2] 2 by simp_all
    with 2 show ?thesis
      unfolding packed_row_def by (simp only: row_body_simps bgr_row_def) (rule row_stored, simp_all add: packed_pixel_def assms(3))
  next
    case 3
    have "byte_at (drop off src) (x * 4) = Some (src ! (off + x * 4))" "byte_at (drop off src) (x * 4 + 1) = Some (src ! (off + x * 4 + 1))"
      "byte_at (drop off src) (x * 4 + 2) = Some (src ! (off + x * 4 + 2))" "byte_at (drop off src) (x * 4 + 3) = Some (src ! (off + x * 4 + 3))" if "x < w" for x
      using s[OF that, of 0] s[OF that, of 1] s[OF that, of 2] s[OF that, of 3] 3 by simp_all
    with 3 show ?thesis
      unfolding packed_row_def by (simp only: row_body_simps rgba_row_def) (rule row_stored, simp_all add: packed_pixel_def assms(3))
  qed
qed

text \<open>A packed picture is converted row by row, and the padding of the destination is kept.\<close>

lemma strided_conversion:
  assumes "format \<in> {RGB, BGR, RGBA}" "h * src_stride < 2 ^ 32" "h * dst_stride < 2 ^ 32" "w * 4 \<le> dst_stride"
    and src: "\<And>y. y < h \<Longrightarrow> y * src_stride + w * bytes_per_pixel format \<le> length src" and dst: "\<And>y. y < h \<Longrightarrow> y * dst_stride + w * 4 \<le> length dst"
  shows "\<exists>r. convert_format src dst format BGRA w h src_stride dst_stride = Some (Ok r) \<and>
    rows_replaced dst dst_stride h (\<lambda>y. packed_row format src w (y * src_stride)) r"
proof -
  have "\<exists>r. convert_rows (row_body format w) src dst h src_stride dst_stride = Some r \<and> rows_replaced dst dst_stride h (\<lambda>y. packed_row format src w (y * src_stride)) r"
    unfolding convert_rows_def
  proof (rule rows_stored)
    fix y and out :: "nat list" assume y: "y < h" "length out = length dst"
    have "y * src_stride < 2 ^ 32" "y * dst_stride < 2 ^ 32" using assms(2,3) y(1) by (meson le_less_trans less_imp_le mult_le_mono1)+
    then show "(let s = u32_mul y src_stride; d = u32_mul y dst_stride in if s \<le> length src \<and> d \<le> length out then row_body format w (drop s src) d out else None) =
      store (y * dst_stride) (packed_row format src w (y * src_stride)) out"
      using src[OF y(1)] dst[OF y(1)] y(2) packed_row_stored[OF assms(1) src[OF y(1)], of "y * dst_stride" out] by (simp add: u32_small)
  qed (use assms(4) dst in \<open>simp_all add: length_packed_row\<close>)
  moreover have "convert_format src dst format BGRA w h src_stride dst_stride = map_option Ok (convert_rows (row_body format w) src dst h src_stride dst_stride)"
    using assms(1) by (auto simp: convert_format_def row_body_def convert_rgb_to_bgra_def convert_bgr_to_bgra_def convert_rgba_to_bgra_def)
  ultimately show ?thesis by auto
qed

section \<open>Codes and sizes\<close>

lemma spa_round_trip: "from_spa (to_spa f) = Some f"
  by (cases f) simp_all

lemma drm_round_trip:
  "drm_fourcc_to_spa_video_format (spa_video_format_to_drm_fourcc v) = (if v \<in> {V_BGRx, V_BGRA, V_RGBx, V_RGBA} then Some v else None)"
  by (cases v) (simp_all add: drm_fourcc_to_spa_video_format_def DRM_FORMAT_XRGB8888_def DRM_FORMAT_ARGB8888_def DRM_FORMAT_XBGR8888_def
      DRM_FORMAT_ABGR8888_def DRM_FORMAT_INVALID_def)

lemma stride_aligned:
  assumes "w * 4 + 15 < 2 ^ 32"
  shows "16 dvd calculate_stride w v" "w * get_bytes_per_pixel v \<le> calculate_stride w v" "calculate_stride w v < w * get_bytes_per_pixel v + 16"
proof -
  have "get_bytes_per_pixel v \<le> 4" by (cases v) simp_all
  then have "w * get_bytes_per_pixel v \<le> w * 4" by simp
  then have "w * get_bytes_per_pixel v + 15 < 2 ^ 32" using assms by linarith
  then have "calculate_stride w v = (w * get_bytes_per_pixel v + 15) div 16 * 16"
    by (simp add: calculate_stride_def u32_add_def u32_mul_def)
  then show "16 dvd calculate_stride w v" "w * get_bytes_per_pixel v \<le> calculate_stride w v" "calculate_stride w v < w * get_bytes_per_pixel v + 16"
    by simp_all
qed

end
