(* ===== verification/Wrdp_Frames.thy ===== *)
theory Wrdp_Frames
  imports Wrdp_Pixel_Formats Wrdp_Float32
begin

unbundle bit_operations_syntax

text \<open>
  Captured frames (\<open>src/src/desktop/pipewire/frame.rs\<close>, with the damage regions of \<open>ffi.rs\<close>) and the changes that the display
  handler makes to a frame before it is coded (\<open>src/src/rdp/server/display_handler.rs\<close>): flipping, rotation, padding to the size of a
  macroblock and the removal of stride padding.

  Buffers are lists of bytes, a panic is \<open>None\<close>, and products of \<open>u32\<close> values wrap.
\<close>

section \<open>Frames\<close>

record ffi_damage_region =
  ffi_x :: int
  ffi_y :: int
  ffi_width :: nat
  ffi_height :: nat

definition ffi_region_is_valid :: "ffi_damage_region \<Rightarrow> bool" where
  "ffi_region_is_valid r \<longleftrightarrow> ffi_width r > 0 \<and> ffi_height r > 0"

type_synonym frame_flags = "32 word"

definition FLAG_DMABUF :: frame_flags where "FLAG_DMABUF = push_bit 0 1"
definition FLAG_GPU_PROCESSED :: frame_flags where "FLAG_GPU_PROCESSED = push_bit 1 1"
definition FLAG_KEYFRAME :: frame_flags where "FLAG_KEYFRAME = push_bit 2 1"
definition FLAG_CORRUPTED :: frame_flags where "FLAG_CORRUPTED = push_bit 3 1"
definition FLAG_INCOMPLETE :: frame_flags where "FLAG_INCOMPLETE = push_bit 4 1"

definition has_dmabuf :: "frame_flags \<Rightarrow> bool" where "has_dmabuf bits \<longleftrightarrow> bits AND FLAG_DMABUF \<noteq> 0"
definition set_dmabuf :: "frame_flags \<Rightarrow> frame_flags" where "set_dmabuf bits = bits OR FLAG_DMABUF"
definition has_gpu_processed :: "frame_flags \<Rightarrow> bool" where "has_gpu_processed bits \<longleftrightarrow> bits AND FLAG_GPU_PROCESSED \<noteq> 0"
definition set_gpu_processed :: "frame_flags \<Rightarrow> frame_flags" where "set_gpu_processed bits = bits OR FLAG_GPU_PROCESSED"
definition is_keyframe :: "frame_flags \<Rightarrow> bool" where "is_keyframe bits \<longleftrightarrow> bits AND FLAG_KEYFRAME \<noteq> 0"
definition set_keyframe :: "frame_flags \<Rightarrow> frame_flags" where "set_keyframe bits = bits OR FLAG_KEYFRAME"
definition is_corrupted :: "frame_flags \<Rightarrow> bool" where "is_corrupted bits \<longleftrightarrow> bits AND FLAG_CORRUPTED \<noteq> 0"
definition is_incomplete :: "frame_flags \<Rightarrow> bool" where "is_incomplete bits \<longleftrightarrow> bits AND FLAG_INCOMPLETE \<noteq> 0"

text \<open>The capture time is a point of the system's clock in nanoseconds.\<close>

record video_frame =
  vf_frame_id :: nat
  vf_pts :: nat
  vf_dts :: nat
  vf_duration :: nat
  vf_width :: nat
  vf_height :: nat
  vf_stride :: nat
  vf_format :: pixel_format
  vf_monitor_index :: nat
  vf_data :: "nat list"
  vf_capture_time :: nat
  vf_damage_regions :: "ffi_damage_region list"
  vf_flags :: frame_flags

definition frame_with_data :: "nat \<Rightarrow> nat \<Rightarrow> nat \<Rightarrow> nat \<Rightarrow> nat \<Rightarrow> pixel_format \<Rightarrow> nat \<Rightarrow> nat list \<Rightarrow> video_frame" where
  "frame_with_data now frame_id width height stride format monitor_index data =
     \<lparr>vf_frame_id = frame_id, vf_pts = 0, vf_dts = 0, vf_duration = 0, vf_width = width, vf_height = height, vf_stride = stride,
      vf_format = format, vf_monitor_index = monitor_index, vf_data = data, vf_capture_time = now, vf_damage_regions = [], vf_flags = 0\<rparr>"

definition frame_new :: "nat \<Rightarrow> nat \<Rightarrow> nat \<Rightarrow> nat \<Rightarrow> nat \<Rightarrow> pixel_format \<Rightarrow> nat \<Rightarrow> video_frame" where
  "frame_new now frame_id width height stride format monitor_index =
     \<lparr>vf_frame_id = frame_id, vf_pts = 0, vf_dts = 0, vf_duration = 0, vf_width = width, vf_height = height, vf_stride = stride,
      vf_format = format, vf_monitor_index = monitor_index, vf_data = [], vf_capture_time = now, vf_damage_regions = [], vf_flags = 0\<rparr>"

definition set_timing :: "nat \<Rightarrow> nat \<Rightarrow> nat \<Rightarrow> video_frame \<Rightarrow> video_frame" where
  "set_timing pts dts duration f = f\<lparr>vf_pts := pts, vf_dts := dts, vf_duration := duration\<rparr>"

definition add_damage_region :: "ffi_damage_region \<Rightarrow> video_frame \<Rightarrow> video_frame" where
  "add_damage_region region f =
     (if ffi_region_is_valid region then f\<lparr>vf_damage_regions := vf_damage_regions f @ [region]\<rparr> else f)"

definition total_damage_area :: "video_frame \<Rightarrow> nat" where
  "total_damage_area f = foldl u32_add 0 (map (\<lambda>r. u32_mul (ffi_width r) (ffi_height r)) (vf_damage_regions f))"

definition has_significant_damage :: "video_frame \<Rightarrow> f32 \<Rightarrow> bool" where
  "has_significant_damage f threshold \<longleftrightarrow>
     (if vf_damage_regions f = [] then True
      else let total_pixels = u32_mul (vf_width f) (vf_height f); damage_pixels = total_damage_area f
           in fle threshold (f32_over (f32_nat damage_pixels) (f32_nat total_pixels)))"

definition frame_age :: "nat \<Rightarrow> video_frame \<Rightarrow> duration" where
  "frame_age now f = (if vf_capture_time f \<le> now then now - vf_capture_time f else 0)"

definition is_fresh :: "nat \<Rightarrow> duration \<Rightarrow> video_frame \<Rightarrow> bool" where
  "is_fresh now max_age f \<longleftrightarrow> frame_age now f \<le> max_age"

definition data_size :: "video_frame \<Rightarrow> nat" where
  "data_size f = length (vf_data f)"

definition frame_is_valid :: "video_frame \<Rightarrow> bool" where
  "frame_is_valid f \<longleftrightarrow> vf_data f \<noteq> [] \<and> \<not> is_corrupted (vf_flags f) \<and> \<not> is_incomplete (vf_flags f)"

section \<open>Statistics\<close>

record frame_stats =
  fs_frames_processed :: nat
  fs_bytes_processed :: nat
  fs_frames_dropped :: nat
  fs_avg_frame_size :: f64
  fs_avg_fps :: f64
  fs_last_frame_time :: "nat option"
  fs_dmabuf_frames :: nat
  fs_memory_frames :: nat

definition frame_stats_default :: frame_stats where
  "frame_stats_default = \<lparr>fs_frames_processed = 0, fs_bytes_processed = 0, fs_frames_dropped = 0, fs_avg_frame_size = Fin 0,
     fs_avg_fps = Fin 0, fs_last_frame_time = None, fs_dmabuf_frames = 0, fs_memory_frames = 0\<rparr>"

definition average_fps :: "nat \<Rightarrow> nat \<Rightarrow> f64 \<Rightarrow> f64" where
  "average_fps last_time time avg =
     (if last_time \<le> time then
        let interval_secs = Fin (as_secs_f64 (time - last_time)) in
        if flt (Fin 0) interval_secs then
          fadd (fmul avg (f64_make (9 / 10))) (fmul (fdiv (Fin 1) interval_secs) (f64_make (1 / 10)))
        else avg
      else avg)"

definition frame_stats_update :: "video_frame \<Rightarrow> frame_stats \<Rightarrow> frame_stats" where
  "frame_stats_update f s =
     (let frames = fs_frames_processed s + 1;
          bytes = fs_bytes_processed s + data_size f;
          s = s\<lparr>fs_frames_processed := frames, fs_bytes_processed := bytes,
                fs_avg_frame_size := fdiv (f64_int (int bytes)) (f64_int (int frames)),
                fs_avg_fps := (case fs_last_frame_time s of None \<Rightarrow> fs_avg_fps s | Some t \<Rightarrow> average_fps t (vf_capture_time f) (fs_avg_fps s)),
                fs_last_frame_time := Some (vf_capture_time f)\<rparr>
      in if has_dmabuf (vf_flags f) then s\<lparr>fs_dmabuf_frames := fs_dmabuf_frames s + 1\<rparr>
         else s\<lparr>fs_memory_frames := fs_memory_frames s + 1\<rparr>)"

definition record_drop :: "frame_stats \<Rightarrow> frame_stats" where
  "record_drop s = s\<lparr>fs_frames_dropped := fs_frames_dropped s + 1\<rparr>"

definition drop_rate :: "frame_stats \<Rightarrow> f64" where
  "drop_rate s =
     (if fs_frames_processed s = 0 then Fin 0
      else fdiv (f64_int (int (fs_frames_dropped s))) (f64_int (int (fs_frames_processed s + fs_frames_dropped s))))"

definition dmabuf_rate :: "frame_stats \<Rightarrow> f64" where
  "dmabuf_rate s =
     (if fs_frames_processed s = 0 then Fin 0
      else fdiv (f64_int (int (fs_dmabuf_frames s))) (f64_int (int (fs_frames_processed s))))"

section \<open>Changes of a frame\<close>

text \<open>A copy of every pixel from where \<open>src_xy\<close> says.  A frame with too little data is left as it is.\<close>

definition copy_frame_with_transform ::
  "(nat \<Rightarrow> nat \<Rightarrow> nat \<Rightarrow> nat \<Rightarrow> nat \<times> nat) \<Rightarrow> video_frame \<Rightarrow> video_frame option" where
  "copy_frame_with_transform src_xy f =
     (let bpp = bytes_per_pixel (vf_format f);
          width = vf_width f; height = vf_height f; src_stride = vf_stride f;
          dst_stride = width * bpp;
          required_src_len = src_stride * (height - 1) + dst_stride
      in if width = 0 \<or> height = 0 \<or> bpp = 0 then Some f
         else if length (vf_data f) < required_src_len then Some f
         else case for_each (\<lambda>y. for_each (\<lambda>x dst.
                case src_xy x y width height of (src_x, src_y) \<Rightarrow>
                  (case load bpp (src_y * src_stride + src_x * bpp) (vf_data f) of
                     None \<Rightarrow> None
                   | Some pixel \<Rightarrow> store (y * dst_stride + x * bpp) pixel dst)) [0..<width]) [0..<height]
                (replicate (dst_stride * height) 0) of
              None \<Rightarrow> None
            | Some transformed \<Rightarrow>
                Some (f\<lparr>vf_stride := dst_stride mod 2 ^ 32, vf_data := transformed, vf_damage_regions := []\<rparr>))"

definition flip_frame_vertical :: "video_frame \<Rightarrow> video_frame option" where
  "flip_frame_vertical = copy_frame_with_transform (\<lambda>x y width height. (x, height - 1 - y))"

definition rotate_frame_180 :: "video_frame \<Rightarrow> video_frame option" where
  "rotate_frame_180 = copy_frame_with_transform (\<lambda>x y width height. (width - 1 - x, height - 1 - y))"

text \<open>Copies a frame into a larger one and repeats its last column and row.\<close>

definition pad_row :: "nat list \<Rightarrow> nat \<Rightarrow> nat \<Rightarrow> nat \<Rightarrow> nat list \<Rightarrow> nat list option" where
  "pad_row data width aligned_width y padded =
     (let src_stride = u32_mul width 4; dst_stride = u32_mul aligned_width 4;
          src_offset = u32_mul y src_stride; dst_offset = u32_mul y dst_stride
      in case load src_stride src_offset data of
           None \<Rightarrow> None
         | Some row \<Rightarrow>
             (case store dst_offset row padded of
                None \<Rightarrow> None
              | Some padded \<Rightarrow>
                  if aligned_width > width then
                    let last_pixel_src = src_offset + (src_stride + 2 ^ 32 - 4) mod 2 ^ 32 in
                    for_each (\<lambda>x padded.
                      case load 4 last_pixel_src data of
                        None \<Rightarrow> None
                      | Some pixel \<Rightarrow> store (u32_add (u32_mul y dst_stride) (u32_mul x 4)) pixel padded) [width..<aligned_width] padded
                  else Some padded))"

definition pad_frame_to_aligned :: "nat list \<Rightarrow> nat \<Rightarrow> nat \<Rightarrow> nat \<Rightarrow> nat \<Rightarrow> nat list option" where
  "pad_frame_to_aligned data width height aligned_width aligned_height =
     (let dst_stride = u32_mul aligned_width 4;
          padded = replicate (u32_mul (u32_mul aligned_width aligned_height) 4) 0
      in case for_each (pad_row data width aligned_width) [0..<height] padded of
           None \<Rightarrow> None
         | Some padded \<Rightarrow>
             if aligned_height > height then
               (case load dst_stride (u32_mul ((height + 2 ^ 32 - 1) mod 2 ^ 32) dst_stride) padded of
                  None \<Rightarrow> None
                | Some last_row \<Rightarrow> for_each (\<lambda>y padded. store (u32_mul y dst_stride) last_row padded) [height..<aligned_height] padded)
             else Some padded)"

text \<open>The same frame with tightly packed rows.\<close>

definition compact_frame :: "video_frame \<Rightarrow> video_frame option" where
  "compact_frame f =
     (let row_bytes = min (vf_width f * bytes_per_pixel (vf_format f)) (2 ^ 32 - 1) in
      if vf_stride f = row_bytes then Some f
      else let required_len = (vf_height f - 1) * vf_stride f + row_bytes in
        if length (vf_data f) < required_len then Some f
        else case copy_rows (vf_data f) (replicate (u32_mul row_bytes (vf_height f)) 0) row_bytes (vf_height f) (vf_stride f) row_bytes of
               None \<Rightarrow> None
             | Some packed \<Rightarrow> Some (f\<lparr>vf_stride := row_bytes, vf_data := packed, vf_damage_regions := []\<rparr>))"

section \<open>Pictures\<close>

definition frame_pixel :: "nat list \<Rightarrow> nat \<Rightarrow> nat \<Rightarrow> nat \<Rightarrow> nat \<Rightarrow> nat list" where
  "frame_pixel data stride bpp x y = take bpp (drop (y * stride + x * bpp) data)"

text \<open>The rows of a frame, from the top, as lists of pixels.\<close>

definition frame_picture :: "video_frame \<Rightarrow> nat list list list" where
  "frame_picture f =
     map (\<lambda>y. map (\<lambda>x. frame_pixel (vf_data f) (vf_stride f) (bytes_per_pixel (vf_format f)) x y) [0..<vf_width f]) [0..<vf_height f]"

definition well_formed_frame :: "video_frame \<Rightarrow> bool" where
  "well_formed_frame f \<longleftrightarrow> 0 < vf_width f \<and> 0 < vf_height f \<and> vf_width f * bytes_per_pixel (vf_format f) \<le> vf_stride f \<and>
     vf_stride f * vf_height f < 2 ^ 32 \<and>
     vf_stride f * (vf_height f - 1) + vf_width f * bytes_per_pixel (vf_format f) \<le> length (vf_data f)"

lemma bytes_per_pixel_pos [simp]: "0 < bytes_per_pixel f"
  by (cases f) simp_all

lemma row_before: "y < h \<Longrightarrow> y * s \<le> s * (h - 1)" for y h s :: nat
proof -
  assume "y < h"
  then have "y \<le> h - 1" by linarith
  then have "y * s \<le> (h - 1) * s" by (rule mult_le_mono1)
  then show ?thesis by (simp only: mult.commute)
qed

lemma concat_block:
  assumes "\<And>i. i < n \<Longrightarrow> length (X i) = c" "i < n"
  shows "take c (drop (i * c) (concat (map X [0..<n]))) = X i"
proof -
  have "[0..<n] = [0..<i] @ [i..<n]" using assms(2) upt_add_eq_append[of 0 i "n - i"] by simp
  then have "[0..<n] = [0..<i] @ i # [Suc i..<n]" using assms(2) by (simp only: upt_conv_Cons)
  moreover have "length (concat (map X [0..<i])) = i * c" using length_concat_blocks[of 0 i X c] assms by simp
  ultimately show ?thesis using assms by simp
qed

lemma frame_window:
  assumes "well_formed_frame f" "x < vf_width f" "y < vf_height f"
  shows "y * vf_stride f + x * bytes_per_pixel (vf_format f) + bytes_per_pixel (vf_format f) \<le> length (vf_data f)"
    "length (frame_pixel (vf_data f) (vf_stride f) (bytes_per_pixel (vf_format f)) x y) = bytes_per_pixel (vf_format f)"
proof -
  let ?b = "bytes_per_pixel (vf_format f)"
  have "x * ?b + ?b \<le> vf_width f * ?b" using mult_le_mono1[of "Suc x" "vf_width f" ?b] assms(2) by simp
  moreover have "y * vf_stride f \<le> vf_stride f * (vf_height f - 1)" using assms(3) by (rule row_before)
  ultimately show *: "y * vf_stride f + x * ?b + ?b \<le> length (vf_data f)" using assms(1) unfolding well_formed_frame_def by linarith
  show "length (frame_pixel (vf_data f) (vf_stride f) ?b x y) = ?b" using * by (simp add: frame_pixel_def)
qed

lemma packed_picture:
  assumes "\<And>i. i < vf_width f * vf_height f \<Longrightarrow> length (X i) = bytes_per_pixel (vf_format f)"
    and "vf_data f = concat (map X [0..<vf_height f * vf_width f])" "vf_stride f = vf_width f * bytes_per_pixel (vf_format f)"
  shows "frame_picture f = map (\<lambda>y. map (\<lambda>x. X (y * vf_width f + x)) [0..<vf_width f]) [0..<vf_height f]"
proof -
  let ?b = "bytes_per_pixel (vf_format f)" let ?w = "vf_width f"
  have "frame_pixel (vf_data f) (vf_stride f) ?b x y = X (y * ?w + x)" if "x < ?w" "y < vf_height f" for x y
  proof -
    have "y * vf_stride f + x * ?b = (y * ?w + x) * ?b" by (simp add: assms(3) algebra_simps)
    moreover have "y * ?w + x < vf_height f * ?w" using grid_bound[OF that(2,1)] by (simp add: mult.commute)
    ultimately show ?thesis
      unfolding frame_pixel_def assms(2) using assms(1) concat_block[of "vf_height f * ?w" X ?b] by (simp add: mult.commute[of ?w])
  qed
  then show ?thesis by (simp add: frame_picture_def)
qed

lemma transform_picture:
  assumes f: "well_formed_frame f" and src: "\<And>x y. x < vf_width f \<Longrightarrow> y < vf_height f \<Longrightarrow>
      fst (src_xy x y (vf_width f) (vf_height f)) < vf_width f \<and> snd (src_xy x y (vf_width f) (vf_height f)) < vf_height f"
  shows "\<exists>g. copy_frame_with_transform src_xy f = Some g \<and> vf_stride g = vf_width f * bytes_per_pixel (vf_format f) \<and>
    frame_picture g = map (\<lambda>y. map (\<lambda>x. case src_xy x y (vf_width f) (vf_height f) of (sx, sy) \<Rightarrow> frame_picture f ! sy ! sx) [0..<vf_width f]) [0..<vf_height f]"
proof -
  let ?w = "vf_width f" let ?h = "vf_height f" let ?b = "bytes_per_pixel (vf_format f)"
  let ?p = "\<lambda>x y. frame_pixel (vf_data f) (vf_stride f) ?b (fst (src_xy x y ?w ?h)) (snd (src_xy x y ?w ?h))"
  let ?X = "\<lambda>i. ?p (i mod ?w) (i div ?w)"
  have len: "length (?p x y) = ?b" if "x < ?w" "y < ?h" for x y using frame_window(2)[OF f] src[OF that] by blast
  have lenX: "length (?X i) = ?b" if "i < ?h * ?w" for i
    using that len[of "i mod ?w" "i div ?w"] f by (simp add: well_formed_frame_def less_mult_imp_div_less)
  have w: "?w \<noteq> 0" "?h \<noteq> 0" "?b \<noteq> 0" "\<not> length (vf_data f) < vf_stride f * (?h - 1) + ?w * ?b" using f by (auto simp: well_formed_frame_def)
  have "?w * ?b \<le> vf_stride f" using f by (simp add: well_formed_frame_def)
  also have "\<dots> \<le> vf_stride f * ?h" using w(2) by simp
  finally have small: "?w * ?b < 2 ^ 32" using f by (simp add: well_formed_frame_def)
  have "for_each (\<lambda>y. for_each (\<lambda>x dst.
      case src_xy x y ?w ?h of (src_x, src_y) \<Rightarrow>
        (case load ?b (src_y * vf_stride f + src_x * ?b) (vf_data f) of
           None \<Rightarrow> None
         | Some pixel \<Rightarrow> store (y * (?w * ?b) + x * ?b) pixel dst)) [0..<?w]) [0..<?h] (replicate (?w * ?b * ?h) 0) = Some (concat (map ?X [0..<?h * ?w]))"
  proof (rule grid_stores[where c = ?b])
    fix y x and out :: "nat list" assume yx: "y < ?h" "x < ?w"
    have "snd (src_xy x y ?w ?h) * vf_stride f + fst (src_xy x y ?w ?h) * ?b + ?b \<le> length (vf_data f)"
      using frame_window(1)[OF f] src[OF yx(2,1)] by blast
    then have "load ?b (snd (src_xy x y ?w ?h) * vf_stride f + fst (src_xy x y ?w ?h) * ?b) (vf_data f) = Some (?p x y)"
      by (simp add: load_def frame_pixel_def)
    moreover have "y * (?w * ?b) + x * ?b = (y * ?w + x) * ?b" by (simp add: algebra_simps)
    moreover have "(y * ?w + x) mod ?w = x" "(y * ?w + x) div ?w = y" using yx(2) by simp_all
    ultimately show "(case src_xy x y ?w ?h of (src_x, src_y) \<Rightarrow>
        (case load ?b (src_y * vf_stride f + src_x * ?b) (vf_data f) of None \<Rightarrow> None | Some pixel \<Rightarrow> store (y * (?w * ?b) + x * ?b) pixel out)) =
      store ((y * ?w + x) * ?b) (?X (y * ?w + x)) out"
      by (simp add: case_prod_beta)
  qed (use lenX in \<open>simp_all add: algebra_simps\<close>)
  then have g: "copy_frame_with_transform src_xy f =
      Some (f\<lparr>vf_stride := ?w * ?b, vf_data := concat (map ?X [0..<?h * ?w]), vf_damage_regions := []\<rparr>)" (is "_ = Some ?g")
    using w small unfolding copy_frame_with_transform_def Let_def by (simp only: simp_thms if_False option.case mod_less)
  have "frame_picture ?g = map (\<lambda>y. map (\<lambda>x. ?X (y * ?w + x)) [0..<?w]) [0..<?h]"
    using packed_picture[of ?g ?X] lenX by (simp add: mult.commute)
  also have "\<dots> = map (\<lambda>y. map (\<lambda>x. case src_xy x y ?w ?h of (sx, sy) \<Rightarrow> frame_picture f ! sy ! sx) [0..<?w]) [0..<?h]"
    using src by (auto simp: frame_picture_def case_prod_beta)
  finally show ?thesis using g by auto
qed

lemma rev_rows: "rev (map F [0..<n]) = map (\<lambda>i. F (n - 1 - i)) [0..<n]"
  by (rule nth_equalityI) (simp_all add: rev_nth)

lemma flip_picture:
  assumes "well_formed_frame f"
  shows "\<exists>g. flip_frame_vertical f = Some g \<and> vf_stride g = vf_width f * bytes_per_pixel (vf_format f) \<and> frame_picture g = rev (frame_picture f)"
proof -
  have "rev (frame_picture f) = map (\<lambda>y. map (\<lambda>x. frame_picture f ! (vf_height f - 1 - y) ! x) [0..<vf_width f]) [0..<vf_height f]"
    unfolding frame_picture_def rev_rows by (rule map_cong) simp_all
  then show ?thesis
    using transform_picture[OF assms, of "\<lambda>x y width height. (x, height - 1 - y)"] by (simp add: flip_frame_vertical_def)
qed

lemma rotate_picture:
  assumes "well_formed_frame f"
  shows "\<exists>g. rotate_frame_180 f = Some g \<and> vf_stride g = vf_width f * bytes_per_pixel (vf_format f) \<and> frame_picture g = rev (map rev (frame_picture f))"
proof -
  have "rev (map rev (frame_picture f)) = map (\<lambda>y. map (\<lambda>x. frame_picture f ! (vf_height f - 1 - y) ! (vf_width f - 1 - x)) [0..<vf_width f]) [0..<vf_height f]"
    unfolding frame_picture_def map_map comp_def rev_rows by (rule map_cong) simp_all
  then show ?thesis
    using transform_picture[OF assms, of "\<lambda>x y width height. (width - 1 - x, height - 1 - y)"] by (simp add: rotate_frame_180_def)
qed

lemma compact_picture:
  assumes f: "well_formed_frame f"
  shows "\<exists>g. compact_frame f = Some g \<and> vf_stride g = vf_width f * bytes_per_pixel (vf_format f) \<and> frame_picture g = frame_picture f"
proof -
  let ?w = "vf_width f" let ?h = "vf_height f" let ?b = "bytes_per_pixel (vf_format f)" let ?n = "vf_width f * bytes_per_pixel (vf_format f)"
  let ?row = "\<lambda>y. take ?n (drop (y * vf_stride f) (vf_data f))"
  have h: "0 < ?h" and s: "?n \<le> vf_stride f" "vf_stride f * ?h < 2 ^ 32" and d: "vf_stride f * (?h - 1) + ?n \<le> length (vf_data f)"
    using f by (auto simp: well_formed_frame_def)
  have "vf_stride f \<le> vf_stride f * ?h" using h by simp
  then have row: "min ?n (2 ^ 32 - 1) = ?n" using s by linarith
  show ?thesis
  proof (cases "vf_stride f = ?n")
    case True
    then show ?thesis using row by (simp add: compact_frame_def)
  next
    case False
    have nh: "?n * ?h < 2 ^ 32" using s le_less_trans[OF mult_le_mono1[OF s(1), of ?h]] by blast
    have small: "y * vf_stride f < 2 ^ 32" "y * ?n < 2 ^ 32" "y * vf_stride f + ?n \<le> length (vf_data f)" if "y < ?h" for y
    proof -
      have "y * vf_stride f \<le> vf_stride f * ?h" "y * ?n \<le> ?n * ?h" using that by (simp_all add: mult.commute)
      then show "y * vf_stride f < 2 ^ 32" "y * ?n < 2 ^ 32" using s(2) nh by linarith+
      have "y * vf_stride f \<le> vf_stride f * (?h - 1)" using that by (rule row_before)
      then show "y * vf_stride f + ?n \<le> length (vf_data f)" using d by linarith
    qed
    have len: "length (?row y) = ?n" if "y < ?h" for y using small(3)[OF that] by simp
    have "for_each (\<lambda>y dst. case load ?n (u32_mul y (vf_stride f)) (vf_data f) of None \<Rightarrow> None | Some bytes \<Rightarrow> store (u32_mul y ?n) bytes dst)
        [0..<?h] ([] @ replicate (?n * ?h) 0) = Some ([] @ concat (map ?row [0..<?h]) @ drop ((?h - 0) * ?n) (replicate (?n * ?h) 0))"
      by (rule for_each_stores[where base = 0 and c = ?n])
        (use small in \<open>simp_all add: u32_small load_def mult.commute len del: length_take\<close>)
    then have c: "copy_rows (vf_data f) (replicate (u32_mul ?n ?h) 0) ?n ?h (vf_stride f) ?n = Some (concat (map ?row [0..<?h]))"
      using nh by (simp add: copy_rows_def u32_small)
    have g: "compact_frame f = Some (f\<lparr>vf_stride := ?n, vf_data := concat (map ?row [0..<?h]), vf_damage_regions := []\<rparr>)" (is "_ = Some ?g")
      using False d unfolding compact_frame_def Let_def row by (simp only: c if_False option.case not_less[symmetric] mult.commute)
    have "frame_pixel (concat (map ?row [0..<?h])) ?n ?b x y = frame_pixel (vf_data f) (vf_stride f) ?b x y" if "x < ?w" "y < ?h" for x y
    proof -
      have xb: "x * ?b + ?b \<le> ?n" using mult_le_mono1[of "Suc x" ?w ?b] that(1) by simp
      have "frame_pixel (concat (map ?row [0..<?h])) ?n ?b x y = take ?b (drop (x * ?b) (take ?n (drop (y * ?n) (concat (map ?row [0..<?h])))))"
        using xb by (simp add: frame_pixel_def drop_take min_def add.commute)
      also have "take ?n (drop (y * ?n) (concat (map ?row [0..<?h]))) = ?row y"
        using len that(2) by (intro concat_block)
      also have "take ?b (drop (x * ?b) (?row y)) = frame_pixel (vf_data f) (vf_stride f) ?b x y"
        using xb by (simp add: frame_pixel_def drop_take min_def add.commute)
      finally show ?thesis .
    qed
    then have "frame_picture ?g = frame_picture f" by (simp add: frame_picture_def)
    with g show ?thesis by auto
  qed
qed

text \<open>
  The changes of a frame are the geometric ones: for a well-formed frame, removing the stride padding keeps the picture, flipping reverses its rows
  and rotating reverses its rows and the pixels of each row; none of them panics and all give tightly packed rows.
\<close>

theorem frame_changes_exact:
  assumes "well_formed_frame f"
  shows "map_option (\<lambda>g. (vf_stride g, frame_picture g)) (compact_frame f) = Some (vf_width f * bytes_per_pixel (vf_format f), frame_picture f)"
    and "map_option (\<lambda>g. (vf_stride g, frame_picture g)) (flip_frame_vertical f) = Some (vf_width f * bytes_per_pixel (vf_format f), rev (frame_picture f))"
    and "map_option (\<lambda>g. (vf_stride g, frame_picture g)) (rotate_frame_180 f) = Some (vf_width f * bytes_per_pixel (vf_format f), rev (map rev (frame_picture f)))"
  using compact_picture[OF assms] flip_picture[OF assms] rotate_picture[OF assms] by auto

definition strided_frame :: video_frame where
  "strided_frame = frame_with_data 0 1 2 2 8 BGR 0 [1, 2, 3, 4, 5, 6, 0, 0, 7, 8, 9, 10, 11, 12]"

theorem frame_changes_exact_witness:
  "map_option (\<lambda>g. (vf_stride g, frame_picture g)) (compact_frame strided_frame) = Some (6, [[[1, 2, 3], [4, 5, 6]], [[7, 8, 9], [10, 11, 12]]]) \<and>
   map_option (\<lambda>g. (vf_stride g, frame_picture g)) (flip_frame_vertical strided_frame) = Some (6, [[[7, 8, 9], [10, 11, 12]], [[1, 2, 3], [4, 5, 6]]]) \<and>
   map_option (\<lambda>g. (vf_stride g, frame_picture g)) (rotate_frame_180 strided_frame) = Some (6, [[[10, 11, 12], [7, 8, 9]], [[4, 5, 6], [1, 2, 3]]])"
proof -
  have "well_formed_frame strided_frame" by (simp add: well_formed_frame_def strided_frame_def frame_with_data_def)
  moreover have "frame_picture strided_frame = [[[1, 2, 3], [4, 5, 6]], [[7, 8, 9], [10, 11, 12]]]" by code_simp
  moreover have "vf_width strided_frame * bytes_per_pixel (vf_format strided_frame) = 6" by (simp add: strided_frame_def frame_with_data_def)
  ultimately show ?thesis using frame_changes_exact[of strided_frame] by simp
qed

text \<open>Of the planar formats only the luma is copied, so that a changed frame has no chroma left.\<close>

lemma planar_frames_lose_chroma:
  assumes "well_formed_frame f" "vf_format f \<in> {NV12, I420}" "flip_frame_vertical f = Some g"
  shows "vf_format g = vf_format f \<and> length (vf_data g) = vf_width f * vf_height f"
proof -
  have f: "0 < vf_width f" "0 < vf_height f" "\<not> length (vf_data f) < vf_stride f * (vf_height f - 1) + vf_width f" "bytes_per_pixel (vf_format f) = 1"
    using assms(1,2) by (auto simp: well_formed_frame_def)
  have step: "length s' = length s" if "(case load b i d of None \<Rightarrow> None | Some pixel \<Rightarrow> store j pixel s) = Some s'" for b i d j s s'
    using that store_length by (auto split: option.splits)
  show ?thesis
    using assms(3) f unfolding flip_frame_vertical_def copy_frame_with_transform_def Let_def
    by (auto split: option.splits dest!: for_each_length[rotated] step)
qed

section \<open>Padding\<close>

text \<open>The padded picture: a pixel outside the frame is the nearest one of its last column and row.\<close>

definition edge_row :: "nat list \<Rightarrow> nat \<Rightarrow> nat \<Rightarrow> nat \<Rightarrow> nat list" where
  "edge_row data w aw y = concat (map (\<lambda>x. frame_pixel data (w * 4) 4 (min x (w - 1)) y) [0..<aw])"

definition edge_padded :: "nat list \<Rightarrow> nat \<Rightarrow> nat \<Rightarrow> nat \<Rightarrow> nat \<Rightarrow> nat list" where
  "edge_padded data w h aw ah = concat (map (\<lambda>y. edge_row data w aw (min y (h - 1))) [0..<ah])"

lemma length_pixel: "x < w \<Longrightarrow> y < h \<Longrightarrow> w * h * 4 \<le> length data \<Longrightarrow> length (frame_pixel data (w * 4) 4 x y) = 4"
proof -
  assume "x < w" "y < h" and d: "w * h * 4 \<le> length data"
  then have "(y * w + x) * 4 + 4 \<le> w * h * 4" using grid_bound[of y h x w] by simp
  then have "y * (w * 4) + x * 4 + 4 \<le> length data" using d by (simp add: algebra_simps)
  then show ?thesis by (simp add: frame_pixel_def)
qed

lemma length_edge_row:
  assumes "0 < w" "y < h" "w * h * 4 \<le> length data"
  shows "length (edge_row data w aw y) = aw * 4"
  unfolding edge_row_def using length_concat_blocks[of 0 aw "\<lambda>x. frame_pixel data (w * 4) 4 (min x (w - 1)) y" 4] length_pixel[of _ w y h data] assms
  by (simp add: min_less_iff_disj)

lemma row_pixels:
  assumes "y < h" "w * h * 4 \<le> length data"
  shows "take (w * 4) (drop (y * (w * 4)) data) = concat (map (\<lambda>x. frame_pixel data (w * 4) 4 x y) [0..<w])"
proof -
  have "n \<le> w \<Longrightarrow> take (n * 4) (drop (y * (w * 4)) data) = concat (map (\<lambda>x. frame_pixel data (w * 4) 4 x y) [0..<n])" for n
  proof (induction n)
    case (Suc n)
    then show ?case by (simp add: frame_pixel_def take_add add.commute[of 4] add.commute[of "y * _"])
  qed simp
  then show ?thesis by simp
qed

lemma pad_row_stored:
  assumes small: "aw * ah * 4 < 2 ^ 32" and w: "0 < w" "w \<le> aw" and h: "h \<le> ah" and y: "y < h" and d: "w * h * 4 \<le> length data"
    and out: "length out = aw * ah * 4"
  shows "pad_row data w aw y out = store (y * (aw * 4)) (edge_row data w aw y) out"
proof -
  let ?px = "\<lambda>x. frame_pixel data (w * 4) 4 (min x (w - 1)) y"
  have ya: "y < ah" using y h by simp
  have grid: "(y * aw + x) * 4 < 2 ^ 32" if "x \<le> aw" for x
  proof -
    have "y * aw + x \<le> Suc y * aw" using that by simp
    also have "\<dots> \<le> aw * ah" using ya mult_le_mono1[of "Suc y" ah aw] by (simp add: mult.commute)
    finally have "(y * aw + x) * 4 \<le> aw * ah * 4" by (rule mult_le_mono1)
    then show ?thesis using small by (rule le_less_trans)
  qed
  have yw: "y * (w * 4) \<le> y * (aw * 4)" using w(2) by simp
  have yaw: "y * (aw * 4) + aw * 4 \<le> length out"
  proof -
    have "y * (aw * 4) + aw * 4 = Suc y * aw * 4" by (simp add: algebra_simps)
    also have "\<dots> \<le> ah * aw * 4" using ya by (intro mult_le_mono1) simp
    finally show ?thesis using out by (simp add: mult.commute)
  qed
  have aw4: "aw * 4 < 2 ^ 32" "w * 4 < 2 ^ 32" "y * (aw * 4) < 2 ^ 32" "y * (w * 4) < 2 ^ 32"
    using yaw yw out small w(2) by linarith+
  have words: "u32_mul w 4 = w * 4" "u32_mul aw 4 = aw * 4" "u32_mul y (w * 4) = y * (w * 4)" "u32_mul y (aw * 4) = y * (aw * 4)"
    using aw4 by (simp_all only: u32_small)
  have last: "(w * 4 + 2 ^ 32 - 4) mod 2 ^ 32 = (w - 1) * 4" using w(1) aw4(2) by (cases w) simp_all
  have row: "y * (w * 4) + w * 4 \<le> length data"
  proof -
    have "Suc y * w * 4 \<le> h * w * 4" using y by (intro mult_le_mono1) simp
    then show ?thesis using d by (simp add: algebra_simps)
  qed
  have head: "take (w * 4) (drop (y * (w * 4)) data) = concat (map ?px [0..<w])"
    unfolding row_pixels[OF y d] by (rule arg_cong[where f = concat], rule map_cong) auto
  have lens: "length (?px x) = 4" if "x < aw" for x using length_pixel[of "min x (w - 1)" w y h data] w(1) y d by simp
  have headlen: "length (concat (map ?px [0..<w])) = w * 4" using length_edge_row[OF w(1) y d, of w] by (simp only: edge_row_def)
  let ?p = "take (y * (aw * 4)) out @ concat (map ?px [0..<w])" let ?q = "drop (y * (aw * 4) + w * 4) out"
  have first: "store (y * (aw * 4)) (take (w * 4) (drop (y * (w * 4)) data)) out = Some (?p @ ?q)"
    using yaw w(2) headlen unfolding head by (simp add: store_def)
  have rest: "for_each (\<lambda>x padded. case load 4 (y * (w * 4) + (w - 1) * 4) data of None \<Rightarrow> None
      | Some pixel \<Rightarrow> store (u32_add (y * (aw * 4)) (u32_mul x 4)) pixel padded) [w..<aw] (?p @ ?q) =
    Some (?p @ concat (map ?px [w..<aw]) @ drop ((aw - w) * 4) ?q)"
  proof (rule for_each_stores[where base = "y * (aw * 4)" and c = 4])
    fix x and padded :: "nat list" assume x: "w \<le> x" "x < aw"
    have "(y * aw + x) * 4 < 2 ^ 32" using x(2) by (intro grid) simp
    then have "u32_mul x 4 = x * 4" "u32_add (y * (aw * 4)) (x * 4) = y * (aw * 4) + x * 4" by (simp_all add: u32_small algebra_simps)
    moreover have "load 4 (y * (w * 4) + (w - 1) * 4) data = Some (?px x)"
      using x w(1) row by (simp add: load_def frame_pixel_def min_absorb2 diff_mult_distrib)
    ultimately show "(case load 4 (y * (w * 4) + (w - 1) * 4) data of None \<Rightarrow> None | Some pixel \<Rightarrow> store (u32_add (y * (aw * 4)) (u32_mul x 4)) pixel padded) =
      store (y * (aw * 4) + x * 4) (?px x) padded" by simp
  next
    show "length (?px x) = 4" if "w \<le> x" "x < aw" for x by (rule lens[OF that(2)])
  qed (use yaw w(2) headlen in \<open>simp_all add: min_absorb2 diff_mult_distrib\<close>)
  have split: "edge_row data w aw y = concat (map ?px [0..<w]) @ concat (map ?px [w..<aw])"
    unfolding edge_row_def using upt_add_eq_append[of 0 w "aw - w"] w(2) by simp
  have result: "Some (?p @ concat (map ?px [w..<aw]) @ drop ((aw - w) * 4) ?q) = store (y * (aw * 4)) (edge_row data w aw y) out"
    using yaw length_edge_row[OF w(1) y d, of aw] w(2) unfolding split by (simp add: store_def diff_mult_distrib add.commute[of "aw * 4"])
  show ?thesis
  proof (cases "w < aw")
    case True
    then show ?thesis unfolding pad_row_def Let_def words last using row first rest result by (simp add: load_def)
  next
    case False
    then have "w = aw" using w(2) by simp
    then show ?thesis unfolding pad_row_def Let_def words using row first split head by (simp add: load_def)
  qed
qed

text \<open>
  Padding a frame to the size of whole macroblocks repeats its last column and its last row: for sizes within 32-bit arithmetic and enough data it
  never panics and gives exactly that picture.
\<close>

theorem padding_repeats_edges:
  assumes small: "aw * ah * 4 < 2 ^ 32" and w: "0 < w" "w \<le> aw" and h: "0 < h" "h \<le> ah" and d: "w * h * 4 \<le> length data"
  shows "pad_frame_to_aligned data w h aw ah = Some (edge_padded data w h aw ah)"
proof -
  let ?z = "replicate (aw * ah * 4) (0 :: nat)" let ?R = "edge_row data w aw" let ?c = "aw * 4"
  have c: "ah * ?c = aw * ah * 4" by simp
  have yc: "y * ?c < 2 ^ 32" if "y < ah" for y
  proof -
    have "y * ?c \<le> ah * ?c" using that by (intro mult_le_mono1) simp
    then show ?thesis using small by (simp only: c)
  qed
  have "aw * 1 \<le> aw * ah" using h by (intro mult_le_mono2) simp
  then have "aw * 4 < 2 ^ 32" "aw * ah < 2 ^ 32" using small by linarith+
  then have words: "u32_mul aw 4 = ?c" "u32_mul (u32_mul aw ah) 4 = aw * ah * 4" using small by (simp_all only: u32_small)
  have "for_each (pad_row data w aw) [0..<h] ?z = for_each (\<lambda>y. store (y * ?c) (?R y)) [0..<h] ?z"
    by (rule for_each_cong_length[where n = "aw * ah * 4"]) (use pad_row_stored[OF small w h(2) _ d] store_length in auto)
  also have "\<dots> = Some (concat (map ?R [0..<h]) @ drop (h * ?c) ?z)"
  proof -
    have "h * ?c \<le> length ?z" using mult_le_mono1[OF h(2), of ?c] by (simp add: c[symmetric])
    then show ?thesis
      using for_each_stores[of 0 h "\<lambda>y. store (y * ?c) (?R y)" 0 ?c ?R "[]" ?z] length_edge_row[OF w(1) _ d] by simp
  qed
  finally have top: "for_each (pad_row data w aw) [0..<h] ?z = Some (concat (map ?R [0..<h]) @ drop (h * ?c) ?z)" .
  have hl: "length (concat (map ?R [0..<h])) = h * ?c" using length_concat_blocks[of 0 h ?R ?c] length_edge_row[OF w(1) _ d] by simp
  have last: "(h + 2 ^ 32 - 1) mod 2 ^ 32 = h - 1 \<or> ?c = 0"
  proof (cases "aw = 0")
    case False
    then have "h \<le> aw * ah * 4" using h(2) by (cases aw) simp_all
    then have "h < 2 ^ 32" using small by (rule le_less_trans)
    then show ?thesis using h(1) by (cases h) simp_all
  qed simp
  show ?thesis
  proof (cases "h < ah")
    case False
    then have "ah = h" using h(2) by simp
    moreover have "map (\<lambda>y. ?R (min y (h - 1))) [0..<h] = map ?R [0..<h]" by (rule map_cong) auto
    then have "edge_padded data w h aw h = concat (map ?R [0..<h])" by (simp only: edge_padded_def)
    ultimately show ?thesis using top unfolding pad_frame_to_aligned_def Let_def words by simp
  next
    case True
    have "Suc (h - 1) * ?c = h * ?c" using h(1) by simp
    then have "(h - 1) * ?c + ?c = h * ?c" by (simp only: mult_Suc add.commute)
    moreover have "take ?c (drop ((h - 1) * ?c) (concat (map ?R [0..<h]))) = ?R (h - 1)"
      using h(1) length_edge_row[OF w(1) _ d] by (intro concat_block) simp_all
    ultimately have "load ?c ((h - 1) * ?c) (concat (map ?R [0..<h]) @ drop (h * ?c) ?z) = Some (?R (h - 1))"
      using hl length_edge_row[OF w(1) _ d, of "h - 1" aw] h(1) by (simp add: load_def)
    moreover have "u32_mul ((h + 2 ^ 32 - 1) mod 2 ^ 32) ?c = (h - 1) * ?c" using last yc[of "h - 1"] True h(1) by (auto simp: u32_small u32_mul_def)
    ultimately have load: "load ?c (u32_mul ((h + 2 ^ 32 - 1) mod 2 ^ 32) ?c) (concat (map ?R [0..<h]) @ drop (h * ?c) ?z) = Some (?R (h - 1))" by simp
    have q: "(ah - h) * ?c \<le> length (drop (h * ?c) ?z)" by (simp add: diff_mult_distrib c)
    have "for_each (\<lambda>y padded. store (u32_mul y ?c) (?R (h - 1)) padded) [h..<ah] (concat (map ?R [0..<h]) @ drop (h * ?c) ?z) =
      Some (concat (map ?R [0..<h]) @ concat (map (\<lambda>y. ?R (h - 1)) [h..<ah]) @ drop ((ah - h) * ?c) (drop (h * ?c) ?z))"
      by (rule for_each_stores[where base = 0 and c = ?c])
        (use yc hl q True length_edge_row[OF w(1) _ d, of "h - 1"] h(1) in \<open>simp_all add: u32_small\<close>)
    moreover have "drop ((ah - h) * ?c) (drop (h * ?c) ?z) = []" by (simp add: diff_mult_distrib c)
    moreover have "edge_padded data w h aw ah = concat (map ?R [0..<h]) @ concat (map (\<lambda>y. ?R (h - 1)) [h..<ah])"
    proof -
      have "[0..<ah] = [0..<h] @ [h..<ah]" using h(2) upt_add_eq_append[of 0 h "ah - h"] by simp
      moreover have e: "map (\<lambda>y. ?R (min y (h - 1))) [0..<h] = map ?R [0..<h]" "map (\<lambda>y. ?R (min y (h - 1))) [h..<ah] = map (\<lambda>y. ?R (h - 1)) [h..<ah]"
        by (rule map_cong, auto)+
      ultimately show ?thesis unfolding edge_padded_def by (simp only: map_append concat_append)
    qed
    ultimately show ?thesis using top load True unfolding pad_frame_to_aligned_def Let_def words by simp
  qed
qed

theorem padding_repeats_edges_witness:
  "pad_frame_to_aligned [1, 2, 3, 4, 5, 6, 7, 8] 2 1 3 2 = Some [1, 2, 3, 4, 5, 6, 7, 8, 5, 6, 7, 8, 1, 2, 3, 4, 5, 6, 7, 8, 5, 6, 7, 8]"
proof -
  have "edge_padded [1, 2, 3, 4, 5, 6, 7, 8] 2 1 3 2 = [1, 2, 3, 4, 5, 6, 7, 8, 5, 6, 7, 8, 1, 2, 3, 4, 5, 6, 7, 8, 5, 6, 7, 8]" by code_simp
  then show ?thesis using padding_repeats_edges[of 3 2 2 1 "[1, 2, 3, 4, 5, 6, 7, 8]"] by simp
qed

end
