(* ===== verification/Wrdp_Bitmap.thy ===== *)
theory Wrdp_Bitmap
  imports Wrdp_Frames
begin

text \<open>
  The bitmap fallback (\<open>src/src/rdp/channels/graphics/bitmap/converter.rs\<close>, with the conversion for the protocol library in
  \<open>src/src/rdp/server/display_handler.rs\<close>): rectangles, the pool of buffers, the tracking of damage and the conversion of a frame into
  bitmap rectangles.

  A panic is \<open>None\<close>.  Coordinates of rectangles are \<open>u16\<close> values; the clock is an argument.
\<close>

section \<open>Formats and rectangles\<close>

datatype rdp_pixel_format = BgrX32 | Bgr24

fun rdp_bytes_per_pixel :: "rdp_pixel_format \<Rightarrow> nat" where
  "rdp_bytes_per_pixel BgrX32 = 4" | "rdp_bytes_per_pixel Bgr24 = 3"

definition from_pixel_format :: "pixel_format \<Rightarrow> rdp_pixel_format" where
  "from_pixel_format format = (if format = RGB \<or> format = BGR then Bgr24 else BgrX32)"

fun pipewire_format :: "rdp_pixel_format \<Rightarrow> pixel_format" where
  "pipewire_format BgrX32 = BGRx" | "pipewire_format Bgr24 = BGR"

record rectangle =
  rect_left :: nat
  rect_top :: nat
  rect_right :: nat
  rect_bottom :: nat

definition rectangle_new :: "nat \<Rightarrow> nat \<Rightarrow> nat \<Rightarrow> nat \<Rightarrow> rectangle" where
  "rectangle_new l t r b = \<lparr>rect_left = l, rect_top = t, rect_right = r, rect_bottom = b\<rparr>"

definition rect_width :: "rectangle \<Rightarrow> nat" where "rect_width r = rect_right r - rect_left r"
definition rect_height :: "rectangle \<Rightarrow> nat" where "rect_height r = rect_bottom r - rect_top r"
definition rect_area :: "rectangle \<Rightarrow> nat" where "rect_area r = rect_width r * rect_height r"

definition rect_intersects :: "rectangle \<Rightarrow> rectangle \<Rightarrow> bool" where
  "rect_intersects r s \<longleftrightarrow>
     \<not> (rect_right r \<le> rect_left s \<or> rect_right s \<le> rect_left r \<or> rect_bottom r \<le> rect_top s \<or> rect_bottom s \<le> rect_top r)"

definition rect_merge :: "rectangle \<Rightarrow> rectangle \<Rightarrow> rectangle" where
  "rect_merge r s =
     \<lparr>rect_left = min (rect_left r) (rect_left s), rect_top = min (rect_top r) (rect_top s),
      rect_right = max (rect_right r) (rect_right s), rect_bottom = max (rect_bottom r) (rect_bottom s)\<rparr>"

text \<open>\<open>as u16\<close> keeps the low bits, \<open>as i32\<close> of a \<open>u32\<close> wraps, and the sum saturates.\<close>

definition int_as_u16 :: "int \<Rightarrow> nat" where "int_as_u16 i = nat (i mod 2 ^ 16)"

definition saturating_add_i32 :: "int \<Rightarrow> int \<Rightarrow> int" where
  "saturating_add_i32 a b = clamp_int (- (2 ^ 31)) (2 ^ 31 - 1) (a + b)"

definition rectangle_from_damage :: "ffi_damage_region \<Rightarrow> rectangle" where
  "rectangle_from_damage d =
     \<lparr>rect_left = int_as_u16 (ffi_x d), rect_top = int_as_u16 (ffi_y d),
      rect_right = int_as_u16 (max (saturating_add_i32 (ffi_x d) (wrap 32 (int (ffi_width d)))) 0),
      rect_bottom = int_as_u16 (max (saturating_add_i32 (ffi_y d) (wrap 32 (int (ffi_height d)))) 0)\<rparr>"

record bitmap_data =
  bd_rectangle :: rectangle
  bd_format :: rdp_pixel_format
  bd_data :: "nat list"

datatype conversion_error = Invalid_frame string | Conversion_failed string | Region_out_of_bounds

section \<open>Sizes\<close>

definition align_to_boundary :: "nat \<Rightarrow> nat \<Rightarrow> nat" where
  "align_to_boundary value boundary = (value + boundary - 1) div boundary * boundary"

definition calculate_rdp_stride :: "nat \<Rightarrow> rdp_pixel_format \<Rightarrow> nat" where
  "calculate_rdp_stride width format = align_to_boundary (width * rdp_bytes_per_pixel format) 4 mod 2 ^ 32"

definition calculate_output_size :: "nat \<Rightarrow> nat \<Rightarrow> rdp_pixel_format \<Rightarrow> nat" where
  "calculate_output_size width height format = calculate_rdp_stride width format * height"

definition RDP_BITMAP_ALIGNMENT :: nat where "RDP_BITMAP_ALIGNMENT = 64"
definition BUFFER_POOL_SIZE :: nat where "BUFFER_POOL_SIZE = 8"
definition DAMAGE_THRESHOLD :: f32 where "DAMAGE_THRESHOLD = Fin (3 / 4)"

section \<open>The pool of buffers\<close>

text \<open>A vector is its bytes and its capacity; resizing within the capacity keeps it.\<close>

record byte_vec =
  bv_bytes :: "nat list"
  bv_capacity :: nat

definition vec_zeroed :: "nat \<Rightarrow> byte_vec" where
  "vec_zeroed n = \<lparr>bv_bytes = replicate n 0, bv_capacity = n\<rparr>"

definition vec_resize :: "nat \<Rightarrow> byte_vec \<Rightarrow> byte_vec" where
  "vec_resize n v =
     \<lparr>bv_bytes = take n (bv_bytes v) @ replicate (n - length (bv_bytes v)) 0, bv_capacity = max n (bv_capacity v)\<rparr>"

record pooled_buffer =
  pb_data :: byte_vec
  pb_capacity :: nat
  pb_last_used :: instant

record buffer_pool =
  bp_buffers :: "pooled_buffer option list"
  bp_free_indices :: "nat list"

definition pool_new :: "nat \<Rightarrow> buffer_pool" where
  "pool_new n = \<lparr>bp_buffers = replicate n None, bp_free_indices = [0..<n]\<rparr>"

text \<open>The first slot with a large enough buffer whose index is free.\<close>

fun pool_search :: "nat \<Rightarrow> nat list \<Rightarrow> nat \<Rightarrow> pooled_buffer option list \<Rightarrow> nat option" where
  "pool_search n free idx [] = None"
| "pool_search n free idx (None # bs) = pool_search n free (idx + 1) bs"
| "pool_search n free idx (Some b # bs) = (if pb_capacity b \<ge> n \<and> idx \<in> set free then Some idx else pool_search n free (idx + 1) bs)"

definition acquire :: "instant \<Rightarrow> nat \<Rightarrow> buffer_pool \<Rightarrow> byte_vec \<times> buffer_pool" where
  "acquire now n p =
     (case pool_search n (bp_free_indices p) 0 (bp_buffers p) of
        Some idx \<Rightarrow>
          (case bp_buffers p ! idx of
             Some b \<Rightarrow>
               (vec_resize n (pb_data b),
                p\<lparr>bp_free_indices := filter (\<lambda>i. i \<noteq> idx) (bp_free_indices p),
                  bp_buffers := (bp_buffers p)[idx := Some (b\<lparr>pb_last_used := now, pb_data := \<lparr>bv_bytes = [], bv_capacity = 0\<rparr>\<rparr>)]\<rparr>)
           | None \<Rightarrow> (vec_zeroed (align_to_boundary n RDP_BITMAP_ALIGNMENT), p))
      | None \<Rightarrow> (vec_zeroed (align_to_boundary n RDP_BITMAP_ALIGNMENT), p))"

text \<open>The slot used longest ago, the first of several, and slot 0 when none is occupied.\<close>

fun oldest_slot :: "nat \<Rightarrow> pooled_buffer option list \<Rightarrow> (nat \<times> instant) option \<Rightarrow> (nat \<times> instant) option" where
  "oldest_slot idx [] best = best"
| "oldest_slot idx (None # bs) best = oldest_slot (idx + 1) bs best"
| "oldest_slot idx (Some b # bs) best =
     oldest_slot (idx + 1) bs
       (case best of None \<Rightarrow> Some (idx, pb_last_used b)
        | Some (i, t) \<Rightarrow> if pb_last_used b < t then Some (idx, pb_last_used b) else Some (i, t))"

definition release :: "instant \<Rightarrow> byte_vec \<Rightarrow> buffer_pool \<Rightarrow> buffer_pool option" where
  "release now v p =
     (let (idx, free) =
        (if bp_free_indices p = []
         then (case oldest_slot 0 (bp_buffers p) None of None \<Rightarrow> 0 | Some (i, _) \<Rightarrow> i, [])
         else (last (bp_free_indices p), butlast (bp_free_indices p)))
      in if idx < length (bp_buffers p)
         then Some (p\<lparr>bp_free_indices := free,
             bp_buffers := (bp_buffers p)[idx := Some \<lparr>pb_data = v\<lparr>bv_bytes := []\<rparr>, pb_capacity = bv_capacity v, pb_last_used = now\<rparr>]\<rparr>)
         else None)"

section \<open>Damage\<close>

record damage_tracker =
  dt_regions :: "rectangle list"
  dt_full_update :: bool
  dt_screen_width :: nat
  dt_screen_height :: nat

definition tracker_new :: "nat \<Rightarrow> nat \<Rightarrow> damage_tracker" where
  "tracker_new width height = \<lparr>dt_regions = [], dt_full_update = False, dt_screen_width = width, dt_screen_height = height\<rparr>"

text \<open>Merges into the first region that the new one intersects.\<close>

fun merge_first :: "rectangle \<Rightarrow> rectangle list \<Rightarrow> rectangle list option" where
  "merge_first region [] = None"
| "merge_first region (r # rs) =
     (if rect_intersects r region then Some (rect_merge r region # rs) else map_option (Cons r) (merge_first region rs))"

function consolidate_inner :: "nat \<Rightarrow> nat \<Rightarrow> rectangle list \<Rightarrow> rectangle list" where
  "consolidate_inner i j rs =
     (if j < length rs then
        if rect_intersects (rs ! i) (rs ! j)
        then consolidate_inner i j ((take j rs @ drop (Suc j) rs)[i := rect_merge (rs ! i) (rs ! j)])
        else consolidate_inner i (j + 1) rs
      else rs)"
  by auto
termination by (relation "measure (\<lambda>(i, j, rs). length rs - j)") auto

declare consolidate_inner.simps [simp del]

lemma length_consolidate_inner: "length (consolidate_inner i j rs) \<le> length rs"
proof (induction i j rs rule: consolidate_inner.induct)
  case (1 i j rs)
  then show ?case by (subst consolidate_inner.simps) force
qed

function consolidate_outer :: "nat \<Rightarrow> rectangle list \<Rightarrow> rectangle list" where
  "consolidate_outer i rs = (if i < length rs then consolidate_outer (i + 1) (consolidate_inner i (i + 1) rs) else rs)"
  by auto
termination
  by (relation "measure (\<lambda>(i, rs). length rs - i)") (auto intro: le_less_trans[OF diff_le_mono[OF length_consolidate_inner]])

declare consolidate_outer.simps [simp del]

definition consolidate_regions :: "damage_tracker \<Rightarrow> damage_tracker" where
  "consolidate_regions t = t\<lparr>dt_regions := consolidate_outer 0 (dt_regions t)\<rparr>"

definition add_damage_rect :: "rectangle \<Rightarrow> damage_tracker \<Rightarrow> damage_tracker" where
  "add_damage_rect region t =
     (if dt_full_update t then t
      else let total_area = dt_screen_width t * dt_screen_height t in
        if total_area = 0 \<or> flt DAMAGE_THRESHOLD (f32_over (f32_nat (rect_area region)) (f32_nat total_area))
        then t\<lparr>dt_full_update := True, dt_regions := []\<rparr>
        else consolidate_regions
          (case merge_first region (dt_regions t) of
             Some rs \<Rightarrow> t\<lparr>dt_regions := rs\<rparr>
           | None \<Rightarrow> t\<lparr>dt_regions := dt_regions t @ [region]\<rparr>))"

definition tracker_regions :: "damage_tracker \<Rightarrow> rectangle list" where
  "tracker_regions t =
     (if dt_full_update t then [rectangle_new 0 0 (dt_screen_width t) (dt_screen_height t)] else dt_regions t)"

definition tracker_reset :: "damage_tracker \<Rightarrow> damage_tracker" where
  "tracker_reset t = t\<lparr>dt_regions := [], dt_full_update := False\<rparr>"

section \<open>Conversion\<close>

definition calculate_frame_hash :: "nat list \<Rightarrow> 64 word" where
  "calculate_frame_hash data = foldl (\<lambda>hash byte. (hash XOR of_nat byte) * 0x100000001b3) 0xcbf29ce484222325 data"

definition extract_region ::
  "nat list \<Rightarrow> rectangle \<Rightarrow> nat \<Rightarrow> nat \<Rightarrow> rdp_pixel_format \<Rightarrow> (conversion_error, bitmap_data) result" where
  "extract_region buffer region frame_width frame_height format =
     (if rect_right region > frame_width \<or> rect_bottom region > frame_height then Err Region_out_of_bounds
      else let bpp = rdp_bytes_per_pixel format;
               source_stride = calculate_rdp_stride frame_width format;
               region_stride = rect_width region * bpp
           in case for_each (\<lambda>y data.
                map_option (\<lambda>bytes. data @ bytes) (load region_stride ((rect_top region + y) * source_stride + rect_left region * bpp) buffer))
                [0..<rect_height region] [] of
                None \<Rightarrow> Err Region_out_of_bounds
              | Some data \<Rightarrow> Ok \<lparr>bd_rectangle = region, bd_format = format, bd_data = data\<rparr>)"

text \<open>The rectangles of an update; the first failure ends it.\<close>

fun extract_regions ::
  "nat list \<Rightarrow> rectangle list \<Rightarrow> nat \<Rightarrow> nat \<Rightarrow> rdp_pixel_format \<Rightarrow> (conversion_error, bitmap_data list) result" where
  "extract_regions buffer [] w h format = Ok []"
| "extract_regions buffer (r # rs) w h format =
     rbind (extract_region buffer r w h format) (\<lambda>d. rbind (extract_regions buffer rs w h format) (\<lambda>ds. Ok (d # ds)))"

record conversion_stats =
  cs_frames_converted :: nat
  cs_bytes_processed :: nat
  cs_conversion_time_ns :: nat

record bitmap_converter =
  bc_buffer_pool :: buffer_pool
  bc_damage_tracker :: damage_tracker
  bc_last_frame_hash :: "64 word"
  bc_stats :: conversion_stats

definition bitmap_converter_new :: "nat \<Rightarrow> nat \<Rightarrow> bitmap_converter" where
  "bitmap_converter_new width height =
     \<lparr>bc_buffer_pool = pool_new BUFFER_POOL_SIZE, bc_damage_tracker = tracker_new width height, bc_last_frame_hash = 0,
      bc_stats = \<lparr>cs_frames_converted = 0, cs_bytes_processed = 0, cs_conversion_time_ns = 0\<rparr>\<rparr>"

text \<open>The damage of a frame; a frame without regions is damaged everywhere.\<close>

definition track_damage :: "video_frame \<Rightarrow> damage_tracker \<Rightarrow> damage_tracker" where
  "track_damage f t =
     (if vf_damage_regions f = [] then t\<lparr>dt_full_update := True\<rparr>
      else foldl (\<lambda>t d. add_damage_rect (rectangle_from_damage d) t) t (vf_damage_regions f))"

text \<open>What is left to do after a successful conversion.\<close>

definition finish_conversion :: "instant \<Rightarrow> nat \<Rightarrow> video_frame \<Rightarrow> byte_vec \<Rightarrow> bitmap_converter \<Rightarrow> bitmap_converter option" where
  "finish_conversion now conversion_ns f buffer c =
     (let st = bc_stats c in
      case release now buffer (bc_buffer_pool c) of
        None \<Rightarrow> None
      | Some p \<Rightarrow> Some (c\<lparr>bc_stats := \<lparr>cs_frames_converted = cs_frames_converted st + 1,
                                     cs_bytes_processed = cs_bytes_processed st + data_size f,
                                     cs_conversion_time_ns = cs_conversion_time_ns st + conversion_ns\<rparr>,
                         bc_buffer_pool := p, bc_damage_tracker := tracker_reset (bc_damage_tracker c)\<rparr>))"

text \<open>
  Converts a frame into the rectangles of an update.  A frame with the hash of the last one is unchanged.  An error leaves the hash of the frame and its damage
  behind.
\<close>

definition convert_frame ::
  "instant \<Rightarrow> nat \<Rightarrow> video_frame \<Rightarrow> bitmap_converter \<Rightarrow> ((conversion_error, bitmap_data list) result \<times> bitmap_converter) option" where
  "convert_frame now conversion_ns f c =
     (if \<not> frame_is_valid f then Some (Err (Invalid_frame ''frame is corrupt or incomplete''), c)
      else let frame_hash = calculate_frame_hash (vf_data f) in
        if frame_hash = bc_last_frame_hash c then Some (Ok [], c)
        else let c = c\<lparr>bc_last_frame_hash := frame_hash, bc_damage_tracker := track_damage f (bc_damage_tracker c)\<rparr>;
                 regions = tracker_regions (bc_damage_tracker c);
                 rdp_format = from_pixel_format (vf_format f);
                 n = calculate_output_size (vf_width f) (vf_height f) rdp_format;
                 (buffer, p) = acquire now n (bc_buffer_pool c);
                 buffer = vec_resize n buffer;
                 c = c\<lparr>bc_buffer_pool := p\<rparr>;
                 dst_stride = calculate_rdp_stride (vf_width f) rdp_format
             in case convert_format (vf_data f) (bv_bytes buffer) (vf_format f) (pipewire_format rdp_format) (vf_width f) (vf_height f) (vf_stride f) dst_stride of
                  None \<Rightarrow> None
                | Some (Err e) \<Rightarrow> Some (Err (Conversion_failed e), c)
                | Some (Ok bytes) \<Rightarrow>
                    (case extract_regions bytes regions (vf_width f) (vf_height f) rdp_format of
                       Err e \<Rightarrow> Some (Err e, c)
                     | Ok rectangles \<Rightarrow>
                         map_option (\<lambda>c. (Ok rectangles, c)) (finish_conversion now conversion_ns f (buffer\<lparr>bv_bytes := bytes\<rparr>) c)))"

section \<open>Updates for the protocol library\<close>

datatype iron_pixel_format = Iron_BgrX32 | Iron_XBgr32

record iron_bitmap_update =
  ib_x :: nat
  ib_y :: nat
  ib_width :: nat
  ib_height :: nat
  ib_format :: iron_pixel_format
  ib_data :: "nat list"
  ib_stride :: nat

text \<open>The library says how many bytes a pixel of its formats has.\<close>

definition iron_update :: "(iron_pixel_format \<Rightarrow> nat) \<Rightarrow> bitmap_data \<Rightarrow> (string, iron_bitmap_update) result" where
  "iron_update iron_bytes_per_pixel d =
     (let format = (case bd_format d of BgrX32 \<Rightarrow> Iron_BgrX32 | Bgr24 \<Rightarrow> Iron_XBgr32);
          r = bd_rectangle d; width = rect_width r; height = rect_height r; stride = width * iron_bytes_per_pixel format
      in if stride = 0 then Err (''Invalid stride calculation: width='' @ show_nat width)
         else if width = 0 then Err (''Invalid width: '' @ show_nat width)
         else if height = 0 then Err (''Invalid height: '' @ show_nat height)
         else Ok \<lparr>ib_x = rect_left r, ib_y = rect_top r, ib_width = width, ib_height = height, ib_format = format,
                  ib_data = bd_data d, ib_stride = stride\<rparr>)"

fun convert_to_iron_format :: "(iron_pixel_format \<Rightarrow> nat) \<Rightarrow> bitmap_data list \<Rightarrow> (string, iron_bitmap_update list) result" where
  "convert_to_iron_format bpp [] = Ok []"
| "convert_to_iron_format bpp (d # ds) = rbind (iron_update bpp d) (\<lambda>u. rbind (convert_to_iron_format bpp ds) (\<lambda>us. Ok (u # us)))"

text \<open>What the pipeline does with a frame for which the graphics channel is not used: BGRx is passed through, every other format is converted.\<close>

datatype bitmap_outcome = Frame_dropped | Bitmap "bitmap_data list" | Not_converted conversion_error

definition bitmap_update :: "instant \<Rightarrow> nat \<Rightarrow> video_frame \<Rightarrow> bitmap_converter \<Rightarrow> (bitmap_outcome \<times> bitmap_converter) option" where
  "bitmap_update now conversion_ns frame c =
     (case compact_frame frame of
        None \<Rightarrow> None
      | Some f \<Rightarrow>
          if vf_format f = BGRx then
            let expected_len = vf_width f * vf_height f * 4 in
            if length (vf_data f) < expected_len then Some (Frame_dropped, c)
            else Some (Bitmap [\<lparr>bd_rectangle = rectangle_new 0 0 (vf_width f mod 2 ^ 16) (vf_height f mod 2 ^ 16), bd_format = BgrX32,
                                bd_data = take expected_len (vf_data f)\<rparr>], c)
          else map_option (\<lambda>(r, c). (case r of Ok rects \<Rightarrow> Bitmap rects | Err e \<Rightarrow> Not_converted e, c)) (convert_frame now conversion_ns f c))"

section \<open>The pool never reuses a buffer\<close>

text \<open>A slot is occupied only by a release, which takes its index out of the free indices for good.\<close>

definition free_slots_empty :: "buffer_pool \<Rightarrow> bool" where
  "free_slots_empty p \<longleftrightarrow> distinct (bp_free_indices p) \<and> (\<forall>i \<in> set (bp_free_indices p). i < length (bp_buffers p) \<and> bp_buffers p ! i = None)"

lemma pool_new_empty: "free_slots_empty (pool_new n)"
  by (simp add: free_slots_empty_def pool_new_def)

lemma pool_search_free: "pool_search n free idx bs = Some i \<Longrightarrow> idx \<le> i \<and> i - idx < length bs \<and> i \<in> set free \<and> bs ! (i - idx) \<noteq> None"
proof (induction bs arbitrary: idx)
  case (Cons b bs)
  show ?case
  proof (cases "pool_search n free idx (b # bs) = pool_search n free (idx + 1) bs")
    case True
    then have "idx + 1 \<le> i \<and> i - (idx + 1) < length bs \<and> i \<in> set free \<and> bs ! (i - (idx + 1)) \<noteq> None"
      using Cons.prems by (intro Cons.IH) simp
    then show ?thesis by (auto simp: nth_Cons' Suc_diff_Suc)
  next
    case False
    then show ?thesis using Cons.prems by (cases b) (auto split: if_splits)
  qed
qed simp

lemma acquire_fresh:
  assumes "free_slots_empty p"
  shows "acquire now n p = (vec_zeroed (align_to_boundary n RDP_BITMAP_ALIGNMENT), p)"
proof (cases "pool_search n (bp_free_indices p) 0 (bp_buffers p)")
  case (Some i)
  then have "i \<in> set (bp_free_indices p)" "bp_buffers p ! i \<noteq> None" using pool_search_free[OF Some] by auto
  then show ?thesis using assms by (auto simp: free_slots_empty_def)
qed (simp add: acquire_def)

lemma release_keeps_empty:
  assumes "free_slots_empty p" "release now v p = Some q"
  shows "free_slots_empty q \<and> length (bp_buffers q) = length (bp_buffers p)"
proof (cases "bp_free_indices p = []")
  case True
  then show ?thesis using assms by (auto simp: release_def free_slots_empty_def Let_def split: if_splits option.splits prod.splits)
next
  case False
  then obtain ls i where "bp_free_indices p = ls @ [i]" by (cases "bp_free_indices p" rule: rev_cases) auto
  then show ?thesis using assms by (auto simp: release_def free_slots_empty_def nth_list_update split: if_splits)
qed

lemma oldest_slot_bound:
  "oldest_slot idx bs best = Some (i, t) \<Longrightarrow> best = Some (i, t) \<or> idx \<le> i \<and> i < idx + length bs"
proof (induction idx bs best arbitrary: i t rule: oldest_slot.induct)
  case (2 idx bs best)
  then show ?case by fastforce
next
  case (3 idx b bs best)
  have "(case best of None \<Rightarrow> Some (idx, pb_last_used b) | Some (i, t) \<Rightarrow> if pb_last_used b < t then Some (idx, pb_last_used b) else Some (i, t)) = Some (i, t)
    \<or> idx + 1 \<le> i \<and> i < idx + 1 + length bs"
    using 3 by simp
  then show ?case by (auto split: option.splits if_splits prod.splits)
qed simp

lemma release_total:
  assumes "free_slots_empty p" "0 < length (bp_buffers p)"
  shows "\<exists>q. release now v p = Some q"
proof (cases "bp_free_indices p = []")
  case True
  then show ?thesis
    using assms(2) oldest_slot_bound[of 0 "bp_buffers p" None] by (auto simp: release_def split: option.split)
next
  case False
  then have "last (bp_free_indices p) < length (bp_buffers p)" using assms(1) last_in_set[OF False] by (auto simp: free_slots_empty_def)
  with False show ?thesis by (simp add: release_def)
qed

section \<open>Damage is kept\<close>

definition rect_pixels :: "rectangle \<Rightarrow> (nat \<times> nat) set" where
  "rect_pixels r = {(x, y). rect_left r \<le> x \<and> x < rect_right r \<and> rect_top r \<le> y \<and> y < rect_bottom r}"

definition covered :: "rectangle list \<Rightarrow> (nat \<times> nat) set" where
  "covered rs = (\<Union>r \<in> set rs. rect_pixels r)"

definition rect_within :: "nat \<Rightarrow> nat \<Rightarrow> rectangle \<Rightarrow> bool" where
  "rect_within w h r \<longleftrightarrow> rect_left r \<le> rect_right r \<and> rect_right r \<le> w \<and> rect_top r \<le> rect_bottom r \<and> rect_bottom r \<le> h"

lemma merge_pixels: "rect_pixels r \<union> rect_pixels s \<subseteq> rect_pixels (rect_merge r s)"
  by (auto simp: rect_pixels_def rect_merge_def)

lemma merge_within: "rect_within w h r \<Longrightarrow> rect_within w h s \<Longrightarrow> rect_within w h (rect_merge r s)"
  by (auto simp: rect_within_def rect_merge_def)

lemma merge_first_covers:
  "merge_first region rs = Some qs \<Longrightarrow> covered rs \<union> rect_pixels region \<subseteq> covered qs \<and>
    (rect_within w h region \<longrightarrow> list_all (rect_within w h) rs \<longrightarrow> list_all (rect_within w h) qs)"
proof (induction region rs arbitrary: qs rule: merge_first.induct)
  case (2 region r rs)
  then show ?case
    using merge_pixels[of r region] by (auto simp: covered_def merge_within split: if_splits) blast+
qed simp

lemma remove_merge:
  assumes "i < j" "j < length rs"
  shows "covered rs \<subseteq> covered ((take j rs @ drop (Suc j) rs)[i := rect_merge (rs ! i) (rs ! j)])"
    "list_all (rect_within w h) rs \<Longrightarrow> list_all (rect_within w h) ((take j rs @ drop (Suc j) rs)[i := rect_merge (rs ! i) (rs ! j)])"
proof -
  let ?qs = "(take j rs @ drop (Suc j) rs)[i := rect_merge (rs ! i) (rs ! j)]"
  have rs: "rs = take i rs @ rs ! i # drop (Suc i) (take j rs) @ rs ! j # drop (Suc j) rs"
  proof -
    have "take j rs = take i rs @ rs ! i # drop (Suc i) (take j rs)" using assms id_take_nth_drop[of i "take j rs"] by simp
    with id_take_nth_drop[OF assms(2)] show ?thesis by (metis append.assoc append_Cons)
  qed
  have qs: "?qs = take i rs @ rect_merge (rs ! i) (rs ! j) # drop (Suc i) (take j rs) @ drop (Suc j) rs"
    using assms upd_conv_take_nth_drop[of i "take j rs" "rect_merge (rs ! i) (rs ! j)"] by (simp add: list_update_append min_def)
  have "covered rs = covered (take i rs) \<union> rect_pixels (rs ! i) \<union> covered (drop (Suc i) (take j rs)) \<union> rect_pixels (rs ! j) \<union> covered (drop (Suc j) rs)"
    by (subst rs) (auto simp: covered_def)
  also have "\<dots> \<subseteq> covered ?qs"
    using merge_pixels[of "rs ! i" "rs ! j"] unfolding qs by (auto simp: covered_def)
  finally show "covered rs \<subseteq> covered ?qs" .
  show "list_all (rect_within w h) ?qs" if "list_all (rect_within w h) rs"
  proof -
    have "rect_within w h (rs ! i)" "rect_within w h (rs ! j)" using that assms by (simp_all add: list_all_length)
    then show ?thesis using that unfolding qs by (auto simp: list_all_iff merge_within dest!: in_set_takeD in_set_dropD)
  qed
qed

lemma consolidate_inner_covers:
  "i < j \<Longrightarrow> covered rs \<subseteq> covered (consolidate_inner i j rs) \<and> (list_all (rect_within w h) rs \<longrightarrow> list_all (rect_within w h) (consolidate_inner i j rs))"
proof (induction i j rs rule: consolidate_inner.induct)
  case (1 i j rs)
  show ?case
  proof (cases "j < length rs")
    case True
    show ?thesis
    proof (cases "rect_intersects (rs ! i) (rs ! j)")
      case merge: True
      then show ?thesis using 1 True remove_merge[OF 1(3) True] by (subst (1 2) consolidate_inner.simps) (simp, blast)
    next
      case False
      then show ?thesis using 1 True by (subst (1 2) consolidate_inner.simps) simp
    qed
  qed (subst (1 2) consolidate_inner.simps, simp)
qed

lemma consolidate_outer_covers:
  "covered rs \<subseteq> covered (consolidate_outer i rs) \<and> (list_all (rect_within w h) rs \<longrightarrow> list_all (rect_within w h) (consolidate_outer i rs))"
proof (induction i rs rule: consolidate_outer.induct)
  case (1 i rs)
  show ?case
  proof (cases "i < length rs")
    case True
    then show ?thesis using 1 consolidate_inner_covers[of i "i + 1" rs w h] by (subst (1 2) consolidate_outer.simps) (simp, blast)
  qed (subst (1 2) consolidate_outer.simps, simp)
qed

definition tracker_within :: "damage_tracker \<Rightarrow> bool" where
  "tracker_within t \<longleftrightarrow> list_all (rect_within (dt_screen_width t) (dt_screen_height t)) (tracker_regions t)"

text \<open>What the tracker keeps of a pixel of the screen once it was damaged.\<close>

lemma full_covers: "dt_full_update t \<Longrightarrow> x < dt_screen_width t \<Longrightarrow> y < dt_screen_height t \<Longrightarrow> (x, y) \<in> covered (tracker_regions t)"
  by (simp add: tracker_regions_def covered_def rect_pixels_def rectangle_new_def)

lemma add_damage_screen [simp]:
  "dt_screen_width (add_damage_rect r t) = dt_screen_width t" "dt_screen_height (add_damage_rect r t) = dt_screen_height t"
  by (simp_all add: add_damage_rect_def consolidate_regions_def Let_def split: option.split)

lemma add_damage_cases:
  "dt_full_update t \<and> add_damage_rect r t = t \<or>
   \<not> dt_full_update t \<and> add_damage_rect r t = t\<lparr>dt_full_update := True, dt_regions := []\<rparr> \<or>
   (\<exists>qs. \<not> dt_full_update t \<and> add_damage_rect r t = consolidate_regions (t\<lparr>dt_regions := qs\<rparr>) \<and>
      (merge_first r (dt_regions t) = Some qs \<or> qs = dt_regions t @ [r]))"
  unfolding add_damage_rect_def Let_def by (auto split: option.split)

lemma add_damage_covers:
  assumes t: "tracker_within t" and r: "rect_within (dt_screen_width t) (dt_screen_height t) r"
  shows "tracker_within (add_damage_rect r t)" (is ?A)
    "covered (tracker_regions t) \<union> rect_pixels r \<subseteq> covered (tracker_regions (add_damage_rect r t))" (is ?B)
proof -
  let ?w = "dt_screen_width t" let ?h = "dt_screen_height t"
  have screen: "rect_pixels q \<subseteq> covered [rectangle_new 0 0 ?w ?h]" if "rect_within ?w ?h q" for q
    using that by (auto simp: covered_def rect_pixels_def rectangle_new_def rect_within_def)
  then have all: "covered qs \<subseteq> covered [rectangle_new 0 0 ?w ?h]" if "list_all (rect_within ?w ?h) qs" for qs
    using that unfolding covered_def[of qs] list_all_iff by blast
  consider (full) "dt_full_update t" "add_damage_rect r t = t"
    | (large) "\<not> dt_full_update t" "add_damage_rect r t = t\<lparr>dt_full_update := True, dt_regions := []\<rparr>"
    | (region) qs where "\<not> dt_full_update t" "add_damage_rect r t = consolidate_regions (t\<lparr>dt_regions := qs\<rparr>)"
        "merge_first r (dt_regions t) = Some qs \<or> qs = dt_regions t @ [r]"
    using add_damage_cases[of t r] by blast
  then have "?A \<and> ?B"
  proof cases
    case full
    then show "?A \<and> ?B"
      using t screen[OF r] by (simp_all add: tracker_regions_def)
  next
    case large
    then show "?A \<and> ?B"
      using t screen[OF r] all[of "dt_regions t"] by (simp_all add: tracker_within_def tracker_regions_def rect_within_def rectangle_new_def)
  next
    case q: (region qs)
    have "list_all (rect_within ?w ?h) (dt_regions t)" using t q(1) by (simp add: tracker_within_def tracker_regions_def)
    then have "list_all (rect_within ?w ?h) qs" "covered (dt_regions t) \<union> rect_pixels r \<subseteq> covered qs"
      using q(3) r merge_first_covers[of r "dt_regions t" qs ?w ?h] by (auto simp: covered_def)
    then show "?A \<and> ?B"
      using q(1,2) consolidate_outer_covers[of qs 0 ?w ?h] by (auto simp: tracker_within_def tracker_regions_def consolidate_regions_def)
  qed
  then show ?A ?B by blast+
qed

text \<open>A damage region inside the picture, and its pixels.\<close>

definition damage_within :: "nat \<Rightarrow> nat \<Rightarrow> ffi_damage_region \<Rightarrow> bool" where
  "damage_within w h d \<longleftrightarrow> 0 \<le> ffi_x d \<and> ffi_x d + int (ffi_width d) \<le> int w \<and> 0 \<le> ffi_y d \<and> ffi_y d + int (ffi_height d) \<le> int h"

definition damage_pixels :: "ffi_damage_region \<Rightarrow> (nat \<times> nat) set" where
  "damage_pixels d = {(x, y). ffi_x d \<le> int x \<and> int x < ffi_x d + int (ffi_width d) \<and> ffi_y d \<le> int y \<and> int y < ffi_y d + int (ffi_height d)}"

lemma coordinate_kept: "0 \<le> i \<Longrightarrow> i < 65536 \<Longrightarrow> int (int_as_u16 i) = i"
  by (simp add: int_as_u16_def)

lemma damage_rectangle:
  assumes "damage_within w h d" "w < 2 ^ 16" "h < 2 ^ 16"
  shows "rect_within w h (rectangle_from_damage d)" "rect_pixels (rectangle_from_damage d) = damage_pixels d"
proof -
  have b: "0 \<le> ffi_x d" "0 \<le> ffi_y d" "ffi_x d + int (ffi_width d) \<le> int w" "ffi_y d + int (ffi_height d) \<le> int h" "int w < 65536" "int h < 65536"
    using assms by (simp_all add: damage_within_def)
  have "wrap 32 (int (ffi_width d)) = int (ffi_width d)" "wrap 32 (int (ffi_height d)) = int (ffi_height d)"
    using b by (simp_all add: in_range_def)
  then have "max (saturating_add_i32 (ffi_x d) (wrap 32 (int (ffi_width d)))) 0 = ffi_x d + int (ffi_width d)"
    "max (saturating_add_i32 (ffi_y d) (wrap 32 (int (ffi_height d)))) 0 = ffi_y d + int (ffi_height d)"
    using b by (simp_all add: saturating_add_i32_def clamp_int_def)
  then have e: "int (rect_left (rectangle_from_damage d)) = ffi_x d" "int (rect_top (rectangle_from_damage d)) = ffi_y d"
    "int (rect_right (rectangle_from_damage d)) = ffi_x d + int (ffi_width d)" "int (rect_bottom (rectangle_from_damage d)) = ffi_y d + int (ffi_height d)"
    using b by (simp_all add: rectangle_from_damage_def coordinate_kept)
  show "rect_within w h (rectangle_from_damage d)" using e b unfolding rect_within_def by linarith
  show "rect_pixels (rectangle_from_damage d) = damage_pixels d"
    unfolding rect_pixels_def damage_pixels_def using e by auto
qed

lemma track_damage_covers:
  assumes "tracker_within t" "dt_screen_width t < 2 ^ 16" "dt_screen_height t < 2 ^ 16"
    and d: "\<forall>d \<in> set (vf_damage_regions f). damage_within (dt_screen_width t) (dt_screen_height t) d"
  shows "tracker_within (track_damage f t) \<and> dt_screen_width (track_damage f t) = dt_screen_width t \<and> dt_screen_height (track_damage f t) = dt_screen_height t \<and>
    (\<forall>x < dt_screen_width t. \<forall>y < dt_screen_height t.
       vf_damage_regions f = [] \<or> (x, y) \<in> covered (tracker_regions t) \<or> (\<exists>d \<in> set (vf_damage_regions f). (x, y) \<in> damage_pixels d) \<longrightarrow>
       (x, y) \<in> covered (tracker_regions (track_damage f t)))"
proof (cases "vf_damage_regions f = []")
  case True
  then show ?thesis
    using full_covers[of "t\<lparr>dt_full_update := True\<rparr>"] by (auto simp: track_damage_def tracker_within_def tracker_regions_def rect_within_def rectangle_new_def)
next
  case False
  let ?add = "\<lambda>t d. add_damage_rect (rectangle_from_damage d) t"
  have "tracker_within (foldl ?add t ds) \<and> dt_screen_width (foldl ?add t ds) = dt_screen_width t \<and> dt_screen_height (foldl ?add t ds) = dt_screen_height t \<and>
    covered (tracker_regions t) \<union> (\<Union>d \<in> set ds. damage_pixels d) \<subseteq> covered (tracker_regions (foldl ?add t ds))"
    if "\<forall>d \<in> set ds. damage_within (dt_screen_width t) (dt_screen_height t) d" for ds
    using that assms(1-3)
  proof (induction ds arbitrary: t)
    case (Cons d ds)
    have "damage_within (dt_screen_width t) (dt_screen_height t) d" using Cons.prems(1) by simp
    note r = damage_rectangle[OF this Cons.prems(3,4)]
    note a = add_damage_covers[OF Cons.prems(2) r(1)]
    show ?case using Cons.IH[of "?add t d"] Cons.prems a r(2) by auto
  qed simp
  from this[OF d] show ?thesis using False by (auto simp: track_damage_def)
qed

section \<open>The bytes of a region\<close>

definition region_bytes :: "nat list \<Rightarrow> nat \<Rightarrow> nat \<Rightarrow> rectangle \<Rightarrow> nat list" where
  "region_bytes data stride bpp r =
     concat (map (\<lambda>y. take (rect_width r * bpp) (drop ((rect_top r + y) * stride + rect_left r * bpp) data)) [0..<rect_height r])"

lemma region_row:
  assumes "rect_within w h r" "y < rect_height r" "w * bpp \<le> stride"
  shows "(rect_top r + y) * stride + rect_left r * bpp + rect_width r * bpp \<le> stride * h" "rect_left r * bpp + rect_width r * bpp \<le> w * bpp" "rect_top r + y < h"
proof -
  have r: "rect_left r + rect_width r \<le> w" "rect_top r + y < h" using assms(1,2) by (auto simp: rect_within_def rect_width_def rect_height_def)
  have "(rect_left r + rect_width r) * bpp \<le> w * bpp" using r(1) by (rule mult_le_mono1)
  then show x: "rect_left r * bpp + rect_width r * bpp \<le> w * bpp" by (simp add: add_mult_distrib)
  have "Suc (rect_top r + y) * stride \<le> h * stride" using r(2) by (intro mult_le_mono1) simp
  then show "(rect_top r + y) * stride + rect_left r * bpp + rect_width r * bpp \<le> stride * h" using x assms(3) by (simp add: mult.commute)
  show "rect_top r + y < h" by (rule r(2))
qed

lemma extract_region_exact:
  assumes r: "rect_within w h r" and s: "w * rdp_bytes_per_pixel format \<le> calculate_rdp_stride w format"
    and len: "length buffer = calculate_rdp_stride w format * h"
  shows "extract_region buffer r w h format =
    Ok \<lparr>bd_rectangle = r, bd_format = format, bd_data = region_bytes buffer (calculate_rdp_stride w format) (rdp_bytes_per_pixel format) r\<rparr>"
proof -
  let ?s = "calculate_rdp_stride w format" let ?b = "rdp_bytes_per_pixel format"
  have "for_each (\<lambda>y data. map_option (\<lambda>bytes. data @ bytes) (load (rect_width r * ?b) ((rect_top r + y) * ?s + rect_left r * ?b) buffer)) [0..<rect_height r] [] =
    Some ([] @ region_bytes buffer ?s ?b r)"
    unfolding region_bytes_def
  proof (rule for_each_snoc)
    fix y out assume "y \<in> set [0..<rect_height r]"
    then have "(rect_top r + y) * ?s + rect_left r * ?b + rect_width r * ?b \<le> length buffer" using region_row(1)[OF r _ s] len by simp
    then show "map_option (\<lambda>bytes. out @ bytes) (load (rect_width r * ?b) ((rect_top r + y) * ?s + rect_left r * ?b) buffer) =
      Some (out @ take (rect_width r * ?b) (drop ((rect_top r + y) * ?s + rect_left r * ?b) buffer))" by (simp add: load_def)
  qed
  moreover have "\<not> (rect_right r > w \<or> rect_bottom r > h)" using r by (simp add: rect_within_def)
  ultimately show ?thesis unfolding extract_region_def Let_def by (simp only: if_False option.case append_Nil)
qed

lemma extract_regions_exact:
  assumes "list_all (rect_within w h) rs" "w * rdp_bytes_per_pixel format \<le> calculate_rdp_stride w format" "length buffer = calculate_rdp_stride w format * h"
  shows "extract_regions buffer rs w h format =
    Ok (map (\<lambda>r. \<lparr>bd_rectangle = r, bd_format = format, bd_data = region_bytes buffer (calculate_rdp_stride w format) (rdp_bytes_per_pixel format) r\<rparr>) rs)"
  using assms by (induction rs) (simp_all add: extract_region_exact)

lemma region_bytes_rows:
  assumes r: "rect_within w h r" and s: "w * bpp \<le> stride" and rows: "\<And>y. y < h \<Longrightarrow> take (w * bpp) (drop (y * stride) a) = take (w * bpp) (drop (y * stride) b)"
  shows "region_bytes a stride bpp r = region_bytes b stride bpp r"
proof -
  have "take (rect_width r * bpp) (drop ((rect_top r + y) * stride + rect_left r * bpp) a) = take (rect_width r * bpp) (drop ((rect_top r + y) * stride + rect_left r * bpp) b)"
    if y: "y < rect_height r" for y
  proof -
    note x = region_row(2,3)[OF r y s]
    have "take (rect_width r * bpp) (drop ((rect_top r + y) * stride + rect_left r * bpp) c) =
      take (rect_width r * bpp) (drop (rect_left r * bpp) (take (w * bpp) (drop ((rect_top r + y) * stride) c)))" for c :: "nat list"
      using x(1) by (simp add: drop_take min_def add.commute)
    then show ?thesis using rows[OF x(2)] by simp
  qed
  then show ?thesis unfolding region_bytes_def by (intro arg_cong[where f = concat] map_cong) auto
qed

section \<open>Updates\<close>

lemma rdp_stride_bounds:
  assumes "w < 2 ^ 16"
  shows "calculate_rdp_stride w format = align_to_boundary (w * rdp_bytes_per_pixel format) 4" "w * rdp_bytes_per_pixel format \<le> calculate_rdp_stride w format"
proof -
  have "w * rdp_bytes_per_pixel format \<le> 2 ^ 18" using assms by (cases format) simp_all
  then show e: "calculate_rdp_stride w format = align_to_boundary (w * rdp_bytes_per_pixel format) 4"
    by (simp add: calculate_rdp_stride_def align_to_boundary_def)
  show "w * rdp_bytes_per_pixel format \<le> calculate_rdp_stride w format" unfolding e align_to_boundary_def by simp
qed

lemma direct_copy:
  assumes f: "vf_format f \<in> {BGR, BGRx}" and stride: "vf_stride f = calculate_rdp_stride (vf_width f) (from_pixel_format (vf_format f))"
    and w: "vf_width f < 2 ^ 16" and small: "vf_stride f * vf_height f < 2 ^ 32" and len: "length (vf_data f) = vf_stride f * vf_height f"
  shows "\<exists>bytes. convert_format (vf_data f) (replicate (vf_stride f * vf_height f) 0) (vf_format f) (pipewire_format (from_pixel_format (vf_format f)))
      (vf_width f) (vf_height f) (vf_stride f) (vf_stride f) = Some (Ok bytes) \<and> length bytes = vf_stride f * vf_height f \<and>
    (\<forall>y < vf_height f. take (vf_width f * bytes_per_pixel (vf_format f)) (drop (y * vf_stride f) bytes) =
       take (vf_width f * bytes_per_pixel (vf_format f)) (drop (y * vf_stride f) (vf_data f)))"
proof -
  let ?n = "vf_width f * bytes_per_pixel (vf_format f)" let ?s = "vf_stride f" let ?h = "vf_height f"
  have same: "pipewire_format (from_pixel_format (vf_format f)) = vf_format f" "rdp_bytes_per_pixel (from_pixel_format (vf_format f)) = bytes_per_pixel (vf_format f)"
    using f by (auto simp: from_pixel_format_def)
  have n: "?n \<le> ?s" using rdp_stride_bounds(2)[OF w, of "from_pixel_format (vf_format f)"] stride same(2) by simp
  have "?n \<le> 2 ^ 18" using w f by auto
  then have row: "u32_mul (vf_width f) (bytes_per_pixel (vf_format f)) = ?n" by (intro u32_small) simp
  show ?thesis
  proof (cases "?n = ?s")
    case True
    then show ?thesis using row len by (simp add: convert_format_def same store_def)
  next
    case False
    have fits: "y * ?s + ?n \<le> ?s * ?h" if "y < ?h" for y
    proof -
      have "Suc y * ?s \<le> ?h * ?s" using that by (intro mult_le_mono1) simp
      then show ?thesis using n by (simp add: mult.commute)
    qed
    obtain r where r: "copy_rows (vf_data f) (replicate (?s * ?h) 0) ?n ?h ?s ?s = Some r" "rows_replaced (replicate (?s * ?h) 0) ?s ?h (\<lambda>y. take ?n (drop (y * ?s) (vf_data f))) r"
      using copy_rows_exact[of ?h ?s ?n "vf_data f" "replicate (?s * ?h) 0"] small n fits len by (auto simp: mult.commute)
    have "convert_format (vf_data f) (replicate (?s * ?h) 0) (vf_format f) (vf_format f) (vf_width f) ?h ?s ?s = Some (Ok r)"
      using r(1) False row by (simp add: convert_format_def)
    moreover have "length (take ?n (drop (y * ?s) (vf_data f))) = ?n" if "y < ?h" for y using fits[OF that] len by simp
    ultimately show ?thesis using r(2) unfolding same(1) by (auto simp: rows_replaced_def)
  qed
qed

text \<open>A converter for frames of this size, in a state that its own operations reach.\<close>

definition converter_ready :: "nat \<Rightarrow> nat \<Rightarrow> bitmap_converter \<Rightarrow> bool" where
  "converter_ready w h c \<longleftrightarrow> dt_screen_width (bc_damage_tracker c) = w \<and> dt_screen_height (bc_damage_tracker c) = h \<and> tracker_within (bc_damage_tracker c) \<and>
     free_slots_empty (bc_buffer_pool c) \<and> 0 < length (bp_buffers (bc_buffer_pool c))"

lemma bitmap_converter_new_ready: "converter_ready w h (bitmap_converter_new w h)"
  by (simp add: converter_ready_def bitmap_converter_new_def tracker_new_def tracker_within_def tracker_regions_def pool_new_empty BUFFER_POOL_SIZE_def)
    (simp add: pool_new_def)

lemma fresh_buffer: "bv_bytes (vec_resize n (vec_zeroed (align_to_boundary n RDP_BITMAP_ALIGNMENT))) = replicate n 0"
proof -
  have "n \<le> align_to_boundary n RDP_BITMAP_ALIGNMENT" unfolding align_to_boundary_def RDP_BITMAP_ALIGNMENT_def by simp
  then show ?thesis by (simp add: vec_resize_def vec_zeroed_def min_def)
qed

lemma finish_ready:
  assumes "converter_ready w h c"
  shows "\<exists>c'. finish_conversion now ns f v c = Some c' \<and> converter_ready w h c' \<and> tracker_regions (bc_damage_tracker c') = []"
proof -
  obtain p where p: "release now v (bc_buffer_pool c) = Some p" using assms release_total[of "bc_buffer_pool c" now v] by (auto simp: converter_ready_def)
  then have "free_slots_empty p" "length (bp_buffers p) = length (bp_buffers (bc_buffer_pool c))"
    using release_keeps_empty assms by (auto simp: converter_ready_def)
  moreover have "finish_conversion now ns f v c \<noteq> None" using p by (simp add: finish_conversion_def Let_def)
  then obtain c' where c': "finish_conversion now ns f v c = Some c'" by blast
  moreover have "bc_buffer_pool c' = p" "bc_damage_tracker c' = tracker_reset (bc_damage_tracker c)" using c' p by (auto simp: finish_conversion_def Let_def)
  ultimately show ?thesis
    using assms by (auto simp: converter_ready_def tracker_reset_def tracker_within_def tracker_regions_def)
qed

text \<open>
  C34.  A frame that the bitmap path can convert gives a correct update: for a valid new frame in BGR or BGRx with the stride and size of the output,
  inside whose picture all damage lies, the conversion succeeds and every rectangle lies in the picture and carries exactly the frame's bytes there, every pixel
  damaged by this frame or since the last update is in a rectangle, and the converter is ready for the next frame with no damage left.
\<close>

theorem bitmap_update_exact:
  assumes f: "frame_is_valid f" "calculate_frame_hash (vf_data f) \<noteq> bc_last_frame_hash c"
    and format: "vf_format f \<in> {BGR, BGRx}" and stride: "vf_stride f = calculate_rdp_stride (vf_width f) (from_pixel_format (vf_format f))"
    and dims: "vf_width f < 2 ^ 16" "vf_height f < 2 ^ 16" "vf_stride f * vf_height f < 2 ^ 32" and len: "length (vf_data f) = vf_stride f * vf_height f"
    and ready: "converter_ready (vf_width f) (vf_height f) c"
    and damage: "\<forall>d \<in> set (vf_damage_regions f). damage_within (vf_width f) (vf_height f) d"
  shows "\<exists>rects c'. convert_frame now ns f c = Some (Ok rects, c') \<and>
    converter_ready (vf_width f) (vf_height f) c' \<and> tracker_regions (bc_damage_tracker c') = [] \<and>
    (\<forall>d \<in> set rects. rect_within (vf_width f) (vf_height f) (bd_rectangle d) \<and> bd_format d = from_pixel_format (vf_format f) \<and>
       bd_data d = region_bytes (vf_data f) (vf_stride f) (bytes_per_pixel (vf_format f)) (bd_rectangle d)) \<and>
    (\<forall>x < vf_width f. \<forall>y < vf_height f.
       vf_damage_regions f = [] \<or> (x, y) \<in> covered (tracker_regions (bc_damage_tracker c)) \<or> (\<exists>d \<in> set (vf_damage_regions f). (x, y) \<in> damage_pixels d) \<longrightarrow>
       (x, y) \<in> covered (map bd_rectangle rects))"
proof -
  let ?w = "vf_width f" let ?h = "vf_height f" let ?s = "vf_stride f" let ?b = "bytes_per_pixel (vf_format f)" let ?format = "from_pixel_format (vf_format f)"
  let ?t = "track_damage f (bc_damage_tracker c)" let ?pool = "bc_buffer_pool c"
  let ?c = "c\<lparr>bc_last_frame_hash := calculate_frame_hash (vf_data f), bc_damage_tracker := ?t\<rparr>"
  let ?v = "vec_resize (?s * ?h) (vec_zeroed (align_to_boundary (?s * ?h) RDP_BITMAP_ALIGNMENT))"
  have b: "rdp_bytes_per_pixel ?format = ?b" using format by (auto simp: from_pixel_format_def)
  have n: "?w * ?b \<le> ?s" using rdp_stride_bounds(2)[OF dims(1), of ?format] stride b by simp
  have c: "dt_screen_width (bc_damage_tracker c) = ?w" "dt_screen_height (bc_damage_tracker c) = ?h" "tracker_within (bc_damage_tracker c)" "free_slots_empty ?pool"
    using ready by (simp_all add: converter_ready_def)
  have t: "tracker_within ?t" "dt_screen_width ?t = ?w" "dt_screen_height ?t = ?h"
    "\<forall>x < ?w. \<forall>y < ?h. vf_damage_regions f = [] \<or> (x, y) \<in> covered (tracker_regions (bc_damage_tracker c)) \<or> (\<exists>d \<in> set (vf_damage_regions f). (x, y) \<in> damage_pixels d) \<longrightarrow>
       (x, y) \<in> covered (tracker_regions ?t)"
    using track_damage_covers[of "bc_damage_tracker c" f] c dims damage by auto
  obtain bytes where bytes: "convert_format (vf_data f) (replicate (?s * ?h) 0) (vf_format f) (pipewire_format ?format) ?w ?h ?s ?s = Some (Ok bytes)"
    "length bytes = ?s * ?h" "\<forall>y < ?h. take (?w * ?b) (drop (y * ?s) bytes) = take (?w * ?b) (drop (y * ?s) (vf_data f))"
    using direct_copy[OF format stride dims(1,3) len] by blast
  let ?rects = "map (\<lambda>r. \<lparr>bd_rectangle = r, bd_format = ?format, bd_data = region_bytes bytes ?s ?b r\<rparr>) (tracker_regions ?t)"
  have within: "list_all (rect_within ?w ?h) (tracker_regions ?t)" using t by (simp add: tracker_within_def)
  have rects: "extract_regions bytes (tracker_regions ?t) ?w ?h ?format = Ok ?rects"
    using extract_regions_exact[OF within, of ?format bytes] n b stride bytes(2) by simp
  have "converter_ready ?w ?h ?c" using ready t by (simp add: converter_ready_def)
  then obtain c' where c': "finish_conversion now ns f (?v\<lparr>bv_bytes := bytes\<rparr>) ?c = Some c'" "converter_ready ?w ?h c'" "tracker_regions (bc_damage_tracker c') = []"
    using finish_ready by blast
  have "convert_frame now ns f c = Some (Ok ?rects, c')"
    using f bytes(1) rects c'(1) acquire_fresh[OF c(4), of now "?s * ?h"]
    unfolding convert_frame_def Let_def by (simp add: calculate_output_size_def stride[symmetric] fresh_buffer)
  moreover have "bd_data d = region_bytes (vf_data f) ?s ?b (bd_rectangle d)" if "d \<in> set ?rects" for d
    using that within region_bytes_rows[OF _ n bytes(3)[rule_format]] by (auto simp: list_all_iff)
  ultimately show ?thesis
    using c'(2,3) t(4) within by (intro exI[of _ ?rects] exI[of _ c']) (auto simp: list_all_iff covered_def)
qed

definition small_frame :: "pixel_format \<Rightarrow> video_frame" where
  "small_frame format = (frame_with_data 0 1 2 1 8 format 0 [1, 2, 3, 4, 5, 6, 7, 8])\<lparr>vf_damage_regions := [\<lparr>ffi_x = 1, ffi_y = 0, ffi_width = 1, ffi_height = 1\<rparr>]\<rparr>"

lemma small_frame_hash: "calculate_frame_hash (vf_data (small_frame format)) \<noteq> bc_last_frame_hash (bitmap_converter_new 2 1)"
proof -
  have "calculate_frame_hash [1, 2, 3, 4, 5, 6, 7, 8] \<noteq> 0" by code_simp
  then show ?thesis by (simp add: small_frame_def frame_with_data_def bitmap_converter_new_def)
qed

lemma small_frame_valid: "frame_is_valid (small_frame format)"
  by (simp add: small_frame_def frame_with_data_def frame_is_valid_def is_corrupted_def is_incomplete_def)

theorem bitmap_update_exact_witness:
  "\<exists>rects c'. convert_frame 5 7 (small_frame BGRx) (bitmap_converter_new 2 1) = Some (Ok rects, c') \<and>
    converter_ready 2 1 c' \<and> tracker_regions (bc_damage_tracker c') = [] \<and>
    (\<forall>d \<in> set rects. rect_within 2 1 (bd_rectangle d) \<and> bd_data d = region_bytes [1, 2, 3, 4, 5, 6, 7, 8] 8 4 (bd_rectangle d)) \<and>
    (1, 0) \<in> covered (map bd_rectangle rects)"
proof -
  let ?f = "small_frame BGRx"
  have f: "vf_format ?f = BGRx" "vf_width ?f = 2" "vf_height ?f = 1" "vf_stride ?f = 8" "vf_data ?f = [1, 2, 3, 4, 5, 6, 7, 8]"
    "vf_damage_regions ?f = [\<lparr>ffi_x = 1, ffi_y = 0, ffi_width = 1, ffi_height = 1\<rparr>]" by (simp_all add: small_frame_def frame_with_data_def)
  have s: "calculate_rdp_stride 2 (from_pixel_format BGRx) = 8" by (simp add: calculate_rdp_stride_def align_to_boundary_def from_pixel_format_def)
  have d: "damage_within 2 1 \<lparr>ffi_x = 1, ffi_y = 0, ffi_width = 1, ffi_height = 1\<rparr>" "(1, 0) \<in> damage_pixels \<lparr>ffi_x = 1, ffi_y = 0, ffi_width = 1, ffi_height = 1\<rparr>"
    by (simp_all add: damage_within_def damage_pixels_def)
  obtain rects c' where r: "convert_frame 5 7 ?f (bitmap_converter_new 2 1) = Some (Ok rects, c')" "converter_ready 2 1 c'" "tracker_regions (bc_damage_tracker c') = []"
    "\<forall>d \<in> set rects. rect_within 2 1 (bd_rectangle d) \<and> bd_format d = from_pixel_format BGRx \<and> bd_data d = region_bytes [1, 2, 3, 4, 5, 6, 7, 8] 8 4 (bd_rectangle d)"
    "(1, 0) \<in> damage_pixels \<lparr>ffi_x = 1, ffi_y = 0, ffi_width = 1, ffi_height = 1\<rparr> \<longrightarrow> (1, 0) \<in> covered (map bd_rectangle rects)"
    using bitmap_update_exact[OF small_frame_valid small_frame_hash, of BGRx 5 7, unfolded f] s d(1) bitmap_converter_new_ready[of 2 1] by auto
  have "(1, 0) \<in> covered (map bd_rectangle rects)" using r(5) d(2) by blast
  then show ?thesis using r(1-4) by blast
qed

text \<open>
  The bitmap path refuses every other frame: one in another format than BGR or BGRx, or with another stride than that of the output, is never converted, and
  since its hash is kept the same frame is reported as unchanged the next time.
\<close>

theorem bitmap_path_refuses:
  assumes "frame_is_valid f" "calculate_frame_hash (vf_data f) \<noteq> bc_last_frame_hash c"
    and "vf_format f \<notin> {BGR, BGRx} \<or> vf_stride f \<noteq> calculate_rdp_stride (vf_width f) (from_pixel_format (vf_format f))"
  shows "\<exists>c'. convert_frame now ns f c =
      Some (Err (Conversion_failed (''pixel format conversion: Unsupported conversion: '' @ format_name (vf_format f) @ '' -> '' @
        format_name (pipewire_format (from_pixel_format (vf_format f))))), c') \<and>
    convert_frame now' ns' f c' = Some (Ok [], c')"
proof -
  define m where "m = ''pixel format conversion: Unsupported conversion: '' @ format_name (vf_format f) @ '' -> '' @ format_name (pipewire_format (from_pixel_format (vf_format f)))"
  let ?n = "calculate_output_size (vf_width f) (vf_height f) (from_pixel_format (vf_format f))"
  have conv: "convert_format (vf_data f) bytes (vf_format f) (pipewire_format (from_pixel_format (vf_format f))) (vf_width f) (vf_height f) (vf_stride f)
      (calculate_rdp_stride (vf_width f) (from_pixel_format (vf_format f))) = Some (Err m)" for bytes
    using assms(3) unfolding m_def by (cases "vf_format f") (auto simp: convert_format_def from_pixel_format_def)
  obtain v p where a: "acquire now ?n (bc_buffer_pool c) = (v, p)" by fastforce
  let ?c = "c\<lparr>bc_last_frame_hash := calculate_frame_hash (vf_data f), bc_damage_tracker := track_damage f (bc_damage_tracker c), bc_buffer_pool := p\<rparr>"
  have "convert_frame now ns f c = Some (Err (Conversion_failed m), ?c)" using assms(1,2) a conv by (simp add: convert_frame_def Let_def)
  moreover have "convert_frame now' ns' f ?c = Some (Ok [], ?c)" using assms(1) by (simp add: convert_frame_def)
  ultimately show ?thesis unfolding m_def[symmetric] by blast
qed

theorem bitmap_path_refuses_witness:
  "\<exists>c'. convert_frame 5 7 (small_frame BGRA) (bitmap_converter_new 2 1) = Some (Err (Conversion_failed ''pixel format conversion: Unsupported conversion: BGRA -> BGRx''), c') \<and>
    convert_frame 6 7 (small_frame BGRA) c' = Some (Ok [], c')"
proof -
  have "vf_format (small_frame BGRA) = BGRA" by (simp add: small_frame_def frame_with_data_def)
  then show ?thesis
    using bitmap_path_refuses[OF small_frame_valid small_frame_hash, of BGRA 5 7 6 7] by (simp add: from_pixel_format_def)
qed

text \<open>
  The library is told that a BGR rectangle has as many bytes per pixel as its own format, four, but the data has three.
\<close>

lemma bgr_update_too_short:
  assumes "iron_update bpp d = Ok u" "bd_format d = Bgr24" "length (bd_data d) = rect_width (bd_rectangle d) * 3 * rect_height (bd_rectangle d)" "bpp Iron_XBgr32 = 4"
  shows "length (ib_data u) < ib_stride u * ib_height u"
  using assms by (auto simp: iron_update_def Let_def split: if_splits)

text \<open>An error leaves a region outside the frame in the tracker, so that the next frames with damage fail as well.\<close>

lemma error_keeps_damage:
  assumes "convert_frame now ns f c = Some (Err Region_out_of_bounds, c')"
  shows "bc_damage_tracker c' = track_damage f (bc_damage_tracker c)"
  using assms by (auto simp: convert_frame_def Let_def split: if_splits option.splits sum.splits prod.splits)

end
