(* ===== verification/Wrdp_Resize.thy ===== *)
theory Wrdp_Resize
  imports Wrdp_Prelude
begin

text \<open>
  Resizing of the desktop on request of the client (\<open>src/src/rdp/server/display_handler.rs\<close>): the policy for sizes, the coordinator
  that keeps one transaction at a time, and the pipeline that issues the compositor's mode command, waits for a captured frame of the new size and then
  publishes it.

  Widths and heights are \<open>u16\<close> or \<open>u32\<close> values as natural numbers and the clock is an argument.  The client's requests arrive in another task, so
  that they may come between any two accesses of the pipeline to the shared coordinator.
\<close>

section \<open>Policy\<close>

record resize_request =
  rz_width :: nat
  rz_height :: nat

record geometry_config =
  allow_resize :: bool
  allowed_resolutions :: "string list"

definition MAX_DESKTOP_AREA :: nat where "MAX_DESKTOP_AREA = 3840 * 2400"

definition show_size :: "resize_request \<Rightarrow> string" where
  "show_size r = show_nat (rz_width r) @ ''x'' @ show_nat (rz_height r)"

definition fixed_size_error :: "resize_request \<Rightarrow> resize_request option \<Rightarrow> string option" where
  "fixed_size_error requested fixed_size =
     (case fixed_size of
        Some fixed \<Rightarrow>
          if fixed = requested then None
          else Some (''desktop geometry '' @ show_size requested @ '' differs from fixed configured size '' @ show_size fixed @
                 '' while display resizing is disabled'')
      | None \<Rightarrow> Some ''desktop resizing is disabled by configuration'')"

definition validate_geometry_policy ::
  "geometry_config \<Rightarrow> resize_request \<Rightarrow> resize_request option \<Rightarrow> (string, resize_request) result" where
  "validate_geometry_policy config requested fixed_size =
     (if rz_width requested = 0 \<or> rz_height requested = 0 then Err ''desktop geometry must have nonzero width and height''
      else let area = rz_width requested * rz_height requested in
        if area > MAX_DESKTOP_AREA
        then Err (''desktop geometry '' @ show_size requested @ '' exceeds maximum area of '' @ show_nat MAX_DESKTOP_AREA @ '' pixels'')
        else case (if \<not> allow_resize config then fixed_size_error requested fixed_size else None) of
               Some e \<Rightarrow> Err e
             | None \<Rightarrow>
                 if allowed_resolutions config \<noteq> [] \<and> show_size requested \<notin> set (allowed_resolutions config)
                 then Err (''desktop geometry '' @ show_size requested @ '' is not in display.allowed_resolutions'')
                 else Ok requested)"

text \<open>A request of the client, in sizes that the protocol library adjusts (\<open>adjust\<close>).\<close>

definition allowed_resize :: "(nat \<Rightarrow> nat \<Rightarrow> nat \<times> nat) \<Rightarrow> geometry_config \<Rightarrow> nat \<Rightarrow> nat \<Rightarrow> resize_request option" where
  "allowed_resize adjust config raw_width raw_height =
     (case adjust raw_width raw_height of (width, height) \<Rightarrow>
        if width < 2 ^ 16 \<and> height < 2 ^ 16 then
          (case validate_geometry_policy config \<lparr>rz_width = width, rz_height = height\<rparr> None of
             Ok accepted \<Rightarrow> Some accepted
           | Err _ \<Rightarrow> None)
        else None)"

section \<open>The coordinator\<close>

record resize_coordinator =
  rc_pending :: "resize_request option"
  rc_in_flight :: "resize_request option"
  rc_committing :: "resize_request option"
  rc_applied :: resize_request
  rc_retry_not_before :: "instant option"
  rc_realization_deadline :: "instant option"

definition REACTIVATION_GUARD :: duration where "REACTIVATION_GUARD = 2 * 1000000000"
definition RETRY_DELAY :: duration where "RETRY_DELAY = 250 * 1000000"
definition REALIZATION_TIMEOUT :: duration where "REALIZATION_TIMEOUT = 2 * 1000000000"

definition coordinator_new :: "nat \<Rightarrow> nat \<Rightarrow> resize_coordinator" where
  "coordinator_new width height =
     \<lparr>rc_pending = None, rc_in_flight = None, rc_committing = None, rc_applied = \<lparr>rz_width = width, rz_height = height\<rparr>,
      rc_retry_not_before = None, rc_realization_deadline = None\<rparr>"

definition request :: "resize_request \<Rightarrow> resize_coordinator \<Rightarrow> resize_coordinator" where
  "request r c =
     (if rc_in_flight c = Some r \<or> rc_committing c = Some r then c\<lparr>rc_pending := None\<rparr>
      else if rc_in_flight c = None \<and> rc_applied c = r then c\<lparr>rc_pending := None\<rparr>
      else c\<lparr>rc_pending := Some r\<rparr>)"

text \<open>The end of \<open>take_ready\<close>, once no transaction is active.\<close>

definition take_pending :: "instant \<Rightarrow> resize_coordinator \<Rightarrow> resize_request option \<times> resize_coordinator" where
  "take_pending now c =
     (if (case rc_retry_not_before c of Some deadline \<Rightarrow> now < deadline | None \<Rightarrow> False) then (None, c)
      else case rc_pending c of
             None \<Rightarrow> (None, c)
           | Some r \<Rightarrow>
               let c = c\<lparr>rc_pending := None\<rparr> in
               if r = rc_applied c then (None, c)
               else (Some r, c\<lparr>rc_in_flight := Some r, rc_realization_deadline := None\<rparr>))"

definition take_ready :: "instant \<Rightarrow> resize_coordinator \<Rightarrow> resize_request option \<times> resize_coordinator" where
  "take_ready now c =
     (if rc_committing c \<noteq> None then (None, c)
      else if rc_in_flight c \<noteq> None then
        if rc_pending c \<noteq> None then take_pending now (c\<lparr>rc_in_flight := None, rc_realization_deadline := None\<rparr>) else (None, c)
      else take_pending now c)"

definition mark_command_succeeded :: "resize_request \<Rightarrow> instant \<Rightarrow> resize_coordinator \<Rightarrow> bool \<times> resize_coordinator" where
  "mark_command_succeeded r now c =
     (if rc_in_flight c \<noteq> Some r \<or> rc_pending c \<noteq> None then (False, c)
      else (True, c\<lparr>rc_realization_deadline := Some (now + REALIZATION_TIMEOUT)\<rparr>))"

definition mark_failed :: "resize_request \<Rightarrow> instant \<Rightarrow> resize_coordinator \<Rightarrow> bool \<times> resize_coordinator" where
  "mark_failed r now c =
     (if rc_in_flight c \<noteq> Some r then (False, c)
      else let c = c\<lparr>rc_in_flight := None, rc_realization_deadline := None\<rparr> in
        if rc_pending c \<noteq> None then (False, c)
        else (True, c\<lparr>rc_pending := Some r, rc_retry_not_before := Some (now + RETRY_DELAY)\<rparr>))"

definition expire_realization :: "instant \<Rightarrow> resize_coordinator \<Rightarrow> resize_request option \<times> resize_coordinator" where
  "expire_realization now c =
     (case rc_in_flight c of
        None \<Rightarrow> (None, c)
      | Some r \<Rightarrow>
          if (case rc_realization_deadline c of Some deadline \<Rightarrow> now \<ge> deadline | None \<Rightarrow> False)
          then (Some r, snd (mark_failed r now c))
          else (None, c))"

definition matches_realized_frame :: "nat \<Rightarrow> nat \<Rightarrow> instant \<Rightarrow> resize_coordinator \<Rightarrow> resize_request option" where
  "matches_realized_frame width height now c =
     (case rc_in_flight c of
        None \<Rightarrow> None
      | Some r \<Rightarrow>
          if rc_pending c = None \<and> (case rc_realization_deadline c of Some deadline \<Rightarrow> now \<le> deadline | None \<Rightarrow> False) \<and>
             (width, height) = (rz_width r, rz_height r)
          then Some r else None)"

definition begin_commit :: "resize_request \<Rightarrow> instant \<Rightarrow> resize_coordinator \<Rightarrow> bool \<times> resize_coordinator" where
  "begin_commit r now c =
     (if matches_realized_frame (rz_width r) (rz_height r) now c \<noteq> Some r then (False, c)
      else (True, c\<lparr>rc_in_flight := None, rc_realization_deadline := None, rc_committing := Some r\<rparr>))"

definition mark_commit_failed :: "resize_request \<Rightarrow> instant \<Rightarrow> resize_coordinator \<Rightarrow> bool \<times> resize_coordinator" where
  "mark_commit_failed r now c =
     (if rc_committing c \<noteq> Some r then (False, c)
      else let c = c\<lparr>rc_committing := None\<rparr> in
        if rc_pending c \<noteq> None then (False, c)
        else (True, c\<lparr>rc_pending := Some r, rc_retry_not_before := Some (now + RETRY_DELAY)\<rparr>))"

definition mark_applied :: "resize_request \<Rightarrow> instant \<Rightarrow> resize_coordinator \<Rightarrow> bool \<times> resize_coordinator" where
  "mark_applied r now c =
     (if rc_committing c \<noteq> Some r then (False, c)
      else (True, c\<lparr>rc_applied := r, rc_committing := None, rc_retry_not_before := Some (now + REACTIVATION_GUARD)\<rparr>))"

section \<open>The client and the pipeline\<close>

text \<open>A layout of monitors, each with whether it is the primary one and its size.\<close>

definition request_layout ::
  "(nat \<Rightarrow> nat \<Rightarrow> nat \<times> nat) \<Rightarrow> geometry_config \<Rightarrow> bool \<Rightarrow> (bool \<times> nat \<times> nat) list \<Rightarrow> resize_coordinator \<Rightarrow> resize_coordinator" where
  "request_layout adjust config managed_compositor monitors c =
     (case (case find fst monitors of Some m \<Rightarrow> Some m | None \<Rightarrow> (case monitors of [] \<Rightarrow> None | m # _ \<Rightarrow> Some m)) of
        None \<Rightarrow> c
      | Some (_, raw_w, raw_h) \<Rightarrow>
          if \<not> managed_compositor then c
          else case allowed_resize adjust config raw_w raw_h of
                 None \<Rightarrow> c
               | Some r \<Rightarrow> request r c)"

text \<open>
  Where the pipeline is: waiting for the mode command, holding a frame of the wanted size, waiting for room in the channel of updates, or about to
  record a published size.
\<close>

datatype resize_phase =
    Idle | Commanding resize_request | Matched resize_request | Committing resize_request | Publishing resize_request

datatype resize_event =
    Requested resize_request | Command_accepted resize_request | Captured nat nat | Published resize_request | Internal

record resize_state =
  rs_coordinator :: resize_coordinator
  rs_phase :: resize_phase
  rs_size :: resize_request

definition resize_start :: "nat \<Rightarrow> nat \<Rightarrow> resize_state" where
  "resize_start width height =
     \<lparr>rs_coordinator = coordinator_new width height, rs_phase = Idle, rs_size = \<lparr>rz_width = width, rz_height = height\<rparr>\<rparr>"

text \<open>
  The runs, with what can be seen of them.  The parameters stand for the policy and the library's adjustment of sizes.
\<close>

inductive resize_run ::
  "(nat \<Rightarrow> nat \<Rightarrow> nat \<times> nat) \<Rightarrow> geometry_config \<Rightarrow> nat \<Rightarrow> nat \<Rightarrow> resize_event list \<Rightarrow> resize_state \<Rightarrow> bool"
  for adjust config width height where
  start: "resize_run adjust config width height [] (resize_start width height)"
| client: "resize_run adjust config width height tr s \<Longrightarrow> allowed_resize adjust config raw_w raw_h = Some r \<Longrightarrow>
    resize_run adjust config width height (tr @ [Requested r]) (s\<lparr>rs_coordinator := request r (rs_coordinator s)\<rparr>)"
| expire: "resize_run adjust config width height tr s \<Longrightarrow> rs_phase s = Idle \<Longrightarrow>
    resize_run adjust config width height (tr @ [Internal]) (s\<lparr>rs_coordinator := snd (expire_realization now (rs_coordinator s))\<rparr>)"
| take: "resize_run adjust config width height tr s \<Longrightarrow> rs_phase s = Idle \<Longrightarrow> take_ready now (rs_coordinator s) = (ready, c) \<Longrightarrow>
    resize_run adjust config width height (tr @ [Internal])
      (s\<lparr>rs_coordinator := c, rs_phase := (case ready of None \<Rightarrow> Idle | Some r \<Rightarrow> Commanding r)\<rparr>)"
| accepted: "resize_run adjust config width height tr s \<Longrightarrow> rs_phase s = Commanding r \<Longrightarrow>
    resize_run adjust config width height (tr @ [Command_accepted r])
      (s\<lparr>rs_coordinator := snd (mark_command_succeeded r now (rs_coordinator s)), rs_phase := Idle\<rparr>)"
| refused: "resize_run adjust config width height tr s \<Longrightarrow> rs_phase s = Commanding r \<Longrightarrow>
    resize_run adjust config width height (tr @ [Internal])
      (s\<lparr>rs_coordinator := snd (mark_failed r now (rs_coordinator s)), rs_phase := Idle\<rparr>)"
| frame: "resize_run adjust config width height tr s \<Longrightarrow> rs_phase s = Idle \<Longrightarrow>
    resize_run adjust config width height (tr @ [Captured w h])
      (s\<lparr>rs_phase := (case matches_realized_frame w h now (rs_coordinator s) of None \<Rightarrow> Idle | Some r \<Rightarrow> Matched r)\<rparr>)"
| commit: "resize_run adjust config width height tr s \<Longrightarrow> rs_phase s = Matched r \<Longrightarrow> begin_commit r now (rs_coordinator s) = (started, c) \<Longrightarrow>
    resize_run adjust config width height (tr @ [Internal])
      (s\<lparr>rs_coordinator := c, rs_phase := (if started then Committing r else Idle)\<rparr>)"
| publish: "resize_run adjust config width height tr s \<Longrightarrow> rs_phase s = Committing r \<Longrightarrow>
    resize_run adjust config width height (tr @ [Published r]) (s\<lparr>rs_size := r, rs_phase := Publishing r\<rparr>)"
| unreserved: "resize_run adjust config width height tr s \<Longrightarrow> rs_phase s = Committing r \<Longrightarrow>
    resize_run adjust config width height (tr @ [Internal])
      (s\<lparr>rs_coordinator := snd (mark_commit_failed r now (rs_coordinator s)), rs_phase := Idle\<rparr>)"
| applied: "resize_run adjust config width height tr s \<Longrightarrow> rs_phase s = Publishing r \<Longrightarrow>
    resize_run adjust config width height (tr @ [Internal])
      (s\<lparr>rs_coordinator := snd (mark_applied r now (rs_coordinator s)), rs_phase := Idle\<rparr>)"

section \<open>What a published size went through\<close>

definition accepted_after :: "resize_request \<Rightarrow> resize_event list \<Rightarrow> bool" where
  "accepted_after r tr \<longleftrightarrow> (\<exists>a b. tr = a @ Command_accepted r # b \<and> Requested r \<in> set a)"

text \<open>The size was requested, then its mode command was accepted, then a frame of the size was captured.\<close>

definition realised :: "resize_request \<Rightarrow> resize_event list \<Rightarrow> bool" where
  "realised r tr \<longleftrightarrow> (\<exists>a b. tr = a @ Captured (rz_width r) (rz_height r) # b \<and> accepted_after r a)"

fun published :: "resize_event list \<Rightarrow> resize_request list" where
  "published [] = []"
| "published (Published r # tr) = r # published tr"
| "published (_ # tr) = published tr"

lemma published_append [simp]: "published (tr @ tr') = published tr @ published tr'"
  by (induction tr rule: published.induct) simp_all

lemma accepted_after_append: "accepted_after r tr \<Longrightarrow> accepted_after r (tr @ tr')"
  unfolding accepted_after_def by (metis append.assoc append_Cons)

lemma realised_append: "realised r tr \<Longrightarrow> realised r (tr @ tr')"
  unfolding realised_def by (metis append.assoc append_Cons)

lemma accepted_now: "Requested r \<in> set tr \<Longrightarrow> accepted_after r (tr @ [Command_accepted r])"
  by (auto simp: accepted_after_def)

lemma realised_now: "accepted_after r tr \<Longrightarrow> realised r (tr @ [Captured (rz_width r) (rz_height r)])"
  by (auto simp: realised_def)

lemmas trace_append = accepted_after_append realised_append

text \<open>What the coordinator's fields say about the past.\<close>

definition coordinator_ok :: "resize_event list \<Rightarrow> resize_coordinator \<Rightarrow> bool" where
  "coordinator_ok tr c \<longleftrightarrow>
     (\<forall>r. rc_pending c = Some r \<longrightarrow> Requested r \<in> set tr) \<and>
     (\<forall>r. rc_in_flight c = Some r \<longrightarrow> Requested r \<in> set tr) \<and>
     (\<forall>r d. rc_in_flight c = Some r \<longrightarrow> rc_realization_deadline c = Some d \<longrightarrow> accepted_after r tr) \<and>
     (rc_in_flight c = None \<longrightarrow> rc_realization_deadline c = None)"

fun phase_ok :: "resize_event list \<Rightarrow> resize_coordinator \<Rightarrow> resize_request \<Rightarrow> resize_phase \<Rightarrow> bool" where
  "phase_ok tr c sz Idle \<longleftrightarrow> rc_committing c = None \<and> sz = rc_applied c"
| "phase_ok tr c sz (Commanding r) \<longleftrightarrow> rc_committing c = None \<and> sz = rc_applied c \<and> Requested r \<in> set tr"
| "phase_ok tr c sz (Matched r) \<longleftrightarrow> rc_committing c = None \<and> sz = rc_applied c \<and> Requested r \<in> set tr \<and> realised r tr"
| "phase_ok tr c sz (Committing r) \<longleftrightarrow> rc_committing c = Some r \<and> sz = rc_applied c \<and> Requested r \<in> set tr \<and> realised r tr"
| "phase_ok tr c sz (Publishing r) \<longleftrightarrow> rc_committing c = Some r \<and> sz = r \<and> Requested r \<in> set tr \<and> realised r tr"

lemma coordinator_ok_append: "coordinator_ok tr c \<Longrightarrow> coordinator_ok (tr @ [e]) c"
  by (auto simp: coordinator_ok_def accepted_after_append)

lemma phase_ok_append: "phase_ok tr c sz p \<Longrightarrow> phase_ok (tr @ [e]) c sz p"
  by (cases p) (auto simp: realised_append)

lemma request_fields [simp]: "rc_committing (request r c) = rc_committing c" "rc_applied (request r c) = rc_applied c" "rc_in_flight (request r c) = rc_in_flight c"
  "rc_realization_deadline (request r c) = rc_realization_deadline c"
  by (simp_all add: request_def)

lemma request_ok: "coordinator_ok tr c \<Longrightarrow> coordinator_ok (tr @ [Requested r]) (request r c)"
  by (auto simp: coordinator_ok_def request_def accepted_after_append)

lemma phase_ok_request: "phase_ok tr (request r c) sz p \<longleftrightarrow> phase_ok tr c sz p"
  by (cases p) simp_all

lemma mark_failed_ok: "coordinator_ok tr c \<Longrightarrow> coordinator_ok tr (snd (mark_failed r now c))"
  by (auto simp: coordinator_ok_def mark_failed_def Let_def)

lemma mark_failed_fields [simp]:
  "rc_committing (snd (mark_failed r now c)) = rc_committing c" "rc_applied (snd (mark_failed r now c)) = rc_applied c"
  by (simp_all add: mark_failed_def Let_def)

lemma expire_ok: "coordinator_ok tr c \<Longrightarrow> coordinator_ok tr (snd (expire_realization now c))"
  by (auto simp: expire_realization_def mark_failed_ok split: option.split)

lemma expire_fields [simp]:
  "rc_committing (snd (expire_realization now c)) = rc_committing c" "rc_applied (snd (expire_realization now c)) = rc_applied c"
  by (simp_all add: expire_realization_def split: option.split)

lemma take_pending_ok:
  assumes "coordinator_ok tr c" "rc_in_flight c = None" "take_pending now c = (ready, c')"
  shows "coordinator_ok tr c' \<and> rc_committing c' = rc_committing c \<and> rc_applied c' = rc_applied c \<and> (\<forall>r. ready = Some r \<longrightarrow> Requested r \<in> set tr)"
  using assms by (auto simp: take_pending_def coordinator_ok_def Let_def split: if_splits option.splits)

lemma take_ready_ok:
  assumes "coordinator_ok tr c" "take_ready now c = (ready, c')"
  shows "coordinator_ok tr c' \<and> rc_committing c' = rc_committing c \<and> rc_applied c' = rc_applied c \<and> (\<forall>r. ready = Some r \<longrightarrow> Requested r \<in> set tr)"
proof -
  have "coordinator_ok tr (c\<lparr>rc_in_flight := None, rc_realization_deadline := None\<rparr>)" using assms(1) by (simp add: coordinator_ok_def)
  from take_pending_ok[OF this _, of now ready c'] take_pending_ok[OF assms(1), of now ready c'] assms show ?thesis
    by (auto simp: take_ready_def split: if_splits)
qed

lemma matches_ok: "coordinator_ok tr c \<Longrightarrow> matches_realized_frame w h now c = Some r \<Longrightarrow>
  rc_in_flight c = Some r \<and> w = rz_width r \<and> h = rz_height r \<and> accepted_after r tr \<and> Requested r \<in> set tr"
  by (auto simp: matches_realized_frame_def coordinator_ok_def split: option.splits if_splits)

definition resize_ok :: "geometry_config \<Rightarrow> nat \<Rightarrow> nat \<Rightarrow> resize_event list \<Rightarrow> resize_state \<Rightarrow> bool" where
  "resize_ok config width height tr s \<longleftrightarrow>
     coordinator_ok tr (rs_coordinator s) \<and> phase_ok tr (rs_coordinator s) (rs_size s) (rs_phase s) \<and>
     (\<forall>us r vs. tr = us @ Published r # vs \<longrightarrow> realised r us) \<and>
     (\<forall>r. Requested r \<in> set tr \<longrightarrow> validate_geometry_policy config r None = Ok r) \<and>
     rs_size s = last (\<lparr>rz_width = width, rz_height = height\<rparr> # published tr)"

lemma published_snoc:
  "(\<forall>us r vs. tr = us @ Published r # vs \<longrightarrow> realised r us) \<Longrightarrow> (\<And>r. e = Published r \<Longrightarrow> realised r tr) \<Longrightarrow>
   \<forall>us r vs. tr @ [e] = us @ Published r # vs \<longrightarrow> realised r us"
  by (metis append_eq_append_conv2 append_Nil2 butlast.simps(2) butlast_append butlast_snoc last_ConsL last_appendR last_snoc list.distinct(1))

lemma validated: "allowed_resize adjust config raw_w raw_h = Some r \<Longrightarrow> validate_geometry_policy config r None = Ok r"
proof -
  have "validate_geometry_policy config q f = Ok x \<Longrightarrow> x = q" for q f x
    by (auto simp: validate_geometry_policy_def Let_def split: if_splits option.splits)
  then show "allowed_resize adjust config raw_w raw_h = Some r \<Longrightarrow> validate_geometry_policy config r None = Ok r"
    by (auto simp: allowed_resize_def split: prod.splits if_splits sum.splits)
qed

lemma resize_okI:
  assumes ok: "resize_ok config width height tr s" and "coordinator_ok (tr @ [e]) (rs_coordinator s')" "phase_ok (tr @ [e]) (rs_coordinator s') (rs_size s') (rs_phase s')"
    and "\<And>r. e = Published r \<Longrightarrow> realised r tr \<and> rs_size s' = r" "\<And>r. e = Requested r \<Longrightarrow> validate_geometry_policy config r None = Ok r"
    and "(\<And>r. e \<noteq> Published r) \<Longrightarrow> rs_size s' = rs_size s"
  shows "resize_ok config width height (tr @ [e]) s'"
proof -
  have "\<forall>us r vs. tr @ [e] = us @ Published r # vs \<longrightarrow> realised r us"
    using ok assms(4) by (intro published_snoc) (simp_all add: resize_ok_def)
  moreover have "rs_size s' = last (\<lparr>rz_width = width, rz_height = height\<rparr> # published (tr @ [e]))"
    using ok assms(4,6) by (cases e) (auto simp: resize_ok_def)
  ultimately show ?thesis using ok assms(2,3,5) by (auto simp: resize_ok_def)
qed

lemma resize_run_ok: "resize_run adjust config width height tr s \<Longrightarrow> resize_ok config width height tr s"
proof (induction rule: resize_run.induct)
  case start
  then show ?case by (simp add: resize_ok_def resize_start_def coordinator_new_def coordinator_ok_def)
next
  case (client tr s raw_w raw_h r)
  then show ?case
    by (intro resize_okI[OF client.IH]) (auto simp: resize_ok_def request_ok phase_ok_request phase_ok_append validated)
next
  case (expire tr s now)
  then show ?case
    by (intro resize_okI[OF expire.IH]) (auto simp: resize_ok_def expire_ok coordinator_ok_append)
next
  case (take tr s now ready c)
  then have "coordinator_ok tr c \<and> rc_committing c = rc_committing (rs_coordinator s) \<and> rc_applied c = rc_applied (rs_coordinator s) \<and> (\<forall>r. ready = Some r \<longrightarrow> Requested r \<in> set tr)"
    by (intro take_ready_ok) (auto simp: resize_ok_def)
  with take show ?case
    by (intro resize_okI[OF take.IH]) (auto simp: resize_ok_def coordinator_ok_append split: option.split)
next
  case (accepted tr s r now)
  have "coordinator_ok (tr @ [Command_accepted r]) (snd (mark_command_succeeded r now (rs_coordinator s)))"
    using accepted by (auto simp: resize_ok_def mark_command_succeeded_def coordinator_ok_append) (auto simp: coordinator_ok_def accepted_now)
  with accepted show ?case
    by (intro resize_okI[OF accepted.IH]) (auto simp: resize_ok_def mark_command_succeeded_def)
next
  case (refused tr s r now)
  then show ?case
    by (intro resize_okI[OF refused.IH]) (auto simp: resize_ok_def mark_failed_ok coordinator_ok_append)
next
  case (frame tr s w h now)
  then show ?case
    by (intro resize_okI[OF frame.IH])
      (auto simp: resize_ok_def coordinator_ok_append split: option.split dest!: matches_ok intro: realised_now)
next
  case (commit tr s r now started c)
  have "coordinator_ok tr c \<and> rc_applied c = rc_applied (rs_coordinator s) \<and> rc_committing c = (if started then Some r else rc_committing (rs_coordinator s))"
    using commit by (auto simp: resize_ok_def begin_commit_def coordinator_ok_def split: if_splits)
  with commit show ?case
    by (intro resize_okI[OF commit.IH]) (auto simp: resize_ok_def coordinator_ok_append realised_append)
next
  case (publish tr s r)
  then show ?case
    by (intro resize_okI[OF publish.IH]) (auto simp: resize_ok_def coordinator_ok_append realised_append)
next
  case (unreserved tr s r now)
  then have "coordinator_ok (tr @ [Internal]) (snd (mark_commit_failed r now (rs_coordinator s)))"
    by (auto simp: resize_ok_def mark_commit_failed_def coordinator_ok_def accepted_after_append Let_def)
  with unreserved show ?case
    by (intro resize_okI[OF unreserved.IH]) (auto simp: resize_ok_def mark_commit_failed_def Let_def)
next
  case (applied tr s r now)
  then have "coordinator_ok (tr @ [Internal]) (snd (mark_applied r now (rs_coordinator s)))"
    by (auto simp: resize_ok_def mark_applied_def coordinator_ok_def accepted_after_append)
  with applied show ?case
    by (intro resize_okI[OF applied.IH]) (auto simp: resize_ok_def mark_applied_def)
qed

text \<open>
  C35.  The client is told of a new desktop size only when it is real: under every interleaving of requests with the pipeline, a size is published only after
  a client requested it within the policy, the compositor then accepted its mode and a frame of exactly that size was then captured; the advertised size is
  always the last published one and outside a publication the one the coordinator regards as applied, and recording a publication never fails.
\<close>

theorem published_sizes_are_real:
  assumes "resize_run adjust config width height tr s"
  shows "(\<forall>us r vs. tr = us @ Published r # vs \<longrightarrow> validate_geometry_policy config r None = Ok r \<and> realised r us) \<and>
    rs_size s = last (\<lparr>rz_width = width, rz_height = height\<rparr> # published tr) \<and>
    (rs_phase s = Idle \<longrightarrow> rs_size s = rc_applied (rs_coordinator s) \<and> rc_committing (rs_coordinator s) = None) \<and>
    (\<forall>r now. rs_phase s = Publishing r \<longrightarrow> fst (mark_applied r now (rs_coordinator s)))"
proof (intro conjI allI impI)
  have ok: "resize_ok config width height tr s" using assms by (rule resize_run_ok)
  show real: "realised r us" if "tr = us @ Published r # vs" for us r vs using ok that by (simp add: resize_ok_def)
  show "validate_geometry_policy config r None = Ok r" if "tr = us @ Published r # vs" for us r vs
  proof -
    have "Requested r \<in> set us" using real[OF that] by (auto simp: realised_def accepted_after_def)
    then show ?thesis using ok that by (simp add: resize_ok_def)
  qed
  show "rs_size s = last (\<lparr>rz_width = width, rz_height = height\<rparr> # published tr)" using ok by (simp add: resize_ok_def)
  show "rs_size s = rc_applied (rs_coordinator s)" "rc_committing (rs_coordinator s) = None" if "rs_phase s = Idle"
    using ok that by (simp_all add: resize_ok_def)
  show "fst (mark_applied r now (rs_coordinator s))" if "rs_phase s = Publishing r" for r now using ok that by (simp add: resize_ok_def mark_applied_def)
qed

definition any_size :: geometry_config where
  "any_size = \<lparr>allow_resize = True, allowed_resolutions = []\<rparr>"

abbreviation as_requested :: "nat \<Rightarrow> nat \<Rightarrow> nat \<times> nat" where
  "as_requested \<equiv> \<lambda>w h. (w, h)"

lemma any_size_allowed: "0 < w \<Longrightarrow> 0 < h \<Longrightarrow> w * h \<le> MAX_DESKTOP_AREA \<Longrightarrow> w < 2 ^ 16 \<Longrightarrow> h < 2 ^ 16 \<Longrightarrow>
  allowed_resize as_requested any_size w h = Some \<lparr>rz_width = w, rz_height = h\<rparr>"
  by (simp add: allowed_resize_def validate_geometry_policy_def any_size_def)

text \<open>A request that the pipeline takes: the mode command of the new size is under way.\<close>

lemma run_taken:
  assumes "allowed_resize adjust config raw_w raw_h = Some r" "r \<noteq> \<lparr>rz_width = width, rz_height = height\<rparr>"
  shows "resize_run adjust config width height [Requested r, Internal]
    ((resize_start width height)\<lparr>rs_coordinator := (coordinator_new width height)\<lparr>rc_in_flight := Some r\<rparr>, rs_phase := Commanding r\<rparr>)"
proof -
  let ?c = "(coordinator_new width height)\<lparr>rc_pending := Some r\<rparr>"
  have "request r (coordinator_new width height) = ?c" using assms(2) by (simp add: request_def coordinator_new_def)
  then have "resize_run adjust config width height ([] @ [Requested r]) ((resize_start width height)\<lparr>rs_coordinator := ?c\<rparr>)"
    using resize_run.client[OF resize_run.start assms(1), of width height] by (simp add: resize_start_def)
  moreover have "take_ready 0 ?c = (Some r, (coordinator_new width height)\<lparr>rc_in_flight := Some r\<rparr>)"
    using assms(2) by (simp add: take_ready_def take_pending_def coordinator_new_def)
  ultimately show ?thesis
    using resize_run.take[of adjust config width height "[Requested r]" "(resize_start width height)\<lparr>rs_coordinator := ?c\<rparr>" 0 "Some r"]
    by (simp add: resize_start_def)
qed

theorem published_sizes_are_real_witness:
  "\<exists>s. resize_run as_requested any_size 800 600
      [Requested \<lparr>rz_width = 1024, rz_height = 768\<rparr>, Internal, Command_accepted \<lparr>rz_width = 1024, rz_height = 768\<rparr>, Captured 1024 768, Internal,
       Published \<lparr>rz_width = 1024, rz_height = 768\<rparr>] s \<and>
    validate_geometry_policy any_size \<lparr>rz_width = 1024, rz_height = 768\<rparr> None = Ok \<lparr>rz_width = 1024, rz_height = 768\<rparr> \<and>
    realised \<lparr>rz_width = 1024, rz_height = 768\<rparr>
      [Requested \<lparr>rz_width = 1024, rz_height = 768\<rparr>, Internal, Command_accepted \<lparr>rz_width = 1024, rz_height = 768\<rparr>, Captured 1024 768, Internal] \<and>
    rs_size s = \<lparr>rz_width = 1024, rz_height = 768\<rparr> \<and> fst (mark_applied \<lparr>rz_width = 1024, rz_height = 768\<rparr> 7 (rs_coordinator s))"
proof -
  let ?r = "\<lparr>rz_width = 1024, rz_height = 768\<rparr>" let ?c = "coordinator_new 800 600" let ?s = "resize_start 800 600"
  let ?tr = "[Requested ?r, Internal, Command_accepted ?r, Captured 1024 768, Internal]"
  let ?last = "?s\<lparr>rs_coordinator := ?c\<lparr>rc_committing := Some ?r\<rparr>, rs_phase := Publishing ?r, rs_size := ?r\<rparr>"
  have "resize_run as_requested any_size 800 600 [Requested ?r, Internal] (?s\<lparr>rs_coordinator := ?c\<lparr>rc_in_flight := Some ?r\<rparr>, rs_phase := Commanding ?r\<rparr>)"
    by (rule run_taken[of _ _ 1024 768]) (simp_all add: any_size_allowed MAX_DESKTOP_AREA_def)
  from resize_run.accepted[OF this, of ?r 0]
  have "resize_run as_requested any_size 800 600 [Requested ?r, Internal, Command_accepted ?r]
      (?s\<lparr>rs_coordinator := ?c\<lparr>rc_in_flight := Some ?r, rc_realization_deadline := Some REALIZATION_TIMEOUT\<rparr>\<rparr>)"
    by (simp add: mark_command_succeeded_def coordinator_new_def resize_start_def)
  from resize_run.frame[OF this, of 1024 768 1]
  have "resize_run as_requested any_size 800 600 [Requested ?r, Internal, Command_accepted ?r, Captured 1024 768]
      (?s\<lparr>rs_coordinator := ?c\<lparr>rc_in_flight := Some ?r, rc_realization_deadline := Some REALIZATION_TIMEOUT\<rparr>, rs_phase := Matched ?r\<rparr>)"
    by (simp add: matches_realized_frame_def coordinator_new_def resize_start_def REALIZATION_TIMEOUT_def)
  from resize_run.commit[OF this, of ?r 2 True "?c\<lparr>rc_committing := Some ?r\<rparr>"]
  have "resize_run as_requested any_size 800 600 ?tr (?s\<lparr>rs_coordinator := ?c\<lparr>rc_committing := Some ?r\<rparr>, rs_phase := Committing ?r\<rparr>)"
    by (simp add: begin_commit_def matches_realized_frame_def coordinator_new_def resize_start_def REALIZATION_TIMEOUT_def)
  from resize_run.publish[OF this, of ?r]
  have run: "resize_run as_requested any_size 800 600 (?tr @ [Published ?r]) ?last" by (simp add: resize_start_def)
  have "validate_geometry_policy any_size ?r None = Ok ?r \<and> realised ?r ?tr" using published_sizes_are_real[OF run] by blast
  moreover have "rs_size ?last = ?r" by simp
  moreover have "fst (mark_applied ?r 7 (rs_coordinator ?last))" using published_sizes_are_real[OF run] by simp
  ultimately show ?thesis using run by (intro exI[of _ ?last]) simp
qed

section \<open>Requests that are never served\<close>

text \<open>
  C36.  A resize can stall.  Let a request be superseded by another one while its mode command runs, the command then be accepted, and the first request be
  made again before the pipeline looks for the next transaction.  As the command was accepted while another request was pending, no deadline for its realization was set, and the repeated request
  removes the other one: in the state after these five steps neither the expiry nor the next transaction nor any captured frame nor another repetition of the request
  changes anything, although the compositor was told the requested size.
\<close>

theorem resize_can_stall:
  assumes a: "allowed_resize adjust config raw_w raw_h = Some a" and b: "allowed_resize adjust config raw_w' raw_h' = Some b"
    and "a \<noteq> b" "a \<noteq> \<lparr>rz_width = width, rz_height = height\<rparr>"
  shows "\<exists>s. resize_run adjust config width height [Requested a, Internal, Requested b, Command_accepted a, Requested a] s \<and>
    rs_phase s = Idle \<and> rs_size s \<noteq> a \<and> request a (rs_coordinator s) = rs_coordinator s \<and>
    (\<forall>now. expire_realization now (rs_coordinator s) = (None, rs_coordinator s)) \<and>
    (\<forall>now. take_ready now (rs_coordinator s) = (None, rs_coordinator s)) \<and>
    (\<forall>w h now. matches_realized_frame w h now (rs_coordinator s) = None)"
proof -
  let ?c = "coordinator_new width height" let ?s = "resize_start width height"
  let ?stuck = "?s\<lparr>rs_coordinator := ?c\<lparr>rc_in_flight := Some a\<rparr>\<rparr>"
  have "resize_run adjust config width height [Requested a, Internal] (?s\<lparr>rs_coordinator := ?c\<lparr>rc_in_flight := Some a\<rparr>, rs_phase := Commanding a\<rparr>)"
    using a assms(4) by (rule run_taken)
  from resize_run.client[OF this b]
  have "resize_run adjust config width height [Requested a, Internal, Requested b]
      (?s\<lparr>rs_coordinator := ?c\<lparr>rc_in_flight := Some a, rc_pending := Some b\<rparr>, rs_phase := Commanding a\<rparr>)"
    using assms(3) by (simp add: request_def coordinator_new_def resize_start_def)
  from resize_run.accepted[OF this, of a 0]
  have "resize_run adjust config width height [Requested a, Internal, Requested b, Command_accepted a]
      (?s\<lparr>rs_coordinator := ?c\<lparr>rc_in_flight := Some a, rc_pending := Some b\<rparr>\<rparr>)"
    by (simp add: mark_command_succeeded_def resize_start_def)
  from resize_run.client[OF this a]
  have "resize_run adjust config width height [Requested a, Internal, Requested b, Command_accepted a, Requested a] ?stuck"
    by (simp add: request_def coordinator_new_def resize_start_def)
  then show ?thesis
    using assms(4) by (intro exI[of _ ?stuck])
      (simp add: request_def resize_start_def coordinator_new_def expire_realization_def take_ready_def matches_realized_frame_def eq_commute)
qed

theorem resize_can_stall_witness:
  "\<exists>s. resize_run as_requested any_size 800 600
       [Requested \<lparr>rz_width = 1024, rz_height = 768\<rparr>, Internal, Requested \<lparr>rz_width = 1280, rz_height = 720\<rparr>,
        Command_accepted \<lparr>rz_width = 1024, rz_height = 768\<rparr>, Requested \<lparr>rz_width = 1024, rz_height = 768\<rparr>] s \<and>
     rs_phase s = Idle \<and> rs_size s \<noteq> \<lparr>rz_width = 1024, rz_height = 768\<rparr> \<and>
     (\<forall>w h now. matches_realized_frame w h now (rs_coordinator s) = None)"
proof -
  have "allowed_resize as_requested any_size 1024 768 = Some \<lparr>rz_width = 1024, rz_height = 768\<rparr>"
    "allowed_resize as_requested any_size 1280 720 = Some \<lparr>rz_width = 1280, rz_height = 720\<rparr>"
    by (simp_all add: any_size_allowed MAX_DESKTOP_AREA_def)
  from resize_can_stall[OF this, of 800 600] show ?thesis by (auto simp del: ex_simps)
qed

text \<open>While another size is being committed, the request to return to the present one is dropped and the other size is applied.\<close>

lemma return_request_lost:
  assumes "rc_committing c = Some b" "rc_in_flight c = None" "rc_applied c = a" "a \<noteq> b"
  shows "rc_pending (request a c) = None \<and> mark_applied b now (request a c) =
    (True, c\<lparr>rc_pending := None, rc_applied := b, rc_committing := None, rc_retry_not_before := Some (now + REACTIVATION_GUARD)\<rparr>)"
  using assms by (auto simp: request_def mark_applied_def)

text \<open>Otherwise the latest request is the one that is issued, as soon as the guard allows.\<close>

lemma latest_request_issued:
  assumes "rc_committing c = None" "r \<noteq> rc_applied c" "rc_in_flight c \<noteq> Some r" "case rc_retry_not_before c of None \<Rightarrow> True | Some t \<Rightarrow> t \<le> now"
  shows "\<exists>c'. take_ready now (request r c) = (Some r, c') \<and> rc_in_flight c' = Some r \<and> rc_pending c' = None"
  using assms by (auto simp: take_ready_def take_pending_def request_def split: option.splits)

end
