(* ===== verification/Wrdp_Clipboard_Image.thy ===== *)
theory Wrdp_Clipboard_Image
  imports Wrdp_Clipboard_Formats Wrdp_Simd
begin

text \<open>
  Clipboard images (\<open>src/src/rdp/channels/clipboard/core/image.rs\<close>): the conversions between the Windows bitmaps of the
  clipboard channel (\<open>CF_DIB\<close> with its 40-byte header, \<open>CF_DIBV5\<close> with its 124-byte header, BMP files) and encoded pictures.

  The \<open>image\<close> crate, which decodes and encodes the pictures, is the parameter \<open>ic\<close>, a record of the functions the code calls;
  what the theorems rely on of it is \<open>image_laws\<close>.  Bytes are naturals below 256; the 32-bit and 64-bit products wrap around as they do
  in the release build, and where Rust panics the result is \<open>None\<close>.
\<close>

section \<open>The image crate\<close>

type_synonym rgba = "nat \<times> nat \<times> nat \<times> nat"

record rgba_image =
  rgba_width :: nat
  rgba_height :: nat
  rgba_pixels :: "rgba list"

datatype image_format = Png | Jpeg | Gif

record 'img image_crate =
  to_rgba8 :: "'img \<Rightarrow> rgba_image"
  rgba_from_raw :: "nat \<Rightarrow> nat \<Rightarrow> nat list \<Rightarrow> 'img option"
  rgb_from_raw :: "nat \<Rightarrow> nat \<Rightarrow> nat list \<Rightarrow> 'img option"
  load_with_format :: "nat list \<Rightarrow> image_format \<Rightarrow> (string, 'img) result"
  load_any :: "nat list \<Rightarrow> (string, 'img) result"
  write_to :: "'img \<Rightarrow> image_format \<Rightarrow> (string, nat list) result"

definition is_rgba :: "rgba \<Rightarrow> bool" where
  "is_rgba = (\<lambda>(r, g, b, a). r < 256 \<and> g < 256 \<and> b < 256 \<and> a < 256)"

definition rgba_bytes :: "rgba list \<Rightarrow> nat list" where
  "rgba_bytes ps = concat (map (\<lambda>(r, g, b, a). [r, g, b, a]) ps)"

definition rgb_bytes :: "(nat \<times> nat \<times> nat) list \<Rightarrow> nat list" where
  "rgb_bytes ps = concat (map (\<lambda>(r, g, b). [r, g, b]) ps)"

text \<open>
  What is relied on: a picture has as many pixels as its sides say, each of four bytes, and an exact buffer makes the picture it spells out,
  opaque when it has no alpha channel.
\<close>

definition image_laws :: "('img, 'z) image_crate_scheme \<Rightarrow> bool" where
  "image_laws ic \<longleftrightarrow>
     (\<forall>img. length (rgba_pixels (to_rgba8 ic img)) = rgba_width (to_rgba8 ic img) * rgba_height (to_rgba8 ic img) \<and>
        list_all is_rgba (rgba_pixels (to_rgba8 ic img))) \<and>
     (\<forall>w h ps. length ps = w * h \<longrightarrow> list_all is_rgba ps \<longrightarrow>
        (\<exists>img. rgba_from_raw ic w h (rgba_bytes ps) = Some img \<and> to_rgba8 ic img = \<lparr>rgba_width = w, rgba_height = h, rgba_pixels = ps\<rparr>)) \<and>
     (\<forall>w h ps. length ps = w * h \<longrightarrow> list_all (\<lambda>(r, g, b). r < 256 \<and> g < 256 \<and> b < 256) ps \<longrightarrow>
        (\<exists>img. rgb_from_raw ic w h (rgb_bytes ps) = Some img \<and>
           to_rgba8 ic img = \<lparr>rgba_width = w, rgba_height = h, rgba_pixels = map (\<lambda>(r, g, b). (r, g, b, 255)) ps\<rparr>))"

section \<open>Bitmaps of pictures\<close>

definition saturating_u32 :: "nat \<Rightarrow> nat" where
  "saturating_u32 n = min n (2 ^ 32 - 1)"

definition i32_side :: "nat \<Rightarrow> int" where
  "i32_side n = (if n < 2 ^ 31 then int n else 2 ^ 31 - 1)"

definition put_i32_le :: "int \<Rightarrow> nat list" where
  "put_i32_le i = le_bytes 4 (of_signed 32 i)"

definition bgra_bytes :: "rgba list \<Rightarrow> nat list" where
  "bgra_bytes ps = concat (map (\<lambda>(r, g, b, a). [b, g, r, a]) ps)"

definition create_dib_from_image :: "('img, 'z) image_crate_scheme \<Rightarrow> 'img \<Rightarrow> (clipboard_error, nat list) result" where
  "create_dib_from_image ic img =
     (let rgba = to_rgba8 ic img; width = rgba_width rgba; height = rgba_height rgba;
          image_size = saturating_u32 (saturating_u32 (width * height) * 4)
      in Ok (le_bytes 4 40 @ put_i32_le (i32_side width) @ put_i32_le (- i32_side height) @ le_bytes 2 1 @ le_bytes 2 32 @ le_bytes 4 0 @
             le_bytes 4 image_size @ put_i32_le 0 @ put_i32_le 0 @ le_bytes 4 0 @ le_bytes 4 0 @ bgra_bytes (rgba_pixels rgba)))"

definition DIBV5_HEADER_SIZE :: nat where "DIBV5_HEADER_SIZE = 124"
definition LCS_SRGB :: nat where "LCS_SRGB = 0x73524742"
definition LCS_GM_IMAGES :: nat where "LCS_GM_IMAGES = 2"

definition create_dibv5_from_image :: "('img, 'z) image_crate_scheme \<Rightarrow> 'img \<Rightarrow> (clipboard_error, nat list) result" where
  "create_dibv5_from_image ic img =
     (let rgba = to_rgba8 ic img; width = rgba_width rgba; height = rgba_height rgba;
          image_size = saturating_u32 (saturating_u32 (width * height) * 4)
      in Ok (le_bytes 4 DIBV5_HEADER_SIZE @ put_i32_le (i32_side width) @ put_i32_le (- i32_side height) @ le_bytes 2 1 @ le_bytes 2 32 @
             le_bytes 4 3 @ le_bytes 4 image_size @ put_i32_le 0 @ put_i32_le 0 @ le_bytes 4 0 @ le_bytes 4 0 @
             le_bytes 4 0x00FF0000 @ le_bytes 4 0x0000FF00 @ le_bytes 4 0x000000FF @ le_bytes 4 0xFF000000 @ le_bytes 4 LCS_SRGB @
             concat (replicate 9 (le_bytes 4 0)) @ le_bytes 4 0 @ le_bytes 4 0 @ le_bytes 4 0 @ le_bytes 4 LCS_GM_IMAGES @
             le_bytes 4 0 @ le_bytes 4 0 @ le_bytes 4 0 @ bgra_bytes (rgba_pixels rgba)))"

section \<open>Pictures of bitmaps\<close>

definition image_error :: "string \<Rightarrow> (clipboard_error, 'a) result option" where
  "image_error m = Some (Err (ImageDecode m))"

definition usize_wrap :: "nat \<Rightarrow> nat" where
  "usize_wrap n = n mod 2 ^ 64"

definition u32_wrap :: "nat \<Rightarrow> nat" where
  "u32_wrap n = n mod 2 ^ 32"

text \<open>The two nested loops over the pixels; a bottom-up bitmap has its last row first.\<close>

definition scan_pixels :: "nat \<Rightarrow> nat \<Rightarrow> bool \<Rightarrow> (nat \<Rightarrow> nat \<Rightarrow> nat list) \<Rightarrow> nat list" where
  "scan_pixels width height top_down f =
     concat (map (\<lambda>y. concat (map (f (if top_down then y else height - 1 - y)) [0..<width])) [0..<height])"

definition from_raw_or :: "string \<Rightarrow> 'img option \<Rightarrow> (clipboard_error, 'img) result option" where
  "from_raw_or m r = Some (case r of None \<Rightarrow> Err (ImageDecode m) | Some img \<Rightarrow> Ok img)"

definition insufficient :: "string \<Rightarrow> nat \<Rightarrow> nat \<Rightarrow> (clipboard_error, 'a) result option" where
  "insufficient what n expected = image_error (''Insufficient '' @ what @ '' data: '' @ show_nat n @ '' < '' @ show_nat expected)"

definition convert_32bit_dib :: "('img, 'z) image_crate_scheme \<Rightarrow> nat list \<Rightarrow> nat \<Rightarrow> nat \<Rightarrow> bool \<Rightarrow> (clipboard_error, 'img) result option" where
  "convert_32bit_dib ic pixel_data width height top_down =
     (let expected_size = usize_wrap (width * height * 4)
      in if length pixel_data < expected_size then insufficient ''pixel'' (length pixel_data) expected_size
         else from_raw_or ''Failed to create image from DIB''
           (rgba_from_raw ic width height
             (scan_pixels width height top_down (\<lambda>row_y x.
                let pixel_offset = usize_wrap (usize_wrap (row_y * width * 4) + x * 4)
                in if usize_wrap (pixel_offset + 3) < length pixel_data
                   then [pixel_data ! (pixel_offset + 2), pixel_data ! (pixel_offset + 1), pixel_data ! pixel_offset, pixel_data ! (pixel_offset + 3)]
                   else []))))"

text \<open>
  The rows of a 24-bit bitmap are padded to four bytes, in 32-bit arithmetic; \<open>Vec::with_capacity\<close> panics above
  \<open>isize::MAX\<close>.
\<close>

definition row_size_24 :: "nat \<Rightarrow> nat" where
  "row_size_24 width = u32_wrap ((u32_wrap (width * 3) + 3) div 4 * 4)"

definition capacity_24 :: "nat \<Rightarrow> nat \<Rightarrow> nat" where
  "capacity_24 width height = usize_wrap (width * height * 3)"

definition convert_24bit_dib :: "('img, 'z) image_crate_scheme \<Rightarrow> nat list \<Rightarrow> nat \<Rightarrow> nat \<Rightarrow> bool \<Rightarrow> (clipboard_error, 'img) result option" where
  "convert_24bit_dib ic pixel_data width height top_down =
     (let row_size = row_size_24 width; expected_size = usize_wrap (row_size * height)
      in if length pixel_data < expected_size then insufficient ''pixel'' (length pixel_data) expected_size
         else if 2 ^ 63 \<le> capacity_24 width height then None
         else from_raw_or ''Failed to create image from DIB''
           (rgb_from_raw ic width height
             (scan_pixels width height top_down (\<lambda>row_y x.
                let pixel_offset = usize_wrap (row_y * row_size + x * 3)
                in if usize_wrap (pixel_offset + 2) < length pixel_data
                   then [pixel_data ! (pixel_offset + 2), pixel_data ! (pixel_offset + 1), pixel_data ! pixel_offset]
                   else []))))"

definition parse_dib_to_image :: "('img, 'z) image_crate_scheme \<Rightarrow> nat list \<Rightarrow> (clipboard_error, 'img) result option" where
  "parse_dib_to_image ic dib_data =
     (if length dib_data < 40 then image_error ''DIB too small''
      else let bi_size = field dib_data 0 4
      in if bi_size < 40 then image_error ''Invalid DIB header size''
      else let width = nat \<bar>to_signed 32 (field dib_data 4 4)\<bar>; height_raw = to_signed 32 (field dib_data 8 4); height = nat \<bar>height_raw\<bar>;
               top_down = (height_raw < 0); bit_count = field dib_data 14 2
      in if length dib_data \<le> bi_size then image_error ''DIB header larger than data''
      else let pixel_data = drop bi_size dib_data
      in if bit_count = 32 then convert_32bit_dib ic pixel_data width height top_down
         else if bit_count = 24 then convert_24bit_dib ic pixel_data width height top_down
         else image_error (''Unsupported DIB bit depth: '' @ show_nat bit_count))"

text \<open>\<open>u32::trailing_zeros\<close>; a shift by 32 or more uses its last five bits.\<close>

fun trailing_zeros :: "nat \<Rightarrow> nat" where
  "trailing_zeros n = (if n = 0 then 32 else if odd n then 0 else Suc (trailing_zeros (n div 2)))"

declare trailing_zeros.simps [simp del]

definition channel :: "nat \<Rightarrow> nat \<Rightarrow> nat" where
  "channel m pixel = drop_bit (trailing_zeros m mod 32) (Bit_Operations.and pixel m) mod 256"

definition convert_32bit_dibv5 ::
  "('img, 'z) image_crate_scheme \<Rightarrow> nat list \<Rightarrow> nat \<Rightarrow> nat \<Rightarrow> bool \<Rightarrow> nat \<Rightarrow> nat \<Rightarrow> nat \<Rightarrow> nat \<Rightarrow> (clipboard_error, 'img) result option" where
  "convert_32bit_dibv5 ic pixel_data width height top_down red_mask green_mask blue_mask alpha_mask =
     (let expected_size = usize_wrap (width * height * 4)
      in if length pixel_data < expected_size then insufficient ''DIBV5 pixel'' (length pixel_data) expected_size
         else from_raw_or ''Failed to create image from DIBV5''
           (rgba_from_raw ic width height
             (scan_pixels width height top_down (\<lambda>row_y x.
                let pixel_offset = usize_wrap (usize_wrap (row_y * width * 4) + x * 4)
                in if usize_wrap (pixel_offset + 3) < length pixel_data
                   then let pixel = field pixel_data pixel_offset 4
                        in [channel red_mask pixel, channel green_mask pixel, channel blue_mask pixel,
                            if alpha_mask \<noteq> 0 then channel alpha_mask pixel else 255]
                   else []))))"

definition parse_full_dibv5 :: "('img, 'z) image_crate_scheme \<Rightarrow> nat list \<Rightarrow> (clipboard_error, 'img) result option" where
  "parse_full_dibv5 ic data =
     (if length data < DIBV5_HEADER_SIZE then image_error ''DIBV5 data too small for header''
      else let width = nat \<bar>to_signed 32 (field data 4 4)\<bar>; height_raw = to_signed 32 (field data 8 4); height = nat \<bar>height_raw\<bar>;
               top_down = (height_raw < 0); bit_count = field data 14 2; compression = field data 16 4;
               (red_mask, green_mask, blue_mask, alpha_mask) =
                 (if compression = 3 then (field data 40 4, field data 44 4, field data 48 4, field data 52 4)
                  else (0x00FF0000, 0x0000FF00, 0x000000FF, 0xFF000000));
               pixel_data = drop DIBV5_HEADER_SIZE data
      in if bit_count = 32 then convert_32bit_dibv5 ic pixel_data width height top_down red_mask green_mask blue_mask alpha_mask
         else if bit_count = 24 then convert_24bit_dib ic pixel_data width height top_down
         else image_error (''Unsupported DIBV5 bit depth: '' @ show_nat bit_count))"

definition parse_dibv5_to_image :: "('img, 'z) image_crate_scheme \<Rightarrow> nat list \<Rightarrow> (clipboard_error, 'img) result option" where
  "parse_dibv5_to_image ic dibv5_data =
     (if length dibv5_data < 4 then image_error ''DIBV5 too small''
      else let header_size = field dibv5_data 0 4
      in if header_size = 40 then parse_dib_to_image ic dibv5_data
         else if header_size = 124 then parse_full_dibv5 ic dibv5_data
         else image_error (''Invalid DIBV5 header size: '' @ show_nat header_size @ '' (expected 40 or 124)''))"

section \<open>The conversions\<close>

definition decoded :: "(string, 'img) result \<Rightarrow> ('img \<Rightarrow> (clipboard_error, 'a) result) \<Rightarrow> (clipboard_error, 'a) result" where
  "decoded r f = (case r of Inl e \<Rightarrow> Err (ImageDecode e) | Inr img \<Rightarrow> f img)"

definition encoded :: "('img, 'z) image_crate_scheme \<Rightarrow> image_format \<Rightarrow> (clipboard_error, 'img) result option \<Rightarrow> (clipboard_error, nat list) result option" where
  "encoded ic fmt r = map_option (\<lambda>p. rbind p (\<lambda>img. case write_to ic img fmt of Inl e \<Rightarrow> Err (ImageEncode e) | Inr d \<Rightarrow> Ok d)) r"

definition png_to_dib :: "('img, 'z) image_crate_scheme \<Rightarrow> nat list \<Rightarrow> (clipboard_error, nat list) result" where
  "png_to_dib ic d = decoded (load_with_format ic d Png) (create_dib_from_image ic)"

definition jpeg_to_dib :: "('img, 'z) image_crate_scheme \<Rightarrow> nat list \<Rightarrow> (clipboard_error, nat list) result" where
  "jpeg_to_dib ic d = decoded (load_with_format ic d Jpeg) (create_dib_from_image ic)"

definition gif_to_dib :: "('img, 'z) image_crate_scheme \<Rightarrow> nat list \<Rightarrow> (clipboard_error, nat list) result" where
  "gif_to_dib ic d = decoded (load_with_format ic d Gif) (create_dib_from_image ic)"

definition any_to_dib :: "('img, 'z) image_crate_scheme \<Rightarrow> nat list \<Rightarrow> (clipboard_error, nat list) result" where
  "any_to_dib ic d = decoded (load_any ic d) (create_dib_from_image ic)"

definition png_to_dibv5 :: "('img, 'z) image_crate_scheme \<Rightarrow> nat list \<Rightarrow> (clipboard_error, nat list) result" where
  "png_to_dibv5 ic d = decoded (load_with_format ic d Png) (create_dibv5_from_image ic)"

definition jpeg_to_dibv5 :: "('img, 'z) image_crate_scheme \<Rightarrow> nat list \<Rightarrow> (clipboard_error, nat list) result" where
  "jpeg_to_dibv5 ic d = decoded (load_with_format ic d Jpeg) (create_dibv5_from_image ic)"

definition any_to_dibv5 :: "('img, 'z) image_crate_scheme \<Rightarrow> nat list \<Rightarrow> (clipboard_error, nat list) result" where
  "any_to_dibv5 ic d = decoded (load_any ic d) (create_dibv5_from_image ic)"

definition dib_to_png :: "('img, 'z) image_crate_scheme \<Rightarrow> nat list \<Rightarrow> (clipboard_error, nat list) result option" where
  "dib_to_png ic d = encoded ic Png (parse_dib_to_image ic d)"

definition dib_to_jpeg :: "('img, 'z) image_crate_scheme \<Rightarrow> nat list \<Rightarrow> (clipboard_error, nat list) result option" where
  "dib_to_jpeg ic d = encoded ic Jpeg (parse_dib_to_image ic d)"

definition dibv5_to_png :: "('img, 'z) image_crate_scheme \<Rightarrow> nat list \<Rightarrow> (clipboard_error, nat list) result option" where
  "dibv5_to_png ic d = encoded ic Png (parse_dibv5_to_image ic d)"

definition dibv5_to_jpeg :: "('img, 'z) image_crate_scheme \<Rightarrow> nat list \<Rightarrow> (clipboard_error, nat list) result option" where
  "dibv5_to_jpeg ic d = encoded ic Jpeg (parse_dibv5_to_image ic d)"

definition has_transparency :: "('img, 'z) image_crate_scheme \<Rightarrow> nat list \<Rightarrow> bool" where
  "has_transparency ic d = (case load_any ic d of Inl _ \<Rightarrow> False | Inr img \<Rightarrow> list_ex (\<lambda>(r, g, b, a). a \<noteq> 255) (rgba_pixels (to_rgba8 ic img)))"

definition bmp_to_dib :: "nat list \<Rightarrow> (clipboard_error, nat list) result" where
  "bmp_to_dib bmp_data =
     (if length bmp_data < 14 then Err (ImageDecode ''BMP file too small'')
      else if take 2 bmp_data \<noteq> [66, 77] then Err (ImageDecode ''Invalid BMP signature'')
      else Ok (drop 14 bmp_data))"

definition dib_to_bmp :: "nat list \<Rightarrow> (clipboard_error, nat list) result" where
  "dib_to_bmp dib_data =
     (if length dib_data < 40 then Err (ImageDecode ''DIB too small'')
      else if 2 ^ 32 \<le> 14 + length dib_data then Err (ImageDecode ''DIB too large'')
      else Ok ([66, 77] @ le_bytes 4 (14 + length dib_data) @ le_bytes 2 0 @ le_bytes 2 0 @ le_bytes 4 (14 + 40) @ dib_data))"

definition dib_dimensions :: "nat list \<Rightarrow> (clipboard_error, nat \<times> nat) result" where
  "dib_dimensions dib_data =
     (if length dib_data < 12 then Err (ImageDecode ''DIB too small'')
      else Ok (nat \<bar>to_signed 32 (field dib_data 4 4)\<bar>, nat \<bar>to_signed 32 (field dib_data 8 4)\<bar>))"


section \<open>Round trips\<close>

lemma length_bgra_bytes [simp]: "length (bgra_bytes ps) = 4 * length ps"
  by (induction ps) (auto simp: bgra_bytes_def)

lemma bgra_window:
  assumes "i < length ps"
  shows "take 4 (drop (4 * i) (bgra_bytes ps)) = (case ps ! i of (r, g, b, a) \<Rightarrow> [b, g, r, a])"
  using assms
proof (induction ps arbitrary: i)
  case (Cons p ps)
  obtain r g b a where p: "p = (r, g, b, a)" by (cases p)
  show ?case
  proof (cases i)
    case (Suc j)
    then have "take 4 (drop (4 * j) (bgra_bytes ps)) = (case ps ! j of (r, g, b, a) \<Rightarrow> [b, g, r, a])" using Cons by simp
    moreover have "bgra_bytes (p # ps) = [b, g, r, a] @ bgra_bytes ps" by (simp add: p bgra_bytes_def)
    moreover have "drop (4 * i) ([b, g, r, a] @ bgra_bytes ps) = drop (4 * j) (bgra_bytes ps)" using Suc by (simp add: numeral_eq_Suc)
    ultimately show ?thesis using Suc by simp
  qed (simp add: p bgra_bytes_def)
qed simp

lemma bgra_nth:
  assumes "i < length ps" "ps ! i = (r, g, b, a)"
  shows "bgra_bytes ps ! (4 * i) = b" "bgra_bytes ps ! Suc (4 * i) = g" "bgra_bytes ps ! Suc (Suc (4 * i)) = r" "bgra_bytes ps ! (4 * i + 3) = a"
    "field (bgra_bytes ps) (4 * i) 4 = b + 256 * g + 65536 * r + 16777216 * a"
proof -
  have w: "take 4 (drop (4 * i) (bgra_bytes ps)) = [b, g, r, a]" using bgra_window[OF assms(1)] assms(2) by simp
  have n: "bgra_bytes ps ! (4 * i + k) = [b, g, r, a] ! k" if "k < 4" for k
  proof -
    have "[b, g, r, a] ! k = drop (4 * i) (bgra_bytes ps) ! k" using that by (simp flip: w)
    also have "\<dots> = bgra_bytes ps ! (4 * i + k)" using assms(1) by (intro nth_drop) simp
    finally show ?thesis by simp
  qed
  show "bgra_bytes ps ! (4 * i) = b" "bgra_bytes ps ! Suc (4 * i) = g" "bgra_bytes ps ! Suc (Suc (4 * i)) = r" "bgra_bytes ps ! (4 * i + 3) = a"
    using n[of 0] n[of 1] n[of 2] n[of 3] by (simp_all add: numeral_3_eq_3)
  show "field (bgra_bytes ps) (4 * i) 4 = b + 256 * g + 65536 * r + 16777216 * a" by (simp add: field_def w)
qed

text \<open>The channels of the standard masks.\<close>

lemma trailing_zeros_shifted: "odd n \<Longrightarrow> trailing_zeros (2 ^ k * n) = k"
proof (induction k)
  case (Suc k)
  then have "2 ^ Suc k * n \<noteq> 0" by (auto elim: oddE)
  moreover have "2 ^ Suc k * n div 2 = 2 ^ k * n" "even (2 ^ Suc k * n)" by simp_all
  ultimately show ?case using Suc by (subst trailing_zeros.simps) simp
qed (auto simp: trailing_zeros.simps elim: oddE)

lemma trailing_zeros_masks [simp]:
  "trailing_zeros 0x00FF0000 = 16" "trailing_zeros 0x0000FF00 = 8" "trailing_zeros 0x000000FF = 0" "trailing_zeros 0xFF000000 = 24"
  using trailing_zeros_shifted[of 255 16] trailing_zeros_shifted[of 255 8] trailing_zeros_shifted[of 255 0] trailing_zeros_shifted[of 255 24] by simp_all

lemma shifted_mask: "drop_bit n (Bit_Operations.and p (push_bit n (mask 8))) mod 256 = (p div 2 ^ n) mod (256 :: nat)"
proof -
  have "drop_bit n (push_bit n (mask 8 :: nat)) = mask 8" by (simp add: drop_bit_eq_div push_bit_eq_mult)
  then have "drop_bit n (Bit_Operations.and p (push_bit n (mask 8))) = take_bit 8 (drop_bit n p)" by (simp add: drop_bit_and take_bit_eq_mask)
  then show ?thesis by (simp add: take_bit_eq_mod drop_bit_eq_div)
qed

lemma standard_channels:
  "channel 0x00FF0000 p = p div 65536 mod 256" "channel 0x0000FF00 p = p div 256 mod 256" "channel 0x000000FF p = p mod 256"
  "channel 0xFF000000 p = p div 16777216 mod 256"
  using shifted_mask[of 16 p] shifted_mask[of 8 p] shifted_mask[of 0 p] shifted_mask[of 24 p]
  by (simp_all add: channel_def push_bit_eq_mult mask_eq_exp_minus_1)

lemma pixel_channels:
  assumes "is_rgba (r, g, b, a)"
  defines "p \<equiv> b + 256 * g + 65536 * r + 16777216 * a"
  shows "channel 0x00FF0000 p = r" "channel 0x0000FF00 p = g" "channel 0x000000FF p = b" "channel 0xFF000000 p = a"
proof -
  have l: "r < 256" "g < 256" "b < 256" "a < 256" using assms(1) by (auto simp: is_rgba_def)
  have d: "p div 256 = g + 256 * (r + 256 * a)" "p mod 256 = b"
    using div_mult_self2[of 256 b "g + 256 * (r + 256 * a)"] mod_mult_self2[of b 256 "g + 256 * (r + 256 * a)"] l by (simp_all add: p_def add.assoc)
  have e: "p div 65536 = r + 256 * a" using d(1) l div_mult2_eq[of p 256 256] by simp
  have f: "p div 16777216 = a" using e l div_mult2_eq[of p 65536 256] by simp
  show "channel 0x00FF0000 p = r" "channel 0x0000FF00 p = g" "channel 0x000000FF p = b" "channel 0xFF000000 p = a"
    using l mod_mult_self2[of g 256 "r + 256 * a"] by (simp_all add: standard_channels d e f)
qed

lemma scan_rows: "concat (map (\<lambda>y. concat (map (\<lambda>x. f (y * w + x)) [0..<w])) [0..<h]) = concat (map f [0..<h * w])"
proof (induction h)
  case (Suc h)
  have "[0..<Suc h * w] = [0..<h * w] @ map (\<lambda>x. h * w + x) [0..<w]"
    using upt_add_eq_append[of 0 "h * w" w] by (simp add: add.commute map_add_upt)
  with Suc show ?case by (simp add: comp_def)
qed simp

lemma scan_top_down:
  assumes "\<And>y x. y < h \<Longrightarrow> x < w \<Longrightarrow> f y x = (case ps ! (y * w + x) of (r, g, b, a) \<Rightarrow> [r, g, b, a])" "length ps = w * h"
  shows "scan_pixels w h True f = rgba_bytes ps"
proof -
  have "scan_pixels w h True f = concat (map (\<lambda>y. concat (map (\<lambda>x. (\<lambda>i. case ps ! i of (r, g, b, a) \<Rightarrow> [r, g, b, a]) (y * w + x)) [0..<w])) [0..<h])"
    using assms(1) by (auto simp: scan_pixels_def intro!: arg_cong[of _ _ concat] map_cong)
  also have "\<dots> = concat (map (\<lambda>i. case ps ! i of (r, g, b, a) \<Rightarrow> [r, g, b, a]) [0..<h * w])" by (rule scan_rows)
  also have "\<dots> = concat (map (\<lambda>(r, g, b, a). [r, g, b, a]) (map ((!) ps) [0..<length ps]))" using assms(2) by (simp add: comp_def mult.commute)
  finally show ?thesis by (simp add: map_nth rgba_bytes_def)
qed

text \<open>Reading the header back.\<close>

lemma field_append [simp]: "length xs \<le> off \<Longrightarrow> field (xs @ ys) off n = field ys (off - length xs) n"
  by (simp add: field_def)

lemma field_here [simp]: "v < 256 ^ n \<Longrightarrow> field (le_bytes n v @ ys) 0 n = v"
  by (simp add: field_def from_le_small)

lemma length_put_i32 [simp]: "length (put_i32_le i) = 4"
  by (simp add: put_i32_le_def)

lemma signed_field [simp]: "in_range 32 i \<Longrightarrow> to_signed 32 (field (put_i32_le i @ ys) 0 4) = i"
  using of_signed_less[of 32 i] by (simp add: put_i32_le_def to_of_signed)

lemma side_in_range: "n < 2 ^ 31 \<Longrightarrow> i32_side n = int n" "n < 2 ^ 31 \<Longrightarrow> in_range 32 (int n)" "n < 2 ^ 31 \<Longrightarrow> in_range 32 (- int n)"
  by (simp_all add: i32_side_def in_range_def)

lemma saturating_u32_less: "saturating_u32 n < 256 ^ 4"
  by (simp add: saturating_u32_def)

text \<open>Products of sides below \<open>2\<^sup>3\<^sup>1\<close> do not wrap.\<close>

lemma area_bound: "w < 2 ^ 31 \<Longrightarrow> h < (2 :: nat) ^ 31 \<Longrightarrow> w * h * 4 < 2 ^ 64"
  using mult_strict_mono[of w "2 ^ 31" h "2 ^ 31"] by (simp add: mult.commute)

lemma area_no_wrap: "w < 2 ^ 31 \<Longrightarrow> h < (2 :: nat) ^ 31 \<Longrightarrow> usize_wrap (w * h * 4) = w * h * 4"
  using area_bound[of w h] by (simp add: usize_wrap_def)

lemma offset_no_wrap:
  assumes "w < 2 ^ 31" "h < (2 :: nat) ^ 31" "y < h" "x < w"
  obtains i where "i = y * w + x" "i < w * h" "usize_wrap (usize_wrap (y * w * 4) + x * 4) = 4 * i" "usize_wrap (4 * i + 3) = 4 * i + 3"
proof
  have "Suc y * w \<le> h * w" using assms(3) by (intro mult_right_mono) auto
  then show i: "y * w + x < w * h" using assms(4) by (simp add: mult.commute)
  have "w * h * 4 < 2 ^ 64" using assms(1,2) by (rule area_bound)
  moreover have "4 * (y * w + x) + 4 \<le> w * h * 4" using i by simp
  ultimately have "4 * (y * w + x) + 3 < 2 ^ 64" by linarith
  then show "usize_wrap (usize_wrap (y * w * 4) + x * 4) = 4 * (y * w + x)" "usize_wrap (4 * (y * w + x) + 3) = 4 * (y * w + x) + 3"
    by (simp_all add: usize_wrap_def algebra_simps)
qed simp

lemma read_bgra:
  assumes "w < 2 ^ 31" "h < 2 ^ 31" "length ps = w * h" "y < h" "x < w"
  shows "(let o1 = usize_wrap (usize_wrap (y * w * 4) + x * 4) in
      if usize_wrap (o1 + 3) < length (bgra_bytes ps) then [bgra_bytes ps ! (o1 + 2), bgra_bytes ps ! (o1 + 1), bgra_bytes ps ! o1, bgra_bytes ps ! (o1 + 3)]
      else []) = (case ps ! (y * w + x) of (r, g, b, a) \<Rightarrow> [r, g, b, a])"
proof -
  from assms obtain i where "y * w + x = i" "i < w * h" "usize_wrap (usize_wrap (y * w * 4) + x * 4) = 4 * i" "usize_wrap (4 * i + 3) = 4 * i + 3"
    by (metis offset_no_wrap)
  then show ?thesis using assms(3) by (auto simp: Let_def bgra_nth split: prod.splits)
qed

lemma convert_32bit_bgra:
  assumes "image_laws ic" "w < 2 ^ 31" "h < 2 ^ 31" "length ps = w * h" "list_all is_rgba ps"
  shows "\<exists>img. convert_32bit_dib ic (bgra_bytes ps) w h True = Some (Ok img) \<and> to_rgba8 ic img = \<lparr>rgba_width = w, rgba_height = h, rgba_pixels = ps\<rparr>"
proof -
  obtain img where img: "rgba_from_raw ic w h (rgba_bytes ps) = Some img" "to_rgba8 ic img = \<lparr>rgba_width = w, rgba_height = h, rgba_pixels = ps\<rparr>"
    using assms unfolding image_laws_def by blast
  have "\<not> length (bgra_bytes ps) < usize_wrap (w * h * 4)" using assms by (simp add: area_no_wrap)
  with img scan_top_down[OF read_bgra[OF assms(2-4)] assms(4)] show ?thesis
    by (simp add: convert_32bit_dib_def from_raw_or_def Let_def)
qed

lemma convert_32bit_masks:
  assumes "image_laws ic" "w < 2 ^ 31" "h < 2 ^ 31" "length ps = w * h" "list_all is_rgba ps"
  shows "\<exists>img. convert_32bit_dibv5 ic (bgra_bytes ps) w h True 0x00FF0000 0x0000FF00 0x000000FF 0xFF000000 = Some (Ok img) \<and>
      to_rgba8 ic img = \<lparr>rgba_width = w, rgba_height = h, rgba_pixels = ps\<rparr>"
proof -
  obtain img where img: "rgba_from_raw ic w h (rgba_bytes ps) = Some img" "to_rgba8 ic img = \<lparr>rgba_width = w, rgba_height = h, rgba_pixels = ps\<rparr>"
    using assms unfolding image_laws_def by blast
  have enough: "\<not> length (bgra_bytes ps) < usize_wrap (w * h * 4)" using assms by (simp add: area_no_wrap)
  have "scan_pixels w h True (\<lambda>row_y x. let o1 = usize_wrap (usize_wrap (row_y * w * 4) + x * 4) in
      if usize_wrap (o1 + 3) < length (bgra_bytes ps) then let p = field (bgra_bytes ps) o1 4 in
        [channel 0x00FF0000 p, channel 0x0000FF00 p, channel 0x000000FF p, if (0xFF000000 :: nat) \<noteq> 0 then channel 0xFF000000 p else 255]
      else []) = rgba_bytes ps"
  proof (rule scan_top_down)
    fix y x assume "y < h" "x < w"
    with assms(2,3) obtain i where i: "y * w + x = i" "i < w * h" "usize_wrap (usize_wrap (y * w * 4) + x * 4) = 4 * i" "usize_wrap (4 * i + 3) = 4 * i + 3"
      by (metis offset_no_wrap)
    obtain r g b a where p: "ps ! i = (r, g, b, a)" by (cases "ps ! i")
    then have "is_rgba (r, g, b, a)" using assms(4,5) i(2) by (metis list_all_length)
    with i p show "(let o1 = usize_wrap (usize_wrap (y * w * 4) + x * 4) in
      if usize_wrap (o1 + 3) < length (bgra_bytes ps) then let p = field (bgra_bytes ps) o1 4 in
        [channel 0x00FF0000 p, channel 0x0000FF00 p, channel 0x000000FF p, if (0xFF000000 :: nat) \<noteq> 0 then channel 0xFF000000 p else 255]
      else []) = (case ps ! (y * w + x) of (r, g, b, a) \<Rightarrow> [r, g, b, a])"
      using assms(4) by (simp add: Let_def bgra_nth(5) pixel_channels)
  qed (fact assms(4))
  with img enough show "\<exists>img. convert_32bit_dibv5 ic (bgra_bytes ps) w h True 0x00FF0000 0x0000FF00 0x000000FF 0xFF000000 = Some (Ok img) \<and>
      to_rgba8 ic img = \<lparr>rgba_width = w, rgba_height = h, rgba_pixels = ps\<rparr>"
    by (simp add: convert_32bit_dibv5_def from_raw_or_def Let_def)
qed

lemma bmp_round_trip: "40 \<le> length dib \<Longrightarrow> 14 + length dib < 2 ^ 32 \<Longrightarrow> rbind (dib_to_bmp dib) bmp_to_dib = Ok dib"
  by (simp add: dib_to_bmp_def bmp_to_dib_def)

text \<open>
  C37.  Pictures survive the clipboard: the bitmaps of a picture, with either header, parse back to a picture with the same sides and pixels, transparency
  included; the sides are read off the bitmap, and making it a BMP file and back changes nothing.
\<close>

theorem image_round_trip:
  assumes "image_laws ic" "to_rgba8 ic img = \<lparr>rgba_width = w, rgba_height = h, rgba_pixels = ps\<rparr>" "0 < w" "w < 2 ^ 31" "0 < h" "h < 2 ^ 31"
  shows "\<exists>dib dibv5 img1 img2.
    create_dib_from_image ic img = Ok dib \<and> parse_dib_to_image ic dib = Some (Ok img1) \<and> to_rgba8 ic img1 = to_rgba8 ic img \<and>
    create_dibv5_from_image ic img = Ok dibv5 \<and> parse_dibv5_to_image ic dibv5 = Some (Ok img2) \<and> to_rgba8 ic img2 = to_rgba8 ic img \<and>
    dib_dimensions dib = Ok (w, h) \<and> dib_dimensions dibv5 = Ok (w, h) \<and>
    (4 * (w * h) + 54 < 2 ^ 32 \<longrightarrow> rbind (dib_to_bmp dib) bmp_to_dib = Ok dib)"
proof -
  have ps: "length ps = w * h" "list_all is_rgba ps" using assms(1,2) by (auto simp: image_laws_def dest!: spec[of _ img])
  obtain dib where dib: "create_dib_from_image ic img = Ok dib" by (simp add: create_dib_from_image_def Let_def)
  obtain dibv5 where dibv5: "create_dibv5_from_image ic img = Ok dibv5" by (simp add: create_dibv5_from_image_def Let_def)
  note sides = side_in_range[OF assms(4)] side_in_range[OF assms(6)]
  have len: "length dib = 40 + 4 * (w * h)" "length dibv5 = 124 + 4 * (w * h)" 
    using dib dibv5 ps by (auto simp: create_dib_from_image_def create_dibv5_from_image_def Let_def assms(2) DIBV5_HEADER_SIZE_def length_concat sum_list_replicate)
  have "field dib 0 4 = 40" "to_signed 32 (field dib 4 4) = int w" "to_signed 32 (field dib 8 4) = - int h" "field dib 14 2 = 32" "drop 40 dib = bgra_bytes ps"
    using dib sides by (auto simp: create_dib_from_image_def Let_def assms(2))
  moreover obtain img1 where "convert_32bit_dib ic (bgra_bytes ps) w h True = Some (Ok img1)" "to_rgba8 ic img1 = to_rgba8 ic img"
    using convert_32bit_bgra[OF assms(1,4,6) ps] assms(2) by metis
  ultimately have one: "parse_dib_to_image ic dib = Some (Ok img1)" "to_rgba8 ic img1 = to_rgba8 ic img" "dib_dimensions dib = Ok (w, h)"
    using assms(3,5) len by (simp_all add: parse_dib_to_image_def dib_dimensions_def Let_def)
  have "field dibv5 0 4 = 124" "to_signed 32 (field dibv5 4 4) = int w" "to_signed 32 (field dibv5 8 4) = - int h" "field dibv5 14 2 = 32"
    "field dibv5 16 4 = 3" "field dibv5 40 4 = 0x00FF0000" "field dibv5 44 4 = 0x0000FF00" "field dibv5 48 4 = 0x000000FF" "field dibv5 52 4 = 0xFF000000"
    "drop 124 dibv5 = bgra_bytes ps"
    using dibv5 sides by (auto simp: create_dibv5_from_image_def Let_def assms(2) DIBV5_HEADER_SIZE_def length_concat sum_list_replicate)
  moreover obtain img2 where "convert_32bit_dibv5 ic (bgra_bytes ps) w h True 0x00FF0000 0x0000FF00 0x000000FF 0xFF000000 = Some (Ok img2)" "to_rgba8 ic img2 = to_rgba8 ic img"
    using convert_32bit_masks[OF assms(1,4,6) ps] assms(2) by metis
  ultimately have two: "parse_dibv5_to_image ic dibv5 = Some (Ok img2)" "to_rgba8 ic img2 = to_rgba8 ic img" "dib_dimensions dibv5 = Ok (w, h)"
    using assms(3,5) len by (simp_all add: parse_dibv5_to_image_def parse_full_dibv5_def DIBV5_HEADER_SIZE_def dib_dimensions_def Let_def)
  have "rbind (dib_to_bmp dib) bmp_to_dib = Ok dib" if "4 * (w * h) + 54 < 2 ^ 32" using that len(1) by (simp add: bmp_round_trip)
  with dib dibv5 one two show ?thesis by blast
qed

text \<open>A crate of pictures kept as they are, to apply the theorem to.\<close>

fun quads :: "nat list \<Rightarrow> rgba list" where
  "quads (r # g # b # a # bs) = (r, g, b, a) # quads bs"
| "quads _ = []"

fun triples :: "nat list \<Rightarrow> rgba list" where
  "triples (r # g # b # bs) = (r, g, b, 255) # triples bs"
| "triples _ = []"

definition plain_picture :: "rgba_image \<Rightarrow> rgba_image" where
  "plain_picture p = (if length (rgba_pixels p) = rgba_width p * rgba_height p \<and> list_all is_rgba (rgba_pixels p) then p
     else \<lparr>rgba_width = 0, rgba_height = 0, rgba_pixels = []\<rparr>)"

definition plain_crate :: "rgba_image image_crate" where
  "plain_crate = \<lparr>to_rgba8 = plain_picture,
     rgba_from_raw = (\<lambda>w h d. if length d = w * h * 4 then Some \<lparr>rgba_width = w, rgba_height = h, rgba_pixels = quads d\<rparr> else None),
     rgb_from_raw = (\<lambda>w h d. if length d = w * h * 3 then Some \<lparr>rgba_width = w, rgba_height = h, rgba_pixels = triples d\<rparr> else None),
     load_with_format = (\<lambda>d f. Inl ''unsupported''), load_any = (\<lambda>d. Inl ''unsupported''), write_to = (\<lambda>i f. Inl ''unsupported'')\<rparr>"

lemma quads_bytes: "quads (rgba_bytes ps) = ps" "length (rgba_bytes ps) = 4 * length ps"
  by (induction ps) (auto simp: rgba_bytes_def)

lemma triples_bytes: "triples (rgb_bytes ps) = map (\<lambda>(r, g, b). (r, g, b, 255)) ps" "length (rgb_bytes ps) = 3 * length ps"
  by (induction ps) (auto simp: rgb_bytes_def)

lemma plain_crate_laws: "image_laws plain_crate"
  by (auto simp: image_laws_def plain_crate_def plain_picture_def quads_bytes triples_bytes is_rgba_def list_all_iff)

theorem image_round_trip_witness:
  "\<exists>dib img. create_dibv5_from_image plain_crate \<lparr>rgba_width = 2, rgba_height = 1, rgba_pixels = [(1, 2, 3, 4), (255, 0, 0, 128)]\<rparr> = Ok dib \<and>
     parse_dibv5_to_image plain_crate dib = Some (Ok img) \<and> dib_dimensions dib = Ok (2, 1) \<and>
     rgba_pixels (to_rgba8 plain_crate img) = [(1, 2, 3, 4), (255, 0, 0, 128)]"
proof -
  let ?img = "\<lparr>rgba_width = 2, rgba_height = 1, rgba_pixels = [(1, 2, 3, 4), (255, 0, 0, 128)]\<rparr>"
  have "to_rgba8 plain_crate ?img = ?img" by (simp add: plain_crate_def plain_picture_def is_rgba_def)
  with image_round_trip[OF plain_crate_laws this] show ?thesis by auto
qed

section \<open>Orientation\<close>

lemma concat_uniform_nth:
  assumes "list_all (\<lambda>r. length r = w) rows" "y < length rows" "x < w"
  shows "concat rows ! (y * w + x) = rows ! y ! x"
  using assms by (induction rows arbitrary: y) (auto simp: nth_append nth_Cons' gr0_conv_Suc)

text \<open>A bottom-up bitmap is the top-down one with its rows in the opposite order.\<close>

lemma bottom_up_rows:
  assumes "w < 2 ^ 31" "length rows < 2 ^ 31" "list_all (\<lambda>r. length r = w) rows"
  shows "convert_32bit_dib ic (bgra_bytes (concat (rev rows))) w (length rows) False = convert_32bit_dib ic (bgra_bytes (concat rows)) w (length rows) True"
proof -
  let ?h = "length rows"
  have rows: "list_all (\<lambda>r. length r = w) (rev rows)" using assms(3) by simp
  have len: "length (concat rs) = w * length rs" if "list_all (\<lambda>r. length r = w) rs" for rs :: "rgba list list" using that by (induction rs) auto
  let ?read = "\<lambda>ps y x. let o1 = usize_wrap (usize_wrap (y * w * 4) + x * 4) in
      if usize_wrap (o1 + 3) < length (bgra_bytes ps) then [bgra_bytes ps ! (o1 + 2), bgra_bytes ps ! (o1 + 1), bgra_bytes ps ! o1, bgra_bytes ps ! (o1 + 3)]
      else []"
  have "?read (concat (rev rows)) (?h - 1 - y) x = ?read (concat rows) y x" if "y < ?h" "x < w" for y x
  proof -
    have "concat (rev rows) ! ((?h - 1 - y) * w + x) = concat rows ! (y * w + x)"
      using concat_uniform_nth[OF assms(3) that] concat_uniform_nth[OF rows, of "?h - 1 - y" x] that by (simp add: rev_nth)
    then show ?thesis
      using read_bgra[OF assms(1,2), of "concat (rev rows)" "?h - 1 - y" x] read_bgra[OF assms(1,2) len[OF assms(3)] that] that len[OF rows] by simp
  qed
  then have "scan_pixels w ?h False (?read (concat (rev rows))) = scan_pixels w ?h True (?read (concat rows))"
    by (auto simp: scan_pixels_def intro!: arg_cong[of _ _ concat] map_cong)
  then show ?thesis using len[OF assms(3)] len[OF rows] by (simp add: convert_32bit_dib_def Let_def)
qed

section \<open>Bitmaps too large for their data\<close>

text \<open>The size of a row with its padding, and what 32-bit arithmetic makes of it.\<close>

definition padded_row :: "nat \<Rightarrow> nat" where
  "padded_row width = (width * 3 + 3) div 4 * 4"

lemma padded_row_bounds: "width * 3 \<le> padded_row width" "padded_row width < width * 3 + 4"
  unfolding padded_row_def by linarith+

lemma row_size_24_eq:
  assumes "width \<le> 2 ^ 31"
  shows "row_size_24 width = (if width < 1431655765 then padded_row width else padded_row width - 2 ^ 32)"
proof (cases "width < 1431655766")
  case True
  then have "u32_wrap (width * 3) = width * 3" by (simp add: u32_wrap_def)
  with True show ?thesis by (cases "width = 1431655765") (simp_all add: row_size_24_def padded_row_def u32_wrap_def)
next
  case False
  with assms have "2 ^ 32 \<le> width * 3" "width * 3 - 2 ^ 32 < 2 ^ 32" by auto
  then have w: "u32_wrap (width * 3) = width * 3 - 2 ^ 32" by (simp add: u32_wrap_def le_mod_geq)
  have "width * 3 + 3 = (width * 3 - 2 ^ 32 + 3) + 2 ^ 30 * 4" using False by simp
  then have "(width * 3 + 3) div 4 = (width * 3 - 2 ^ 32 + 3) div 4 + 2 ^ 30" by (metis div_mult_self1 zero_neq_numeral add.commute)
  then have "(width * 3 - 2 ^ 32 + 3) div 4 * 4 = padded_row width - 2 ^ 32" by (simp add: padded_row_def)
  moreover have "padded_row width - 2 ^ 32 < 2 ^ 32" using assms padded_row_bounds(2)[of width] by simp
  ultimately show ?thesis using False w by (simp add: row_size_24_def u32_wrap_def)
qed

text \<open>A conversion refuses its payload as too short exactly if that has fewer bytes than \<open>needed\<close>.\<close>

definition refuses_below :: "string \<Rightarrow> nat list \<Rightarrow> nat \<Rightarrow> (clipboard_error, 'img) result option \<Rightarrow> bool" where
  "refuses_below what data needed r \<longleftrightarrow> ((\<exists>n. r = insufficient what (length data) n) \<longleftrightarrow> length data < needed)"

lemma not_insufficient [simp]:
  "None \<noteq> insufficient what k n" "from_raw_or (CHR ''F'' # m) r \<noteq> insufficient what k n"
  by (auto simp: insufficient_def image_error_def from_raw_or_def split: option.split)

text \<open>
  C38.  When bitmaps that claim more pixels than they carry are refused.  For all sides that a header can give, up to $2^{31}$: a 32-bit bitmap, with either header, is refused as too
  short exactly if its payload has fewer than four bytes for each pixel, except that any payload passes if both sides are $2^{31}$, where the
  size wraps to zero.  A 24-bit bitmap narrower than 1431655765 pixels is refused exactly if its payload has fewer bytes than its
  padded rows; from that width on the size of a row wraps in 32 bits and is $2^{32}$ too small, and zero at that very width, where any payload passes.
\<close>

theorem bitmap_size_check:
  assumes "width \<le> 2 ^ 31" "height \<le> 2 ^ 31"
  defines "needed_32 \<equiv> (if width = 2 ^ 31 \<and> height = 2 ^ 31 then 0 else width * height * 4)"
    and "needed_24 \<equiv> (if width < 1431655765 then padded_row width else padded_row width - 2 ^ 32) * height"
  shows "refuses_below ''pixel'' data needed_32 (convert_32bit_dib ic data width height top_down) \<and>
    refuses_below ''DIBV5 pixel'' data needed_32 (convert_32bit_dibv5 ic data width height top_down red green blue alpha) \<and>
    refuses_below ''pixel'' data needed_24 (convert_24bit_dib ic data width height top_down)"
proof -
  have w32: "usize_wrap (width * height * 4) = needed_32"
  proof (cases "width = 2 ^ 31 \<and> height = 2 ^ 31")
    case False
    have "width * height \<le> 2 ^ 31 * (2 ^ 31 - 1)"
    proof (cases "width = 2 ^ 31")
      case True
      with False assms(2) show ?thesis by simp
    next
      case False
      with assms have "width * height \<le> (2 ^ 31 - 1) * 2 ^ 31" by (intro mult_mono) auto
      then show ?thesis by simp
    qed
    then have "width * height * 4 < 2 ^ 64" by (simp add: mult.commute)
    then show ?thesis unfolding needed_32_def usize_wrap_def if_not_P[OF False] by (rule mod_less)
  qed (simp add: needed_32_def usize_wrap_def)
  have r: "row_size_24 width * height = needed_24" by (simp add: needed_24_def row_size_24_eq[OF assms(1)])
  have "row_size_24 width < 2 ^ 32" by (simp add: row_size_24_def u32_wrap_def)
  then have "row_size_24 width * height \<le> (2 ^ 32 - 1) * 2 ^ 31" using assms(2) by (intro mult_mono) auto
  then have w24: "usize_wrap (row_size_24 width * height) = needed_24" unfolding r[symmetric] by (simp add: usize_wrap_def)
  show ?thesis
    unfolding refuses_below_def convert_32bit_dib_def convert_32bit_dibv5_def convert_24bit_dib_def Let_def w32 w24 by auto
qed

theorem bitmap_size_check_witness:
  "convert_32bit_dib plain_crate [] (2 ^ 31) (2 ^ 31) True \<noteq> insufficient ''pixel'' 0 (2 ^ 64) \<and>
   (\<exists>n. convert_32bit_dib plain_crate [] (2 ^ 31) 1 True = insufficient ''pixel'' 0 n) \<and>
   convert_24bit_dib plain_crate [] 1431655765 5 True \<noteq> insufficient ''pixel'' 0 (5 * 2 ^ 32) \<and>
   (\<exists>n. convert_24bit_dib plain_crate [] (2 ^ 31 - 1) 1 True = insufficient ''pixel'' 0 n)"
  using bitmap_size_check[of "2 ^ 31" "2 ^ 31" "[]" plain_crate True] bitmap_size_check[of "2 ^ 31" 1 "[]" plain_crate True]
    bitmap_size_check[of 1431655765 5 "[]" plain_crate True] bitmap_size_check[of "2 ^ 31 - 1" 1 "[]" plain_crate True]
  by (auto simp: refuses_below_def padded_row_def)

text \<open>A BMP file made of a bitmap with the long header points its pixels into that header.\<close>

lemma bmp_of_dibv5_offset:
  assumes "124 \<le> length dib" "14 + length dib < 2 ^ 32"
  shows "\<exists>bmp. dib_to_bmp dib = Ok bmp \<and> field bmp 10 4 = 54 \<and> drop 138 bmp = drop 124 dib \<and> drop 54 bmp = drop 40 dib"
proof -
  let ?head = "[66, 77] @ le_bytes 4 (14 + length dib) @ le_bytes 2 0 @ le_bytes 2 0"
  have "dib_to_bmp dib = Ok (?head @ le_bytes 4 54 @ dib)" using assms by (simp add: dib_to_bmp_def)
  moreover have "field (?head @ le_bytes 4 54 @ dib) 10 4 = 54" by (subst field_append) simp_all
  ultimately show ?thesis by auto
qed

end
