(* ===== verification/Wrdp_Clipboard_Files.thy ===== *)
theory Wrdp_Clipboard_Files
  imports Wrdp_Clipboard_Formats "HOL-Library.AList" "HOL-Library.Multiset"
begin

text \<open>
  File transfers of the clipboard (\<open>FileTransferState\<close> and the file handlers of
  \<open>src/src/rdp/channels/clipboard/manager.rs\<close>): files pasted from the client are fetched in ranges into hidden temporary files of the download
  directory, renamed to a free name when complete, and announced to the local requester as URIs; files copied locally are served in ranges.

  Names and paths are lists of code points.  The directory's files are an association list from paths to contents, which only these handlers change;
  what the operating system may refuse is a \<open>download_io\<close>.  What the handlers send to the client or tell the clipboard provider is a list of
  outputs.  The handlers run one after the other on the event task.
\<close>

section \<open>Names and paths\<close>

text \<open>\<open>sanitize_filename_for_linux\<close> on all code points.\<close>

definition linux_filename :: "unicode \<Rightarrow> unicode" where
  "linux_filename filename =
     (if filename = [] then ascii ''_unnamed_''
      else let s0 = map (\<lambda>c. if c = 47 \<or> c = 0 \<or> c = 92 then 95 else c) filename;
               sanitized = (if hd s0 = 45 then 95 # s0 else s0)
      in if sanitized = [] \<or> sanitized = ascii ''.'' \<or> sanitized = ascii ''..'' then ascii ''_unnamed_''
         else if utf8_len sanitized > 255
         then case rsplit_dot sanitized of
                Some (base, ext) \<Rightarrow>
                  if utf8_len (46 # ext) < 255 - 1 then take (255 - utf8_len (46 # ext)) base @ 46 # ext else take 255 sanitized
              | None \<Rightarrow> take 255 sanitized
         else sanitized)"

text \<open>\<open>Path::join\<close>, and \<open>file_stem\<close> and \<open>extension\<close> of a name without slashes.\<close>

definition upath_join :: "unicode \<Rightarrow> unicode \<Rightarrow> unicode" where
  "upath_join dir name = (if name \<noteq> [] \<and> hd name = 47 then name else if dir = [] \<or> last dir = 47 then dir @ name else dir @ 47 # name)"

definition name_stem :: "unicode \<Rightarrow> unicode option" where
  "name_stem s =
     (if s = [] \<or> s = ascii ''.'' \<or> s = ascii ''..'' then None
      else case rsplit_dot s of None \<Rightarrow> Some s | Some (base, ext) \<Rightarrow> if base = [] then Some s else Some base)"

definition name_extension :: "unicode \<Rightarrow> unicode option" where
  "name_extension s =
     (if s = [] \<or> s = ascii ''.'' \<or> s = ascii ''..'' then None
      else case rsplit_dot s of None \<Rightarrow> None | Some (base, ext) \<Rightarrow> if base = [] then None else Some ext)"

section \<open>State\<close>

record incoming_file =
  inc_final :: unicode
  inc_total :: "nat option"
  inc_awaiting :: bool
  inc_received :: nat
  inc_temp :: unicode
  inc_index :: nat
  inc_data_id :: nat

record outgoing_file =
  out_path :: unicode
  out_size :: nat

record file_transfer_state =
  ft_incoming :: "(nat \<times> incoming_file) list"
  ft_outgoing :: "outgoing_file list"
  ft_descriptors :: "file_descriptor list"
  ft_dir :: unicode
  ft_serial :: "nat option"
  ft_next_id :: nat
  ft_completed :: "unicode list"

type_synonym files = "(unicode \<times> nat list) list"

datatype file_output =
    Request_contents nat nat bool nat nat nat  \<comment> \<open>stream, index, size request, position, size, data lock\<close>
  | Complete_transfer nat unicode "nat list" bool  \<comment> \<open>serial, MIME type, data, success\<close>
  | Send_contents nat "nat list option"  \<comment> \<open>stream, data or error\<close>
  | Send_size nat nat

datatype manager_error = Core clipboard_error | Portal_error string | Invalid_state string | File_io_error string | Not_initialized

datatype sender = No_sender | Closed | Connected

record download_io =
  io_mkdir :: bool
  io_create :: "unicode \<Rightarrow> bool"
  io_remove :: "unicode \<Rightarrow> bool"
  io_write :: "nat option"  \<comment> \<open>how much is written before a failure\<close>
  io_flush :: bool
  io_rename :: "unicode \<Rightarrow> bool"

definition send_output :: "sender \<Rightarrow> file_output \<Rightarrow> file_output list" where
  "send_output l out = (if l = Connected then [out] else [])"

definition transfer_state_new :: "unicode \<Rightarrow> file_transfer_state" where
  "transfer_state_new download_dir = \<lparr>ft_incoming = [], ft_outgoing = [], ft_descriptors = [], ft_dir = download_dir, ft_serial = None, ft_next_id = 1,
     ft_completed = []\<rparr>"

definition apply_size_response :: "nat list \<Rightarrow> incoming_file \<Rightarrow> (manager_error, nat) result \<times> incoming_file" where
  "apply_size_response data f =
     (if length data \<noteq> 8
      then (Err (File_io_error (''invalid clipboard file size response: expected 8 bytes, got '' @ show_nat (length data))), f)
      else (Ok (from_le data), f\<lparr>inc_total := Some (from_le data), inc_awaiting := False\<rparr>))"

definition remove_files :: "download_io \<Rightarrow> unicode list \<Rightarrow> files \<Rightarrow> files" where
  "remove_files io ps fs = filter (\<lambda>(p, c). \<not> (p \<in> set ps \<and> io_remove io p)) fs"

definition clear_incoming :: "download_io \<Rightarrow> file_transfer_state \<times> files \<Rightarrow> file_transfer_state \<times> files" where
  "clear_incoming io s = (case s of (ft, fs) \<Rightarrow>
     (ft\<lparr>ft_incoming := [], ft_serial := None, ft_completed := []\<rparr>, remove_files io (map (inc_temp \<circ> snd) (ft_incoming ft)) fs))"

definition destination_is_taken :: "file_transfer_state \<Rightarrow> files \<Rightarrow> unicode \<Rightarrow> bool" where
  "destination_is_taken ft fs candidate \<longleftrightarrow>
     candidate \<in> fst ` set fs \<or> candidate \<in> set (ft_completed ft) \<or> (\<exists>f \<in> snd ` set (ft_incoming ft). inc_final f = candidate)"

text \<open>
  The loop over \<open>1u32..\<close>.  Every candidate it passes over is taken, so as many tries as there are files, completed names and incoming files find a
  free one; the range of the suffix is never exhausted before that.
\<close>

definition numbered_name :: "unicode \<Rightarrow> unicode option \<Rightarrow> nat \<Rightarrow> unicode" where
  "numbered_name stem extension index =
     stem @ ascii '' ('' @ ascii (show_nat index) @ ascii '')'' @ (case extension of None \<Rightarrow> [] | Some e \<Rightarrow> 46 # e)"

fun free_destination :: "nat \<Rightarrow> file_transfer_state \<Rightarrow> files \<Rightarrow> unicode \<Rightarrow> unicode option \<Rightarrow> nat \<Rightarrow> unicode" where
  "free_destination 0 ft fs stem extension index = upath_join (ft_dir ft) (numbered_name stem extension index)"
| "free_destination (Suc tries) ft fs stem extension index =
     (let candidate = upath_join (ft_dir ft) (numbered_name stem extension index)
      in if \<not> destination_is_taken ft fs candidate then candidate else free_destination tries ft fs stem extension (index + 1))"

definition reserve_destination :: "file_transfer_state \<Rightarrow> files \<Rightarrow> unicode \<Rightarrow> unicode" where
  "reserve_destination ft fs filename =
     (let candidate = upath_join (ft_dir ft) filename
      in if \<not> destination_is_taken ft fs candidate then candidate
         else free_destination (length fs + length (ft_completed ft) + length (ft_incoming ft)) ft fs
           (case name_stem filename of None \<Rightarrow> ascii ''file'' | Some s \<Rightarrow> s) (name_extension filename) 1)"

definition allocate_stream_id :: "file_transfer_state \<Rightarrow> nat \<times> file_transfer_state" where
  "allocate_stream_id ft = (ft_next_id ft, ft\<lparr>ft_next_id := (ft_next_id ft + 1) mod 2 ^ 32\<rparr>)"

text \<open>\<open>renameat2\<close> with \<open>RENAME_NOREPLACE\<close>.\<close>

definition finalize_without_replace :: "download_io \<Rightarrow> unicode \<Rightarrow> unicode \<Rightarrow> files \<Rightarrow> files option" where
  "finalize_without_replace io temp_path final_path fs =
     (case map_of fs temp_path of
        None \<Rightarrow> None
      | Some c \<Rightarrow> if \<not> io_rename io final_path \<or> final_path \<in> fst ` set fs then None else Some ((final_path, c) # AList.delete temp_path fs))"

section \<open>Files from the client\<close>

definition MAX_RANGE :: nat where "MAX_RANGE = 64 * 1024 * 1024"

definition contents_index :: "nat \<Rightarrow> nat" where
  "contents_index i = (if i < 2 ^ 31 then i else 2 ^ 31 - 1)"

definition temp_name :: "unicode \<Rightarrow> nat \<Rightarrow> unicode" where
  "temp_name filename stream_id = 46 # filename @ 46 # ascii (show_nat stream_id) @ ascii ''.tmp''"

definition start_file :: "download_io \<Rightarrow> sender \<Rightarrow> nat \<times> file_descriptor \<Rightarrow> file_transfer_state \<times> files \<Rightarrow> file_output list \<times> file_transfer_state \<times> files" where
  "start_file io l d s = (case (d, s) of ((idx, desc), (ft0, fs)) \<Rightarrow>
     (let (stream_id, ft) = allocate_stream_id ft0;
          filename = linux_filename (fd_name desc);
          final_path = reserve_destination ft fs filename;
          total_size = fd_size desc;
          temp_path = upath_join (ft_dir ft) (temp_name filename stream_id)
      in if \<not> io_mkdir io \<or> temp_path \<in> fst ` set fs \<or> \<not> io_create io temp_path then ([], ft, fs)
         else let incoming = \<lparr>inc_final = final_path, inc_total = total_size, inc_awaiting = (total_size = None \<or> total_size = Some 0), inc_received = 0,
                    inc_temp = temp_path, inc_index = min idx (2 ^ 32 - 1), inc_data_id = 1\<rparr>;
                  (size_request, request_size) =
                    (case total_size of Some n \<Rightarrow> if 0 < n then (False, min n MAX_RANGE) else (True, 8) | None \<Rightarrow> (True, 8))
              in (send_output l (Request_contents stream_id (contents_index idx) size_request 0 request_size 1),
                  ft\<lparr>ft_incoming := AList.update stream_id incoming (ft_incoming ft)\<rparr>, (temp_path, []) # fs)))"

fun start_files :: "download_io \<Rightarrow> sender \<Rightarrow> (nat \<times> file_descriptor) list \<Rightarrow> file_transfer_state \<times> files \<Rightarrow> file_output list \<times> file_transfer_state \<times> files" where
  "start_files io l [] s = ([], s)"
| "start_files io l (d # ds) s = (case start_file io l d s of (out, s1) \<Rightarrow> (case start_files io l ds s1 of (outs, s2) \<Rightarrow> (out @ outs, s2)))"

text \<open>The file list arrives; a provider is present.\<close>

definition start_download ::
  "download_io \<Rightarrow> sender \<Rightarrow> nat \<Rightarrow> unicode \<Rightarrow> file_descriptor list \<Rightarrow> file_transfer_state \<times> files \<Rightarrow> file_output list \<times> file_transfer_state \<times> files" where
  "start_download io l serial requested_mime descriptors s = (case s of (ft, fs) \<Rightarrow>
     (if ft_incoming ft \<noteq> [] \<or> l = No_sender then ([Complete_transfer serial requested_mime [] False], ft, fs)
      else case clear_incoming io (ft, fs) of (ft1, fs1) \<Rightarrow>
        start_files io l (enumerate 0 descriptors) (ft1\<lparr>ft_descriptors := descriptors, ft_serial := Some serial\<rparr>, fs1)))"

definition append_file :: "unicode \<Rightarrow> nat list \<Rightarrow> files \<Rightarrow> files" where
  "append_file p data fs = (case map_of fs p of None \<Rightarrow> fs | Some c \<Rightarrow> AList.update p (c @ data) fs)"

definition join_units :: "nat \<Rightarrow> unicode list \<Rightarrow> unicode" where
  "join_units d ss = unicode_join [d] ss"

text \<open>The list of URIs; the encoding of a path component by the \<open>percent_encoding\<close> crate is the argument \<open>enc\<close>.\<close>

fun split_slash :: "unicode \<Rightarrow> unicode list" where
  "split_slash [] = [[]]"
| "split_slash (c # cs) = (case split_slash cs of [] \<Rightarrow> [[c]] | w # ws \<Rightarrow> if c = 47 then [] # w # ws else (c # w) # ws)"

definition copied_files :: "(unicode \<Rightarrow> unicode) \<Rightarrow> unicode list \<Rightarrow> unicode" where
  "copied_files enc paths =
     ascii ''copy'' @ 10 # join_units 10 (map (\<lambda>p. ascii ''file://'' @ join_units 47 (map enc (split_slash p))) paths) @ [0]"

definition complete_file ::
  "(unicode \<Rightarrow> unicode) \<Rightarrow> download_io \<Rightarrow> bool \<Rightarrow> nat \<Rightarrow> incoming_file \<Rightarrow> file_transfer_state \<times> files \<Rightarrow>
     (manager_error, unit) result \<times> file_output list \<times> file_transfer_state \<times> files" where
  "complete_file enc io provider stream_id file s = (case s of (ft0, fs) \<Rightarrow>
     (if \<not> io_flush io then (Err (File_io_error ''Failed to flush file''), [], ft0, fs)
      else let ft = ft0\<lparr>ft_completed := ft_completed ft0 @ [inc_final file], ft_incoming := AList.delete stream_id (ft_incoming ft0)\<rparr>
      in case finalize_without_replace io (inc_temp file) (inc_final file) fs of
           None \<Rightarrow> (Err (File_io_error ''Failed to finalize file''), [], ft, fs)
         | Some fs1 \<Rightarrow>
             if ft_incoming ft \<noteq> [] then (Ok (), [], ft, fs1)
             else (Ok (),
                   (case ft_serial ft of
                      Some serial \<Rightarrow>
                        if provider then [Complete_transfer serial (ascii ''x-special/gnome-copied-files'') (to_utf8 (copied_files enc (ft_completed ft))) True] else []
                    | None \<Rightarrow> []),
                   ft\<lparr>ft_completed := [], ft_serial := None\<rparr>, fs1)))"

definition next_range :: "sender \<Rightarrow> nat \<Rightarrow> incoming_file \<Rightarrow> nat \<Rightarrow> file_output list" where
  "next_range l stream_id file total_size =
     send_output l (Request_contents stream_id (contents_index (inc_index file)) False (inc_received file) (min (total_size - inc_received file) MAX_RANGE)
       (inc_data_id file))"

definition handle_rdp_file_contents_response ::
  "(unicode \<Rightarrow> unicode) \<Rightarrow> download_io \<Rightarrow> sender \<Rightarrow> bool \<Rightarrow> nat \<Rightarrow> nat list \<Rightarrow> bool \<Rightarrow> file_transfer_state \<times> files \<Rightarrow>
     (manager_error, unit) result \<times> file_output list \<times> file_transfer_state \<times> files" where
  "handle_rdp_file_contents_response enc io l provider stream_id data is_error s = (case s of (ft, fs) \<Rightarrow>
     (if is_error
      then let (ft1, fs1) = (case map_of (ft_incoming ft) stream_id of
                               Some file \<Rightarrow> (ft\<lparr>ft_incoming := AList.delete stream_id (ft_incoming ft)\<rparr>, remove_files io [inc_temp file] fs)
                             | None \<Rightarrow> (ft, fs))
           in case ft_serial ft1 of
                Some serial \<Rightarrow> (Ok (), (if provider then [Complete_transfer serial [] [] False] else []), ft1\<lparr>ft_serial := None\<rparr>, fs1)
              | None \<Rightarrow> (Ok (), [], ft1, fs1)
      else case map_of (ft_incoming ft) stream_id of
        None \<Rightarrow> (Ok (), [], ft, fs)
      | Some file \<Rightarrow>
          if inc_awaiting file
          then case apply_size_response data file of
                 (Inl e, _) \<Rightarrow> (Err e, [], ft, fs)
               | (Inr total_size, file1) \<Rightarrow>
                   let ft1 = ft\<lparr>ft_incoming := AList.update stream_id file1 (ft_incoming ft)\<rparr>
                   in if 0 < total_size
                      then (if l = Closed then Err (Invalid_state ''failed to request clipboard file data'') else Ok (),
                            send_output l (Request_contents stream_id (contents_index (inc_index file1)) False 0 (min total_size MAX_RANGE) (inc_data_id file1)),
                            ft1, fs)
                      else complete_file enc io provider stream_id file1 (ft1, fs)
          else case io_write io of
                 Some n \<Rightarrow> (Err (File_io_error ''File write failed''), [], ft, append_file (inc_temp file) (take n data) fs)
               | None \<Rightarrow>
                   let file1 = file\<lparr>inc_received := inc_received file + length data\<rparr>;
                       ft1 = ft\<lparr>ft_incoming := AList.update stream_id file1 (ft_incoming ft)\<rparr>;
                       fs1 = append_file (inc_temp file) data fs
                   in case inc_total file1 of
                        None \<Rightarrow> (Ok (), [], ft1, fs1)
                      | Some total_size \<Rightarrow>
                          if total_size \<le> inc_received file1 then complete_file enc io provider stream_id file1 (ft1, fs1)
                          else (Ok (), next_range l stream_id file1 total_size, ft1, fs1)))"

section \<open>Files for the client\<close>

text \<open>
  \<open>File::open\<close>, \<open>seek\<close> and one \<open>read\<close>: the result of opening the file is \<open>opened\<close>, and the read returns \<open>n\<close> bytes or
  fails.
\<close>

definition read_file_chunk :: "(string, nat list) result \<Rightarrow> (string, nat) result \<Rightarrow> nat \<Rightarrow> nat \<Rightarrow> (manager_error, nat list) result" where
  "read_file_chunk opened got offset limit =
     (case opened of
        Inl e \<Rightarrow> Err (File_io_error (''Failed to open file: '' @ e))
      | Inr contents \<Rightarrow>
          if 2 ^ 63 \<le> offset then Err (File_io_error (''Failed to seek to offset '' @ show_nat offset))
          else case got of
            Inl e \<Rightarrow> Err (File_io_error (''Failed to read file: '' @ e))
          | Inr n \<Rightarrow> Ok (take (min n limit) (drop offset contents)))"

definition handle_rdp_file_contents_request ::
  "sender \<Rightarrow> (unicode \<Rightarrow> (string, nat list) result) \<Rightarrow> (string, nat) result \<Rightarrow> nat \<Rightarrow> nat \<Rightarrow> nat \<Rightarrow> nat \<Rightarrow> bool \<Rightarrow> file_transfer_state \<Rightarrow>
     (manager_error, unit) result \<times> file_output list" where
  "handle_rdp_file_contents_request l disk got stream_id list_index position requested_size is_size_request ft =
     (if l = No_sender then (Err Not_initialized, [])
      else if length (ft_outgoing ft) \<le> list_index then (Err (Invalid_state (''File index '' @ show_nat list_index @ '' not found'')), [])
      else let file_info = ft_outgoing ft ! list_index
      in if is_size_request then (Ok (), send_output l (Send_size stream_id (out_size file_info)))
         else case read_file_chunk (disk (out_path file_info)) got position requested_size of
                Inr data \<Rightarrow> (Ok (), send_output l (Send_contents stream_id (Some data)))
              | Inl e \<Rightarrow> (Ok (), send_output l (Send_contents stream_id None)))"

section \<open>End of a connection\<close>

definition clear_transfers :: "download_io \<Rightarrow> file_transfer_state \<times> files \<Rightarrow> file_transfer_state \<times> files" where
  "clear_transfers io s = (case clear_incoming io s of (ft, fs) \<Rightarrow> (ft\<lparr>ft_outgoing := [], ft_descriptors := [], ft_serial := None\<rparr>, fs))"


section \<open>Names stay in the directory\<close>

definition safe_name :: "unicode \<Rightarrow> bool" where
  "safe_name n \<longleftrightarrow> n \<noteq> [] \<and> 47 \<notin> set n \<and> 0 \<notin> set n \<and> n \<noteq> ascii ''.'' \<and> n \<noteq> ascii ''..''"

lemma utf8_len_bound: "utf8_len t \<le> 4 * length t \<and> length t \<le> utf8_len t"
proof (induction t)
  case (Cons c t)
  have "length (utf8_char c) \<le> 4" "1 \<le> length (utf8_char c)" by (simp_all add: utf8_char_def)
  with Cons show ?case by (simp only: to_utf8_simps length_append list.size) presburger
qed simp

lemma dots: "ascii ''.'' = [46]" "ascii ''..'' = [46, 46]"
  by (simp_all add: ascii_def)

lemma safe_name_long: "2 < length n \<Longrightarrow> 47 \<notin> set n \<Longrightarrow> 0 \<notin> set n \<Longrightarrow> safe_name n"
  by (auto simp: safe_name_def dots)

lemma linux_filename_safe: "safe_name (linux_filename f)"
proof (cases "f = []")
  case False
  define s0 where "s0 = map (\<lambda>c. if c = 47 \<or> c = 0 \<or> c = 92 then 95 else c :: nat) f"
  define s where "s = (if hd s0 = 45 then 95 # s0 else s0)"
  have clean: "47 \<notin> set s" "0 \<notin> set s" "s \<noteq> []" using False by (auto simp: s_def s0_def)
  have unnamed: "safe_name (ascii ''_unnamed_'')" by (simp add: safe_name_def ascii_def)
  have l: "linux_filename f = (if s = ascii ''.'' \<or> s = ascii ''..'' then ascii ''_unnamed_''
      else if utf8_len s > 255
      then case rsplit_dot s of
             Some (base, ext) \<Rightarrow> if utf8_len (46 # ext) < 255 - 1 then take (255 - utf8_len (46 # ext)) base @ 46 # ext else take 255 s
           | None \<Rightarrow> take 255 s
      else s)" using False clean(3) unfolding linux_filename_def Let_def by (simp only: s0_def[symmetric] s_def[symmetric] if_False simp_thms)
  have cut: "safe_name (take 255 s)" if "utf8_len s > 255"
    using clean that utf8_len_bound[of s] by (intro safe_name_long) (auto dest: in_set_takeD)
  have ext: "safe_name (take (255 - utf8_len (46 # ext)) base @ 46 # ext)"
    if "rsplit_dot s = Some (base, ext)" "utf8_len s > 255" "utf8_len (46 # ext) < 255 - 1" for base ext
  proof (rule safe_name_long)
    have s: "s = base @ 46 # ext" using that(1) by (simp add: rsplit_dot_Some)
    then have "utf8_len s = utf8_len base + utf8_len (46 # ext)" by simp
    moreover have "length ext < utf8_len (46 # ext)" using utf8_len_bound[of ext] by (simp add: utf8_char_def)
    ultimately show "2 < length (take (255 - utf8_len (46 # ext)) base @ 46 # ext)"
      using that(2,3) utf8_len_bound[of base] utf8_len_bound[of ext] by (simp add: utf8_char_def) arith
  qed (use clean that(1) in \<open>auto simp: rsplit_dot_Some dest: in_set_takeD\<close>)
  show ?thesis unfolding l using unnamed cut ext clean by (auto simp: safe_name_def[of s] split: option.splits)
qed (simp add: linux_filename_def safe_name_def ascii_def)

lemma show_nat_clean: "47 \<notin> set (ascii (show_nat n))" "0 \<notin> set (ascii (show_nat n))"
  using show_nat_digits by (fastforce simp: ascii_def char_is_ascii_digit_def)+

lemma temp_name_safe: "safe_name f \<Longrightarrow> safe_name (temp_name f n)"
  by (intro safe_name_long) (auto simp: temp_name_def safe_name_def show_nat_clean, simp_all add: ascii_def)

lemma numbered_name_safe:
  assumes "47 \<notin> set stem" "0 \<notin> set stem" "\<And>e. ext = Some e \<Longrightarrow> 47 \<notin> set e \<and> 0 \<notin> set e"
  shows "safe_name (numbered_name stem ext n)"
  using assms by (intro safe_name_long) (auto simp: numbered_name_def show_nat_clean split: option.splits, simp_all add: ascii_def)

section \<open>Free destinations\<close>

lemma show_nat_inj: "show_nat m = show_nat n \<longleftrightarrow> m = n"
  by (metis digits_value_show option.inject)

lemma ascii_inj: "ascii s = ascii t \<longleftrightarrow> s = t"
  unfolding ascii_def by (rule inj_map_eq_map) (simp add: inj_def)

lemma join_safe: "safe_name n \<Longrightarrow> upath_join dir n = (if dir = [] \<or> last dir = 47 then dir @ n else dir @ 47 # n)"
  by (cases n) (auto simp: upath_join_def safe_name_def)

lemma upath_join_inj: "safe_name m \<Longrightarrow> safe_name n \<Longrightarrow> upath_join dir m = upath_join dir n \<longleftrightarrow> m = n"
  by (simp add: join_safe)

lemma numbered_name_inj: "numbered_name stem ext m = numbered_name stem ext n \<longleftrightarrow> m = n"
  by (auto simp: numbered_name_def ascii_inj show_nat_inj)

definition taken_paths :: "file_transfer_state \<Rightarrow> files \<Rightarrow> unicode list" where
  "taken_paths ft fs = map fst fs @ ft_completed ft @ map (inc_final \<circ> snd) (ft_incoming ft)"

lemma taken_iff: "destination_is_taken ft fs p \<longleftrightarrow> p \<in> set (taken_paths ft fs)"
  by (auto simp: destination_is_taken_def taken_paths_def)

lemma free_destination_first:
  "\<exists>k \<le> tries. free_destination tries ft fs stem ext i = upath_join (ft_dir ft) (numbered_name stem ext (i + k)) \<and>
     (\<forall>j < k. destination_is_taken ft fs (upath_join (ft_dir ft) (numbered_name stem ext (i + j)))) \<and>
     (k < tries \<longrightarrow> \<not> destination_is_taken ft fs (upath_join (ft_dir ft) (numbered_name stem ext (i + k))))"
proof (induction tries arbitrary: i)
  case (Suc tries)
  show ?case
  proof (cases "destination_is_taken ft fs (upath_join (ft_dir ft) (numbered_name stem ext i))")
    case True
    obtain k where k: "k \<le> tries" "free_destination tries ft fs stem ext (i + 1) = upath_join (ft_dir ft) (numbered_name stem ext (i + 1 + k))"
      "\<forall>j < k. destination_is_taken ft fs (upath_join (ft_dir ft) (numbered_name stem ext (i + 1 + j)))"
      "k < tries \<longrightarrow> \<not> destination_is_taken ft fs (upath_join (ft_dir ft) (numbered_name stem ext (i + 1 + k)))" using Suc by blast
    have "destination_is_taken ft fs (upath_join (ft_dir ft) (numbered_name stem ext (i + j)))" if "j < Suc k" for j
      using that True k(3) by (cases j) auto
    then show ?thesis using k True by (intro exI[of _ "Suc k"]) (simp add: Let_def)
  qed (auto simp: Let_def intro!: exI[of _ 0])
qed simp

lemma free_destination_free:
  assumes "length (taken_paths ft fs) \<le> tries" "\<And>n. safe_name (numbered_name stem ext n)"
  shows "\<not> destination_is_taken ft fs (free_destination tries ft fs stem ext i)"
proof -
  let ?p = "\<lambda>j. upath_join (ft_dir ft) (numbered_name stem ext (i + j))"
  obtain k where k: "k \<le> tries" "free_destination tries ft fs stem ext i = ?p k" "\<forall>j < k. destination_is_taken ft fs (?p j)"
    "k < tries \<longrightarrow> \<not> destination_is_taken ft fs (?p k)" using free_destination_first by blast
  have "inj_on ?p {..k}" using assms(2) by (auto simp: inj_on_def upath_join_inj numbered_name_inj)
  then have "card (?p ` {..k}) = Suc k" by (simp add: card_image)
  moreover have "?p ` {..k} \<subseteq> set (taken_paths ft fs)" if "destination_is_taken ft fs (?p k)"
    using that k(3) by (auto simp: taken_iff[symmetric] le_less)
  then have "card (?p ` {..k}) \<le> length (taken_paths ft fs)" if "destination_is_taken ft fs (?p k)"
    using that card_mono[OF finite_set] card_length le_trans by blast
  ultimately show ?thesis using k assms(1) by force
qed

lemma stem_and_extension_clean:
  assumes "safe_name f"
  shows "\<exists>stem. name_stem f = Some stem \<and> 47 \<notin> set stem \<and> 0 \<notin> set stem" and "name_extension f = Some e \<Longrightarrow> 47 \<notin> set e \<and> 0 \<notin> set e"
  using assms by (auto simp: name_stem_def name_extension_def safe_name_def rsplit_dot_Some split: option.splits if_splits)

lemma reserved_destination:
  assumes "safe_name f"
  shows "\<exists>n. reserve_destination ft fs f = upath_join (ft_dir ft) n \<and> safe_name n" and "\<not> destination_is_taken ft fs (reserve_destination ft fs f)"
proof -
  obtain stem where s: "name_stem f = Some stem" "47 \<notin> set stem" "0 \<notin> set stem" using stem_and_extension_clean(1)[OF assms] by blast
  have n: "safe_name (numbered_name stem (name_extension f) i)" for i
    using s(2,3) stem_and_extension_clean(2)[OF assms] by (rule numbered_name_safe)
  let ?tries = "length fs + length (ft_completed ft) + length (ft_incoming ft)"
  have "length (taken_paths ft fs) \<le> ?tries" by (simp add: taken_paths_def)
  then show "\<not> destination_is_taken ft fs (reserve_destination ft fs f)"
    using free_destination_free[OF _ n] s(1) by (simp add: reserve_destination_def Let_def)
  show "\<exists>n. reserve_destination ft fs f = upath_join (ft_dir ft) n \<and> safe_name n"
    using free_destination_first[of ?tries ft fs stem "name_extension f" 1] n s(1) assms by (auto simp: reserve_destination_def Let_def)
qed

section \<open>Existing files are never touched\<close>

datatype file_event =
    Files_arrived nat unicode "file_descriptor list"
  | Contents_arrived nat "nat list" bool
  | Connection_closed

type_synonym file_context = "download_io \<times> sender \<times> bool"

fun file_step :: "(unicode \<Rightarrow> unicode) \<Rightarrow> file_context \<times> file_event \<Rightarrow> file_transfer_state \<times> files \<Rightarrow> file_transfer_state \<times> files" where
  "file_step enc ((io, l, provider), Files_arrived serial mime descriptors) s = snd (start_download io l serial mime descriptors s)"
| "file_step enc ((io, l, provider), Contents_arrived stream data is_error) s = snd (snd (handle_rdp_file_contents_response enc io l provider stream data is_error s))"
| "file_step enc ((io, l, provider), Connection_closed) s = clear_transfers io s"

definition in_dir :: "unicode \<Rightarrow> unicode \<Rightarrow> bool" where
  "in_dir dir p \<longleftrightarrow> (\<exists>n. safe_name n \<and> p = upath_join dir n)"

definition downloads_ok :: "unicode \<Rightarrow> files \<Rightarrow> file_transfer_state \<times> files \<Rightarrow> bool" where
  "downloads_ok dir fs0 = (\<lambda>(ft, fs). ft_dir ft = dir \<and> distinct (map fst (ft_incoming ft)) \<and> map_of fs0 \<subseteq>\<^sub>m map_of fs \<and>
     (\<forall>p. map_of fs p \<noteq> None \<longrightarrow> map_of fs0 p = None \<longrightarrow> in_dir dir p) \<and>
     (\<forall>i f. map_of (ft_incoming ft) i = Some f \<longrightarrow>
        in_dir dir (inc_temp f) \<and> in_dir dir (inc_final f) \<and> map_of fs0 (inc_temp f) = None \<and> (\<exists>c. map_of fs (inc_temp f) = Some c \<and> inc_received f \<le> length c)) \<and>
     (\<forall>i j f g. map_of (ft_incoming ft) i = Some f \<longrightarrow> map_of (ft_incoming ft) j = Some g \<longrightarrow> i \<noteq> j \<longrightarrow> inc_temp f \<noteq> inc_temp g))"

lemma path_absent: "p \<notin> fst ` set fs \<longleftrightarrow> map_of fs p = None"
  by (simp add: map_of_eq_None_iff)

lemma map_of_remove_files: "map_of (remove_files io ps fs) p = (if p \<in> set ps \<and> io_remove io p then None else map_of fs p)"
  by (induction fs) (auto simp: remove_files_def)

lemma map_of_append_file: "map_of (append_file q data fs) p = (if p = q then map_option (\<lambda>c. c @ data) (map_of fs q) else map_of fs p)"
  by (auto simp: append_file_def update_conv' split: option.splits)

lemma finalized:
  assumes "finalize_without_replace io temp final fs = Some fs'"
  obtains c where "map_of fs temp = Some c" "map_of fs final = None" "temp \<noteq> final" "map_of fs' = (map_of fs)(temp := None, final \<mapsto> c)"
proof -
  from assms obtain c where c: "map_of fs temp = Some c" "final \<notin> fst ` set fs" "fs' = (final, c) # AList.delete temp fs"
    by (auto simp: finalize_without_replace_def split: option.splits if_splits)
  then have "map_of fs final = None" "temp \<noteq> final" by (auto simp: path_absent)
  with c that show thesis by (simp add: delete_conv')
qed

lemma downloads_okD:
  assumes "downloads_ok dir fs0 (ft, fs)" "map_of (ft_incoming ft) i = Some f"
  shows "in_dir dir (inc_temp f)" "in_dir dir (inc_final f)" "map_of fs0 (inc_temp f) = None" "\<exists>c. map_of fs (inc_temp f) = Some c \<and> inc_received f \<le> length c"
    "map_of (ft_incoming ft) j = Some g \<Longrightarrow> i \<noteq> j \<Longrightarrow> inc_temp f \<noteq> inc_temp g"
  using assms by (simp_all add: downloads_ok_def)

text \<open>A file grows or a transfer is dropped: the other paths stay.\<close>

lemma ok_update:
  assumes "downloads_ok dir fs0 (ft, fs)" "map_of (ft_incoming ft) i = Some f" "inc_temp g = inc_temp f" "inc_final g = inc_final f"
    "\<And>c. map_of fs (inc_temp f) = Some c \<Longrightarrow> inc_received f \<le> length c \<Longrightarrow> inc_received g \<le> length (c @ data)"
  shows "downloads_ok dir fs0 (ft\<lparr>ft_incoming := AList.update i g (ft_incoming ft)\<rparr>, append_file (inc_temp f) data fs)"
proof -
  have "map_of fs0 \<subseteq>\<^sub>m map_of (append_file (inc_temp f) data fs)"
    using assms(1) downloads_okD(3)[OF assms(1,2)] by (auto simp: downloads_ok_def map_le_def map_of_append_file dom_def)
  moreover have "\<exists>c. map_of (append_file (inc_temp f) data fs) (inc_temp h) = Some c \<and> inc_received h \<le> length c"
    if "map_of (AList.update i g (ft_incoming ft)) j = Some h" for j h
  proof (cases "j = i")
    case True
    then show ?thesis using that assms(3,5) downloads_okD(4)[OF assms(1,2)] by (auto simp: update_conv' map_of_append_file)
  next
    case False
    then have h: "map_of (ft_incoming ft) j = Some h" using that by (simp add: update_conv')
    then show ?thesis using False downloads_okD(4)[OF assms(1) h] downloads_okD(5)[OF assms(1) h assms(2)] by (auto simp: map_of_append_file)
  qed
  ultimately show ?thesis
    using assms(1-4) downloads_okD(1-3,5)[OF assms(1)]
    by (auto simp: downloads_ok_def distinct_update update_conv' map_of_append_file split: if_splits)
qed

lemma ok_drop:
  assumes ok: "downloads_ok dir fs0 (ft, fs)" and ft': "ft_dir ft' = ft_dir ft" "distinct (map fst (ft_incoming ft'))" "map_of (ft_incoming ft') \<subseteq>\<^sub>m map_of (ft_incoming ft)"
    and gone: "\<And>p. p \<notin> set ps \<Longrightarrow> map_of fs' p = map_of fs p" "\<And>p. p \<in> set ps \<Longrightarrow> map_of fs0 p = None \<and> (map_of fs' p \<noteq> None \<longrightarrow> in_dir dir p)"
    and kept: "\<And>i f. map_of (ft_incoming ft') i = Some f \<Longrightarrow> inc_temp f \<notin> set ps"
  shows "downloads_ok dir fs0 (ft', fs')"
proof -
  have inc: "map_of (ft_incoming ft) i = Some f" if "map_of (ft_incoming ft') i = Some f" for i f using ft'(3) that by (auto simp: map_le_def dom_def)
  have "map_of fs0 \<subseteq>\<^sub>m map_of fs'"
  proof (unfold map_le_def, intro ballI)
    fix p assume p: "p \<in> dom (map_of fs0)"
    then have "p \<notin> set ps" using gone(2) by auto
    then show "map_of fs0 p = map_of fs' p" using ok p gone(1) by (auto simp: downloads_ok_def map_le_def)
  qed
  moreover have "in_dir dir p" if "map_of fs' p \<noteq> None" "map_of fs0 p = None" for p
    using ok that gone by (cases "p \<in> set ps") (auto simp: downloads_ok_def)
  moreover have "\<exists>c. map_of fs' (inc_temp f) = Some c \<and> inc_received f \<le> length c" if "map_of (ft_incoming ft') i = Some f" for i f
    using downloads_okD(4)[OF ok inc[OF that]] kept[OF that] gone(1) by auto
  moreover have "in_dir dir (inc_temp f) \<and> in_dir dir (inc_final f) \<and> map_of fs0 (inc_temp f) = None" if "map_of (ft_incoming ft') i = Some f" for i f
    using downloads_okD(1-3)[OF ok inc[OF that]] by blast
  moreover have "inc_temp f \<noteq> inc_temp g" if "map_of (ft_incoming ft') i = Some f" "map_of (ft_incoming ft') j = Some g" "i \<noteq> j" for i j f g
    using downloads_okD(5)[OF ok inc[OF that(1)] inc[OF that(2)] that(3)] .
  moreover have "ft_dir ft' = dir" using ok ft'(1) by (simp add: downloads_ok_def)
  ultimately show ?thesis using ft'(2) unfolding downloads_ok_def prod.case by blast
qed

lemma ok_cong:
  "downloads_ok dir fs0 (ft, fs) \<Longrightarrow> ft_dir ft' = ft_dir ft \<Longrightarrow> ft_incoming ft' = ft_incoming ft \<Longrightarrow> downloads_ok dir fs0 (ft', fs)"
  by (simp add: downloads_ok_def)

lemma clear_incoming_ok:
  assumes "downloads_ok dir fs0 s"
  shows "downloads_ok dir fs0 (clear_incoming io s)"
proof -
  obtain ft fs where s: "s = (ft, fs)" by (cases s)
  have d: "distinct (map fst (ft_incoming ft))" using assms by (simp add: s downloads_ok_def)
  have temp: "map_of fs0 p = None \<and> in_dir dir p" if "p \<in> set (map (inc_temp \<circ> snd) (ft_incoming ft))" for p
  proof -
    from that obtain i f where "(i, f) \<in> set (ft_incoming ft)" "p = inc_temp f" by auto
    then show ?thesis using d downloads_okD(1,3)[OF assms[unfolded s], of i f] by (simp add: map_of_eq_Some_iff)
  qed
  show ?thesis unfolding s clear_incoming_def prod.case
    by (rule ok_drop[OF assms[unfolded s], of _ "map (inc_temp \<circ> snd) (ft_incoming ft)"]) (use temp in \<open>auto simp: map_of_remove_files\<close>)
qed

lemma delete_le: "distinct (map fst xs) \<Longrightarrow> map_of (AList.delete i xs) \<subseteq>\<^sub>m map_of xs"
  by (simp add: delete_conv' map_le_def)

lemma other_temp:
  "downloads_ok dir fs0 (ft, fs) \<Longrightarrow> map_of (ft_incoming ft) i = Some f \<Longrightarrow> map_of (AList.delete i (ft_incoming ft)) j = Some g \<Longrightarrow> inc_temp g \<noteq> inc_temp f"
  using downloads_okD(5)[of dir fs0 ft fs i f j g] by (auto simp: delete_conv' split: if_splits)

lemma complete_file_ok:
  assumes ok: "downloads_ok dir fs0 (ft, fs)" and f: "map_of (ft_incoming ft) i = Some f"
  shows "downloads_ok dir fs0 (snd (snd (complete_file enc io provider i f (ft, fs))))"
proof -
  let ?ft = "ft\<lparr>ft_completed := ft_completed ft @ [inc_final f], ft_incoming := AList.delete i (ft_incoming ft)\<rparr>"
  have d: "distinct (map fst (ft_incoming ft))" using ok by (simp add: downloads_ok_def)
  have kept: "inc_temp g \<noteq> inc_temp f" if "map_of (ft_incoming ?ft) j = Some g" for j g using other_temp[OF ok f] that by simp
  have stays: "downloads_ok dir fs0 (?ft, fs)"
    by (rule ok_drop[OF ok, of _ "[]"]) (simp_all add: d distinct_delete delete_le)
  have moved: "downloads_ok dir fs0 (?ft, fs')" if fin: "finalize_without_replace io (inc_temp f) (inc_final f) fs = Some fs'" for fs'
  proof -
    from fin obtain c where c: "map_of fs (inc_final f) = None" "map_of fs' = (map_of fs)(inc_temp f := None, inc_final f \<mapsto> c)" by (rule finalized)
    have "map_of fs0 (inc_final f) = None"
    proof (rule ccontr)
      assume "map_of fs0 (inc_final f) \<noteq> None"
      then show False using ok c(1) by (auto simp: downloads_ok_def map_le_def dom_def)
    qed
    moreover have "inc_temp g \<noteq> inc_final f" if "map_of (ft_incoming ?ft) j = Some g" for j g
      using that downloads_okD(4)[OF ok, of j g] c(1) by (auto simp: delete_conv' split: if_splits)
    ultimately show ?thesis
      using kept c(2) downloads_okD(1-3)[OF ok f]
      by (intro ok_drop[OF ok, of _ "[inc_temp f, inc_final f]"]) (auto simp: d distinct_delete delete_le)
  qed
  show ?thesis using ok by (auto simp: complete_file_def Let_def intro: ok_cong[OF stays] ok_cong[OF moved] split: option.splits)
qed

lemma response_ok:
  assumes "downloads_ok dir fs0 s"
  shows "downloads_ok dir fs0 (snd (snd (handle_rdp_file_contents_response enc io l provider i data is_error s)))"
proof -
  obtain ft fs where s: "s = (ft, fs)" by (cases s)
  have ok: "downloads_ok dir fs0 (ft, fs)" using assms by (simp add: s)
  then have d: "distinct (map fst (ft_incoming ft))" by (simp add: downloads_ok_def)
  have failed: "downloads_ok dir fs0 (ft\<lparr>ft_incoming := AList.delete i (ft_incoming ft)\<rparr>, remove_files io [inc_temp f] fs)"
    if f: "map_of (ft_incoming ft) i = Some f" for f
    by (rule ok_drop[OF ok, of _ "[inc_temp f]"])
      (use downloads_okD(1,3)[OF ok f] other_temp[OF ok f] in \<open>auto simp: d distinct_delete delete_le map_of_remove_files\<close>)
  have sized: "downloads_ok dir fs0 (ft\<lparr>ft_incoming := AList.update i (f\<lparr>inc_total := Some n, inc_awaiting := False\<rparr>) (ft_incoming ft)\<rparr>, fs)"
    if f: "map_of (ft_incoming ft) i = Some f" for f n
    by (rule ok_drop[OF ok_update[OF ok f, of "f\<lparr>inc_total := Some n, inc_awaiting := False\<rparr>" "[]"], of _ "[]"])
      (use downloads_okD(4)[OF ok f] in \<open>auto simp: d distinct_update map_of_append_file\<close>)
  have written: "downloads_ok dir fs0 (ft\<lparr>ft_incoming := AList.update i (f\<lparr>inc_received := inc_received f + length data\<rparr>) (ft_incoming ft)\<rparr>, append_file (inc_temp f) data fs)"
    if f: "map_of (ft_incoming ft) i = Some f" for f
    using ok_update[OF ok f, of "f\<lparr>inc_received := inc_received f + length data\<rparr>" data] by simp
  have partial: "downloads_ok dir fs0 (ft, append_file (inc_temp f) part fs)" if f: "map_of (ft_incoming ft) i = Some f" for f part
    by (rule ok_drop[OF ok_update[OF ok f, of f part], of _ "[]"]) (use f in \<open>auto simp: d update_conv' map_le_def\<close>)
  show ?thesis
  proof (cases is_error)
    case True
    then show ?thesis using failed ok by (auto simp: s handle_rdp_file_contents_response_def split: option.splits intro: ok_cong)
  next
    case False
    show ?thesis
    proof (cases "map_of (ft_incoming ft) i")
      case None
      then show ?thesis using False ok by (simp add: s handle_rdp_file_contents_response_def)
    next
      case (Some f)
      have "downloads_ok dir fs0 (snd (snd (complete_file enc io provider i (f\<lparr>inc_total := Some n, inc_awaiting := False\<rparr>)
          (ft\<lparr>ft_incoming := AList.update i (f\<lparr>inc_total := Some n, inc_awaiting := False\<rparr>) (ft_incoming ft)\<rparr>, fs))))" for n
        by (rule complete_file_ok[OF sized[OF Some]]) (simp add: update_conv')
      moreover have "downloads_ok dir fs0 (snd (snd (complete_file enc io provider i (f\<lparr>inc_received := inc_received f + length data\<rparr>)
          (ft\<lparr>ft_incoming := AList.update i (f\<lparr>inc_received := inc_received f + length data\<rparr>) (ft_incoming ft)\<rparr>, append_file (inc_temp f) data fs))))"
        by (rule complete_file_ok[OF written[OF Some]]) (simp add: update_conv')
      ultimately show ?thesis
        using False ok Some partial[OF Some] sized[OF Some] written[OF Some]
        by (auto simp: s handle_rdp_file_contents_response_def apply_size_response_def Let_def split: option.splits)
    qed
  qed
qed

lemma start_file_ok:
  assumes "downloads_ok dir fs0 s"
  shows "downloads_ok dir fs0 (snd (start_file io l d s))"
proof -
  obtain ft0 fs idx desc where s: "s = (ft0, fs)" "d = (idx, desc)" by (cases s; cases d)
  obtain stream ft where a: "allocate_stream_id ft0 = (stream, ft)" by (cases "allocate_stream_id ft0")
  define name where "name = linux_filename (fd_name desc)"
  define temp where "temp = upath_join dir (temp_name name stream)"
  have ok: "downloads_ok dir fs0 (ft, fs)" using assms a by (auto simp: s allocate_stream_id_def intro: ok_cong)
  have dir: "ft_dir ft = dir" using ok by (simp add: downloads_ok_def)
  have safe: "safe_name name" by (simp add: name_def linux_filename_safe)
  have in_temp: "in_dir dir temp" using temp_name_safe[OF safe] by (auto simp: in_dir_def temp_def)
  have in_final: "in_dir dir (reserve_destination ft fs name)" using reserved_destination(1)[OF safe, of ft fs] dir by (auto simp: in_dir_def)
  have new: "downloads_ok dir fs0 (ft\<lparr>ft_incoming := AList.update i f (ft_incoming ft)\<rparr>, (temp, []) # fs)"
    if t: "temp \<notin> fst ` set fs" and f: "inc_temp f = temp" "inc_final f = reserve_destination ft fs name" "inc_received f = 0" for i f
  proof -
    have none: "map_of fs temp = None" using t by (simp add: path_absent)
    then have "map_of fs0 temp = None"
      using ok by (cases "map_of fs0 temp") (auto simp: downloads_ok_def map_le_def dom_def)
    moreover have other: False if "map_of (ft_incoming ft) j = Some g" "inc_temp g = temp" for j g using downloads_okD(4)[OF ok that(1)] that(2) none by auto
    ultimately show ?thesis
      using ok none f in_temp in_final
      by (auto simp: downloads_ok_def distinct_update update_conv' map_le_def dom_def simp del: map_of_eq_Some_iff split: if_splits dest: other other[OF _ sym])
  qed
  show ?thesis
    using ok new by (auto simp: s start_file_def a Let_def name_def[symmetric] dir temp_def[symmetric] split: option.splits)
qed

lemma start_files_ok: "downloads_ok dir fs0 s \<Longrightarrow> downloads_ok dir fs0 (snd (start_files io l ds s))"
proof (induction ds arbitrary: s)
  case (Cons d ds)
  obtain out s1 where d: "start_file io l d s = (out, s1)" by (cases "start_file io l d s")
  then have "downloads_ok dir fs0 (snd (start_files io l ds s1))" using start_file_ok[OF Cons.prems, of io l d] by (intro Cons.IH) simp
  then show ?case by (simp add: d split_def)
qed simp

lemma file_step_ok:
  assumes "downloads_ok dir fs0 s"
  shows "downloads_ok dir fs0 (file_step enc e s)"
proof -
  obtain ft fs where s: "s = (ft, fs)" by (cases s)
  obtain io l p ev where e: "e = ((io, l, p), ev)" by (metis surj_pair)
  obtain ft1 fs1 where c: "clear_incoming io s = (ft1, fs1)" by (cases "clear_incoming io s")
  have ok1: "downloads_ok dir fs0 (ft1, fs1)" using clear_incoming_ok[OF assms, of io] c by simp
  show ?thesis
  proof (cases ev)
    case (Files_arrived serial mime descriptors)
    have "downloads_ok dir fs0 (ft1\<lparr>ft_descriptors := descriptors, ft_serial := Some serial\<rparr>, fs1)" using ok1 by (rule ok_cong) simp_all
    then show ?thesis using assms c start_files_ok by (auto simp: e s Files_arrived start_download_def)
  next
    case (Contents_arrived stream data is_error)
    then show ?thesis using response_ok[OF assms] by (simp add: e)
  next
    case Connection_closed
    then show ?thesis using ok1 c by (auto simp: e clear_transfers_def intro: ok_cong)
  qed
qed

text \<open>
  C39.  Files pasted by the client never replace or change anything: whatever it announces and sends, whatever fails and however often it
  reconnects, every file that was there keeps its contents, and new paths are names directly in the download directory.
\<close>

theorem downloads_never_overwrite:
  "map_of fs0 \<subseteq>\<^sub>m map_of (snd (fold (file_step enc) events (transfer_state_new dir, fs0))) \<and>
   (\<forall>p. map_of (snd (fold (file_step enc) events (transfer_state_new dir, fs0))) p \<noteq> None \<longrightarrow> map_of fs0 p = None \<longrightarrow>
      (\<exists>n. p = upath_join dir n \<and> n \<noteq> [] \<and> 47 \<notin> set n \<and> 0 \<notin> set n \<and> n \<noteq> ascii ''.'' \<and> n \<noteq> ascii ''..''))"
proof -
  have "downloads_ok dir fs0 (transfer_state_new dir, fs0)" by (auto simp: downloads_ok_def transfer_state_new_def)
  then have "downloads_ok dir fs0 (fold (file_step enc) events (transfer_state_new dir, fs0))"
    by (intro fold_invariant[where Q = "\<lambda>_. True" and P = "downloads_ok dir fs0"]) (simp_all add: file_step_ok)
  then show ?thesis by (auto simp: downloads_ok_def in_dir_def safe_name_def split: prod.splits)
qed

section \<open>A client that answers\<close>

text \<open>
  A client that has the announced files answers each request it gets with the size or the range asked for, in any order.  The requests it has not
  answered yet and what the provider was told are kept along.
\<close>

fun is_request :: "file_output \<Rightarrow> bool" where
  "is_request (Request_contents _ _ _ _ _ _) = True"
| "is_request _ = False"

fun client_answer :: "(nat \<Rightarrow> nat list) \<Rightarrow> file_output \<Rightarrow> nat \<times> nat list" where
  "client_answer contents (Request_contents stream idx size_request pos n _) =
     (stream, if size_request then le_bytes 8 (length (contents idx)) else take n (drop pos (contents idx)))"
| "client_answer contents _ = (0, [])"

text \<open>
  An operating system that does what it is asked to, within its limits: names have at most 255 bytes (\<open>NAME_MAX\<close>) and paths, with the
  terminating zero, at most 4096 (\<open>PATH_MAX\<close>).
\<close>

definition path_fits :: "unicode \<Rightarrow> bool" where
  "path_fits p \<longleftrightarrow> utf8_len (rev (takeWhile (\<lambda>c. c \<noteq> 47) (rev p))) \<le> 255 \<and> utf8_len p < 4096"

definition working_io :: download_io where
  "working_io = \<lparr>io_mkdir = True, io_create = path_fits, io_remove = (\<lambda>_. True), io_write = None, io_flush = True, io_rename = path_fits\<rparr>"

lemma working_io_fields [simp]:
  "io_write working_io = None" "io_mkdir working_io" "io_flush working_io" "io_rename working_io = path_fits" "io_create working_io = path_fits" "io_remove working_io p"
  by (simp_all add: working_io_def)

lemma join_fits:
  assumes "safe_name n" "utf8_len n \<le> 255" "utf8_len dir \<le> 3839"
  shows "path_fits (upath_join dir n)"
proof -
  have t: "takeWhile (\<lambda>c. c \<noteq> 47) (rev n @ xs) = rev n @ takeWhile (\<lambda>c. c \<noteq> 47) xs" for xs
    using assms(1) by (auto simp: safe_name_def takeWhile_append)
  have "takeWhile (\<lambda>c. c \<noteq> 47) (rev dir) = []" if "last dir = 47" using that by (cases "dir = []") (simp_all add: hd_rev takeWhile_eq_Nil_iff)
  then show ?thesis using assms t by (auto simp: path_fits_def join_safe utf8_char_def)
qed

lemma long_name_does_not_fit: "safe_name n \<Longrightarrow> 255 < utf8_len n \<Longrightarrow> \<not> path_fits (upath_join dir n)"
  by (auto simp: path_fits_def join_safe safe_name_def takeWhile_append)

definition answer_one ::
  "(unicode \<Rightarrow> unicode) \<Rightarrow> (nat \<Rightarrow> nat list) \<Rightarrow> nat \<Rightarrow> (file_transfer_state \<times> files) \<times> file_output list \<times> file_output list \<Rightarrow>
     (file_transfer_state \<times> files) \<times> file_output list \<times> file_output list" where
  "answer_one enc contents k st = (case st of (s, requests, told) \<Rightarrow>
     (if requests = [] then st
      else let r = requests ! (k mod length requests); (stream, data) = client_answer contents r;
               (_, outs, s') = handle_rdp_file_contents_response enc working_io Connected True stream data False s
           in (s', remove1 r requests @ filter is_request outs, told @ filter (\<lambda>x. \<not> is_request x) outs)))"

definition request_of :: "nat \<times> incoming_file \<Rightarrow> file_output" where
  "request_of = (\<lambda>(i, f). Request_contents i (contents_index (inc_index f)) (inc_awaiting f) (inc_received f)
     (if inc_awaiting f then 8 else min (the (inc_total f) - inc_received f) MAX_RANGE) (inc_data_id f))"

definition fetching :: "(nat \<Rightarrow> nat list) \<Rightarrow> files \<Rightarrow> incoming_file \<Rightarrow> bool" where
  "fetching contents fs f \<longleftrightarrow> inc_index f < 2 ^ 31 \<and> length (contents (inc_index f)) < 2 ^ 64 \<and> map_of fs (inc_final f) = None \<and> path_fits (inc_final f) \<and>
     map_of fs (inc_temp f) = Some (take (inc_received f) (contents (inc_index f))) \<and>
     (if inc_awaiting f then inc_received f = 0
      else inc_total f = Some (length (contents (inc_index f))) \<and> inc_received f < length (contents (inc_index f)))"

definition apart :: "(nat \<times> incoming_file) multiset \<Rightarrow> bool" where
  "apart R \<longleftrightarrow> (\<forall>i f j g. (i, f) \<in># R \<longrightarrow> (j, g) \<in># R \<longrightarrow> i \<noteq> j \<longrightarrow> inc_temp f \<noteq> inc_temp g \<and> inc_final f \<noteq> inc_final g)"

definition delivering :: "(nat \<Rightarrow> nat list) \<Rightarrow> nat multiset \<Rightarrow> nat \<Rightarrow> (nat \<times> unicode) list \<Rightarrow> file_transfer_state \<times> files \<Rightarrow> bool" where
  "delivering contents idxs serial dn = (\<lambda>(ft, fs).
     distinct (map fst (ft_incoming ft)) \<and> ft_serial ft = Some serial \<and> ft_completed ft = map snd dn \<and> distinct (map snd dn) \<and>
     (\<forall>(i, f) \<in> set (ft_incoming ft). fetching contents fs f \<and> inc_temp f \<notin> snd ` set dn) \<and> apart (mset (ft_incoming ft)) \<and>
     (\<forall>(x, p) \<in> set dn. map_of fs p = Some (contents x)) \<and>
     mset (map fst dn) + image_mset (inc_index \<circ> snd) (mset (ft_incoming ft)) = idxs)"

definition work :: "(nat \<Rightarrow> nat list) \<Rightarrow> incoming_file \<Rightarrow> nat" where
  "work contents f = (if inc_awaiting f then 1 else 0) + (length (contents (inc_index f)) - inc_received f + MAX_RANGE - 1) div MAX_RANGE"

definition work_left :: "(nat \<Rightarrow> nat list) \<Rightarrow> file_transfer_state \<Rightarrow> nat" where
  "work_left contents ft = sum_list (map (work contents \<circ> snd) (ft_incoming ft))"

lemma alist_middle:
  "i \<notin> fst ` set xs \<Longrightarrow> AList.update i g (xs @ (i, f) # ys) = xs @ (i, g) # ys"
  "i \<notin> fst ` set xs \<Longrightarrow> i \<notin> fst ` set ys \<Longrightarrow> AList.delete i (xs @ (i, f) # ys) = xs @ ys"
  by (induction xs) auto

lemma delete_update_same: "AList.delete i (AList.update i g al) = AList.delete i al"
  by (induction al) auto

lemma mset_alist:
  assumes "distinct (map fst al)" "(i, f) \<in> set al"
  obtains R where "mset al = add_mset (i, f) R" "\<And>g. mset (AList.update i g al) = add_mset (i, g) R" "mset (AList.delete i al) = R" "\<forall>(j, h) \<in># R. j \<noteq> i"
proof -
  from assms(2) obtain xs ys where al: "al = xs @ (i, f) # ys" by (meson split_list)
  have "i \<notin> fst ` set xs" "i \<notin> fst ` set ys" using assms(1) by (auto simp: al)
  with al that[of "mset xs + mset ys"] show thesis by (force simp: alist_middle)
qed

text \<open>One file of the batch makes progress while the others stay.\<close>

lemma apart_add:
  assumes "\<forall>(j, h) \<in># R. j \<noteq> i"
  shows "apart (add_mset (i, f) R) \<longleftrightarrow> apart R \<and> (\<forall>(j, h) \<in># R. inc_temp h \<noteq> inc_temp f \<and> inc_final h \<noteq> inc_final f)"
proof
  assume a: "apart (add_mset (i, f) R)"
  have "inc_temp h \<noteq> inc_temp f \<and> inc_final h \<noteq> inc_final f" if "(j, h) \<in># R" for j h
    using a[unfolded apart_def, rule_format, of j h i f] assms that by auto
  moreover have "apart R" unfolding apart_def
  proof (intro allI impI)
    fix j g k h assume "(j, g) \<in># R" "(k, h) \<in># R" "j \<noteq> k"
    then show "inc_temp g \<noteq> inc_temp h \<and> inc_final g \<noteq> inc_final h" using a[unfolded apart_def, rule_format, of j g k h] by simp
  qed
  ultimately show "apart R \<and> (\<forall>(j, h) \<in># R. inc_temp h \<noteq> inc_temp f \<and> inc_final h \<noteq> inc_final f)" by blast
next
  assume a: "apart R \<and> (\<forall>(j, h) \<in># R. inc_temp h \<noteq> inc_temp f \<and> inc_final h \<noteq> inc_final f)"
  have f: "inc_temp h \<noteq> inc_temp f \<and> inc_final h \<noteq> inc_final f" if "(j, h) \<in># R" for j h using a that by blast
  show "apart (add_mset (i, f) R)" unfolding apart_def
  proof (intro allI impI)
    fix j g k h assume m: "(j, g) \<in># add_mset (i, f) R" "(k, h) \<in># add_mset (i, f) R" "j \<noteq> k"
    then consider "g = f" "(k, h) \<in># R" | "h = f" "(j, g) \<in># R" | "(j, g) \<in># R" "(k, h) \<in># R" by auto
    then show "inc_temp g \<noteq> inc_temp h \<and> inc_final g \<noteq> inc_final h"
    proof cases
      case 3
      then show ?thesis using a m(3) unfolding apart_def by blast
    qed (metis f)+
  qed
qed

definition rest_of_batch :: "(nat \<Rightarrow> nat list) \<Rightarrow> files \<Rightarrow> (nat \<times> unicode) list \<Rightarrow> nat \<Rightarrow> incoming_file \<Rightarrow> (nat \<times> incoming_file) multiset \<Rightarrow> bool" where
  "rest_of_batch contents fs dn i f R \<longleftrightarrow>
     (\<forall>(j, h) \<in># R. j \<noteq> i \<and> fetching contents fs h \<and> inc_temp h \<notin> snd ` set dn \<and> inc_temp h \<noteq> inc_temp f \<and> inc_final h \<noteq> inc_final f) \<and> apart R \<and>
     fetching contents fs f \<and> inc_temp f \<notin> snd ` set dn"

lemma rest_member: "rest_of_batch contents fs dn i f R \<Longrightarrow> (j, h) \<in># R \<Longrightarrow>
  j \<noteq> i \<and> fetching contents fs h \<and> inc_temp h \<notin> snd ` set dn \<and> inc_temp h \<noteq> inc_temp f \<and> inc_final h \<noteq> inc_final f"
  by (auto simp: rest_of_batch_def)

lemma delivering_parts:
  assumes "delivering contents idxs serial dn (ft, fs)" "(i, f) \<in> set (ft_incoming ft)"
  obtains R where "mset (ft_incoming ft) = add_mset (i, f) R" "\<And>g. mset (AList.update i g (ft_incoming ft)) = add_mset (i, g) R"
    "mset (AList.delete i (ft_incoming ft)) = R" "rest_of_batch contents fs dn i f R"
    "mset (map fst dn) + add_mset (inc_index f) (image_mset (inc_index \<circ> snd) R) = idxs"
proof -
  have d: "distinct (map fst (ft_incoming ft))" using assms(1) by (simp add: delivering_def)
  obtain R where R: "mset (ft_incoming ft) = add_mset (i, f) R" "\<And>g. mset (AList.update i g (ft_incoming ft)) = add_mset (i, g) R"
    "mset (AList.delete i (ft_incoming ft)) = R" "\<forall>(j, h) \<in># R. j \<noteq> i" by (rule mset_alist[OF d assms(2)]) blast
  have "set (ft_incoming ft) = insert (i, f) (set_mset R)" using R(1) by (metis set_mset_add_mset_insert set_mset_mset)
  moreover have "apart (add_mset (i, f) R)" using assms(1) R(1) by (simp add: delivering_def)
  ultimately have "rest_of_batch contents fs dn i f R" using assms(1) R(4) by (auto simp: delivering_def rest_of_batch_def apart_add)
  moreover have "mset (map fst dn) + add_mset (inc_index f) (image_mset (inc_index \<circ> snd) R) = idxs" using assms(1) R(1) by (simp add: delivering_def)
  ultimately show thesis using that R by blast
qed

lemma rest_changed:
  assumes "rest_of_batch contents fs dn i f R" "\<And>q. q \<noteq> inc_temp f \<Longrightarrow> q \<noteq> inc_final f \<Longrightarrow> map_of fs' q = map_of fs q" "(j, h) \<in># R"
  shows "fetching contents fs' h"
proof -
  have h: "fetching contents fs h" "inc_temp h \<noteq> inc_temp f" "inc_final h \<noteq> inc_final f" using rest_member[OF assms(1,3)] by auto
  moreover have "fetching contents fs f" using assms(1) by (simp add: rest_of_batch_def)
  ultimately have "inc_final h \<noteq> inc_temp f" "inc_temp h \<noteq> inc_final f" by (auto simp: fetching_def)
  with h show ?thesis using assms(2)[of "inc_temp h"] assms(2)[of "inc_final h"] by (simp add: fetching_def)
qed

lemma completed_changed:
  assumes "delivering contents idxs serial dn (ft, fs)" "rest_of_batch contents fs dn i f R" "(x, p) \<in> set dn"
    "\<And>q. q \<noteq> inc_temp f \<Longrightarrow> q \<noteq> inc_final f \<Longrightarrow> map_of fs' q = map_of fs q"
  shows "map_of fs' p = Some (contents x)" "p \<noteq> inc_final f"
proof -
  have p: "map_of fs p = Some (contents x)" using assms(1,3) by (auto simp: delivering_def)
  moreover have "p \<noteq> inc_temp f" using assms(2,3) by (force simp: rest_of_batch_def)
  moreover have "map_of fs (inc_final f) = None" using assms(2) by (simp add: rest_of_batch_def fetching_def)
  ultimately show "map_of fs' p = Some (contents x)" "p \<noteq> inc_final f" using assms(4)[of p] by (cases "p = inc_final f"; simp)+
qed

lemma delivering_update:
  assumes d: "delivering contents idxs serial dn (ft, fs)" and f: "(i, f) \<in> set (ft_incoming ft)"
    and g: "fetching contents fs' g" "inc_temp g = inc_temp f" "inc_final g = inc_final f" "inc_index g = inc_index f"
    and fs': "\<And>p. p \<noteq> inc_temp f \<Longrightarrow> map_of fs' p = map_of fs p"
  shows "delivering contents idxs serial dn (ft\<lparr>ft_incoming := AList.update i g (ft_incoming ft)\<rparr>, fs')"
proof -
  obtain R where R: "mset (ft_incoming ft) = add_mset (i, f) R" "\<And>g. mset (AList.update i g (ft_incoming ft)) = add_mset (i, g) R"
    "mset (AList.delete i (ft_incoming ft)) = R" "rest_of_batch contents fs dn i f R"
    "mset (map fst dn) + add_mset (inc_index f) (image_mset (inc_index \<circ> snd) R) = idxs"
    by (rule delivering_parts[OF d f]) blast
  have u: "set (AList.update i g (ft_incoming ft)) = insert (i, g) (set_mset R)" using R(2)[of g] by (metis set_mset_add_mset_insert set_mset_mset)
  have rest: "fetching contents fs' h" if "(j, h) \<in># R" for j h using rest_changed[OF R(4) _ that] fs' by blast
  have ap: "apart (add_mset (i, g) R)" using R(4) g(2,3) by (subst apart_add) (auto simp: rest_of_batch_def)
  have "\<forall>(j, h) \<in> set (AList.update i g (ft_incoming ft)). fetching contents fs' h \<and> inc_temp h \<notin> snd ` set dn"
    unfolding u using rest rest_member[OF R(4)] g(1,2) R(4) by (auto simp: rest_of_batch_def)
  moreover have "\<forall>(x, p) \<in> set dn. map_of fs' p = Some (contents x)" using completed_changed(1)[OF d R(4)] fs' by blast
  ultimately show ?thesis using d ap g(4) R(2,5) by (simp add: delivering_def distinct_update)
qed

text \<open>A file is complete.\<close>

definition batch_delivered ::
  "(unicode \<Rightarrow> unicode) \<Rightarrow> (nat \<Rightarrow> nat list) \<Rightarrow> nat multiset \<Rightarrow> nat \<Rightarrow> (nat \<times> unicode) list \<Rightarrow> file_output list \<Rightarrow> files \<Rightarrow> bool" where
  "batch_delivered enc contents idxs serial dn outs fs \<longleftrightarrow>
     outs = [Complete_transfer serial (ascii ''x-special/gnome-copied-files'') (to_utf8 (copied_files enc (map snd dn))) True] \<and>
     distinct (map snd dn) \<and> (\<forall>(x, p) \<in> set dn. map_of fs p = Some (contents x)) \<and> mset (map fst dn) = idxs"

lemma completing:
  assumes d: "delivering contents idxs serial dn (ft, fs)" and f: "(i, f) \<in> set (ft_incoming ft)"
    and g: "inc_temp g = inc_temp f" "inc_final g = inc_final f" "inc_index g = inc_index f"
    and fs1: "\<And>p. p \<noteq> inc_temp f \<Longrightarrow> map_of fs1 p = map_of fs p" "map_of fs1 (inc_temp f) = Some (contents (inc_index f))"
  defines "dn' \<equiv> dn @ [(inc_index f, inc_final f)]"
    and "ft1 \<equiv> ft\<lparr>ft_incoming := AList.update i g (ft_incoming ft)\<rparr>"
  shows "\<exists>outs ft' fs'. complete_file enc working_io True i g (ft1, fs1) = (Ok (), outs, ft', fs') \<and>
      (if ft_incoming ft' = [] then mset (AList.delete i (ft_incoming ft)) = {#} \<and> batch_delivered enc contents idxs serial dn' outs fs'
       else delivering contents idxs serial dn' (ft', fs') \<and> outs = [] \<and> mset (ft_incoming ft') = mset (AList.delete i (ft_incoming ft)))"
proof -
  obtain R where R: "mset (ft_incoming ft) = add_mset (i, f) R" "mset (AList.delete i (ft_incoming ft)) = R" "rest_of_batch contents fs dn i f R"
    "mset (map fst dn) + add_mset (inc_index f) (image_mset (inc_index \<circ> snd) R) = idxs"
    by (rule delivering_parts[OF d f]) blast
  have free: "map_of fs (inc_final f) = None" "inc_final f \<noteq> inc_temp f" "path_fits (inc_final f)" using R(3) by (auto simp: rest_of_batch_def fetching_def)
  then have "inc_final f \<notin> fst ` set fs1" using fs1(1)[of "inc_final f"] by (simp add: path_absent)
  define fs' where "fs' = (inc_final f, contents (inc_index f)) # AList.delete (inc_temp f) fs1"
  have fin: "finalize_without_replace working_io (inc_temp g) (inc_final g) fs1 = Some fs'"
    using fs1(2) g \<open>inc_final f \<notin> fst ` set fs1\<close> free(3) by (simp add: finalize_without_replace_def fs'_def)
  have m: "map_of fs' p = map_of fs p" if "p \<noteq> inc_temp f" "p \<noteq> inc_final f" for p using that fs1(1) by (simp add: fs'_def delete_conv')
  have del: "AList.delete i (AList.update i g (ft_incoming ft)) = AList.delete i (ft_incoming ft)" by (rule delete_update_same)
  have all: "\<forall>(x, p) \<in> set dn'. map_of fs' p = Some (contents x)"
  proof -
    have "map_of fs' (inc_final f) = Some (contents (inc_index f))" by (simp add: fs'_def)
    then show ?thesis using completed_changed(1)[OF d R(3) _ m] by (auto simp: dn'_def)
  qed
  have "inc_final f \<notin> snd ` set dn" using completed_changed(2)[OF d R(3) _ m] by force
  then have dist: "distinct (map snd dn')" using d by (simp add: dn'_def delivering_def)
  have comp: "ft_completed ft @ [inc_final g] = map snd dn'" using d g(2) by (simp add: delivering_def dn'_def)
  let ?ft' = "if AList.delete i (ft_incoming ft) = [] then ft1\<lparr>ft_completed := [], ft_incoming := [], ft_serial := None\<rparr>
    else ft1\<lparr>ft_completed := map snd dn', ft_incoming := AList.delete i (ft_incoming ft)\<rparr>"
  have c: "complete_file enc working_io True i g (ft1, fs1) =
      (Ok (), if AList.delete i (ft_incoming ft) = [] then [Complete_transfer serial (ascii ''x-special/gnome-copied-files'') (to_utf8 (copied_files enc (map snd dn'))) True] else [], ?ft', fs')"
    using fin comp d by (simp add: complete_file_def ft1_def del Let_def delivering_def)
  have "mset (map fst dn') = idxs" if "AList.delete i (ft_incoming ft) = []" using R(2,4) that by (simp add: dn'_def)
  moreover have "delivering contents idxs serial dn' (?ft', fs')" if "AList.delete i (ft_incoming ft) \<noteq> []"
  proof -
    have s: "set (AList.delete i (ft_incoming ft)) = set_mset R" using R(2) by (metis set_mset_mset)
    have "fetching contents fs' h \<and> inc_temp h \<notin> snd ` set dn'" if "(j, h) \<in># R" for j h
    proof -
      have "fetching contents fs h" "inc_temp h \<notin> snd ` set dn" using rest_member[OF R(3) that] by auto
      then have "inc_temp h \<noteq> inc_final f" using free(1) by (auto simp: fetching_def)
      with rest_changed[OF R(3) m that] \<open>inc_temp h \<notin> snd ` set dn\<close> show ?thesis by (simp add: dn'_def)
    qed
    moreover have "apart (mset (AList.delete i (ft_incoming ft)))" using R(2,3) by (simp add: rest_of_batch_def)
    ultimately show ?thesis
      using d R(2,4) dist all that by (auto simp: delivering_def s ft1_def distinct_delete dn'_def)
  qed
  ultimately show ?thesis using c dist all by (auto simp: batch_delivered_def)
qed

section \<open>Everything arrives\<close>

lemma work_next:
  assumes "r < n"
  shows "(n - (r + min (n - r) MAX_RANGE) + MAX_RANGE - 1) div MAX_RANGE < (n - r + MAX_RANGE - 1) div MAX_RANGE"
proof (cases "n - r \<le> MAX_RANGE")
  case True
  have "0 < MAX_RANGE" by (simp add: MAX_RANGE_def)
  then show ?thesis using True assms by (simp add: div_greater_zero_iff)
next
  case False
  then obtain k where "n - r = k + MAX_RANGE" "0 < k" by (metis add.commute le_add_diff_inverse less_diff_conv nat_le_linear not_le add_0)
  then have "n - (r + min (n - r) MAX_RANGE) = k" "0 < MAX_RANGE" by (simp_all add: MAX_RANGE_def)
  moreover have "k + MAX_RANGE + MAX_RANGE - 1 = (k + MAX_RANGE - 1) + MAX_RANGE" using \<open>0 < k\<close> by simp
  ultimately show ?thesis using \<open>n - r = k + MAX_RANGE\<close> by (simp only: div_add_self2)
qed

lemma work_pos: "fetching contents fs f \<Longrightarrow> 0 < work contents f"
  using work_next[of "inc_received f" "length (contents (inc_index f))"] by (auto simp: work_def fetching_def split: if_splits)

lemma answered:
  assumes d: "delivering contents idxs serial dn (ft, fs)" and f: "(i, f) \<in> set (ft_incoming ft)"
    and a: "client_answer contents (request_of (i, f)) = (i', data)"
  shows "\<exists>outs ft' fs' dn' R. handle_rdp_file_contents_response enc working_io Connected True i' data False (ft, fs) = (Ok (), outs, ft', fs') \<and>
    mset (ft_incoming ft) = add_mset (i, f) R \<and>
    (if ft_incoming ft' = [] then R = {#} \<and> batch_delivered enc contents idxs serial dn' outs fs'
     else delivering contents idxs serial dn' (ft', fs') \<and>
       (outs = [] \<and> mset (ft_incoming ft') = R \<or> (\<exists>g. outs = [request_of (i, g)] \<and> mset (ft_incoming ft') = add_mset (i, g) R \<and> work contents g < work contents f)))"
proof -
  obtain R where R: "mset (ft_incoming ft) = add_mset (i, f) R" "\<And>g. mset (AList.update i g (ft_incoming ft)) = add_mset (i, g) R"
    "mset (AList.delete i (ft_incoming ft)) = R" "rest_of_batch contents fs dn i f R"
    by (rule delivering_parts[OF d f]) blast
  define C where "C = contents (inc_index f)"
  have F: "fetching contents fs f" using R(4) by (simp add: rest_of_batch_def)
  then have idx: "contents_index (inc_index f) = inc_index f" and len: "length C < 2 ^ 64" by (simp_all add: fetching_def contents_index_def C_def)
  have dist: "distinct (map fst (ft_incoming ft))" using d by (simp add: delivering_def)
  then have m: "map_of (ft_incoming ft) i = Some f" using f by simp
  have i': "i' = i" using a by (simp add: request_of_def)
  show ?thesis
  proof (cases "inc_awaiting f")
    case True
    then have data: "data = le_bytes 8 (length C)" using a by (simp add: request_of_def idx C_def)
    then have size: "from_le data = length C" "length data = 8" using len from_le_small[of "length C" 8] by simp_all
    define g where "g = f\<lparr>inc_total := Some (length C), inc_awaiting := False\<rparr>"
    have r: "inc_received f = 0" "map_of fs (inc_temp f) = Some []" using F True by (simp_all add: fetching_def)
    have h: "handle_rdp_file_contents_response enc working_io Connected True i' data False (ft, fs) =
      (if 0 < length C then (Ok (), [request_of (i, g)], ft\<lparr>ft_incoming := AList.update i g (ft_incoming ft)\<rparr>, fs)
       else complete_file enc working_io True i g (ft\<lparr>ft_incoming := AList.update i g (ft_incoming ft)\<rparr>, fs))"
      by (simp add: handle_rdp_file_contents_response_def i' m True apply_size_response_def size g_def Let_def send_output_def request_of_def r)
    show ?thesis
    proof (cases "C = []")
      case True
      with r have "map_of fs (inc_temp f) = Some (contents (inc_index f))" by (simp add: C_def)
      from completing[OF d f _ _ _ _ this, of g enc, unfolded R(3)] obtain outs ft' fs' where
        "complete_file enc working_io True i g (ft\<lparr>ft_incoming := AList.update i g (ft_incoming ft)\<rparr>, fs) = (Ok (), outs, ft', fs')"
        "if ft_incoming ft' = [] then R = {#} \<and> batch_delivered enc contents idxs serial (dn @ [(inc_index f, inc_final f)]) outs fs'
         else delivering contents idxs serial (dn @ [(inc_index f, inc_final f)]) (ft', fs') \<and> outs = [] \<and> mset (ft_incoming ft') = R"
        by (auto simp: g_def)
      then show ?thesis unfolding h using True R(1) by (intro exI[of _ outs] exI[of _ ft'] exI[of _ fs'] exI[of _ "dn @ [(inc_index f, inc_final f)]"] exI[of _ R]) auto
    next
      case False
      then have "fetching contents fs g" using F r by (simp add: fetching_def g_def C_def)
      then have "delivering contents idxs serial dn (ft\<lparr>ft_incoming := AList.update i g (ft_incoming ft)\<rparr>, fs)"
        by (rule delivering_update[OF d f]) (simp_all add: g_def)
      moreover have "work contents g < work contents f" using True by (simp add: work_def g_def)
      moreover have "AList.update i g (ft_incoming ft) \<noteq> []" by (simp add: update_nonempty)
      ultimately show ?thesis unfolding h using False R(1) R(2)[of g] by (intro exI[of _ "[request_of (i, g)]"] exI[of _ "ft\<lparr>ft_incoming := AList.update i g (ft_incoming ft)\<rparr>"] exI[of _ fs] exI[of _ dn] exI[of _ R]) auto
    qed
  next
    case False
    have r: "inc_received f < length C" "inc_total f = Some (length C)" "map_of fs (inc_temp f) = Some (take (inc_received f) C)"
      using F False by (simp_all add: fetching_def C_def)
    then have data: "data = take (min (length C - inc_received f) MAX_RANGE) (drop (inc_received f) C)" using a False by (simp add: request_of_def idx C_def)
    then have size: "length data = min (length C - inc_received f) MAX_RANGE" by simp
    define g where "g = f\<lparr>inc_received := inc_received f + length data\<rparr>"
    define fs1 where "fs1 = append_file (inc_temp f) data fs"
    have fs1: "map_of fs1 p = map_of fs p" if "p \<noteq> inc_temp f" for p using that by (simp add: fs1_def map_of_append_file)
    have grown: "map_of fs1 (inc_temp f) = Some (take (inc_received g) C)" using r(3) data by (simp add: fs1_def map_of_append_file g_def take_add size)
    have h: "handle_rdp_file_contents_response enc working_io Connected True i' data False (ft, fs) =
      (if length C \<le> inc_received g then complete_file enc working_io True i g (ft\<lparr>ft_incoming := AList.update i g (ft_incoming ft)\<rparr>, fs1)
       else (Ok (), [request_of (i, g)], ft\<lparr>ft_incoming := AList.update i g (ft_incoming ft)\<rparr>, fs1))"
      using r(2) by (simp add: handle_rdp_file_contents_response_def i' m False g_def fs1_def Let_def next_range_def send_output_def request_of_def)
    show ?thesis
    proof (cases "length C \<le> inc_received g")
      case True
      with grown have "map_of fs1 (inc_temp f) = Some (contents (inc_index f))" by (simp add: C_def)
      from completing[OF d f _ _ _ fs1 this, of g enc, unfolded R(3)] obtain outs ft' fs' where
        "complete_file enc working_io True i g (ft\<lparr>ft_incoming := AList.update i g (ft_incoming ft)\<rparr>, fs1) = (Ok (), outs, ft', fs')"
        "if ft_incoming ft' = [] then R = {#} \<and> batch_delivered enc contents idxs serial (dn @ [(inc_index f, inc_final f)]) outs fs'
         else delivering contents idxs serial (dn @ [(inc_index f, inc_final f)]) (ft', fs') \<and> outs = [] \<and> mset (ft_incoming ft') = R"
        by (auto simp: g_def)
      then show ?thesis unfolding h using True R(1) by (intro exI[of _ outs] exI[of _ ft'] exI[of _ fs'] exI[of _ "dn @ [(inc_index f, inc_final f)]"] exI[of _ R]) auto
    next
      case less: False
      moreover have "inc_final f \<noteq> inc_temp f" using F by (auto simp: fetching_def)
      ultimately have "fetching contents fs1 g" using F False fs1[of "inc_final f"] grown by (simp add: fetching_def g_def C_def)
      then have "delivering contents idxs serial dn (ft\<lparr>ft_incoming := AList.update i g (ft_incoming ft)\<rparr>, fs1)"
        by (rule delivering_update[OF d f]) (simp_all add: g_def fs1)
      moreover have "work contents g < work contents f" using False work_next[OF r(1)] by (simp add: work_def g_def size C_def)
      moreover have "AList.update i g (ft_incoming ft) \<noteq> []" by (simp add: update_nonempty)
      ultimately show ?thesis unfolding h using less R(1) R(2)[of g] by (intro exI[of _ "[request_of (i, g)]"] exI[of _ "ft\<lparr>ft_incoming := AList.update i g (ft_incoming ft)\<rparr>"] exI[of _ fs1] exI[of _ dn] exI[of _ R]) auto
    qed
  qed
qed

definition batch_state :: "(unicode \<Rightarrow> unicode) \<Rightarrow> (nat \<Rightarrow> nat list) \<Rightarrow> nat multiset \<Rightarrow> nat \<Rightarrow> nat \<Rightarrow> (file_transfer_state \<times> files) \<times> file_output list \<times> file_output list \<Rightarrow> bool" where
  "batch_state enc contents idxs serial n = (\<lambda>((ft, fs), requests, told). \<exists>dn.
     if ft_incoming ft = [] then requests = [] \<and> batch_delivered enc contents idxs serial dn told fs
     else delivering contents idxs serial dn (ft, fs) \<and> mset requests = image_mset request_of (mset (ft_incoming ft)) \<and> told = [] \<and>
       sum_mset (image_mset (work contents \<circ> snd) (mset (ft_incoming ft))) \<le> n)"

lemma batch_progress:
  assumes "batch_state enc contents idxs serial (Suc n) st"
  shows "batch_state enc contents idxs serial n (answer_one enc contents k st)"
proof -
  obtain ft fs requests told where st: "st = ((ft, fs), requests, told)" by (metis surj_pair)
  show ?thesis
  proof (cases "ft_incoming ft = []")
    case True
    then show ?thesis using assms by (simp add: st batch_state_def answer_one_def)
  next
    case False
    then obtain dn where d: "delivering contents idxs serial dn (ft, fs)" and q: "mset requests = image_mset request_of (mset (ft_incoming ft))" and told: "told = []"
      and w: "sum_mset (image_mset (work contents \<circ> snd) (mset (ft_incoming ft))) \<le> Suc n" using assms by (auto simp: st batch_state_def)
    have ne: "requests \<noteq> []" using q False by auto
    define r where "r = requests ! (k mod length requests)"
    have "r \<in># mset requests" using ne by (simp add: r_def)
    then obtain i f where f: "(i, f) \<in> set (ft_incoming ft)" and r: "r = request_of (i, f)" unfolding q by auto
    obtain i' data where a: "client_answer contents (request_of (i, f)) = (i', data)" by (cases "client_answer contents (request_of (i, f))")
    from answered[OF d f a, of enc] obtain outs ft' fs' dn' R where
      h: "handle_rdp_file_contents_response enc working_io Connected True i' data False (ft, fs) = (Ok (), outs, ft', fs')" and R: "mset (ft_incoming ft) = add_mset (i, f) R"
      and c: "if ft_incoming ft' = [] then R = {#} \<and> batch_delivered enc contents idxs serial dn' outs fs'
        else delivering contents idxs serial dn' (ft', fs') \<and>
          (outs = [] \<and> mset (ft_incoming ft') = R \<or> (\<exists>g. outs = [request_of (i, g)] \<and> mset (ft_incoming ft') = add_mset (i, g) R \<and> work contents g < work contents f))"
      by blast
    have step: "answer_one enc contents k st = ((ft', fs'), remove1 r requests @ filter is_request outs, filter (\<lambda>x. \<not> is_request x) outs)"
      using ne a h by (simp add: st answer_one_def Let_def told r_def[symmetric] r)
    have rest: "mset (remove1 r requests) = image_mset request_of R" using q R r by simp
    have req: "is_request (request_of x)" for x by (cases x) (simp add: request_of_def)
    have "fetching contents fs f" using d f by (auto simp: delivering_def)
    then have pos: "0 < work contents f" by (rule work_pos)
    show ?thesis
    proof (cases "ft_incoming ft' = []")
      case True
      then have "R = {#}" "batch_delivered enc contents idxs serial dn' outs fs'" using c by auto
      moreover from this(1) have "remove1 r requests = []" using rest by (metis image_mset_empty mset_zero_iff)
      ultimately show ?thesis using True unfolding step batch_state_def by (auto simp: batch_delivered_def)
    next
      case False
      then consider "outs = []" "mset (ft_incoming ft') = R" | g where "outs = [request_of (i, g)]" "mset (ft_incoming ft') = add_mset (i, g) R" "work contents g < work contents f"
        using c by auto
      then show ?thesis using False c rest w R pos req unfolding step batch_state_def by cases auto
    qed
  qed
qed

section \<open>The batch starts\<close>

lemma update_new: "i \<notin> fst ` set al \<Longrightarrow> mset (AList.update i f al) = add_mset (i, f) (mset al)"
  by (induction al) auto

lemma temp_name_id: "temp_name f i = temp_name g j \<Longrightarrow> i = j"
proof -
  assume "temp_name f i = temp_name g j"
  then have "f @ 46 # ascii (show_nat i) = g @ 46 # ascii (show_nat j)" by (simp add: temp_name_def)
  moreover have "46 \<notin> set (ascii (show_nat n))" for n using show_nat_digits[of _ n] by (fastforce simp: ascii_def char_is_ascii_digit_def)
  ultimately show "i = j" using rsplit_dot_Some[of "f @ 46 # ascii (show_nat i)"] by (metis ascii_inj option.inject prod.inject show_nat_inj)
qed

text \<open>
  Names of temporary files.  A numbered name is never one, and the names that are chosen for a file of at most 239 bytes have at most 255.
\<close>

definition temporary :: "unicode \<Rightarrow> bool" where
  "temporary n \<longleftrightarrow> (\<exists>f i. n = temp_name f i)"

lemma temporary_parts: "temporary n \<Longrightarrow> \<exists>f i. rsplit_dot n = Some (46 # f @ 46 # ascii (show_nat i), ascii ''tmp'')"
  unfolding temporary_def temp_name_def by (auto simp: rsplit_dot_Some) (auto simp: ascii_def)

lemma digits_no_paren: "ascii (show_nat i) \<noteq> [] \<and> last (ascii (show_nat i)) \<noteq> 41"
proof -
  have "char_is_ascii_digit (last (show_nat i))" using show_nat_digits[OF last_in_set[OF show_nat_not_Nil]] .
  then show ?thesis by (auto simp: ascii_def last_map char_is_ascii_digit_def)
qed

lemma numbered_not_temporary:
  assumes "\<And>e. ext = Some e \<Longrightarrow> 46 \<notin> set e"
  shows "\<not> temporary (numbered_name stem ext k)"
proof
  assume "temporary (numbered_name stem ext k)"
  then obtain f i where p: "rsplit_dot (numbered_name stem ext k) = Some (46 # f @ 46 # ascii (show_nat i), ascii ''tmp'')" using temporary_parts by blast
  let ?base = "stem @ ascii '' ('' @ ascii (show_nat k) @ ascii '')''"
  show False
  proof (cases ext)
    case (Some e)
    then have "rsplit_dot (numbered_name stem ext k) = Some (?base, e)" using assms by (simp add: rsplit_dot_Some numbered_name_def)
    with p have "last ?base = last (46 # f @ 46 # ascii (show_nat i))" by simp
    then show False using digits_no_paren[of i] by (auto simp: ascii_def)
  next
    case None
    with p have "?base = (46 # f @ 46 # ascii (show_nat i)) @ 46 # ascii ''tmp''" by (simp add: rsplit_dot_Some numbered_name_def)
    then have "last ?base = last (46 # ascii ''tmp'')" by (metis last_appendR list.distinct(1))
    then show False by (simp add: ascii_def)
  qed
qed

lemma utf8_len_plain: "utf8_len (ascii (show_nat k)) = length (show_nat k)"
proof -
  have "utf8_len (ascii s) = length s" if "\<forall>c \<in> set s. char_is_ascii_digit c" for s
    using that by (induction s) (simp_all add: ascii_def utf8_char_def char_is_ascii_digit_def)
  then show ?thesis using show_nat_digits by blast
qed

lemma utf8_len_numbered: "utf8_len (numbered_name stem ext k) = utf8_len stem + 3 + length (show_nat k) + (case ext of None \<Rightarrow> 0 | Some e \<Rightarrow> 1 + utf8_len e)"
  using utf8_len_plain[of k] by (simp add: numbered_name_def split: option.split) (simp add: ascii_def utf8_char_def)

lemma utf8_len_temp: "utf8_len (temp_name f i) = utf8_len f + 6 + length (show_nat i)"
  using utf8_len_plain[of i] by (simp add: temp_name_def) (simp add: ascii_def utf8_char_def)

lemma chosen_destination:
  assumes f: "safe_name f" "\<not> temporary f" "utf8_len f \<le> 239" and few: "length fs + length (ft_completed ft) + length (ft_incoming ft) < 2 ^ 32 - 1"
  obtains n where "reserve_destination ft fs f = upath_join (ft_dir ft) n" "safe_name n" "\<not> temporary n" "utf8_len n \<le> 255"
proof -
  obtain stem where s: "name_stem f = Some stem" "47 \<notin> set stem" "0 \<notin> set stem" using stem_and_extension_clean(1)[OF f(1)] by blast
  let ?ext = "name_extension f"
  have parts: "utf8_len stem + (case ?ext of None \<Rightarrow> 0 | Some e \<Rightarrow> 1 + utf8_len e) = utf8_len f" "\<And>e. ?ext = Some e \<Longrightarrow> 46 \<notin> set e"
    using s(1) f(1) by (cases "rsplit_dot f"; auto simp: name_stem_def name_extension_def safe_name_def rsplit_dot_Some utf8_char_def split: if_splits)+
  have n: "safe_name (numbered_name stem ?ext i)" "\<not> temporary (numbered_name stem ?ext i)" for i
    using s(2,3) stem_and_extension_clean(2)[OF f(1)] numbered_not_temporary parts(2) by (blast intro: numbered_name_safe)+
  let ?tries = "length fs + length (ft_completed ft) + length (ft_incoming ft)"
  obtain k where k: "k \<le> ?tries" "free_destination ?tries ft fs stem ?ext 1 = upath_join (ft_dir ft) (numbered_name stem ?ext (1 + k))"
    using free_destination_first by blast
  have "length (show_nat (1 + k)) \<le> Suc 9" using k(1) few by (intro length_show_nat) simp
  then have "utf8_len (numbered_name stem ?ext (1 + k)) \<le> 255" using parts(1) f(3) unfolding utf8_len_numbered by linarith
  then show thesis
    using n k(2) s(1) f that[of f] that[of "numbered_name stem ?ext (1 + k)"]
    by (cases "destination_is_taken ft fs (upath_join (ft_dir ft) f)") (simp_all add: reserve_destination_def Let_def)
qed

definition started :: "(nat \<Rightarrow> nat list) \<Rightarrow> unicode \<Rightarrow> nat \<Rightarrow> nat \<Rightarrow> nat \<Rightarrow> file_output list \<Rightarrow> file_transfer_state \<times> files \<Rightarrow> bool" where
  "started contents dir serial first k requests = (\<lambda>(ft, fs).
     delivering contents (mset [0..<k]) serial [] (ft, fs) \<and> ft_dir ft = dir \<and> ft_next_id ft = (first + k) mod 2 ^ 32 \<and>
     mset requests = image_mset request_of (mset (ft_incoming ft)) \<and>
     (\<forall>i \<in> fst ` set (ft_incoming ft). \<exists>j < k. i = (first + j) mod 2 ^ 32) \<and>
     (\<forall>(i, f) \<in> set (ft_incoming ft). \<exists>n. inc_final f = upath_join dir n \<and> safe_name n \<and> \<not> temporary n) \<and>
     utf8_len dir \<le> 3839 \<and> length fs + length (ft_incoming ft) < 2 ^ 31 + 2 * k \<and>
     (\<forall>n j. safe_name n \<longrightarrow> k \<le> j \<longrightarrow> j < 2 ^ 32 \<longrightarrow> map_of fs (upath_join dir (temp_name n ((first + j) mod 2 ^ 32))) = None) \<and>
     sum_mset (image_mset (work contents \<circ> snd) (mset (ft_incoming ft))) \<le> (\<Sum>j<k. 1 + (length (contents j) + MAX_RANGE - 1) div MAX_RANGE))"

definition announces :: "(nat \<Rightarrow> nat list) \<Rightarrow> nat \<Rightarrow> file_descriptor \<Rightarrow> bool" where
  "announces contents k d \<longleftrightarrow> (fd_size d = None \<or> fd_size d = Some (length (contents k))) \<and> length (contents k) < 2 ^ 64 \<and>
     utf8_len (linux_filename (fd_name d)) \<le> 239 \<and> \<not> temporary (linux_filename (fd_name d))"

lemma mod_distinct:
  assumes "j < k" "k < 2 ^ 32"
  shows "(first + j) mod 2 ^ 32 \<noteq> (first + k) mod (2 :: nat) ^ 32"
proof
  assume "(first + j) mod 2 ^ 32 = (first + k) mod (2 :: nat) ^ 32"
  then have "(first + k) mod (2 :: nat) ^ 32 = (first + j) mod 2 ^ 32" ..
  then have "2 ^ 32 dvd (first + k) - (first + j)" using assms(1) by (subst (asm) mod_eq_dvd_iff_nat) auto
  then have "2 ^ 32 \<le> k - j" using assms(1) by (intro dvd_imp_le) auto
  with assms(2) show False by simp
qed

lemma started_step:
  assumes s: "started contents dir serial first k requests (ft, fs)" and k: "k < 2 ^ 30" and d: "announces contents k d"
  shows "\<exists>r s'. start_file working_io Connected (k, d) (ft, fs) = ([r], s') \<and> started contents dir serial first (Suc k) (requests @ [r]) s'"
proof -
  define i nm where "i = (first + k) mod 2 ^ 32" and "nm = linux_filename (fd_name d)"
  define ft1 where "ft1 = ft\<lparr>ft_next_id := (i + 1) mod 2 ^ 32\<rparr>"
  have st: "delivering contents (mset [0..<k]) serial [] (ft, fs)" "ft_dir ft = dir" "ft_next_id ft = i" using s by (simp_all add: started_def i_def)
  have nm: "safe_name nm" "\<not> temporary nm" "utf8_len nm \<le> 239" using d linux_filename_safe by (simp_all add: nm_def announces_def)
  have few: "length fs + length (ft_incoming ft) < 2 ^ 31 + 2 * k" "ft_completed ft = []" "utf8_len dir \<le> 3839" using s by (simp_all add: started_def delivering_def)
  then have "length fs + length (ft_completed ft1) + length (ft_incoming ft1) < 2 ^ 32 - 1" using k by (simp add: ft1_def)
  from chosen_destination[OF nm this]
  obtain n where n: "reserve_destination ft1 fs nm = upath_join dir n" "safe_name n" "\<not> temporary n" "utf8_len n \<le> 255"
    using st(2) by (auto simp: ft1_def)
  have free: "\<not> destination_is_taken ft1 fs (upath_join dir n)" using reserved_destination(2)[OF nm(1), of ft1 fs] n(1) by simp
  define temp where "temp = upath_join dir (temp_name nm i)"
  have hidden: "upath_join dir m \<noteq> temp" if "safe_name m" "\<not> temporary m" for m
    using that upath_join_inj[OF that(1) temp_name_safe[OF nm(1)]] by (auto simp: temp_def temporary_def)
  have "length (show_nat i) \<le> Suc 9" unfolding i_def by (intro length_show_nat less_trans[OF mod_less_divisor]) simp_all
  then have fits: "path_fits temp" "path_fits (upath_join dir n)"
    using nm(3) n few(3) join_fits temp_name_safe[OF nm(1)] by (simp_all add: temp_def utf8_len_temp)
  have new: "map_of fs temp = None" using s nm(1) k by (simp add: started_def temp_def i_def)
  have fresh: "i \<notin> fst ` set (ft_incoming ft)" using s mod_distinct[of _ k first] k by (fastforce simp: started_def i_def)
  define f where "f = \<lparr>inc_final = upath_join dir n, inc_total = fd_size d, inc_awaiting = (fd_size d = None \<or> fd_size d = Some 0), inc_received = 0, inc_temp = temp,
    inc_index = k, inc_data_id = 1\<rparr>"
  have ff: "inc_index f = k" "inc_temp f = temp" "inc_final f = upath_join dir n" by (simp_all add: f_def)
  have start: "start_file working_io Connected (k, d) (ft, fs) = ([request_of (i, f)], ft1\<lparr>ft_incoming := AList.update i f (ft_incoming ft)\<rparr>, (temp, []) # fs)"
  proof -
    have "allocate_stream_id ft = (i, ft1)" by (simp add: allocate_stream_id_def st(3) ft1_def)
    moreover have "temp \<notin> fst ` set fs" using new by (simp add: path_absent)
    moreover have "ft_dir ft1 = dir" "ft_incoming ft1 = ft_incoming ft" using st(2) by (simp_all add: ft1_def)
    ultimately show ?thesis
      using d k n(1) fits(1) by (auto simp: start_file_def Let_def nm_def[symmetric] temp_def[symmetric] send_output_def request_of_def f_def announces_def split: option.splits)
  qed
  have old: "fetching contents ((temp, []) # fs) h \<and> inc_temp h \<noteq> temp \<and> inc_final h \<noteq> upath_join dir n" if "(j, h) \<in> set (ft_incoming ft)" for j h
  proof -
    have "fetching contents fs h" using st(1) that by (auto simp: delivering_def)
    moreover from this have "inc_temp h \<noteq> temp" using new by (auto simp: fetching_def)
    moreover have "inc_final h \<noteq> temp" using s that hidden by (fastforce simp: started_def)
    moreover have "inc_final h \<noteq> upath_join dir n" using free that by (force simp: destination_is_taken_def ft1_def)
    ultimately show ?thesis by (simp add: fetching_def)
  qed
  have "map_of fs (upath_join dir n) = None" using free by (simp add: destination_is_taken_def path_absent)
  then have this_file: "fetching contents ((temp, []) # fs) f"
    using d k hidden[OF n(2,3)] fits(2) by (auto simp: fetching_def f_def announces_def)
  have u: "set (AList.update i f (ft_incoming ft)) = insert (i, f) (set (ft_incoming ft))" "mset (AList.update i f (ft_incoming ft)) = add_mset (i, f) (mset (ft_incoming ft))"
    using update_new[OF fresh, of f] by (metis set_mset_add_mset_insert set_mset_mset, simp)
  have "apart (mset (AList.update i f (ft_incoming ft)))" unfolding u(2)
    using st(1) old fresh by (subst apart_add) (force simp: delivering_def ff)+
  have del: "delivering contents (mset [0..<Suc k]) serial [] (ft1\<lparr>ft_incoming := AList.update i f (ft_incoming ft)\<rparr>, (temp, []) # fs)"
  proof -
    have "mset [0..<Suc k] = add_mset k (mset [0..<k])" by simp
    then show ?thesis using st(1) old this_file \<open>apart (mset (AList.update i f (ft_incoming ft)))\<close>
      by (auto simp: delivering_def u ft1_def distinct_update ff simp del: mset_upt)
  qed
  have later: "map_of ((temp, []) # fs) (upath_join dir (temp_name m ((first + j) mod 2 ^ 32))) = None" if "safe_name m" "Suc k \<le> j" "j < 2 ^ 32" for m j
  proof -
    have "(first + k) mod 2 ^ 32 \<noteq> (first + j) mod 2 ^ 32" using mod_distinct[of k j first] that by simp
    then have "upath_join dir (temp_name m ((first + j) mod 2 ^ 32)) \<noteq> temp"
      using upath_join_inj[OF temp_name_safe[OF that(1)] temp_name_safe[OF nm(1)]] temp_name_id by (metis i_def temp_def)
    then show ?thesis using s that by (simp add: started_def)
  qed
  have "started contents dir serial first (Suc k) (requests @ [request_of (i, f)]) (ft1\<lparr>ft_incoming := AList.update i f (ft_incoming ft)\<rparr>, (temp, []) # fs)"
    unfolding started_def prod.case
  proof (intro conjI)
    show "ft_next_id (ft1\<lparr>ft_incoming := AList.update i f (ft_incoming ft)\<rparr>) = (first + Suc k) mod 2 ^ 32" by (simp add: ft1_def i_def mod_Suc_eq)
    show "\<forall>i' \<in> fst ` set (ft_incoming (ft1\<lparr>ft_incoming := AList.update i f (ft_incoming ft)\<rparr>)). \<exists>j < Suc k. i' = (first + j) mod 2 ^ 32"
    proof -
      have "\<exists>j < Suc k. i' = (first + j) mod 2 ^ 32" if "i' \<in> fst ` set (ft_incoming ft)" for i'
        using s that unfolding started_def prod.case by (blast intro: less_SucI)
      moreover have "\<exists>j < Suc k. i = (first + j) mod 2 ^ 32" unfolding i_def by blast
      ultimately show ?thesis by (simp add: u)
    qed
    show "\<forall>(j, h) \<in> set (ft_incoming (ft1\<lparr>ft_incoming := AList.update i f (ft_incoming ft)\<rparr>)). \<exists>n. inc_final h = upath_join dir n \<and> safe_name n \<and> \<not> temporary n"
      using s n(2,3) ff(3) unfolding started_def by (auto simp: u)
    have "length (AList.update i f (ft_incoming ft)) = Suc (length (ft_incoming ft))" using u(2) by (metis size_add_mset size_mset)
    then show "length ((temp, []) # fs) + length (ft_incoming (ft1\<lparr>ft_incoming := AList.update i f (ft_incoming ft)\<rparr>)) < 2 ^ 31 + 2 * Suc k"
      using few(1) by simp
    have "work contents f \<le> 1 + (length (contents k) + MAX_RANGE - 1) div MAX_RANGE" by (simp add: work_def f_def)
    then show "sum_mset (image_mset (work contents \<circ> snd) (mset (ft_incoming (ft1\<lparr>ft_incoming := AList.update i f (ft_incoming ft)\<rparr>)))) \<le>
        (\<Sum>j<Suc k. 1 + (length (contents j) + MAX_RANGE - 1) div MAX_RANGE)" using s by (simp add: started_def u)
  qed (use s del later st(2) in \<open>simp_all add: started_def u ft1_def\<close>)
  with start show ?thesis by blast
qed

lemma started_all:
  assumes "started contents dir serial first k requests s" "k + length ds \<le> 2 ^ 30" "\<forall>j < length ds. announces contents (k + j) (ds ! j)"
  shows "\<exists>new s'. start_files working_io Connected (enumerate k ds) s = (new, s') \<and> started contents dir serial first (k + length ds) (requests @ new) s'"
  using assms
proof (induction ds arbitrary: k requests s)
  case (Cons d ds)
  obtain ft fs where s: "s = (ft, fs)" by (cases s)
  have "announces contents k d" using Cons.prems(3) by auto
  moreover have "k < 2 ^ 30" using Cons.prems(2) by simp
  ultimately obtain r s1 where
    r: "start_file working_io Connected (k, d) (ft, fs) = ([r], s1)" "started contents dir serial first (Suc k) (requests @ [r]) s1"
    using started_step[OF Cons.prems(1)[unfolded s]] by blast
  have "\<forall>j < length ds. announces contents (Suc k + j) (ds ! j)" using Cons.prems(3) by auto
  with Cons.IH[OF r(2)] Cons.prems(2) obtain new s' where
    "start_files working_io Connected (enumerate (Suc k) ds) s1 = (new, s')" "started contents dir serial first (Suc k + length ds) (requests @ [r] @ new) s'" by auto
  with r(1) show ?case by (simp add: s)
qed simp

lemma batch_run: "batch_state enc contents idxs serial (length order) st \<Longrightarrow> batch_state enc contents idxs serial 0 (fold (answer_one enc contents) order st)"
  by (induction order arbitrary: st) (simp_all add: batch_progress)

lemma batch_finished:
  assumes "batch_state enc contents idxs serial 0 ((ft, fs), requests, told)"
  shows "\<exists>dn. batch_delivered enc contents idxs serial dn told fs"
proof (cases "ft_incoming ft")
  case Nil
  then show ?thesis using assms by (auto simp: batch_state_def)
next
  case (Cons x xs)
  then have "fetching contents fs (snd x)" "work contents (snd x) = 0" using assms by (auto simp: batch_state_def delivering_def)
  then show ?thesis using work_pos by force
qed

lemma batch_delivered_files:
  assumes "batch_delivered enc contents idxs serial dn told fs"
  shows "image_mset (map_of fs) (mset (map snd dn)) = image_mset (\<lambda>j. Some (contents j)) idxs"
proof -
  have "image_mset (map_of fs \<circ> snd) (mset dn) = image_mset ((\<lambda>j. Some (contents j)) \<circ> fst) (mset dn)"
    using assms by (intro image_mset_cong) (auto simp: batch_delivered_def)
  then show ?thesis using assms by (auto simp: batch_delivered_def image_mset.compositionality)
qed

text \<open>
  C40.  Files pasted by the client arrive.  Let no transfer be under way, let the operating system do what it is asked to for every name of at most 255 bytes, and let the
  download directory hold fewer than $2^{31}$ files, none of them named like a temporary file of a download, under a path that leaves room for a name.  When the client then announces files, at most $2^{30}$, whose
  sanitised names have at most 239 bytes and are not named like temporary files themselves, with their right sizes or none, and answers every request with what it asks for, in any order, then
  after enough answers each file is in the directory with exactly its contents, and the requester has been told of the paths, once, with success.
\<close>

theorem downloads_deliver:
  assumes "ft_incoming ft = []" "ft_next_id ft < 2 ^ 32" "descriptors \<noteq> []" "length descriptors \<le> 2 ^ 30" "\<forall>j < length descriptors. announces contents j (descriptors ! j)"
    "\<forall>n i. safe_name n \<longrightarrow> map_of fs (upath_join (ft_dir ft) (temp_name n i)) = None" "length fs < 2 ^ 31" "utf8_len (ft_dir ft) \<le> 3839"
    "(\<Sum>j<length descriptors. 1 + (length (contents j) + MAX_RANGE - 1) div MAX_RANGE) \<le> length order"
  shows "\<exists>requests s ft' fs' paths.
    start_download working_io Connected serial mime descriptors (ft, fs) = (requests, s) \<and>
    fst (fold (answer_one enc contents) order (s, requests, [])) = (ft', fs') \<and>
    snd (snd (fold (answer_one enc contents) order (s, requests, []))) =
      [Complete_transfer serial (ascii ''x-special/gnome-copied-files'') (to_utf8 (copied_files enc paths)) True] \<and>
    distinct paths \<and> image_mset (map_of fs') (mset paths) = image_mset (\<lambda>j. Some (contents j)) (mset [0..<length descriptors])"
proof -
  let ?ft = "ft\<lparr>ft_incoming := [], ft_completed := [], ft_descriptors := descriptors, ft_serial := Some serial\<rparr>"
  let ?n = "length descriptors"
  have "clear_incoming working_io (ft, fs) = (ft\<lparr>ft_incoming := [], ft_serial := None, ft_completed := []\<rparr>, fs)"
    using assms(1) by (simp add: clear_incoming_def remove_files_def)
  then have start: "start_download working_io Connected serial mime descriptors (ft, fs) = start_files working_io Connected (enumerate 0 descriptors) (?ft, fs)"
    using assms(1) by (simp add: start_download_def)
  have "started contents (ft_dir ft) serial (ft_next_id ft) 0 [] (?ft, fs)"
    using assms(2,6-8) by (simp add: started_def delivering_def apart_def)
  then obtain requests s where s: "start_files working_io Connected (enumerate 0 descriptors) (?ft, fs) = (requests, s)"
      "started contents (ft_dir ft) serial (ft_next_id ft) ?n requests s"
    using started_all[of contents "ft_dir ft" serial "ft_next_id ft" 0 "[]" "(?ft, fs)" descriptors] assms(4,5) by auto
  obtain ft1 fs1 where s1: "s = (ft1, fs1)" by (cases s)
  have "ft_incoming ft1 \<noteq> []" using s(2) assms(3) by (auto simp: s1 started_def delivering_def mset_set_empty_iff)
  then have "batch_state enc contents (mset [0..<?n]) serial (length order) (s, requests, [])"
    using s(2) assms(9) unfolding s1 batch_state_def started_def by (auto intro!: exI[of _ "[]"] elim: order_trans)
  from batch_run[OF this] obtain ft' fs' rs told where
    f: "fold (answer_one enc contents) order (s, requests, []) = ((ft', fs'), rs, told)" "batch_state enc contents (mset [0..<?n]) serial 0 ((ft', fs'), rs, told)"
    by (metis surj_pair)
  then obtain dn where "batch_delivered enc contents (mset [0..<?n]) serial dn told fs'" using batch_finished by blast
  with f(1) s(1) start batch_delivered_files[OF this] show ?thesis by (intro exI[of _ requests] exI[of _ s] exI[of _ ft'] exI[of _ fs'] exI[of _ "map snd dn"]) (simp add: batch_delivered_def)
qed

definition note_descriptor :: file_descriptor where
  "note_descriptor = \<lparr>fd_flags = 64, fd_attributes = 128, fd_creation_time = None, fd_access_time = None, fd_write_time = None, fd_size = Some 3, fd_name = ascii ''a.txt''\<rparr>"

theorem downloads_deliver_witness:
  "\<exists>requests s ft' fs'. start_download working_io Connected 7 [] [note_descriptor] (transfer_state_new (ascii ''/d''), []) = (requests, s) \<and>
     fst (fold (answer_one id (\<lambda>_. [1, 2, 3])) [0, 0] (s, requests, [])) = (ft', fs') \<and> (\<exists>p. map_of fs' p = Some [1, 2, 3])"
proof -
  have "linux_filename (ascii ''a.txt'') = ascii ''a.txt''" by code_simp
  then have a: "announces (\<lambda>_. [1, 2, 3]) 0 note_descriptor"
    by (simp add: announces_def note_descriptor_def temporary_def temp_name_def) (simp add: ascii_def utf8_char_def)
  have "\<exists>requests s ft' fs' paths.
    start_download working_io Connected 7 [] [note_descriptor] (transfer_state_new (ascii ''/d''), []) = (requests, s) \<and>
    fst (fold (answer_one id (\<lambda>_. [1, 2, 3])) [0, 0] (s, requests, [])) = (ft', fs') \<and>
    snd (snd (fold (answer_one id (\<lambda>_. [1, 2, 3])) [0, 0] (s, requests, []))) =
      [Complete_transfer 7 (ascii ''x-special/gnome-copied-files'') (to_utf8 (copied_files id paths)) True] \<and>
    distinct paths \<and> image_mset (map_of fs') (mset paths) = image_mset (\<lambda>j. Some [1, 2, 3]) (mset [0..<length [note_descriptor]])"
    by (rule downloads_deliver) (use a in \<open>simp_all add: transfer_state_new_def MAX_RANGE_def ascii_def utf8_char_def\<close>)
  then obtain requests s ft' fs' paths where r: "start_download working_io Connected 7 [] [note_descriptor] (transfer_state_new (ascii ''/d''), []) = (requests, s)"
    "fst (fold (answer_one id (\<lambda>_. [1, 2, 3])) [0, 0] (s, requests, [])) = (ft', fs')" "image_mset (map_of fs') (mset paths) = {#Some [1, 2, 3]#}" by auto
  then have "Some [1, 2, 3] \<in># image_mset (map_of fs') (mset paths)" by simp
  then obtain p where "map_of fs' p = Some [1, 2, 3]" by (metis imageE set_image_mset)
  with r(1,2) show ?thesis by blast
qed

definition paste_events :: "(file_context \<times> file_event) list" where
  "paste_events = [((working_io, Connected, True), Files_arrived 7 [] [note_descriptor]), ((working_io, Connected, True), Contents_arrived 1 [1, 2, 3] False)]"

theorem downloads_never_overwrite_witness:
  "map_of (snd (fold (file_step id) paste_events (transfer_state_new (ascii ''/d''), [(ascii ''/d/a.txt'', [9])]))) (ascii ''/d/a.txt'') = Some [9] \<and>
   map_of (snd (fold (file_step id) paste_events (transfer_state_new (ascii ''/d''), [(ascii ''/d/a.txt'', [9])]))) (ascii ''/d/a (1).txt'') = Some [1, 2, 3] \<and>
   (\<exists>n. ascii ''/d/a (1).txt'' = upath_join (ascii ''/d'') n \<and> n \<noteq> [] \<and> 47 \<notin> set n \<and> 0 \<notin> set n \<and> n \<noteq> ascii ''.'' \<and> n \<noteq> ascii ''..'')"
proof -
  let ?fs = "map_of (snd (fold (file_step id) paste_events (transfer_state_new (ascii ''/d''), [(ascii ''/d/a.txt'', [9])])))"
  let ?temp = "ascii ''/d/.a.txt.1.tmp''" let ?final = "ascii ''/d/a (1).txt''" let ?old = "(ascii ''/d/a.txt'', [9 :: nat])"
  let ?ft = "\<lparr>ft_incoming = [], ft_outgoing = [], ft_descriptors = [note_descriptor], ft_dir = ascii ''/d'', ft_serial = Some 7, ft_next_id = Suc (Suc 0), ft_completed = []\<rparr>"
  have p: "linux_filename (ascii ''a.txt'') = ascii ''a.txt''" "upath_join (ascii ''/d'') (temp_name (ascii ''a.txt'') 1) = ?temp" by code_simp+
  have r: "reserve_destination ?ft [?old] (ascii ''a.txt'') = ?final" by code_simp
  have t: "?temp \<noteq> ascii ''/d/a.txt''" "?final \<noteq> ascii ''/d/a.txt''" "?temp \<noteq> ?final" "path_fits ?temp" "path_fits ?final" by code_simp+
  have "snd (start_download working_io Connected 7 [] [note_descriptor] (transfer_state_new (ascii ''/d''), [?old])) =
      (?ft\<lparr>ft_incoming := [(1, \<lparr>inc_final = ?final, inc_total = Some 3, inc_awaiting = False, inc_received = 0, inc_temp = ?temp, inc_index = 0, inc_data_id = 1\<rparr>)]\<rparr>, [(?temp, []), ?old])"
    using p r t by (simp add: start_download_def transfer_state_new_def clear_incoming_def remove_files_def start_file_def allocate_stream_id_def note_descriptor_def Let_def)
  then have new: "?fs ?final = Some [1, 2, 3]"
    using t by (simp add: paste_events_def handle_rdp_file_contents_response_def Let_def append_file_def complete_file_def finalize_without_replace_def)
  have "?fs (ascii ''/d/a.txt'') = Some [9]" 
    using downloads_never_overwrite[of "[(ascii ''/d/a.txt'', [9])]" id paste_events "ascii ''/d''"] by (simp add: map_le_def)
  moreover have "map_of [(ascii ''/d/a.txt'', [9 :: nat])] (ascii ''/d/a (1).txt'') = None" by (simp add: ascii_def)
  ultimately show ?thesis using new downloads_never_overwrite[of "[(ascii ''/d/a.txt'', [9])]" id paste_events "ascii ''/d''"] by force
qed

text \<open>
  A name that is too long for its temporary file is skipped: nothing is requested and no transfer is recorded, so that the rest of the batch is
  delivered, and announced as a success, without it.  A name of 255 bytes, which the sanitizer allows, is such a name.
\<close>

lemma long_name_skipped:
  assumes "249 - length (show_nat (ft_next_id ft)) < utf8_len (linux_filename (fd_name d))"
  shows "start_file working_io l (idx, d) (ft, fs) = ([], ft\<lparr>ft_next_id := (ft_next_id ft + 1) mod 2 ^ 32\<rparr>, fs)"
proof -
  have "255 < utf8_len (temp_name (linux_filename (fd_name d)) (ft_next_id ft))" using assms by (simp add: utf8_len_temp)
  then have "\<not> path_fits (upath_join (ft_dir ft) (temp_name (linux_filename (fd_name d)) (ft_next_id ft)))"
    using long_name_does_not_fit temp_name_safe[OF linux_filename_safe] by blast
  then show ?thesis by (simp add: start_file_def allocate_stream_id_def Let_def)
qed

lemma full_length_name_skipped:
  "start_file working_io l (0, note_descriptor\<lparr>fd_name := replicate 255 97\<rparr>) (transfer_state_new dir, []) = ([], (transfer_state_new dir)\<lparr>ft_next_id := 2\<rparr>, [])"
proof -
  have "utf8_len (linux_filename (replicate 255 97)) = 255" by code_simp
  then show ?thesis by (subst long_name_skipped) (simp_all add: transfer_state_new_def show_nat.simps)
qed

section \<open>Transfers that block the next\<close>

text \<open>
  A file that could not be written stays in the batch, and so does one whose size came in a malformed answer.  Until the connection ends, every other
  paste of files is then refused.
\<close>

lemma failed_write_stays:
  assumes "map_of (ft_incoming ft) i = Some f" "\<not> inc_awaiting f" "io_write io = Some n"
  shows "\<exists>fs'. handle_rdp_file_contents_response enc io l provider i data False (ft, fs) = (Err (File_io_error ''File write failed''), [], ft, fs')"
  using assms by (simp add: handle_rdp_file_contents_response_def)

lemma malformed_size_stays:
  assumes "map_of (ft_incoming ft) i = Some f" "inc_awaiting f" "length data \<noteq> 8"
  shows "\<exists>e. handle_rdp_file_contents_response enc io l provider i data False (ft, fs) = (Err e, [], ft, fs)"
  using assms by (simp add: handle_rdp_file_contents_response_def apply_size_response_def)

lemma busy_refuses: "ft_incoming ft \<noteq> [] \<Longrightarrow> start_download io l serial mime ds (ft, fs) = ([Complete_transfer serial mime [] False], ft, fs)"
  by (simp add: start_download_def)

text \<open>A last file that cannot get its name leaves the requester without an answer, and so does a batch of which no file can be created.\<close>

lemma failed_rename_unanswered:
  assumes "map_of (ft_incoming ft) i = Some f" "ft_incoming ft = [(i, f)]" "\<not> inc_awaiting f" "inc_total f = Some n" "n \<le> inc_received f + length data"
    "io_write io = None" "io_flush io" "\<not> io_rename io (inc_final f)"
  shows "\<exists>ft' fs'. handle_rdp_file_contents_response enc io l provider i data False (ft, fs) = (Err (File_io_error ''Failed to finalize file''), [], ft', fs') \<and>
    ft_incoming ft' = [] \<and> ft_serial ft' = ft_serial ft"
  using assms by (auto simp: handle_rdp_file_contents_response_def Let_def complete_file_def finalize_without_replace_def split: option.splits)

lemma nothing_created_unanswered:
  assumes "ft_incoming ft = []" "\<not> io_mkdir io"
  shows "\<exists>ft' fs'. start_download io Connected serial mime ds (ft, fs) = ([], ft', fs') \<and> ft_incoming ft' = [] \<and> ft_serial ft' = Some serial"
proof -
  have one: "\<exists>ft' fs'. start_files io Connected ds (ft, fs) = ([], ft', fs') \<and> ft_incoming ft' = ft_incoming ft \<and> ft_serial ft' = ft_serial ft" for ds ft fs
  proof (induction ds arbitrary: ft fs)
    case (Cons d ds)
    obtain ft1 where "start_file io Connected d (ft, fs) = ([], ft1, fs)" "ft_incoming ft1 = ft_incoming ft" "ft_serial ft1 = ft_serial ft"
      using assms(2) by (cases d) (auto simp: start_file_def allocate_stream_id_def Let_def)
    with Cons.IH[of ft1 fs] show ?case by auto
  qed simp
  show ?thesis
    using assms(1) one[of "enumerate 0 ds" "ft\<lparr>ft_incoming := [], ft_completed := [], ft_descriptors := ds, ft_serial := Some serial\<rparr>"]
    by (simp add: start_download_def clear_incoming_def)
qed

text \<open>On Latin-1 names this is the function of \<open>Wrdp_Clipboard_Sanitize\<close>.\<close>

lemma of_char_codes:
  "of_char c = (46 :: nat) \<longleftrightarrow> c = CHR ''.''" "of_char c = (47 :: nat) \<longleftrightarrow> c = CHR ''/''" "of_char c = (0 :: nat) \<longleftrightarrow> c = CHR 0x00"
  "of_char c = (92 :: nat) \<longleftrightarrow> c = CHR 0x5C" "of_char c = (45 :: nat) \<longleftrightarrow> c = CHR ''-''"
  using of_char_eq_iff[of c "CHR ''.''", where 'a = nat] of_char_eq_iff[of c "CHR ''/''", where 'a = nat] of_char_eq_iff[of c "CHR 0x00", where 'a = nat]
    of_char_eq_iff[of c "CHR 0x5C", where 'a = nat] of_char_eq_iff[of c "CHR ''-''", where 'a = nat] by simp_all

lemma utf8_len_ascii: "utf8_len (ascii s) = str_len s"
proof (induction s)
  case (Cons c s)
  have "of_char c < (2048 :: nat)" "of_char c < (65536 :: nat)" using nat_of_char_less_256[of c] by linarith+
  then have "length (utf8_char (of_char c)) = utf8_width c" by (simp add: utf8_width_def utf8_char_def)
  with Cons show ?case by (simp add: ascii_def str_len_def)
qed (simp add: ascii_def str_len_def)

lemma rsplit_dot_ascii: "rsplit_dot (ascii s) = map_option (\<lambda>(b, e). (ascii b, ascii e)) (rsplit_once (CHR ''.'') s)"
proof (cases "rsplit_once (CHR ''.'') s")
  case None
  then have "46 \<notin> set (ascii s)" by (auto simp: rsplit_once_None ascii_def of_char_codes)
  with None show ?thesis by (simp add: rsplit_dot_def)
next
  case (Some p)
  obtain b e where p: "p = (b, e)" by (cases p)
  then have "s = b @ CHR ''.'' # e" "CHR ''.'' \<notin> set e" using Some by (simp_all add: rsplit_once_Some)
  moreover have "46 \<notin> set (ascii e)" using calculation(2) by (auto simp: ascii_def of_char_codes)
  ultimately show ?thesis using Some p by (simp add: rsplit_dot_Some) (simp add: ascii_def)
qed

lemma linux_filename_latin1: "linux_filename (ascii s) = ascii (sanitize_filename_for_linux s)"
proof (cases "s = []")
  case False
  have m: "map (\<lambda>c. if c = 47 \<or> c = 0 \<or> c = 92 then 95 else c) (ascii s) = ascii (map linux_char s)"
    by (auto simp: ascii_def linux_char_def of_char_codes)
  have h: "hd (ascii (map linux_char s)) = 45 \<longleftrightarrow> hd (map linux_char s) = CHR ''-''" using False by (cases s) (simp_all add: ascii_def of_char_codes)
  define t where "t = (if hd (map linux_char s) = CHR ''-'' then CHR ''_'' # map linux_char s else map linux_char s)"
  have t: "(if hd (ascii (map linux_char s)) = 45 then 95 # ascii (map linux_char s) else ascii (map linux_char s)) = ascii t"
    unfolding t_def h by (simp add: ascii_def)
  have d: "str_len (CHR ''.'' # e) = Suc (str_len e)" "length (utf8_char 46) = Suc 0" for e by (simp_all add: str_len_def utf8_width_def utf8_char_def)
  have unnamed: "ascii t = [] \<or> ascii t = ascii ''.'' \<or> ascii t = ascii ''..'' \<longleftrightarrow> t = [] \<or> t = ''.'' \<or> t = ''..''" using ascii_inj[of t "[]"] by (simp add: ascii_inj) (simp add: ascii_def)
  have cut: "(if utf8_len (ascii t) > 255
      then case rsplit_dot (ascii t) of
             Some (base, ext) \<Rightarrow> if utf8_len (46 # ext) < 255 - 1 then take (255 - utf8_len (46 # ext)) base @ 46 # ext else take 255 (ascii t)
           | None \<Rightarrow> take 255 (ascii t)
      else ascii t) = ascii (truncate_name 255 t)"
  proof (cases "rsplit_once (CHR ''.'') t")
    case None
    then show ?thesis by (simp add: utf8_len_ascii rsplit_dot_ascii truncate_name_def split_extension_def) (simp add: ascii_def take_map)
  next
    case (Some p)
    then show ?thesis by (cases p) (simp add: utf8_len_ascii rsplit_dot_ascii truncate_name_def split_extension_def d, simp add: ascii_def take_map)
  qed
  show ?thesis using False unfolding linux_filename_def sanitize_filename_for_linux_def Let_def m t t_def[symmetric] cut unnamed by (simp add: ascii_def)
qed (simp add: linux_filename_def sanitize_filename_for_linux_def ascii_def)

text \<open>So is the name for Windows that \<open>Wrdp_Clipboard_Formats\<close> puts into the descriptors.\<close>

lemma windows_code_ascii: "map windows_code (ascii s) = ascii (map windows_char s)"
proof -
  have "of_char c \<in> set (ascii WINDOWS_INVALID_CHARS) \<longleftrightarrow> c \<in> set WINDOWS_INVALID_CHARS" for c
    by (auto simp: ascii_def)
  moreover have "of_char c < (32 :: nat) \<or> 127 \<le> (of_char c :: nat) \<and> (of_char c :: nat) < 160 \<longleftrightarrow> char_is_control c" for c
    by (auto simp: char_is_control_def)
  ultimately show ?thesis by (auto simp: ascii_def windows_code_def windows_char_def)
qed

lemma strip_trailing_ascii: "strip_trailing_codes (ascii s) = ascii (strip_trailing s)"
proof (induction s rule: rev_induct)
  case (snoc c s)
  have c: "of_char c = (46 :: nat) \<or> of_char c = (32 :: nat) \<longleftrightarrow> c = CHR ''.'' \<or> c = CHR '' ''"
    using of_char_codes(1)[of c] of_char_eq_iff[of c "CHR '' ''", where 'a = nat] by simp
  have "strip_trailing_codes (ascii (s @ [c])) = (if c = CHR ''.'' \<or> c = CHR '' '' then strip_trailing_codes (ascii s) else ascii (s @ [c]))"
    using c by (auto simp: strip_trailing_codes_def ascii_def)
  then show ?case using snoc by (subst strip_trailing.simps) (auto simp: ends_with_def)
qed (simp add: strip_trailing_codes_def ascii_def strip_trailing.simps ends_with_def)

lemma reserved_name_ascii: "reserved_name (ascii s) \<longleftrightarrow> is_reserved s"
proof -
  have b: "takeWhile (\<lambda>c. c \<noteq> 46) (ascii s) = ascii (takeWhile (\<lambda>c. c \<noteq> CHR ''.'') s)" for s
    by (induction s) (auto simp: ascii_def of_char_codes)
  have "char_to_uppercase c = [46] \<and> c = CHR ''.'' \<or> 46 \<notin> set (char_to_uppercase c) \<and> c \<noteq> CHR ''.''" for c
    using of_char_codes(1)[of c] by (auto simp: char_to_uppercase_def Let_def)
  then have up: "c \<noteq> CHR ''.'' \<Longrightarrow> 46 \<notin> set (char_to_uppercase c)" "char_to_uppercase (CHR ''.'') = [46]" for c by blast+
  have "first_component (to_uppercase (takeWhile (\<lambda>c. c \<noteq> CHR ''.'') s)) = first_component (to_uppercase s)"
  proof (induction s)
    case (Cons c s)
    have "first_component (to_uppercase (c # t)) = char_to_uppercase c @ first_component (to_uppercase t)" if "c \<noteq> CHR ''.''" for t
      using up(1)[OF that] by (auto simp: first_component_def to_uppercase_def takeWhile_append)
    moreover have "first_component (to_uppercase (CHR ''.'' # s)) = []" by (simp add: first_component_def to_uppercase_def up(2))
    ultimately show ?case using Cons by (simp add: first_component_def to_uppercase_def)
  qed simp
  moreover have "map char_of (ascii s) = s" "list_all (\<lambda>c. c < 256) (ascii s)" for s
    using nat_of_char_less_256 by (simp_all add: ascii_def list_all_iff map_idI)
  ultimately show ?thesis by (simp add: reserved_name_def is_reserved_def b)
qed

lemma truncate_ascii: "truncate_unicode 255 (ascii t) = ascii (truncate_name 255 t)"
proof -
  have d: "str_len (CHR ''.'' # e) = Suc (str_len e)" "length (utf8_char 46) = Suc 0" for e by (simp_all add: str_len_def utf8_width_def utf8_char_def)
  show ?thesis
  proof (cases "rsplit_once (CHR ''.'') t")
    case None
    then show ?thesis by (simp add: truncate_unicode_def utf8_len_ascii rsplit_dot_ascii truncate_name_def split_extension_def) (simp add: ascii_def take_map)
  next
    case (Some p)
    then show ?thesis by (cases p) (simp add: truncate_unicode_def utf8_len_ascii rsplit_dot_ascii truncate_name_def split_extension_def d, simp add: ascii_def take_map)
  qed
qed

lemma windows_filename_latin1: "windows_filename (ascii s) = ascii (sanitize_filename_for_windows s)"
proof -
  have e: "ascii t = [] \<longleftrightarrow> t = []" "95 # ascii t = ascii (CHR ''_'' # t)" for t by (simp_all add: ascii_def)
  show ?thesis
    unfolding windows_filename_def sanitize_filename_for_windows_def windows_code_ascii strip_trailing_ascii reserved_name_ascii Let_def e
    by (simp add: truncate_ascii if_distrib[of ascii])
qed

end
