(* ===== verification/Spec2Isabelle.thy ===== *)
theory Spec2Isabelle
  imports Wrdp_Auth Wrdp_Damage Wrdp_Clipboard_Sync Wrdp_Clipboard_Transfer Wrdp_Clipboard_Sanitize Wrdp_Clipboard_Formats Wrdp_Sesman_Lifecycle Wrdp_Input_Handler Wrdp_Color_Space Wrdp_Avc444_Packing Wrdp_Avc444_Encoder Wrdp_Supervision Wrdp_Adaptive_Fps Wrdp_Latency Wrdp_Bitmap Wrdp_Resize Wrdp_Clipboard_Image Wrdp_Clipboard_Files
begin

text \<open>
  WRDP is a single-port, multi-user RDP server for headless Wayland hosts, written in Rust under \<open>src/src\<close>.  A client
  connects and is authenticated; a session manager ensures that the compositor and portal processes of that user run; the frames that the
  compositor delivers are compared, converted, coded and sent; the client's keyboard and pointer events are injected; the
  clipboards of both sides are kept in step; a supervisor watches over the parts of a running session.  This development models those parts
  as pure functions on explicit states and proves what makes them correct.

  \<^bold>\<open>How the parts interact.\<close>  The credential gate decides who is let in, before the session manager is called.  The session manager
  keeps one registry file per user and is the only part that starts or signals processes.  Within a session three flows meet
  only in the supervisor, to which they report failures: graphics (capture, resizing, damage, rate and deadline, conversion, packing,
  coding, or the bitmap fallback), input (a bounded queue, a worker, the keyboard and pointer handlers) and the clipboard (loop suppression, conversions,
  transfers).

  \<^bold>\<open>Foundations.\<close>
  \<^item> \<open>Wrdp_Prelude\<close>: the machine integers of the sources (words where their width matters, \<open>usize\<close> as \<open>nat\<close> with wrap-around written
    out), saturating and checked arithmetic, results, time in nanoseconds, the string API, and the contracts that several components share:
    the locales \<open>safe_steps\<close> (admissible operations never fail and keep an invariant), \<open>io_refinement\<close> (a simulation with
    outputs) and \<open>press_release\<close> (alternation of presses and releases).
  \<^item> \<open>Wrdp_Unicode\<close>: UTF-8, UTF-16, little-endian integers.  \<open>Wrdp_Float\<close>, \<open>Wrdp_Float32\<close>: IEEE arithmetic with infinities and
    NaN, as rationals that are rounded after every operation.  \<open>Wrdp_Simd\<close>: the AVX2 and NEON instructions that the conversions use.

  \<^bold>\<open>Authentication\<close> (\<open>auth/\<close>).  \<open>Wrdp_Auth\<close>: user names, the failure table per peer, the PAM and the static password validators.  C1 to C3 show
  that accepted names are safe, exactly which credentials are accepted, and how often a peer can fail in a period;
  both validators are instances of the locale \<open>credential_gate\<close>.  PAM and Argon2 are parameters.

  \<^bold>\<open>Session manager\<close> (\<open>sesman/\<close>).  \<open>Wrdp_Sesman_Process\<close> (\<open>process.rs\<close>) decides from a view of \<open>/proc\<close> whether a process is the
  recorded one; \<open>Wrdp_Sesman_Paths\<close> (\<open>identity.rs\<close>, \<open>cleanup.rs\<close>) has paths, accounts and the removal of artifacts;
  \<open>Wrdp_Sesman_State\<close> (\<open>state.rs\<close>) the configuration and the registry's data; \<open>Wrdp_Sesman_Dirs\<close> the trusted directories;
  \<open>Wrdp_Sesman_Manager\<close> and \<open>Wrdp_Sesman_Lifecycle\<close> (\<open>mod.rs\<close>) the operations.  An operation maps a world (registry, directories, signals sent,
  observations made) to a result and a world; whatever else may change meanwhile, the process table, the clock and the outcome of system calls, is a function of the
  number of the observation, so that nothing is assumed to stay the same between two observations.  C13 to C18: who may be signalled, what
  prepared directories look like and what is left alone, that teardown signals only authenticated processes, that bound and recently left sessions are not
  swept, what a status that can serve means, and all outcomes of \<open>ensure\<close>.  The locales \<open>locked_operation\<close> and \<open>registry_edit\<close> state what the operations
  on the registry have in common.

  \<^bold>\<open>Input\<close> (\<open>rdp/channels/input/\<close>, \<open>rdp/server/input_handler.rs\<close>).  \<open>Wrdp_Input_Keyboard\<close>: scan codes, layouts, modifiers, repeats.
  \<open>Wrdp_Input_Pointer\<close>: coordinate transformation in \<open>f64\<close>, buttons, wheel.  \<open>Wrdp_Input_Handler\<close>: the queue of 4096 events, the worker, the injections
  and the report of a failure, as sequences of calls in any order and, for the report, as an interleaving of atomic steps of threads.  C19 to C23.

  \<^bold>\<open>Graphics\<close> (\<open>rdp/channels/graphics/\<close>, \<open>desktop/pipewire/\<close>, \<open>rdp/server/display_handler.rs\<close>).
  \<^item> \<open>Wrdp_Damage\<close> (\<open>damage/\<close>): tiles, regions, their merging, the detector (C4 to C6).
  \<^item> \<open>Wrdp_Color\<close>, \<open>Wrdp_Chroma\<close>, \<open>Wrdp_Color_Space\<close>, \<open>Wrdp_Avc444_Packing\<close> (\<open>egfx/color/\<close>): conversion and subsampling in scalar and vector
    form, the range that is announced, and the two views of AVC444 (C24 to C26).
  \<^item> \<open>Wrdp_H264_Level\<close>, \<open>Wrdp_H264_Encoder\<close>, \<open>Wrdp_Avc444_Encoder\<close> (\<open>egfx/h264/\<close>): levels, parameter sets (the locale
    \<open>parameter_cache\<close> for both encoders), intra frames and the omission of the auxiliary view (C27, C28).  The H.264 library is a
    parameter: any function that codes a picture, skips it or fails.
  \<^item> \<open>Wrdp_Adaptive_Fps\<close>, \<open>Wrdp_Latency\<close> (\<open>performance/\<close>): the capture rate and the deadline for pending damage (C30 to C32).
  \<^item> \<open>Wrdp_Pixel_Formats\<close>, \<open>Wrdp_Frames\<close> (\<open>format.rs\<close>, \<open>yuv.rs\<close>, \<open>frame.rs\<close>, \<open>ffi.rs\<close>) and \<open>Wrdp_Bitmap\<close> (\<open>bitmap/converter.rs\<close>): captured
    formats, frames and the fallback without a codec (C33, C34).
  \<^item> \<open>Wrdp_Resize\<close>: the resize transaction as an inductive relation in which requests of the client interleave with every access of the pipeline to the
    shared coordinator (C35, C36).

  \<^bold>\<open>Clipboard\<close> (\<open>rdp/channels/clipboard/\<close>).
  \<^item> \<open>Wrdp_Clipboard_Sync\<close> (\<open>sync.rs\<close>, \<open>core/loop_detector.rs\<close>): echoes and ownership (C7, C8; the locale \<open>echo_memory\<close>); SHA-256 is a parameter of which nothing is assumed.
  \<^item> \<open>Wrdp_Clipboard_Transfer\<close> (\<open>core/transfer.rs\<close>): chunked transfers, refined to a byte accumulator (C9, C10).
  \<^item> \<open>Wrdp_Clipboard_Sanitize\<close> (\<open>core/sanitize.rs\<close>), \<open>Wrdp_Clipboard_Formats\<close> (\<open>core/formats.rs\<close>), \<open>Wrdp_Clipboard_Image\<close> (\<open>core/image.rs\<close>): names, texts, rich text, HTML,
    file lists and bitmaps, mostly as round trips (C11, C12, C37, C38).  The image crate is a parameter with the laws of its pixel buffers.
  \<^item> \<open>Wrdp_Clipboard_Files\<close> (the file transfers of \<open>manager.rs\<close>): pasted files never replace anything and arrive (C39, C40).

  \<^bold>\<open>Supervision\<close> (\<open>rdp/session/supervision\<close>).  \<open>Wrdp_Supervision\<close>: the health of the aspects and the overall status, which is refined to a specification over the
  history of events alone (C29).

  \<^bold>\<open>Bounds and fuel.\<close>  Recursion is structural or proved terminating.  Where the source loops without a bound of its own, the model gives as many
  tries as provably suffice: the search for a free file name tries as often as there are names that could be taken (\<open>free_destination_free\<close>).  A panic of
  the source is \<open>None\<close>.  Conditions such as \<open>< 2 ^ 32\<close> in the statements are the ranges of the source's types, or keep a counter from
  wrapping; those on file names and paths are the limits of Linux.

  \<^bold>\<open>What is simplified.\<close>  A call reads the clock once.  The process table is read atomically by each observation.  Texts of configuration, accounts
  and MIME types are Latin-1; clipboard texts and the names of transferred files have all characters.  Log output and metrics that nothing reads are left out.

  \<^bold>\<open>What is not modelled.\<close>  The event loops of the server and of the clipboard manager apart from the parts named above, the bindings to PipeWire, the
  desktop portal, Wayland, D-Bus and VA-API, TLS, audio, the deserialisation of the configuration and the programs' argument parsing: they
  move data between libraries, whose behaviour is not in these sources.
\<close>

end
